(* ===== verification/Net_Prelude.thy ===== *)
theory Net_Prelude
  imports Main "HOL-Library.Word" "HOL-Library.Sublist"
begin

text \<open>
  Shared vocabulary of the development: the machine types the C++ sources use, the outcome type of
  a run that may leave the defined part of the language, big-endian loads and stores, and the list
  and word lemmas the component theories rely on.

  A \<^verbatim>\<open>std::string\<close> or a \<^verbatim>\<open>const uint8_t*\<close>/\<^verbatim>\<open>size_t\<close> pair is a list of bytes.  A
  \<^verbatim>\<open>size_t\<close> that counts bytes held in memory is a \<open>nat\<close>; every integer that arrives from the
  wire or that the code stores in a fixed-width variable is a word.
\<close>

unbundle bit_operations_syntax

named_theorems wire_simps \<open>lengths and shapes of encoded data\<close>
named_theorems round_trip \<open>decoding after encoding\<close>

section \<open>Types\<close>

type_synonym byte = "8 word"
type_synonym bytes = "byte list"
type_synonym u16 = "16 word"
type_synonym u32 = "32 word"
type_synonym u64 = "64 word"

text \<open>
  What a C++ run can do besides returning: execute an operation the language leaves undefined
  (a shift by the operand's width or more, a read outside a buffer, signed overflow), throw
  \<^verbatim>\<open>std::length_error\<close> from a string operation, or throw \<^verbatim>\<open>std::runtime_error\<close>.
  \<open>Int_Narrowing\<close> marks a run in which a length of 2 GiB or more is narrowed to \<^verbatim>\<open>int\<close>; such
  runs are not followed further.
\<close>

datatype cpp_error =
    Undefined_Behaviour
  | Length_Error
  | Int_Narrowing
  | Runtime_Error string

type_synonym 'a res = "cpp_error + 'a"

definition bindE :: "'a res \<Rightarrow> ('a \<Rightarrow> 'b res) \<Rightarrow> 'b res" where
  "bindE m f = (case m of Inl e \<Rightarrow> Inl e | Inr x \<Rightarrow> f x)"

lemma bindE_simps [simp]:
  "bindE (Inl e) f = Inl e"
  "bindE (Inr x) f = f x"
  by (simp_all add: bindE_def)

lemma bindE_eq_Inr_iff:
  "bindE m f = Inr y \<longleftrightarrow> (\<exists>x. m = Inr x \<and> f x = Inr y)"
  by (cases m) auto

lemma bindE_InrE:
  assumes "bindE m f = Inr y"
  obtains x where "m = Inr x" and "f x = Inr y"
  using assms by (auto simp: bindE_eq_Inr_iff)

lemma bindE_assoc: "bindE (bindE m f) g = bindE m (\<lambda>x. bindE (f x) g)"
  by (cases m) auto

lemma bindE_cong [fundef_cong]:
  assumes "m = m'" and "\<And>x. m' = Inr x \<Longrightarrow> f x = g x"
  shows "bindE m f = bindE m' g"
  using assms by (cases m') auto

text \<open>A string literal of the source, as the bytes it stands for.\<close>

definition str :: "string \<Rightarrow> bytes" where
  "str s = map of_char s"

lemma str_simps [simp]:
  "str [] = []"
  "str (c # cs) = of_char c # str cs"
  by (simp_all add: str_def)

lemma length_str [simp]: "length (str s) = length s"
  by (simp add: str_def)

section \<open>Bytes of a word\<close>

text \<open>\<open>byte_at v k\<close> is \<^verbatim>\<open>static_cast<uint8_t>((v >> k) & 0xFF)\<close>.\<close>

definition byte_at :: "'a::len word \<Rightarrow> nat \<Rightarrow> byte" where
  "byte_at v k = ucast (drop_bit k v AND 0xFF)"

lemma word_255_mask: "(0xFF :: 'a::len word) = mask 8"
  by (simp add: mask_eq_exp_minus_1)

lemma bit_byte_at: "bit (byte_at (v :: 'a::len word) k) n \<longleftrightarrow> n < 8 \<and> bit v (k + n)"
  by (auto simp: byte_at_def bit_simps word_255_mask dest: bit_imp_le_length)

text \<open>Big-endian stores, in the order the sources write the bytes.\<close>

definition be16 :: "u16 \<Rightarrow> bytes" where
  "be16 v = [byte_at v 8, byte_at v 0]"

definition be24 :: "u32 \<Rightarrow> bytes" where
  "be24 v = [byte_at v 16, byte_at v 8, byte_at v 0]"

definition be32 :: "u32 \<Rightarrow> bytes" where
  "be32 v = [byte_at v 24, byte_at v 16, byte_at v 8, byte_at v 0]"

text \<open>Big-endian loads: \<^verbatim>\<open>(uint32_t(p[0]) << 24) | (uint32_t(p[1]) << 16) | ...\<close>.\<close>

definition ld16 :: "byte \<Rightarrow> byte \<Rightarrow> u16" where
  "ld16 a b = push_bit 8 (ucast a) OR ucast b"

definition ld24 :: "byte \<Rightarrow> byte \<Rightarrow> byte \<Rightarrow> u32" where
  "ld24 a b c = push_bit 16 (ucast a) OR push_bit 8 (ucast b) OR ucast c"

definition ld32 :: "byte \<Rightarrow> byte \<Rightarrow> byte \<Rightarrow> byte \<Rightarrow> u32" where
  "ld32 a b c d =
     push_bit 24 (ucast a) OR push_bit 16 (ucast b) OR push_bit 8 (ucast c) OR ucast d"

lemma length_be [simp, wire_simps]:
  "length (be16 v) = 2" "length (be24 w) = 3" "length (be32 w) = 4"
  by (simp_all add: be16_def be24_def be32_def)

lemma ld16_be16 [simp, round_trip]: "ld16 (byte_at v 8) (byte_at v 0) = v"
  by (rule bit_word_eqI) (auto simp: ld16_def bit_simps bit_byte_at)

lemma ld32_be32 [simp, round_trip]:
  "ld32 (byte_at v 24) (byte_at v 16) (byte_at v 8) (byte_at v 0) = v"
proof (rule bit_word_eqI)
  fix n assume "n < LENGTH(32)"
  then consider "n < 8" | "8 \<le> n" "n < 16" | "16 \<le> n" "n < 24" | "24 \<le> n" "n < 32"
    by fastforce
  then show "bit (ld32 (byte_at v 24) (byte_at v 16) (byte_at v 8) (byte_at v 0)) n = bit v n"
    by cases (auto simp: ld32_def bit_simps bit_byte_at)
qed

lemma not_bit_of_unat_less:
  fixes v :: "'a::len word"
  assumes "unat v < 2 ^ k" and "k \<le> n"
  shows "\<not> bit v n"
proof -
  have "unat v < 2 ^ n"
    using assms by (meson le_less_trans less_le_trans one_le_numeral power_increasing)
  then have "\<not> bit (unat v) n"
    by (simp add: bit_iff_odd)
  then show ?thesis
    by (simp add: bit_unsigned_iff)
qed

lemma ld24_be24 [round_trip]:
  assumes "unat v < 2 ^ 24"
  shows "ld24 (byte_at v 16) (byte_at v 8) (byte_at v 0) = v"
proof -
  note high = not_bit_of_unat_less [OF assms]
  show ?thesis
  proof (rule bit_word_eqI)
    fix n assume "n < LENGTH(32)"
    then consider "n < 8" | "8 \<le> n" "n < 16" | "16 \<le> n" "n < 24" | "24 \<le> n" "n < 32"
      by fastforce
    then show "bit (ld24 (byte_at v 16) (byte_at v 8) (byte_at v 0)) n = bit v n"
      by cases (auto simp: ld24_def bit_simps bit_byte_at high)
  qed
qed

end
