(* ===== verification/Cpp_String.thy ===== *)
theory Cpp_String
  imports Net_Prelude
begin

text \<open>
  The parts of the C++ standard library that the message types and codecs use on strings:
  \<^verbatim>\<open>find\<close>, \<^verbatim>\<open>rfind\<close>, \<^verbatim>\<open>substr\<close>, \<^verbatim>\<open>std::tolower\<close> in the C locale, \<^verbatim>\<open>std::to_string\<close> and
  \<^verbatim>\<open>std::from_chars\<close>.  \<^verbatim>\<open>std::string::npos\<close> is \<open>None\<close>.
\<close>

section \<open>Searching\<close>

fun find_sub :: "bytes \<Rightarrow> bytes \<Rightarrow> nat option" where
  "find_sub pat [] = (if pat = [] then Some 0 else None)"
| "find_sub pat (c # s) = (if prefix pat (c # s) then Some 0 else map_option Suc (find_sub pat s))"

definition find_from :: "bytes \<Rightarrow> bytes \<Rightarrow> nat \<Rightarrow> nat option" where
  "find_from pat s pos =
     (if length s < pos then None else map_option (\<lambda>i. pos + i) (find_sub pat (drop pos s)))"

definition rfind_char :: "byte \<Rightarrow> bytes \<Rightarrow> nat option" where
  "rfind_char c s = map_option (\<lambda>i. length s - 1 - i) (find_sub [c] (rev s))"

definition substr :: "bytes \<Rightarrow> nat \<Rightarrow> nat \<Rightarrow> bytes" where
  "substr s pos n = take n (drop pos s)"

lemma find_sub_Some:
  "find_sub pat s = Some i \<Longrightarrow> i + length pat \<le> length s \<and> prefix pat (drop i s)"
  by (induction s arbitrary: i) (auto split: if_splits dest: prefix_length_le)

lemma find_sub_char: "find_sub [c] s = (if c \<in> set s then Some (length (takeWhile (\<lambda>x. x \<noteq> c) s)) else None)"
  by (induction s) auto

lemma find_sub_char_append:
  "c \<notin> set a \<Longrightarrow> find_sub [c] (a @ c # b) = Some (length a)"
  by (induction a) auto

lemma find_sub_None_char: "c \<notin> set a \<Longrightarrow> find_sub [c] a = None"
  by (simp add: find_sub_char)

text \<open>A string is cut at the first occurrence of a character, or does not have it.\<close>

lemma find_char_cases:
  fixes p :: bytes
  obtains (none) "takeWhile (\<lambda>b. b \<noteq> c) p = p" "find_sub [c] p = None"
  | (some) t q where "p = t @ c # q" "takeWhile (\<lambda>b. b \<noteq> c) p = t" "find_sub [c] p = Some (length t)"
proof (cases "c \<in> set p")
  case True
  then obtain t q where p: "p = t @ c # q" "c \<notin> set t" by (meson split_list_first)
  then have "takeWhile (\<lambda>b. b \<noteq> c) p = t" by (simp add: takeWhile_append)
  then show thesis using some p find_sub_char_append [OF p(2)] by simp
next
  case False
  then have "takeWhile (\<lambda>b. b \<noteq> c) p = p" by (simp add: takeWhile_eq_all_conv) metis
  then show thesis using none False find_sub_None_char [of c p] by simp
qed

lemma find_sub_first:
  assumes "\<And>i. i < length a \<Longrightarrow> \<not> prefix pat (drop i (a @ s))" and "prefix pat s"
  shows "find_sub pat (a @ s) = Some (length a)"
  using assms
proof (induction a)
  case Nil
  then show ?case by (cases s) auto
next
  case (Cons c a)
  have "\<not> prefix pat (c # a @ s)" using Cons.prems(1) [of 0] by simp
  moreover have "find_sub pat (a @ s) = Some (length a)"
    using Cons.prems(1) [of "Suc i" for i] Cons.prems(2) by (intro Cons.IH) auto
  ultimately show ?case by simp
qed

section \<open>Case and whitespace\<close>

definition tolower :: "byte \<Rightarrow> byte" where
  "tolower c = (if 0x41 \<le> c \<and> c \<le> 0x5A then c + 0x20 else c)"

definition to_lower :: "bytes \<Rightarrow> bytes" where
  "to_lower s = map tolower s"

lemma tolower_idem [simp]: "tolower (tolower c) = tolower c"
proof (cases "0x41 \<le> c \<and> c \<le> 0x5A")
  case True
  then have "0x61 \<le> unat c + 0x20" "unat c + 0x20 \<le> 0x7A"
    by (auto simp: word_le_nat_alt)
  moreover from this have "unat (c + 0x20) = unat c + 0x20"
    by (subst unat_plus_if') simp
  ultimately have "\<not> c + 0x20 \<le> 0x5A" by (simp add: word_le_nat_alt)
  then show ?thesis using True by (simp add: tolower_def)
qed (auto simp: tolower_def)

lemma to_lower_idem [simp]: "to_lower (to_lower s) = to_lower s"
  by (simp add: to_lower_def)

section \<open>Decimal and hexadecimal numbers\<close>

definition digit_char :: "nat \<Rightarrow> byte" where
  "digit_char d = 0x30 + of_nat d"

fun nat_to_string :: "nat \<Rightarrow> bytes" where
  "nat_to_string n = (if n < 10 then [digit_char n] else nat_to_string (n div 10) @ [digit_char (n mod 10)])"

declare nat_to_string.simps [simp del]

definition int_to_string :: "int \<Rightarrow> bytes" where
  "int_to_string i = (if i < 0 then 0x2D # nat_to_string (nat (- i)) else nat_to_string (nat i))"

definition digit_val :: "nat \<Rightarrow> byte \<Rightarrow> nat option" where
  "digit_val base c =
     (let d = (if 0x30 \<le> c \<and> c \<le> 0x39 then Some (unat (c - 0x30))
               else if 0x61 \<le> c \<and> c \<le> 0x7A then Some (unat (c - 0x61) + 10)
               else if 0x41 \<le> c \<and> c \<le> 0x5A then Some (unat (c - 0x41) + 10) else None)
      in case d of Some v \<Rightarrow> if v < base then Some v else None | None \<Rightarrow> None)"

text \<open>
  The digits at the front of the string; \<open>None\<close> when there is none.  \<^verbatim>\<open>std::from_chars\<close> stops at the
  first other character and reports a value outside the type's range as an error.
\<close>

fun read_digits :: "nat \<Rightarrow> bytes \<Rightarrow> nat \<Rightarrow> nat" where
  "read_digits base [] acc = acc"
| "read_digits base (c # s) acc =
     (case digit_val base c of None \<Rightarrow> acc | Some d \<Rightarrow> read_digits base s (acc * base + d))"

definition from_chars_unsigned :: "nat \<Rightarrow> nat \<Rightarrow> bytes \<Rightarrow> nat option" where
  "from_chars_unsigned bits base s =
     (if s = [] \<or> digit_val base (hd s) = None then None
      else let v = read_digits base s 0 in if v < 2 ^ bits then Some v else None)"

definition from_chars_signed :: "nat \<Rightarrow> bytes \<Rightarrow> int option" where
  "from_chars_signed bits s =
     (let neg = (s \<noteq> [] \<and> hd s = 0x2D); t = (if neg then tl s else s)
      in if t = [] \<or> digit_val 10 (hd t) = None then None
         else let v = (if neg then - int (read_digits 10 t 0) else int (read_digits 10 t 0))
              in if - (2 ^ (bits - 1)) \<le> v \<and> v < 2 ^ (bits - 1) then Some v else None)"

lemma digit_val_char:
  assumes "d < 10"
  shows "digit_val 10 (digit_char d) = Some d"
proof -
  have "list_all (\<lambda>d. digit_val 10 (digit_char d) = Some d) [0..<10]" by code_simp
  then show ?thesis using assms by (simp add: list_all_iff)
qed

lemma read_digits_append:
  assumes "\<forall>c\<in>set a. digit_val base c \<noteq> None"
  shows "read_digits base (a @ b) acc = read_digits base b (read_digits base a acc)"
  using assms by (induction a arbitrary: acc) auto

lemma nat_to_string_digits:
  "\<forall>c\<in>set (nat_to_string n). \<exists>d<10. c = digit_char d"
proof (induction n rule: nat_to_string.induct)
  case (1 n)
  then show ?case by (simp add: nat_to_string.simps [of n]) (metis mod_less_divisor zero_less_numeral)
qed

lemma nat_to_string_nonempty [simp]: "nat_to_string n \<noteq> []"
  by (simp add: nat_to_string.simps [of n])

lemma nat_to_string_numeric: "\<forall>c\<in>set (nat_to_string n). digit_val 10 c \<noteq> None"
  using nat_to_string_digits [of n] digit_val_char by fastforce

lemma read_nat_to_string: "read_digits 10 (nat_to_string n) 0 = n"
proof (induction n rule: nat_to_string.induct)
  case (1 n)
  show ?case
  proof (cases "n < 10")
    case True
    then show ?thesis by (simp add: nat_to_string.simps [of n] digit_val_char)
  next
    case False
    then have "read_digits 10 (nat_to_string n) 0 =
        read_digits 10 [digit_char (n mod 10)] (read_digits 10 (nat_to_string (n div 10)) 0)"
      by (simp add: nat_to_string.simps [of n] read_digits_append [OF nat_to_string_numeric])
    then show ?thesis
      using 1 [OF False] digit_val_char [of "n mod 10"] by (simp del: mod_mult_self1)
  qed
qed

lemma read_digits_stop:
  assumes "\<forall>c\<in>set a. digit_val base c \<noteq> None" and "b = [] \<or> digit_val base (hd b) = None"
  shows "read_digits base (a @ b) acc = read_digits base a acc"
  using assms by (cases b) (auto simp: read_digits_append)

text \<open>Printing and reading back, whatever non-digit follows.\<close>

lemma from_chars_unsigned_to_string:
  assumes "n < 2 ^ bits" and "rest = [] \<or> digit_val 10 (hd rest) = None"
  shows "from_chars_unsigned bits 10 (nat_to_string n @ rest) = Some n"
proof -
  have "digit_val 10 (hd (nat_to_string n)) \<noteq> None"
    using nat_to_string_numeric [of n] by (meson hd_in_set nat_to_string_nonempty)
  then show ?thesis
    using assms read_digits_stop [OF nat_to_string_numeric assms(2), of n 0]
    by (simp add: from_chars_unsigned_def read_nat_to_string)
qed

lemma digit_char_not_minus: "d < 10 \<Longrightarrow> digit_char d \<noteq> 0x2D"
proof -
  assume "d < 10"
  moreover have "list_all (\<lambda>d. digit_char d \<noteq> 0x2D) [0..<10]" by code_simp
  ultimately show ?thesis by (simp add: list_all_iff)
qed

lemma from_chars_signed_to_string:
  assumes "- (2 ^ (bits - 1)) \<le> i" and "i < 2 ^ (bits - 1)" and "rest = [] \<or> digit_val 10 (hd rest) = None"
  shows "from_chars_signed bits (int_to_string i @ rest) = Some i"
proof -
  have num: "digit_val 10 (hd (nat_to_string n)) \<noteq> None" for n
    using nat_to_string_numeric [of n] by (meson hd_in_set nat_to_string_nonempty)
  have pos: "hd (nat_to_string n) \<noteq> 0x2D" for n
    using nat_to_string_digits [of n] digit_char_not_minus by (metis hd_in_set nat_to_string_nonempty)
  have "read_digits 10 (nat_to_string n @ rest) 0 = n" for n
    using read_digits_stop [OF nat_to_string_numeric assms(3), of n 0] by (simp add: read_nat_to_string)
  then show ?thesis
    using assms num pos by (auto simp: from_chars_signed_def int_to_string_def Let_def)
qed

end
