(* ===== verification/Http_Types.thy ===== *)
theory Http_Types
  imports Cpp_String
begin

text \<open>
  The message types shared by all HTTP versions, \<^verbatim>\<open>include/async_net/http/types.hpp\<close>: methods, versions,
  status codes, URIs, the case-insensitive header list, requests, responses and their builders.
\<close>

section \<open>Methods, versions, status codes\<close>

datatype http_method = GET | HEAD | POST | PUT | DELETE' | PATCH | OPTIONS | TRACE | CONNECT

definition method_to_string :: "http_method \<Rightarrow> bytes" where
  "method_to_string m = str (case m of GET \<Rightarrow> ''GET'' | HEAD \<Rightarrow> ''HEAD'' | POST \<Rightarrow> ''POST'' | PUT \<Rightarrow> ''PUT''
     | DELETE' \<Rightarrow> ''DELETE'' | PATCH \<Rightarrow> ''PATCH'' | OPTIONS \<Rightarrow> ''OPTIONS'' | TRACE \<Rightarrow> ''TRACE''
     | CONNECT \<Rightarrow> ''CONNECT'')"

definition parse_method :: "bytes \<Rightarrow> http_method option" where
  "parse_method s =
     (if s = str ''GET'' then Some GET else if s = str ''HEAD'' then Some HEAD
      else if s = str ''POST'' then Some POST else if s = str ''PUT'' then Some PUT
      else if s = str ''DELETE'' then Some DELETE' else if s = str ''PATCH'' then Some PATCH
      else if s = str ''OPTIONS'' then Some OPTIONS else if s = str ''TRACE'' then Some TRACE
      else if s = str ''CONNECT'' then Some CONNECT else None)"

datatype http_version = HTTP_10 | HTTP_11 | HTTP_2 | HTTP_3

definition version_to_string :: "http_version \<Rightarrow> bytes" where
  "version_to_string v = str (case v of HTTP_10 \<Rightarrow> ''HTTP/1.0'' | HTTP_11 \<Rightarrow> ''HTTP/1.1''
     | HTTP_2 \<Rightarrow> ''HTTP/2'' | HTTP_3 \<Rightarrow> ''HTTP/3'')"

text \<open>A status code is the \<^verbatim>\<open>int\<close> it wraps.\<close>

definition is_success :: "int \<Rightarrow> bool" where "is_success code \<longleftrightarrow> 200 \<le> code \<and> code < 300"
definition is_redirect :: "int \<Rightarrow> bool" where "is_redirect code \<longleftrightarrow> 300 \<le> code \<and> code < 400"
definition is_client_error :: "int \<Rightarrow> bool" where "is_client_error code \<longleftrightarrow> 400 \<le> code \<and> code < 500"
definition is_server_error :: "int \<Rightarrow> bool" where "is_server_error code \<longleftrightarrow> 500 \<le> code \<and> code < 600"

definition reason_phrase :: "int \<Rightarrow> bytes" where
  "reason_phrase code = str
     (if code = 100 then ''Continue'' else if code = 200 then ''OK'' else if code = 201 then ''Created''
      else if code = 204 then ''No Content'' else if code = 301 then ''Moved Permanently''
      else if code = 302 then ''Found'' else if code = 304 then ''Not Modified''
      else if code = 400 then ''Bad Request'' else if code = 401 then ''Unauthorized''
      else if code = 403 then ''Forbidden'' else if code = 404 then ''Not Found''
      else if code = 405 then ''Method Not Allowed'' else if code = 408 then ''Request Timeout''
      else if code = 413 then ''Payload Too Large'' else if code = 500 then ''Internal Server Error''
      else if code = 502 then ''Bad Gateway'' else if code = 503 then ''Service Unavailable''
      else ''Unknown'')"

section \<open>URIs\<close>

record uri =
  uri_raw :: bytes
  uri_scheme :: bytes
  uri_host :: bytes
  uri_port :: u16
  uri_path :: bytes
  uri_query :: bytes
  uri_fragment :: bytes

definition uri_default :: uri where
  "uri_default = \<lparr>uri_raw = [], uri_scheme = str ''http'', uri_host = [], uri_port = 80,
     uri_path = str ''/'', uri_query = [], uri_fragment = []\<rparr>"

text \<open>
  \<^verbatim>\<open>parse\<close> assigns the members of an existing object: query and fragment keep their old value when
  the new URL has none.
\<close>

definition uri_parse :: "uri \<Rightarrow> bytes \<Rightarrow> uri" where
  "uri_parse u url =
     (let (scheme, rest) =
            (case find_sub (str ''://'') url of
               Some pos \<Rightarrow> (take pos url, drop (pos + 3) url)
             | None \<Rightarrow> (str ''http'', url));
          (authority, rest) =
            (case find_sub (str ''/'') rest of
               Some pos \<Rightarrow> (take pos rest, drop pos rest)
             | None \<Rightarrow> (rest, str ''/''));
          (host, port) =
            (case rfind_char 0x3A authority of
               Some colon \<Rightarrow>
                 (take colon authority,
                  of_int (case from_chars_signed 32 (drop (colon + 1) authority) of Some p \<Rightarrow> p | None \<Rightarrow> 0))
             | None \<Rightarrow> (authority, if scheme = str ''https'' \<or> scheme = str ''h3'' then 443 else 80));
          (path_query, fragment) =
            (case find_sub (str ''#'') rest of
               Some pos \<Rightarrow> (take pos rest, drop (pos + 1) rest)
             | None \<Rightarrow> (rest, uri_fragment u));
          (path, query) =
            (case find_sub (str ''?'') path_query of
               Some pos \<Rightarrow> (take pos path_query, drop (pos + 1) path_query)
             | None \<Rightarrow> (path_query, uri_query u))
      in \<lparr>uri_raw = url, uri_scheme = scheme, uri_host = host, uri_port = port,
          uri_path = (if path = [] then str ''/'' else path), uri_query = query, uri_fragment = fragment\<rparr>)"

definition is_https :: "uri \<Rightarrow> bool" where
  "is_https u \<longleftrightarrow> uri_scheme u = str ''https''"

definition uri_authority :: "uri \<Rightarrow> bytes" where
  "uri_authority u = uri_host u @ str '':'' @ nat_to_string (unat (uri_port u))"

section \<open>Headers\<close>

type_synonym headers = "(bytes \<times> bytes) list"

definition hdrs_set :: "bytes \<Rightarrow> bytes \<Rightarrow> headers \<Rightarrow> headers" where
  "hdrs_set name val entries =
     filter (\<lambda>e. to_lower (fst e) \<noteq> to_lower name) entries @ [(name, val)]"

definition hdrs_append :: "bytes \<Rightarrow> bytes \<Rightarrow> headers \<Rightarrow> headers" where
  "hdrs_append name val entries = entries @ [(name, val)]"

fun hdrs_get :: "bytes \<Rightarrow> headers \<Rightarrow> bytes option" where
  "hdrs_get name [] = None"
| "hdrs_get name (e # entries) =
     (if to_lower (fst e) = to_lower name then Some (snd e) else hdrs_get name entries)"

definition hdrs_get_all :: "bytes \<Rightarrow> headers \<Rightarrow> bytes list" where
  "hdrs_get_all name entries = map snd (filter (\<lambda>e. to_lower (fst e) = to_lower name) entries)"

definition hdrs_contains :: "bytes \<Rightarrow> headers \<Rightarrow> bool" where
  "hdrs_contains name entries \<longleftrightarrow> hdrs_get name entries \<noteq> None"

definition hdrs_remove :: "bytes \<Rightarrow> headers \<Rightarrow> headers" where
  "hdrs_remove name entries = filter (\<lambda>e. to_lower (fst e) \<noteq> to_lower name) entries"

definition content_length :: "headers \<Rightarrow> int option" where
  "content_length entries =
     (case hdrs_get (str ''Content-Length'') entries of
        None \<Rightarrow> None
      | Some val \<Rightarrow>
          (let len = (case from_chars_signed 64 val of Some n \<Rightarrow> n | None \<Rightarrow> -1)
           in if 0 \<le> len then Some len else None))"

definition is_chunked :: "headers \<Rightarrow> bool" where
  "is_chunked entries =
     (case hdrs_get (str ''Transfer-Encoding'') entries of
        None \<Rightarrow> False
      | Some val \<Rightarrow> find_sub (str ''chunked'') (to_lower val) \<noteq> None)"

definition is_keep_alive :: "headers \<Rightarrow> bool" where
  "is_keep_alive entries =
     (case hdrs_get (str ''Connection'') entries of
        None \<Rightarrow> True
      | Some val \<Rightarrow> to_lower val = str ''keep-alive'')"

definition crlf :: bytes where
  "crlf = [0x0D, 0x0A]"

definition hdrs_serialize :: "headers \<Rightarrow> bytes" where
  "hdrs_serialize entries = concat (map (\<lambda>(k, v). k @ str '': '' @ v @ crlf) entries)"

section \<open>Requests and responses\<close>

record request =
  rq_method :: http_method
  rq_path :: bytes
  rq_query :: bytes
  rq_ver :: http_version
  rq_hdrs :: headers
  rq_bd :: bytes

definition request_default :: request where
  "request_default = \<lparr>rq_method = GET, rq_path = str ''/'', rq_query = [], rq_ver = HTTP_11, rq_hdrs = [], rq_bd = []\<rparr>"

definition query_param :: "request \<Rightarrow> bytes \<Rightarrow> bytes" where
  "query_param r key =
     (case find_sub (key @ str ''='') (rq_query r) of
        None \<Rightarrow> []
      | Some p \<Rightarrow>
          (let p = p + length key + 1
           in case find_from (str ''&'') (rq_query r) p of
                None \<Rightarrow> drop p (rq_query r)
              | Some e \<Rightarrow> substr (rq_query r) p (e - p)))"

definition request_build :: "request \<Rightarrow> request" where
  "request_build r =
     (if rq_bd r \<noteq> [] \<and> \<not> hdrs_contains (str ''Content-Length'') (rq_hdrs r)
      then r\<lparr>rq_hdrs := hdrs_set (str ''Content-Length'') (nat_to_string (length (rq_bd r))) (rq_hdrs r)\<rparr>
      else r)"

record response =
  rs_status :: int
  rs_ver :: http_version
  rs_hdrs :: headers
  rs_bd :: bytes
  rs_trailers :: headers

definition response_default :: response where
  "response_default = \<lparr>rs_status = 200, rs_ver = HTTP_11, rs_hdrs = [], rs_bd = [], rs_trailers = []\<rparr>"

definition response_build :: "response \<Rightarrow> response" where
  "response_build r =
     (let r1 = (if rs_bd r \<noteq> [] \<and> \<not> hdrs_contains (str ''Content-Length'') (rs_hdrs r)
                then r\<lparr>rs_hdrs := hdrs_set (str ''Content-Length'') (nat_to_string (length (rs_bd r))) (rs_hdrs r)\<rparr>
                else r)
      in if hdrs_contains (str ''Content-Type'') (rs_hdrs r1) then r1
         else r1\<lparr>rs_hdrs := hdrs_set (str ''Content-Type'') (str ''text/plain'') (rs_hdrs r1)\<rparr>)"

definition response_with :: "int \<Rightarrow> bytes \<Rightarrow> response" where
  "response_with status text = response_build (response_default\<lparr>rs_status := status, rs_bd := text\<rparr>)"

definition response_ok :: "bytes \<Rightarrow> response" where "response_ok text = response_with 200 text"
definition response_not_found :: response where "response_not_found = response_with 404 (str ''Not Found'')"
definition response_bad_request :: "bytes \<Rightarrow> response" where "response_bad_request msg = response_with 400 msg"
definition response_internal_error :: "bytes \<Rightarrow> response" where "response_internal_error msg = response_with 500 msg"

section \<open>Header list laws\<close>

lemma hdrs_get_append: "hdrs_get name (a @ b) = (case hdrs_get name a of Some v \<Rightarrow> Some v | None \<Rightarrow> hdrs_get name b)"
  by (induction a) auto

lemma hdrs_get_filter_other:
  "to_lower name \<noteq> to_lower n \<Longrightarrow>
   hdrs_get name (filter (\<lambda>e. to_lower (fst e) \<noteq> to_lower n) es) = hdrs_get name es"
  by (induction es) auto

lemma hdrs_get_filter_same: "hdrs_get name (filter (\<lambda>e. to_lower (fst e) \<noteq> to_lower name) es) = None"
  by (induction es) auto

lemma hdrs_get_hd: "hdrs_get name es = (case hdrs_get_all name es of [] \<Rightarrow> None | v # _ \<Rightarrow> Some v)"
  by (induction es) (auto simp: hdrs_get_all_def)

text \<open>
  The contract of a header container that the message builders and codecs use: names compare
  without case, \<open>set\<close> leaves one value, \<open>append\<close> adds behind, other names are not touched.
\<close>

locale header_container =
  fixes get :: "bytes \<Rightarrow> 'h \<Rightarrow> bytes option"
    and all :: "bytes \<Rightarrow> 'h \<Rightarrow> bytes list"
    and set_h :: "bytes \<Rightarrow> bytes \<Rightarrow> 'h \<Rightarrow> 'h"
    and append_h :: "bytes \<Rightarrow> bytes \<Rightarrow> 'h \<Rightarrow> 'h"
    and remove_h :: "bytes \<Rightarrow> 'h \<Rightarrow> 'h"
  assumes get_all: "get n h = (case all n h of [] \<Rightarrow> None | v # _ \<Rightarrow> Some v)"
    and all_set: "all n (set_h m v h) = (if to_lower n = to_lower m then [v] else all n h)"
    and all_append: "all n (append_h m v h) = (if to_lower n = to_lower m then all n h @ [v] else all n h)"
    and all_remove: "all n (remove_h m h) = (if to_lower n = to_lower m then [] else all n h)"
begin

lemma get_set: "get n (set_h m v h) = (if to_lower n = to_lower m then Some v else get n h)"
  by (simp add: get_all all_set)

lemma get_append: "get n (append_h m v h) =
    (if to_lower n = to_lower m \<and> get n h = None then Some v else get n h)"
  by (auto simp: get_all all_append split: list.splits)

lemma get_remove: "get n (remove_h m h) = (if to_lower n = to_lower m then None else get n h)"
  by (simp add: get_all all_remove)

lemma set_set: "get n (set_h m v (set_h m w h)) = get n (set_h m v h)"
  by (simp add: get_set)

end

interpretation hdrs: header_container hdrs_get hdrs_get_all hdrs_set hdrs_append hdrs_remove
proof
  show "hdrs_get n h = (case hdrs_get_all n h of [] \<Rightarrow> None | v # _ \<Rightarrow> Some v)" for n h
    by (rule hdrs_get_hd)
qed (auto simp: hdrs_get_all_def hdrs_set_def hdrs_append_def hdrs_remove_def filter_empty_conv intro!: arg_cong [where f = "map snd"] filter_cong)

lemma parse_method_to_string: "parse_method (method_to_string m) = Some m"
  by (cases m) (simp_all add: parse_method_def method_to_string_def)

lemma content_length_set:
  assumes "n < 2 ^ 63"
  shows "content_length (hdrs_set (str ''Content-Length'') (nat_to_string n) hs) = Some (int n)"
  using assms from_chars_signed_to_string [of 64 "int n" "[]"]
  by (simp add: content_length_def hdrs.get_set int_to_string_def del: str_simps)

section \<open>URI parsing\<close>

lemma find_scheme:
  assumes "0x3A \<notin> set scheme"
  shows "find_sub (str ''://'') (scheme @ str ''://'' @ rest) = Some (length scheme)"
proof (rule find_sub_first)
  fix i assume "i < length scheme"
  then have "drop i (scheme @ str ''://'' @ rest) = scheme ! i # drop (Suc i) (scheme @ str ''://'' @ rest)"
    by (simp add: Cons_nth_drop_Suc [symmetric] nth_append)
  moreover have "scheme ! i \<noteq> 0x3A" using assms \<open>i < length scheme\<close> nth_mem by metis
  ultimately show "\<not> prefix (str ''://'') (drop i (scheme @ str ''://'' @ rest))" by auto
qed (simp add: prefix_def)

lemma rfind_char_append:
  assumes "c \<notin> set b"
  shows "rfind_char c (a @ c # b) = Some (length a)"
  using find_sub_char_append [of c "rev b" "rev a"] assms by (simp add: rfind_char_def)

lemma nat_to_string_no_char:
  assumes "digit_val 10 c = None"
  shows "c \<notin> set (nat_to_string n)"
  using assms nat_to_string_numeric by blast

section \<open>Properties\<close>

text \<open>A URL put together from a scheme without a colon, a host without a slash, a port, an absolute
  path without \<open>?\<close> and \<open>#\<close>, a query without \<open>#\<close> and a fragment parses into exactly these parts.\<close>

theorem uri_parse_round_trip:
  assumes "0x3A \<notin> set scheme" and "0x2F \<notin> set host"
    and "0x3F \<notin> set path" and "0x23 \<notin> set path" and "0x23 \<notin> set query"
  shows "uri_parse u (scheme @ str ''://'' @ host @ str '':'' @ nat_to_string (unat (port :: u16)) @
      str ''/'' @ path @ str ''?'' @ query @ str ''#'' @ fragment) =
    \<lparr>uri_raw = scheme @ str ''://'' @ host @ str '':'' @ nat_to_string (unat port) @
       str ''/'' @ path @ str ''?'' @ query @ str ''#'' @ fragment,
     uri_scheme = scheme, uri_host = host, uri_port = port, uri_path = str ''/'' @ path,
     uri_query = query, uri_fragment = fragment\<rparr>"
proof -
  define auth where "auth = host @ 0x3A # nat_to_string (unat port)"
  define pq where "pq = 0x2F # path @ 0x3F # query"
  have digits: "0x2F \<notin> set (nat_to_string (unat port))" "0x3A \<notin> set (nat_to_string (unat port))"
    by (auto intro!: nat_to_string_no_char simp: digit_val_def)
  have a: "find_sub (str ''://'') (scheme @ str ''://'' @ auth @ pq @ 0x23 # fragment) = Some (length scheme)"
    using assms(1) by (rule find_scheme)
  have b: "find_sub (str ''/'') (auth @ pq @ 0x23 # fragment) = Some (length auth)"
    using find_sub_char_append [of "0x2F" auth "path @ 0x3F # query @ 0x23 # fragment"] assms(2) digits
    by (simp add: auth_def pq_def)
  have c: "rfind_char 0x3A auth = Some (length host)"
    unfolding auth_def by (rule rfind_char_append) (rule digits)
  have d: "find_sub (str ''#'') (pq @ 0x23 # fragment) = Some (length pq)"
    using find_sub_char_append [of "0x23" pq fragment] assms by (simp add: pq_def)
  have e: "find_sub (str ''?'') pq = Some (Suc (length path))"
    using find_sub_char_append [of "0x3F" "0x2F # path" query] assms by (simp add: pq_def)
  have lo: "- (2 ^ (32 - 1)) \<le> uint port" by (rule order_trans [of _ 0]) simp_all
  have hi: "uint port < 2 ^ (32 - 1)" using unsigned_less [of port, where ?'a = int] by simp
  from from_chars_signed_to_string [OF lo hi, of "[]"]
  have p: "from_chars_signed 32 (drop (length host + 1) auth) = Some (uint port)"
    by (simp add: auth_def int_to_string_def)
  show ?thesis
    using a b c d e p by (simp add: uri_parse_def auth_def pq_def)
qed

theorem uri_parse_round_trip_witness:
  "uri_path (uri_parse uri_default (str ''http'' @ str ''://'' @ str ''a.b'' @ str '':'' @
      nat_to_string (unat (8080 :: u16)) @ str ''/'' @ str ''x'' @ str ''?'' @ str ''q=1'' @ str ''#'' @ str ''top''))
   = str ''/x''"
  using uri_parse_round_trip [of "str ''http''" "str ''a.b''" "str ''x''" "str ''q=1''" uri_default 8080 "str ''top''"]
  by simp

text \<open>The header list behaves as a case-insensitive container: what a lookup returns after setting,
  appending or removing a name depends only on the case-folded names.\<close>

theorem headers_laws:
  "hdrs_get n (hdrs_set m v h) = (if to_lower n = to_lower m then Some v else hdrs_get n h) \<and>
   hdrs_get_all n (hdrs_set m v h) = (if to_lower n = to_lower m then [v] else hdrs_get_all n h) \<and>
   hdrs_get n (hdrs_append m v h) =
     (if to_lower n = to_lower m \<and> hdrs_get n h = None then Some v else hdrs_get n h) \<and>
   hdrs_get n (hdrs_remove m h) = (if to_lower n = to_lower m then None else hdrs_get n h)"
  by (simp only: hdrs.get_set hdrs.all_set hdrs.get_append hdrs.get_remove simp_thms)

end
