(* ===== verification/Http1_Codec.thy ===== *)
theory Http1_Codec
  imports Http_Types
begin

text \<open>
  The HTTP/1.x codec, \<^verbatim>\<open>src/http/http1_codec.cpp\<close>: the header block with folded lines, the body by
  length or in chunks, and the parsers and printers of requests and responses.

  Positions in a buffer are natural numbers.  A chunk size comes from the wire and may be any 64-bit
  number, so the sum that finds the next chunk is written with its wrap-around.  Because of it the
  chunk loop need not end; it is a partial function whose value is \<open>None\<close> on a run that does not end.
\<close>

section \<open>Header block\<close>

definition header_terminator :: bytes where
  "header_terminator = crlf @ crlf"

definition find_header_end :: "bytes \<Rightarrow> nat option" where
  "find_header_end data = map_option (\<lambda>pos. pos + 4) (find_sub header_terminator data)"

definition is_blank :: "byte \<Rightarrow> bool" where
  "is_blank c \<longleftrightarrow> c = 0x20 \<or> c = 0x09"

lemma find_from_bounds:
  "find_from pat s pos = Some e \<Longrightarrow> pos \<le> e \<and> e + length pat \<le> length s"
  using find_sub_Some [of pat "drop pos s"] by (fastforce simp: find_from_def split: if_splits)

text \<open>Lines that begin with a blank continue the line before them.\<close>

function fold_lines :: "bytes \<Rightarrow> nat \<Rightarrow> bytes \<Rightarrow> bytes \<times> nat" where
  "fold_lines block pos line =
     (if pos < length block \<and> is_blank (block ! pos)
      then (case find_from crlf block pos of
              None \<Rightarrow> (line, pos)
            | Some next_end \<Rightarrow>
                fold_lines block (next_end + 2) (line @ str '' '' @ substr block (pos + 1) (next_end - pos - 1)))
      else (line, pos))"
  by pat_completeness auto
termination
  by (relation "measure (\<lambda>(block, pos, _). length block - pos)") (auto dest!: find_from_bounds)

declare fold_lines.simps [simp del]

lemma fold_lines_ge: "pos \<le> snd (fold_lines block pos line)"
proof (induction block pos line rule: fold_lines.induct)
  case (1 block pos line)
  show ?case
  proof (cases "find_from crlf block pos")
    case None
    then show ?thesis by (simp add: fold_lines.simps [of block pos line])
  next
    case (Some e)
    then show ?thesis
      using 1 [OF _ Some] find_from_bounds [OF Some] by (auto simp: fold_lines.simps [of block pos line])
  qed
qed

definition trim_right :: "bytes \<Rightarrow> bytes" where
  "trim_right s = rev (dropWhile is_blank (rev s))"

definition split_header :: "bytes \<Rightarrow> (bytes \<times> bytes) option" where
  "split_header line =
     map_option (\<lambda>colon. (trim_right (take colon line), trim_right (dropWhile is_blank (drop (colon + 1) line))))
       (find_sub (str '':'') line)"

function header_lines :: "bytes \<Rightarrow> nat \<Rightarrow> headers \<Rightarrow> headers" where
  "header_lines block pos hdrs =
     (if pos < length block
      then (case find_from crlf block pos of
              None \<Rightarrow> hdrs
            | Some line_end \<Rightarrow>
                if line_end = pos then hdrs
                else (let lp = fold_lines block (line_end + 2) (substr block pos (line_end - pos))
                      in header_lines block (snd lp)
                           (case split_header (fst lp) of
                              None \<Rightarrow> hdrs | Some (name, val) \<Rightarrow> hdrs_append name val hdrs)))
      else hdrs)"
  by pat_completeness auto
termination
proof (relation "measure (\<lambda>(block, pos, _). length block - pos)")
  fix block pos hdrs line_end lp
  assume "pos < length block" "find_from crlf block pos = Some line_end"
    "lp = fold_lines block (line_end + 2) (substr block pos (line_end - pos))"
  then show "((block, snd lp, case split_header (fst lp) of None \<Rightarrow> hdrs | Some (name, val) \<Rightarrow> hdrs_append name val hdrs), block, pos, hdrs)
      \<in> measure (\<lambda>(block, pos, _). length block - pos)"
    using find_from_bounds [of crlf block pos line_end]
      fold_lines_ge [of "line_end + 2" block "substr block pos (line_end - pos)"]
    by auto
qed simp

declare header_lines.simps [simp del]

definition parse_header_lines :: "bytes \<Rightarrow> headers \<Rightarrow> headers" where
  "parse_header_lines block hdrs = header_lines block 0 hdrs"

section \<open>Body\<close>

record body_result =
  br_data :: bytes
  br_consumed :: nat
  br_complete :: bool

text \<open>\<open>None\<close>: the loop does not end.  A string that would grow without bound is not stopped.\<close>

partial_function (option) chunk_loop :: "bytes \<Rightarrow> nat \<Rightarrow> bytes \<Rightarrow> body_result res option" where
  "chunk_loop data pos acc =
     (if length data \<le> pos then Some (Inr \<lparr>br_data = acc, br_consumed = 0, br_complete = False\<rparr>)
      else case find_from crlf data pos of
             None \<Rightarrow> Some (Inr \<lparr>br_data = acc, br_consumed = pos, br_complete = False\<rparr>)
           | Some line_end \<Rightarrow>
               (case from_chars_unsigned 64 16 (substr data pos (line_end - pos)) of
                  None \<Rightarrow> Some (Inl (Runtime_Error ''Invalid chunk size''))
                | Some chunk_size \<Rightarrow>
                    (let p = line_end + 2
                     in if chunk_size = 0
                        then (if p + 2 \<le> length data
                              then Some (Inr \<lparr>br_data = acc, br_consumed = p + 2, br_complete = True\<rparr>)
                              else Some (Inr \<lparr>br_data = acc, br_consumed = p, br_complete = False\<rparr>))
                        else if length data < (p + chunk_size + 2) mod 2 ^ 64
                        then Some (Inr \<lparr>br_data = acc, br_consumed = 0, br_complete = False\<rparr>)
                        else chunk_loop data ((p + chunk_size + 2) mod 2 ^ 64) (acc @ substr data p chunk_size))))"

definition parse_body :: "bytes \<Rightarrow> headers \<Rightarrow> body_result res option" where
  "parse_body data hdrs =
     (if is_chunked hdrs then chunk_loop data 0 []
      else Some (Inr (case content_length hdrs of
        Some len \<Rightarrow>
          if int (length data) < len then \<lparr>br_data = [], br_consumed = 0, br_complete = False\<rparr>
          else \<lparr>br_data = take (nat len) data, br_consumed = nat len, br_complete = True\<rparr>
      | None \<Rightarrow> \<lparr>br_data = [], br_consumed = 0, br_complete = True\<rparr>)))"

section \<open>Requests\<close>

text \<open>The parsers' results: \<open>None\<close> a run that does not end, an exception, or what \<^verbatim>\<open>std::optional\<close> holds.\<close>

type_synonym 'a parse = "('a \<times> nat) option res option"

definition header_block :: "bytes \<Rightarrow> nat \<Rightarrow> nat \<Rightarrow> bytes" where
  "header_block data first_line_end header_end = substr data (first_line_end + 2) (header_end - first_line_end - 4)"

definition http1_version :: "bytes \<Rightarrow> http_version" where
  "http1_version s = (if s = str ''HTTP/1.0'' then HTTP_10 else HTTP_11)"

definition split_target :: "bytes \<Rightarrow> request \<Rightarrow> request" where
  "split_target path req =
     (let req1 = (case find_sub (str ''?'') path of
                    Some qpos \<Rightarrow> req\<lparr>rq_path := take qpos path, rq_query := drop (qpos + 1) path\<rparr>
                  | None \<Rightarrow> req\<lparr>rq_path := path\<rparr>)
      in if rq_path req1 = [] then req1\<lparr>rq_path := str ''/''\<rparr> else req1)"

definition parse_request_line :: "bytes \<Rightarrow> request res" where
  "parse_request_line request_line =
     (case find_sub (str '' '') request_line of
        None \<Rightarrow> Inl (Runtime_Error ''Invalid request line'')
      | Some sp1 \<Rightarrow>
          (case find_from (str '' '') request_line (sp1 + 1) of
             None \<Rightarrow> Inl (Runtime_Error ''Invalid request line'')
           | Some sp2 \<Rightarrow>
               (case parse_method (take sp1 request_line) of
                  None \<Rightarrow> Inl (Runtime_Error (''Unknown HTTP method: '' @ map (\<lambda>b. char_of (unat b)) (take sp1 request_line)))
                | Some m \<Rightarrow>
                    Inr ((split_target (substr request_line (sp1 + 1) (sp2 - sp1 - 1)) (request_default\<lparr>rq_method := m\<rparr>))
                           \<lparr>rq_ver := http1_version (drop (sp2 + 1) request_line)\<rparr>))))"

definition parse_request :: "bytes \<Rightarrow> request parse" where
  "parse_request data =
     (case find_header_end data of
        None \<Rightarrow> Some (Inr None)
      | Some header_end \<Rightarrow>
          (case find_sub crlf data of
             None \<Rightarrow> Some (Inr None)
           | Some first_line_end \<Rightarrow>
               (case parse_request_line (take first_line_end data) of
                  Inl e \<Rightarrow> Some (Inl e)
                | Inr req \<Rightarrow>
                    (let req1 = req\<lparr>rq_hdrs := parse_header_lines (header_block data first_line_end header_end) (rq_hdrs req)\<rparr>
                     in map_option (\<lambda>r. bindE r (\<lambda>res.
                          if \<not> br_complete res then Inr None
                          else Inr (Some (req1\<lparr>rq_bd := br_data res\<rparr>, header_end + br_consumed res))))
                        (parse_body (drop header_end data) (rq_hdrs req1))))))"

definition serialize_request :: "request \<Rightarrow> bytes" where
  "serialize_request req =
     method_to_string (rq_method req) @ str '' '' @ rq_path req @ str '' '' @ version_to_string (rq_ver req) @ crlf @
     hdrs_serialize (rq_hdrs req) @ crlf @ rq_bd req"

section \<open>Responses\<close>

definition parse_status_line :: "bytes \<Rightarrow> response res" where
  "parse_status_line status_line =
     (case find_sub (str '' '') status_line of
        None \<Rightarrow> Inl (Runtime_Error ''Invalid status line'')
      | Some sp1 \<Rightarrow>
          (let rest = drop (sp1 + 1) status_line;
               code_str = (case find_sub (str '' '') rest of Some sp2 \<Rightarrow> take sp2 rest | None \<Rightarrow> rest);
               code = (case from_chars_signed 32 code_str of Some c \<Rightarrow> c | None \<Rightarrow> 0)
           in if code < 100 \<or> 599 < code then Inl (Runtime_Error ''Invalid status code'')
              else Inr (response_default\<lparr>rs_status := code, rs_ver := http1_version (take sp1 status_line)\<rparr>)))"

definition parse_response :: "bytes \<Rightarrow> response parse" where
  "parse_response data =
     (case find_header_end data of
        None \<Rightarrow> Some (Inr None)
      | Some header_end \<Rightarrow>
          (case find_sub crlf data of
             None \<Rightarrow> Some (Inr None)
           | Some first_line_end \<Rightarrow>
               (case parse_status_line (take first_line_end data) of
                  Inl e \<Rightarrow> Some (Inl e)
                | Inr resp \<Rightarrow>
                    (let resp1 = resp\<lparr>rs_hdrs := parse_header_lines (header_block data first_line_end header_end) (rs_hdrs resp)\<rparr>;
                         code = rs_status resp; body_data = drop header_end data
                     in if content_length (rs_hdrs resp1) = None \<and> \<not> is_chunked (rs_hdrs resp1)
                        then Some (Inr
                          (if code = 204 \<or> code = 304 \<or> 100 \<le> code \<and> code < 200 then Some (resp1\<lparr>rs_bd := []\<rparr>, header_end)
                           else if body_data = [] then None
                           else Some (resp1\<lparr>rs_bd := body_data\<rparr>, length data)))
                        else map_option (\<lambda>r. bindE r (\<lambda>res.
                               if \<not> br_complete res then Inr None
                               else Inr (Some (resp1\<lparr>rs_bd := br_data res\<rparr>, header_end + br_consumed res))))
                             (parse_body body_data (rs_hdrs resp1))))))"

definition serialize_response :: "response \<Rightarrow> bytes" where
  "serialize_response resp =
     version_to_string (rs_ver resp) @ str '' '' @ int_to_string (rs_status resp) @ str '' '' @
     reason_phrase (rs_status resp) @ crlf @ hdrs_serialize (rs_hdrs resp) @ crlf @ rs_bd resp"

section \<open>Searching for line ends\<close>

lemma crlf_simps: "crlf = [13, 10]" "header_terminator = [13, 10, 13, 10]"
  by (simp_all add: crlf_def header_terminator_def)

lemma find_sub_skip:
  assumes "13 \<notin> set a"
  shows "find_sub (13 # pat) (a @ s) = map_option (\<lambda>i. length a + i) (find_sub (13 # pat) s)"
  using assms
proof (induction a)
  case Nil
  then show ?case by (cases "find_sub (13 # pat) s") auto
next
  case (Cons c a)
  then show ?case by (cases "find_sub (13 # pat) s") auto
qed

lemma find_crlf: "13 \<notin> set a \<Longrightarrow> find_sub crlf (a @ crlf @ b) = Some (length a)"
  by (simp add: crlf_simps find_sub_skip)

lemma find_from_crlf: "13 \<notin> set a \<Longrightarrow> find_from crlf (pre @ a @ crlf @ b) (length pre) = Some (length pre + length a)"
  using find_crlf [of a b] by (simp add: find_from_def)

lemma find_terminator:
  assumes "13 \<notin> set l" and "list_all (\<lambda>l. l \<noteq> [] \<and> 13 \<notin> set l) ls"
  shows "find_sub header_terminator (l @ crlf @ concat (map (\<lambda>l. l @ crlf) ls) @ crlf @ body) =
    Some (length (l @ concat (map (\<lambda>l. crlf @ l) ls)))"
  using assms
proof (induction ls arbitrary: l)
  case Nil
  then show ?case by (simp add: crlf_simps find_sub_skip)
next
  case (Cons k ls)
  then have "find_sub header_terminator (k @ crlf @ concat (map (\<lambda>l. l @ crlf) ls) @ crlf @ body) =
      Some (length (k @ concat (map (\<lambda>l. crlf @ l) ls)))"
    by simp
  moreover obtain c k' where "k = c # k'" "c \<noteq> 13" using Cons.prems(2) by (cases k) auto
  ultimately show ?case using Cons.prems by (simp add: crlf_simps find_sub_skip)
qed

lemma find_sub_least: "find_sub pat s = Some i \<Longrightarrow> j < i \<Longrightarrow> \<not> prefix pat (drop j s)"
proof (induction s arbitrary: i j)
  case (Cons c s)
  then show ?case by (cases j) (auto split: if_splits)
qed (auto split: if_splits)

lemma find_sub_take:
  assumes "find_sub pat s = Some i" and "n < i + length pat"
  shows "find_sub pat (take n s) = None"
proof (rule ccontr)
  assume "find_sub pat (take n s) \<noteq> None"
  then obtain j where j: "find_sub pat (take n s) = Some j" by blast
  then have "j + length pat \<le> n" "prefix pat (drop j (take n s))" using find_sub_Some [OF j] by auto
  then have "prefix pat (drop j s)" "j < i" using assms(2) take_is_prefix by (auto simp: drop_take intro: prefix_order.trans)
  then show False using find_sub_least assms(1) by blast
qed

section \<open>Headers: printing and parsing\<close>

definition header_ok :: "bytes \<times> bytes \<Rightarrow> bool" where
  "header_ok h \<longleftrightarrow> fst h \<noteq> [] \<and> set (fst h) \<inter> {0x0D, 0x3A, 0x20, 0x09} = {} \<and> 0x0D \<notin> set (snd h) \<and>
     (snd h = [] \<or> \<not> is_blank (hd (snd h)) \<and> \<not> is_blank (last (snd h)))"

lemma name_not_blank: "header_ok (k, v) \<Longrightarrow> c \<in> set k \<Longrightarrow> \<not> is_blank c"
  by (auto simp: header_ok_def is_blank_def)

lemma trim_right_id: "v = [] \<or> \<not> is_blank (last v) \<Longrightarrow> trim_right v = v"
  by (cases v rule: rev_cases) (auto simp: trim_right_def)

lemma split_header_line:
  assumes "header_ok (k, v)"
  shows "split_header (k @ str '': '' @ v) = Some (k, v)"
proof -
  have "\<not> is_blank (last k)" using assms by (intro name_not_blank [OF assms]) (simp add: header_ok_def)
  moreover have "dropWhile is_blank v = v" using assms by (cases v) (auto simp: header_ok_def)
  moreover have "trim_right v = v" using assms by (intro trim_right_id) (auto simp: header_ok_def)
  ultimately show ?thesis
    using assms find_sub_char_append [of "0x3A" k "0x20 # v"]
    by (simp add: split_header_def trim_right_id header_ok_def) (simp add: is_blank_def)
qed

lemma header_lines_step:
  assumes "header_ok (k, v)" and "rest = [] \<or> \<not> is_blank (hd rest)" and "block = pre @ (k @ str '': '' @ v) @ crlf @ rest"
  shows "header_lines block (length pre) hdrs = header_lines block (length (pre @ (k @ str '': '' @ v) @ crlf)) (hdrs @ [(k, v)])"
proof -
  define line where "line = k @ str '': '' @ v"
  have b: "block = pre @ line @ crlf @ rest" using assms(3) by (simp add: line_def)
  have "13 \<notin> set line" "line \<noteq> []" using assms(1) by (auto simp: line_def header_ok_def)
  then have find: "find_from crlf block (length pre) = Some (length pre + length line)" "length pre < length block"
    using find_from_crlf [of line pre rest] by (simp_all add: b)
  have "fold_lines block (length pre + length line + 2) line = (line, length pre + length line + 2)"
    using assms(2) by (cases rest) (simp_all add: fold_lines.simps b crlf_simps nth_append)
  moreover have "split_header line = Some (k, v)" using split_header_line [OF assms(1)] by (simp add: line_def)
  moreover have len: "length (pre @ (k @ str '': '' @ v) @ crlf) = length pre + length line + 2"
    by (simp add: line_def crlf_simps)
  ultimately show ?thesis
    using find \<open>line \<noteq> []\<close>
    unfolding len by (subst header_lines.simps) (simp add: substr_def b hdrs_append_def Let_def crlf_simps)
qed

lemma hdrs_serialize_Cons: "hdrs_serialize ((k, v) # hs) = (k @ str '': '' @ v) @ crlf @ hdrs_serialize hs"
  by (simp add: hdrs_serialize_def)

lemma header_lines_serialized:
  assumes "list_all header_ok hs"
  shows "header_lines (pre @ hdrs_serialize hs) (length pre) acc = acc @ hs"
  using assms
proof (induction hs arbitrary: pre acc)
  case Nil
  then show ?case by (simp add: header_lines.simps hdrs_serialize_def)
next
  case (Cons h hs)
  obtain k v where h: "h = (k, v)" by force
  have "hdrs_serialize hs = [] \<or> \<not> is_blank (hd (hdrs_serialize hs))"
  proof (cases hs)
    case (Cons g gs)
    obtain k' v' where g: "g = (k', v')" by force
    then have "header_ok (k', v')" using Cons.prems \<open>hs = g # gs\<close> by simp
    then have "k' \<noteq> []" "\<not> is_blank (hd k')" using name_not_blank [of k' v' "hd k'"] by (simp_all add: header_ok_def)
    then show ?thesis by (simp add: Cons g hdrs_serialize_Cons)
  qed (simp add: hdrs_serialize_def)
  from header_lines_step [OF _ this refl, of k v pre acc] show ?case
    using Cons.IH [of "pre @ (k @ str '': '' @ v) @ crlf" "acc @ [(k, v)]"] Cons.prems
    by (simp add: h hdrs_serialize_Cons)
qed

lemma parse_serialized_headers: "list_all header_ok hs \<Longrightarrow> parse_header_lines (hdrs_serialize hs) [] = hs"
  using header_lines_serialized [of hs "[]" "[]"] by (simp add: parse_header_lines_def)

text \<open>A message head: a first line, the headers and an empty line.\<close>

definition head_bytes :: "bytes \<Rightarrow> headers \<Rightarrow> bytes" where
  "head_bytes line hs = line @ crlf @ hdrs_serialize hs @ crlf"

lemma head_found:
  assumes "13 \<notin> set line" and "list_all header_ok hs"
  shows "find_header_end (head_bytes line hs @ body) = Some (length (head_bytes line hs))"
    "find_sub crlf (head_bytes line hs @ body) = Some (length line)"
    "header_block (head_bytes line hs @ body) (length line) (length (head_bytes line hs)) = hdrs_serialize hs"
    "n < length (head_bytes line hs) \<Longrightarrow> find_header_end (take n (head_bytes line hs @ body)) = None"
proof -
  define ls where "ls = map (\<lambda>(k, v). k @ str '': '' @ v) hs"
  have ser: "hdrs_serialize hs = concat (map (\<lambda>l. l @ crlf) ls)"
    by (simp add: hdrs_serialize_def ls_def comp_def case_prod_unfold)
  have "list_all (\<lambda>l. l \<noteq> [] \<and> 13 \<notin> set l) ls"
    using assms(2) by (auto simp: ls_def list_all_iff header_ok_def)
  note t = find_terminator [OF assms(1) this, of body]
  have len: "length (concat (map (\<lambda>l. crlf @ l) ls)) = length (hdrs_serialize hs)"
    unfolding ser by (induction ls) auto
  have find: "find_sub header_terminator (head_bytes line hs @ body) = Some (length line + length (hdrs_serialize hs))"
    using t len by (simp add: head_bytes_def ser)
  then show "find_header_end (head_bytes line hs @ body) = Some (length (head_bytes line hs))"
    by (simp add: find_header_end_def head_bytes_def crlf_simps)
  show "find_sub crlf (head_bytes line hs @ body) = Some (length line)"
    using find_crlf [OF assms(1)] by (simp add: head_bytes_def)
  show "header_block (head_bytes line hs @ body) (length line) (length (head_bytes line hs)) = hdrs_serialize hs"
    by (simp add: header_block_def head_bytes_def substr_def crlf_simps)
  show "find_header_end (take n (head_bytes line hs @ body)) = None" if "n < length (head_bytes line hs)"
    using find_sub_take [OF find, of n] that by (simp add: find_header_end_def head_bytes_def crlf_simps)
qed

section \<open>Requests: printing and parsing\<close>

definition request_line :: "request \<Rightarrow> bytes" where
  "request_line req = method_to_string (rq_method req) @ str '' '' @ rq_path req @ str '' '' @ version_to_string (rq_ver req)"

lemma serialize_request_head: "serialize_request req = head_bytes (request_line req) (rq_hdrs req) @ rq_bd req"
  by (simp add: serialize_request_def head_bytes_def request_line_def)

text \<open>
  Requests that can be printed: a target without blanks and line ends, and well-formed headers.  What the parser makes of
  one: the printed path is split at the first question mark, and every version but 1.0 is taken for 1.1.
\<close>

definition printable_request :: "request \<Rightarrow> bool" where
  "printable_request req \<longleftrightarrow> set (rq_path req) \<inter> {0x0D, 0x20} = {} \<and> list_all header_ok (rq_hdrs req)"

definition received_http1 :: "request \<Rightarrow> request" where
  "received_http1 req =
     (let path = takeWhile (\<lambda>b. b \<noteq> 0x3F) (rq_path req)
      in req\<lparr>rq_path := if path = [] then str ''/'' else path, rq_query := drop (length path + 1) (rq_path req),
             rq_ver := if rq_ver req = HTTP_10 then HTTP_10 else HTTP_11\<rparr>)"

text \<open>
  Requests that HTTP/1.x carries unchanged when their query is printed behind the path: path and query without blanks and line
  ends, well-formed headers, and a \<^verbatim>\<open>Content-Length\<close> that tells the length of the body.
\<close>

definition length_told :: "headers \<Rightarrow> bytes \<Rightarrow> bool" where
  "length_told hs body \<longleftrightarrow> \<not> is_chunked hs \<and>
     (content_length hs = Some (int (length body)) \<or> content_length hs = None \<and> body = [])"

definition request_ok :: "request \<Rightarrow> bool" where
  "request_ok req \<longleftrightarrow> rq_path req \<noteq> [] \<and> set (rq_path req) \<inter> {0x0D, 0x20, 0x3F} = {} \<and> set (rq_query req) \<inter> {0x0D, 0x20} = {} \<and>
     rq_ver req \<in> {HTTP_10, HTTP_11} \<and> list_all header_ok (rq_hdrs req) \<and> length_told (rq_hdrs req) (rq_bd req)"

text \<open>The bytes of a request with its query; \<^verbatim>\<open>serialize\<close> leaves the query out.\<close>

definition with_target :: "request \<Rightarrow> request" where
  "with_target req = req\<lparr>rq_path := rq_path req @ (if rq_query req = [] then [] else 0x3F # rq_query req)\<rparr>"

definition request_wire :: "request \<Rightarrow> bytes" where
  "request_wire req = serialize_request (with_target req)"

lemma received_with_target: "request_ok req \<Longrightarrow> received_http1 (with_target req) = req"
  by (cases req) (auto simp: request_ok_def received_http1_def with_target_def Let_def takeWhile_append disjoint_iff
      simp flip: takeWhile_eq_all_conv)

lemma printable_with_target: "request_ok req \<Longrightarrow> printable_request (with_target req)"
  by (auto simp: request_ok_def printable_request_def with_target_def)

lemma request_wire_plain: "rq_query req = [] \<Longrightarrow> request_wire req = serialize_request req"
  by (cases req) (simp add: request_wire_def with_target_def)

lemma method_no_blank: "0x20 \<notin> set (method_to_string m)" "0x0D \<notin> set (method_to_string m)"
  by (cases m; simp add: method_to_string_def)+

lemma version_no_cr: "0x0D \<notin> set (version_to_string v)" "0x20 \<notin> set (version_to_string v)"
  by (cases v; simp add: version_to_string_def)+

lemma split_target_query:
  "split_target p (request_default\<lparr>rq_method := m\<rparr>) = (let path = takeWhile (\<lambda>b. b \<noteq> 0x3F) p
     in request_default\<lparr>rq_method := m, rq_path := if path = [] then str ''/'' else path, rq_query := drop (length path + 1) p\<rparr>)"
proof (cases rule: find_char_cases [of "0x3F" p])
  case none
  have "find_sub (str ''?'') p = None" using none by simp
  then show ?thesis unfolding split_target_def Let_def none(1) by (simp add: request_default_def)
next
  case (some t q)
  have "find_sub (str ''?'') p = Some (length t)" using some by simp
  then show ?thesis unfolding split_target_def Let_def some(2) using some(1) by (simp add: request_default_def)
qed

lemma request_line_parses:
  assumes "printable_request req"
  shows "parse_request_line (request_line req) = Inr ((received_http1 req)\<lparr>rq_hdrs := [], rq_bd := []\<rparr>)" "13 \<notin> set (request_line req)"
proof -
  let ?m = "method_to_string (rq_method req)"
  let ?v = "version_to_string (rq_ver req)"
  have sp1: "find_sub (str '' '') (request_line req) = Some (length ?m)"
    using find_sub_char_append [OF method_no_blank(1)] by (simp add: request_line_def)
  have "find_sub (str '' '') (rq_path req @ 0x20 # ?v) = Some (length (rq_path req))"
    using assms find_sub_char_append [of "0x20" "rq_path req" ?v] by (simp add: printable_request_def)
  then have sp2: "find_from (str '' '') (request_line req) (length ?m + 1) = Some (length ?m + 1 + length (rq_path req))"
    by (simp add: find_from_def request_line_def)
  have "http1_version ?v = (if rq_ver req = HTTP_10 then HTTP_10 else HTTP_11)"
    by (cases "rq_ver req") (simp_all add: http1_version_def version_to_string_def)
  then show "parse_request_line (request_line req) = Inr ((received_http1 req)\<lparr>rq_hdrs := [], rq_bd := []\<rparr>)"
    using sp1 sp2
    by (cases req)
       (simp add: parse_request_line_def, simp add: request_line_def substr_def parse_method_to_string split_target_query,
        simp add: request_default_def received_http1_def Let_def)
  show "13 \<notin> set (request_line req)"
    using assms method_no_blank(2) version_no_cr(1) by (auto simp: request_line_def printable_request_def)
qed

text \<open>What the parser makes of a well-formed head and any bytes after it.\<close>

lemma parse_request_head:
  assumes "printable_request req"
  shows "parse_request (head_bytes (request_line req) (rq_hdrs req) @ b) =
    map_option (\<lambda>r. bindE r (\<lambda>res. if \<not> br_complete res then Inr None
        else Inr (Some ((received_http1 req)\<lparr>rq_bd := br_data res\<rparr>, length (head_bytes (request_line req) (rq_hdrs req)) + br_consumed res))))
      (parse_body b (rq_hdrs req))"
proof -
  let ?head = "head_bytes (request_line req) (rq_hdrs req)"
  have hs: "list_all header_ok (rq_hdrs req)" using assms by (simp add: printable_request_def)
  note line = request_line_parses [OF assms]
  note found = head_found [OF line(2) hs, where body = b]
  have "take (length (request_line req)) (?head @ b) = request_line req" by (simp add: head_bytes_def)
  moreover have "parse_header_lines (header_block (?head @ b) (length (request_line req)) (length ?head)) [] = rq_hdrs req"
    using found(3) parse_serialized_headers [OF hs] by simp
  moreover have "(received_http1 req)\<lparr>rq_hdrs := rq_hdrs req\<rparr> = received_http1 req"
    by (cases req) (simp add: received_http1_def Let_def)
  ultimately show ?thesis
    using found(1,2) line(1) by (simp add: parse_request_def Let_def cong: if_cong)
qed

lemma parse_body_told:
  assumes "length_told hs body"
  shows "parse_body (body @ rest) hs = Some (Inr \<lparr>br_data = body, br_consumed = length body, br_complete = True\<rparr>)"
    "n < length body \<Longrightarrow> parse_body (take n body) hs = Some (Inr \<lparr>br_data = [], br_consumed = 0, br_complete = False\<rparr>)"
  using assms by (auto simp: length_told_def parse_body_def)

lemma request_update_bd: "req\<lparr>rq_bd := rq_bd req\<rparr> = req"
  by (cases req) simp

section \<open>Responses: printing and parsing\<close>

definition status_line :: "response \<Rightarrow> bytes" where
  "status_line resp = version_to_string (rs_ver resp) @ str '' '' @ int_to_string (rs_status resp) @ str '' '' @
     reason_phrase (rs_status resp)"

lemma serialize_response_head: "serialize_response resp = head_bytes (status_line resp) (rs_hdrs resp) @ rs_bd resp"
  by (simp add: serialize_response_def head_bytes_def status_line_def)

definition response_ok1 :: "response \<Rightarrow> bool" where
  "response_ok1 resp \<longleftrightarrow> 100 \<le> rs_status resp \<and> rs_status resp \<le> 599 \<and> rs_ver resp \<in> {HTTP_10, HTTP_11} \<and>
     list_all header_ok (rs_hdrs resp) \<and> length_told (rs_hdrs resp) (rs_bd resp) \<and> rs_trailers resp = [] \<and>
     (content_length (rs_hdrs resp) = None \<longrightarrow> rs_status resp \<in> {204, 304} \<union> {100..199})"

lemma reason_no_cr: "13 \<notin> set (reason_phrase code)"
  by (simp add: reason_phrase_def)

lemma number_no_char: "c \<notin> set (nat_to_string n)" if "digit_val 10 c = None"
  using that nat_to_string_numeric [of n] by auto

lemma status_line_parses:
  assumes "response_ok1 resp"
  shows "parse_status_line (status_line resp) = Inr (resp\<lparr>rs_hdrs := [], rs_bd := []\<rparr>)" "13 \<notin> set (status_line resp)"
proof -
  let ?v = "version_to_string (rs_ver resp)"
  let ?n = "int_to_string (rs_status resp)"
  have n: "?n = nat_to_string (nat (rs_status resp))" using assms by (simp add: int_to_string_def response_ok1_def)
  have blank: "32 \<notin> set ?n" "13 \<notin> set ?n"
    unfolding n using number_no_char [of 32] number_no_char [of 13] by (simp_all add: digit_val_def)
  have sp1: "find_sub (str '' '') (status_line resp) = Some (length ?v)"
    using find_sub_char_append [OF version_no_cr(2)] by (simp add: status_line_def)
  have sp2: "find_sub (str '' '') (?n @ 32 # reason_phrase (rs_status resp)) = Some (length ?n)"
    using find_sub_char_append [OF blank(1)] by simp
  have "from_chars_signed 32 ?n = Some (rs_status resp)"
    using from_chars_signed_to_string [of 32 "rs_status resp" "[]"] assms by (simp add: response_ok1_def)
  moreover have "http1_version ?v = rs_ver resp" using assms by (auto simp: response_ok1_def http1_version_def version_to_string_def)
  ultimately show "parse_status_line (status_line resp) = Inr (resp\<lparr>rs_hdrs := [], rs_bd := []\<rparr>)"
    using assms sp1 sp2
    by (cases resp)
       (simp add: parse_status_line_def Let_def, simp add: status_line_def response_default_def response_ok1_def)
  show "13 \<notin> set (status_line resp)"
    using blank version_no_cr(1) reason_no_cr by (auto simp: status_line_def)
qed

lemma parse_response_head:
  assumes "response_ok1 resp" and "content_length (rs_hdrs resp) \<noteq> None"
  shows "parse_response (head_bytes (status_line resp) (rs_hdrs resp) @ b) =
    map_option (\<lambda>r. bindE r (\<lambda>res. if \<not> br_complete res then Inr None
        else Inr (Some (resp\<lparr>rs_bd := br_data res\<rparr>, length (head_bytes (status_line resp) (rs_hdrs resp)) + br_consumed res))))
      (parse_body b (rs_hdrs resp))"
proof -
  let ?head = "head_bytes (status_line resp) (rs_hdrs resp)"
  have hs: "list_all header_ok (rs_hdrs resp)" using assms by (simp add: response_ok1_def)
  note line = status_line_parses [OF assms(1)]
  note found = head_found [OF line(2) hs, where body = b]
  have "take (length (status_line resp)) (?head @ b) = status_line resp" by (simp add: head_bytes_def)
  moreover have "parse_header_lines (header_block (?head @ b) (length (status_line resp)) (length ?head)) [] = rs_hdrs resp"
    using found(3) parse_serialized_headers [OF hs] by simp
  moreover obtain len where "content_length (rs_hdrs resp) = Some len" using assms(2) by blast
  ultimately show ?thesis
    using found(1,2) line(1) by (simp add: parse_response_def Let_def cong: if_cong)
qed

lemma parse_response_bodyless:
  assumes "response_ok1 resp" and "content_length (rs_hdrs resp) = None"
  shows "parse_response (head_bytes (status_line resp) (rs_hdrs resp) @ b) =
    Some (Inr (Some (resp, length (head_bytes (status_line resp) (rs_hdrs resp)))))"
proof -
  let ?head = "head_bytes (status_line resp) (rs_hdrs resp)"
  have hs: "list_all header_ok (rs_hdrs resp)" using assms by (simp add: response_ok1_def)
  note line = status_line_parses [OF assms(1)]
  note found = head_found [OF line(2) hs, where body = b]
  have ok: "\<not> is_chunked (rs_hdrs resp)" "rs_bd resp = []" "rs_status resp = 204 \<or> rs_status resp = 304 \<or> 100 \<le> rs_status resp \<and> rs_status resp < 200"
    using assms by (auto simp: response_ok1_def length_told_def)
  have "take (length (status_line resp)) (?head @ b) = status_line resp" by (simp add: head_bytes_def)
  moreover have "parse_header_lines (header_block (?head @ b) (length (status_line resp)) (length ?head)) [] = rs_hdrs resp"
    using found(3) parse_serialized_headers [OF hs] by simp
  moreover have "resp\<lparr>rs_hdrs := [], rs_bd := [], rs_hdrs := rs_hdrs resp, rs_bd := []\<rparr> = resp"
    using ok(2) by (cases resp) simp
  ultimately show ?thesis
    using found(1,2) line(1) assms(2) ok by (simp add: parse_response_def Let_def)
qed

lemma with_target_fields [simp]: "rq_hdrs (with_target req) = rq_hdrs req" "rq_bd (with_target req) = rq_bd req"
  by (simp_all add: with_target_def)

lemma parse_printed_request:
  assumes "request_ok req"
  shows "parse_request (request_wire req @ rest) = Some (Inr (Some (req, length (request_wire req))))"
proof -
  have told: "length_told (rq_hdrs req) (rq_bd req)" using assms by (simp add: request_ok_def)
  show ?thesis
    using parse_request_head [OF printable_with_target [OF assms], of "rq_bd req @ rest"] parse_body_told(1) [OF told, of rest]
    by (simp add: request_wire_def serialize_request_head received_with_target [OF assms] request_update_bd)
qed

text \<open>
  C23: What becomes of a printed request when it is parsed with whatever bytes follow it, unless it announces a chunked body.  The
  parser returns the request that \<open>received_http1\<close> describes, with the body that the headers announce: the announced number of
  bytes after the head, or none when no length is announced; it consumes head and body, and asks for more as long as
  announced bytes are missing.  A request of version 1.0 or 1.1 whose path is not empty and has no question mark, without a
  query, and whose body has the announced length (or is empty when none is announced) comes back as it was, exactly its bytes
  consumed.
\<close>

theorem request_roundtrip:
  assumes "printable_request req" and "\<not> is_chunked (rq_hdrs req)"
  shows "parse_request (serialize_request req @ rest) = Some (Inr
      (let head = length (serialize_request (req\<lparr>rq_bd := []\<rparr>)); after = rq_bd req @ rest
       in case content_length (rq_hdrs req) of
            Some len \<Rightarrow> if int (length after) < len then None
                        else Some ((received_http1 req)\<lparr>rq_bd := take (nat len) after\<rparr>, head + nat len)
          | None \<Rightarrow> Some ((received_http1 req)\<lparr>rq_bd := []\<rparr>, head))) \<and>
    (request_ok req \<and> rq_query req = [] \<longrightarrow>
       parse_request (serialize_request req @ rest) = Some (Inr (Some (req, length (serialize_request req)))))"
proof
  have line: "request_line (req\<lparr>rq_bd := []\<rparr>) = request_line req" by (simp add: request_line_def)
  show "parse_request (serialize_request req @ rest) = Some (Inr
      (let head = length (serialize_request (req\<lparr>rq_bd := []\<rparr>)); after = rq_bd req @ rest
       in case content_length (rq_hdrs req) of
            Some len \<Rightarrow> if int (length after) < len then None
                        else Some ((received_http1 req)\<lparr>rq_bd := take (nat len) after\<rparr>, head + nat len)
          | None \<Rightarrow> Some ((received_http1 req)\<lparr>rq_bd := []\<rparr>, head)))"
    using parse_request_head [OF assms(1), of "rq_bd req @ rest"] assms(2)
    by (simp add: serialize_request_head line parse_body_def Let_def split: option.split)
  show "request_ok req \<and> rq_query req = [] \<longrightarrow>
      parse_request (serialize_request req @ rest) = Some (Inr (Some (req, length (serialize_request req))))"
    using parse_printed_request [of req rest] request_wire_plain [of req] by auto
qed

definition post_example :: request where
  "post_example = \<lparr>rq_method = POST, rq_path = str ''/a'', rq_query = [], rq_ver = HTTP_11,
     rq_hdrs = [(str ''Host'', str ''h''), (str ''Content-Length'', str ''2'')], rq_bd = [13, 10]\<rparr>"

lemma post_example_ok: "request_ok post_example"
  by (simp add: request_ok_def post_example_def header_ok_def is_blank_def length_told_def is_chunked_def content_length_def
      to_lower_def tolower_def from_chars_signed_def digit_val_def)

lemma post_example_wire: "request_wire post_example = serialize_request post_example"
  by (rule request_wire_plain) (simp add: post_example_def)

theorem request_roundtrip_witness:
  "parse_request (serialize_request post_example @ [71]) = Some (Inr (Some (post_example, length (serialize_request post_example)))) \<and>
   parse_request (serialize_request (post_example\<lparr>rq_path := str ''/a?b'', rq_hdrs := []\<rparr>) @ [71]) =
     Some (Inr (Some (post_example\<lparr>rq_query := str ''b'', rq_hdrs := [], rq_bd := []\<rparr>, 22)))"
proof
  have ok: "printable_request post_example" "\<not> is_chunked (rq_hdrs post_example)" "rq_query post_example = []"
    using post_example_ok by (auto simp: request_ok_def printable_request_def length_told_def post_example_def)
  show "parse_request (serialize_request post_example @ [71]) = Some (Inr (Some (post_example, length (serialize_request post_example))))"
    using request_roundtrip [OF ok(1,2), of "[71]", THEN conjunct2] post_example_ok ok(3) by blast
  let ?r = "post_example\<lparr>rq_path := str ''/a?b'', rq_hdrs := []\<rparr>"
  have r: "printable_request ?r" "\<not> is_chunked (rq_hdrs ?r)" by (simp_all add: printable_request_def is_chunked_def)
  show "parse_request (serialize_request ?r @ [71]) = Some (Inr (Some (post_example\<lparr>rq_query := str ''b'', rq_hdrs := [], rq_bd := []\<rparr>, 22)))"
    using request_roundtrip [OF r, of "[71]", THEN conjunct1]
    by (simp add: content_length_def received_http1_def Let_def serialize_request_def method_to_string_def version_to_string_def
        hdrs_serialize_def crlf_def post_example_def)
qed

lemma parse_request_prefix:
  assumes "request_ok req" and "n < length (request_wire req)"
  shows "parse_request (take n (request_wire req)) = Some (Inr None)"
proof (cases "n < length (head_bytes (request_line (with_target req)) (rq_hdrs req))")
  case True
  have "list_all header_ok (rq_hdrs req)" using assms(1) by (simp add: request_ok_def)
  with True show ?thesis
    using head_found(4) [OF request_line_parses(2) [OF printable_with_target [OF assms(1)]], of "rq_hdrs req" n "rq_bd req"]
    by (simp add: request_wire_def serialize_request_head parse_request_def)
next
  case False
  define m where "m = n - length (head_bytes (request_line (with_target req)) (rq_hdrs req))"
  have told: "length_told (rq_hdrs req) (rq_bd req)" using assms by (simp add: request_ok_def)
  have "m < length (rq_bd req)" using False assms(2) by (simp add: m_def request_wire_def serialize_request_head)
  then show ?thesis
    using False parse_request_head [OF printable_with_target [OF assms(1)], of "take m (rq_bd req)"] parse_body_told(2) [OF told]
    by (simp add: request_wire_def serialize_request_head m_def)
qed

text \<open>
  From a proper prefix of a printed request the parser never produces a request and never throws:
  it asks for more data.  A server that reads in pieces of any size sees the request once, when its
  last byte has arrived.
\<close>

theorem request_prefix_waits:
  assumes "request_ok req" and "n < length (request_wire req)"
  shows "parse_request (take n (request_wire req)) = Some (Inr None)"
  using assms by (rule parse_request_prefix)

theorem request_prefix_waits_witness:
  "parse_request (take 20 (request_wire post_example)) = Some (Inr None)"
  by (rule request_prefix_waits [OF post_example_ok], unfold post_example_wire)
     (simp add: post_example_def serialize_request_def method_to_string_def version_to_string_def hdrs_serialize_def crlf_def)

lemma parse_printed_response:
  assumes "response_ok1 resp"
  shows "parse_response (serialize_response resp @ rest) = Some (Inr (Some (resp, length (serialize_response resp))))"
proof (cases "content_length (rs_hdrs resp)")
  case None
  then have "rs_bd resp = []" using assms by (auto simp: response_ok1_def length_told_def)
  then show ?thesis using parse_response_bodyless [OF assms None, of rest] by (simp add: serialize_response_head)
next
  case (Some len)
  have told: "length_told (rs_hdrs resp) (rs_bd resp)" using assms by (simp add: response_ok1_def)
  have "resp\<lparr>rs_bd := rs_bd resp\<rparr> = resp" by (cases resp) simp
  then show ?thesis
    using parse_response_head [OF assms, of "rs_bd resp @ rest"] Some parse_body_told(1) [OF told, of rest]
    by (simp add: serialize_response_head)
qed

text \<open>
  A response with a stated length, or with a status that has no body, survives printing and
  parsing, and exactly the printed bytes are consumed.
\<close>

theorem response_roundtrip:
  assumes "response_ok1 resp"
  shows "parse_response (serialize_response resp @ rest) = Some (Inr (Some (resp, length (serialize_response resp))))"
  using assms by (rule parse_printed_response)

theorem response_roundtrip_witness:
  "parse_response (serialize_response (response_default\<lparr>rs_status := 204\<rparr>) @ [72]) =
     Some (Inr (Some (response_default\<lparr>rs_status := 204\<rparr>, length (serialize_response (response_default\<lparr>rs_status := 204\<rparr>)))))"
  by (rule response_roundtrip)
     (simp add: response_ok1_def response_default_def length_told_def is_chunked_def content_length_def)

section \<open>Chunked bodies\<close>

text \<open>A chunk on the wire: its size line, its data and a line end.\<close>

definition chunk_ok :: "bytes \<times> bytes \<Rightarrow> bool" where
  "chunk_ok c \<longleftrightarrow> 13 \<notin> set (fst c) \<and> snd c \<noteq> [] \<and> from_chars_unsigned 64 16 (fst c) = Some (length (snd c))"

definition chunk_bytes :: "bytes \<times> bytes \<Rightarrow> bytes" where
  "chunk_bytes c = fst c @ crlf @ snd c @ crlf"

definition last_chunk :: bytes where
  "last_chunk = str ''0'' @ crlf @ crlf"

lemma chunk_loop_step:
  assumes "pos < length data" and "find_from crlf data pos = Some e" and "from_chars_unsigned 64 16 (substr data pos (e - pos)) = Some n"
    and "0 < n" and "e + n + 4 \<le> length data" and "length data < 2 ^ 64"
  shows "chunk_loop data pos acc = chunk_loop data (e + n + 4) (acc @ substr data (e + 2) n)"
proof -
  have "(e + 2 + n + 2) mod 2 ^ 64 = e + n + 4" using assms(5,6) by simp
  then show ?thesis using assms by (subst chunk_loop.simps) (simp add: Let_def algebra_simps)
qed

lemma chunk_loop_chunks:
  assumes "list_all chunk_ok cs" and "length (pre @ concat (map chunk_bytes cs) @ last_chunk @ rest) < 2 ^ 64"
  shows "chunk_loop (pre @ concat (map chunk_bytes cs) @ last_chunk @ rest) (length pre) acc =
    Some (Inr \<lparr>br_data = acc @ concat (map snd cs), br_consumed = length (pre @ concat (map chunk_bytes cs) @ last_chunk), br_complete = True\<rparr>)"
  using assms
proof (induction cs arbitrary: pre acc)
  case Nil
  have "find_from crlf (pre @ last_chunk @ rest) (length pre) = Some (length pre + 1)"
    using find_from_crlf [of "str ''0''" pre "crlf @ rest"] by (simp add: last_chunk_def)
  moreover have "from_chars_unsigned 64 16 (str ''0'') = Some 0"
    by (simp add: from_chars_unsigned_def digit_val_def)
  ultimately show ?case
    by (subst chunk_loop.simps) (simp add: substr_def last_chunk_def crlf_simps Let_def)
next
  case (Cons c cs)
  obtain sz d where c: "c = (sz, d)" by force
  have ok: "13 \<notin> set sz" "d \<noteq> []" "from_chars_unsigned 64 16 sz = Some (length d)" using Cons.prems(1) by (simp_all add: c chunk_ok_def)
  let ?tail = "concat (map chunk_bytes cs) @ last_chunk @ rest"
  let ?data = "pre @ concat (map chunk_bytes (c # cs)) @ last_chunk @ rest"
  have data: "?data = (pre @ chunk_bytes c) @ ?tail" by simp
  have len: "length pre + length sz + length d + 4 = length (pre @ chunk_bytes c)" by (simp add: c chunk_bytes_def crlf_simps)
  have "chunk_loop ?data (length pre) acc =
      chunk_loop ?data (length pre + length sz + length d + 4) (acc @ substr ?data (length pre + length sz + 2) (length d))"
  proof (rule chunk_loop_step)
    show "find_from crlf ?data (length pre) = Some (length pre + length sz)"
      using find_from_crlf [OF ok(1), of pre "d @ crlf @ ?tail"] by (simp add: c chunk_bytes_def)
    show "from_chars_unsigned 64 16 (substr ?data (length pre) (length pre + length sz - length pre)) = Some (length d)"
      using ok(3) by (simp add: c chunk_bytes_def substr_def)
    show "length pre < length ?data" "length pre + length sz + length d + 4 \<le> length ?data"
      by (simp_all add: c chunk_bytes_def crlf_simps)
  qed (use ok(2) Cons.prems(2) in simp_all)
  moreover have "substr ?data (length pre + length sz + 2) (length d) = d"
    by (simp add: c chunk_bytes_def substr_def crlf_simps)
  ultimately have "chunk_loop ?data (length pre) acc = chunk_loop ?data (length (pre @ chunk_bytes c)) (acc @ d)"
    unfolding len by simp
  then show ?case using Cons.IH [of "pre @ chunk_bytes c" "acc @ d"] Cons.prems by (simp add: c)
qed

text \<open>
  A chunked body is reassembled: whatever the sizes of its chunks and however the size lines are
  written, the result is the concatenation of the chunks, and exactly the bytes up to the end of the
  last chunk are consumed.
\<close>

theorem chunked_body_decodes:
  assumes "is_chunked hs" and "list_all chunk_ok cs" and "length (concat (map chunk_bytes cs) @ last_chunk @ rest) < 2 ^ 64"
  shows "parse_body (concat (map chunk_bytes cs) @ last_chunk @ rest) hs =
    Some (Inr \<lparr>br_data = concat (map snd cs), br_consumed = length (concat (map chunk_bytes cs) @ last_chunk), br_complete = True\<rparr>)"
  using chunk_loop_chunks [OF assms(2), of "[]" rest "[]"] assms(1,3) by (simp add: parse_body_def)

theorem chunked_body_decodes_witness:
  "parse_body (chunk_bytes (str ''02;x'', [1, 2]) @ chunk_bytes (str ''1'', [3]) @ last_chunk) [(str ''transfer-encoding'', str ''Chunked'')] =
     Some (Inr \<lparr>br_data = [1, 2, 3], br_consumed = 21, br_complete = True\<rparr>)"
proof -
  have "is_chunked [(str ''transfer-encoding'', str ''Chunked'')]"
    by (simp add: is_chunked_def to_lower_def tolower_def)
  moreover have "list_all chunk_ok [(str ''02;x'', [1, 2]), (str ''1'', [3])]"
    by (simp add: chunk_ok_def from_chars_unsigned_def digit_val_def)
  ultimately show ?thesis
    using chunked_body_decodes [of "[(str ''transfer-encoding'', str ''Chunked'')]" "[(str ''02;x'', [1, 2]), (str ''1'', [3])]" "[]"]
    by (simp add: chunk_bytes_def last_chunk_def crlf_simps)
qed

section \<open>Termination of the chunk loop\<close>

lemma digit_val_less: "digit_val base c = Some d \<Longrightarrow> d < base"
  by (auto simp: digit_val_def Let_def split: option.splits if_splits)

lemma read_digits_bound:
  "0 < base \<Longrightarrow> read_digits base s acc < (acc + 1) * base ^ length (takeWhile (\<lambda>c. digit_val base c \<noteq> None) s)"
proof (induction s arbitrary: acc)
  case (Cons c s)
  show ?case
  proof (cases "digit_val base c")
    case (Some d)
    let ?n = "length (takeWhile (\<lambda>c. digit_val base c \<noteq> None) s)"
    have "read_digits base (c # s) acc < (acc * base + d + 1) * base ^ ?n" using Cons Some by simp
    also have "\<dots> \<le> ((acc + 1) * base) * base ^ ?n"
      using digit_val_less [OF Some] by (intro mult_le_mono1) (simp add: algebra_simps)
    finally show ?thesis using Some by (simp add: algebra_simps)
  qed simp
qed simp

text \<open>No sixteen hexadecimal digits in a row: no chunk size reaches the range where the sum wraps.\<close>

definition short_sizes :: "bytes \<Rightarrow> bool" where
  "short_sizes data \<longleftrightarrow> (\<forall>i. i + 16 \<le> length data \<longrightarrow> (\<exists>k<16. digit_val 16 (data ! (i + k)) = None))"

lemma short_size_bound:
  assumes "short_sizes data" and "from_chars_unsigned 64 16 (substr data pos m) = Some n"
  shows "n < 2 ^ 60"
proof -
  let ?s = "substr data pos m"
  let ?w = "takeWhile (\<lambda>c. digit_val 16 c \<noteq> None) ?s"
  have "length ?w \<le> 15"
  proof (rule ccontr)
    assume long: "\<not> length ?w \<le> 15"
    have "length ?w \<le> length ?s" by (rule length_takeWhile_le)
    then have len: "pos + 16 \<le> length data" using long by (auto simp: substr_def)
    have "digit_val 16 (data ! (pos + k)) \<noteq> None" if "k < 16" for k
    proof -
      have k: "k < length ?w" using long that by simp
      then have "?w ! k \<in> set ?w" by simp
      then have "digit_val 16 (?w ! k) \<noteq> None" using set_takeWhileD by fastforce
      moreover have "?w ! k = ?s ! k" using k by (rule takeWhile_nth)
      moreover have "?s ! k = data ! (pos + k)" using k \<open>length ?w \<le> length ?s\<close> len by (simp add: substr_def)
      ultimately show ?thesis by simp
    qed
    then show False using assms(1) len unfolding short_sizes_def by metis
  qed
  then have "(16 :: nat) ^ length ?w \<le> 16 ^ 15" by (intro power_increasing) simp_all
  moreover have "n = read_digits 16 ?s 0" using assms(2) by (auto simp: from_chars_unsigned_def Let_def split: if_splits)
  ultimately show ?thesis using read_digits_bound [of 16 ?s 0] by simp
qed

text \<open>
  C25: On a body without sixteen hexadecimal digits in a row the chunk loop ends, with a result or an
  exception.
\<close>

theorem chunk_loop_terminates:
  assumes "short_sizes data" and "length data < 2 ^ 63"
  shows "\<exists>r. chunk_loop data pos acc = Some r"
proof (induction "length data - pos" arbitrary: pos acc rule: less_induct)
  case less
  show ?case
  proof (cases "\<exists>e n. pos < length data \<and> find_from crlf data pos = Some e \<and>
      from_chars_unsigned 64 16 (substr data pos (e - pos)) = Some n \<and> 0 < n \<and> e + n + 4 \<le> length data")
    case True
    then obtain e n where t: "pos < length data" "find_from crlf data pos = Some e"
      "from_chars_unsigned 64 16 (substr data pos (e - pos)) = Some n" "0 < n" "e + n + 4 \<le> length data" by blast
    have "pos \<le> e" using find_from_bounds [OF t(2)] by simp
    then show ?thesis
      using chunk_loop_step [OF t] assms(2) less [of "e + n + 4" "acc @ substr data (e + 2) n"] t(1) by simp
  next
    case False
    show ?thesis
    proof (cases "find_from crlf data pos")
      case (Some e)
      have e: "e + 2 \<le> length data" using find_from_bounds [OF Some] by (simp add: crlf_simps)
      show ?thesis
      proof (cases "from_chars_unsigned 64 16 (substr data pos (e - pos))")
        case (Some n)
        have "n < 2 ^ 60" using short_size_bound [OF assms(1) Some] .
        then have "(e + 2 + n + 2) mod 2 ^ 64 = e + n + 4" using e assms(2) by simp
        then show ?thesis
          using False \<open>find_from crlf data pos = Some e\<close> Some by (subst chunk_loop.simps) (auto simp: Let_def)
      qed (use \<open>find_from crlf data pos = Some e\<close> in \<open>subst chunk_loop.simps, simp\<close>)
    qed (subst chunk_loop.simps, simp)
  qed
qed

theorem chunk_loop_terminates_witness:
  "\<exists>r. chunk_loop (str ''2'' @ crlf @ [1, 2] @ crlf @ str ''0'' @ crlf) 0 [] = Some r"
  by (rule chunk_loop_terminates) (simp_all add: short_sizes_def crlf_simps)

text \<open>The size that leads from the end of its own line back to the start of the body.\<close>

definition looping_body :: bytes where
  "looping_body = str ''ffffffffffffffec'' @ crlf"

lemma looping_size: "from_chars_unsigned 64 16 (str ''ffffffffffffffec'') = Some (2 ^ 64 - 20)"
  by (simp add: from_chars_unsigned_def digit_val_def)

lemma looping_body_facts:
  "length looping_body = 18" "find_from crlf looping_body 0 = Some 16"
  "from_chars_unsigned 64 16 (substr looping_body 0 16) = Some (2 ^ 64 - 20)"
  using find_from_crlf [of "str ''ffffffffffffffec''" "[]" "[]"] looping_size
  by (simp_all add: looping_body_def crlf_simps substr_def)

lemma chunk_loop_never:
  assumes "chunk_loop data pos acc = Some r"
  shows "\<not> (data = looping_body \<and> pos = 0)"
proof (rule chunk_loop.raw_induct [OF _ assms, where P = "\<lambda>data pos acc r. \<not> (data = looping_body \<and> pos = 0)"])
  fix f data pos acc r
  assume hyp: "\<And>data pos acc r. f data pos acc = Some r \<Longrightarrow> \<not> (data = looping_body \<and> pos = 0)"
    and body: "(if length data \<le> pos then Some (Inr \<lparr>br_data = acc, br_consumed = 0, br_complete = False\<rparr>)
      else case find_from crlf data pos of
             None \<Rightarrow> Some (Inr \<lparr>br_data = acc, br_consumed = pos, br_complete = False\<rparr>)
           | Some line_end \<Rightarrow>
               (case from_chars_unsigned 64 16 (substr data pos (line_end - pos)) of
                  None \<Rightarrow> Some (Inl (Runtime_Error ''Invalid chunk size''))
                | Some chunk_size \<Rightarrow>
                    (let p = line_end + 2
                     in if chunk_size = 0
                        then (if p + 2 \<le> length data
                              then Some (Inr \<lparr>br_data = acc, br_consumed = p + 2, br_complete = True\<rparr>)
                              else Some (Inr \<lparr>br_data = acc, br_consumed = p, br_complete = False\<rparr>))
                        else if length data < (p + chunk_size + 2) mod 2 ^ 64
                        then Some (Inr \<lparr>br_data = acc, br_consumed = 0, br_complete = False\<rparr>)
                        else f data ((p + chunk_size + 2) mod 2 ^ 64) (acc @ substr data p chunk_size)))) = Some r"
  show "\<not> (data = looping_body \<and> pos = 0)"
  proof
    assume "data = looping_body \<and> pos = 0"
    then have "f looping_body 0 (acc @ substr looping_body 18 (2 ^ 64 - 20)) = Some r"
      using body looping_body_facts by (simp add: Let_def)
    then show False using hyp by blast
  qed
qed

text \<open>
  C24: The parser does not return on an eighteen-byte body: the size in it wraps the 64-bit position
  back to zero, and the loop reads the same size line for ever.  A client can stop a server thread with
  one request.
\<close>

theorem chunk_loop_diverges:
  assumes "is_chunked hs"
  shows "parse_body looping_body hs = None"
  using assms chunk_loop_never [of looping_body 0 "[]"]
  by (cases "chunk_loop looping_body 0 []") (auto simp: parse_body_def)

theorem chunk_loop_diverges_witness:
  "parse_body looping_body [(str ''Transfer-Encoding'', str ''chunked'')] = None"
  by (rule chunk_loop_diverges) (simp add: is_chunked_def to_lower_def tolower_def)

end
