(* ===== verification/Ws_Handshake.thy ===== *)
theory Ws_Handshake
  imports Http1_Codec
begin

text \<open>
  The opening handshake of the WebSocket protocol, \<^verbatim>\<open>include/async_net/http/websocket.hpp\<close>: the SHA-1
  and Base64 routines of the header, the accept key, the recognition of an upgrade request and the
  response to it.  The digest is compared with the definition of FIPS 180-4, the encoder with the
  decoder of RFC 4648, and the response with the HTTP/1.x parser of \<^verbatim>\<open>Http1_Codec\<close>.
\<close>

section \<open>SHA-1\<close>

text \<open>\<^verbatim>\<open>left_rotate\<close> is called with 1, 5 and 30, so that neither shift reaches the width.\<close>

definition left_rotate :: "u32 \<Rightarrow> nat \<Rightarrow> u32" where
  "left_rotate v bits = push_bit bits v OR drop_bit (32 - bits) v"

lemma pad_count: "r < 64 \<Longrightarrow> (120 - r) mod 64 = (if r \<le> 56 then 56 - r else 120 - (r :: nat))"
  by (subst mod_if) (auto simp: mod_if [of "56 - r"])

lemma pad_step: "n mod 64 \<noteq> 56 \<Longrightarrow> (120 - n mod 64) mod 64 = Suc ((120 - Suc n mod 64) mod (64 :: nat))"
  using mod_less_divisor [of 64 n] by (auto simp: pad_count mod_Suc simp del: mod_less_divisor)

text \<open>The padding loop: zero bytes until the length is 56 modulo 64.\<close>

function pad_zeros :: "bytes \<Rightarrow> bytes" where
  "pad_zeros msg = (if length msg mod 64 \<noteq> 56 then pad_zeros (msg @ [0]) else msg)"
  by pat_completeness auto
termination
  by (relation "measure (\<lambda>msg. (120 - length msg mod 64) mod 64)") (simp_all add: pad_step)

declare pad_zeros.simps [simp del]

definition be64 :: "u64 \<Rightarrow> bytes" where
  "be64 v = map (\<lambda>i. byte_at v (8 * i)) [7, 6, 5, 4, 3, 2, 1, 0]"

definition sha1_pad :: "bytes \<Rightarrow> bytes" where
  "sha1_pad input = pad_zeros (input @ [0x80]) @ be64 (of_nat (length input * 8))"

definition sha1_words :: "bytes \<Rightarrow> nat \<Rightarrow> u32 list" where
  "sha1_words msg offset =
     map (\<lambda>i. ld32 (msg ! (offset + i * 4)) (msg ! (offset + i * 4 + 1))
                   (msg ! (offset + i * 4 + 2)) (msg ! (offset + i * 4 + 3))) [0..<16]"

definition sha1_schedule :: "u32 list \<Rightarrow> u32 list" where
  "sha1_schedule w0 =
     fold (\<lambda>i w. w @ [left_rotate (w ! (i - 3) XOR w ! (i - 8) XOR w ! (i - 14) XOR w ! (i - 16)) 1]) [16..<80] w0"

type_synonym sha1_state = "u32 \<times> u32 \<times> u32 \<times> u32 \<times> u32"

definition sha1_round :: "u32 list \<Rightarrow> nat \<Rightarrow> sha1_state \<Rightarrow> sha1_state" where
  "sha1_round w i = (\<lambda>(a, b, c, d, e).
     let (f, k) = (if i < 20 then ((b AND c) OR (NOT b AND d), 0x5A827999)
                   else if i < 40 then (b XOR c XOR d, 0x6ED9EBA1)
                   else if i < 60 then ((b AND c) OR (b AND d) OR (c AND d), 0x8F1BBCDC)
                   else (b XOR c XOR d, 0xCA62C1D6));
         temp = left_rotate a 5 + f + e + k + w ! i
     in (temp, a, left_rotate b 30, c, d))"

definition sha1_chunk :: "bytes \<Rightarrow> nat \<Rightarrow> sha1_state \<Rightarrow> sha1_state" where
  "sha1_chunk msg offset = (\<lambda>(h0, h1, h2, h3, h4).
     let w = sha1_schedule (sha1_words msg offset);
         (a, b, c, d, e) = fold (sha1_round w) [0..<80] (h0, h1, h2, h3, h4)
     in (h0 + a, h1 + b, h2 + c, h3 + d, h4 + e))"

function sha1_chunks :: "bytes \<Rightarrow> nat \<Rightarrow> sha1_state \<Rightarrow> sha1_state" where
  "sha1_chunks msg offset h =
     (if offset < length msg then sha1_chunks msg (offset + 64) (sha1_chunk msg offset h) else h)"
  by pat_completeness auto
termination
  by (relation "measure (\<lambda>(msg, offset, _). length msg - offset)") auto

declare sha1_chunks.simps [simp del]

definition sha1_init :: sha1_state where
  "sha1_init = (0x67452301, 0xEFCDAB89, 0x98BADCFE, 0x10325476, 0xC3D2E1F0)"

definition sha1_compute :: "bytes \<Rightarrow> bytes" where
  "sha1_compute input =
     (let (h0, h1, h2, h3, h4) = sha1_chunks (sha1_pad input) 0 sha1_init
      in be32 h0 @ be32 h1 @ be32 h2 @ be32 h3 @ be32 h4)"

subsection \<open>The standard's definition\<close>

text \<open>
  SHA-1 as FIPS 180-4 states it: the message is followed by a one bit, the least number of zero bits
  that leaves room for a 64-bit length, and that length; each 512-bit block is expanded by a recurrence
  and folded into the hash by eighty steps, with \<open>Ch\<close>, \<open>Parity\<close> and \<open>Maj\<close> and rotations.
\<close>

definition fips_pad :: "bytes \<Rightarrow> bytes" where
  "fips_pad m = m @ 0x80 # replicate ((119 - length m mod 64) mod 64) 0 @ be64 (of_nat (8 * length m))"

fun fips_W :: "bytes \<Rightarrow> nat \<Rightarrow> u32" where
  "fips_W blk t =
     (if t < 16 then ld32 (blk ! (4 * t)) (blk ! (4 * t + 1)) (blk ! (4 * t + 2)) (blk ! (4 * t + 3))
      else word_rotl 1 (fips_W blk (t - 3) XOR fips_W blk (t - 8) XOR fips_W blk (t - 14) XOR fips_W blk (t - 16)))"

declare fips_W.simps [simp del]

definition fips_f :: "nat \<Rightarrow> u32 \<Rightarrow> u32 \<Rightarrow> u32 \<Rightarrow> u32" where
  "fips_f t x y z =
     (if t < 20 then (x AND y) XOR (NOT x AND z)
      else if 40 \<le> t \<and> t < 60 then (x AND y) XOR (x AND z) XOR (y AND z)
      else x XOR y XOR z)"

definition fips_K :: "nat \<Rightarrow> u32" where
  "fips_K t = [0x5A827999, 0x6ED9EBA1, 0x8F1BBCDC, 0xCA62C1D6] ! (t div 20)"

primrec fips_steps :: "bytes \<Rightarrow> nat \<Rightarrow> sha1_state \<Rightarrow> sha1_state" where
  "fips_steps blk 0 h = h"
| "fips_steps blk (Suc t) h =
     (let (a, b, c, d, e) = fips_steps blk t h
      in (word_rotl 5 a + fips_f t b c d + e + fips_K t + fips_W blk t, a, word_rotl 30 b, c, d))"

definition fips_block :: "sha1_state \<Rightarrow> bytes \<Rightarrow> sha1_state" where
  "fips_block h blk =
     (let (h0, h1, h2, h3, h4) = h; (a, b, c, d, e) = fips_steps blk 80 h
      in (h0 + a, h1 + b, h2 + c, h3 + d, h4 + e))"

definition fips_blocks :: "bytes \<Rightarrow> bytes list" where
  "fips_blocks m = map (\<lambda>k. take 64 (drop (64 * k) m)) [0..<length m div 64]"

text \<open>The initial hash value of section 5.3.1.\<close>

definition fips_H0 :: sha1_state where
  "fips_H0 = (0x67452301, 0xEFCDAB89, 0x98BADCFE, 0x10325476, 0xC3D2E1F0)"

definition fips_sha1 :: "bytes \<Rightarrow> bytes" where
  "fips_sha1 m =
     (let (h0, h1, h2, h3, h4) = foldl fips_block fips_H0 (fips_blocks (fips_pad m))
      in be32 h0 @ be32 h1 @ be32 h2 @ be32 h3 @ be32 h4)"

subsection \<open>The two agree\<close>

lemma bit_rotl32: "n < 32 \<Longrightarrow> k < 32 \<Longrightarrow> bit (word_rotl n (v :: u32)) k \<longleftrightarrow> bit v ((k + (32 - n)) mod 32)"
  using bit_word_rotl_iff [of n v k] by simp

lemma left_rotate_rotl:
  assumes "0 < n" and "n < 32"
  shows "left_rotate v n = word_rotl n v"
proof (rule bit_word_eqI)
  fix k assume "k < LENGTH(32)"
  then have k: "k < 32" by simp
  have high: "\<not> bit v (32 - n + k)" if "n \<le> k"
    using that k by (auto dest: bit_imp_le_length)
  have "(k + (32 - n)) mod 32 = (if k < n then 32 - n + k else k - n)"
    using assms k by (auto simp: mod_if)
  then show "bit (left_rotate v n) k = bit (word_rotl n v) k"
    using assms k high by (auto simp: bit_rotl32 left_rotate_def bit_or_iff bit_push_bit_iff bit_drop_bit_eq)
qed

lemma pad_zeros_replicate: "pad_zeros msg = msg @ replicate ((120 - length msg mod 64) mod 64) 0"
proof (induction msg rule: pad_zeros.induct)
  case (1 msg)
  show ?case
  proof (cases "length msg mod 64 = 56")
    case True
    then show ?thesis by (simp add: pad_zeros.simps [of msg])
  next
    case False
    then show ?thesis
      using 1 pad_step [of "length msg"] by (simp add: pad_zeros.simps [of msg])
  qed
qed

lemma sha1_pad_fips: "sha1_pad m = fips_pad m"
proof -
  have "(120 - Suc (length m) mod 64) mod 64 = (119 - length m mod 64) mod (64 :: nat)"
    by (cases "length m mod 64 = 63") (auto simp: mod_Suc)
  then show ?thesis by (simp add: sha1_pad_def fips_pad_def pad_zeros_replicate mult.commute)
qed

lemma length_be64 [simp, wire_simps]: "length (be64 v) = 8"
  by (simp add: be64_def)

lemma fips_pad_blocks: "64 dvd length (fips_pad m)"
proof -
  obtain q r where m: "length m = 64 * q + r" and r: "r < 64"
    by (metis div_mult_mod_eq mod_less_divisor mult.commute zero_less_numeral)
  have "length (fips_pad m) = 64 * q + (r + (119 - r) mod 64 + 9)"
    using r by (simp add: fips_pad_def m)
  moreover have "r + (119 - r) mod 64 + 9 = (if r < 56 then 64 else 128)"
    using r by (auto simp: mod_if)
  ultimately show ?thesis by (auto simp: dvd_add_right_iff)
qed

lemma sha1_schedule_prefix:
  assumes "length w0 = 16" and "\<And>t. t < 16 \<Longrightarrow> w0 ! t = fips_W blk t"
  shows "fold (\<lambda>i w. w @ [left_rotate (w ! (i - 3) XOR w ! (i - 8) XOR w ! (i - 14) XOR w ! (i - 16)) 1])
      [16..<16 + n] w0 = map (fips_W blk) [0..<16 + n]"
proof (induction n)
  case 0
  show ?case using assms by (auto intro!: nth_equalityI)
next
  case (Suc n)
  have upt: "[m..<16 + Suc n] = [m..<16 + n] @ [16 + n]" if "m \<le> 16" for m
    using that upt_Suc_append [of m "16 + n"] by simp
  have "fips_W blk (16 + n) = left_rotate (fips_W blk (13 + n) XOR fips_W blk (8 + n) XOR fips_W blk (2 + n) XOR fips_W blk n) 1"
    by (subst fips_W.simps) (simp add: left_rotate_rotl)
  then show ?case unfolding upt [OF order_refl] upt [OF le0] using Suc by simp
qed

lemma sha1_words_nth:
  "t < 16 \<Longrightarrow> sha1_words msg off ! t =
     ld32 (msg ! (off + t * 4)) (msg ! (off + t * 4 + 1)) (msg ! (off + t * 4 + 2)) (msg ! (off + t * 4 + 3))"
  unfolding sha1_words_def by (subst nth_map) simp_all

lemma fips_W_local:
  assumes "off + 64 \<le> length msg"
  shows "sha1_schedule (sha1_words msg off) = map (fips_W (take 64 (drop off msg))) [0..<80]"
proof -
  have w: "sha1_words msg off ! t = fips_W (take 64 (drop off msg)) t" if "t < 16" for t
    using that assms by (simp add: sha1_words_nth fips_W.simps [of _ t] mult.commute add.assoc)
  have len: "length (sha1_words msg off) = 16" by (simp add: sha1_words_def)
  have eighty: "(80 :: nat) = 16 + 64" by simp
  show ?thesis unfolding sha1_schedule_def eighty by (rule sha1_schedule_prefix [OF len w])
qed

lemma choose_or_xor: "((b :: u32) AND c) OR (NOT b AND d) = (b AND c) XOR (NOT b AND d)"
  by (rule bit_word_eqI) (auto simp: bit_simps)

lemma majority_or_xor: "((b :: u32) AND c) OR (b AND d) OR (c AND d) = (b AND c) XOR (b AND d) XOR (c AND d)"
  by (rule bit_word_eqI) (auto simp: bit_simps)

lemma fips_K_cases:
  assumes "t < 80"
  shows "fips_K t =
    (if t < 20 then 0x5A827999 else if t < 40 then 0x6ED9EBA1 else if t < 60 then 0x8F1BBCDC else 0xCA62C1D6)"
proof -
  have "list_all (\<lambda>t. fips_K t =
    (if t < 20 then 0x5A827999 else if t < 40 then 0x6ED9EBA1 else if t < 60 then 0x8F1BBCDC else 0xCA62C1D6)) [0..<80]"
    by code_simp
  then show ?thesis using assms by (simp only: list_all_iff set_upt atLeastLessThan_iff) simp
qed

lemma sha1_rounds_fips:
  assumes "\<And>t. t < 80 \<Longrightarrow> w ! t = fips_W blk t" and "n \<le> 80"
  shows "fold (sha1_round w) [0..<n] h = fips_steps blk n h"
  using assms(2)
proof (induction n)
  case (Suc n)
  then show ?case
    by (cases "fips_steps blk n h")
       (simp add: sha1_round_def fips_f_def fips_K_cases left_rotate_rotl choose_or_xor majority_or_xor assms(1))
qed simp

lemma sha1_chunk_fips:
  assumes "off + 64 \<le> length msg"
  shows "sha1_chunk msg off h = fips_block h (take 64 (drop off msg))"
proof -
  have "fold (sha1_round (sha1_schedule (sha1_words msg off))) [0..<80] h = fips_steps (take 64 (drop off msg)) 80 h"
    unfolding fips_W_local [OF assms] by (rule sha1_rounds_fips) (simp_all del: upt_conv_Cons)
  then show ?thesis by (cases h) (simp only: sha1_chunk_def fips_block_def Let_def prod.case)
qed

lemma sha1_chunks_fips:
  assumes "length msg = 64 * (k + n)"
  shows "sha1_chunks msg (64 * k) h = foldl fips_block h (map (\<lambda>k. take 64 (drop (64 * k) msg)) [k..<k + n])"
  using assms
proof (induction n arbitrary: k h)
  case 0
  then show ?case by (simp add: sha1_chunks.simps)
next
  case (Suc n)
  have "sha1_chunks msg (64 * k) h = sha1_chunks msg (64 * Suc k) (sha1_chunk msg (64 * k) h)"
    using Suc.prems by (simp add: sha1_chunks.simps [of msg "64 * k"] add.commute)
  also have "\<dots> = foldl fips_block (fips_block h (take 64 (drop (64 * k) msg)))
      (map (\<lambda>k. take 64 (drop (64 * k) msg)) [Suc k..<Suc k + n])"
    using Suc.prems by (subst Suc.IH) (simp_all add: sha1_chunk_fips)
  also have "[Suc k..<Suc k + n] = tl [k..<k + Suc n]" by (simp del: upt_Suc)
  finally show ?case by (simp add: upt_conv_Cons del: upt_Suc)
qed

lemma sha1_compute_fips: "sha1_compute m = fips_sha1 m"
proof -
  obtain n where "length (fips_pad m) = 64 * n" using fips_pad_blocks [of m] by blast
  then have "sha1_chunks (fips_pad m) 0 sha1_init = foldl fips_block sha1_init (fips_blocks (fips_pad m))"
    using sha1_chunks_fips [of "fips_pad m" 0 n sha1_init] by (simp add: fips_blocks_def)
  then show ?thesis by (simp add: sha1_compute_def fips_sha1_def sha1_pad_fips sha1_init_def fips_H0_def)
qed

lemma length_sha1_compute [simp, wire_simps]: "length (sha1_compute m) = 20"
  by (simp add: sha1_compute_def split: prod.splits)

section \<open>Base64\<close>

definition base64_table :: bytes where
  "base64_table = str ''ABCDEFGHIJKLMNOPQRSTUVWXYZabcdefghijklmnopqrstuvwxyz0123456789+/''"

function base64_encode :: "bytes \<Rightarrow> bytes" where
  "base64_encode input =
     (if input = [] then []
      else let a = ucast (input ! 0) :: u32;
               b = (if 1 < length input then ucast (input ! 1) else 0);
               c = (if 2 < length input then ucast (input ! 2) else 0);
               triple = push_bit 16 a OR push_bit 8 b OR c
           in [base64_table ! unat (drop_bit 18 triple AND 0x3F),
               base64_table ! unat (drop_bit 12 triple AND 0x3F),
               if 1 < length input then base64_table ! unat (drop_bit 6 triple AND 0x3F) else 0x3D,
               if 2 < length input then base64_table ! unat (triple AND 0x3F) else 0x3D]
              @ base64_encode (drop 3 input))"
  by pat_completeness auto
termination
  by (relation "measure length") auto

declare base64_encode.simps [simp del]

text \<open>The decoding of RFC 4648, with which the encoder is compared.\<close>

definition base64_value :: "byte \<Rightarrow> u32 option" where
  "base64_value c = map_option of_nat (find_sub [c] base64_table)"

definition base64_join :: "u32 \<Rightarrow> u32 \<Rightarrow> u32 \<Rightarrow> u32 \<Rightarrow> u32" where
  "base64_join w x y z = push_bit 18 w OR push_bit 12 x OR push_bit 6 y OR z"

fun base64_decode :: "bytes \<Rightarrow> bytes option" where
  "base64_decode [] = Some []"
| "base64_decode (w # x # y # z # rest) =
     (case (base64_value w, base64_value x, base64_value y, base64_value z) of
        (Some a, Some b, Some c, Some d) \<Rightarrow>
          (let t = base64_join a b c d
           in map_option ((@) [byte_at t 16, byte_at t 8, byte_at t 0]) (base64_decode rest))
      | (Some a, Some b, Some c, None) \<Rightarrow>
          (let t = base64_join a b c 0
           in if z = 0x3D \<and> rest = [] then Some [byte_at t 16, byte_at t 8] else None)
      | (Some a, Some b, None, None) \<Rightarrow>
          (let t = base64_join a b 0 0
           in if y = 0x3D \<and> z = 0x3D \<and> rest = [] then Some [byte_at t 16] else None)
      | _ \<Rightarrow> None)"
| "base64_decode _ = None"

lemma base64_value_table: "unat v < 64 \<Longrightarrow> base64_value (base64_table ! unat v) = Some v" for v :: u32
proof -
  assume v: "unat v < 64"
  have "list_all (\<lambda>n. base64_value (base64_table ! n) = Some (of_nat n)) [0..<64]" by code_simp
  then have "base64_value (base64_table ! unat v) = Some (of_nat (unat v))"
    using v by (simp only: list_all_iff set_upt atLeastLessThan_iff) simp
  then show ?thesis by simp
qed

lemma sextet_less: "unat (w AND 0x3F) < 64" for w :: u32
  using word_and_le1 [of w "0x3F"] by (simp add: word_le_nat_alt)

lemma base64_value_sextet: "base64_value (base64_table ! unat (w AND 0x3F)) = Some (w AND 0x3F)"
  by (rule base64_value_table) (rule sextet_less)

lemma base64_value_pad: "base64_value 0x3D = None"
  by code_simp

lemma word_63_mask: "(0x3F :: 'a::len word) = mask 6"
  by (simp add: mask_eq_exp_minus_1)

lemma base64_join_split:
  assumes "\<And>n. 24 \<le> n \<Longrightarrow> \<not> bit t n"
  shows "base64_join (drop_bit 18 t AND 0x3F) (drop_bit 12 t AND 0x3F) (drop_bit 6 t AND 0x3F) (t AND 0x3F) = t"
proof (rule bit_word_eqI)
  fix n assume "n < LENGTH(32)"
  consider "n < 6" | "6 \<le> n" "n < 12" | "12 \<le> n" "n < 18" | "18 \<le> n" "n < 24" | "24 \<le> n" by linarith
  then show "bit (base64_join (drop_bit 18 t AND 0x3F) (drop_bit 12 t AND 0x3F) (drop_bit 6 t AND 0x3F) (t AND 0x3F)) n = bit t n"
    by cases (auto simp: base64_join_def bit_simps word_63_mask assms)
qed

definition triple_of :: "byte \<Rightarrow> byte \<Rightarrow> byte \<Rightarrow> u32" where
  "triple_of a b c = push_bit 16 (ucast a) OR push_bit 8 (ucast b) OR ucast c"

lemma triple_of_high: "24 \<le> n \<Longrightarrow> \<not> bit (triple_of a b c) n"
  by (auto simp: triple_of_def bit_simps dest: bit_imp_le_length)

lemma triple_of_bytes:
  "byte_at (triple_of a b c) 16 = a" "byte_at (triple_of a b c) 8 = b" "byte_at (triple_of a b c) 0 = c"
  by (rule bit_word_eqI; auto simp: triple_of_def bit_byte_at bit_simps dest: bit_imp_le_length)+

lemma triple_of_pad:
  "triple_of a b 0 AND 0x3F = 0" "drop_bit 6 (triple_of a 0 0) AND 0x3F = 0"
  by (rule bit_word_eqI; auto simp: triple_of_def bit_simps word_63_mask)+

lemma list_three: obtains "s = []" | a where "s = [a]" | a b where "s = [a, b]" | a b c r where "s = a # b # c # r"
  by (metis list.exhaust)

lemma base64_encode_simps:
  "base64_encode [] = []"
  "base64_encode [a] =
     [base64_table ! unat (drop_bit 18 (triple_of a 0 0) AND 0x3F), base64_table ! unat (drop_bit 12 (triple_of a 0 0) AND 0x3F), 0x3D, 0x3D]"
  "base64_encode [a, b] =
     [base64_table ! unat (drop_bit 18 (triple_of a b 0) AND 0x3F), base64_table ! unat (drop_bit 12 (triple_of a b 0) AND 0x3F),
      base64_table ! unat (drop_bit 6 (triple_of a b 0) AND 0x3F), 0x3D]"
  "base64_encode (a # b # c # r) =
     [base64_table ! unat (drop_bit 18 (triple_of a b c) AND 0x3F), base64_table ! unat (drop_bit 12 (triple_of a b c) AND 0x3F),
      base64_table ! unat (drop_bit 6 (triple_of a b c) AND 0x3F), base64_table ! unat (triple_of a b c AND 0x3F)]
     @ base64_encode r"
  by (simp_all add: base64_encode.simps [of "[]"] base64_encode.simps [of "[a]"] base64_encode.simps [of "[a, b]"]
        base64_encode.simps [of "a # b # c # r"] numeral_2_eq_2 Let_def triple_of_def)

lemma base64_decode_encode: "base64_decode (base64_encode s) = Some s"
proof (induction s rule: length_induct)
  case (1 s)
  note join = base64_join_split [OF triple_of_high]
  consider "s = []" | a where "s = [a]" | a b where "s = [a, b]" | a b c r where "s = a # b # c # r"
    using list_three by metis
  then show ?case
  proof cases
    case (2 a)
    then show ?thesis
      using join [of a 0 0] triple_of_pad(1) [of a 0] triple_of_pad(2) [of a] triple_of_bytes [of a 0 0]
      by (simp add: base64_encode_simps base64_value_sextet base64_value_pad)
  next
    case (3 a b)
    then show ?thesis
      using join [of a b 0] triple_of_pad(1) [of a b] triple_of_bytes [of a b 0]
      by (simp add: base64_encode_simps base64_value_sextet base64_value_pad)
  next
    case (4 a b c r)
    moreover from this have "base64_decode (base64_encode r) = Some r" using 1 by simp
    ultimately show ?thesis
      using join [of a b c] triple_of_bytes [of a b c]
      by (simp add: base64_encode_simps base64_value_sextet)
  qed (simp add: base64_encode_simps)
qed

definition base64_char :: "byte \<Rightarrow> bool" where
  "base64_char c \<longleftrightarrow> c \<in> set base64_table"

lemma sextet_char: "base64_char (base64_table ! unat (w AND 0x3F))" for w :: u32
proof -
  have "length base64_table = 64" by (simp add: base64_table_def)
  then show ?thesis unfolding base64_char_def using sextet_less [of w] by simp
qed

text \<open>The shape of an encoding: whole groups of four, alphabet characters, and padding at the end only.\<close>

definition base64_shape :: "bytes \<Rightarrow> nat \<Rightarrow> bool" where
  "base64_shape t pad \<longleftrightarrow> length t mod 4 = 0 \<and>
     (\<exists>u. t = u @ replicate pad 0x3D \<and> list_all base64_char u)"

lemma base64_encode_shape:
  "length (base64_encode s) = 4 * ((length s + 2) div 3) \<and> base64_shape (base64_encode s) ((3 - length s mod 3) mod 3)"
proof (induction s rule: length_induct)
  case (1 s)
  consider "s = []" | a where "s = [a]" | a b where "s = [a, b]" | a b c r where "s = a # b # c # r"
    using list_three by metis
  then show ?case
  proof cases
    case (4 a b c r)
    moreover have IH: "length (base64_encode r) = 4 * ((length r + 2) div 3)"
      "base64_shape (base64_encode r) ((3 - length r mod 3) mod 3)" using 1 4 by simp_all
    moreover obtain u where "base64_encode r = u @ replicate ((3 - length r mod 3) mod 3) 0x3D" "list_all base64_char u"
      using IH(2) unfolding base64_shape_def by blast
    moreover have s: "length s = 3 + length r" using 4 by simp
    moreover have "length s mod 3 = length r mod 3" unfolding s by simp
    moreover have "(length s + 2) div 3 = Suc ((length r + 2) div 3)" unfolding s by simp
    moreover have "\<exists>u. base64_encode s = u @ replicate ((3 - length r mod 3) mod 3) 0x3D \<and> list_all base64_char u"
      using calculation sextet_char by (intro exI [of _ "take 4 (base64_encode s) @ u"]) (simp add: base64_encode_simps)
    moreover have "length (base64_encode s) = 4 + length (base64_encode r)" using 4 by (simp add: base64_encode_simps)
    ultimately show ?thesis unfolding base64_shape_def by (simp only: mult_Suc_right mod_mult_self1_is_0) simp
  qed (simp_all add: base64_encode_simps base64_shape_def sextet_char numeral_2_eq_2 list_all_iff)
qed

section \<open>The opening handshake\<close>

definition kWsGuid :: bytes where
  "kWsGuid = str ''258EAFA5-E914-47DA-95CA-C5AB0DC85B11''"

definition compute_accept_key :: "bytes \<Rightarrow> bytes" where
  "compute_accept_key key = base64_encode (sha1_compute (key @ kWsGuid))"

definition is_websocket_upgrade :: "request \<Rightarrow> bool" where
  "is_websocket_upgrade req =
     (if rq_method req \<noteq> GET then False
      else case hdrs_get (str ''Upgrade'') (rq_hdrs req) of
             None \<Rightarrow> False
           | Some upgrade \<Rightarrow>
               if to_lower upgrade \<noteq> str ''websocket'' then False
               else case hdrs_get (str ''Connection'') (rq_hdrs req) of
                      None \<Rightarrow> False
                    | Some connection \<Rightarrow>
                        if find_sub (str ''upgrade'') (to_lower connection) = None then False
                        else hdrs_contains (str ''Sec-WebSocket-Key'') (rq_hdrs req))"

definition build_handshake_response :: "request \<Rightarrow> bytes" where
  "build_handshake_response req =
     (case hdrs_get (str ''Sec-WebSocket-Key'') (rq_hdrs req) of
        None \<Rightarrow> []
      | Some key \<Rightarrow>
          str ''HTTP/1.1 101 Switching Protocols'' @ crlf @
          str ''Upgrade: websocket'' @ crlf @
          str ''Connection: Upgrade'' @ crlf @
          str ''Sec-WebSocket-Accept: '' @ compute_accept_key key @ crlf @ crlf)"

lemma accept_key_shape: "length (compute_accept_key key) = 28 \<and> base64_shape (compute_accept_key key) 1"
  using base64_encode_shape [of "sha1_compute (key @ kWsGuid)"] by (simp add: compute_accept_key_def)

lemma base64_char_plain: "base64_char c \<Longrightarrow> c \<noteq> 10 \<and> c \<noteq> 13 \<and> \<not> is_blank c"
  unfolding base64_char_def by (auto simp: base64_table_def is_blank_def)

lemma accept_key_plain:
  assumes "c \<in> set (compute_accept_key key)"
  shows "c \<noteq> 10" "c \<noteq> 13" "\<not> is_blank c"
proof -
  obtain u where "compute_accept_key key = u @ replicate 1 0x3D" "list_all base64_char u"
    using accept_key_shape [of key] unfolding base64_shape_def by blast
  then have "base64_char c \<or> c = 0x3D" using assms by (auto simp: list_all_iff)
  then show "c \<noteq> 10" "c \<noteq> 13" "\<not> is_blank c" using base64_char_plain [of c] by (auto simp: is_blank_def)
qed

lemma accept_header_ok: "header_ok (str ''Sec-WebSocket-Accept'', compute_accept_key key)"
proof -
  have "compute_accept_key key \<noteq> []" using accept_key_shape [of key] by auto
  then show ?thesis using accept_key_plain [of _ key] by (auto simp: header_ok_def is_blank_def)
qed

lemma parse_interim_response:
  assumes "parse_status_line line = Inr (response_default\<lparr>rs_status := code\<rparr>)" and "13 \<notin> set line"
    and "list_all header_ok hs" and "content_length hs = None" and "\<not> is_chunked hs" and "100 \<le> code" and "code < 200"
  shows "parse_response (head_bytes line hs @ b) =
    Some (Inr (Some (response_default\<lparr>rs_status := code, rs_hdrs := hs\<rparr>, length (head_bytes line hs))))"
proof -
  note found = head_found [OF assms(2,3), where body = b]
  have "take (length line) (head_bytes line hs @ b) = line" by (simp add: head_bytes_def)
  moreover have "parse_header_lines (header_block (head_bytes line hs @ b) (length line) (length (head_bytes line hs))) [] = hs"
    using found(3) parse_serialized_headers [OF assms(3)] by simp
  ultimately show ?thesis
    using found(1,2) assms by (simp add: parse_response_def Let_def response_default_def)
qed

section \<open>Properties\<close>

text \<open>
  C19: The digest the handshake computes is SHA-1 as FIPS 180-4 defines it, for every message: the
  padding loop, the in-place message schedule, the round function written with \<^verbatim>\<open>|\<close> and the shift
  rotations compute the same bytes as the standard's recurrences with \<open>Ch\<close>, \<open>Maj\<close> and rotations.
\<close>

theorem sha1_compute_is_fips: "sha1_compute m = fips_sha1 m"
  by (rule sha1_compute_fips)

text \<open>
  The Base64 encoder loses nothing: the RFC 4648 decoder gives back every input, empty and of any
  length modulo three.
\<close>

theorem base64_round_trip: "base64_decode (base64_encode s) = Some s"
  by (rule base64_decode_encode)

text \<open>
  C40: Whatever the client sent as its key, the value of \<^verbatim>\<open>Sec-WebSocket-Accept\<close> is 28 characters: 27
  of the Base64 alphabet and one padding character.  It can never break the header line it is put in.
\<close>

theorem accept_key_typed:
  "length (compute_accept_key key) = 28 \<and>
   (\<exists>u. compute_accept_key key = u @ [0x3D] \<and> list_all base64_char u)"
  using accept_key_shape [of key] by (simp add: base64_shape_def)

text \<open>
  The handshake answer to an upgrade request is a complete HTTP/1.1 response for the library's own
  parser: status 101, the three headers with the accept key computed from the request's key, no body,
  and nothing of the WebSocket bytes behind it consumed.
\<close>

theorem handshake_response_parses:
  assumes "is_websocket_upgrade req"
  shows "\<exists>key. hdrs_get (str ''Sec-WebSocket-Key'') (rq_hdrs req) = Some key \<and>
    parse_response (build_handshake_response req @ rest) =
      Some (Inr (Some (response_default\<lparr>rs_status := 101,
        rs_hdrs := [(str ''Upgrade'', str ''websocket''), (str ''Connection'', str ''Upgrade''),
                    (str ''Sec-WebSocket-Accept'', compute_accept_key key)]\<rparr>,
        length (build_handshake_response req))))"
proof -
  obtain key where key: "hdrs_get (str ''Sec-WebSocket-Key'') (rq_hdrs req) = Some key"
    using assms unfolding is_websocket_upgrade_def hdrs_contains_def by (auto split: if_splits option.splits simp del: str_simps)
  let ?hs = "[(str ''Upgrade'', str ''websocket''), (str ''Connection'', str ''Upgrade''),
              (str ''Sec-WebSocket-Accept'', compute_accept_key key)]"
  let ?line = "str ''HTTP/1.1 101 Switching Protocols''"
  have resp: "build_handshake_response req = head_bytes ?line ?hs"
    unfolding build_handshake_response_def key by (simp add: head_bytes_def hdrs_serialize_def)
  have line: "13 \<notin> set ?line" by simp
  have hs: "list_all header_ok ?hs"
    using accept_header_ok [of key] by (simp add: header_ok_def is_blank_def)
  have st: "parse_status_line ?line = Inr (response_default\<lparr>rs_status := 101\<rparr>)" by code_simp
  have "content_length ?hs = None" "\<not> is_chunked ?hs"
    by (simp_all add: content_length_def is_chunked_def to_lower_def tolower_def)
  from parse_interim_response [OF st line hs this, of rest]
  have "parse_response (head_bytes ?line ?hs @ rest) =
      Some (Inr (Some (response_default\<lparr>rs_status := 101, rs_hdrs := ?hs\<rparr>, length (head_bytes ?line ?hs))))" by simp
  then show ?thesis using key resp by (simp del: str_simps)
qed

definition upgrade_example :: request where
  "upgrade_example = request_default\<lparr>rq_hdrs :=
     [(str ''Upgrade'', str ''WebSocket''), (str ''Connection'', str ''keep-alive, Upgrade''),
      (str ''Sec-WebSocket-Key'', str ''dGhlIHNhbXBsZSBub25jZQ=='')]\<rparr>"

theorem handshake_response_parses_witness:
  "\<exists>key. hdrs_get (str ''Sec-WebSocket-Key'') (rq_hdrs upgrade_example) = Some key \<and>
    parse_response (build_handshake_response upgrade_example @ [0x81, 0x00]) =
      Some (Inr (Some (response_default\<lparr>rs_status := 101,
        rs_hdrs := [(str ''Upgrade'', str ''websocket''), (str ''Connection'', str ''Upgrade''),
                    (str ''Sec-WebSocket-Accept'', compute_accept_key key)]\<rparr>,
        length (build_handshake_response upgrade_example))))"
  by (rule handshake_response_parses) code_simp

end
