(* ===== verification/WebSocket.thy ===== *)
theory WebSocket
  imports Ws_Handshake
begin

text \<open>
  WebSocket frames and connections, \<^verbatim>\<open>include/async_net/http/websocket.hpp\<close>: the frame encoder and
  parser, and \<^verbatim>\<open>websocket_connection\<close> with its read buffer, its receive loop and its senders.  The
  socket is an explicit environment that decides how reads are cut and how much a write accepts.

  The length field of a frame is 64 bits wide and comes from the peer; the sum that finds the end of
  the frame is kept at its width.  \<open>receive_frames\<close> states the contract of a receiver on frames, and
  the connection is shown to keep it on bytes.
\<close>

section \<open>Frames\<close>

text \<open>
  The enumeration has a fixed underlying type, so the cast of an undefined code is an ordinary value
  that none of the named cases matches.
\<close>

datatype opcode = Op_Continuation | Op_Text | Op_Binary | Op_Close | Op_Ping | Op_Pong | Op_Other byte

definition opcode_byte :: "opcode \<Rightarrow> byte" where
  "opcode_byte op = (case op of Op_Continuation \<Rightarrow> 0x0 | Op_Text \<Rightarrow> 0x1 | Op_Binary \<Rightarrow> 0x2
     | Op_Close \<Rightarrow> 0x8 | Op_Ping \<Rightarrow> 0x9 | Op_Pong \<Rightarrow> 0xA | Op_Other b \<Rightarrow> b)"

definition opcode_of :: "byte \<Rightarrow> opcode" where
  "opcode_of b = (if b = 0x0 then Op_Continuation else if b = 0x1 then Op_Text else if b = 0x2 then Op_Binary
     else if b = 0x8 then Op_Close else if b = 0x9 then Op_Ping else if b = 0xA then Op_Pong else Op_Other b)"

record ws_frame =
  wf_fin :: bool
  wf_op :: opcode
  wf_masked :: bool
  wf_payload :: bytes

definition encode_ws_frame :: "opcode \<Rightarrow> bytes \<Rightarrow> bool \<Rightarrow> bytes" where
  "encode_ws_frame op payload fin =
     (let n = length payload; len = of_nat n :: u64; byte0 = opcode_byte op
      in (if fin then byte0 OR 0x80 else byte0) #
         (if n \<le> 125 then [of_nat n]
          else if n \<le> 65535 then [126, byte_at len 8, byte_at len 0]
          else 127 # be64 len) @ payload)"

section \<open>Parsing\<close>

text \<open>Reads of the received bytes; one outside the buffer is undefined.\<close>

definition rd_at :: "bytes \<Rightarrow> nat \<Rightarrow> nat \<Rightarrow> bytes res" where
  "rd_at data pos n = (if pos + n \<le> length data then Inr (take n (drop pos data)) else Inl Undefined_Behaviour)"

definition ld_be :: "bytes \<Rightarrow> u64" where
  "ld_be bs = foldl (\<lambda>acc b. push_bit 8 acc OR ucast b) 0 bs"

definition parse_length :: "bytes \<Rightarrow> byte \<Rightarrow> (u64 \<times> nat) option res" where
  "parse_length data byte1 =
     (let payload_len = ucast (byte1 AND 0x7F)
      in if payload_len = 126
         then (if length data < 4 then Inr None
               else bindE (rd_at data 2 2) (\<lambda>bs. Inr (Some (ld_be bs, 4))))
         else if payload_len = 127
         then (if length data < 10 then Inr None
               else bindE (rd_at data 2 8) (\<lambda>bs. Inr (Some (ld_be bs, 10))))
         else Inr (Some (payload_len, 2)))"

definition parse_mask :: "bytes \<Rightarrow> bool \<Rightarrow> nat \<Rightarrow> (bytes \<times> nat) option res" where
  "parse_mask data masked pos =
     (if masked
      then (if length data < pos + 4 then Inr None
            else bindE (rd_at data pos 4) (\<lambda>key. Inr (Some (key, pos + 4))))
      else Inr (Some ([0, 0, 0, 0], pos)))"

text \<open>\<^verbatim>\<open>std::string(p, n)\<close> throws when \<open>n\<close> is larger than any string can be.\<close>

definition string_from :: "bytes \<Rightarrow> nat \<Rightarrow> u64 \<Rightarrow> bytes res" where
  "string_from data pos n = (if 2 ^ 63 \<le> unat n then Inl Length_Error else rd_at data pos (unat n))"

definition unmask :: "bytes \<Rightarrow> bytes \<Rightarrow> bytes" where
  "unmask key payload = map (\<lambda>i. payload ! i XOR key ! (i mod 4)) [0..<length payload]"

definition parse_frame :: "bytes \<Rightarrow> (ws_frame \<times> nat) option res" where
  "parse_frame data =
     (if length data < 2 then Inr None
      else bindE (rd_at data 0 2) (\<lambda>bs.
        let byte0 = bs ! 0; byte1 = bs ! 1;
            fin = (byte0 AND 0x80 \<noteq> 0); op = opcode_of (byte0 AND 0x0F); masked = (byte1 AND 0x80 \<noteq> 0)
        in bindE (parse_length data byte1) (\<lambda>lp. case lp of None \<Rightarrow> Inr None | Some (payload_len, pos) \<Rightarrow>
           bindE (parse_mask data masked pos) (\<lambda>mk. case mk of None \<Rightarrow> Inr None | Some (mask_key, pos) \<Rightarrow>
             if length data < unat (of_nat pos + payload_len) then Inr None
             else bindE (string_from data pos payload_len) (\<lambda>payload.
               Inr (Some (\<lparr>wf_fin = fin, wf_op = op, wf_masked = masked,
                           wf_payload = (if masked then unmask mask_key payload else payload)\<rparr>,
                          unat (of_nat pos + payload_len))))))))"

section \<open>The shape of a frame on the wire\<close>

text \<open>
  Both directions: a frame as RFC 6455 lays it out, with the masking key of a client or without one.
\<close>

definition length7 :: "nat \<Rightarrow> byte" where
  "length7 n = (if n \<le> 125 then of_nat n else if n \<le> 65535 then 126 else 127)"

definition length_ext :: "nat \<Rightarrow> bytes" where
  "length_ext n = (if n \<le> 125 then [] else if n \<le> 65535 then [byte_at (of_nat n :: u64) 8, byte_at (of_nat n :: u64) 0]
     else be64 (of_nat n))"

definition wire_payload :: "bytes option \<Rightarrow> bytes \<Rightarrow> bytes" where
  "wire_payload k payload = (case k of None \<Rightarrow> payload | Some key \<Rightarrow> key @ unmask key payload)"

definition ws_wire :: "bytes option \<Rightarrow> ws_frame \<Rightarrow> bytes" where
  "ws_wire k f =
     [opcode_byte (wf_op f) OR (if wf_fin f then 0x80 else 0),
      length7 (length (wf_payload f)) OR (if k = None then 0 else 0x80)]
     @ length_ext (length (wf_payload f)) @ wire_payload k (wf_payload f)"

definition ws_ok :: "bytes option \<Rightarrow> ws_frame \<Rightarrow> bool" where
  "ws_ok k f \<longleftrightarrow> opcode_of (opcode_byte (wf_op f)) = wf_op f \<and> opcode_byte (wf_op f) < 16 \<and>
     length (wf_payload f) < 2 ^ 63 \<and> wf_masked f = (k \<noteq> None) \<and> (\<forall>key. k = Some key \<longrightarrow> length key = 4)"

lemma encode_frame_wire:
  "encode_ws_frame op payload fin = ws_wire None \<lparr>wf_fin = fin, wf_op = op, wf_masked = False, wf_payload = payload\<rparr>"
  by (simp add: encode_ws_frame_def ws_wire_def length7_def length_ext_def wire_payload_def Let_def)

lemma length_unmask [simp, wire_simps]: "length (unmask key payload) = length payload"
  by (simp add: unmask_def)

lemma unmask_unmask [simp]: "unmask key (unmask key payload) = payload"
  by (rule nth_equalityI) (simp_all add: unmask_def xor.assoc)

lemma opcode_bits:
  assumes "opcode_byte op < 16"
  shows "(opcode_byte op OR (if fin then 0x80 else 0)) AND 0x0F = opcode_byte op"
    "(opcode_byte op OR (if fin then 0x80 else 0)) AND 0x80 \<noteq> 0 \<longleftrightarrow> fin"
proof -
  have n: "unat (opcode_byte op) < 16" using assms by (simp add: word_less_nat_alt)
  have "list_all (\<lambda>fin. list_all (\<lambda>n. (of_nat n OR (if fin then 0x80 else 0)) AND 0x0F = (of_nat n :: byte) \<and>
      ((of_nat n OR (if fin then 0x80 else 0)) AND 0x80 \<noteq> (0 :: byte) \<longleftrightarrow> fin)) [0..<16]) [True, False]"
    by code_simp
  then have "list_all (\<lambda>n. (of_nat n OR (if fin then 0x80 else 0)) AND 0x0F = (of_nat n :: byte) \<and>
      ((of_nat n OR (if fin then 0x80 else 0)) AND 0x80 \<noteq> (0 :: byte) \<longleftrightarrow> fin)) [0..<16]"
    by (cases fin) (simp_all only: list.pred_inject if_True if_False)
  from this [unfolded list_all_iff, rule_format, of "unat (opcode_byte op)"]
  show "(opcode_byte op OR (if fin then 0x80 else 0)) AND 0x0F = opcode_byte op"
    "(opcode_byte op OR (if fin then 0x80 else 0)) AND 0x80 \<noteq> 0 \<longleftrightarrow> fin"
    using n by simp_all
qed

lemma byte_high_bit: "bit (0x80 :: byte) n \<longleftrightarrow> n = 7"
proof -
  have "(0x80 :: byte) = push_bit 7 1" by simp
  then show ?thesis by (simp only: bit_push_bit_iff bit_1_iff) auto
qed

lemma byte_low_bits: "bit (0x7F :: byte) n \<longleftrightarrow> n < 7"
proof -
  have "(0x7F :: byte) = mask 7" by (simp add: mask_eq_exp_minus_1)
  then show ?thesis by (simp only: bit_mask_iff) auto
qed

lemma length7_bits:
  "(length7 n OR (if c then 0 else 0x80)) AND 0x7F = length7 n"
  "(length7 n OR (if c then 0 else 0x80)) AND 0x80 \<noteq> 0 \<longleftrightarrow> \<not> c"
proof -
  have "unat (length7 n) < 2 ^ 7" by (simp add: length7_def unat_of_nat)
  note high = not_bit_of_unat_less [OF this]
  have low: "i < 7" if "bit (length7 n) i" for i using high [of i] that by (meson leI)
  have flag: "bit (if c then 0 else 0x80 :: byte) i \<longleftrightarrow> \<not> c \<and> i = 7" for i
    by (cases c) (simp_all only: if_True if_False byte_high_bit bit_0_eq bot_apply bot_bool_def simp_thms)
  show "(length7 n OR (if c then 0 else 0x80)) AND 0x7F = length7 n"
    by (rule bit_word_eqI) (use low in \<open>auto simp only: bit_and_iff bit_or_iff flag byte_low_bits\<close>)
  have "bit ((length7 n OR (if c then 0 else 0x80)) AND 0x80) i \<longleftrightarrow> \<not> c \<and> i = 7" for i
    using low [of i] by (auto simp only: bit_and_iff bit_or_iff flag byte_high_bit)
  then show "(length7 n OR (if c then 0 else 0x80)) AND 0x80 \<noteq> 0 \<longleftrightarrow> \<not> c"
    by (metis bit_0_eq bot_apply bot_bool_def bit_eqI)
qed

lemma ld_be_bytes:
  "foldl (\<lambda>acc b. push_bit 8 acc OR ucast b) acc (map (\<lambda>i. byte_at v (8 * i)) (rev [0..<k])) =
     push_bit (8 * k) acc OR take_bit (8 * k) (v :: u64)"
proof (induction k arbitrary: acc)
  case (Suc k)
  have "push_bit (8 * k) (push_bit 8 acc OR ucast (byte_at v (8 * k))) OR take_bit (8 * k) v =
      push_bit (8 * Suc k) acc OR take_bit (8 * Suc k) v"
    by (rule bit_word_eqI)
       (auto simp: bit_or_iff bit_push_bit_iff bit_unsigned_iff bit_byte_at bit_take_bit_iff add.commute dest: bit_imp_le_length)
  then show ?case using Suc by simp
qed simp

lemma ld_be_be64: "ld_be (be64 v) = v"
proof -
  have "[7, 6, 5, 4, 3, 2, 1, 0] = rev [0..<8]" by (simp add: upt_rec)
  then have "ld_be (be64 v) = push_bit (8 * 8) 0 OR take_bit (8 * 8) v"
    unfolding ld_be_def be64_def by (simp only: ld_be_bytes)
  then show ?thesis by (simp add: take_bit_word_eq_self)
qed

lemma ld_be_two:
  assumes "n \<le> 65535"
  shows "ld_be [byte_at (of_nat n :: u64) 8, byte_at (of_nat n :: u64) 0] = of_nat n"
proof -
  have "unat (of_nat n :: u64) < 2 ^ 16" using assms by (simp add: unat_of_nat)
  note high = not_bit_of_unat_less [OF this]
  show ?thesis
  proof (rule bit_word_eqI)
    fix i assume "i < LENGTH(64)"
    consider "i < 8" | "8 \<le> i" "i < 16" | "16 \<le> i" by fastforce
    then show "bit (ld_be [byte_at (of_nat n :: u64) 8, byte_at (of_nat n :: u64) 0]) i = bit (of_nat n :: u64) i"
      by cases (auto simp: ld_be_def bit_or_iff bit_push_bit_iff bit_unsigned_iff bit_byte_at high)
  qed
qed

section \<open>What the parser does, in closed form\<close>

fun second :: "bytes \<Rightarrow> byte" where
  "second (b0 # b1 # r) = b1"
| "second _ = 0"

definition ext_size :: "byte \<Rightarrow> nat" where
  "ext_size byte1 = (if byte1 AND 0x7F = 126 then 2 else if byte1 AND 0x7F = 127 then 8 else 0)"

definition head_size :: "bytes \<Rightarrow> nat" where
  "head_size data = 2 + ext_size (second data) + (if second data AND 0x80 \<noteq> 0 then 4 else 0)"

definition told_length :: "bytes \<Rightarrow> u64" where
  "told_length data = (if ext_size (second data) = 0 then ucast (second data AND 0x7F)
     else ld_be (take (ext_size (second data)) (drop 2 data)))"

definition head_complete :: "bytes \<Rightarrow> bool" where
  "head_complete data \<longleftrightarrow> 2 \<le> length data \<and> head_size data \<le> length data"

definition parsed_frame :: "bytes \<Rightarrow> ws_frame" where
  "parsed_frame data =
     (let masked = (second data AND 0x80 \<noteq> 0);
          payload = take (unat (told_length data)) (drop (head_size data) data)
      in \<lparr>wf_fin = (hd data AND 0x80 \<noteq> 0), wf_op = opcode_of (hd data AND 0x0F), wf_masked = masked,
          wf_payload = (if masked then unmask (take 4 (drop (head_size data - 4) data)) payload else payload)\<rparr>)"

lemma unat_ucast_byte: "unat (ucast b :: u64) = unat b" for b :: byte
proof -
  have "unat b < 2 ^ 64" using unsigned_less [of b, where ?'a = nat] by simp
  then show ?thesis by (simp add: unsigned_ucast_eq take_bit_nat_eq_self_iff)
qed

lemma ucast_low_bits:
  "ucast b = (126 :: u64) \<longleftrightarrow> b = 126" "ucast b = (127 :: u64) \<longleftrightarrow> b = 127" for b :: byte
  by (simp_all add: word_unat_eq_iff unat_ucast_byte)

lemma parse_length_eq:
  assumes "data = b0 # b1 # r"
  shows "parse_length data b1 = Inr (if length data < 2 + ext_size b1 then None
      else Some (told_length data, 2 + ext_size b1))"
  using assms by (auto simp: parse_length_def ext_size_def told_length_def rd_at_def Let_def ucast_low_bits)

lemma parse_mask_eq:
  assumes "pos \<le> length data"
  shows "parse_mask data masked pos = Inr (if length data < pos + (if masked then 4 else 0) then None
      else Some (if masked then take 4 (drop pos data) else [0, 0, 0, 0], pos + (if masked then 4 else 0)))"
  using assms by (auto simp: parse_mask_def rd_at_def)

lemma parse_frame_eq:
  "parse_frame data =
     (if \<not> head_complete data \<or> length data < unat (of_nat (head_size data) + told_length data) then Inr None
      else if 2 ^ 63 \<le> unat (told_length data) then Inl Length_Error
      else if length data < head_size data + unat (told_length data) then Inl Undefined_Behaviour
      else Inr (Some (parsed_frame data, unat (of_nat (head_size data) + told_length data))))"
proof (cases "length data < 2")
  case True
  then show ?thesis by (simp add: parse_frame_def head_complete_def)
next
  case False
  then obtain b0 b1 r where data: "data = b0 # b1 # r" by (cases data; cases "tl data") auto
  define masked where "masked \<longleftrightarrow> b1 AND 0x80 \<noteq> 0"
  have bs: "rd_at data 0 2 = Inr [b0, b1]" by (simp add: rd_at_def data)
  define p where "p = 2 + ext_size b1"
  note len = parse_length_eq [OF data, folded p_def]
  have hs: "head_size data = p + (if masked then 4 else 0)"
    by (simp add: head_size_def masked_def data p_def)
  have step: "parse_frame data = bindE (parse_length data b1) (\<lambda>lp. case lp of None \<Rightarrow> Inr None | Some (payload_len, pos) \<Rightarrow>
           bindE (parse_mask data masked pos) (\<lambda>mk. case mk of None \<Rightarrow> Inr None | Some (mask_key, pos) \<Rightarrow>
             if length data < unat (of_nat pos + payload_len) then Inr None
             else bindE (string_from data pos payload_len) (\<lambda>payload.
               Inr (Some (\<lparr>wf_fin = (b0 AND 0x80 \<noteq> 0), wf_op = opcode_of (b0 AND 0x0F), wf_masked = masked,
                           wf_payload = (if masked then unmask mask_key payload else payload)\<rparr>,
                          unat (of_nat pos + payload_len))))))"
    using False by (simp only: parse_frame_def bs bindE_simps Let_def masked_def nth_Cons_0 One_nat_def nth_Cons_Suc if_False)
  show ?thesis
  proof (cases "p \<le> length data")
    case short: False
    then show ?thesis by (simp add: step len head_complete_def hs)
  next
    case fits: True
    note mask = parse_mask_eq [OF fits, of masked]
    show ?thesis
    proof (cases "head_size data \<le> length data")
      case False
      then show ?thesis using fits by (simp add: step len mask hs head_complete_def)
    next
      case True
      then have mask': "parse_mask data masked p =
          Inr (Some (if masked then take 4 (drop (head_size data - 4) data) else [0, 0, 0, 0], head_size data))"
        unfolding mask by (simp add: hs)
      have frame: "parsed_frame data = \<lparr>wf_fin = (b0 AND 0x80 \<noteq> 0), wf_op = opcode_of (b0 AND 0x0F), wf_masked = masked,
          wf_payload = (let payload = take (unat (told_length data)) (drop (head_size data) data)
             in if masked then unmask (take 4 (drop (head_size data - 4) data)) payload else payload)\<rparr>"
        by (simp add: parsed_frame_def masked_def data Let_def)
      have "head_complete data" using True \<open>\<not> length data < 2\<close> by (simp add: head_complete_def)
      then show ?thesis
        using fits True by (simp add: step len mask' frame string_from_def rd_at_def Let_def)
    qed
  qed
qed

lemma head_size_bounds: "2 \<le> head_size data" "head_size data \<le> 14"
  by (auto simp: head_size_def ext_size_def)

text \<open>The sum of position and length wraps exactly for the last lengths a 64-bit field can tell.\<close>

lemma told_sum:
  "unat (of_nat (head_size data) + told_length data) =
     (if 2 ^ 64 \<le> head_size data + unat (told_length data) then head_size data + unat (told_length data) - 2 ^ 64
      else head_size data + unat (told_length data))"
proof -
  have "unat (of_nat (head_size data) :: u64) = head_size data"
    using head_size_bounds [of data] by (simp add: unat_of_nat)
  then show ?thesis by (subst unat_plus_if') auto
qed

lemma parse_frame_cases:
  assumes "length data < 2 ^ 63"
  shows "parse_frame data =
     (if \<not> head_complete data then Inr None
      else if 2 ^ 64 \<le> head_size data + unat (told_length data) then Inl Length_Error
      else if length data < head_size data + unat (told_length data) then Inr None
      else Inr (Some (parsed_frame data, head_size data + unat (told_length data))))"
proof -
  have "unat (told_length data) < 2 ^ 64" using unsigned_less [of "told_length data", where ?'a = nat] by simp
  moreover have "head_size data + unat (told_length data) - 2 ^ 64 < head_size data"
    if "2 ^ 64 \<le> head_size data + unat (told_length data)" using calculation that by linarith
  ultimately show ?thesis
    using assms head_size_bounds [of data] unfolding parse_frame_eq told_sum head_complete_def
    by (auto; linarith)
qed

section \<open>Encoding and parsing\<close>

lemma length_ext_size: "ext_size (length7 n OR (if c then 0 else 0x80)) = length (length_ext n)"
proof -
  have "(of_nat n :: byte) \<noteq> 126" "(of_nat n :: byte) \<noteq> 127" if "n \<le> 125"
    using that by (auto simp: word_unat_eq_iff unat_of_nat)
  then show ?thesis
    unfolding ext_size_def length7_bits(1) by (simp add: length7_def length_ext_def)
qed

lemma told_length_wire:
  assumes "data = b # (length7 n OR (if c then 0 else 0x80)) # length_ext n @ rest" and "n < 2 ^ 63"
  shows "told_length data = of_nat n"
proof -
  consider "n \<le> 125" | "125 < n" "n \<le> 65535" | "65535 < n" by linarith
  then show ?thesis
  proof cases
    case 1
    then show ?thesis using assms(1) length_ext_size [of n c] length7_bits(1) [of n c]
      by (simp add: told_length_def length_ext_def length7_def) (simp add: word_unat_eq_iff unat_of_nat unat_ucast_byte)
  next
    case 2
    then show ?thesis using assms(1) length_ext_size [of n c] ld_be_two [of n] by (simp add: told_length_def length_ext_def)
  next
    case 3
    then show ?thesis using assms(1) length_ext_size [of n c] ld_be_be64 by (simp add: told_length_def length_ext_def)
  qed
qed

lemma length_wire_payload: "ws_ok k f \<Longrightarrow> length (wire_payload k (wf_payload f)) =
    (if k = None then 0 else 4) + length (wf_payload f)"
  by (auto simp: wire_payload_def ws_ok_def split: option.splits)

lemma wire_head:
  assumes "ws_ok k f"
  shows "head_size (ws_wire k f @ rest) + length (wf_payload f) = length (ws_wire k f)"
    and "told_length (ws_wire k f @ rest) = of_nat (length (wf_payload f))"
    and "parsed_frame (ws_wire k f @ rest) = f"
proof -
  let ?n = "length (wf_payload f)"
  define b1 where "b1 = length7 ?n OR (if k = None then 0 else 0x80)"
  have second: "second (ws_wire k f @ rest) = b1" by (simp add: ws_wire_def b1_def)
  have flag: "b1 AND 0x80 \<noteq> 0 \<longleftrightarrow> k \<noteq> None" unfolding b1_def by (rule length7_bits)
  have n: "?n < 2 ^ 63" using assms by (simp add: ws_ok_def)
  have hs: "head_size (ws_wire k f @ rest) = 2 + length (length_ext ?n) + (if k = None then 0 else 4)"
    using flag length_ext_size [of ?n "k = None"] unfolding head_size_def second b1_def [symmetric] by simp
  then show "head_size (ws_wire k f @ rest) + ?n = length (ws_wire k f)"
    using length_wire_payload [OF assms] by (simp add: ws_wire_def)
  show told: "told_length (ws_wire k f @ rest) = of_nat ?n"
    using n by (intro told_length_wire) (simp_all add: ws_wire_def)
  have un: "unat (of_nat ?n :: u64) = ?n" using n by (simp add: unat_of_nat)
  have first: "hd (ws_wire k f @ rest) = opcode_byte (wf_op f) OR (if wf_fin f then 0x80 else 0)"
    by (simp add: ws_wire_def)
  have op: "opcode_byte (wf_op f) < 16" "opcode_of (opcode_byte (wf_op f)) = wf_op f" "wf_masked f = (k \<noteq> None)"
    using assms by (auto simp: ws_ok_def)
  show "parsed_frame (ws_wire k f @ rest) = f"
  proof (cases k)
    case None
    then have "take ?n (drop (head_size (ws_wire k f @ rest)) (ws_wire k f @ rest)) = wf_payload f"
      unfolding hs by (simp add: ws_wire_def wire_payload_def)
    then show ?thesis
      unfolding parsed_frame_def first second told un Let_def using op None flag by (intro ws_frame.equality) (simp_all add: opcode_bits)
  next
    case (Some key)
    then have len: "length key = 4" using assms by (simp add: ws_ok_def)
    define p where "p = 2 + length (length_ext ?n)"
    have p: "head_size (ws_wire k f @ rest) = 4 + p" using hs Some by (simp add: p_def)
    have body: "drop p (ws_wire k f @ rest) = key @ unmask key (wf_payload f) @ rest"
      unfolding p_def by (simp add: ws_wire_def wire_payload_def Some)
    then have "take 4 (drop (head_size (ws_wire k f @ rest) - 4) (ws_wire k f @ rest)) = key"
      unfolding p using len by simp
    moreover have "take ?n (drop (head_size (ws_wire k f @ rest)) (ws_wire k f @ rest)) = unmask key (wf_payload f)"
      unfolding p drop_drop [symmetric] body using len by simp
    ultimately have "take 4 (drop (head_size (ws_wire k f @ rest) - 4) (ws_wire k f @ rest)) = key"
      "take ?n (drop (head_size (ws_wire k f @ rest)) (ws_wire k f @ rest)) = unmask key (wf_payload f)" by blast+
    then show ?thesis
      unfolding parsed_frame_def first second told un Let_def using op Some flag by (intro ws_frame.equality) (simp_all add: opcode_bits)
  qed
qed

lemma parse_wire:
  assumes "ws_ok k f" and "length (ws_wire k f @ rest) < 2 ^ 63"
  shows "parse_frame (ws_wire k f @ rest) = Inr (Some (f, length (ws_wire k f)))"
proof -
  note w = wire_head [OF assms(1), of rest]
  have un: "unat (told_length (ws_wire k f @ rest)) = length (wf_payload f)"
    unfolding w(2) using assms(1) by (simp add: ws_ok_def unat_of_nat)
  have "head_complete (ws_wire k f @ rest)" using w(1) head_size_bounds(1) [of "ws_wire k f @ rest"]
    by (simp add: head_complete_def)
  moreover have "length (ws_wire k f) < 2 ^ 64" using assms(2) by simp
  ultimately show ?thesis using w un by (simp add: parse_frame_cases [OF assms(2)])
qed

lemma second_take: "1 < n \<Longrightarrow> second (take n xs) = second xs"
  by (cases xs; cases "tl xs"; cases n; cases "n - 1") auto

lemma parse_wire_prefix:
  assumes "ws_ok k f" and "n < length (ws_wire k f)" and "length (ws_wire k f) < 2 ^ 63"
  shows "parse_frame (take n (ws_wire k f)) = Inr None"
proof (cases "head_complete (take n (ws_wire k f))")
  case False
  then show ?thesis using assms by (simp add: parse_frame_cases)
next
  case True
  note w = wire_head [OF assms(1), of "[]"]
  have n: "1 < n" using True by (simp add: head_complete_def)
  then have hs: "head_size (take n (ws_wire k f)) = head_size (ws_wire k f)" by (simp add: head_size_def second_take)
  then have le: "head_size (ws_wire k f) \<le> n" using True by (simp add: head_complete_def)
  have "2 + ext_size (second (ws_wire k f)) \<le> head_size (ws_wire k f)" by (simp add: head_size_def)
  then have "take (ext_size (second (ws_wire k f))) (drop 2 (take n (ws_wire k f))) =
      take (ext_size (second (ws_wire k f))) (drop 2 (ws_wire k f))"
    using le by (simp add: drop_take min_def)
  then have told: "told_length (take n (ws_wire k f)) = told_length (ws_wire k f)"
    using n by (simp add: told_length_def second_take)
  have "unat (told_length (ws_wire k f)) = length (wf_payload f)"
    using w(2) assms(1) by (simp add: ws_ok_def unat_of_nat)
  then show ?thesis using assms w(1) by (simp add: parse_frame_cases True hs told)
qed

section \<open>The connection\<close>

text \<open>
  The socket is the environment: \<open>sk_reads\<close> are the byte strings that successive calls of
  \<^verbatim>\<open>async_read_some\<close> deliver, an empty one or the end of the list being a closed connection or an
  error, and \<open>sk_accepts\<close> the results of successive calls of \<^verbatim>\<open>async_write_some\<close>, which takes at most
  what it is given; behind the end of that list it takes everything.
\<close>

record ws_socket =
  sk_reads :: "bytes list"
  sk_accepts :: "int list"
  sk_sent :: bytes

definition async_read_some :: "ws_socket \<Rightarrow> bytes \<times> ws_socket" where
  "async_read_some sk = (case sk_reads sk of [] \<Rightarrow> ([], sk) | c # cs \<Rightarrow> (c, sk\<lparr>sk_reads := cs\<rparr>))"

definition async_write_some :: "bytes \<Rightarrow> ws_socket \<Rightarrow> int \<times> ws_socket" where
  "async_write_some data sk =
     (case sk_accepts sk of
        [] \<Rightarrow> (int (length data), sk\<lparr>sk_sent := sk_sent sk @ data\<rparr>)
      | a # as \<Rightarrow>
          (let n = min a (int (length data))
           in (n, sk\<lparr>sk_accepts := as, sk_sent := sk_sent sk @ take (nat n) data\<rparr>)))"

record websocket_connection =
  wc_sock :: ws_socket
  wc_read_buffer :: bytes

function write_raw :: "bytes \<Rightarrow> ws_socket \<Rightarrow> bool \<times> ws_socket" where
  "write_raw data sk =
     (if data = [] then (True, sk)
      else let (n, sk1) = async_write_some data sk
           in if n \<le> 0 then (False, sk1) else write_raw (drop (nat n) data) sk1)"
  by pat_completeness auto
termination
  by (relation "measure (\<lambda>(data, _). length data)") auto

declare write_raw.simps [simp del]

definition conn_write :: "bytes \<Rightarrow> websocket_connection \<Rightarrow> bool \<times> websocket_connection" where
  "conn_write data c = (let (ok, sk) = write_raw data (wc_sock c) in (ok, c\<lparr>wc_sock := sk\<rparr>))"

definition send_close_frame :: "websocket_connection \<Rightarrow> websocket_connection" where
  "send_close_frame c = snd (conn_write (encode_ws_frame Op_Close [] True) c)"

text \<open>\<open>None\<close> in the result: the connection was closed before a frame was complete.\<close>

function read_frame :: "websocket_connection \<Rightarrow> (ws_frame option \<times> websocket_connection) res" where
  "read_frame c =
     bindE (if wc_read_buffer c = [] then Inr None else parse_frame (wc_read_buffer c)) (\<lambda>result.
       case result of
         Some (frm, consumed) \<Rightarrow> Inr (Some frm, c\<lparr>wc_read_buffer := drop consumed (wc_read_buffer c)\<rparr>)
       | None \<Rightarrow>
           (let (buf, sk) = async_read_some (wc_sock c)
            in if buf = [] then Inr (None, c\<lparr>wc_sock := sk\<rparr>)
               else read_frame (c\<lparr>wc_sock := sk, wc_read_buffer := wc_read_buffer c @ buf\<rparr>)))"
  by pat_completeness auto
termination
  by (relation "measure (\<lambda>c. length (sk_reads (wc_sock c)))")
     (auto simp: async_read_some_def split: list.splits)

declare read_frame.simps [simp del]

definition unread :: "websocket_connection \<Rightarrow> bytes" where
  "unread c = wc_read_buffer c @ concat (sk_reads (wc_sock c))"

lemma parse_frame_consumes:
  assumes "parse_frame data = Inr (Some (f, n))"
  shows "0 < n \<and> data \<noteq> []"
proof -
  have "n = unat (of_nat (head_size data) + told_length data)" "\<not> 2 ^ 63 \<le> unat (told_length data)" "head_complete data"
    using assms by (auto simp: parse_frame_eq split: if_splits)
  then show ?thesis using head_size_bounds [of data] by (auto simp: told_sum head_complete_def)
qed

lemma read_frame_shrinks:
  assumes "read_frame c = Inr (Some f, c')"
  shows "length (unread c') < length (unread c)"
  using assms
proof (induction c rule: read_frame.induct)
  case (1 c)
  from 1(2) obtain r where r: "(if wc_read_buffer c = [] then Inr None else parse_frame (wc_read_buffer c)) = Inr r"
    by (subst (asm) read_frame.simps) (elim bindE_InrE)
  show ?case
  proof (cases r)
    case None
    obtain buf sk where rd_at: "async_read_some (wc_sock c) = (buf, sk)" by force
    have ne: "buf \<noteq> []" using 1(2) r None rd_at by (auto simp: read_frame.simps [of c])
    then have "read_frame (c\<lparr>wc_sock := sk, wc_read_buffer := wc_read_buffer c @ buf\<rparr>) = Inr (Some f, c')"
      using 1(2) r None rd_at by (simp add: read_frame.simps [of c])
    from 1(1) [OF r None refl rd_at [symmetric] ne this]
    have "length (unread c') < length (unread (c\<lparr>wc_sock := sk, wc_read_buffer := wc_read_buffer c @ buf\<rparr>))"
      by simp
    then show ?thesis
      using rd_at by (auto simp: unread_def async_read_some_def split: list.splits)
  next
    case (Some p)
    then obtain n where p: "p = (f, n)" "c' = c\<lparr>wc_read_buffer := drop n (wc_read_buffer c)\<rparr>"
      using 1(2) r by (cases p) (simp add: read_frame.simps [of c])
    then have "parse_frame (wc_read_buffer c) = Inr (Some (f, n))"
      using r Some by (auto split: if_splits)
    from parse_frame_consumes [OF this] show ?thesis
      unfolding p(2) by (cases "wc_read_buffer c") (auto simp: unread_def)
  qed
qed

lemma write_raw_reads: "sk_reads (snd (write_raw data sk)) = sk_reads sk"
proof (induction data sk rule: write_raw.induct)
  case (1 data sk)
  obtain n sk1 where w: "async_write_some data sk = (n, sk1)" by force
  then have "sk_reads sk1 = sk_reads sk" by (auto simp: async_write_some_def Let_def split: list.splits)
  then show ?case using 1 [OF _ w [symmetric]] w by (simp add: write_raw.simps [of data])
qed

lemma conn_write_unread [simp]: "unread (snd (conn_write data c)) = unread c"
  by (simp add: conn_write_def unread_def case_prod_unfold write_raw_reads Let_def)

text \<open>The loop of \<^verbatim>\<open>receive\<close>, with its variables \<^verbatim>\<open>message\<close> and \<^verbatim>\<open>in_fragment\<close>.\<close>

function receive_loop :: "websocket_connection \<Rightarrow> bytes \<Rightarrow> bool \<Rightarrow> (bytes \<times> websocket_connection) res" where
  "receive_loop c message in_fragment =
     bindE (read_frame c) (\<lambda>r. case r of
       (None, c) \<Rightarrow> Inr ([], c)
     | (Some frm, c) \<Rightarrow>
         (case wf_op frm of
            Op_Close \<Rightarrow> Inr ([], send_close_frame c)
          | Op_Ping \<Rightarrow> receive_loop (snd (conn_write (encode_ws_frame Op_Pong (wf_payload frm) True) c)) message in_fragment
          | Op_Pong \<Rightarrow> receive_loop c message in_fragment
          | Op_Text \<Rightarrow> if wf_fin frm then Inr (wf_payload frm, c) else receive_loop c (wf_payload frm) True
          | Op_Binary \<Rightarrow> if wf_fin frm then Inr (wf_payload frm, c) else receive_loop c (wf_payload frm) True
          | Op_Continuation \<Rightarrow>
              if \<not> in_fragment then Inr ([], c)
              else if wf_fin frm then Inr (message @ wf_payload frm, c)
              else receive_loop c (message @ wf_payload frm) in_fragment
          | Op_Other _ \<Rightarrow> receive_loop c message in_fragment))"
  by pat_completeness auto
termination
  by (relation "measure (\<lambda>(c, _). length (unread c))") (auto dest: read_frame_shrinks)

declare receive_loop.simps [simp del]

definition receive :: "websocket_connection \<Rightarrow> (bytes \<times> websocket_connection) res" where
  "receive c = receive_loop c [] False"

definition ws_send :: "bytes \<Rightarrow> websocket_connection \<Rightarrow> bool \<times> websocket_connection" where
  "ws_send msg c = conn_write (encode_ws_frame Op_Text msg True) c"

definition ws_send_binary :: "bytes \<Rightarrow> websocket_connection \<Rightarrow> bool \<times> websocket_connection" where
  "ws_send_binary data c = conn_write (encode_ws_frame Op_Binary data True) c"

definition ws_close :: "u16 \<Rightarrow> bytes \<Rightarrow> websocket_connection \<Rightarrow> websocket_connection" where
  "ws_close code reason c = snd (conn_write (encode_ws_frame Op_Close (be16 code @ reason) True) c)"

definition ws_ping :: "bytes \<Rightarrow> websocket_connection \<Rightarrow> bool \<times> websocket_connection" where
  "ws_ping data c = conn_write (encode_ws_frame Op_Ping data True) c"

section \<open>What a receiver promises, on frames\<close>

text \<open>
  The contract of \<^verbatim>\<open>receive\<close> in terms of frames: the message it returns, the bytes it answers with and
  the frames it leaves.  A frame comes with the masking key it was sent with.
\<close>

fun receive_frames :: "(bytes option \<times> ws_frame) list \<Rightarrow> bytes \<Rightarrow> bool
    \<Rightarrow> (bytes \<times> bytes \<times> (bytes option \<times> ws_frame) list) option" where
  "receive_frames [] message in_fragment = None"
| "receive_frames ((k, f) # fs) message in_fragment =
     (case wf_op f of
        Op_Close \<Rightarrow> Some ([], encode_ws_frame Op_Close [] True, fs)
      | Op_Ping \<Rightarrow> map_option (\<lambda>(m, out, rest). (m, encode_ws_frame Op_Pong (wf_payload f) True @ out, rest))
                    (receive_frames fs message in_fragment)
      | Op_Pong \<Rightarrow> receive_frames fs message in_fragment
      | Op_Text \<Rightarrow> if wf_fin f then Some (wf_payload f, [], fs) else receive_frames fs (wf_payload f) True
      | Op_Binary \<Rightarrow> if wf_fin f then Some (wf_payload f, [], fs) else receive_frames fs (wf_payload f) True
      | Op_Continuation \<Rightarrow>
          if \<not> in_fragment then Some ([], [], fs)
          else if wf_fin f then Some (message @ wf_payload f, [], fs)
          else receive_frames fs (message @ wf_payload f) in_fragment
      | Op_Other _ \<Rightarrow> receive_frames fs message in_fragment)"

definition wire_frames :: "(bytes option \<times> ws_frame) list \<Rightarrow> bytes" where
  "wire_frames fs = concat (map (\<lambda>(k, f). ws_wire k f) fs)"

lemma wire_frames_Cons: "wire_frames ((k, f) # fs) = ws_wire k f @ wire_frames fs"
  by (simp add: wire_frames_def)

lemma ws_wire_nonempty [simp]: "ws_wire k f \<noteq> []"
  by (simp add: ws_wire_def)

text \<open>A connection that is still open: every read delivers something and every write makes progress.\<close>

definition live :: "websocket_connection \<Rightarrow> bool" where
  "live c \<longleftrightarrow> [] \<notin> set (sk_reads (wc_sock c)) \<and> (\<forall>a\<in>set (sk_accepts (wc_sock c)). 0 < a)"

text \<open>What a step leaves alone, apart from the bytes it consumes.\<close>

definition sent :: "websocket_connection \<Rightarrow> bytes" where
  "sent c = sk_sent (wc_sock c)"

lemma read_frame_wire:
  assumes "ws_ok k f" and "unread c = ws_wire k f @ rest" and "length (unread c) < 2 ^ 63" and "live c"
  shows "\<exists>c'. read_frame c = Inr (Some f, c') \<and> unread c' = rest \<and> live c' \<and> sent c' = sent c"
  using assms
proof (induction c rule: read_frame.induct)
  case (1 c)
  let ?b = "wc_read_buffer c" and ?w = "ws_wire k f"
  have short: "length ?b < 2 ^ 63" "length ?w < 2 ^ 63"
    using 1(4) by (simp add: unread_def, simp add: 1(3))
  have join: "?b @ concat (sk_reads (wc_sock c)) = ?w @ rest" using 1(3) by (simp add: unread_def)
  show ?case
  proof (cases "length ?w \<le> length ?b")
    case True
    then have "take (length ?w) ?b = ?w" using arg_cong [OF join, of "take (length ?w)"] by simp
    then obtain x where "?b = ?w @ x" by (metis append_take_drop_id)
    moreover from this have "x @ concat (sk_reads (wc_sock c)) = rest" using join by simp
    ultimately have b: "?b = ?w @ x" "x @ concat (sk_reads (wc_sock c)) = rest" by blast+
    have "?b \<noteq> []" using b(1) by simp
    moreover have "parse_frame ?b = Inr (Some (f, length ?w))"
      using parse_wire [OF 1(2), of x] b(1) short(1) by simp
    ultimately show ?thesis
      using 1(5) b by (simp add: read_frame.simps [of c] unread_def live_def sent_def)
  next
    case False
    then obtain y where "?w = ?b @ y" using join unfolding append_eq_append_conv2 by (auto dest: sym)
    then have pre: "?b = take (length ?b) ?w" by simp
    have none: "(if ?b = [] then Inr None else parse_frame ?b) = Inr None"
      using parse_wire_prefix [OF 1(2) _ short(2), of "length ?b"] False pre by simp
    obtain chunk cs where cs: "sk_reads (wc_sock c) = chunk # cs"
      using join False by (cases "sk_reads (wc_sock c)") auto
    then have ne: "chunk \<noteq> []" using 1(5) by (auto simp: live_def)
    let ?c = "c\<lparr>wc_sock := (wc_sock c)\<lparr>sk_reads := cs\<rparr>, wc_read_buffer := ?b @ chunk\<rparr>"
    have rd_at: "async_read_some (wc_sock c) = (chunk, (wc_sock c)\<lparr>sk_reads := cs\<rparr>)"
      by (simp add: async_read_some_def cs)
    have "unread ?c = unread c" "live ?c" "sent ?c = sent c"
      using 1(5) by (auto simp: unread_def cs live_def sent_def)
    moreover have "read_frame c = read_frame ?c"
      by (subst read_frame.simps) (simp add: none rd_at ne)
    ultimately show ?thesis
      using 1(1) [OF none refl refl rd_at [symmetric] ne 1(2)] 1(3,4) by simp
  qed
qed

text \<open>The socket closes before the frame is complete.\<close>

lemma read_frame_cut:
  assumes "ws_ok k f" and "length (ws_wire k f) < 2 ^ 63" and "strict_prefix (unread c) (ws_wire k f)"
  shows "\<exists>c'. read_frame c = Inr (None, c')"
  using assms
proof (induction c rule: read_frame.induct)
  case (1 c)
  let ?b = "wc_read_buffer c" and ?w = "ws_wire k f"
  obtain x where w: "?w = ?b @ x" "x \<noteq> []"
    using 1(4) by (auto simp: unread_def strict_prefix_def prefix_def)
  have none: "(if ?b = [] then Inr None else parse_frame ?b) = Inr None"
    using parse_wire_prefix [OF 1(2) _ 1(3), of "length ?b"] w by simp
  obtain buf sk where rd_at: "async_read_some (wc_sock c) = (buf, sk)" by force
  show ?case
  proof (cases "buf = []")
    case True
    then show ?thesis by (subst read_frame.simps) (simp add: none rd_at)
  next
    case False
    let ?c = "c\<lparr>wc_sock := sk, wc_read_buffer := ?b @ buf\<rparr>"
    have "unread ?c = unread c"
      using rd_at False by (auto simp: unread_def async_read_some_def split: list.splits)
    moreover have "read_frame c = read_frame ?c"
      by (subst read_frame.simps) (simp add: none rd_at False)
    ultimately show ?thesis
      using 1(1) [OF none refl refl rd_at [symmetric] False 1(2,3)] 1(4) by simp
  qed
qed

lemma write_raw_sent:
  "\<forall>a\<in>set (sk_accepts sk). 0 < a \<Longrightarrow>
   \<exists>sk'. write_raw data sk = (True, sk') \<and> sk_sent sk' = sk_sent sk @ data \<and> sk_reads sk' = sk_reads sk \<and>
     set (sk_accepts sk') \<subseteq> set (sk_accepts sk)"
proof (induction data sk rule: write_raw.induct)
  case (1 data sk)
  show ?case
  proof (cases "data = []")
    case True
    then show ?thesis by (simp add: write_raw.simps)
  next
    case False
    obtain n sk1 where w: "async_write_some data sk = (n, sk1)" by force
    then have n: "0 < n" "sk_sent sk1 = sk_sent sk @ take (nat n) data" "sk_reads sk1 = sk_reads sk"
      "set (sk_accepts sk1) \<subseteq> set (sk_accepts sk)"
      using 1(2) False by (auto simp: async_write_some_def Let_def split: list.splits)
    then have "\<exists>sk'. write_raw (drop (nat n) data) sk1 = (True, sk') \<and> sk_sent sk' = sk_sent sk1 @ drop (nat n) data \<and>
        sk_reads sk' = sk_reads sk1 \<and> set (sk_accepts sk') \<subseteq> set (sk_accepts sk1)"
      using 1(1) [OF False w [symmetric]] 1(2) by auto
    then show ?thesis
      using n w False by (subst write_raw.simps) (auto simp: n(2) append_assoc)
  qed
qed

lemma conn_write_live:
  assumes "live c"
  shows "fst (conn_write data c)" "live (snd (conn_write data c))" "sent (snd (conn_write data c)) = sent c @ data"
proof -
  obtain sk' where "write_raw data (wc_sock c) = (True, sk')" "sk_sent sk' = sk_sent (wc_sock c) @ data"
    "sk_reads sk' = sk_reads (wc_sock c)" "set (sk_accepts sk') \<subseteq> set (sk_accepts (wc_sock c))"
    using assms write_raw_sent [of "wc_sock c" data] by (auto simp: live_def)
  then show "fst (conn_write data c)" "live (snd (conn_write data c))" "sent (snd (conn_write data c)) = sent c @ data"
    using assms by (auto simp: conn_write_def live_def sent_def)
qed

lemma receive_loop_refines:
  assumes "receive_frames fs message in_fragment = Some (m, out, rest)"
    and "list_all (\<lambda>(k, f). ws_ok k f) fs"
    and "unread c = wire_frames fs @ tail" and "length (unread c) < 2 ^ 63" and "live c"
  shows "\<exists>c'. receive_loop c message in_fragment = Inr (m, c') \<and> sent c' = sent c @ out \<and>
           unread c' = wire_frames rest @ tail \<and> live c'"
  using assms
proof (induction fs arbitrary: c message in_fragment m out)
  case Nil
  then show ?case by simp
next
  case (Cons p fs)
  obtain k f where p: "p = (k, f)" by force
  have ok: "ws_ok k f" "list_all (\<lambda>(k, f). ws_ok k f) fs" using Cons.prems(2) p by auto
  have "unread c = ws_wire k f @ wire_frames fs @ tail" using Cons.prems(3) p by (simp add: wire_frames_Cons)
  from read_frame_wire [OF ok(1) this Cons.prems(4,5)]
  obtain c1 where c1: "read_frame c = Inr (Some f, c1)" "unread c1 = wire_frames fs @ tail" "live c1" "sent c1 = sent c"
    by blast
  have short: "length (unread c1) < 2 ^ 63" using read_frame_shrinks [OF c1(1)] Cons.prems(4) by linarith
  note wrote = conn_write_live [OF c1(3)]
  show ?case
  proof (cases "wf_op f = Op_Ping")
    case True
    let ?c = "snd (conn_write (encode_ws_frame Op_Pong (wf_payload f) True) c1)"
    obtain out' where "receive_frames fs message in_fragment = Some (m, out', rest)"
      "out = encode_ws_frame Op_Pong (wf_payload f) True @ out'"
      using Cons.prems(1) p True by auto
    then show ?thesis
      using Cons.IH [of message in_fragment m out' ?c] ok(2) c1 short wrote True
      by (simp add: receive_loop.simps [of c])
  next
    case False
    show ?thesis
      using Cons.prems(1) p False c1 short ok(2) wrote
        Cons.IH [of message in_fragment m out c1] Cons.IH [of "wf_payload f" True m out c1]
        Cons.IH [of "message @ wf_payload f" in_fragment m out c1]
      by (cases "wf_op f") (auto simp: receive_loop.simps [of c] send_close_frame_def split: if_splits)
  qed
qed

section \<open>Properties\<close>

text \<open>
  C20: A frame survives the wire in both directions.  For every frame of the protocol, with any 4-byte
  masking key or without one, and whatever bytes follow, the parser returns the frame with its payload
  unmasked and consumes exactly its bytes; on every proper prefix it asks for more data.  Without a key
  these bytes are the output of \<^verbatim>\<open>encode_frame\<close>.
\<close>

theorem frame_round_trip:
  assumes "ws_ok k f" and "length (ws_wire k f @ rest) < 2 ^ 63"
  shows "parse_frame (ws_wire k f @ rest) = Inr (Some (f, length (ws_wire k f))) \<and>
    (\<forall>n < length (ws_wire k f). parse_frame (take n (ws_wire k f)) = Inr None) \<and>
    (k = None \<longrightarrow> ws_wire k f = encode_ws_frame (wf_op f) (wf_payload f) (wf_fin f))"
  using assms parse_wire [OF assms] parse_wire_prefix [OF assms(1)]
  by (simp add: encode_frame_wire ws_wire_def)

definition hello_frame :: ws_frame where
  "hello_frame = \<lparr>wf_fin = True, wf_op = Op_Text, wf_masked = True, wf_payload = str ''Hello''\<rparr>"

definition hello_key :: bytes where
  "hello_key = [0x37, 0xFA, 0x21, 0x3D]"

lemma hello_facts:
  "ws_ok (Some hello_key) hello_frame"
  "ws_wire (Some hello_key) hello_frame = [0x81, 0x85, 0x37, 0xFA, 0x21, 0x3D, 0x7F, 0x9F, 0x4D, 0x51, 0x58]"
  by (simp add: ws_ok_def hello_frame_def hello_key_def opcode_byte_def opcode_of_def) code_simp

theorem frame_round_trip_witness:
  "parse_frame [0x81, 0x85, 0x37, 0xFA, 0x21, 0x3D, 0x7F, 0x9F, 0x4D, 0x51, 0x58, 0x81] = Inr (Some (hello_frame, 11))"
  using frame_round_trip [OF hello_facts(1), of "[0x81]"] by (simp add: hello_facts(2))

text \<open>
  C21: The parser never reads outside the bytes it is given.  It throws on exactly the frames whose
  64-bit length field is so large that the sum with the header size wraps around, and it throws at once
  instead of waiting for data; every other incomplete frame is waited for.
\<close>

theorem parse_frame_total:
  assumes "length data < 2 ^ 63"
  shows "parse_frame data \<noteq> Inl Undefined_Behaviour \<and>
    (parse_frame data = Inl e \<longleftrightarrow>
       e = Length_Error \<and> head_complete data \<and> 2 ^ 64 - 14 \<le> unat (told_length data) \<and>
       2 ^ 64 \<le> head_size data + unat (told_length data)) \<and>
    (parse_frame data = Inr None \<longleftrightarrow>
       \<not> head_complete data \<or>
       length data < head_size data + unat (told_length data) \<and> head_size data + unat (told_length data) < 2 ^ 64)"
  using head_size_bounds [of data] unfolding parse_frame_cases [OF assms]
  by (simp only: split: if_splits) auto

theorem parse_frame_total_witness:
  "parse_frame [0x82, 0x7F, 0xFF, 0xFF, 0xFF, 0xFF, 0xFF, 0xFF, 0xFF, 0xFF] = Inl Length_Error"
  using parse_frame_total [of "[0x82, 0x7F, 0xFF, 0xFF, 0xFF, 0xFF, 0xFF, 0xFF, 0xFF, 0xFF]" Length_Error]
  by (simp add: head_complete_def head_size_def ext_size_def told_length_def ld_be_def)

text \<open>
  C9: \<^verbatim>\<open>receive\<close> on bytes does what its contract says on frames, however the network cuts the bytes
  into reads and however many bytes a write accepts.  It returns the message, put together from its
  fragments across pings, pongs and frames of unknown type in between; it has sent one pong per ping,
  with the ping's payload, in order, and a close frame for a close; and the bytes of the frames behind
  are still there for the next call.
\<close>

theorem receive_refines:
  assumes "receive_frames fs [] False = Some (m, out, rest)"
    and "list_all (\<lambda>(k, f). ws_ok k f) fs"
    and "unread c = wire_frames fs @ tail" and "length (unread c) < 2 ^ 63" and "live c"
  shows "\<exists>c'. receive c = Inr (m, c') \<and> sent c' = sent c @ out \<and> unread c' = wire_frames rest @ tail \<and> live c'"
  unfolding receive_def by (rule receive_loop_refines [OF assms])

definition fragments_example :: "(bytes option \<times> ws_frame) list" where
  "fragments_example =
     [(None, \<lparr>wf_fin = False, wf_op = Op_Text, wf_masked = False, wf_payload = str ''Hel''\<rparr>),
      (Some hello_key, \<lparr>wf_fin = True, wf_op = Op_Ping, wf_masked = True, wf_payload = str ''?''\<rparr>),
      (None, \<lparr>wf_fin = True, wf_op = Op_Continuation, wf_masked = False, wf_payload = str ''lo''\<rparr>)]"

definition fragments_connection :: websocket_connection where
  "fragments_connection = \<lparr>wc_sock = \<lparr>sk_reads = [take 3 (wire_frames fragments_example), drop 3 (wire_frames fragments_example)],
     sk_accepts = [1, 5], sk_sent = []\<rparr>, wc_read_buffer = []\<rparr>"

theorem receive_refines_witness:
  "\<exists>c'. receive fragments_connection = Inr (str ''Hello'', c') \<and>
     sent c' = encode_ws_frame Op_Pong (str ''?'') True \<and> unread c' = []"
proof -
  have "receive_frames fragments_example [] False = Some (str ''Hello'', encode_ws_frame Op_Pong (str ''?'') True, [])"
    "list_all (\<lambda>(k, f). ws_ok k f) fragments_example"
    by (simp_all add: fragments_example_def ws_ok_def opcode_byte_def opcode_of_def hello_key_def)
  moreover have "length (wire_frames fragments_example) = 16"
    by (simp add: wire_frames_def fragments_example_def ws_wire_def length_ext_def wire_payload_def hello_key_def)
  then have "unread fragments_connection = wire_frames fragments_example @ []" "length (unread fragments_connection) < 2 ^ 63"
    "live fragments_connection" "sent fragments_connection = []"
    by (auto simp: fragments_connection_def unread_def live_def sent_def)
  ultimately show ?thesis
    using receive_refines [of fragments_example "str ''Hello''" "encode_ws_frame Op_Pong (str ''?'') True" "[]" fragments_connection "[]"]
    by (auto simp: wire_frames_def)
qed

text \<open>
  A socket that closes in the middle of a frame ends \<^verbatim>\<open>receive\<close> with an empty message, wherever
  the cut is and however the bytes before it arrived; nothing of the incomplete frame is delivered.
\<close>

theorem receive_cut_off:
  assumes "ws_ok k f" and "length (ws_wire k f) < 2 ^ 63" and "strict_prefix (unread c) (ws_wire k f)"
  shows "\<exists>c'. receive c = Inr ([], c')"
proof -
  obtain c' where "read_frame c = Inr (None, c')" using read_frame_cut [OF assms] by blast
  then show ?thesis by (simp add: receive_def receive_loop.simps [of c])
qed

theorem receive_cut_off_witness:
  "\<exists>c'. receive \<lparr>wc_sock = \<lparr>sk_reads = [[0x81], [0x85, 0x37]], sk_accepts = [], sk_sent = []\<rparr>, wc_read_buffer = []\<rparr> =
     Inr ([], c')"
  by (rule receive_cut_off [OF hello_facts(1)]) (simp_all add: hello_facts(2) unread_def strict_prefix_def)

text \<open>
  Two ends of a connection understand each other: the bytes that \<^verbatim>\<open>send\<close>, \<^verbatim>\<open>send_binary\<close> or
  \<^verbatim>\<open>ping\<close> and then \<^verbatim>\<open>send\<close> put on an open socket, cut into any reads, are received as exactly the
  message that was sent.
\<close>

theorem send_receive:
  assumes "live a" and "sent a = []" and "length msg < 2 ^ 61" and "length note < 2 ^ 61"
    and "unread b = sent (snd (ws_send msg (snd (ws_ping note a))))" and "live b" and "sent b = []"
  shows "\<exists>b'. receive b = Inr (msg, b') \<and> unread b' = [] \<and> sent b' = encode_ws_frame Op_Pong note True"
proof -
  let ?ping = "\<lparr>wf_fin = True, wf_op = Op_Ping, wf_masked = False, wf_payload = note\<rparr>"
  let ?text = "\<lparr>wf_fin = True, wf_op = Op_Text, wf_masked = False, wf_payload = msg\<rparr>"
  have "sent (snd (ws_send msg (snd (ws_ping note a)))) = wire_frames [(None, ?ping), (None, ?text)]"
    using conn_write_live [OF assms(1)] conn_write_live [OF conn_write_live(2) [OF assms(1)]] assms(2)
    by (simp add: ws_send_def ws_ping_def encode_frame_wire wire_frames_def)
  moreover have "length (ws_wire None ?ping) \<le> 10 + length note" "length (ws_wire None ?text) \<le> 10 + length msg"
    by (simp_all add: ws_wire_def length_ext_def wire_payload_def)
  ultimately have "unread b = wire_frames [(None, ?ping), (None, ?text)] @ []" "length (unread b) < 2 ^ 63"
    using assms(3-5) by (simp_all add: wire_frames_def)
  moreover have "receive_frames [(None, ?ping), (None, ?text)] [] False = Some (msg, encode_ws_frame Op_Pong note True, [])"
    by simp
  ultimately show ?thesis
    using receive_loop_refines [of "[(None, ?ping), (None, ?text)]" "[]" False msg _ "[]" b "[]"] assms
    by (auto simp: receive_def ws_ok_def opcode_byte_def opcode_of_def wire_frames_def)
qed

theorem send_receive_witness:
  "\<exists>b'. receive \<lparr>wc_sock = \<lparr>sk_reads = [[0x89, 0x00, 0x81], [0x01, 0x41]], sk_accepts = [], sk_sent = []\<rparr>, wc_read_buffer = []\<rparr> =
     Inr ([0x41], b') \<and> unread b' = [] \<and> sent b' = [0x8A, 0x00]"
  using send_receive [of "\<lparr>wc_sock = \<lparr>sk_reads = [], sk_accepts = [], sk_sent = []\<rparr>, wc_read_buffer = []\<rparr>" "[0x41]" "[]"
    "\<lparr>wc_sock = \<lparr>sk_reads = [[0x89, 0x00, 0x81], [0x01, 0x41]], sk_accepts = [], sk_sent = []\<rparr>, wc_read_buffer = []\<rparr>"]
  by (simp add: live_def sent_def unread_def ws_send_def ws_ping_def conn_write_def write_raw.simps async_write_some_def
        encode_ws_frame_def opcode_byte_def)

end
