(* ===== verification/Huffman.thy ===== *)
theory Huffman
  imports Net_Prelude
begin

text \<open>
  The Huffman coder of HPACK, \<^verbatim>\<open>src/http/hpack.cpp\<close>: the code table \<^verbatim>\<open>HUFF\<close>, the encoder
  with its 64-bit buffer and the decoder that matches prefixes bit by bit.

  The locale \<open>prefix_code\<close> states what decoding needs of a code table: a symbol's code is found,
  and none of its proper prefixes is.  The table of the source meets this for all symbols but
  sixteen: symbol 123 has the code \<^verbatim>\<open>0x7fffe\<close> of 19 bits where RFC 7541 gives \<^verbatim>\<open>0x7ffe\<close> of 15,
  and the entry as written is a prefix of sixteen 23-bit codes.
\<close>

section \<open>The table\<close>

datatype huff_sym = HUFF_ENTRY (hcode: u32) (hbits: nat)

definition HUFF :: "huff_sym list" where
  "HUFF = [
   HUFF_ENTRY 0x1ff8 13, HUFF_ENTRY 0x7fffd8 23, HUFF_ENTRY 0xfffffe2 28, HUFF_ENTRY 0xfffffe3 28,
   HUFF_ENTRY 0xfffffe4 28, HUFF_ENTRY 0xfffffe5 28, HUFF_ENTRY 0xfffffe6 28, HUFF_ENTRY 0xfffffe7 28,
   HUFF_ENTRY 0xfffffe8 28, HUFF_ENTRY 0xffffea 24, HUFF_ENTRY 0x3ffffffc 30, HUFF_ENTRY 0xfffffe9 28,
   HUFF_ENTRY 0xfffffea 28, HUFF_ENTRY 0x3ffffffd 30, HUFF_ENTRY 0xfffffeb 28, HUFF_ENTRY 0xfffffec 28,
   HUFF_ENTRY 0xfffffed 28, HUFF_ENTRY 0xfffffee 28, HUFF_ENTRY 0xfffffef 28, HUFF_ENTRY 0xffffff0 28,
   HUFF_ENTRY 0xffffff1 28, HUFF_ENTRY 0xffffff2 28, HUFF_ENTRY 0x3ffffffe 30, HUFF_ENTRY 0xffffff3 28,
   HUFF_ENTRY 0xffffff4 28, HUFF_ENTRY 0xffffff5 28, HUFF_ENTRY 0xffffff6 28, HUFF_ENTRY 0xffffff7 28,
   HUFF_ENTRY 0xffffff8 28, HUFF_ENTRY 0xffffff9 28, HUFF_ENTRY 0xffffffa 28, HUFF_ENTRY 0xffffffb 28,
   HUFF_ENTRY 0x14 6, HUFF_ENTRY 0x3f8 10, HUFF_ENTRY 0x3f9 10, HUFF_ENTRY 0xffa 12,
   HUFF_ENTRY 0x1ff9 13, HUFF_ENTRY 0x15 6, HUFF_ENTRY 0xf8 8, HUFF_ENTRY 0x7fa 11,
   HUFF_ENTRY 0x3fa 10, HUFF_ENTRY 0x3fb 10, HUFF_ENTRY 0xf9 8, HUFF_ENTRY 0x7fb 11,
   HUFF_ENTRY 0xfa 8, HUFF_ENTRY 0x16 6, HUFF_ENTRY 0x17 6, HUFF_ENTRY 0x18 6,
   HUFF_ENTRY 0x0 5, HUFF_ENTRY 0x1 5, HUFF_ENTRY 0x2 5, HUFF_ENTRY 0x19 6,
   HUFF_ENTRY 0x1a 6, HUFF_ENTRY 0x1b 6, HUFF_ENTRY 0x1c 6, HUFF_ENTRY 0x1d 6,
   HUFF_ENTRY 0x1e 6, HUFF_ENTRY 0x1f 6, HUFF_ENTRY 0x5c 7, HUFF_ENTRY 0xfb 8,
   HUFF_ENTRY 0x7ffc 15, HUFF_ENTRY 0x20 6, HUFF_ENTRY 0xffb 12, HUFF_ENTRY 0x3fc 10,
   HUFF_ENTRY 0x1ffa 13, HUFF_ENTRY 0x21 6, HUFF_ENTRY 0x5d 7, HUFF_ENTRY 0x5e 7,
   HUFF_ENTRY 0x5f 7, HUFF_ENTRY 0x60 7, HUFF_ENTRY 0x61 7, HUFF_ENTRY 0x62 7,
   HUFF_ENTRY 0x63 7, HUFF_ENTRY 0x64 7, HUFF_ENTRY 0x65 7, HUFF_ENTRY 0x66 7,
   HUFF_ENTRY 0x67 7, HUFF_ENTRY 0x68 7, HUFF_ENTRY 0x69 7, HUFF_ENTRY 0x6a 7,
   HUFF_ENTRY 0x6b 7, HUFF_ENTRY 0x6c 7, HUFF_ENTRY 0x6d 7, HUFF_ENTRY 0x6e 7,
   HUFF_ENTRY 0x6f 7, HUFF_ENTRY 0x70 7, HUFF_ENTRY 0x71 7, HUFF_ENTRY 0x72 7,
   HUFF_ENTRY 0xfc 8, HUFF_ENTRY 0x73 7, HUFF_ENTRY 0xfd 8, HUFF_ENTRY 0x1ffb 13,
   HUFF_ENTRY 0x7fff0 19, HUFF_ENTRY 0x1ffc 13, HUFF_ENTRY 0x3ffc 14, HUFF_ENTRY 0x22 6,
   HUFF_ENTRY 0x7ffd 15, HUFF_ENTRY 0x3 5, HUFF_ENTRY 0x23 6, HUFF_ENTRY 0x4 5,
   HUFF_ENTRY 0x24 6, HUFF_ENTRY 0x5 5, HUFF_ENTRY 0x25 6, HUFF_ENTRY 0x26 6,
   HUFF_ENTRY 0x27 6, HUFF_ENTRY 0x6 5, HUFF_ENTRY 0x74 7, HUFF_ENTRY 0x75 7,
   HUFF_ENTRY 0x28 6, HUFF_ENTRY 0x29 6, HUFF_ENTRY 0x2a 6, HUFF_ENTRY 0x7 5,
   HUFF_ENTRY 0x2b 6, HUFF_ENTRY 0x76 7, HUFF_ENTRY 0x2c 6, HUFF_ENTRY 0x8 5,
   HUFF_ENTRY 0x9 5, HUFF_ENTRY 0x2d 6, HUFF_ENTRY 0x77 7, HUFF_ENTRY 0x78 7,
   HUFF_ENTRY 0x79 7, HUFF_ENTRY 0x7a 7, HUFF_ENTRY 0x7b 7, HUFF_ENTRY 0x7fffe 19,
   HUFF_ENTRY 0x7fc 11, HUFF_ENTRY 0x3ffd 14, HUFF_ENTRY 0x1ffd 13, HUFF_ENTRY 0xffffffc 28,
   HUFF_ENTRY 0xfffe6 20, HUFF_ENTRY 0x3fffd2 22, HUFF_ENTRY 0xfffe7 20, HUFF_ENTRY 0xfffe8 20,
   HUFF_ENTRY 0x3fffd3 22, HUFF_ENTRY 0x3fffd4 22, HUFF_ENTRY 0x3fffd5 22, HUFF_ENTRY 0x7fffd9 23,
   HUFF_ENTRY 0x3fffd6 22, HUFF_ENTRY 0x7fffda 23, HUFF_ENTRY 0x7fffdb 23, HUFF_ENTRY 0x7fffdc 23,
   HUFF_ENTRY 0x7fffdd 23, HUFF_ENTRY 0x7fffde 23, HUFF_ENTRY 0xffffeb 24, HUFF_ENTRY 0x7fffdf 23,
   HUFF_ENTRY 0xffffec 24, HUFF_ENTRY 0xffffed 24, HUFF_ENTRY 0x3fffd7 22, HUFF_ENTRY 0x7fffe0 23,
   HUFF_ENTRY 0xffffee 24, HUFF_ENTRY 0x7fffe1 23, HUFF_ENTRY 0x7fffe2 23, HUFF_ENTRY 0x7fffe3 23,
   HUFF_ENTRY 0x7fffe4 23, HUFF_ENTRY 0x1fffdc 21, HUFF_ENTRY 0x3fffd8 22, HUFF_ENTRY 0x7fffe5 23,
   HUFF_ENTRY 0x3fffd9 22, HUFF_ENTRY 0x7fffe6 23, HUFF_ENTRY 0x7fffe7 23, HUFF_ENTRY 0xffffef 24,
   HUFF_ENTRY 0x3fffda 22, HUFF_ENTRY 0x1fffdd 21, HUFF_ENTRY 0xfffe9 20, HUFF_ENTRY 0x3fffdb 22,
   HUFF_ENTRY 0x3fffdc 22, HUFF_ENTRY 0x7fffe8 23, HUFF_ENTRY 0x7fffe9 23, HUFF_ENTRY 0x1fffde 21,
   HUFF_ENTRY 0x7fffea 23, HUFF_ENTRY 0x3fffdd 22, HUFF_ENTRY 0x3fffde 22, HUFF_ENTRY 0xfffff0 24,
   HUFF_ENTRY 0x1fffdf 21, HUFF_ENTRY 0x3fffdf 22, HUFF_ENTRY 0x7fffeb 23, HUFF_ENTRY 0x7fffec 23,
   HUFF_ENTRY 0x1fffe0 21, HUFF_ENTRY 0x1fffe1 21, HUFF_ENTRY 0x3fffe0 22, HUFF_ENTRY 0x1fffe2 21,
   HUFF_ENTRY 0x7fffed 23, HUFF_ENTRY 0x3fffe1 22, HUFF_ENTRY 0x7fffee 23, HUFF_ENTRY 0x7fffef 23,
   HUFF_ENTRY 0xfffea 20, HUFF_ENTRY 0x3fffe2 22, HUFF_ENTRY 0x3fffe3 22, HUFF_ENTRY 0x3fffe4 22,
   HUFF_ENTRY 0x7ffff0 23, HUFF_ENTRY 0x3fffe5 22, HUFF_ENTRY 0x3fffe6 22, HUFF_ENTRY 0x7ffff1 23,
   HUFF_ENTRY 0x3ffffe0 26, HUFF_ENTRY 0x3ffffe1 26, HUFF_ENTRY 0xfffeb 20, HUFF_ENTRY 0x7fff1 19,
   HUFF_ENTRY 0x3fffe7 22, HUFF_ENTRY 0x7ffff2 23, HUFF_ENTRY 0x3fffe8 22, HUFF_ENTRY 0x1ffffec 25,
   HUFF_ENTRY 0x3ffffe2 26, HUFF_ENTRY 0x3ffffe3 26, HUFF_ENTRY 0x3ffffe4 26, HUFF_ENTRY 0x7ffffde 27,
   HUFF_ENTRY 0x7ffffdf 27, HUFF_ENTRY 0x3ffffe5 26, HUFF_ENTRY 0xfffff1 24, HUFF_ENTRY 0x1ffffed 25,
   HUFF_ENTRY 0x7fff2 19, HUFF_ENTRY 0x1fffe3 21, HUFF_ENTRY 0x3ffffe6 26, HUFF_ENTRY 0x7ffffe0 27,
   HUFF_ENTRY 0x7ffffe1 27, HUFF_ENTRY 0x3ffffe7 26, HUFF_ENTRY 0x7ffffe2 27, HUFF_ENTRY 0xfffff2 24,
   HUFF_ENTRY 0x1fffe4 21, HUFF_ENTRY 0x1fffe5 21, HUFF_ENTRY 0x3ffffe8 26, HUFF_ENTRY 0x3ffffe9 26,
   HUFF_ENTRY 0xffffffd 28, HUFF_ENTRY 0x7ffffe3 27, HUFF_ENTRY 0x7ffffe4 27, HUFF_ENTRY 0x7ffffe5 27,
   HUFF_ENTRY 0xfffec 20, HUFF_ENTRY 0xfffff3 24, HUFF_ENTRY 0xfffed 20, HUFF_ENTRY 0x1fffe6 21,
   HUFF_ENTRY 0x3fffe9 22, HUFF_ENTRY 0x1fffe7 21, HUFF_ENTRY 0x1fffe8 21, HUFF_ENTRY 0x7ffff3 23,
   HUFF_ENTRY 0x3fffea 22, HUFF_ENTRY 0x3fffeb 22, HUFF_ENTRY 0x1ffffee 25, HUFF_ENTRY 0x1ffffef 25,
   HUFF_ENTRY 0xfffff4 24, HUFF_ENTRY 0xfffff5 24, HUFF_ENTRY 0x3ffffea 26, HUFF_ENTRY 0x7ffff4 23,
   HUFF_ENTRY 0x3ffffeb 26, HUFF_ENTRY 0x7ffffe6 27, HUFF_ENTRY 0x3ffffec 26, HUFF_ENTRY 0x3ffffed 26,
   HUFF_ENTRY 0x7ffffe7 27, HUFF_ENTRY 0x7ffffe8 27, HUFF_ENTRY 0x7ffffe9 27, HUFF_ENTRY 0x7ffffea 27,
   HUFF_ENTRY 0x7ffffeb 27, HUFF_ENTRY 0xffffffe 28, HUFF_ENTRY 0x7ffffec 27, HUFF_ENTRY 0x7ffffed 27,
   HUFF_ENTRY 0x7ffffee 27, HUFF_ENTRY 0x7ffffef 27, HUFF_ENTRY 0x7fffff0 27, HUFF_ENTRY 0x3ffffee 26,
   HUFF_ENTRY 0x3fffffff 30]"

section \<open>Encoder\<close>

text \<open>The inner loop: emit whole bytes from the top of the buffer.\<close>

fun huff_emit :: "u64 \<Rightarrow> nat \<Rightarrow> bytes \<Rightarrow> nat \<times> bytes" where
  "huff_emit bit_buf bit_count output =
     (if 8 \<le> bit_count
      then huff_emit bit_buf (bit_count - 8) (output @ [byte_at bit_buf (bit_count - 8)])
      else (bit_count, output))"

declare huff_emit.simps [simp del]

fun huff_encode_loop :: "bytes \<Rightarrow> u64 \<Rightarrow> nat \<Rightarrow> bytes \<Rightarrow> u64 \<times> nat \<times> bytes" where
  "huff_encode_loop [] bit_buf bit_count output = (bit_buf, bit_count, output)"
| "huff_encode_loop (ch # input) bit_buf bit_count output =
     (let s = HUFF ! unat ch;
          bit_buf' = push_bit (hbits s) bit_buf OR ucast (hcode s);
          (bit_count', output') = huff_emit bit_buf' (bit_count + hbits s) output
      in huff_encode_loop input bit_buf' bit_count' output')"

definition huffman_encode :: "bytes \<Rightarrow> bytes" where
  "huffman_encode input =
     (let (bit_buf, bit_count, output) = huff_encode_loop input 0 0 []
      in if 0 < bit_count
         then output @ [byte_at (push_bit (8 - bit_count) bit_buf OR mask (8 - bit_count)) 0]
         else output)"

definition huffman_is_shorter :: "bytes \<Rightarrow> bool" where
  "huffman_is_shorter input =
     ((sum_list (map (\<lambda>ch. hbits (HUFF ! unat ch)) input) + 7) div 8 < length input)"

section \<open>Decoder\<close>

text \<open>The search over symbols 0 to 255 for a code of the current length and value.\<close>

fun huff_search :: "huff_sym list \<Rightarrow> nat \<Rightarrow> nat \<Rightarrow> u32 \<Rightarrow> nat option" where
  "huff_search [] i code_bits code = None"
| "huff_search (s # table) i code_bits code =
     (if hbits s = code_bits \<and> hcode s = code then Some i
      else huff_search table (Suc i) code_bits code)"

definition huff_find :: "nat \<Rightarrow> u32 \<Rightarrow> nat option" where
  "huff_find code_bits code = huff_search (take 256 HUFF) 0 code_bits code"

text \<open>
  One bit of the input; \<open>None\<close> is the early return of the empty string after more than thirty
  bits without a match.
\<close>

definition huff_step :: "u32 \<times> nat \<times> bytes \<Rightarrow> bool \<Rightarrow> (u32 \<times> nat \<times> bytes) option" where
  "huff_step st b =
     (case st of (code0, code_bits0, result) \<Rightarrow>
        let code = push_bit 1 code0 OR (if b then 1 else 0); code_bits = Suc code_bits0
        in case huff_find code_bits code of
             Some i \<Rightarrow> Some (0, 0, result @ [of_nat i])
           | None \<Rightarrow> if 30 < code_bits then None else Some (code, code_bits, result))"

fun huff_steps :: "u32 \<times> nat \<times> bytes \<Rightarrow> bool list \<Rightarrow> (u32 \<times> nat \<times> bytes) option" where
  "huff_steps st [] = Some st"
| "huff_steps st (b # bs) = (case huff_step st b of None \<Rightarrow> None | Some st' \<Rightarrow> huff_steps st' bs)"

text \<open>The bits of a byte in the order the decoder reads them, most significant first.\<close>

definition word_bits :: "nat \<Rightarrow> 'a::len word \<Rightarrow> bool list" where
  "word_bits n w = map (bit w) (rev [0..<n])"

definition bits_of :: "bytes \<Rightarrow> bool list" where
  "bits_of data = concat (map (word_bits 8) data)"

definition huffman_decode :: "bytes \<Rightarrow> bytes" where
  "huffman_decode data =
     (case huff_steps (0, 0, []) (bits_of data) of
        None \<Rightarrow> []
      | Some (code, code_bits, result) \<Rightarrow>
          if 7 < code_bits then []
          else if (code AND mask code_bits) \<noteq> mask code_bits then []
          else result)"

section \<open>Bit strings\<close>

definition of_bits :: "bool list \<Rightarrow> u32" where
  "of_bits p = foldl (\<lambda>c b. push_bit 1 c OR (if b then 1 else 0)) 0 p"

lemma of_bits_simps [simp]:
  "of_bits [] = 0"
  "of_bits (p @ [b]) = push_bit 1 (of_bits p) OR (if b then 1 else 0)"
  by (simp_all add: of_bits_def)

lemma length_word_bits [simp]: "length (word_bits n w) = n"
  by (simp add: word_bits_def)

lemma word_bits_0 [simp]: "word_bits 0 w = []"
  by (simp add: word_bits_def)

lemma word_bits_Suc: "word_bits (Suc n) w = bit w n # word_bits n w"
  by (simp add: word_bits_def)

lemma word_bits_add: "word_bits (m + n) w = word_bits m (drop_bit n w) @ word_bits n w"
proof (induction m)
  case (Suc m)
  then show ?case by (simp add: word_bits_Suc bit_drop_bit_eq add.commute)
qed simp

lemma word_bits_snoc: "word_bits (Suc n) w = word_bits n (drop_bit 1 w) @ [bit w 0]"
  using word_bits_add [of n 1 w] by (simp add: word_bits_Suc)

lemma nth_word_bits: "i < n \<Longrightarrow> word_bits n w ! (n - Suc i) = bit w i"
  by (simp add: word_bits_def rev_nth)

lemma word_bits_cong: "(\<And>i. i < n \<Longrightarrow> bit v i = bit w i) \<Longrightarrow> word_bits n v = word_bits n w"
  by (simp add: word_bits_def)

lemma bit_of_bits: "bit (of_bits p) i \<longleftrightarrow> i < 32 \<and> i < length p \<and> p ! (length p - Suc i)"
proof (induction p arbitrary: i rule: rev_induct)
  case Nil
  then show ?case by simp
next
  case (snoc b p)
  show ?case
  proof (cases i)
    case 0
    then show ?thesis by (simp add: bit_0 even_or_iff)
  next
    case (Suc j)
    have "bit (of_bits (p @ [b])) i \<longleftrightarrow> i < 32 \<and> bit (of_bits p) j"
      using Suc bit_double_iff [of "of_bits p" "Suc j"] by (auto simp: bit_simps mult.commute)
    then show ?thesis
      using snoc.IH [of j] Suc by (auto simp: nth_append)
  qed
qed

lemma word_bits_of_bits: "length p \<le> 32 \<Longrightarrow> word_bits (length p) (of_bits p) = p"
  by (rule nth_equalityI) (auto simp: word_bits_def rev_nth bit_of_bits)

lemma of_bits_word_bits:
  assumes "\<And>i. n \<le> i \<Longrightarrow> \<not> bit w i"
  shows "of_bits (word_bits n w) = w"
proof -
  have "i < n" if "bit w i" for i
    using that assms not_less by blast
  then show ?thesis
    by (intro bit_word_eqI) (auto simp: bit_of_bits nth_word_bits)
qed

lemma bits_of_simps [simp]:
  "bits_of [] = []" "bits_of (a @ b) = bits_of a @ bits_of b" "bits_of [x] = word_bits 8 x"
  by (simp_all add: bits_of_def)

lemma length_bits_of [simp, wire_simps]: "length (bits_of w) = 8 * length w"
  by (induction w) (simp_all add: bits_of_def)

section \<open>Codes of the table\<close>

definition huff_code :: "huff_sym \<Rightarrow> bool list" where
  "huff_code s = word_bits (hbits s) (hcode s)"

definition sym_code :: "byte \<Rightarrow> bool list" where
  "sym_code b = huff_code (HUFF ! unat b)"

lemma length_HUFF: "length HUFF = 257"
  by (simp add: HUFF_def)

lemma HUFF_wf: "list_all (\<lambda>s. 5 \<le> hbits s \<and> hbits s \<le> 30 \<and> drop_bit (hbits s) (hcode s) = 0) HUFF"
  by code_simp

lemma HUFF_nth:
  "5 \<le> hbits (HUFF ! unat (b :: byte))" "hbits (HUFF ! unat b) \<le> 30"
  "drop_bit (hbits (HUFF ! unat b)) (hcode (HUFF ! unat b)) = 0"
proof -
  have "unat b < 2 ^ LENGTH(8)" by (rule unsigned_less)
  then have "unat b < length HUFF"
    by (simp add: length_HUFF)
  then have "HUFF ! unat b \<in> set HUFF" by (rule nth_mem)
  with HUFF_wf show "5 \<le> hbits (HUFF ! unat b)" "hbits (HUFF ! unat b) \<le> 30"
    "drop_bit (hbits (HUFF ! unat b)) (hcode (HUFF ! unat b)) = 0"
    by (auto simp: list_all_iff)
qed

lemma high_bits_zero: "drop_bit n w = 0 \<Longrightarrow> n \<le> i \<Longrightarrow> \<not> bit w i"
proof -
  assume "drop_bit n w = 0" and "n \<le> i"
  then have "\<not> bit (drop_bit n w) (i - n)" by simp
  with \<open>n \<le> i\<close> show "\<not> bit w i" by (simp add: bit_drop_bit_eq)
qed

section \<open>The encoder writes the concatenated codes\<close>

lemma word_bits_push:
  fixes buf :: u64 and c :: u32
  assumes "drop_bit k c = 0" and "n + k \<le> 64" and "k \<le> 32"
  shows "word_bits (n + k) (push_bit k buf OR ucast c) = word_bits n buf @ word_bits k c"
proof -
  have hi: "\<not> bit c i" if "k \<le> i" for i
    using high_bits_zero [OF assms(1) that] .
  have "word_bits n (drop_bit k (push_bit k buf OR ucast c)) = word_bits n buf"
    by (rule word_bits_cong) (use assms hi in \<open>auto simp: bit_simps\<close>)
  moreover have "word_bits k (push_bit k buf OR ucast c) = word_bits k c"
  proof -
    have "map (bit (push_bit k buf OR ucast c)) (rev [0..<k]) = map (bit c) (rev [0..<k])"
      using assms by (auto simp: bit_simps dest: bit_imp_le_length)
    then show ?thesis by (simp only: word_bits_def)
  qed
  ultimately show ?thesis by (simp add: word_bits_add)
qed

lemma word_bits_byte: "word_bits 8 (byte_at w k) = word_bits 8 (drop_bit k w)"
  by (auto simp: word_bits_def bit_byte_at bit_drop_bit_eq)

lemma huff_emit_bits:
  assumes "huff_emit buf n out = (n', out')"
  shows "n' < 8 \<and> bits_of out' @ word_bits n' buf = bits_of out @ word_bits n buf"
  using assms
proof (induction buf n out arbitrary: n' out' rule: huff_emit.induct)
  case (1 buf n out)
  show ?case
  proof (cases "8 \<le> n")
    case True
    then have "word_bits n buf = word_bits 8 (drop_bit (n - 8) buf) @ word_bits (n - 8) buf"
      using word_bits_add [of 8 "n - 8" buf] by simp
    then show ?thesis
      using 1 True by (simp add: huff_emit.simps [of buf n out] word_bits_byte)
  next
    case False
    then show ?thesis using 1(2) by (simp add: huff_emit.simps [of buf n out])
  qed
qed

lemma huff_encode_loop_bits:
  assumes "huff_encode_loop input buf n out = (buf', n', out')" and "n < 8"
  shows "n' < 8 \<and> bits_of out' @ word_bits n' buf' =
           bits_of out @ word_bits n buf @ concat (map sym_code input)"
  using assms
proof (induction input arbitrary: buf n out)
  case Nil
  then show ?case by simp
next
  case (Cons ch input)
  define s where "s = HUFF ! unat ch"
  define buf1 where "buf1 = push_bit (hbits s) buf OR ucast (hcode s)"
  obtain n1 out1 where em: "huff_emit buf1 (n + hbits s) out = (n1, out1)" by force
  have "word_bits (n + hbits s) buf1 = word_bits n buf @ sym_code ch"
    unfolding buf1_def sym_code_def huff_code_def s_def
    by (rule word_bits_push) (use HUFF_nth [of ch] Cons.prems(2) in auto)
  with huff_emit_bits [OF em] have
    "n1 < 8 \<and> bits_of out1 @ word_bits n1 buf1 = bits_of out @ word_bits n buf @ sym_code ch"
    by simp
  moreover have "huff_encode_loop input buf1 n1 out1 = (buf', n', out')"
    using Cons.prems(1) em by (simp add: Let_def s_def buf1_def)
  ultimately show ?case using Cons.IH [of buf1 n1 out1] by simp
qed

lemma word_bits_pad:
  fixes buf :: u64
  assumes "0 < n" and "n < 8"
  shows "word_bits 8 (byte_at (push_bit (8 - n) buf OR mask (8 - n)) 0)
           = word_bits n buf @ replicate (8 - n) True"
proof -
  let ?w = "push_bit (8 - n) buf OR mask (8 - n)"
  have "word_bits 8 ?w = word_bits n (drop_bit (8 - n) ?w) @ word_bits (8 - n) ?w"
    using word_bits_add [of n "8 - n" ?w] assms by simp
  moreover have "word_bits n (drop_bit (8 - n) ?w) = word_bits n buf"
    by (rule word_bits_cong) (use assms in \<open>auto simp: bit_simps\<close>)
  moreover have "word_bits (8 - n) ?w = replicate (8 - n) True"
    by (rule nth_equalityI) (use assms in \<open>auto simp: word_bits_def rev_nth bit_simps\<close>)
  ultimately show ?thesis by (simp add: word_bits_byte)
qed

lemma huffman_encode_bits:
  "\<exists>k < 8. bits_of (huffman_encode input) = concat (map sym_code input) @ replicate k True"
proof -
  obtain buf n out where lp: "huff_encode_loop input 0 0 [] = (buf, n, out)"
    using prod_cases3 by blast
  from huff_encode_loop_bits [OF lp] have
    "n < 8" "bits_of out @ word_bits n buf = concat (map sym_code input)" by simp_all
  then show ?thesis
    using lp by (cases "n = 0")
      (auto simp: huffman_encode_def word_bits_pad intro!: exI [of _ "8 - n"] simp flip: append_assoc)
qed

section \<open>Prefix codes\<close>

text \<open>
  Bit-by-bit matching against a lookup function, giving up after thirty bits without a match: what
  the decoder does, over bit strings and symbols instead of words and bytes.
\<close>

fun match_bits :: "(bool list \<Rightarrow> 's option) \<Rightarrow> bool list \<Rightarrow> bool list \<Rightarrow> ('s list \<times> bool list) option"
where
  "match_bits lookup p [] = Some ([], p)"
| "match_bits lookup p (b # bs) =
     (case lookup (p @ [b]) of
        Some s \<Rightarrow> map_option (\<lambda>(ss, q). (s # ss, q)) (match_bits lookup [] bs)
      | None \<Rightarrow> if 30 < Suc (length p) then None else match_bits lookup (p @ [b]) bs)"

locale prefix_code =
  fixes code :: "'s \<Rightarrow> bool list"
    and safe :: "'s \<Rightarrow> bool"
    and lookup :: "bool list \<Rightarrow> 's option"
  assumes code_length: "safe s \<Longrightarrow> 0 < length (code s) \<and> length (code s) \<le> 30"
    and lookup_code: "safe s \<Longrightarrow> lookup (code s) = Some s"
    and lookup_prefix: "safe s \<Longrightarrow> strict_prefix p (code s) \<Longrightarrow> p \<noteq> [] \<Longrightarrow> lookup p = None"
begin

lemma match_code:
  assumes "safe s" and "p @ q = code s" and "q \<noteq> []"
  shows "match_bits lookup p (q @ bs) = map_option (\<lambda>(ss, r). (s # ss, r)) (match_bits lookup [] bs)"
  using assms(2,3)
proof (induction q arbitrary: p)
  case Nil
  then show ?case by simp
next
  case (Cons b q)
  show ?case
  proof (cases "q = []")
    case True
    with Cons.prems show ?thesis by (simp add: lookup_code [OF assms(1)])
  next
    case False
    have split: "code s = (p @ [b]) @ q"
      using Cons.prems(1) by simp
    have "strict_prefix (p @ [b]) (code s)"
      unfolding split using False by (simp add: strict_prefix_def)
    then have "lookup (p @ [b]) = None"
      by (rule lookup_prefix [OF assms(1)]) simp
    moreover have "Suc (length p) \<le> 30"
      using code_length [OF assms(1)] unfolding split by simp
    moreover have "match_bits lookup (p @ [b]) (q @ bs)
        = map_option (\<lambda>(ss, r). (s # ss, r)) (match_bits lookup [] bs)"
      by (rule Cons.IH) (simp_all add: split False)
    ultimately show ?thesis by simp
  qed
qed

lemma match_codes:
  assumes "\<forall>s \<in> set ss. safe s"
  shows "match_bits lookup [] (concat (map code ss) @ bs)
           = map_option (\<lambda>(ts, r). (ss @ ts, r)) (match_bits lookup [] bs)"
  using assms
proof (induction ss)
  case Nil
  then show ?case by (cases "match_bits lookup [] bs") auto
next
  case (Cons s ss)
  then have "match_bits lookup [] (concat (map code (s # ss)) @ bs)
      = map_option (\<lambda>(ts, r). (s # ts, r)) (match_bits lookup [] (concat (map code ss) @ bs))"
    using match_code [of s "[]" "code s"] code_length [of s] by auto
  then show ?case
    using Cons by (simp add: option.map_comp comp_def case_prod_unfold)
qed

end

section \<open>Deciding prefix-freeness\<close>

datatype trie = Lf | Tm | Nd trie trie

fun trie_insert :: "bool list \<Rightarrow> trie \<Rightarrow> trie option" where
  "trie_insert [] Lf = Some Tm"
| "trie_insert (b # bs) Lf =
     (if b then map_option (\<lambda>r. Nd Lf r) (trie_insert bs Lf)
      else map_option (\<lambda>l. Nd l Lf) (trie_insert bs Lf))"
| "trie_insert (b # bs) (Nd l r) =
     (if b then map_option (\<lambda>r. Nd l r) (trie_insert bs r)
      else map_option (\<lambda>l. Nd l r) (trie_insert bs l))"
| "trie_insert _ _ = None"

fun trie_leaf :: "trie \<Rightarrow> bool list \<Rightarrow> bool" where
  "trie_leaf Lf q = False"
| "trie_leaf Tm q = (q = [])"
| "trie_leaf (Nd l r) q = (case q of [] \<Rightarrow> False | b # bs \<Rightarrow> trie_leaf (if b then r else l) bs)"

fun trie_build :: "bool list list \<Rightarrow> trie \<Rightarrow> bool" where
  "trie_build [] t = True"
| "trie_build (x # xs) t = (case trie_insert x t of None \<Rightarrow> False | Some t' \<Rightarrow> trie_build xs t')"

lemma trie_insert_leaf:
  "trie_insert p t = Some t' \<Longrightarrow> trie_leaf t' q \<longleftrightarrow> q = p \<or> trie_leaf t q"
  by (induction p t arbitrary: t' q rule: trie_insert.induct)
     (auto split: if_splits list.splits)

lemma trie_insert_incomparable:
  "trie_insert p t = Some t' \<Longrightarrow> trie_leaf t q \<Longrightarrow> \<not> prefix p q \<and> \<not> prefix q p"
  by (induction p t arbitrary: t' q rule: trie_insert.induct)
     (auto split: if_splits list.splits)

lemma trie_build_incomparable:
  "trie_build (map f xs) t \<Longrightarrow> distinct xs \<Longrightarrow>
   (\<forall>x \<in> set xs. \<forall>q. trie_leaf t q \<longrightarrow> \<not> prefix (f x) q \<and> \<not> prefix q (f x)) \<and>
   (\<forall>x \<in> set xs. \<forall>y \<in> set xs. x \<noteq> y \<longrightarrow> \<not> prefix (f x) (f y))"
proof (induction xs arbitrary: t)
  case Nil
  then show ?case by simp
next
  case (Cons x xs)
  then obtain t' where t': "trie_insert (f x) t = Some t'" and b: "trie_build (map f xs) t'"
    by (auto split: option.splits)
  from Cons.IH [OF b] Cons.prems(2) trie_insert_leaf [OF t'] trie_insert_incomparable [OF t']
  show ?case by auto
qed

section \<open>The table as a prefix code\<close>

text \<open>A symbol is unsafe if its code starts with the code of symbol 123, \<^verbatim>\<open>0x7fffe\<close> of 19 bits.\<close>

definition unsafe_entry :: "huff_sym \<Rightarrow> bool" where
  "unsafe_entry s \<longleftrightarrow> hbits s = 23 \<and> drop_bit 4 (hcode s) = 0x7fffe"

definition huff_safe :: "byte \<Rightarrow> bool" where
  "huff_safe b \<longleftrightarrow> \<not> unsafe_entry (HUFF ! unat b)"

fun indexed :: "byte \<Rightarrow> 'a list \<Rightarrow> (byte \<times> 'a) list" where
  "indexed b [] = []"
| "indexed b (x # xs) = (b, x) # indexed (b + 1) xs"

lemma indexed_zip: "indexed b xs = zip (map (\<lambda>i. b + of_nat i) [0..<length xs]) xs"
proof (induction xs arbitrary: b)
  case (Cons x xs)
  have "map (\<lambda>i. b + of_nat i) [0..<Suc (length xs)] = b # map (\<lambda>i. b + 1 + of_nat i) [0..<length xs]"
    by (simp add: upt_conv_Cons map_Suc_upt [symmetric] add.assoc del: upt_Suc)
  with Cons show ?case by simp
qed simp

definition huff_entries :: "(byte \<times> huff_sym) list" where
  "huff_entries = indexed 0 (take 256 HUFF)"

lemma safe_entries_incomparable:
  "trie_build (map (\<lambda>e. huff_code (snd e)) (filter (\<lambda>e. \<not> unsafe_entry (snd e)) huff_entries)) Lf"
  by code_simp

lemma symbol_123: "HUFF ! 123 = HUFF_ENTRY 0x7fffe 19"
  by (simp add: HUFF_def)

lemma padding_not_a_code: "list_all (\<lambda>k. huff_find k (of_bits (replicate k True)) = None) [1..<8]"
  by code_simp

lemma unsafe_entries: "map fst (filter (\<lambda>e. unsafe_entry (snd e)) huff_entries) =
    [147, 149, 150, 151, 152, 155, 157, 158, 165, 166, 168, 174, 175, 180, 182, 183]"
  by code_simp

lemma huff_entries_zip: "huff_entries = zip (map of_nat [0..<256]) (take 256 HUFF)"
  by (simp add: huff_entries_def indexed_zip length_HUFF)

lemma byte_less_256: "unat (b :: byte) < 256"
proof -
  have "unat b < 2 ^ LENGTH(8)" by (rule unsigned_less)
  then show ?thesis by simp
qed

lemma unat_of_nat_byte: "i < 256 \<Longrightarrow> unat (of_nat i :: byte) = i"
  by (simp add: unat_of_nat)

lemma in_huff_entries: "(b, s) \<in> set huff_entries \<longleftrightarrow> s = HUFF ! unat b"
proof
  assume "(b, s) \<in> set huff_entries"
  then show "s = HUFF ! unat b"
    by (auto simp: huff_entries_zip in_set_zip length_HUFF unat_of_nat_byte)
next
  assume "s = HUFF ! unat b"
  then show "(b, s) \<in> set huff_entries"
    using byte_less_256 [of b]
    by (auto simp: huff_entries_zip in_set_zip length_HUFF intro!: exI [of _ "unat b"])
qed

lemma distinct_huff_entries: "distinct huff_entries"
proof -
  have "inj_on (of_nat :: nat \<Rightarrow> byte) {0..<256}"
    by (rule inj_on_inverseI [of _ unat]) (simp add: unat_of_nat_byte)
  then have "distinct (map (of_nat :: nat \<Rightarrow> byte) [0..<256])"
    by (simp add: distinct_map)
  then show ?thesis
    by (simp only: huff_entries_zip distinct_zipI1)
qed

lemma huff_safe_iff:
  "huff_safe b \<longleftrightarrow> b \<notin> {147, 149, 150, 151, 152, 155, 157, 158, 165, 166, 168, 174, 175, 180, 182, 183}"
proof -
  have "\<not> huff_safe b \<longleftrightarrow> b \<in> set (map fst (filter (\<lambda>e. unsafe_entry (snd e)) huff_entries))"
    by (auto simp: huff_safe_def in_huff_entries image_iff)
  then show ?thesis by (simp only: unsafe_entries) auto
qed

lemma safe_codes_incomparable:
  assumes "huff_safe a" and "huff_safe b" and "prefix (sym_code a) (sym_code b)"
  shows "a = b"
proof (rule ccontr)
  assume "a \<noteq> b"
  have "distinct (filter (\<lambda>e. \<not> unsafe_entry (snd e)) huff_entries)"
    using distinct_huff_entries by simp
  from trie_build_incomparable [OF safe_entries_incomparable this]
  have "\<not> prefix (huff_code (HUFF ! unat a)) (huff_code (HUFF ! unat b))"
    using assms(1,2) \<open>a \<noteq> b\<close> in_huff_entries by (force simp: huff_safe_def)
  with assms(3) show False by (simp add: sym_code_def)
qed

lemma unsafe_code_extends:
  assumes "\<not> huff_safe b"
  shows "\<exists>q. sym_code b = sym_code 123 @ q \<and> q \<noteq> []"
proof -
  have u: "hbits (HUFF ! unat b) = 23" "drop_bit 4 (hcode (HUFF ! unat b)) = 0x7fffe"
    using assms by (auto simp: huff_safe_def unsafe_entry_def)
  have "sym_code b = word_bits 19 (drop_bit 4 (hcode (HUFF ! unat b))) @ word_bits 4 (hcode (HUFF ! unat b))"
    using word_bits_add [of 19 4 "hcode (HUFF ! unat b)"] by (simp add: sym_code_def huff_code_def u(1))
  also have "word_bits 19 (drop_bit 4 (hcode (HUFF ! unat b))) = sym_code 123"
    unfolding u(2) by (simp add: sym_code_def huff_code_def symbol_123)
  finally have "sym_code b = sym_code 123 @ word_bits 4 (hcode (HUFF ! unat b))" .
  moreover have "word_bits 4 (hcode (HUFF ! unat b)) \<noteq> []"
    by (metis length_0_conv length_word_bits zero_neq_numeral)
  ultimately show ?thesis by blast
qed

lemma huff_safe_123: "huff_safe 123"
  by (simp add: huff_safe_iff)

lemma safe_code_prefix_free:
  assumes "huff_safe s" and "prefix (sym_code b) (sym_code s)"
  shows "b = s"
proof (cases "huff_safe b")
  case True
  then show ?thesis using assms by (rule safe_codes_incomparable)
next
  case False
  then obtain q where q: "sym_code b = sym_code 123 @ q" "q \<noteq> []"
    using unsafe_code_extends by blast
  with assms(2) have "prefix (sym_code 123) (sym_code s)"
    by (metis append_prefixD)
  then have "s = 123" using safe_codes_incomparable huff_safe_123 assms(1) by metis
  with assms(2) q show ?thesis
    by (metis append_Nil2 same_prefix_prefix prefix_Nil)
qed

section \<open>Table lookup\<close>

definition huff_lookup :: "bool list \<Rightarrow> byte option" where
  "huff_lookup p = map_option of_nat (huff_find (length p) (of_bits p))"

lemma huff_search_Some:
  "huff_search t i n c = Some j \<Longrightarrow>
     i \<le> j \<and> j < i + length t \<and> hbits (t ! (j - i)) = n \<and> hcode (t ! (j - i)) = c"
proof (induction t arbitrary: i)
  case Nil
  then show ?case by simp
next
  case (Cons s t)
  show ?case
  proof (cases "hbits s = n \<and> hcode s = c")
    case True
    with Cons.prems show ?thesis by simp
  next
    case False
    then have "Suc i \<le> j \<and> j < Suc i + length t \<and>
        hbits (t ! (j - Suc i)) = n \<and> hcode (t ! (j - Suc i)) = c"
      using Cons.IH [of "Suc i"] Cons.prems by (simp split: if_splits)
    then show ?thesis by (auto simp: nth_Cons')
  qed
qed

lemma huff_search_None:
  "huff_search t i n c = None \<longleftrightarrow> (\<forall>s \<in> set t. \<not> (hbits s = n \<and> hcode s = c))"
  by (induction t arbitrary: i) auto

lemma huff_lookup_Some:
  assumes "huff_lookup p = Some b" and "length p \<le> 32"
  shows "sym_code b = p"
proof -
  obtain j where j: "huff_search (take 256 HUFF) 0 (length p) (of_bits p) = Some j" "b = of_nat j"
    using assms(1) by (auto simp: huff_lookup_def huff_find_def)
  from huff_search_Some [OF j(1)] have "j < 256" by (simp add: length_HUFF)
  with huff_search_Some [OF j(1)] have "hbits (HUFF ! j) = length p" "hcode (HUFF ! j) = of_bits p"
    by simp_all
  then show ?thesis
    using assms(2) \<open>j < 256\<close>
    by (simp add: sym_code_def huff_code_def j(2) unat_of_nat_byte word_bits_of_bits)
qed

lemma huff_lookup_code: "huff_lookup (sym_code b) \<noteq> None"
proof
  assume "huff_lookup (sym_code b) = None"
  then have none: "\<forall>s \<in> set (take 256 HUFF). \<not> (hbits s = length (sym_code b) \<and> hcode s = of_bits (sym_code b))"
    by (simp add: huff_lookup_def huff_find_def huff_search_None)
  have "HUFF ! unat b \<in> set (take 256 HUFF)"
    using byte_less_256 [of b] by (auto simp: in_set_conv_nth length_HUFF intro!: exI [of _ "unat b"])
  moreover have "of_bits (sym_code b) = hcode (HUFF ! unat b)"
    unfolding sym_code_def huff_code_def
    by (rule of_bits_word_bits) (rule high_bits_zero [OF HUFF_nth(3)])
  moreover have "hbits (HUFF ! unat b) = length (sym_code b)"
    by (simp add: sym_code_def huff_code_def)
  ultimately show False
    using none by metis
qed

interpretation huff: prefix_code sym_code huff_safe huff_lookup
proof unfold_locales
  fix s :: byte assume safe: "huff_safe s"
  have len: "0 < length (sym_code s)" "length (sym_code s) \<le> 30"
    using HUFF_nth(1,2) [of s] by (simp_all add: sym_code_def huff_code_def)
  then show "0 < length (sym_code s) \<and> length (sym_code s) \<le> 30" by simp
  obtain b where b: "huff_lookup (sym_code s) = Some b"
    using huff_lookup_code by blast
  then have "sym_code b = sym_code s" using huff_lookup_Some len by simp
  then have "b = s" using safe_code_prefix_free [OF safe, of b] by simp
  with b show "huff_lookup (sym_code s) = Some s" by simp
  fix p assume p: "strict_prefix p (sym_code s)"
  show "huff_lookup p = None"
  proof (rule ccontr)
    assume "huff_lookup p \<noteq> None"
    then obtain c where c: "huff_lookup p = Some c" by blast
    have "length p < length (sym_code s)" using p by (rule prefix_length_less)
    then have "sym_code c = p" using huff_lookup_Some [OF c] len by simp
    with p safe_code_prefix_free [OF safe, of c] show False
      by (auto simp: strict_prefix_def)
  qed
qed

section \<open>The decoder\<close>

lemma huff_steps_match:
  "huff_steps (of_bits p, length p, res) bs =
     map_option (\<lambda>(ss, q). (of_bits q, length q, res @ ss)) (match_bits huff_lookup p bs)"
proof (induction bs arbitrary: p res)
  case Nil
  then show ?case by simp
next
  case (Cons b bs)
  have step: "huff_step (of_bits p, length p, res) b =
      (case huff_lookup (p @ [b]) of
         Some s \<Rightarrow> Some (0, 0, res @ [s])
       | None \<Rightarrow> if 30 < Suc (length p) then None else Some (of_bits (p @ [b]), length (p @ [b]), res))"
    by (simp add: huff_step_def huff_lookup_def split: option.splits)
  note IH = Cons.IH [of "p @ [b]" res] Cons.IH [of "[]"]
  show ?case
  proof (cases "huff_lookup (p @ [b])")
    case None
    then show ?thesis using IH(1) by (simp add: step del: of_bits_simps)
  next
    case (Some s)
    then show ?thesis
      using IH(2) [of "res @ [s]"]
      by (simp add: step option.map_comp comp_def case_prod_unfold del: of_bits_simps(2))
  qed
qed

lemma of_bits_ones: "k \<le> 32 \<Longrightarrow> of_bits (replicate k True) = mask k"
  by (rule bit_word_eqI) (auto simp: bit_of_bits bit_mask_iff)

lemma match_padding:
  "j + k < 8 \<Longrightarrow> match_bits huff_lookup (replicate j True) (replicate k True) = Some ([], replicate (j + k) True)"
proof (induction k arbitrary: j)
  case 0
  then show ?case by simp
next
  case (Suc k)
  have "huff_find (Suc j) (of_bits (replicate (Suc j) True)) = None"
    using padding_not_a_code Suc.prems unfolding list_all_iff by (auto simp del: replicate_Suc)
  then have "huff_lookup (replicate (Suc j) True) = None"
    by (simp add: huff_lookup_def del: replicate_Suc)
  then show ?case
    using Suc.IH [of "Suc j"] Suc.prems by (simp add: replicate_append_same)
qed

lemma huffman_decode_match:
  "huffman_decode data =
     (case match_bits huff_lookup [] (bits_of data) of
        None \<Rightarrow> []
      | Some (ss, q) \<Rightarrow> if 7 < length q \<or> (of_bits q AND mask (length q)) \<noteq> mask (length q) then [] else ss)"
  using huff_steps_match [of "[]" "[]" "bits_of data"]
  by (auto simp: huffman_decode_def split: option.splits)

lemma huffman_decode_encode:
  assumes "\<forall>b \<in> set input. huff_safe b"
  shows "huffman_decode (huffman_encode input) = input"
proof -
  obtain k where k: "k < 8" "bits_of (huffman_encode input) = concat (map sym_code input) @ replicate k True"
    using huffman_encode_bits by blast
  have "match_bits huff_lookup [] (bits_of (huffman_encode input)) = Some (input, replicate k True)"
    using match_padding [of 0 k] k by (simp add: huff.match_codes [OF assms])
  then show ?thesis
    using k(1) by (simp add: huffman_decode_match of_bits_ones)
qed

lemma huffman_decode_unsafe:
  assumes "\<not> huff_safe b"
  shows "huffman_decode (huffman_encode (b # input)) = [] \<or>
         (\<exists>out. huffman_decode (huffman_encode (b # input)) = 123 # out)"
proof -
  obtain k where k: "bits_of (huffman_encode (b # input)) = concat (map sym_code (b # input)) @ replicate k True"
    using huffman_encode_bits by blast
  obtain q where q: "sym_code b = sym_code 123 @ q" using unsafe_code_extends [OF assms] by blast
  have "\<exists>rest. bits_of (huffman_encode (b # input)) = concat (map sym_code [123]) @ rest"
    using k q by simp
  then obtain rest where "match_bits huff_lookup [] (bits_of (huffman_encode (b # input)))
      = map_option (\<lambda>(ts, r). ([123] @ ts, r)) (match_bits huff_lookup [] rest)"
    using huff.match_codes [of "[123]"] huff_safe_123 by auto
  then show ?thesis
    by (auto simp: huffman_decode_match split: option.splits)
qed

section \<open>Correctness of the coder\<close>

lemma length_sym_codes:
  "length (concat (map sym_code input)) = sum_list (map (\<lambda>ch. hbits (HUFF ! unat ch)) input)"
  by (induction input) (simp_all add: sym_code_def huff_code_def)

lemma length_huffman_encode [wire_simps]:
  "length (huffman_encode input) = (sum_list (map (\<lambda>ch. hbits (HUFF ! unat ch)) input) + 7) div 8"
proof -
  obtain k where k: "k < 8" "bits_of (huffman_encode input) = concat (map sym_code input) @ replicate k True"
    using huffman_encode_bits by blast
  from arg_cong [OF k(2), of length]
  have "8 * length (huffman_encode input) = sum_list (map (\<lambda>ch. hbits (HUFF ! unat ch)) input) + k"
    by (simp add: length_sym_codes)
  then show ?thesis using k(1) by linarith
qed

lemma huffman_is_shorter_iff: "huffman_is_shorter input \<longleftrightarrow> length (huffman_encode input) < length input"
  by (simp add: huffman_is_shorter_def length_huffman_encode)

text \<open>the word-level encoder writes exactly the concatenation of the symbols' codes, padded with
  fewer than eight one bits to a whole number of bytes, and \<^verbatim>\<open>huffman_is_shorter\<close> predicts its
  length.\<close>

theorem huffman_encode_refines:
  "(\<exists>k < 8. bits_of (huffman_encode input) = concat (map sym_code input) @ replicate k True) \<and>
   (huffman_is_shorter input = (length (huffman_encode input) < length input))"
  using huffman_encode_bits huffman_is_shorter_iff by blast

text \<open>C22: Decoding inverts encoding on every string without the sixteen unsafe bytes, in
  particular on every string of bytes below 128.\<close>

theorem huffman_round_trip:
  assumes "\<forall>b \<in> set input. b \<notin> {147, 149, 150, 151, 152, 155, 157, 158, 165, 166, 168, 174, 175, 180, 182, 183}"
  shows "huffman_decode (huffman_encode input) = input"
  using assms by (intro huffman_decode_encode) (simp add: huff_safe_iff)

theorem huffman_round_trip_witness:
  "huffman_decode (huffman_encode (str ''www.example.com'')) = str ''www.example.com''"
  by (rule huffman_round_trip) simp

text \<open>on the sixteen other bytes the coder is wrong: a string that starts with one of them never
  decodes to itself, since the decoder reads the first bits as symbol 123.  The cause is the table
  entry of symbol 123, which has 19 bits where the other codes leave room for 15 only.\<close>

theorem huffman_table_defect:
  "b \<in> {147, 149, 150, 151, 152, 155, 157, 158, 165, 166, 168, 174, 175, 180, 182, 183}
     \<longleftrightarrow> huffman_decode (huffman_encode [b]) \<noteq> [b]"
proof -
  have "huffman_decode (huffman_encode [b]) \<noteq> [b]" if "\<not> huff_safe b"
    using huffman_decode_unsafe [OF that, of "[]"] that huff_safe_123 by auto
  moreover have "huffman_decode (huffman_encode [b]) = [b]" if "huff_safe b"
    using huffman_decode_encode [of "[b]"] that by simp
  ultimately show ?thesis unfolding huff_safe_iff by blast
qed

end
