(* ===== verification/Hpack.thy ===== *)
theory Hpack
  imports Huffman
begin

text \<open>
  HPACK header compression, \<^verbatim>\<open>src/http/hpack.hpp\<close> and \<^verbatim>\<open>src/http/hpack.cpp\<close>: prefix integers,
  string literals, the static and the dynamic table, the encoder and the decoder.

  Integers read from a header block are 64-bit words, so the sums and comparisons of the source
  wrap here as they do there.  A decoder run ends in an error value where the C++ run has no
  defined result.
\<close>

section \<open>Prefix integers (RFC 7541, section 5.1)\<close>

text \<open>
  The encoder writes into a buffer of \<open>bufsize\<close> bytes and returns how many it wrote, zero on
  overflow; here it returns the bytes written.  \<open>mask\<close> is \<^verbatim>\<open>(1 << prefix_bits) - 1\<close>.
\<close>

function hpack_encode_int_loop :: "nat \<Rightarrow> u64 \<Rightarrow> bytes \<Rightarrow> bytes" where
  "hpack_encode_int_loop bufsize value buf =
     (if 128 \<le> value then
        (if bufsize \<le> length buf then []
         else hpack_encode_int_loop bufsize (drop_bit 7 value) (buf @ [ucast ((value AND 0x7F) OR 0x80)]))
      else if bufsize \<le> length buf then []
      else buf @ [ucast value])"
  by pat_completeness auto
termination
  by (relation "measure (\<lambda>(bufsize, _, buf). bufsize - length buf)") auto

declare hpack_encode_int_loop.simps [simp del]

definition hpack_encode_int :: "nat \<Rightarrow> u64 \<Rightarrow> nat \<Rightarrow> byte \<Rightarrow> bytes" where
  "hpack_encode_int bufsize value prefix_bits first_byte_mask =
     (if bufsize = 0 then []
      else let max_prefix = (mask prefix_bits :: byte)
           in if value < ucast max_prefix then [first_byte_mask OR ucast value]
              else hpack_encode_int_loop bufsize (value - ucast max_prefix) [first_byte_mask OR max_prefix])"

text \<open>
  The decoder returns the bytes consumed, zero on a truncated integer, and the value.  Shifting by
  64 or more is undefined.
\<close>

fun hpack_decode_int_loop :: "bytes \<Rightarrow> nat \<Rightarrow> u64 \<Rightarrow> nat \<Rightarrow> (nat \<times> u64) res" where
  "hpack_decode_int_loop [] pos value m = Inr (0, value)"
| "hpack_decode_int_loop (b # buf) pos value m =
     (if 64 \<le> m then Inl Undefined_Behaviour
      else let value' = value + push_bit m (ucast (b AND 0x7F))
           in if b AND 0x80 \<noteq> 0 then hpack_decode_int_loop buf (Suc pos) value' (m + 7)
              else Inr (Suc pos, value'))"

fun hpack_decode_int :: "bytes \<Rightarrow> nat \<Rightarrow> (nat \<times> u64) res" where
  "hpack_decode_int [] prefix_bits = Inr (0, 0)"
| "hpack_decode_int (b # buf) prefix_bits =
     (let max_prefix = (mask prefix_bits :: byte); value = b AND max_prefix
      in if value < max_prefix then Inr (1, ucast value)
         else hpack_decode_int_loop buf 1 (ucast value) 0)"

section \<open>Static table\<close>

type_synonym hpack_entry = "bytes \<times> bytes"

definition hpack_static_table :: "hpack_entry list" where
  "hpack_static_table = map (\<lambda>(n, v). (str n, str v)) [
     ('''', ''''),
     ('':authority'', ''''),
     ('':method'', ''GET''),
     ('':method'', ''POST''),
     ('':path'', ''/''),
     ('':path'', ''/index.html''),
     ('':scheme'', ''http''),
     ('':scheme'', ''https''),
     ('':status'', ''200''),
     ('':status'', ''204''),
     ('':status'', ''206''),
     ('':status'', ''304''),
     ('':status'', ''400''),
     ('':status'', ''404''),
     ('':status'', ''500''),
     (''accept-charset'', ''''),
     (''accept-encoding'', ''gzip, deflate''),
     (''accept-language'', ''''),
     (''accept-ranges'', ''''),
     (''accept'', ''''),
     (''access-control-allow-origin'', ''''),
     (''age'', ''''),
     (''allow'', ''''),
     (''authorization'', ''''),
     (''cache-control'', ''''),
     (''content-disposition'', ''''),
     (''content-encoding'', ''''),
     (''content-language'', ''''),
     (''content-length'', ''''),
     (''content-location'', ''''),
     (''content-range'', ''''),
     (''content-type'', ''''),
     (''cookie'', ''''),
     (''date'', ''''),
     (''etag'', ''''),
     (''expect'', ''''),
     (''expires'', ''''),
     (''from'', ''''),
     (''host'', ''''),
     (''if-match'', ''''),
     (''if-modified-since'', ''''),
     (''if-none-match'', ''''),
     (''if-range'', ''''),
     (''if-unmodified-since'', ''''),
     (''last-modified'', ''''),
     (''link'', ''''),
     (''location'', ''''),
     (''max-forwards'', ''''),
     (''proxy-authenticate'', ''''),
     (''proxy-authorization'', ''''),
     (''range'', ''''),
     (''referer'', ''''),
     (''refresh'', ''''),
     (''retry-after'', ''''),
     (''server'', ''''),
     (''set-cookie'', ''''),
     (''strict-transport-security'', ''''),
     (''transfer-encoding'', ''''),
     (''user-agent'', ''''),
     (''vary'', ''''),
     (''via'', ''''),
     (''www-authenticate'', '''')]"

fun find_entry :: "hpack_entry list \<Rightarrow> nat \<Rightarrow> nat \<Rightarrow> bytes \<Rightarrow> bytes \<Rightarrow> nat \<times> bool" where
  "find_entry [] i name_match name value = (name_match, False)"
| "find_entry (e # table) i name_match name value =
     (if fst e = name then
        (if snd e = value then (i, True)
         else find_entry table (Suc i) (if name_match = 0 then i else name_match) name value)
      else find_entry table (Suc i) name_match name value)"

definition hpack_find_static :: "bytes \<Rightarrow> bytes \<Rightarrow> nat \<times> bool" where
  "hpack_find_static name value = find_entry (tl hpack_static_table) 1 0 name value"

section \<open>Dynamic table\<close>

text \<open>The head of \<open>dt_entries\<close> is the front of the deque, the newest entry.\<close>

record hpack_dynamic_table =
  dt_max_size :: nat
  dt_current_size :: nat
  dt_entries :: "hpack_entry list"

definition hpack_dynamic_table_new :: "nat \<Rightarrow> hpack_dynamic_table" where
  "hpack_dynamic_table_new max_size = \<lparr>dt_max_size = max_size, dt_current_size = 0, dt_entries = []\<rparr>"

definition entry_size :: "hpack_entry \<Rightarrow> nat" where
  "entry_size e = length (fst e) + length (snd e) + 32"

definition dt_evict :: "hpack_dynamic_table \<Rightarrow> hpack_dynamic_table" where
  "dt_evict t =
     (if dt_entries t = [] then t
      else t\<lparr>dt_current_size := dt_current_size t - entry_size (last (dt_entries t)),
             dt_entries := butlast (dt_entries t)\<rparr>)"

function dt_evict_for :: "nat \<Rightarrow> hpack_dynamic_table \<Rightarrow> hpack_dynamic_table" where
  "dt_evict_for esz t =
     (if dt_max_size t < dt_current_size t + esz \<and> dt_entries t \<noteq> []
      then dt_evict_for esz (dt_evict t) else t)"
  by pat_completeness auto
termination
  by (relation "measure (\<lambda>(_, t). length (dt_entries t))") (auto simp: dt_evict_def)

declare dt_evict_for.simps [simp del]

definition dt_add :: "hpack_entry \<Rightarrow> hpack_dynamic_table \<Rightarrow> hpack_dynamic_table" where
  "dt_add e t =
     (let esz = entry_size e; t' = dt_evict_for esz t
      in if esz \<le> dt_max_size t'
         then t'\<lparr>dt_entries := e # dt_entries t', dt_current_size := dt_current_size t' + esz\<rparr>
         else t')"

definition dt_resize :: "nat \<Rightarrow> hpack_dynamic_table \<Rightarrow> hpack_dynamic_table" where
  "dt_resize new_max_size t = dt_evict_for 0 (t\<lparr>dt_max_size := new_max_size\<rparr>)"

definition dt_get :: "hpack_dynamic_table \<Rightarrow> nat \<Rightarrow> hpack_entry option" where
  "dt_get t index =
     (if index = 0 \<or> length (dt_entries t) < index then None else Some (dt_entries t ! (index - 1)))"

definition dt_find :: "hpack_dynamic_table \<Rightarrow> bytes \<Rightarrow> bytes \<Rightarrow> nat \<times> bool" where
  "dt_find t name value = find_entry (dt_entries t) 1 0 name value"

section \<open>String literals (RFC 7541, section 5.2)\<close>

definition encode_string :: "bytes \<Rightarrow> bytes" where
  "encode_string s =
     (if huffman_is_shorter s
      then (let encoded = huffman_encode s
            in hpack_encode_int 16 (of_nat (length encoded)) 7 0x80 @ encoded)
      else hpack_encode_int 16 (of_nat (length s)) 7 0x00 @ s)"

text \<open>
  The bound check \<^verbatim>\<open>consumed + str_len > len\<close> is computed modulo \<open>2 ^ 64\<close>.  Where it passes for a
  length that exceeds the buffer, the Huffman decoder reads past the end and \<^verbatim>\<open>std::string::assign\<close>
  throws.
\<close>

definition decode_string :: "bytes \<Rightarrow> (bytes \<times> nat) res" where
  "decode_string data =
     (if data = [] then Inr ([], 0)
      else let huffman = (hd data AND 0x80 \<noteq> 0)
           in bindE (hpack_decode_int data 7) (\<lambda>(consumed, str_len).
                if consumed = 0 \<or> of_nat (length data) < of_nat consumed + str_len then Inr ([], 0)
                else if int (length data) < int consumed + uint str_len then
                  Inl (if huffman then Undefined_Behaviour else Length_Error)
                else if 2 ^ 31 \<le> int consumed + uint str_len then Inl Int_Narrowing
                else let raw = take (unat str_len) (drop consumed data)
                     in Inr (if huffman then huffman_decode raw else raw, consumed + unat str_len)))"

section \<open>Encoder\<close>

record hpack_encoder =
  en_table :: hpack_dynamic_table
  en_max_table_size :: nat
  en_table_size_updated :: bool

definition hpack_encoder_new :: "nat \<Rightarrow> hpack_encoder" where
  "hpack_encoder_new max_table_size =
     \<lparr>en_table = hpack_dynamic_table_new max_table_size, en_max_table_size = max_table_size,
      en_table_size_updated = False\<rparr>"

definition hpack_encoder_set_max :: "nat \<Rightarrow> hpack_encoder \<Rightarrow> hpack_encoder" where
  "hpack_encoder_set_max sz e =
     e\<lparr>en_max_table_size := sz, en_table := dt_resize sz (en_table e), en_table_size_updated := True\<rparr>"

definition encode_header :: "hpack_entry \<Rightarrow> bytes" where
  "encode_header h =
     (let (static_idx, static_exact) = hpack_find_static (fst h) (snd h)
      in if static_exact then hpack_encode_int 16 (of_nat static_idx) 7 0x80
         else hpack_encode_int 16 0 4 0x00 @ encode_string (fst h) @ encode_string (snd h))"

definition hpack_encode :: "hpack_entry list \<Rightarrow> hpack_encoder \<Rightarrow> bytes \<times> hpack_encoder" where
  "hpack_encode headers e =
     ((if en_table_size_updated e
       then hpack_encode_int 16 (of_nat (en_max_table_size e)) 5 0x20 else [])
        @ concat (map encode_header headers),
      e\<lparr>en_table_size_updated := False\<rparr>)"

section \<open>Decoder\<close>

record hpack_decoder =
  de_table :: hpack_dynamic_table
  de_max_table_size :: nat

definition hpack_decoder_new :: "nat \<Rightarrow> hpack_decoder" where
  "hpack_decoder_new max_table_size =
     \<lparr>de_table = hpack_dynamic_table_new max_table_size, de_max_table_size = max_table_size\<rparr>"

definition hpack_decoder_set_max :: "nat \<Rightarrow> hpack_decoder \<Rightarrow> hpack_decoder" where
  "hpack_decoder_set_max sz d = d\<lparr>de_max_table_size := sz, de_table := dt_resize sz (de_table d)\<rparr>"

definition get_indexed :: "hpack_dynamic_table \<Rightarrow> u64 \<Rightarrow> hpack_entry option" where
  "get_indexed t index =
     (if 0 < index \<and> index < of_nat (length hpack_static_table)
      then Some (hpack_static_table ! unat index)
      else dt_get t (unat (index - of_nat (length hpack_static_table))))"

text \<open>
  A literal field: the name by index or as a string, then the value.  \<open>None\<close> is the early return
  of the empty list.
\<close>

definition decode_literal :: "nat \<Rightarrow> hpack_dynamic_table \<Rightarrow> bytes \<Rightarrow> (hpack_entry \<times> nat) option res" where
  "decode_literal prefix_bits t data =
     bindE (hpack_decode_int data prefix_bits) (\<lambda>(consumed, name_index).
       if consumed = 0 then Inr None
       else bindE
         (if 0 < name_index then Inr (map_option (\<lambda>e. (fst e, consumed)) (get_indexed t name_index))
          else bindE (decode_string (drop consumed data)) (\<lambda>(s, c).
                 Inr (if c = 0 then None else Some (s, consumed + c))))
         (\<lambda>r. case r of
            None \<Rightarrow> Inr None
          | Some (name, pos) \<Rightarrow>
              bindE (decode_string (drop pos data)) (\<lambda>(s, c).
                Inr (if c = 0 then None else Some ((name, s), pos + c)))))"

lemma hpack_decode_int_loop_pos:
  "hpack_decode_int_loop buf pos v m = Inr (c, w) \<Longrightarrow> c = 0 \<or> pos < c \<and> c \<le> pos + length buf"
  by (induction buf pos v m rule: hpack_decode_int_loop.induct)
     (auto simp: Let_def split: if_splits)

lemma hpack_decode_int_pos:
  "hpack_decode_int data p = Inr (c, w) \<Longrightarrow> c \<le> length data"
  using hpack_decode_int_loop_pos [of "tl data" 1]
  by (cases data) (force simp: Let_def split: if_splits)+

lemma decode_literal_pos:
  "decode_literal p t data = Inr (Some (h, n)) \<Longrightarrow> 0 < n"
  by (auto simp: decode_literal_def bindE_eq_Inr_iff split: if_splits option.splits prod.splits)

text \<open>
  The loop over the fields of a header block.  New entries are collected and enter the table when
  the whole block has been decoded; a failed block returns no headers but keeps the resizes done
  so far.
\<close>

function hpack_decode_loop ::
  "hpack_dynamic_table \<Rightarrow> bytes \<Rightarrow> hpack_entry list \<Rightarrow> hpack_entry list
   \<Rightarrow> (hpack_entry list \<times> hpack_dynamic_table) res"
where
  "hpack_decode_loop t data result new_entries =
     (if data = [] then Inr (result, fold dt_add new_entries t)
      else if hd data AND 0x80 \<noteq> 0 then
        bindE (hpack_decode_int data 7) (\<lambda>(consumed, index).
          if consumed = 0 \<or> index = 0 then Inr ([], t)
          else case get_indexed t index of
                 None \<Rightarrow> Inr ([], t)
               | Some e \<Rightarrow> hpack_decode_loop t (drop consumed data) (result @ [e]) new_entries)
      else if hd data AND 0x40 \<noteq> 0 then
        bindE (decode_literal 6 t data) (\<lambda>r. case r of
            None \<Rightarrow> Inr ([], t)
          | Some (e, n) \<Rightarrow> hpack_decode_loop t (drop n data) (result @ [e]) (new_entries @ [e]))
      else if hd data AND 0x20 \<noteq> 0 then
        bindE (hpack_decode_int data 5) (\<lambda>(consumed, new_size).
          if consumed = 0 then Inr ([], t)
          else hpack_decode_loop (dt_resize (unat new_size) t) (drop consumed data) result new_entries)
      else
        bindE (decode_literal 4 t data) (\<lambda>r. case r of
            None \<Rightarrow> Inr ([], t)
          | Some (e, n) \<Rightarrow> hpack_decode_loop t (drop n data) (result @ [e]) new_entries))"
  by pat_completeness auto
termination
  by (relation "measure (\<lambda>(_, data, _, _). length data)")
     (auto dest: decode_literal_pos)

declare hpack_decode_loop.simps [simp del]

definition hpack_decode :: "hpack_decoder \<Rightarrow> bytes \<Rightarrow> (hpack_entry list \<times> hpack_decoder) res" where
  "hpack_decode d data =
     bindE (hpack_decode_loop (de_table d) data [] []) (\<lambda>(headers, t).
       Inr (headers, d\<lparr>de_table := t\<rparr>))"

section \<open>Prefix integers: correctness\<close>

text \<open>The continuation bytes of an integer, seven bits at a time.\<close>

lemma unat_drop_bit_7: "unat (drop_bit 7 (v :: u64)) = unat v div 128"
  unfolding unat_drop_bit_eq by (simp add: drop_bit_eq_div)

function leb :: "u64 \<Rightarrow> bytes" where
  "leb v = (if 128 \<le> v then ucast ((v AND 0x7F) OR 0x80) # leb (drop_bit 7 v) else [ucast v])"
  by pat_completeness auto
termination
proof (relation "measure unat")
  fix v :: u64 assume "128 \<le> v"
  then have "0 < unat v" by (auto simp: word_le_nat_alt)
  then have "unat v div 128 < unat v" by simp
  then show "(drop_bit 7 v, v) \<in> measure unat"
    by (simp only: in_measure unat_drop_bit_7)
qed simp

declare leb.simps [simp del]

lemma byte_128: "(0x80 :: byte) = 2 ^ 7" by simp
lemma mask_7: "(0x7F :: 'a::len word) = mask 7" by (simp add: mask_eq_exp_minus_1)

lemma high_bit_set [simp]: "(ucast ((v AND 0x7F) OR 0x80 :: u64) :: byte) AND 0x80 \<noteq> 0"
proof -
  have "bit ((v AND 0x7F) OR 0x80 :: u64) 7"
    by (simp add: bit_simps)
  then have "bit (ucast ((v AND 0x7F) OR 0x80 :: u64) :: byte) 7"
    by (simp add: bit_simps)
  then show ?thesis by (metis byte_128 and_exp_eq_0_iff_not_bit)
qed

lemma low_bits [simp]: "ucast ((ucast ((v AND 0x7F) OR 0x80 :: u64) :: byte) AND 0x7F) = (v AND 0x7F :: u64)"
proof (rule bit_word_eqI)
  fix n assume "n < LENGTH(64)"
  have "bit (0x80 :: u64) n \<longleftrightarrow> n = 7"
    using bit_exp_iff [of 7 n, where ?'a = "64 word"] \<open>n < LENGTH(64)\<close> by simp
  then show "bit (ucast ((ucast ((v AND 0x7F) OR 0x80 :: u64) :: byte) AND 0x7F) :: u64) n = bit (v AND 0x7F :: u64) n"
    by (auto simp: mask_7 bit_simps)
qed

lemma small_ucast:
  assumes "\<not> 128 \<le> (v :: u64)"
  shows "(ucast v :: byte) AND 0x80 = 0" "ucast ((ucast v :: byte) AND 0x7F) = v"
proof -
  have "unat v < 2 ^ 7" using assms by (simp add: word_le_nat_alt not_le)
  note hi = not_bit_of_unat_less [OF this]
  show "(ucast v :: byte) AND 0x80 = 0"
    unfolding byte_128 and_exp_eq_0_iff_not_bit by (simp add: bit_simps hi)
  show "ucast ((ucast v :: byte) AND 0x7F) = v"
  proof (rule bit_word_eqI)
    fix n show "bit (ucast ((ucast v :: byte) AND 0x7F) :: u64) n = bit v n"
      by (cases "n < 7") (simp_all add: mask_7 bit_simps hi)
  qed
qed

lemma encode_loop_leb:
  assumes "unat v < 2 ^ (7 * k)" and "0 < k" and "length buf + k \<le> bufsize"
  shows "hpack_encode_int_loop bufsize v buf = buf @ leb v \<and> length (leb v) \<le> k"
  using assms
proof (induction k arbitrary: v buf)
  case 0
  then show ?case by simp
next
  case (Suc k)
  show ?case
  proof (cases "128 \<le> v")
    case True
    have "k \<noteq> 0"
    proof
      assume "k = 0"
      with Suc.prems True show False by (simp add: word_le_nat_alt)
    qed
    moreover have "unat (drop_bit 7 v) < 2 ^ (7 * k)"
      unfolding unat_drop_bit_7 using Suc.prems(1) by (simp add: power_add less_mult_imp_div_less mult.commute)
    ultimately show ?thesis
      using True Suc.IH [of "drop_bit 7 v" "buf @ [ucast ((v AND 0x7F) OR 0x80)]"] Suc.prems(3)
      by (simp add: hpack_encode_int_loop.simps [of bufsize v] leb.simps [of v])
  next
    case False
    then show ?thesis
      using Suc.prems(3) by (simp add: hpack_encode_int_loop.simps [of bufsize v] leb.simps [of v])
  qed
qed

lemma word_split_7: "(v :: u64) = (v AND 0x7F) + push_bit 7 (drop_bit 7 v)"
proof -
  have "v = push_bit 7 (drop_bit 7 v) OR take_bit 7 v"
    by (rule bit_word_eqI) (auto simp: bit_simps)
  also have "\<dots> = push_bit 7 (drop_bit 7 v) + take_bit 7 v"
    by (rule disjunctive_add [symmetric]) (auto simp: bit_simps)
  finally show ?thesis
    by (simp only: mask_7 take_bit_eq_mask add.commute)
qed

lemma decode_loop_leb:
  assumes "unat w < 2 ^ (64 - m)" and "m < 64"
  shows "hpack_decode_int_loop (leb w @ rest) pos v m = Inr (pos + length (leb w), v + push_bit m w)"
  using assms
proof (induction w arbitrary: pos v m rule: leb.induct)
  case (1 w)
  show ?case
  proof (cases "128 \<le> w")
    case True
    then have "128 \<le> unat w" by (simp add: word_le_nat_alt)
    have "7 < 64 - m"
    proof (rule ccontr)
      assume "\<not> 7 < 64 - m"
      then have "(2::nat) ^ (64 - m) \<le> 2 ^ 7" by (intro power_increasing) auto
      with 1(2) \<open>128 \<le> unat w\<close> show False by simp
    qed
    moreover have "unat (drop_bit 7 w) < 2 ^ (64 - (m + 7))"
    proof -
      have "64 - m = (64 - (m + 7)) + 7" using \<open>7 < 64 - m\<close> by simp
      then have "(2::nat) ^ (64 - m) = 2 ^ (64 - (m + 7)) * 2 ^ 7"
        by (simp only: power_add)
      then have "(2::nat) ^ (64 - m) = 2 ^ (64 - (m + 7)) * 128" by simp
      then show ?thesis
        using 1(2) by (simp only: unat_drop_bit_7 less_mult_imp_div_less)
    qed
    ultimately have "hpack_decode_int_loop (leb (drop_bit 7 w) @ rest) (Suc pos) (v + push_bit m (w AND 0x7F)) (m + 7)
       = Inr (Suc pos + length (leb (drop_bit 7 w)), v + push_bit m (w AND 0x7F) + push_bit (m + 7) (drop_bit 7 w))"
      using 1(1) [OF True] by simp
    moreover have "push_bit m (w AND 0x7F) + push_bit (m + 7) (drop_bit 7 w) = push_bit m w"
    proof -
      have "push_bit m w = push_bit m ((w AND 0x7F) + push_bit 7 (drop_bit 7 w))"
        by (simp only: word_split_7 [symmetric])
      then show ?thesis
        by (simp add: push_bit_eq_mult distrib_left power_add ac_simps)
    qed
    ultimately show ?thesis
      using True 1(3) by (simp add: leb.simps [of w] add.assoc)
  next
    case False
    then show ?thesis
      using 1(3) by (simp add: leb.simps [of w] small_ucast)
  qed
qed

lemma byte_lt: "unat (b :: byte) < 256"
  using unsigned_less [of b, where ?'a = nat] by simp

lemma unat_ucast_up: "unat (ucast (b :: byte) :: u64) = unat b"
  using byte_lt [of b] by (simp add: unsigned_ucast_eq take_bit_nat_eq_self)

lemma unat_ucast_down: "unat (v :: u64) < 256 \<Longrightarrow> unat (ucast v :: byte) = unat v"
  by (simp add: unsigned_ucast_eq take_bit_nat_eq_self)

lemma ucast_ucast_byte: "unat (v :: u64) < 256 \<Longrightarrow> ucast (ucast v :: byte) = v"
  by (metis unat_ucast_up unat_ucast_down unsigned_word_eqI)

lemma below_mask:
  assumes "x \<le> (mask p :: byte)"
  shows "x AND mask p = x"
proof -
  have "uint (mask p :: byte) < 2 ^ p"
    using and_mask_lt_2p [of "mask p :: byte" p] by simp
  with assms have "uint x < 2 ^ p" by (simp add: word_le_def)
  then show ?thesis by (simp only: mask_eq_iff)
qed

text \<open>Every prefix integer starts with its flag bits and a part below the mask.\<close>

lemma encode_int_shape:
  assumes "0 < p" and "p \<le> 8" and "16 \<le> bufsize"
  shows "\<exists>x tl. hpack_encode_int bufsize v p m = (m OR x) # tl \<and> x AND mask p = x \<and> length tl \<le> 10 \<and>
     (m AND mask p = 0 \<longrightarrow>
       (\<forall>rest. hpack_decode_int ((m OR x) # tl @ rest) p = Inr (Suc (length tl), v)))"
proof (cases "v < ucast (mask p :: byte)")
  case True
  then have lt: "unat v < unat (mask p :: byte)"
    by (simp add: word_less_nat_alt unat_ucast_up)
  then have "unat v < 256" using byte_lt [of "mask p"] by simp
  note uv = unat_ucast_down [OF this] ucast_ucast_byte [OF this]
  have less: "(ucast v :: byte) < mask p"
    by (simp add: word_less_nat_alt uv lt)
  have "ucast v AND mask p = (ucast v :: byte)"
    by (rule below_mask) (use less in simp)
  then show ?thesis
    using True assms less
    by (auto simp: hpack_encode_int_def Let_def uv bit.conj_disj_distrib2)
next
  case False
  define w where "w = v - ucast (mask p :: byte)"
  have "unat w < 2 ^ (7 * 10)"
    using unsigned_less [of w, where ?'a = nat] by simp
  from encode_loop_leb [OF this, of "[m OR mask p]" bufsize] assms(3)
  have enc: "hpack_encode_int_loop bufsize w [m OR mask p] = (m OR mask p) # leb w" "length (leb w) \<le> 10"
    by simp_all
  have "hpack_decode_int_loop (leb w @ rest) 1 (ucast (mask p :: byte)) 0 = Inr (Suc (length (leb w)), v)" for rest
    using decode_loop_leb [of w 0 rest 1 "ucast (mask p :: byte)"] unsigned_less [of w, where ?'a = nat]
    by (simp add: w_def)
  then show ?thesis
    using False assms enc
    by (auto simp: hpack_encode_int_def Let_def w_def bit.conj_disj_distrib2)
qed


text \<open>
  The contract of a prefix integer codec, as the header compression code uses it: the flag bits of
  the first byte survive, and decoding what was encoded gives the value and its length.
\<close>

locale prefix_int_codec =
  fixes enc :: "u64 \<Rightarrow> nat \<Rightarrow> byte \<Rightarrow> bytes"
    and dec :: "bytes \<Rightarrow> nat \<Rightarrow> (nat \<times> u64) res"
  assumes enc_shape: "0 < p \<Longrightarrow> p \<le> 8 \<Longrightarrow>
      \<exists>x tl. enc v p m = (m OR x) # tl \<and> x AND mask p = x \<and> length tl \<le> 10"
    and dec_enc: "0 < p \<Longrightarrow> p \<le> 8 \<Longrightarrow> m AND mask p = 0 \<Longrightarrow>
      dec (enc v p m @ rest) p = Inr (length (enc v p m), v)"
begin

lemma enc_nonempty: "0 < p \<Longrightarrow> p \<le> 8 \<Longrightarrow> enc v p m \<noteq> []"
  using enc_shape [of p v m] by auto

lemma length_enc: "0 < p \<Longrightarrow> p \<le> 8 \<Longrightarrow> 0 < length (enc v p m) \<and> length (enc v p m) \<le> 11"
  using enc_shape [of p v m] by auto

lemma enc_flags:
  assumes "0 < p" and "p \<le> 8" and "f AND mask p = 0"
  shows "hd (enc v p m) AND f = m AND f"
proof -
  obtain x tl where "enc v p m = (m OR x) # tl" and x: "x AND mask p = x"
    using enc_shape [OF assms(1,2)] by blast
  moreover have "x AND f = 0"
    using assms(3) x by (metis and.assoc and.commute and_zero_eq)
  ultimately show ?thesis
    by (simp add: bit.conj_disj_distrib2)
qed

end

interpretation hpack_int: prefix_int_codec "hpack_encode_int 16" hpack_decode_int
proof
  fix p :: nat and v :: u64 and m :: byte
  assume p: "0 < p" "p \<le> 8"
  show "\<exists>x tl. hpack_encode_int 16 v p m = (m OR x) # tl \<and> x AND mask p = x \<and> length tl \<le> 10"
    using encode_int_shape [OF p, of 16 v m] by auto
  fix rest assume "m AND mask p = 0"
  then show "hpack_decode_int (hpack_encode_int 16 v p m @ rest) p = Inr (length (hpack_encode_int 16 v p m), v)"
    using encode_int_shape [OF p, of 16 v m] by auto
qed

lemmas mask_evals = mask_eq_exp_minus_1

section \<open>String literals: correctness\<close>

text \<open>The strings whose encoding decodes to them: short enough for \<^verbatim>\<open>int\<close>, and made of symbols the
  Huffman table can decode when the Huffman form is chosen.\<close>

definition codable :: "bytes \<Rightarrow> bool" where
  "codable s \<longleftrightarrow> length s < 2 ^ 31 - 16 \<and> (huffman_is_shorter s \<longrightarrow> (\<forall>b\<in>set s. huff_safe b))"

lemma unat_of_nat_64: "n < 2 ^ 64 \<Longrightarrow> unat (of_nat n :: u64) = n"
  by (simp add: unsigned_of_nat take_bit_nat_eq_self)

lemma uint_of_nat_64: "n < 2 ^ 64 \<Longrightarrow> uint (of_nat n :: u64) = int n"
  using unat_of_nat_64 [of n] by (metis int_nat_eq uint_nat)

lemma decode_string_encoded:
  fixes raw :: bytes
  assumes "m AND 0x7F = 0" and "length raw < 2 ^ 31 - 16" and "length rest < 2 ^ 63"
  shows "decode_string (hpack_encode_int 16 (of_nat (length raw)) 7 m @ raw @ rest) =
    Inr (if m AND 0x80 \<noteq> 0 then huffman_decode raw else raw,
         length (hpack_encode_int 16 (of_nat (length raw)) 7 m) + length raw)"
proof -
  define e where "e = hpack_encode_int 16 (of_nat (length raw)) 7 m"
  have m: "m AND mask 7 = 0" using assms(1) by (simp add: mask_evals)
  have dec: "hpack_decode_int (e @ raw @ rest) 7 = Inr (length e, of_nat (length raw))"
    using hpack_int.dec_enc [of 7 m, OF _ _ m] by (simp add: e_def)
  have ne: "e \<noteq> []" "length e \<le> 11" "length e \<noteq> 0"
    using hpack_int.length_enc [of 7 "of_nat (length raw)" m] by (auto simp: e_def)
  have "hd e AND 0x80 = m AND 0x80"
    unfolding e_def by (rule hpack_int.enc_flags) (simp_all add: mask_evals)
  then have flag: "hd (e @ raw @ rest) AND 0x80 = m AND 0x80"
    using ne by simp
  have small: "length raw < 2 ^ 64" "length e + length raw < 2 ^ 64" "length (e @ raw @ rest) < 2 ^ 64"
    using assms(2,3) ne by auto
  have "\<not> of_nat (length (e @ raw @ rest)) < (of_nat (length e) + of_nat (length raw) :: u64)"
    unfolding of_nat_add [symmetric] word_less_nat_alt unat_of_nat_64 [OF small(2)] unat_of_nat_64 [OF small(3)]
    by simp
  moreover have "\<not> 2 ^ 31 \<le> int (length e) + int (length raw)"
    using ne assms(2) by simp
  ultimately show ?thesis
    using ne
    by (simp only: decode_string_def dec flag bindE_simps Let_def prod.case if_False
          unat_of_nat_64 [OF small(1)] uint_of_nat_64 [OF small(1)] flip: e_def)
      simp
qed

lemma string_round_trip:
  assumes "codable s" and "length rest < 2 ^ 63"
  shows "decode_string (encode_string s @ rest) = Inr (s, length (encode_string s))"
proof (cases "huffman_is_shorter s")
  case True
  then have "length (huffman_encode s) < length s" by (simp only: huffman_is_shorter_iff)
  then have "length (huffman_encode s) < 2 ^ 31 - 16"
    using assms by (simp add: codable_def)
  then show ?thesis
    using True assms decode_string_encoded [of "0x80" "huffman_encode s" rest]
    by (simp add: encode_string_def codable_def huffman_decode_encode Let_def)
next
  case False
  then show ?thesis
    using assms decode_string_encoded [of 0 s rest] by (simp add: encode_string_def codable_def)
qed

lemma encode_string_nonempty: "encode_string s \<noteq> []"
  by (simp add: encode_string_def hpack_int.enc_nonempty Let_def)


lemma length_encode_string [wire_simps]: "length (encode_string s) \<le> 11 + length s"
proof (cases "huffman_is_shorter s")
  case True
  then have "length (huffman_encode s) < length s" by (simp only: huffman_is_shorter_iff)
  then show ?thesis
    using True hpack_int.length_enc [of 7 "of_nat (length (huffman_encode s))" "0x80"]
    by (simp add: encode_string_def Let_def)
next
  case False
  then show ?thesis
    using hpack_int.length_enc [of 7 "of_nat (length s)" 0] by (simp add: encode_string_def)
qed

section \<open>Header blocks: correctness\<close>

lemma find_entry_exact:
  "find_entry table i nm name val = (j, True) \<Longrightarrow>
   i \<le> j \<and> j < i + length table \<and> table ! (j - i) = (name, val)"
proof (induction table i nm name val rule: find_entry.induct)
  case (2 e table i nm n v)
  then show ?case
    by (cases "j = i") (auto simp: nth_Cons' prod_eq_iff split: if_splits)
qed simp

lemma length_static: "length hpack_static_table = 62"
  by (simp add: hpack_static_table_def)

lemma find_static_exact:
  assumes "hpack_find_static name val = (j, True)"
  shows "0 < j \<and> j < 62 \<and> hpack_static_table ! j = (name, val)"
proof -
  obtain e es where st: "hpack_static_table = e # es"
    using length_static by (cases hpack_static_table) auto
  have "find_entry es 1 0 name val = (j, True)"
    using assms unfolding hpack_find_static_def st by simp
  from find_entry_exact [OF this] show ?thesis
    using length_static unfolding st by simp
qed

lemma get_indexed_static:
  assumes "0 < j" and "j < 62"
  shows "get_indexed t (of_nat j) = Some (hpack_static_table ! j)"
proof -
  have "unat (of_nat j :: u64) = j" using assms by (intro unat_of_nat_64) simp
  then show ?thesis
    using assms by (simp add: get_indexed_def length_static word_less_nat_alt)
qed

definition header_codable :: "hpack_entry \<Rightarrow> bool" where
  "header_codable h \<longleftrightarrow> codable (fst h) \<and> codable (snd h)"

lemma length_encode_header [wire_simps]:
  "length (encode_header h) \<le> 33 + length (fst h) + length (snd h)"
  using length_encode_string [of "fst h"] length_encode_string [of "snd h"]
    hpack_int.length_enc [of 7 "of_nat (fst (hpack_find_static (fst h) (snd h)))" "0x80"]
    hpack_int.length_enc [of 4 0 0]
  by (auto simp: encode_header_def split: prod.splits)

lemma decode_literal_encoded:
  assumes "header_codable h" and "length (encode_string (snd h) @ rest) < 2 ^ 63"
  shows "decode_literal 4 t (hpack_encode_int 16 0 4 0 @ encode_string (fst h) @ encode_string (snd h) @ rest) =
    Inr (Some (h, length (hpack_encode_int 16 0 4 0 @ encode_string (fst h) @ encode_string (snd h))))"
proof -
  note dec = hpack_int.dec_enc [of 4 0 0, simplified]
  show ?thesis
    using assms string_round_trip [of "fst h" "encode_string (snd h) @ rest"]
      string_round_trip [of "snd h" rest] hpack_int.enc_nonempty [of 4 0 0]
    by (simp add: decode_literal_def dec header_codable_def encode_string_nonempty drop_append)
qed

lemma decode_loop_header:
  assumes "header_codable h" and "length (encode_header h @ rest) < 2 ^ 63"
  shows "hpack_decode_loop t (encode_header h @ rest) result new_entries =
    hpack_decode_loop t rest (result @ [h]) new_entries"
proof (cases "snd (hpack_find_static (fst h) (snd h))")
  case True
  then obtain j where j: "hpack_find_static (fst h) (snd h) = (j, True)"
    by (metis (full_types) prod.collapse)
  note st = find_static_exact [OF j]
  define e where "e = hpack_encode_int 16 (of_nat j) 7 0x80"
  have enc: "encode_header h = e"
    by (simp add: encode_header_def j e_def)
  have dec: "hpack_decode_int (e @ rest) 7 = Inr (length e, of_nat j)"
    unfolding e_def by (rule hpack_int.dec_enc) (simp_all add: mask_evals)
  have flag: "hd e AND 0x80 = 0x80"
    unfolding e_def by (subst hpack_int.enc_flags) (simp_all add: mask_evals)
  have ne: "e \<noteq> []" by (simp add: e_def hpack_int.enc_nonempty)
  have "(of_nat j :: u64) \<noteq> 0"
    using st unat_of_nat_64 [of j] by fastforce
  then show ?thesis
    unfolding enc by (subst hpack_decode_loop.simps) (use st in \<open>simp add: dec flag ne get_indexed_static\<close>)
next
  case False
  define e where "e = hpack_encode_int 16 0 4 0"
  have enc: "encode_header h = e @ encode_string (fst h) @ encode_string (snd h)"
    using False by (auto simp: encode_header_def e_def split: prod.splits)
  have flag: "hd e AND 0x80 = 0" "hd e AND 0x40 = 0" "hd e AND 0x20 = 0"
    unfolding e_def by (subst hpack_int.enc_flags; simp add: mask_evals)+
  have ne: "e \<noteq> []" by (simp add: e_def hpack_int.enc_nonempty)
  have "decode_literal 4 t (e @ encode_string (fst h) @ encode_string (snd h) @ rest) =
    Inr (Some (h, length (e @ encode_string (fst h) @ encode_string (snd h))))"
    using decode_literal_encoded [OF assms(1)] assms(2) by (simp add: enc e_def)
  then show ?thesis
    unfolding enc by (subst hpack_decode_loop.simps) (simp add: flag ne)
qed

lemma decode_loop_headers:
  assumes "\<forall>h\<in>set hs. header_codable h" and "length (concat (map encode_header hs)) < 2 ^ 63"
  shows "hpack_decode_loop t (concat (map encode_header hs)) result [] = Inr (result @ hs, t)"
  using assms
proof (induction hs arbitrary: result)
  case Nil
  then show ?case by (simp add: hpack_decode_loop.simps)
next
  case (Cons h hs)
  then show ?case
    by (simp add: decode_loop_header)
qed

lemma decode_loop_size_update:
  assumes "n < 2 ^ 64"
  shows "hpack_decode_loop t (hpack_encode_int 16 (of_nat n) 5 0x20 @ rest) result new_entries =
    hpack_decode_loop (dt_resize n t) rest result new_entries"
proof -
  define e where "e = hpack_encode_int 16 (of_nat n) 5 0x20"
  have flag: "hd e AND 0x80 = 0" "hd e AND 0x40 = 0" "hd e AND 0x20 = 0x20"
    unfolding e_def by (subst hpack_int.enc_flags; simp add: mask_evals)+
  have dec: "hpack_decode_int (e @ rest) 5 = Inr (length e, of_nat n)"
    unfolding e_def by (rule hpack_int.dec_enc) (simp_all add: mask_evals)
  have ne: "e \<noteq> []" by (simp add: e_def hpack_int.enc_nonempty)
  show ?thesis
    unfolding e_def [symmetric]
    by (subst hpack_decode_loop.simps) (simp add: flag dec ne unat_of_nat_64 [OF assms])
qed


lemma hpack_decode_encoded:
  assumes "\<forall>h\<in>set hs. header_codable h" and "en_max_table_size e < 2 ^ 64"
    and "length (concat (map encode_header hs)) < 2 ^ 63"
  shows "hpack_decode d (fst (hpack_encode hs e)) =
    Inr (hs, if en_table_size_updated e
             then d\<lparr>de_table := dt_resize (en_max_table_size e) (de_table d)\<rparr> else d)"
  using decode_loop_headers [OF assms(1,3)] assms(2)
  by (simp add: hpack_encode_def hpack_decode_def decode_loop_size_update)

section \<open>Dynamic table: correctness\<close>

text \<open>The abstract table: the longest run of newest entries that fits the size.\<close>

primrec fit :: "nat \<Rightarrow> hpack_entry list \<Rightarrow> hpack_entry list" where
  "fit n [] = []"
| "fit n (e # es) = (if entry_size e \<le> n then e # fit (n - entry_size e) es else [])"

definition table_size :: "hpack_entry list \<Rightarrow> nat" where
  "table_size es = sum_list (map entry_size es)"

lemma table_size_simps [simp]:
  "table_size [] = 0" "table_size (e # es) = entry_size e + table_size es"
  by (simp_all add: table_size_def)

lemma fit_fits: "table_size (fit n es) \<le> n"
proof (induction es arbitrary: n)
  case (Cons e es)
  from Cons.IH [of "n - entry_size e"] show ?case by (cases "entry_size e \<le> n") simp_all
qed simp

lemma fit_id: "table_size es \<le> n \<Longrightarrow> fit n es = es"
  by (induction es arbitrary: n) auto

lemma fit_fit: "fit n (fit n es) = fit n es"
  by (rule fit_id) (rule fit_fits)

lemma fit_fit_le: "m \<le> n \<Longrightarrow> fit m (fit n es) = fit m es"
  by (induction es arbitrary: m n) (auto simp: diff_le_mono)

lemma fit_append_fit: "m \<le> n \<Longrightarrow> fit m (xs @ fit n es) = fit m (xs @ es)"
  by (induction xs arbitrary: m) (simp_all add: fit_fit_le)

lemma fit_butlast: "es \<noteq> [] \<Longrightarrow> n < table_size es \<Longrightarrow> fit n (butlast es) = fit n es"
  by (induction es arbitrary: n) auto

lemma prefix_fit: "prefix (fit n es) es"
  by (induction es arbitrary: n) auto

text \<open>
  What the header compression code relies on: inserting and resizing keep exactly the newest
  entries that fit, whatever the representation.
\<close>

locale bounded_table =
  fixes entries :: "'t \<Rightarrow> hpack_entry list"
    and capacity :: "'t \<Rightarrow> nat"
    and ok :: "'t \<Rightarrow> bool"
    and add :: "hpack_entry \<Rightarrow> 't \<Rightarrow> 't"
    and resize :: "nat \<Rightarrow> 't \<Rightarrow> 't"
  assumes ok_fits: "ok t \<Longrightarrow> table_size (entries t) \<le> capacity t"
    and add_ok: "ok t \<Longrightarrow> ok (add e t)"
    and add_entries: "ok t \<Longrightarrow> entries (add e t) = fit (capacity t) (e # entries t)"
    and add_capacity: "capacity (add e t) = capacity t"
    and resize_ok: "ok t \<Longrightarrow> ok (resize n t)"
    and resize_entries: "ok t \<Longrightarrow> entries (resize n t) = fit n (entries t)"
    and resize_capacity: "capacity (resize n t) = n"
begin

lemma add_all:
  assumes "ok t"
  shows "ok (fold add es t) \<and> capacity (fold add es t) = capacity t \<and>
    entries (fold add es t) = fit (capacity t) (rev es @ entries t)"
  using assms
proof (induction es arbitrary: t)
  case Nil
  then show ?case by (simp add: fit_id ok_fits)
next
  case (Cons e es)
  then show ?case
    using Cons.IH [OF add_ok [OF Cons.prems]]
    by (simp only: fold_simps o_apply add_entries add_capacity rev.simps append.assoc append.simps fit_append_fit order_refl)
qed

lemma add_newest: "ok t \<Longrightarrow> entry_size e \<le> capacity t \<Longrightarrow> hd (entries (add e t)) = e"
  by (simp add: add_entries)

lemma size_bound: "ok t \<Longrightarrow> table_size (entries (fold add es t)) \<le> capacity t"
  using add_all ok_fits by metis

end

text \<open>The invariant of the concrete table: the byte count is exact and within the limit.\<close>

definition dt_inv :: "hpack_dynamic_table \<Rightarrow> bool" where
  "dt_inv t \<longleftrightarrow> dt_current_size t = table_size (dt_entries t) \<and> dt_current_size t \<le> dt_max_size t"

lemma table_size_snoc: "es \<noteq> [] \<Longrightarrow> table_size es = table_size (butlast es) + entry_size (last es)"
  by (cases es rule: rev_cases) (auto simp: table_size_def)

lemma dt_evict_for_max [simp]: "dt_max_size (dt_evict_for esz t) = dt_max_size t"
proof (induction esz t rule: dt_evict_for.induct)
  case (1 esz t)
  then show ?case by (simp add: dt_evict_for.simps [of esz t]) (simp add: dt_evict_def)
qed

lemma dt_evict_for_spec:
  assumes "dt_current_size t = table_size (dt_entries t)"
  shows "dt_evict_for esz t =
    (let es = (if esz \<le> dt_max_size t then fit (dt_max_size t - esz) (dt_entries t) else [])
     in t\<lparr>dt_entries := es, dt_current_size := table_size es\<rparr>)"
  using assms
proof (induction esz t rule: dt_evict_for.induct)
  case (1 esz t)
  show ?case
  proof (cases "dt_max_size t < dt_current_size t + esz \<and> dt_entries t \<noteq> []")
    case True
    have "dt_evict_for esz t = dt_evict_for esz (dt_evict t)"
      using True by (simp add: dt_evict_for.simps [of esz t])
    also have "\<dots> = (let es = (if esz \<le> dt_max_size t then fit (dt_max_size t - esz) (butlast (dt_entries t)) else [])
     in t\<lparr>dt_entries := es, dt_current_size := table_size es\<rparr>)"
      using 1(1) [OF True] True 1(2) table_size_snoc [of "dt_entries t"] by (simp add: dt_evict_def)
    finally show ?thesis
      using True 1(2) by (auto simp: fit_butlast Let_def)
  next
    case False
    then show ?thesis
      using 1(2) by (auto simp: dt_evict_for.simps [of esz t] fit_id Let_def)
  qed
qed

lemma dt_add_spec:
  assumes "dt_inv t"
  shows "dt_entries (dt_add e t) = fit (dt_max_size t) (e # dt_entries t) \<and> dt_inv (dt_add e t)"
  using assms fit_fits [of "dt_max_size t - entry_size e" "dt_entries t"]
  by (auto simp: dt_inv_def dt_add_def dt_evict_for_spec Let_def)

lemma dt_resize_spec:
  assumes "dt_inv t"
  shows "dt_entries (dt_resize n t) = fit n (dt_entries t) \<and> dt_inv (dt_resize n t)"
  using assms by (simp add: dt_inv_def dt_resize_def dt_evict_for_spec Let_def fit_fits)

interpretation hpack_table: bounded_table dt_entries dt_max_size dt_inv dt_add dt_resize
proof
  show "dt_max_size (dt_add e t) = dt_max_size t" for e t by (simp add: dt_add_def Let_def)
  show "dt_max_size (dt_resize n t) = n" for n t by (simp add: dt_resize_def)
  show "table_size (dt_entries t) \<le> dt_max_size t" if "dt_inv t" for t
    using that by (simp add: dt_inv_def)
qed (simp_all add: dt_add_spec dt_resize_spec del: fit.simps)


lemma dt_new_inv: "dt_inv (hpack_dynamic_table_new n)"
  by (simp add: dt_inv_def hpack_dynamic_table_new_def)

lemma decode_loop_defined:
  "hpack_decode_int_loop bs pos v (7 * k) = Inl e \<longleftrightarrow>
     e = Undefined_Behaviour \<and> 10 - k < length bs \<and> (\<forall>b\<in>set (take (10 - k) bs). b AND 0x80 \<noteq> 0)"
proof (induction bs arbitrary: pos v k)
  case (Cons b bs)
  show ?case
  proof (cases "10 \<le> k")
    case False
    then have "7 * k < 64" "10 - k = Suc (10 - Suc k)" by simp_all
    then show ?thesis
      using Cons.IH [of "Suc pos" "v + push_bit (7 * k) (ucast (b AND 0x7F))" "Suc k"]
      by (auto simp: Let_def add.commute)
  qed auto
qed simp

section \<open>Properties\<close>

text \<open>For every 64-bit value, every prefix of 1 to 8 bits and every flag byte that leaves the
  prefix free, the integer is encoded in at most 11 of the 16 bytes provided, the flag bits of the
  first byte are kept, and decoding the bytes, whatever follows them, gives back the value and
  consumes exactly them.\<close>

theorem hpack_int_round_trip:
  assumes "0 < p" and "p \<le> 8" and "m AND mask p = 0"
  shows "hpack_decode_int (hpack_encode_int 16 v p m @ rest) p = Inr (length (hpack_encode_int 16 v p m), v) \<and>
    length (hpack_encode_int 16 v p m) \<le> 11 \<and> hd (hpack_encode_int 16 v p m) AND NOT (mask p) = m"
proof (intro conjI)
  show "hpack_decode_int (hpack_encode_int 16 v p m @ rest) p = Inr (length (hpack_encode_int 16 v p m), v)"
    using assms by (rule hpack_int.dec_enc)
  show "length (hpack_encode_int 16 v p m) \<le> 11"
    using hpack_int.length_enc [OF assms(1,2)] by simp
  have "m AND NOT (mask p) = m"
  proof (rule bit_word_eqI)
    fix n
    have "\<not> (bit m n \<and> bit (mask p :: byte) n)"
      using assms(3) by (metis bit_and_iff bit_0_eq bot_apply bot_bool_def)
    then show "bit (m AND NOT (mask p)) n = bit m n" if "n < LENGTH(8)"
      using that by (auto simp: bit_simps)
  qed
  then show "hd (hpack_encode_int 16 v p m) AND NOT (mask p) = m"
    using hpack_int.enc_flags [OF assms(1,2), of "NOT (mask p)" v m] by simp
qed

theorem hpack_int_round_trip_witness:
  "hpack_decode_int (hpack_encode_int 16 1337 5 0x20 @ [7]) 5 = Inr (3, 1337)"
proof -
  have "hpack_encode_int 16 1337 5 0x20 = [0x3F, 0x9A, 0x0A]"
    by code_simp
  then show ?thesis
    using hpack_int_round_trip [of 5 "0x20" 1337 "[7]"] by (simp add: mask_evals)
qed

text \<open>An integer on the wire has a defined value exactly when the reader does not reach an
  eleventh continuation byte: with ten continuation bytes behind a full prefix and at least one
  more byte the shift count reaches 70 and the behaviour is undefined.\<close>

theorem hpack_decode_int_defined:
  "hpack_decode_int data p = Inl e \<longleftrightarrow>
     e = Undefined_Behaviour \<and> 11 < length data \<and> hd data AND mask p = mask p \<and>
     list_all (\<lambda>b. b AND 0x80 \<noteq> 0) (take 10 (tl data))"
proof (cases data)
  case (Cons b bs)
  have "(b AND mask p < mask p) \<longleftrightarrow> b AND mask p \<noteq> mask p"
    by (metis word_and_le1 order.not_eq_order_implies_strict order_less_irrefl)
  then show ?thesis
    using decode_loop_defined [of bs 1 "ucast (b AND mask p)" 0 e] by (auto simp: Cons Let_def list_all_iff)
qed simp




text \<open>C13: The dynamic table implements its specification: after any sequence of insertions it holds
  exactly the newest entries that fit its size limit, newest first, its byte count is exact and
  within the limit, a lookup gives the entry inserted that many steps ago, and a resize keeps the
  newest entries that fit the new limit.\<close>

theorem hpack_dynamic_table_refines:
  "dt_entries (fold dt_add es (hpack_dynamic_table_new n)) = fit n (rev es) \<and>
   dt_current_size (fold dt_add es (hpack_dynamic_table_new n)) = table_size (fit n (rev es)) \<and>
   table_size (fit n (rev es)) \<le> n \<and>
   dt_get (fold dt_add es (hpack_dynamic_table_new n)) i =
     (if 0 < i \<and> i \<le> length (fit n (rev es)) then Some (rev es ! (i - 1)) else None) \<and>
   dt_entries (dt_resize m (fold dt_add es (hpack_dynamic_table_new n))) = fit m (fit n (rev es))"
proof -
  let ?t = "fold dt_add es (hpack_dynamic_table_new n)"
  have ok: "dt_inv ?t" and ents: "dt_entries ?t = fit n (rev es)"
    using hpack_table.add_all [OF dt_new_inv, of es n] by (simp_all add: hpack_dynamic_table_new_def)
  have "fit n (rev es) ! (i - 1) = rev es ! (i - 1)" if "0 < i" "i \<le> length (fit n (rev es))"
    using that prefix_fit [of n "rev es"] by (metis One_nat_def Suc_pred less_eq_Suc_le nth_append prefix_def)
  then show ?thesis
    using ok ents hpack_table.resize_entries [OF ok, of m]
    by (auto simp: dt_inv_def dt_get_def fit_fits)
qed

text \<open>Dynamic indices are off by one: index 62, which stands for the newest entry, is never
  resolved, and a block consisting of it decodes to no headers; the newest entry is reached with
  index 63.\<close>

theorem hpack_newest_index:
  "hpack_decode d [0xBE] = Inr ([], d) \<and>
   hpack_decode d [0xBF] =
     (case dt_entries (de_table d) of [] \<Rightarrow> Inr ([], d) | e # _ \<Rightarrow> Inr ([e], d))"
proof -
  have a: "hpack_decode_int [0xBE] 7 = Inr (1, 62)" "hpack_decode_int [0xBF] 7 = Inr (1, 63)"
    by code_simp+
  have "get_indexed t 62 = None" "get_indexed t 63 = (case dt_entries t of [] \<Rightarrow> None | e # _ \<Rightarrow> Some e)" for t
    by (auto simp: get_indexed_def length_static dt_get_def split: list.splits)
  then show ?thesis
    by (simp add: hpack_decode_def hpack_decode_loop.simps a del: hpack_decode_int.simps split: list.splits)
qed

end
