(* ===== verification/Qpack.thy ===== *)
theory Qpack
  imports Hpack
begin

text \<open>
  QPACK header compression, \<^verbatim>\<open>src/http/qpack.hpp\<close> and \<^verbatim>\<open>src/http/qpack.cpp\<close>: the integer and string
  codecs, the static and the dynamic table, the encoder (static references and literals only), the
  field section decoder and the encoder stream instructions.

  \<^verbatim>\<open>size_t\<close> values that are computed from the wire (insert counts, the base) are 64-bit words.
\<close>

section \<open>Static table\<close>

definition qpack_static_table :: "hpack_entry list" where
  "qpack_static_table = map (\<lambda>(n, v). (str n, str v)) [
     ('':authority'', ''''),
     ('':path'', ''/''),
     (''age'', ''0''),
     (''content-disposition'', ''''),
     (''content-length'', ''0''),
     (''cookie'', ''''),
     (''date'', ''''),
     (''etag'', ''''),
     (''if-modified-since'', ''''),
     (''if-none-match'', ''''),
     (''last-modified'', ''''),
     (''link'', ''''),
     (''location'', ''''),
     (''referer'', ''''),
     (''set-cookie'', ''''),
     ('':method'', ''CONNECT''),
     ('':method'', ''DELETE''),
     ('':method'', ''GET''),
     ('':method'', ''HEAD''),
     ('':method'', ''OPTIONS''),
     ('':method'', ''POST''),
     ('':method'', ''PUT''),
     ('':scheme'', ''http''),
     ('':scheme'', ''https''),
     ('':status'', ''103''),
     ('':status'', ''200''),
     ('':status'', ''304''),
     ('':status'', ''404''),
     ('':status'', ''503''),
     (''accept'', ''*/*''),
     (''accept'', ''application/dns-message''),
     (''accept-encoding'', ''gzip, deflate, br''),
     (''accept-ranges'', ''bytes''),
     (''access-control-allow-headers'', ''cache-control''),
     (''access-control-allow-headers'', ''content-type''),
     (''access-control-allow-origin'', ''*''),
     (''cache-control'', ''max-age=0''),
     (''cache-control'', ''max-age=2592000''),
     (''cache-control'', ''max-age=604800''),
     (''cache-control'', ''no-cache''),
     (''cache-control'', ''no-store''),
     (''cache-control'', ''public, max-age=31536000''),
     (''content-encoding'', ''br''),
     (''content-encoding'', ''gzip''),
     (''content-type'', ''application/dns-message''),
     (''content-type'', ''application/javascript''),
     (''content-type'', ''application/json''),
     (''content-type'', ''application/x-www-form-urlencoded''),
     (''content-type'', ''image/gif''),
     (''content-type'', ''image/jpeg''),
     (''content-type'', ''image/png''),
     (''content-type'', ''text/css''),
     (''content-type'', ''text/html; charset=utf-8''),
     (''content-type'', ''text/plain''),
     (''content-type'', ''text/plain;charset=utf-8''),
     (''range'', ''bytes=0-''),
     (''strict-transport-security'', ''max-age=31536000''),
     (''strict-transport-security'', ''max-age=31536000; includesubdomains''),
     (''strict-transport-security'', ''max-age=31536000; includesubdomains; preload''),
     (''vary'', ''accept-encoding''),
     (''vary'', ''origin''),
     (''x-content-type-options'', ''nosniff''),
     (''x-xss-protection'', ''1; mode=block''),
     ('':status'', ''100''),
     ('':status'', ''204''),
     ('':status'', ''206''),
     ('':status'', ''302''),
     ('':status'', ''400''),
     ('':status'', ''403''),
     ('':status'', ''421''),
     ('':status'', ''425''),
     ('':status'', ''500''),
     (''accept-language'', ''''),
     (''access-control-allow-credentials'', ''FALSE''),
     (''access-control-allow-credentials'', ''TRUE''),
     (''access-control-allow-headers'', ''*''),
     (''access-control-allow-methods'', ''get''),
     (''access-control-allow-methods'', ''get, post, options''),
     (''access-control-allow-methods'', ''options''),
     (''access-control-expose-headers'', ''content-length''),
     (''access-control-request-headers'', ''content-type''),
     (''access-control-request-method'', ''get''),
     (''access-control-request-method'', ''post''),
     (''alt-svc'', ''clear''),
     (''authorization'', ''''),
     (''content-security-policy'', ''script-src 'none'; object-src 'none'; base-uri 'none'' @ [CHR 0x27]),
     (''early-data'', ''1''),
     (''expect-ct'', ''''),
     (''forwarded'', ''''),
     (''if-range'', ''''),
     (''origin'', ''''),
     (''purpose'', ''prefetch''),
     (''server'', ''''),
     (''timing-allow-origin'', ''*''),
     (''upgrade-insecure-requests'', ''1''),
     (''user-agent'', ''''),
     (''x-forwarded-for'', ''''),
     (''x-frame-options'', ''deny''),
     (''x-frame-options'', ''sameorigin'')]"

section \<open>Integers and strings\<close>

function qpack_encode_int_loop :: "nat \<Rightarrow> u64 \<Rightarrow> bytes \<Rightarrow> bytes" where
  "qpack_encode_int_loop bufsize value buf =
     (if 128 \<le> value then
        (if bufsize \<le> length buf then []
         else qpack_encode_int_loop bufsize (drop_bit 7 value) (buf @ [ucast ((value AND 0x7F) OR 0x80)]))
      else if bufsize \<le> length buf then []
      else buf @ [ucast value])"
  by pat_completeness auto
termination
  by (relation "measure (\<lambda>(bufsize, _, buf). bufsize - length buf)") auto

declare qpack_encode_int_loop.simps [simp del]

definition qpack_encode_int :: "nat \<Rightarrow> u64 \<Rightarrow> nat \<Rightarrow> byte \<Rightarrow> bytes" where
  "qpack_encode_int bufsize value prefix_bits first_byte_mask =
     (if bufsize = 0 then []
      else let max_prefix = (mask prefix_bits :: byte)
           in if value < ucast max_prefix then [first_byte_mask OR ucast value]
              else qpack_encode_int_loop bufsize (value - ucast max_prefix) [first_byte_mask OR max_prefix])"

fun qpack_decode_int_loop :: "bytes \<Rightarrow> nat \<Rightarrow> u64 \<Rightarrow> nat \<Rightarrow> (nat \<times> u64) res" where
  "qpack_decode_int_loop [] pos value m = Inr (0, value)"
| "qpack_decode_int_loop (b # buf) pos value m =
     (if 64 \<le> m then Inl Undefined_Behaviour
      else let value' = value + push_bit m (ucast (b AND 0x7F))
           in if b AND 0x80 \<noteq> 0 then qpack_decode_int_loop buf (Suc pos) value' (m + 7)
              else Inr (Suc pos, value'))"

fun qpack_decode_int :: "bytes \<Rightarrow> nat \<Rightarrow> (nat \<times> u64) res" where
  "qpack_decode_int [] prefix_bits = Inr (0, 0)"
| "qpack_decode_int (b # buf) prefix_bits =
     (let max_prefix = (mask prefix_bits :: byte); value = b AND max_prefix
      in if value < max_prefix then Inr (1, ucast value)
         else qpack_decode_int_loop buf 1 (ucast value) 0)"

definition qpack_encode_string :: "bytes \<Rightarrow> bytes" where
  "qpack_encode_string s =
     (if huffman_is_shorter s
      then (let encoded = huffman_encode s
            in qpack_encode_int 16 (of_nat (length encoded)) 7 0x80 @ encoded)
      else qpack_encode_int 16 (of_nat (length s)) 7 0x00 @ s)"

text \<open>The string read and the bytes consumed, zero on failure; a Huffman error is a failure here.\<close>

definition qpack_decode_string :: "bytes \<Rightarrow> (bytes \<times> nat) res" where
  "qpack_decode_string buf =
     (if buf = [] then Inr ([], 0)
      else let huffman = (hd buf AND 0x80 \<noteq> 0)
           in bindE (qpack_decode_int buf 7) (\<lambda>(consumed, str_len).
                if consumed = 0 then Inr ([], 0)
                else if of_nat (length buf) < of_nat consumed + str_len then Inr ([], 0)
                else if int (length buf) < int consumed + uint str_len then
                  Inl (if huffman then Undefined_Behaviour else Length_Error)
                else if 2 ^ 31 \<le> int consumed + uint str_len then Inl Int_Narrowing
                else let raw = take (unat str_len) (drop consumed buf)
                     in if huffman then
                          (let out = huffman_decode raw
                           in if out = [] \<and> 0 < str_len then Inr ([], 0)
                              else Inr (out, consumed + unat str_len))
                        else Inr (raw, consumed + unat str_len)))"

section \<open>Dynamic table\<close>

record qpack_dynamic_table =
  qt_entries :: "hpack_entry list"
  qt_max_size :: nat
  qt_current_size :: nat
  qt_insert_count :: u64
  qt_base :: u64

definition qpack_dynamic_table_new :: qpack_dynamic_table where
  "qpack_dynamic_table_new =
     \<lparr>qt_entries = [], qt_max_size = 4096, qt_current_size = 0, qt_insert_count = 0, qt_base = 0\<rparr>"

definition qt_entry_size :: "hpack_entry \<Rightarrow> nat" where
  "qt_entry_size e = length (fst e) + length (snd e) + 32"

function qt_evict_for :: "nat \<Rightarrow> qpack_dynamic_table \<Rightarrow> qpack_dynamic_table" where
  "qt_evict_for esz t =
     (if qt_max_size t < qt_current_size t + esz \<and> qt_entries t \<noteq> []
      then qt_evict_for esz
             (t\<lparr>qt_current_size := qt_current_size t - qt_entry_size (last (qt_entries t)),
                qt_entries := butlast (qt_entries t)\<rparr>)
      else t)"
  by pat_completeness auto
termination
  by (relation "measure (\<lambda>(_, t). length (qt_entries t))") auto

declare qt_evict_for.simps [simp del]

definition qt_insert :: "hpack_entry \<Rightarrow> qpack_dynamic_table \<Rightarrow> qpack_dynamic_table" where
  "qt_insert e t =
     (let esz = qt_entry_size e; t1 = qt_evict_for esz t;
          t2 = (if esz \<le> qt_max_size t1
                then t1\<lparr>qt_entries := e # qt_entries t1, qt_current_size := qt_current_size t1 + esz\<rparr>
                else t1)
      in t2\<lparr>qt_insert_count := qt_insert_count t2 + 1\<rparr>)"

definition qt_set_max_size :: "nat \<Rightarrow> qpack_dynamic_table \<Rightarrow> qpack_dynamic_table" where
  "qt_set_max_size max_size t = qt_evict_for 0 (t\<lparr>qt_max_size := max_size\<rparr>)"

definition qt_get :: "qpack_dynamic_table \<Rightarrow> u64 \<Rightarrow> hpack_entry option" where
  "qt_get t index =
     (if of_nat (length (qt_entries t)) \<le> index then None else Some (qt_entries t ! unat index))"

section \<open>Encoder\<close>

fun index_of :: "(hpack_entry \<Rightarrow> bool) \<Rightarrow> hpack_entry list \<Rightarrow> nat \<Rightarrow> nat option" where
  "index_of P [] i = None"
| "index_of P (e # table) i = (if P e then Some i else index_of P table (Suc i))"

definition find_static :: "bytes \<Rightarrow> bytes \<Rightarrow> nat option" where
  "find_static name value = index_of (\<lambda>e. fst e = name \<and> snd e = value) qpack_static_table 0"

definition find_static_name :: "bytes \<Rightarrow> nat option" where
  "find_static_name name = index_of (\<lambda>e. fst e = name) qpack_static_table 0"

definition qpack_encode_header :: "hpack_entry \<Rightarrow> bytes" where
  "qpack_encode_header h =
     (case find_static (fst h) (snd h) of
        Some idx \<Rightarrow> qpack_encode_int 64 (of_nat idx) 6 0xC0
      | None \<Rightarrow>
          (case find_static_name (fst h) of
             Some name_idx \<Rightarrow> qpack_encode_int 64 (of_nat name_idx) 4 0x50 @ qpack_encode_string (snd h)
           | None \<Rightarrow> [0x20] @ qpack_encode_string (fst h) @ qpack_encode_string (snd h)))"

definition encode_static :: "hpack_entry list \<Rightarrow> bytes" where
  "encode_static headers = [0x00, 0x00] @ concat (map qpack_encode_header headers)"

record encode_result =
  field_section :: bytes
  er_instructions :: bytes

definition qpack_encode :: "hpack_entry list \<Rightarrow> encode_result" where
  "qpack_encode headers = \<lparr>field_section = encode_static headers, er_instructions = []\<rparr>"

section \<open>Decoder\<close>

record qpack_decoder =
  qd_table :: qpack_dynamic_table
  qd_max_table_size :: u64
  qd_known_received_count :: u64

definition qpack_decoder_new :: qpack_decoder where
  "qpack_decoder_new =
     \<lparr>qd_table = qpack_dynamic_table_new, qd_max_table_size = 4096, qd_known_received_count = 0\<rparr>"

text \<open>One field line: the bytes consumed, zero on failure, and the header.\<close>

definition qpack_fail :: "(nat \<times> hpack_entry) res" where
  "qpack_fail = Inr (0, ([], []))"

definition qpack_literal :: "bytes \<Rightarrow> nat \<Rightarrow> bytes \<Rightarrow> (nat \<times> hpack_entry) res" where
  "qpack_literal name consumed data =
     bindE (qpack_decode_string (drop consumed data)) (\<lambda>(val, slen).
       if slen = 0 then qpack_fail else Inr (consumed + slen, (name, val)))"

definition decode_field_line :: "qpack_dynamic_table \<Rightarrow> u64 \<Rightarrow> bytes \<Rightarrow> (nat \<times> hpack_entry) res" where
  "decode_field_line t base data =
     (if data = [] then qpack_fail
      else let b = hd data in
      if b AND 0xC0 = 0xC0 then
        bindE (qpack_decode_int data 6) (\<lambda>(consumed, idx).
          if consumed = 0 \<or> of_nat (length qpack_static_table) \<le> idx then qpack_fail
          else Inr (consumed, qpack_static_table ! unat idx))
      else if b AND 0xE0 = 0xA0 then
        bindE (qpack_decode_int data 5) (\<lambda>(consumed, idx).
          if consumed = 0 \<or> of_nat (length (qt_entries t)) \<le> base + idx then qpack_fail
          else (case qt_get t (base + idx) of None \<Rightarrow> qpack_fail | Some e \<Rightarrow> Inr (consumed, e)))
      else if b AND 0xC0 = 0x40 then
        bindE (qpack_decode_int data 4) (\<lambda>(consumed, name_idx).
          if consumed = 0 then qpack_fail
          else if b AND 0x10 \<noteq> 0 then
            (if of_nat (length qpack_static_table) \<le> name_idx then qpack_fail
             else qpack_literal (fst (qpack_static_table ! unat name_idx)) consumed data)
          else (case qt_get t name_idx of
                  None \<Rightarrow> qpack_fail
                | Some e \<Rightarrow> qpack_literal (fst e) consumed data))
      else if b AND 0xE0 = 0x20 then
        bindE (qpack_decode_string (drop 1 data)) (\<lambda>(name, nlen).
          if nlen = 0 then qpack_fail else qpack_literal name (1 + nlen) data)
      else if b AND 0xF0 = 0x00 \<and> b AND 0x0C = 0x00 then
        bindE (qpack_decode_int data 4) (\<lambda>(consumed, idx).
          if consumed = 0 then qpack_fail
          else (case qt_get t idx of None \<Rightarrow> qpack_fail | Some e \<Rightarrow> Inr (consumed, e)))
      else qpack_fail)"

function qpack_decode_lines ::
  "qpack_dynamic_table \<Rightarrow> u64 \<Rightarrow> bytes \<Rightarrow> hpack_entry list \<Rightarrow> hpack_entry list res"
where
  "qpack_decode_lines t base data headers =
     (if data = [] then Inr headers
      else bindE (decode_field_line t base data) (\<lambda>(n, header).
        if n = 0 then Inr headers
        else qpack_decode_lines t base (drop n data) (headers @ [header])))"
  by pat_completeness auto
termination
  by (relation "measure (\<lambda>(_, _, data, _). length data)") auto

declare qpack_decode_lines.simps [simp del]

text \<open>The Required Insert Count of the section prefix, computed modulo \<open>2 ^ 64\<close>.\<close>

definition qpack_insert_count :: "qpack_decoder \<Rightarrow> u64 \<Rightarrow> u64" where
  "qpack_insert_count d ric_encoded =
     (if ric_encoded = 0 then 0
      else let max_entries = qd_max_table_size d div 32;
               full_range = (if 2 * max_entries = 0 then 1 else 2 * max_entries);
               max_value = qt_insert_count (qd_table d) + max_entries;
               rounded = (max_value div full_range) * full_range;
               count = rounded + (ric_encoded - 1);
               count' = (if max_value < count then count - full_range else count)
           in count' + 1)"

text \<open>
  A section of 2 GiB or more is not followed (the loop compares \<^verbatim>\<open>int\<close> values).  After the insert
  count the code reads the next byte before it checks that there is one.
\<close>

definition qpack_decode :: "qpack_decoder \<Rightarrow> bytes \<Rightarrow> hpack_entry list res" where
  "qpack_decode d data =
     (if length data < 2 then Inr []
      else if 2 ^ 31 \<le> int (length data) then Inl Int_Narrowing
      else bindE (qpack_decode_int data 8) (\<lambda>(consumed, ric_encoded).
        if consumed = 0 then Inr []
        else let req_insert_count = qpack_insert_count d ric_encoded; rest = drop consumed data
             in if rest = [] then Inl Undefined_Behaviour
                else let sign_negative = (hd rest AND 0x80 \<noteq> 0)
                     in bindE (qpack_decode_int rest 7) (\<lambda>(db_consumed, delta_base).
                          if db_consumed = 0 then Inr []
                          else let base = (if req_insert_count = 0 then 0
                                           else if sign_negative then req_insert_count - 1 - delta_base
                                           else req_insert_count - 1 + delta_base)
                               in qpack_decode_lines (qd_table d) base (drop db_consumed rest) [])))"

section \<open>Encoder stream instructions\<close>

text \<open>One instruction: the bytes consumed, zero where the loop breaks, and the decoder after it.\<close>

definition qpack_count_insert :: "hpack_entry \<Rightarrow> qpack_decoder \<Rightarrow> qpack_decoder" where
  "qpack_count_insert e d =
     d\<lparr>qd_table := qt_insert e (qd_table d), qd_known_received_count := qd_known_received_count d + 1\<rparr>"

definition qpack_insert_value ::
  "qpack_decoder \<Rightarrow> bytes \<Rightarrow> nat \<Rightarrow> bytes \<Rightarrow> (nat \<times> qpack_decoder) res" where
  "qpack_insert_value d name pos data =
     bindE (qpack_decode_string (drop pos data)) (\<lambda>(val, slen).
       Inr (if slen = 0 then (0, d) else (pos + slen, qpack_count_insert (name, val) d)))"

definition qpack_instruction :: "qpack_decoder \<Rightarrow> bytes \<Rightarrow> (nat \<times> qpack_decoder) res" where
  "qpack_instruction d data =
     (let b = hd data in
      if b AND 0xC0 = 0xC0 then
        bindE (qpack_decode_int data 5) (\<lambda>(consumed, name_idx).
          if consumed = 0 then Inr (0, d)
          else qpack_insert_value d
                 (if b AND 0x20 \<noteq> 0 \<and> name_idx < of_nat (length qpack_static_table)
                  then fst (qpack_static_table ! unat name_idx) else []) consumed data)
      else if b AND 0xC0 = 0x00 \<and> b AND 0x20 \<noteq> 0 then
        bindE (qpack_decode_int data 5) (\<lambda>(consumed, name_idx).
          if consumed = 0 then Inr (0, d)
          else qpack_insert_value d
                 (case qt_get (qd_table d) name_idx of Some e \<Rightarrow> fst e | None \<Rightarrow> []) consumed data)
      else if b AND 0xE0 = 0x40 then
        bindE (qpack_decode_string (drop 1 data)) (\<lambda>(name, nlen).
          if nlen = 0 then Inr (0, d) else qpack_insert_value d name (1 + nlen) data)
      else if b AND 0xE0 = 0x20 then
        bindE (qpack_decode_int data 5) (\<lambda>(consumed, capacity).
          Inr (if consumed = 0 then (0, d)
               else (consumed, d\<lparr>qd_table := qt_set_max_size (unat capacity) (qd_table d)\<rparr>)))
      else if b AND 0xE0 = 0x00 \<and> b AND 0x10 = 0x00 then
        bindE (qpack_decode_int data 4) (\<lambda>(consumed, idx).
          Inr (if consumed = 0 then (0, d)
               else (consumed,
                 case qt_get (qd_table d) idx of
                   Some e \<Rightarrow> qpack_count_insert e d
                 | None \<Rightarrow> d\<lparr>qd_known_received_count := qd_known_received_count d + 1\<rparr>)))
      else Inr (0, d))"

function process_encoder_instructions :: "qpack_decoder \<Rightarrow> bytes \<Rightarrow> qpack_decoder res" where
  "process_encoder_instructions d data =
     (if data = [] then Inr d
      else bindE (qpack_instruction d data) (\<lambda>(n, d').
        if n = 0 then Inr d' else process_encoder_instructions d' (drop n data)))"
  by pat_completeness auto
termination
  by (relation "measure (\<lambda>(_, data). length data)") auto

declare process_encoder_instructions.simps [simp del]

section \<open>The codecs agree with HPACK's\<close>

lemma qpack_encode_int_loop_eq: "qpack_encode_int_loop n v buf = hpack_encode_int_loop n v buf"
proof (induction n v buf rule: qpack_encode_int_loop.induct)
  case (1 n v buf)
  then show ?case
    by (simp add: qpack_encode_int_loop.simps [of n v] hpack_encode_int_loop.simps [of n v])
qed

lemma qpack_encode_int_eq: "qpack_encode_int n v p m = hpack_encode_int n v p m"
  by (simp add: qpack_encode_int_def hpack_encode_int_def qpack_encode_int_loop_eq Let_def)

lemma qpack_decode_int_loop_eq: "qpack_decode_int_loop buf pos v m = hpack_decode_int_loop buf pos v m"
  by (induction buf pos v m rule: qpack_decode_int_loop.induct) (simp_all add: Let_def)

lemma qpack_decode_int_eq: "qpack_decode_int buf p = hpack_decode_int buf p"
  by (cases buf) (simp_all add: Let_def qpack_decode_int_loop_eq)

lemma qpack_encode_string_eq: "qpack_encode_string s = encode_string s"
  by (simp add: qpack_encode_string_def encode_string_def qpack_encode_int_eq)

interpretation qpack_int: prefix_int_codec "qpack_encode_int 64" qpack_decode_int
proof
  fix p :: nat and v :: u64 and m :: byte
  assume p: "0 < p" "p \<le> 8"
  show "\<exists>x tl. qpack_encode_int 64 v p m = (m OR x) # tl \<and> x AND mask p = x \<and> length tl \<le> 10"
    using encode_int_shape [OF p, of 64 v m] by (auto simp: qpack_encode_int_eq)
  fix rest assume "m AND mask p = 0"
  then show "qpack_decode_int (qpack_encode_int 64 v p m @ rest) p = Inr (length (qpack_encode_int 64 v p m), v)"
    using encode_int_shape [OF p, of 64 v m] by (auto simp: qpack_encode_int_eq qpack_decode_int_eq)
qed

lemma qpack_decode_string_of:
  assumes "decode_string buf = Inr (s, c)" and "s \<noteq> [] \<or> hd buf AND 0x80 = 0"
  shows "qpack_decode_string buf = Inr (s, c)"
proof (cases "hpack_decode_int buf 7")
  case (Inr r)
  obtain k w where "r = (k, w)" by (cases r)
  with Inr assms show ?thesis
    by (auto simp: decode_string_def qpack_decode_string_def qpack_decode_int_eq Let_def split: if_splits)
qed (use assms in \<open>auto simp: decode_string_def split: if_splits\<close>)

lemma qpack_string_round_trip:
  assumes "codable s" and "length rest < 2 ^ 63"
  shows "qpack_decode_string (qpack_encode_string s @ rest) = Inr (s, length (qpack_encode_string s))"
proof -
  have "hd (encode_string [] @ rest) AND 0x80 = 0"
    by (simp add: encode_string_def huffman_is_shorter_def hpack_encode_int_def mask_evals)
  then show ?thesis
    unfolding qpack_encode_string_eq
    by (intro qpack_decode_string_of string_round_trip assms) (cases s; simp)
qed

section \<open>Field sections: correctness\<close>

lemma index_of_Some: "index_of P table i = Some j \<Longrightarrow> i \<le> j \<and> j < i + length table \<and> P (table ! (j - i))"
  by (induction P table i rule: index_of.induct) (auto simp: nth_Cons' split: if_splits)

lemma length_qpack_static: "length qpack_static_table = 99"
  by (simp add: qpack_static_table_def)

lemma find_static_Some:
  "find_static name v = Some j \<Longrightarrow> j < 99 \<and> qpack_static_table ! j = (name, v)"
  unfolding find_static_def by (drule index_of_Some) (auto simp: length_qpack_static prod_eq_iff)

lemma find_static_name_Some:
  "find_static_name name = Some j \<Longrightarrow> j < 99 \<and> fst (qpack_static_table ! j) = name"
  unfolding find_static_name_def by (drule index_of_Some) (auto simp: length_qpack_static)

lemma static_index:
  assumes "j < 99"
  shows "\<not> of_nat (length qpack_static_table) \<le> (of_nat j :: u64)" and "unat (of_nat j :: u64) = j"
  using assms unat_of_nat_64 [of j] by (simp_all add: length_qpack_static word_le_nat_alt)

lemma qpack_literal_encoded:
  assumes "codable v" and "length rest < 2 ^ 63"
  shows "qpack_literal name (length pre) (pre @ qpack_encode_string v @ rest) =
    Inr (length (pre @ qpack_encode_string v), (name, v))"
  using qpack_string_round_trip [OF assms] encode_string_nonempty [of v]
  by (simp add: qpack_literal_def qpack_encode_string_eq)

lemma decode_field_line_encoded:
  assumes "header_codable h" and "length (qpack_encode_header h @ rest) < 2 ^ 63"
  shows "decode_field_line t base (qpack_encode_header h @ rest) = Inr (length (qpack_encode_header h), h)"
proof (cases "find_static (fst h) (snd h)")
  case (Some j)
  define e where "e = qpack_encode_int 64 (of_nat j) 6 0xC0"
  have "hd e AND 0xC0 = 0xC0" "e \<noteq> []"
    unfolding e_def by (simp_all add: qpack_int.enc_flags mask_evals qpack_int.enc_nonempty)
  moreover have "qpack_decode_int (e @ rest) 6 = Inr (length e, of_nat j)"
    unfolding e_def by (rule qpack_int.dec_enc) (simp_all add: mask_evals)
  ultimately show ?thesis
    using Some find_static_Some [OF Some]
    by (simp add: decode_field_line_def qpack_encode_header_def static_index flip: e_def)
next
  case None
  note no_static = None
  show ?thesis
  proof (cases "find_static_name (fst h)")
    case (Some j)
    define e where "e = qpack_encode_int 64 (of_nat j) 4 0x50"
    have "hd e AND 0xC0 = 0x40" "hd e AND 0xE0 = 0x40" "hd e AND 0x10 = 0x10" "e \<noteq> []"
      unfolding e_def by (simp_all add: qpack_int.enc_flags mask_evals qpack_int.enc_nonempty)
    moreover have "qpack_decode_int (e @ qpack_encode_string (snd h) @ rest) 4 = Inr (length e, of_nat j)"
      unfolding e_def by (rule qpack_int.dec_enc) (simp_all add: mask_evals)
    ultimately show ?thesis
      using Some no_static assms find_static_name_Some [OF Some] qpack_literal_encoded [of "snd h" rest "fst h" e]
      by (simp add: decode_field_line_def qpack_encode_header_def static_index header_codable_def flip: e_def)
  next
    case None
    have "qpack_literal (fst h) (length (0x20 # qpack_encode_string (fst h)))
        ((0x20 # qpack_encode_string (fst h)) @ qpack_encode_string (snd h) @ rest) =
      Inr (length ((0x20 # qpack_encode_string (fst h)) @ qpack_encode_string (snd h)), h)"
      using assms no_static None qpack_literal_encoded [of "snd h" rest "fst h" "0x20 # qpack_encode_string (fst h)"]
      by (simp add: header_codable_def qpack_encode_header_def)
    then show ?thesis
      using None no_static assms qpack_string_round_trip [of "fst h" "qpack_encode_string (snd h) @ rest"]
        encode_string_nonempty [of "fst h"]
      by (simp add: decode_field_line_def qpack_encode_header_def header_codable_def qpack_encode_string_eq)
  qed
qed

lemma qpack_encode_header_nonempty: "qpack_encode_header h \<noteq> []"
  by (auto simp: qpack_encode_header_def qpack_int.enc_nonempty split: option.splits)

lemma qpack_decode_lines_encoded:
  assumes "\<forall>h\<in>set hs. header_codable h" and "length (concat (map qpack_encode_header hs)) < 2 ^ 63"
  shows "qpack_decode_lines t base (concat (map qpack_encode_header hs)) acc = Inr (acc @ hs)"
  using assms
proof (induction hs arbitrary: acc)
  case Nil
  then show ?case by (simp add: qpack_decode_lines.simps)
next
  case (Cons h hs)
  then show ?case
    by (subst qpack_decode_lines.simps) (simp add: qpack_encode_header_nonempty decode_field_line_encoded)
qed


lemma qpack_decode_encoded:
  assumes "\<forall>h\<in>set hs. header_codable h" and "length (encode_static hs) < 2 ^ 31"
  shows "qpack_decode d (encode_static hs) = Inr hs"
proof -
  let ?lines = "concat (map qpack_encode_header hs)"
  have ints: "qpack_decode_int (0 # 0 # ?lines) 8 = Inr (1, 0)" "qpack_decode_int (0 # ?lines) 7 = Inr (1, 0)"
    by (simp_all add: mask_evals)
  have "length ?lines < 2 ^ 63" "\<not> 2 ^ 31 \<le> int (length (0 # 0 # ?lines))"
    using assms(2) by (simp_all add: encode_static_def)
  then show ?thesis
    using qpack_decode_lines_encoded [OF assms(1)]
    by (simp add: qpack_decode_def encode_static_def ints qpack_insert_count_def Let_def
        del: qpack_decode_int.simps)
qed

section \<open>Dynamic table: correctness\<close>

text \<open>The table is HPACK's with an insert count beside it.\<close>

definition qt_abs :: "qpack_dynamic_table \<Rightarrow> hpack_dynamic_table" where
  "qt_abs t = \<lparr>dt_max_size = qt_max_size t, dt_current_size = qt_current_size t, dt_entries = qt_entries t\<rparr>"

lemma qt_abs_simps [simp]:
  "dt_max_size (qt_abs t) = qt_max_size t" "dt_current_size (qt_abs t) = qt_current_size t"
  "dt_entries (qt_abs t) = qt_entries t"
  by (simp_all add: qt_abs_def)

lemma qt_entry_size_eq: "qt_entry_size e = entry_size e"
  by (simp add: qt_entry_size_def entry_size_def)

lemma qt_evict_for_refines: "qt_abs (qt_evict_for n t) = dt_evict_for n (qt_abs t)"
proof (induction n t rule: qt_evict_for.induct)
  case (1 n t)
  then show ?case
    by (simp add: qt_evict_for.simps [of n t] dt_evict_for.simps [of n "qt_abs t"] dt_evict_def
        qt_entry_size_eq) (simp add: qt_abs_def)
qed

lemma qt_evict_for_max: "qt_max_size (qt_evict_for n t) = qt_max_size t"
  by (metis dt_evict_for_max qt_abs_simps(1) qt_evict_for_refines)

lemma qt_insert_refines: "qt_abs (qt_insert e t) = dt_add e (qt_abs t)"
  using qt_evict_for_refines [of "entry_size e" t, symmetric]
  by (simp add: qt_insert_def dt_add_def Let_def qt_entry_size_eq qt_evict_for_max qt_abs_def)

lemma qt_set_max_size_refines: "qt_abs (qt_set_max_size n t) = dt_resize n (qt_abs t)"
  by (simp add: qt_set_max_size_def dt_resize_def qt_evict_for_refines) (simp add: qt_abs_def)

definition qt_inv :: "qpack_dynamic_table \<Rightarrow> bool" where
  "qt_inv t \<longleftrightarrow> qt_current_size t = table_size (qt_entries t) \<and> qt_current_size t \<le> qt_max_size t"

lemma qt_inv_abs: "qt_inv t \<longleftrightarrow> dt_inv (qt_abs t)"
  by (simp add: qt_inv_def dt_inv_def)

interpretation qpack_table: bounded_table qt_entries qt_max_size qt_inv qt_insert qt_set_max_size
proof
  fix t e n
  note * = qt_insert_refines [of e t] qt_set_max_size_refines [of n t]
  show "qt_max_size (qt_insert e t) = qt_max_size t"
    by (metis * hpack_table.add_capacity qt_abs_simps(1))
  show "qt_max_size (qt_set_max_size n t) = n"
    by (metis * hpack_table.resize_capacity qt_abs_simps(1))
  assume "qt_inv t"
  then have inv: "dt_inv (qt_abs t)" by (simp add: qt_inv_abs)
  show "table_size (qt_entries t) \<le> qt_max_size t"
    using hpack_table.ok_fits [OF inv] by simp
  show "qt_inv (qt_insert e t)" "qt_inv (qt_set_max_size n t)"
    using hpack_table.add_ok [OF inv] hpack_table.resize_ok [OF inv] by (simp_all add: qt_inv_abs *)
  show "qt_entries (qt_insert e t) = fit (qt_max_size t) (e # qt_entries t)"
    using hpack_table.add_entries [OF inv, of e] by (simp add: * [symmetric] del: fit.simps)
  show "qt_entries (qt_set_max_size n t) = fit n (qt_entries t)"
    using hpack_table.resize_entries [OF inv, of n] by (simp add: * [symmetric])
qed

text \<open>What the instruction loop keeps.\<close>

lemma qpack_instruction_keeps:
  assumes "qpack_instruction d data = Inr (n, d')" and "qt_inv (qd_table d)"
  shows "qt_inv (qd_table d') \<and> qt_max_size (qd_table d') = qt_max_size (qd_table d)"
proof -
  have insert: "qt_inv (qd_table (qpack_count_insert e d)) \<and>
      qt_max_size (qd_table (qpack_count_insert e d)) = qt_max_size (qd_table d)" for e
    using assms(2) by (simp add: qpack_count_insert_def qpack_table.add_ok qpack_table.add_capacity)
  have capacity_unreachable: "\<not> (b AND 0xE0 = 0x20 \<and> \<not> (b AND 0xC0 = 0x00 \<and> b AND 0x20 \<noteq> 0))" for b :: byte
  proof
    assume *: "b AND 0xE0 = 0x20 \<and> \<not> (b AND 0xC0 = 0x00 \<and> b AND 0x20 \<noteq> 0)"
    have "b AND 0xC0 = (b AND 0xE0) AND 0xC0" "b AND 0x20 = (b AND 0xE0) AND 0x20"
      by (simp_all add: and.assoc)
    then have "b AND 0xC0 = 0" "b AND 0x20 = 0x20"
      by (simp_all only: * simp_thms) simp_all
    with * show False by simp
  qed
  show ?thesis
    using assms insert capacity_unreachable [of "hd data"]
    by (auto simp: qpack_instruction_def qpack_insert_value_def bindE_eq_Inr_iff Let_def
        split: if_splits option.splits)
qed

lemma process_encoder_instructions_keeps:
  assumes "process_encoder_instructions d data = Inr d'" and "qt_inv (qd_table d)"
  shows "qt_inv (qd_table d') \<and> qt_max_size (qd_table d') = qt_max_size (qd_table d)"
  using assms
proof (induction d data rule: process_encoder_instructions.induct)
  case (1 d data)
  show ?case
  proof (cases "data = []")
    case True
    with 1(2,3) show ?thesis by (simp add: process_encoder_instructions.simps)
  next
    case False
    with 1(2) obtain n d1 where step: "qpack_instruction d data = Inr (n, d1)"
      and rest: "(if n = 0 then Inr d1 else process_encoder_instructions d1 (drop n data)) = Inr d'"
      by (auto simp: process_encoder_instructions.simps [of d data] bindE_eq_Inr_iff)
    then show ?thesis
      using 1(1) [OF False, of "(n, d1)" n d1] qpack_instruction_keeps [OF step 1(3)]
      by (auto split: if_splits)
  qed
qed


lemma process_insert_literal:
  assumes "header_codable h" and "length (qpack_encode_string (fst h) @ qpack_encode_string (snd h) @ rest) < 2 ^ 63"
  shows "process_encoder_instructions d (0x40 # qpack_encode_string (fst h) @ qpack_encode_string (snd h) @ rest) =
    process_encoder_instructions (qpack_count_insert h d) rest"
proof -
  have "qpack_decode_string (qpack_encode_string (fst h) @ qpack_encode_string (snd h) @ rest) =
      Inr (fst h, length (qpack_encode_string (fst h)))"
    "qpack_decode_string (qpack_encode_string (snd h) @ rest) = Inr (snd h, length (qpack_encode_string (snd h)))"
    using assms by (auto intro!: qpack_string_round_trip simp: header_codable_def)
  then show ?thesis
    using encode_string_nonempty
    by (subst process_encoder_instructions.simps)
       (simp add: qpack_instruction_def qpack_insert_value_def qpack_encode_string_eq Let_def)
qed

lemma qt_insert_count [simp]: "qt_insert_count (qt_insert e t) = qt_insert_count t + 1"
proof -
  have "qt_insert_count (qt_evict_for n t) = qt_insert_count t" for n
  proof (induction n t rule: qt_evict_for.induct)
    case (1 n t)
    then show ?case by (simp add: qt_evict_for.simps [of n t])
  qed
  then show ?thesis by (simp add: qt_insert_def Let_def)
qed

lemma length_qpack_encode_header [wire_simps]:
  "length (qpack_encode_header h) \<le> 23 + length (fst h) + length (snd h)"
  using length_encode_string [of "fst h"] length_encode_string [of "snd h"] 
    qpack_int.length_enc [of 6 "of_nat (the (find_static (fst h) (snd h)))" "0xC0"]
    qpack_int.length_enc [of 4 "of_nat (the (find_static_name (fst h)))" "0x50"]
  by (auto simp: qpack_encode_header_def qpack_encode_string_eq split: option.splits)

section \<open>Properties\<close>



text \<open>The encoder stream.  A literal insertion makes its header the newest entry of the dynamic
  table, with the insert and receive counts advanced by one, and the next field section can refer
  to it by index 0.\<close>

theorem qpack_insert_then_reference:
  assumes "header_codable h" and "qt_inv (qd_table d)" and "entry_size h \<le> qt_max_size (qd_table d)"
    and "length (qt_entries (qd_table d)) < 2 ^ 63"
    and "d' = d\<lparr>qd_table := qt_insert h (qd_table d), qd_known_received_count := qd_known_received_count d + 1\<rparr>"
  shows "process_encoder_instructions d (0x40 # qpack_encode_string (fst h) @ qpack_encode_string (snd h)) = Inr d' \<and>
    qt_insert_count (qd_table d') = qt_insert_count (qd_table d) + 1 \<and>
    qpack_decode d' [0x00, 0x00, 0x00] = Inr [h]"
proof (intro conjI)
  have d': "d' = qpack_count_insert h d" by (simp add: assms(5) qpack_count_insert_def)
  have len: "length (qpack_encode_string (fst h) @ qpack_encode_string (snd h) @ []) < 2 ^ 63"
    using assms(1) length_encode_string [of "fst h"] length_encode_string [of "snd h"]
    by (simp add: header_codable_def codable_def qpack_encode_string_eq)
  show "process_encoder_instructions d (0x40 # qpack_encode_string (fst h) @ qpack_encode_string (snd h)) = Inr d'"
    using process_insert_literal [OF assms(1) len, of d] by (simp add: d' process_encoder_instructions.simps)
  show "qt_insert_count (qd_table d') = qt_insert_count (qd_table d) + 1"
    by (simp add: assms(5) qt_insert_count)
  have "qt_entries (qd_table d') = h # fit (qt_max_size (qd_table d) - entry_size h) (qt_entries (qd_table d))"
    using qpack_table.add_entries [OF assms(2), of h] assms(3) by (simp add: assms(5))
  moreover have "length (fit (qt_max_size (qd_table d) - entry_size h) (qt_entries (qd_table d))) < 2 ^ 63"
    using assms(4) by (intro le_less_trans [OF prefix_length_le [OF prefix_fit]])
  ultimately have get: "qt_get (qd_table d') 0 = Some h"
    using unat_of_nat_64 [of "length (qt_entries (qd_table d'))"]
    by (simp add: qt_get_def word_le_nat_alt)
  have ints: "qpack_decode_int [0, 0, 0] 8 = Inr (1, 0)" "qpack_decode_int [0, 0] 7 = Inr (1, 0)"
    "qpack_decode_int [0] 4 = Inr (1, 0)"
    by (simp_all add: mask_evals)
  show "qpack_decode d' [0x00, 0x00, 0x00] = Inr [h]"
    by (simp add: qpack_decode_def ints qpack_insert_count_def qpack_decode_lines.simps decode_field_line_def get
        del: qpack_decode_int.simps)
qed


theorem qpack_insert_then_reference_witness:
  "\<exists>d'. process_encoder_instructions qpack_decoder_new
        (0x40 # qpack_encode_string (str ''x'') @ qpack_encode_string (str ''1'')) = Inr d' \<and>
     qt_insert_count (qd_table d') = 1 \<and> qpack_decode d' [0x00, 0x00, 0x00] = Inr [(str ''x'', str ''1'')]"
proof -
  have "header_codable (str ''x'', str ''1'')"
    by (simp add: header_codable_def codable_def huff_safe_iff)
  moreover have "qt_inv (qd_table qpack_decoder_new)"
    by (simp add: qt_inv_def qpack_decoder_new_def qpack_dynamic_table_new_def)
  ultimately show ?thesis
    using qpack_insert_then_reference [of "(str ''x'', str ''1'')" qpack_decoder_new, OF _ _ _ _ refl]
    by (auto simp: qpack_decoder_new_def qpack_dynamic_table_new_def entry_size_def)
qed

text \<open>Whatever bytes arrive on the encoder stream, the dynamic table keeps an exact byte count within
  its limit.  The limit itself never changes: the test for a name reference also accepts the
  pattern of Set Dynamic Table Capacity, whose branch is never reached.\<close>

theorem qpack_instructions_invariant:
  assumes "process_encoder_instructions d data = Inr d'" and "qt_inv (qd_table d)"
  shows "qt_current_size (qd_table d') = table_size (qt_entries (qd_table d')) \<and>
    qt_current_size (qd_table d') \<le> qt_max_size (qd_table d') \<and>
    qt_max_size (qd_table d') = qt_max_size (qd_table d)"
  using process_encoder_instructions_keeps [OF assms] by (simp add: qt_inv_def)

theorem qpack_instructions_invariant_witness:
  "\<exists>d'. process_encoder_instructions qpack_decoder_new [0x00] = Inr d' \<and> qt_max_size (qd_table d') = 4096"
proof -
  define d where "d = qpack_decoder_new\<lparr>qd_known_received_count := 1\<rparr>"
  have "qpack_decode_int [0] 4 = Inr (1, 0)" by (simp add: mask_evals)
  then have run: "process_encoder_instructions qpack_decoder_new [0x00] = Inr d"
    by (simp add: process_encoder_instructions.simps qpack_instruction_def d_def qt_get_def qpack_decoder_new_def
        qpack_dynamic_table_new_def del: qpack_decode_int.simps)
  have "qt_inv (qd_table qpack_decoder_new)"
    by (simp add: qt_inv_def qpack_decoder_new_def qpack_dynamic_table_new_def)
  from qpack_instructions_invariant [OF run this] run show ?thesis
    by (simp add: qpack_decoder_new_def qpack_dynamic_table_new_def)
qed

text \<open>A section whose first integer takes all its bytes makes the decoder read the byte behind
  the buffer.\<close>

theorem qpack_decode_reads_past_end:
  assumes "qpack_decode_int data 8 = Inr (length data, v)" and "2 \<le> length data" and "length data < 2 ^ 31"
  shows "qpack_decode d data = Inl Undefined_Behaviour"
  using assms by (auto simp: qpack_decode_def Let_def)

theorem qpack_decode_reads_past_end_witness:
  "qpack_decode qpack_decoder_new [0xFF, 0x00] = Inl Undefined_Behaviour"
  by (rule qpack_decode_reads_past_end [of _ 255]) (simp_all add: mask_evals)

end
