(* ===== verification/Frame_Stream.thy ===== *)
theory Frame_Stream
  imports Net_Prelude
begin

text \<open>
  The interface between a session and its incremental frame reader.  Both protocol stacks own a
  \<^verbatim>\<open>frame_reader\<close> with the operations \<^verbatim>\<open>feed\<close>, \<^verbatim>\<open>has_frame\<close> and \<^verbatim>\<open>take_frame\<close>, and drive it
  by the same loop: feed the bytes that are left, take the frame if one is complete, go on.

  The locale \<open>tracked_reader\<close> states what a session relies on: a reader stands for the bytes it has
  consumed, feeding moves bytes from the input into it, and a frame that is taken is the one a
  one-shot parse of those bytes gives.  \<open>incremental_reader\<close> is the case of a reader whose state
  determines these bytes, and \<open>prompt_reader\<close> adds that a frame is reported as soon as its last byte
  has been fed.
\<close>

section \<open>The drain loop\<close>

text \<open>
  \<open>parses parse w fs rest\<close>: taking frames off the front of \<open>w\<close> with a one-shot parser gives
  \<open>fs\<close> and leaves \<open>rest\<close>.
\<close>

inductive parses :: "(bytes \<Rightarrow> ('f \<times> bytes) option) \<Rightarrow> bytes \<Rightarrow> 'f list \<Rightarrow> bytes \<Rightarrow> bool"
  for parse where
  parses_Nil: "parses parse w [] w"
| parses_Cons: "parse w = Some (f, w') \<Longrightarrow> parses parse w' fs rest \<Longrightarrow> parses parse w (f # fs) rest"

inductive_cases parses_NilE: "parses parse w [] rest"
inductive_cases parses_ConsE: "parses parse w (f # fs) rest"
inductive_simps parses_Nil_simp: "parses parse w [] rest"
inductive_simps parses_Cons_simp: "parses parse w (f # fs) rest"

lemma parses_append:
  "parses parse w fs w' \<Longrightarrow> parses parse w' gs rest \<Longrightarrow> parses parse w (fs @ gs) rest"
  by (induction rule: parses.induct) (auto intro: parses.intros)

text \<open>Taking as many frames as the parser gives is deterministic.\<close>

lemma parses_unique:
  "parses parse w fs rest \<Longrightarrow> parse rest = None \<Longrightarrow>
   parses parse w gs rest' \<Longrightarrow> parse rest' = None \<Longrightarrow> fs = gs \<and> rest = rest'"
proof (induction arbitrary: gs rule: parses.induct)
  case (parses_Nil w)
  then show ?case by (cases gs) (auto simp: parses_Nil_simp parses_Cons_simp)
next
  case (parses_Cons w f w' fs rest)
  then show ?case by (cases gs) (auto simp: parses_Nil_simp parses_Cons_simp)
qed

text \<open>
  The loop a session runs over received bytes, collecting the frames instead of handling them:
  feed what is left, and while a frame is complete take it and feed again.  Each round spends one
  unit of fuel; \<open>drain_enough\<close> below says how much suffices.
\<close>

fun drain ::
  "('r \<Rightarrow> bytes \<Rightarrow> 'r \<times> nat) \<Rightarrow> ('r \<Rightarrow> bool) \<Rightarrow> ('r \<Rightarrow> 'f \<times> 'r) \<Rightarrow> nat \<Rightarrow> 'r \<Rightarrow> bytes
   \<Rightarrow> ('f list \<times> 'r) option"
where
  "drain feed has take_f 0 r data = None"
| "drain feed has take_f (Suc n) r data =
     (let (r1, c) = feed r data
      in if has r1
         then (let (f, r2) = take_f r1
               in map_option (\<lambda>(fs, r3). (f # fs, r3)) (drain feed has take_f n r2 (drop c data)))
         else Some ([], r1))"

section \<open>The interface\<close>

text \<open>
  \<open>holds r w\<close>: the reader is in a state it reaches by consuming \<open>w\<close> since the last frame was
  taken.  A reader may forget how the bytes were spelled, so this is a relation.
\<close>

locale tracked_reader =
  fixes holds :: "'r \<Rightarrow> bytes \<Rightarrow> bool"
    and feed :: "'r \<Rightarrow> bytes \<Rightarrow> 'r \<times> nat"
    and has_frame :: "'r \<Rightarrow> bool"
    and take_frame :: "'r \<Rightarrow> 'f \<times> 'r"
    and parse :: "bytes \<Rightarrow> ('f \<times> bytes) option"
  assumes feed_holds: "holds r w \<Longrightarrow> feed r data = (r', c) \<Longrightarrow>
          c \<le> length data \<and> holds r' (w @ take c data)"
    and feed_stop: "holds r w \<Longrightarrow> feed r data = (r', c) \<Longrightarrow> has_frame r' \<or> c = length data"
    and take_holds: "holds r w \<Longrightarrow> has_frame r \<Longrightarrow> take_frame r = (f, r') \<Longrightarrow>
          w \<noteq> [] \<and> holds r' [] \<and> parse (w @ x) = Some (f, x)"
begin

text \<open>
  The drain loop ends, and the frames it delivers are those of a one-shot parse of everything
  received so far.
\<close>

lemma drain_sound:
  assumes "holds r w" and "length w + length data < n"
  shows "\<exists>fs r' w'. drain feed has_frame take_frame n r data = Some (fs, r') \<and> holds r' w' \<and>
           \<not> has_frame r' \<and> parses parse (w @ data) fs w'"
  using assms
proof (induction n arbitrary: r w data)
  case 0
  then show ?case by simp
next
  case (Suc n)
  obtain r1 c where fd: "feed r data = (r1, c)" by force
  have mv: "c \<le> length data" "holds r1 (w @ take c data)"
    using feed_holds [OF Suc.prems(1) fd] by auto
  show ?case
  proof (cases "has_frame r1")
    case False
    then have "c = length data" using feed_stop [OF Suc.prems(1) fd] by simp
    then show ?thesis using False fd mv by (auto simp: parses_Nil_simp)
  next
    case True
    obtain f r2 where tk: "take_frame r1 = (f, r2)" by force
    note taken = take_holds [OF mv(2) True tk]
    have "length w \<noteq> 0 \<or> c \<noteq> 0" using taken [of "[]"] by auto
    then have "length (drop c data) < n"
      using Suc.prems(2) mv(1) by (cases w) auto
    then obtain fs r' w' where IH: "drain feed has_frame take_frame n r2 (drop c data) = Some (fs, r')"
      "holds r' w'" "\<not> has_frame r'" "parses parse (drop c data) fs w'"
      using Suc.IH [of r2 "[]" "drop c data"] taken by auto
    have "parses parse ((w @ take c data) @ drop c data) (f # fs) w'"
      using taken IH(4) by (blast intro: parses_Cons)
    then show ?thesis using True fd tk IH by auto
  qed
qed

end

text \<open>A reader that keeps all the bytes of the frame it is reading determines them.\<close>

locale incremental_reader =
  fixes reader_ok :: "'r \<Rightarrow> bool"
    and buffered :: "'r \<Rightarrow> bytes"
    and feed :: "'r \<Rightarrow> bytes \<Rightarrow> 'r \<times> nat"
    and has_frame :: "'r \<Rightarrow> bool"
    and take_frame :: "'r \<Rightarrow> 'f \<times> 'r"
    and parse :: "bytes \<Rightarrow> ('f \<times> bytes) option"
  assumes feed_ok: "reader_ok r \<Longrightarrow> feed r data = (r', c) \<Longrightarrow> reader_ok r'"
    and feed_moves: "reader_ok r \<Longrightarrow> feed r data = (r', c) \<Longrightarrow>
          c \<le> length data \<and> buffered r' = buffered r @ take c data"
    and feed_stops: "reader_ok r \<Longrightarrow> feed r data = (r', c) \<Longrightarrow> has_frame r' \<or> c = length data"
    and take_nonempty: "reader_ok r \<Longrightarrow> has_frame r \<Longrightarrow> buffered r \<noteq> []"
    and take_ok: "reader_ok r \<Longrightarrow> has_frame r \<Longrightarrow> take_frame r = (f, r') \<Longrightarrow>
          reader_ok r' \<and> buffered r' = []"
    and take_parse: "reader_ok r \<Longrightarrow> has_frame r \<Longrightarrow> take_frame r = (f, r') \<Longrightarrow>
          parse (buffered r @ w) = Some (f, w)"

sublocale incremental_reader \<subseteq> tracked: tracked_reader "\<lambda>r w. reader_ok r \<and> w = buffered r"
  feed has_frame take_frame parse
  by unfold_locales
     (use feed_moves feed_ok feed_stops in \<open>fastforce dest: take_ok take_nonempty take_parse\<close>)+

context incremental_reader
begin

lemma drain_enough:
  assumes "reader_ok r" and "length (buffered r) + length data < n"
  shows "\<exists>fs r'. drain feed has_frame take_frame n r data = Some (fs, r') \<and> reader_ok r' \<and>
           \<not> has_frame r' \<and> parses parse (buffered r @ data) fs (buffered r')"
  using tracked.drain_sound [of r "buffered r" data n] assms by blast

end

text \<open>
  A prompt reader reports a frame as soon as it is complete, so what it delivers does not depend
  on how the transport cut the byte stream.
\<close>

locale prompt_reader = incremental_reader +
  assumes no_frame: "reader_ok r \<Longrightarrow> \<not> has_frame r \<Longrightarrow> parse (buffered r) = None"
    and parse_append: "parse w = Some (f, w') \<Longrightarrow> parse (w @ x) = Some (f, w' @ x)"
begin

lemma parses_extend:
  "parses parse w fs rest \<Longrightarrow> parses parse (w @ x) fs (rest @ x)"
  by (induction rule: parses.induct) (auto intro: parses.intros parse_append)

lemma drain_complete:
  assumes "reader_ok r" and "drain feed has_frame take_frame n r data = Some (fs, r')"
    and "length (buffered r) + length data < n"
  shows "reader_ok r' \<and> parses parse (buffered r @ data) fs (buffered r') \<and>
         parse (buffered r') = None"
  using drain_enough [OF assms(1,3)] assms(2) no_frame by auto

lemma drain_chunks:
  assumes ok: "reader_ok r"
    and one: "drain feed has_frame take_frame n r (a @ b) = Some (fs, r')"
    and fst: "drain feed has_frame take_frame k r a = Some (gs, r1)"
    and snd: "drain feed has_frame take_frame m r1 b = Some (hs, r2)"
    and fuel: "length (buffered r) + length (a @ b) < n" "length (buffered r) + length a < k"
      "length (buffered r1) + length b < m"
  shows "fs = gs @ hs \<and> buffered r' = buffered r2"
proof -
  note A = drain_complete [OF ok fst fuel(2)]
  have B: "parses parse (buffered r1 @ b) hs (buffered r2)" "parse (buffered r2) = None"
    using drain_complete [OF _ snd fuel(3)] A by auto
  have "parses parse (buffered r @ a @ b) (gs @ hs) (buffered r2)"
    using A B parses_append parses_extend [of _ gs _ b] by (metis append_assoc)
  then show ?thesis
    using drain_complete [OF ok one fuel(1)] B(2) parses_unique by metis
qed

end

end
