(* ===== verification/H3_Frame.thy ===== *)
theory H3_Frame
  imports Frame_Stream
begin

text \<open>
  The HTTP/3 frame layer, \<^verbatim>\<open>src/http/h3_frame.hpp\<close>: QUIC variable-length integers, frame builders and
  payload parsers, and the incremental \<^verbatim>\<open>frame_reader\<close>.

  The reader keeps the value of a frame's type and length but not how they were spelled, so it is
  an instance of the relational reader interface.  It is not prompt: a frame without payload is
  reported only when a byte follows it.  Memory exhaustion while a buffer grows is not modelled.
\<close>

section \<open>Variable-length integers\<close>

text \<open>The bytes written, none when the value needs more than 62 bits or the buffer is too short.\<close>

definition encode_varint :: "nat \<Rightarrow> u64 \<Rightarrow> bytes" where
  "encode_varint bufsize value =
     (if value < 64 then
        (if bufsize < 1 then [] else [ucast value])
      else if value < 16384 then
        (if bufsize < 2 then [] else [ucast (drop_bit 8 value OR 0x40), byte_at value 0])
      else if value < 1073741824 then
        (if bufsize < 4 then []
         else [ucast (drop_bit 24 value OR 0x80), byte_at value 16, byte_at value 8, byte_at value 0])
      else if value < 4611686018427387904 then
        (if bufsize < 8 then []
         else [ucast (drop_bit 56 value OR 0xC0), byte_at value 48, byte_at value 40, byte_at value 32,
               byte_at value 24, byte_at value 16, byte_at value 8, byte_at value 0])
      else [])"

text \<open>The value and the bytes consumed; \<open>None\<close> is the return value 0.\<close>

definition decode_varint :: "bytes \<Rightarrow> (u64 \<times> nat) option" where
  "decode_varint buf =
     (if buf = [] then None
      else let prefix = drop_bit 6 (hd buf); first = ucast (hd buf AND 0x3F) :: u64;
               at = (\<lambda>i. ucast (buf ! i) :: u64)
           in if prefix = 0 then Some (first, 1)
              else if prefix = 1 then
                (if length buf < 2 then None else Some (push_bit 8 first OR at 1, 2))
              else if prefix = 2 then
                (if length buf < 4 then None
                 else Some (push_bit 24 first OR push_bit 16 (at 1) OR push_bit 8 (at 2) OR at 3, 4))
              else if prefix = 3 then
                (if length buf < 8 then None
                 else Some (push_bit 56 first OR push_bit 48 (at 1) OR push_bit 40 (at 2) OR
                            push_bit 32 (at 3) OR push_bit 24 (at 4) OR push_bit 16 (at 5) OR
                            push_bit 8 (at 6) OR at 7, 8))
              else None)"

definition append_varint :: "bytes \<Rightarrow> u64 \<Rightarrow> bytes" where
  "append_varint out value = out @ encode_varint 8 value"

section \<open>Frames\<close>

datatype h3_frame_type =
    H3_DATA | H3_HEADERS | H3_CANCEL_PUSH | H3_SETTINGS | H3_PUSH_PROMISE | H3_GOAWAY | H3_MAX_PUSH_ID
  | H3_Other_type u64

definition h3_type_code :: "h3_frame_type \<Rightarrow> u64" where
  "h3_type_code t = (case t of H3_DATA \<Rightarrow> 0x00 | H3_HEADERS \<Rightarrow> 0x01 | H3_CANCEL_PUSH \<Rightarrow> 0x03
     | H3_SETTINGS \<Rightarrow> 0x04 | H3_PUSH_PROMISE \<Rightarrow> 0x05 | H3_GOAWAY \<Rightarrow> 0x07 | H3_MAX_PUSH_ID \<Rightarrow> 0x0D
     | H3_Other_type c \<Rightarrow> c)"

definition h3_type_of :: "u64 \<Rightarrow> h3_frame_type" where
  "h3_type_of c = (if c = 0x00 then H3_DATA else if c = 0x01 then H3_HEADERS
     else if c = 0x03 then H3_CANCEL_PUSH else if c = 0x04 then H3_SETTINGS
     else if c = 0x05 then H3_PUSH_PROMISE else if c = 0x07 then H3_GOAWAY
     else if c = 0x0D then H3_MAX_PUSH_ID else H3_Other_type c)"

datatype h3_setting_id = MAX_FIELD_SECTION_SIZE | H3_Other_setting u64

definition h3_setting_code :: "h3_setting_id \<Rightarrow> u64" where
  "h3_setting_code s = (case s of MAX_FIELD_SECTION_SIZE \<Rightarrow> 0x06 | H3_Other_setting c \<Rightarrow> c)"

definition h3_setting_of :: "u64 \<Rightarrow> h3_setting_id" where
  "h3_setting_of c = (if c = 0x06 then MAX_FIELD_SECTION_SIZE else H3_Other_setting c)"

record h3_setting_entry =
  h3_id :: h3_setting_id
  h3_value :: u64

datatype h3_stream_type = CONTROL | PUSH | QPACK_ENCODER | QPACK_DECODER | Other_stream_type u64

definition h3_stream_type_code :: "h3_stream_type \<Rightarrow> u64" where
  "h3_stream_type_code t = (case t of CONTROL \<Rightarrow> 0x00 | PUSH \<Rightarrow> 0x01 | QPACK_ENCODER \<Rightarrow> 0x02
     | QPACK_DECODER \<Rightarrow> 0x03 | Other_stream_type c \<Rightarrow> c)"

record h3_frame =
  h3_type :: h3_frame_type
  h3_payload :: bytes

definition h3_build_frame :: "h3_frame_type \<Rightarrow> bytes \<Rightarrow> bytes" where
  "h3_build_frame type payload =
     append_varint (append_varint [] (h3_type_code type)) (of_nat (length payload)) @ payload"

definition build_data_frame :: "bytes \<Rightarrow> bytes" where
  "build_data_frame data = h3_build_frame H3_DATA data"

definition h3_build_headers_frame :: "bytes \<Rightarrow> bytes" where
  "h3_build_headers_frame qpack_data = h3_build_frame H3_HEADERS qpack_data"

definition h3_settings_payload :: "h3_setting_entry list \<Rightarrow> bytes" where
  "h3_settings_payload settings =
     fold (\<lambda>s payload. append_varint (append_varint payload (h3_setting_code (h3_id s))) (h3_value s))
       settings []"

definition h3_build_settings_frame :: "h3_setting_entry list \<Rightarrow> bytes" where
  "h3_build_settings_frame settings = h3_build_frame H3_SETTINGS (h3_settings_payload settings)"

definition build_goaway_frame :: "u64 \<Rightarrow> bytes" where
  "build_goaway_frame stream_id = h3_build_frame H3_GOAWAY (append_varint [] stream_id)"

definition build_cancel_push_frame :: "u64 \<Rightarrow> bytes" where
  "build_cancel_push_frame push_id = h3_build_frame H3_CANCEL_PUSH (append_varint [] push_id)"

definition build_push_promise_frame :: "u64 \<Rightarrow> bytes \<Rightarrow> bytes" where
  "build_push_promise_frame push_id qpack_headers =
     h3_build_frame H3_PUSH_PROMISE (append_varint [] push_id @ qpack_headers)"

definition build_max_push_id_frame :: "u64 \<Rightarrow> bytes" where
  "build_max_push_id_frame push_id = h3_build_frame H3_MAX_PUSH_ID (append_varint [] push_id)"

record h3_push_promise_data =
  h3_push_id :: u64
  h3_header_block :: bytes

definition h3_parse_push_promise :: "bytes \<Rightarrow> h3_push_promise_data" where
  "h3_parse_push_promise data =
     (case decode_varint data of
        None \<Rightarrow> \<lparr>h3_push_id = 0, h3_header_block = []\<rparr>
      | Some (pid, n) \<Rightarrow>
          \<lparr>h3_push_id = pid, h3_header_block = (if n < length data then drop n data else [])\<rparr>)"

lemma decode_varint_pos: "decode_varint buf = Some (v, n) \<Longrightarrow> 0 < n \<and> n \<le> length buf"
  by (cases buf) (auto simp: decode_varint_def Let_def Suc_le_eq split: if_splits)

function h3_parse_settings_loop :: "bytes \<Rightarrow> h3_setting_entry list \<Rightarrow> h3_setting_entry list" where
  "h3_parse_settings_loop data settings =
     (if data = [] then settings
      else case decode_varint data of
        None \<Rightarrow> settings
      | Some (sid, n) \<Rightarrow>
          (case decode_varint (drop n data) of
             None \<Rightarrow> settings
           | Some (val, k) \<Rightarrow>
               h3_parse_settings_loop (drop k (drop n data))
                 (settings @ [\<lparr>h3_id = h3_setting_of sid, h3_value = val\<rparr>])))"
  by pat_completeness auto
termination
  by (relation "measure (\<lambda>(data, _). length data)") (auto dest: decode_varint_pos)

declare h3_parse_settings_loop.simps [simp del]

definition h3_parse_settings :: "bytes \<Rightarrow> h3_setting_entry list" where
  "h3_parse_settings data = h3_parse_settings_loop data []"

definition h3_parse_goaway :: "bytes \<Rightarrow> u64 option" where
  "h3_parse_goaway data = map_option fst (decode_varint data)"

section \<open>The incremental reader\<close>

datatype h3_state = READ_TYPE | READ_LENGTH | READ_PAYLOAD | COMPLETE

text \<open>
  \<open>r3_varint_buf\<close> is the filled part of \<^verbatim>\<open>varint_buf_\<close>, so its length is \<^verbatim>\<open>varint_buf_len_\<close>.
\<close>

record h3_reader =
  r3_state :: h3_state
  r3_type :: h3_frame_type
  r3_type_val :: u64
  r3_length_val :: u64
  r3_length :: u64
  r3_payload :: bytes
  r3_varint_complete :: bool
  r3_varint_buf :: bytes
  r3_varint_expected :: nat

definition h3_reader_init :: h3_reader where
  "h3_reader_init = \<lparr>r3_state = READ_TYPE, r3_type = H3_DATA, r3_type_val = 0, r3_length_val = 0,
     r3_length = 0, r3_payload = [], r3_varint_complete = False, r3_varint_buf = [],
     r3_varint_expected = 0\<rparr>"

definition varint_size :: "byte \<Rightarrow> nat" where
  "varint_size b = (let prefix = drop_bit 6 b
     in if prefix = 0 then 1 else if prefix = 1 then 2 else if prefix = 2 then 4 else 8)"

text \<open>The bytes consumed, the reader, and the accumulator the caller passed by reference.\<close>

definition feed_varint :: "h3_reader \<Rightarrow> bytes \<Rightarrow> u64 \<Rightarrow> nat \<times> h3_reader \<times> u64" where
  "feed_varint r data accum =
     (if data = [] then (0, r, accum)
      else let r1 = (if r3_varint_expected r = 0
                     then r\<lparr>r3_varint_expected := varint_size (hd data), r3_varint_buf := []\<rparr> else r);
               needed = r3_varint_expected r1 - length (r3_varint_buf r1);
               to_copy = min needed (length data);
               buf = r3_varint_buf r1 @ take to_copy data;
               r2 = r1\<lparr>r3_varint_buf := buf\<rparr>
           in if length buf = r3_varint_expected r2
              then (case decode_varint buf of
                      Some (val, _) \<Rightarrow>
                        (to_copy, r2\<lparr>r3_varint_complete := True, r3_varint_expected := 0, r3_varint_buf := []\<rparr>, val)
                    | None \<Rightarrow> (to_copy, r2, accum))
              else (to_copy, r2, accum))"

text \<open>The cases of the switch in \<^verbatim>\<open>feed\<close>: the bytes consumed and the reader.\<close>

definition read_type :: "h3_reader \<Rightarrow> bytes \<Rightarrow> nat \<times> h3_reader" where
  "read_type r data =
     (let (n, r1, acc) = feed_varint r data (r3_type_val r); r2 = r1\<lparr>r3_type_val := acc\<rparr>
      in (n, if r3_varint_complete r2
             then r2\<lparr>r3_type := h3_type_of (r3_type_val r2), r3_type_val := 0,
                     r3_varint_complete := False, r3_state := READ_LENGTH\<rparr>
             else r2))"

definition read_length :: "h3_reader \<Rightarrow> bytes \<Rightarrow> nat \<times> h3_reader" where
  "read_length r data =
     (let (n, r1, acc) = feed_varint r data (r3_length_val r); r2 = r1\<lparr>r3_length_val := acc\<rparr>
      in (n, if r3_varint_complete r2
             then r2\<lparr>r3_length := r3_length_val r2, r3_length_val := 0, r3_varint_complete := False,
                     r3_payload := [], r3_state := READ_PAYLOAD\<rparr>
             else r2))"

definition read_payload :: "h3_reader \<Rightarrow> bytes \<Rightarrow> nat \<times> h3_reader" where
  "read_payload r data =
     (let remaining = r3_length r - of_nat (length (r3_payload r));
          to_copy = min (unat remaining) (length data);
          payload = r3_payload r @ take to_copy data;
          r1 = r\<lparr>r3_payload := payload\<rparr>
      in (to_copy, if of_nat (length payload) = r3_length r then r1\<lparr>r3_state := COMPLETE\<rparr> else r1))"

lemma read_payload_progress:
  assumes "read_payload r data = (n, r')" and "data \<noteq> []"
  shows "0 < n \<or> r3_state r' = COMPLETE"
proof (cases "r3_length r = of_nat (length (r3_payload r))")
  case False
  then have "0 < unat (r3_length r - of_nat (length (r3_payload r)))"
    by (simp add: unat_gt_0)
  then show ?thesis using assms by (auto simp: read_payload_def Let_def)
qed (use assms in \<open>auto simp: read_payload_def\<close>)

function h3_reader_feed_loop :: "h3_reader \<Rightarrow> bytes \<Rightarrow> nat \<Rightarrow> h3_reader \<times> nat" where
  "h3_reader_feed_loop r data consumed =
     (if data = [] then (r, consumed)
      else case r3_state r of
        READ_TYPE \<Rightarrow>
          (let (n, r1) = read_type r data
           in if n = 0 then (r1, consumed) else h3_reader_feed_loop r1 (drop n data) (consumed + n))
      | READ_LENGTH \<Rightarrow>
          (let (n, r1) = read_length r data
           in if n = 0 then (r1, consumed) else h3_reader_feed_loop r1 (drop n data) (consumed + n))
      | READ_PAYLOAD \<Rightarrow>
          (let (n, r1) = read_payload r data
           in h3_reader_feed_loop r1 (drop n data) (consumed + n))
      | COMPLETE \<Rightarrow> (r, consumed))"
  by pat_completeness auto
termination
proof (relation "measures [\<lambda>(_, data, _). length data, \<lambda>(r, _, _). if r3_state r = COMPLETE then 0 else 1]", goal_cases)
  case (4 r data consumed x n r1)
  then show ?case using read_payload_progress [of r data n r1] by auto
qed auto

declare h3_reader_feed_loop.simps [simp del]

definition h3_reader_feed :: "h3_reader \<Rightarrow> bytes \<Rightarrow> h3_reader \<times> nat" where
  "h3_reader_feed r data = h3_reader_feed_loop r data 0"

definition h3_has_frame :: "h3_reader \<Rightarrow> bool" where
  "h3_has_frame r \<longleftrightarrow> r3_state r = COMPLETE"

definition h3_take_frame :: "h3_reader \<Rightarrow> h3_frame \<times> h3_reader" where
  "h3_take_frame r =
     (\<lparr>h3_type = r3_type r, h3_payload = r3_payload r\<rparr>,
      r\<lparr>r3_state := READ_TYPE, r3_type_val := 0, r3_length_val := 0, r3_varint_complete := False,
        r3_payload := []\<rparr>)"

definition h3_reader_reset :: "h3_reader \<Rightarrow> h3_reader" where
  "h3_reader_reset r = r\<lparr>r3_state := READ_TYPE, r3_type_val := 0, r3_length_val := 0,
     r3_varint_complete := False, r3_payload := []\<rparr>"

section \<open>Variable-length integers: correctness\<close>

lemma byte_63: "(0x3F :: byte) = mask 6" by (simp add: mask_eq_exp_minus_1)

text \<open>The first byte carries the tag in its top two bits and the value's top bits below.\<close>

lemma tagged_byte:
  fixes w t :: u64
  assumes "unat w < 2 ^ 6" and "unat t < 2 ^ 2"
  shows "drop_bit 6 (ucast (w OR push_bit 6 t) :: byte) = ucast t"
    and "ucast ((ucast (w OR push_bit 6 t) :: byte) AND 0x3F) = w"
proof -
  note hw = not_bit_of_unat_less [OF assms(1)] and ht = not_bit_of_unat_less [OF assms(2)]
  show "drop_bit 6 (ucast (w OR push_bit 6 t) :: byte) = ucast t"
  proof (rule bit_word_eqI)
    fix n assume "n < LENGTH(8)"
    then show "bit (drop_bit 6 (ucast (w OR push_bit 6 t) :: byte)) n = bit (ucast t :: byte) n"
      using hw [of "6 + n"] ht [of n] by (cases "n < 2") (auto simp: bit_simps)
  qed
  show "ucast ((ucast (w OR push_bit 6 t) :: byte) AND 0x3F) = w"
  proof (rule bit_word_eqI)
    fix n assume "n < LENGTH(64)"
    then show "bit (ucast ((ucast (w OR push_bit 6 t) :: byte) AND 0x3F) :: u64) n = bit w n"
      using hw [of n] by (cases "n < 6") (auto simp: bit_simps byte_63)
  qed
qed

lemma unat_drop_bit_less: "unat (v :: u64) < 2 ^ (n + k) \<Longrightarrow> unat (drop_bit n v) < 2 ^ k"
  unfolding unat_drop_bit_eq
  by (simp add: drop_bit_eq_div [of n "unat v"] power_add less_mult_imp_div_less mult.commute)

lemma varint_tag:
  fixes v :: u64
  assumes "unat v < 2 ^ (n + 6)"
  shows "drop_bit 6 (ucast (drop_bit n v OR 0x40) :: byte) = 1"
        "ucast ((ucast (drop_bit n v OR 0x40) :: byte) AND 0x3F) = drop_bit n v"
        "drop_bit 6 (ucast (drop_bit n v OR 0x80) :: byte) = 2"
        "ucast ((ucast (drop_bit n v OR 0x80) :: byte) AND 0x3F) = drop_bit n v"
        "drop_bit 6 (ucast (drop_bit n v OR 0xC0) :: byte) = 3"
        "ucast ((ucast (drop_bit n v OR 0xC0) :: byte) AND 0x3F) = drop_bit n v"
  using tagged_byte [OF unat_drop_bit_less [OF assms], of 1] tagged_byte [OF unat_drop_bit_less [OF assms], of 2]
    tagged_byte [OF unat_drop_bit_less [OF assms], of 3]
  by simp_all

lemma varint_untagged:
  fixes v :: u64
  assumes "unat v < 2 ^ 6"
  shows "drop_bit 6 (ucast v :: byte) = 0" "ucast ((ucast v :: byte) AND 0x3F) = v"
  using tagged_byte [OF assms, of 0] by simp_all

lemma join_byte:
  fixes v :: u64
  shows "push_bit (k + 8) (drop_bit (k + 8) v) OR push_bit k (ucast (byte_at v k)) = push_bit k (drop_bit k v)"
proof (rule bit_word_eqI)
  fix n assume "n < LENGTH(64)"
  then show "bit (push_bit (k + 8) (drop_bit (k + 8) v) OR push_bit k (ucast (byte_at v k))) n =
      bit (push_bit k (drop_bit k v)) n"
    by (cases "n < k"; cases "n < k + 8") (auto simp: bit_simps bit_byte_at)
qed

lemmas join_bytes =
  join_byte [of 0, simplified] join_byte [of 8, simplified] join_byte [of 16, simplified]
  join_byte [of 24, simplified] join_byte [of 32, simplified] join_byte [of 40, simplified]
  join_byte [of 48, simplified]

lemma join_byte_assoc:
  fixes v x :: u64
  shows "push_bit (k + 8) (drop_bit (k + 8) v) OR (push_bit k (ucast (byte_at v k)) OR x) = push_bit k (drop_bit k v) OR x"
  by (simp only: or.assoc [symmetric] join_byte)

lemma decode_encode_varint:
  assumes "unat v < 2 ^ 62"
  shows "decode_varint (encode_varint 8 v @ rest) = Some (v, length (encode_varint 8 v)) \<and>
    encode_varint 8 v \<noteq> []"
proof -
  consider (a) "v < 64" | (b) "\<not> v < 64" "v < 16384" | (c) "\<not> v < 64" "\<not> v < 16384" "v < 1073741824"
    | (d) "\<not> v < 64" "\<not> v < 16384" "\<not> v < 1073741824" "v < 4611686018427387904"
    using assms by (force simp: word_less_nat_alt)
  then show ?thesis
  proof cases
    case a
    then have "unat v < 2 ^ 6" by (simp add: word_less_nat_alt)
    from varint_untagged [OF this] a show ?thesis by (simp add: encode_varint_def decode_varint_def)
  next
    case b
    then have "unat v < 2 ^ (8 + 6)" by (simp add: word_less_nat_alt)
    from varint_tag [OF this] b show ?thesis
      using join_byte [of 0 v] by (simp add: encode_varint_def decode_varint_def)
  next
    case c
    then have "unat v < 2 ^ (24 + 6)" by (simp add: word_less_nat_alt)
    from varint_tag [OF this] c show ?thesis
      using join_byte [of 0 v] join_byte_assoc [of 8 v] join_byte_assoc [of 16 v]
      by (simp add: encode_varint_def decode_varint_def or.assoc)
  next
    case d
    then have "unat v < 2 ^ (56 + 6)" by (simp add: word_less_nat_alt)
    from varint_tag [OF this] d show ?thesis
      using join_byte [of 0 v] join_byte_assoc [of 8 v] join_byte_assoc [of 16 v] join_byte_assoc [of 24 v]
        join_byte_assoc [of 32 v] join_byte_assoc [of 40 v] join_byte_assoc [of 48 v]
      by (simp add: encode_varint_def decode_varint_def or.assoc)
  qed
qed


lemma prefix_cases: "drop_bit 6 (b :: byte) \<in> {0, 1, 2, 3}"
proof -
  have "unat (drop_bit 6 b) = unat b div 64"
    unfolding unat_drop_bit_eq by (simp add: drop_bit_eq_div [of 6 "unat b"])
  moreover have "unat b < 256"
    using unsigned_less [of b, where ?'a = nat] by simp
  ultimately have "unat (drop_bit 6 b) < 4" by simp
  then have "unat (drop_bit 6 b) \<in> {unat (0::byte), unat (1::byte), unat (2::byte), unat (3::byte)}"
    by auto
  then show ?thesis unfolding insert_iff by (simp add: word_unat_eq_iff)
qed

lemma varint_size_pos: "0 < varint_size b" "varint_size b \<le> 8"
  by (auto simp: varint_size_def Let_def)

lemma decode_varint_full:
  assumes "buf \<noteq> []" and "varint_size (hd buf) \<le> length buf"
  shows "\<exists>v. decode_varint buf = Some (v, varint_size (hd buf))"
  using assms prefix_cases [of "hd buf"]
  by (auto simp: decode_varint_def varint_size_def Let_def)

lemma decode_varint_short:
  assumes "length buf < varint_size (hd buf)"
  shows "decode_varint buf = None"
  using assms prefix_cases [of "hd buf"]
  by (cases buf) (auto simp: decode_varint_def varint_size_def Let_def split: if_splits)

lemma decode_varint_append:
  assumes "decode_varint buf = Some (v, n)"
  shows "decode_varint (buf @ x) = Some (v, n)"
proof -
  have "buf \<noteq> []" using decode_varint_pos [OF assms] by auto
  then have "hd (buf @ x) = hd buf" by simp
  with assms \<open>buf \<noteq> []\<close> show ?thesis
    by (auto simp: decode_varint_def Let_def nth_append split: if_splits)
qed

section \<open>The reader implements the reader interface\<close>

text \<open>The one-shot parse of a frame off the front of a byte string.\<close>

definition h3_parse_frame :: "bytes \<Rightarrow> (h3_frame \<times> bytes) option" where
  "h3_parse_frame w =
     (case decode_varint w of
        None \<Rightarrow> None
      | Some (t, n) \<Rightarrow>
          (case decode_varint (drop n w) of
             None \<Rightarrow> None
           | Some (l, k) \<Rightarrow>
               let rest = drop k (drop n w)
               in if length rest < unat l then None
                  else Some (\<lparr>h3_type = h3_type_of t, h3_payload = take (unat l) rest\<rparr>, drop (unat l) rest)))"

text \<open>A partly read integer: the bytes so far and the number announced by the first.\<close>

definition varint_part :: "h3_reader \<Rightarrow> bool" where
  "varint_part r \<longleftrightarrow> \<not> r3_varint_complete r \<and>
     (if r3_varint_buf r = [] then r3_varint_expected r = 0
      else r3_varint_expected r = varint_size (hd (r3_varint_buf r)) \<and>
           length (r3_varint_buf r) < r3_varint_expected r)"

definition reads_varint :: "bytes \<Rightarrow> u64 \<Rightarrow> bool" where
  "reads_varint w v \<longleftrightarrow> decode_varint w = Some (v, length w)"

definition h3_holds :: "h3_reader \<Rightarrow> bytes \<Rightarrow> bool" where
  "h3_holds r w \<longleftrightarrow> varint_part r \<and>
     (case r3_state r of
        READ_TYPE \<Rightarrow> w = r3_varint_buf r
      | READ_LENGTH \<Rightarrow>
          (\<exists>wt t. reads_varint wt t \<and> r3_type r = h3_type_of t \<and> w = wt @ r3_varint_buf r)
      | READ_PAYLOAD \<Rightarrow> r3_varint_buf r = [] \<and>
          (\<exists>wt t wl. reads_varint wt t \<and> r3_type r = h3_type_of t \<and> reads_varint wl (r3_length r) \<and>
             w = wt @ wl @ r3_payload r) \<and>
          length (r3_payload r) \<le> unat (r3_length r) \<and>
          (length (r3_payload r) = unat (r3_length r) \<longrightarrow> r3_payload r = [])
      | COMPLETE \<Rightarrow> r3_varint_buf r = [] \<and>
          (\<exists>wt t wl. reads_varint wt t \<and> r3_type r = h3_type_of t \<and> reads_varint wl (r3_length r) \<and>
             w = wt @ wl @ r3_payload r) \<and>
          length (r3_payload r) = unat (r3_length r))"

lemma h3_init_holds: "h3_holds h3_reader_init []"
  by (simp add: h3_holds_def h3_reader_init_def varint_part_def)

lemma reads_varint_nonempty: "reads_varint w v \<Longrightarrow> w \<noteq> []"
  by (auto simp: reads_varint_def decode_varint_def)

lemma reads_varint_append: "reads_varint w v \<Longrightarrow> decode_varint (w @ x) = Some (v, length w)"
  unfolding reads_varint_def by (rule decode_varint_append)

lemma feed_varint_spec:
  assumes "varint_part r" and "data \<noteq> []" and "feed_varint r data acc = (n, r', acc')"
  shows "0 < n \<and> n \<le> length data \<and>
    (reads_varint (r3_varint_buf r @ take n data) acc' \<and>
       r' = r\<lparr>r3_varint_complete := True, r3_varint_expected := 0, r3_varint_buf := []\<rparr> \<or>
     (\<exists>e. r' = r\<lparr>r3_varint_expected := e, r3_varint_buf := r3_varint_buf r @ take n data\<rparr> \<and>
        varint_part r' \<and> acc' = acc \<and> n = length data))"
proof -
  define b where "b = hd (r3_varint_buf r @ data)"
  define r1 where "r1 = (if r3_varint_expected r = 0
                     then r\<lparr>r3_varint_expected := varint_size (hd data), r3_varint_buf := []\<rparr> else r)"
  have r1: "r1 = r\<lparr>r3_varint_expected := varint_size b\<rparr>" "length (r3_varint_buf r) < varint_size b"
    using assms(1,2) varint_size_pos [of "hd data"] varint_size_pos [of "hd (r3_varint_buf r)"]
    by (cases "r3_varint_buf r = []"; simp add: r1_def varint_part_def b_def)+
  define k where "k = min (varint_size b - length (r3_varint_buf r)) (length data)"
  define buf where "buf = r3_varint_buf r @ take k data"
  have k: "0 < k" "k \<le> length data"
    using r1(2) assms(2) by (auto simp: k_def)
  have hb: "buf \<noteq> []" "hd buf = b"
    using k(1) assms(2) by (simp_all add: buf_def b_def hd_append)
  have lb: "length buf \<le> varint_size b"
    using r1(2) by (simp add: buf_def k_def)
  have run: "feed_varint r data acc = (let r2 = r1\<lparr>r3_varint_buf := buf\<rparr> in
      if length buf = varint_size b
      then (case decode_varint buf of
              Some (val, _) \<Rightarrow> (k, r2\<lparr>r3_varint_complete := True, r3_varint_expected := 0, r3_varint_buf := []\<rparr>, val)
            | None \<Rightarrow> (k, r2, acc))
      else (k, r2, acc))"
    using assms(2) by (simp add: feed_varint_def Let_def buf_def k_def r1(1) cong: option.case_cong flip: r1_def)
  show ?thesis
  proof (cases "length buf = varint_size b")
    case True
    then obtain v where "decode_varint buf = Some (v, length buf)"
      using decode_varint_full [OF hb(1)] hb(2) by auto
    then show ?thesis
      using run assms(3) k True by (auto simp: reads_varint_def r1(1) buf_def Let_def)
  next
    case False
    then have eqs: "n = k" "r' = r1\<lparr>r3_varint_buf := buf\<rparr>" "acc' = acc"
      using run assms(3) by auto
    have "k = length data"
      using False r1(2) by (auto simp: buf_def k_def min_def split: if_splits)
    moreover have "r' = r\<lparr>r3_varint_expected := varint_size b, r3_varint_buf := r3_varint_buf r @ take n data\<rparr>"
      by (simp add: eqs r1(1) buf_def)
    moreover have "varint_part r'"
      using hb lb False assms(1) by (simp add: varint_part_def eqs r1(1))
    ultimately show ?thesis
      using k eqs by blast
  qed
qed

text \<open>One round of the feed loop in each of the three reading states.\<close>

lemma read_type_holds:
  assumes "h3_holds r w" and "r3_state r = READ_TYPE" and "data \<noteq> []" and "read_type r data = (n, r')"
  shows "0 < n \<and> n \<le> length data \<and> h3_holds r' (w @ take n data)"
proof -
  obtain m r1 acc where fv: "feed_varint r data (r3_type_val r) = (m, r1, acc)" by (metis prod_cases3)
  have part: "varint_part r" and w: "w = r3_varint_buf r"
    using assms(1,2) by (simp_all add: h3_holds_def)
  from feed_varint_spec [OF part assms(3) fv] show ?thesis
    using part w assms(2,4) fv by (auto simp: read_type_def Let_def h3_holds_def varint_part_def)
qed

lemma read_length_holds:
  assumes "h3_holds r w" and "r3_state r = READ_LENGTH" and "data \<noteq> []" and "read_length r data = (n, r')"
  shows "0 < n \<and> n \<le> length data \<and> h3_holds r' (w @ take n data)"
proof -
  obtain m r1 acc where fv: "feed_varint r data (r3_length_val r) = (m, r1, acc)" by (metis prod_cases3)
  obtain wt t where part: "varint_part r" and wt: "reads_varint wt t" "r3_type r = h3_type_of t"
    and w: "w = wt @ r3_varint_buf r"
    using assms(1,2) by (auto simp: h3_holds_def)
  have "n = m" using assms(4) fv by (simp add: read_length_def Let_def)
  from feed_varint_spec [OF part assms(3) fv] consider
      (full) "0 < m" "m \<le> length data" "reads_varint (r3_varint_buf r @ take m data) acc"
        "r1 = r\<lparr>r3_varint_complete := True, r3_varint_expected := 0, r3_varint_buf := []\<rparr>"
    | (part) e where "0 < m" "m \<le> length data" "varint_part r1" "acc = r3_length_val r"
        "r1 = r\<lparr>r3_varint_expected := e, r3_varint_buf := r3_varint_buf r @ take m data\<rparr>"
    by blast
  then show ?thesis
  proof cases
    case full
    then have "h3_holds r' (wt @ (r3_varint_buf r @ take m data))"
      using part wt assms(2,4) fv reads_varint_nonempty [OF full(3)]
      by (fastforce simp: read_length_def Let_def h3_holds_def varint_part_def)
    then show ?thesis using full w \<open>n = m\<close> by simp
  next
    case part
    then show ?thesis
      using wt w assms(2,4) fv by (auto simp: read_length_def Let_def h3_holds_def varint_part_def)
  qed
qed

lemma read_payload_holds:
  assumes "h3_holds r w" and "r3_state r = READ_PAYLOAD" and "data \<noteq> []" and "read_payload r data = (n, r')"
  shows "n \<le> length data \<and> h3_holds r' (w @ take n data)"
proof -
  obtain wt t wl where part: "varint_part r" "r3_varint_buf r = []"
    and w: "reads_varint wt t" "r3_type r = h3_type_of t" "reads_varint wl (r3_length r)" "w = wt @ wl @ r3_payload r"
    and len: "length (r3_payload r) \<le> unat (r3_length r)"
    using assms(1,2) by (auto simp: h3_holds_def)
  define p where "p = r3_payload r @ take n data"
  have bound: "unat (r3_length r) < 2 ^ 64"
    using unsigned_less [of "r3_length r", where ?'a = nat] by simp
  have "unat (r3_length r - of_nat (length (r3_payload r))) = unat (r3_length r) - length (r3_payload r)"
    using len bound by (simp add: unat_sub word_le_nat_alt unsigned_of_nat take_bit_nat_eq_self)
  then have n: "n = min (unat (r3_length r) - length (r3_payload r)) (length data)"
    and r': "r' = (if of_nat (length p) = r3_length r then r\<lparr>r3_payload := p, r3_state := COMPLETE\<rparr>
                   else r\<lparr>r3_payload := p\<rparr>)"
    using assms(4) by (auto simp: read_payload_def Let_def p_def)
  then have p: "length p \<le> unat (r3_length r)" using len by (simp add: p_def)
  then have "of_nat (length p) = r3_length r \<longleftrightarrow> length p = unat (r3_length r)"
    using bound by (auto simp: word_unat_eq_iff unsigned_of_nat take_bit_nat_eq_self)
  moreover have "w @ take n data = wt @ wl @ p" by (simp add: w p_def)
  ultimately show ?thesis
    using part w(1-3) p n assms(2) unfolding r' by (auto simp: h3_holds_def varint_part_def)
qed

lemma h3_feed_loop_spec:
  assumes "h3_holds r w" and "h3_reader_feed_loop r data k = (r', c)"
  shows "\<exists>used rest. data = used @ rest \<and> c = k + length used \<and> h3_holds r' (w @ used) \<and>
           (h3_has_frame r' \<or> rest = [])"
  using assms
proof (induction r data k arbitrary: w r' c rule: h3_reader_feed_loop.induct)
  case (1 r data k)
  note unfold = h3_reader_feed_loop.simps [of r data k]
  have glue: ?case
    if "n \<le> length data" "\<exists>used rest. drop n data = used @ rest \<and> c = k + n + length used \<and>
      h3_holds r' ((w @ take n data) @ used) \<and> (h3_has_frame r' \<or> rest = [])" for n
  proof -
    from that(2) obtain used rest where u: "drop n data = used @ rest" "c = k + n + length used"
      "h3_holds r' ((w @ take n data) @ used)" "h3_has_frame r' \<or> rest = []" by blast
    then have "data = (take n data @ used) @ rest" by (metis append.assoc append_take_drop_id)
    with u that(1) show ?thesis
      by (intro exI [of _ "take n data @ used"] exI [of _ rest]) simp
  qed
  show ?case
  proof (cases "data = []")
    case True
    with 1(4,5) show ?thesis by (simp add: h3_reader_feed_loop.simps [of r "[]" k])
  next
    case False
    show ?thesis
    proof (cases "r3_state r")
      case READ_TYPE
      obtain n r1 where rd: "read_type r data = (n, r1)" by force
      note step = read_type_holds [OF 1(4) READ_TYPE False rd]
      have loop: "h3_reader_feed_loop r1 (drop n data) (k + n) = (r', c)"
        using 1(5) rd step False READ_TYPE by (simp add: unfold)
      show ?thesis
        using glue [of n] 1(1) [OF False READ_TYPE rd [symmetric] refl _ conjunct2 [OF conjunct2 [OF step]] loop] step by simp
    next
      case READ_LENGTH
      obtain n r1 where rd: "read_length r data = (n, r1)" by force
      note step = read_length_holds [OF 1(4) READ_LENGTH False rd]
      have loop: "h3_reader_feed_loop r1 (drop n data) (k + n) = (r', c)"
        using 1(5) rd step False READ_LENGTH by (simp add: unfold)
      show ?thesis
        using glue [of n] 1(2) [OF False READ_LENGTH rd [symmetric] refl _ conjunct2 [OF conjunct2 [OF step]] loop] step by simp
    next
      case READ_PAYLOAD
      obtain n r1 where rd: "read_payload r data = (n, r1)" by force
      note step = read_payload_holds [OF 1(4) READ_PAYLOAD False rd]
      have loop: "h3_reader_feed_loop r1 (drop n data) (k + n) = (r', c)"
        using 1(5) rd step False READ_PAYLOAD by (simp add: unfold)
      show ?thesis
        using glue [of n] 1(3) [OF False READ_PAYLOAD rd [symmetric] refl conjunct2 [OF step] loop] step by simp
    next
      case COMPLETE
      with 1(4,5) False show ?thesis by (simp add: unfold h3_has_frame_def)
    qed
  qed
qed


lemma h3_complete_parse:
  assumes "reads_varint wt t" and "reads_varint wl l" and "length p = unat l"
  shows "h3_parse_frame ((wt @ wl @ p) @ x) = Some (\<lparr>h3_type = h3_type_of t, h3_payload = p\<rparr>, x)"
  using reads_varint_append [OF assms(1), of "wl @ p @ x"] reads_varint_append [OF assms(2), of "p @ x"] assms(3)
  by (simp add: h3_parse_frame_def)

interpretation h3_stream: tracked_reader h3_holds h3_reader_feed h3_has_frame h3_take_frame h3_parse_frame
proof
  fix r w data r' c
  assume holds: "h3_holds r w" and fd: "h3_reader_feed r data = (r', c)"
  from h3_feed_loop_spec [OF holds fd [unfolded h3_reader_feed_def]] obtain used rest where
    u: "data = used @ rest" "c = length used" "h3_holds r' (w @ used)" "h3_has_frame r' \<or> rest = []" by auto
  then show "c \<le> length data \<and> h3_holds r' (w @ take c data)" by simp
  show "h3_has_frame r' \<or> c = length data" using u by auto
next
  fix r w f r' x
  assume "h3_holds r w" and "h3_has_frame r" and tk: "h3_take_frame r = (f, r')"
  then obtain wt t wl where part: "varint_part r" "r3_varint_buf r = []"
    and w: "reads_varint wt t" "r3_type r = h3_type_of t" "reads_varint wl (r3_length r)" "w = wt @ wl @ r3_payload r"
    and len: "length (r3_payload r) = unat (r3_length r)"
    by (auto simp: h3_holds_def h3_has_frame_def)
  have "h3_holds r' []"
    using part tk by (auto simp: h3_take_frame_def h3_holds_def varint_part_def)
  then show "w \<noteq> [] \<and> h3_holds r' [] \<and> h3_parse_frame (w @ x) = Some (f, x)"
    using h3_complete_parse [OF w(1,3) len, of x] w tk reads_varint_nonempty [OF w(1)]
    by (auto simp: h3_take_frame_def)
qed

text \<open>A reader without a frame holds no frame, or exactly one that has no payload.\<close>

lemma decode_varint_part:
  assumes "varint_part r"
  shows "decode_varint (r3_varint_buf r) = None"
proof (cases "r3_varint_buf r = []")
  case True
  then show ?thesis by (simp add: decode_varint_def)
next
  case False
  then show ?thesis using assms by (intro decode_varint_short) (simp add: varint_part_def)
qed

lemma h3_unreported:
  assumes "h3_holds r w" and "\<not> h3_has_frame r"
  shows "h3_parse_frame w = None \<or> (\<exists>t. h3_parse_frame w = Some (\<lparr>h3_type = t, h3_payload = []\<rparr>, []))"
proof (cases "r3_state r")
  case READ_TYPE
  then show ?thesis
    using assms(1) decode_varint_part [of r] by (simp add: h3_holds_def h3_parse_frame_def)
next
  case READ_LENGTH
  then obtain wt t where "reads_varint wt t" "w = wt @ r3_varint_buf r" "varint_part r"
    using assms(1) by (auto simp: h3_holds_def)
  then show ?thesis
    using decode_varint_part [of r] by (simp add: h3_parse_frame_def reads_varint_append)
next
  case READ_PAYLOAD
  then obtain wt t wl where w: "reads_varint wt t" "reads_varint wl (r3_length r)" "w = wt @ wl @ r3_payload r"
    and len: "length (r3_payload r) \<le> unat (r3_length r)"
      "length (r3_payload r) = unat (r3_length r) \<longrightarrow> r3_payload r = []"
    using assms(1) by (auto simp: h3_holds_def)
  show ?thesis
  proof (cases "length (r3_payload r) = unat (r3_length r)")
    case True
    then show ?thesis using h3_complete_parse [OF w(1,2) True, of "[]"] w(3) len(2) by simp
  next
    case False
    then show ?thesis
      using len(1) w reads_varint_append [OF w(1), of "wl @ r3_payload r"]
        reads_varint_append [OF w(2), of "r3_payload r"]
      by (simp add: h3_parse_frame_def)
  qed
next
  case COMPLETE
  with assms(2) show ?thesis by (simp add: h3_has_frame_def)
qed

section \<open>Correctness of the frame layer\<close>

definition h3_frame_wf :: "h3_frame \<Rightarrow> bool" where
  "h3_frame_wf f \<longleftrightarrow> unat (h3_type_code (h3_type f)) < 2 ^ 62 \<and> h3_type_of (h3_type_code (h3_type f)) = h3_type f \<and>
     length (h3_payload f) < 2 ^ 62"

definition h3_encode_frame :: "h3_frame \<Rightarrow> bytes" where
  "h3_encode_frame f = h3_build_frame (h3_type f) (h3_payload f)"

lemma reads_encoded: "unat v < 2 ^ 62 \<Longrightarrow> reads_varint (encode_varint 8 v) v"
  using decode_encode_varint [of v "[]"] by (simp add: reads_varint_def)

lemma unat_length_62: "n < 2 ^ 62 \<Longrightarrow> unat (of_nat n :: u64) = n"
  by (simp add: unsigned_of_nat take_bit_nat_eq_self)

lemma h3_parse_encoded:
  assumes "h3_frame_wf f"
  shows "h3_parse_frame (h3_encode_frame f @ x) = Some (f, x)"
proof -
  have len: "unat (of_nat (length (h3_payload f)) :: u64) = length (h3_payload f)"
    using assms by (intro unat_length_62) (simp add: h3_frame_wf_def)
  then have "unat (of_nat (length (h3_payload f)) :: u64) < 2 ^ 62"
    using assms by (simp add: h3_frame_wf_def)
  from h3_complete_parse [OF reads_encoded reads_encoded [OF this] len [symmetric], of "h3_type_code (h3_type f)" x]
  show ?thesis
    using assms by (simp add: h3_encode_frame_def h3_build_frame_def append_varint_def h3_frame_wf_def)
qed

lemma h3_parses_encoded:
  "\<forall>f\<in>set fs. h3_frame_wf f \<Longrightarrow> parses h3_parse_frame (concat (map h3_encode_frame fs) @ w) fs w"
  by (induction fs) (auto intro!: parses.intros simp: h3_parse_encoded)

lemma h3_parse_Nil [simp]: "h3_parse_frame [] = None"
  by (simp add: h3_parse_frame_def decode_varint_def)

lemma h3_drain_encoded:
  assumes "\<forall>f\<in>set fs. h3_frame_wf f" and "length (concat (map h3_encode_frame fs)) < n"
  shows "\<exists>gs r. drain h3_reader_feed h3_has_frame h3_take_frame n h3_reader_init (concat (map h3_encode_frame fs))
      = Some (gs, r) \<and> (gs = fs \<or> (\<exists>t. fs = gs @ [\<lparr>h3_type = t, h3_payload = []\<rparr>]))"
proof -
  let ?w = "concat (map h3_encode_frame fs)"
  obtain gs r w' where d: "drain h3_reader_feed h3_has_frame h3_take_frame n h3_reader_init ?w = Some (gs, r)"
    "h3_holds r w'" "\<not> h3_has_frame r" "parses h3_parse_frame ?w gs w'"
    using h3_stream.drain_sound [OF h3_init_holds, of ?w n] assms(2) by auto
  have all: "parses h3_parse_frame ?w fs []"
    using h3_parses_encoded [OF assms(1), of "[]"] by simp
  from h3_unreported [OF d(2,3)] show ?thesis
  proof
    assume "h3_parse_frame w' = None"
    then have "gs = fs" using parses_unique [OF d(4) _ all] by simp
    with d(1) show ?thesis by blast
  next
    assume "\<exists>t. h3_parse_frame w' = Some (\<lparr>h3_type = t, h3_payload = []\<rparr>, [])"
    then obtain t where "parses h3_parse_frame w' [\<lparr>h3_type = t, h3_payload = []\<rparr>] []"
      by (auto intro: parses.intros)
    from parses_unique [OF parses_append [OF d(4) this] _ all]
    have "gs @ [\<lparr>h3_type = t, h3_payload = []\<rparr>] = fs" by simp
    with d(1) show ?thesis by auto
  qed
qed


text \<open>A whole integer in one piece.\<close>

lemma reads_varint_size:
  assumes "reads_varint w v"
  shows "varint_size (hd w) = length w"
proof -
  have "decode_varint w = Some (v, length w)" using assms by (simp add: reads_varint_def)
  then show ?thesis
    using reads_varint_nonempty [OF assms] decode_varint_full [of w] decode_varint_short [of w]
    by (cases "varint_size (hd w) \<le> length w") auto
qed

lemma feed_varint_whole:
  assumes "reads_varint w v" and "r3_varint_expected r = 0"
  shows "feed_varint r (w @ x) acc =
    (length w, r\<lparr>r3_varint_complete := True, r3_varint_expected := 0, r3_varint_buf := []\<rparr>, v)"
  using assms reads_varint_size [OF assms(1)] reads_varint_nonempty [OF assms(1)]
  by (simp add: feed_varint_def Let_def) (simp add: reads_varint_def)

lemma feed_whole_header:
  assumes "reads_varint wt t" and "reads_varint wl l"
  shows "h3_reader_feed h3_reader_init (wt @ wl) =
    (h3_reader_init\<lparr>r3_type := h3_type_of t, r3_length := l, r3_state := READ_PAYLOAD\<rparr>, length (wt @ wl))"
proof -
  define r1 where "r1 = h3_reader_init\<lparr>r3_type := h3_type_of t, r3_state := READ_LENGTH\<rparr>"
  define r2 where "r2 = h3_reader_init\<lparr>r3_type := h3_type_of t, r3_length := l, r3_state := READ_PAYLOAD\<rparr>"
  have ne: "wt \<noteq> []" "wl \<noteq> []" using assms by (auto dest: reads_varint_nonempty)
  have "read_type h3_reader_init (wt @ wl) = (length wt, r1)"
    using feed_varint_whole [OF assms(1), of h3_reader_init wl 0]
    by (simp add: read_type_def r1_def h3_reader_init_def)
  moreover have "read_length r1 wl = (length wl, r2)"
    using feed_varint_whole [OF assms(2), of r1 "[]" 0]
    by (simp add: read_length_def r1_def r2_def h3_reader_init_def)
  moreover have "r3_state h3_reader_init = READ_TYPE" "r3_state r1 = READ_LENGTH"
    by (simp_all add: h3_reader_init_def r1_def)
  ultimately show ?thesis
    unfolding h3_reader_feed_def r2_def [symmetric]
    by (simp add: ne h3_reader_feed_loop.simps [of h3_reader_init "wt @ wl"] h3_reader_feed_loop.simps [of r1 wl]
        h3_reader_feed_loop.simps [of r2 "[]"])
qed

lemma h3_settings_payload_eq:
  "h3_settings_payload ss =
     concat (map (\<lambda>s. encode_varint 8 (h3_setting_code (h3_id s)) @ encode_varint 8 (h3_value s)) ss)"
proof -
  have "fold (\<lambda>s payload. append_varint (append_varint payload (h3_setting_code (h3_id s))) (h3_value s)) ss acc =
     acc @ concat (map (\<lambda>s. encode_varint 8 (h3_setting_code (h3_id s)) @ encode_varint 8 (h3_value s)) ss)" for acc
    by (induction ss arbitrary: acc) (simp_all add: append_varint_def)
  then show ?thesis by (simp add: h3_settings_payload_def)
qed

definition h3_setting_wf :: "h3_setting_entry \<Rightarrow> bool" where
  "h3_setting_wf s \<longleftrightarrow> unat (h3_setting_code (h3_id s)) < 2 ^ 62 \<and> unat (h3_value s) < 2 ^ 62 \<and>
     h3_setting_of (h3_setting_code (h3_id s)) = h3_id s"

lemma h3_parse_settings_payload:
  assumes "\<forall>s\<in>set ss. h3_setting_wf s"
  shows "h3_parse_settings_loop (h3_settings_payload ss) acc = acc @ ss"
  using assms
proof (induction ss arbitrary: acc)
  case Nil
  then show ?case by (simp add: h3_settings_payload_eq h3_parse_settings_loop.simps)
next
  case (Cons s ss)
  have "unat (h3_setting_code (h3_id s)) < 2 ^ 62" "unat (h3_value s) < 2 ^ 62"
    using Cons.prems by (simp_all add: h3_setting_wf_def)
  note dec = decode_encode_varint [OF this(1)] decode_encode_varint [OF this(2)]
  show ?case
    unfolding h3_settings_payload_eq
    by (subst h3_parse_settings_loop.simps)
       (use Cons dec in \<open>simp add: h3_settings_payload_eq h3_setting_wf_def\<close>)
qed

section \<open>Properties\<close>

text \<open>Variable-length integers: every value below \<open>2 ^ 62\<close> is written in 1, 2, 4 or 8 bytes and
  reads back as itself, whatever follows; a larger value is refused.\<close>

theorem h3_varint_round_trip:
  "(unat v < 2 ^ 62 \<longrightarrow> decode_varint (encode_varint 8 v @ rest) = Some (v, length (encode_varint 8 v)) \<and>
      length (encode_varint 8 v) \<in> {1, 2, 4, 8}) \<and>
   (2 ^ 62 \<le> unat v \<longrightarrow> encode_varint 8 v = [])"
  using decode_encode_varint [of v rest] by (auto simp: encode_varint_def word_less_nat_alt)

theorem h3_varint_round_trip_witness:
  "decode_varint (encode_varint 8 494878333 @ [1]) = Some (494878333, 4)"
proof -
  have "length (encode_varint 8 494878333) = 4" by (simp add: encode_varint_def)
  then show ?thesis using h3_varint_round_trip [of 494878333 "[1]"] by simp
qed

text \<open>A fresh reader fed any sequence of encoded frames delivers exactly these frames, in order,
  when the last one has a payload.\<close>

theorem h3_reader_delivers:
  assumes "\<forall>f\<in>set fs. h3_frame_wf f" and "fs \<noteq> []" and "h3_payload (last fs) \<noteq> []"
  shows "\<exists>r. drain h3_reader_feed h3_has_frame h3_take_frame (Suc (length (concat (map h3_encode_frame fs))))
      h3_reader_init (concat (map h3_encode_frame fs)) = Some (fs, r)"
  using h3_drain_encoded [OF assms(1) lessI] assms(2,3) by force

theorem h3_reader_delivers_witness:
  "\<exists>r. drain h3_reader_feed h3_has_frame h3_take_frame 6 h3_reader_init
      (h3_encode_frame \<lparr>h3_type = H3_DATA, h3_payload = []\<rparr> @ h3_encode_frame \<lparr>h3_type = H3_HEADERS, h3_payload = [9]\<rparr>)
      = Some ([\<lparr>h3_type = H3_DATA, h3_payload = []\<rparr>, \<lparr>h3_type = H3_HEADERS, h3_payload = [9]\<rparr>], r)"
proof -
  let ?fs = "[\<lparr>h3_type = H3_DATA, h3_payload = []\<rparr>, \<lparr>h3_type = H3_HEADERS, h3_payload = [9]\<rparr>]"
  have "\<forall>f\<in>set ?fs. h3_frame_wf f"
    by (simp add: h3_frame_wf_def h3_type_code_def h3_type_of_def)
  moreover have "Suc (length (concat (map h3_encode_frame ?fs))) = 6"
    by (simp add: h3_encode_frame_def h3_build_frame_def append_varint_def encode_varint_def h3_type_code_def)
  ultimately show ?thesis
    using h3_reader_delivers [of ?fs] by (simp only: list.map concat.simps append_Nil2 last.simps) simp
qed

text \<open>A frame without payload at the end of the input is withheld: all its bytes are consumed and
  no frame is reported.\<close>

theorem h3_empty_frame_withheld:
  assumes "h3_frame_wf \<lparr>h3_type = t, h3_payload = []\<rparr>"
  shows "\<exists>r. h3_reader_feed h3_reader_init (h3_build_frame t []) = (r, length (h3_build_frame t [])) \<and>
    \<not> h3_has_frame r"
proof -
  have "reads_varint (encode_varint 8 (h3_type_code t)) (h3_type_code t)" "reads_varint (encode_varint 8 0) 0"
    using assms by (auto intro!: reads_encoded simp: h3_frame_wf_def)
  from feed_whole_header [OF this] show ?thesis
    by (simp add: h3_build_frame_def append_varint_def h3_has_frame_def h3_reader_init_def)
qed

theorem h3_empty_frame_withheld_witness:
  "\<exists>r. h3_reader_feed h3_reader_init (h3_build_frame H3_SETTINGS []) = (r, length (h3_build_frame H3_SETTINGS [])) \<and>
    \<not> h3_has_frame r"
  by (rule h3_empty_frame_withheld) (simp add: h3_frame_wf_def h3_type_code_def h3_type_of_def)

text \<open>The payload parsers invert the builders: SETTINGS, GOAWAY and PUSH_PROMISE payloads come back
  as they were sent.\<close>

theorem h3_payload_round_trips:
  assumes "\<forall>s\<in>set ss. h3_setting_wf s" and "unat v < 2 ^ 62"
  shows "h3_parse_settings (h3_settings_payload ss) = ss \<and>
    h3_parse_goaway (append_varint [] v) = Some v \<and>
    h3_parse_push_promise (append_varint [] v @ block) = \<lparr>h3_push_id = v, h3_header_block = block\<rparr>"
  using h3_parse_settings_payload [OF assms(1), of "[]"] decode_encode_varint [OF assms(2), of "[]"]
    decode_encode_varint [OF assms(2), of block]
  by (simp add: h3_parse_settings_def h3_parse_goaway_def h3_parse_push_promise_def append_varint_def)

theorem h3_payload_round_trips_witness:
  "h3_parse_settings (h3_settings_payload [\<lparr>h3_id = MAX_FIELD_SECTION_SIZE, h3_value = 65536\<rparr>]) =
     [\<lparr>h3_id = MAX_FIELD_SECTION_SIZE, h3_value = 65536\<rparr>] \<and> h3_parse_goaway (append_varint [] 300) = Some 300"
  using h3_payload_round_trips [of "[\<lparr>h3_id = MAX_FIELD_SECTION_SIZE, h3_value = 65536\<rparr>]" 300]
  by (simp add: h3_setting_wf_def h3_setting_code_def h3_setting_of_def)

end
