(* ===== verification/H3_Session.thy ===== *)
theory H3_Session
  imports Qpack H3_Frame Http_Types
begin

text \<open>
  The HTTP/3 session, \<^verbatim>\<open>src/http/http3_session.cpp\<close>: the callbacks ngtcp2 makes on received stream data,
  the handlers of frames, requests, responses and pushes, and the public interface.

  ngtcp2 and its TLS library are a parameter: a record of the calls the session makes, over a connection
  state of any type.  A callback of the application (handler, push provider, push handler, a resumed
  coroutine) is a function on the state of the application and does not call the session back.  A
  \<^verbatim>\<open>shared_ptr<response_promise>\<close> is an index into a store of promises.  Log output, addresses and
  the configuration of ngtcp2 are left out.
\<close>

section \<open>Runs\<close>

text \<open>
  Some loops of the session wait for the transport and need not end; the outcome of an operation is
  \<open>None\<close> when it does not return, and otherwise an error or a value.
\<close>

type_synonym 'a run = "'a res option"

definition ret :: "'a \<Rightarrow> 'a run" where
  "ret x = Some (Inr x)"

definition bindR :: "'a run \<Rightarrow> ('a \<Rightarrow> 'b run) \<Rightarrow> 'b run" where
  "bindR m f = (case m of None \<Rightarrow> None | Some r \<Rightarrow> (case r of Inl e \<Rightarrow> Some (Inl e) | Inr x \<Rightarrow> f x))"

lemma bindR_simps [simp]:
  "bindR None f = None"
  "bindR (Some (Inl e)) f = Some (Inl e)"
  "bindR (Some (Inr x)) f = f x"
  "bindR (ret x) f = f x"
  by (simp_all add: bindR_def ret_def)

lemma bindR_cong [fundef_cong]:
  assumes "m = m'" and "\<And>x. m' = Some (Inr x) \<Longrightarrow> f x = g x"
  shows "bindR m f = bindR m' g"
  using assms by (auto simp: bindR_def split: option.splits sum.splits)

lemma bindR_assoc: "bindR (bindR m f) g = bindR m (\<lambda>x. bindR (f x) g)"
  by (simp add: bindR_def split: option.splits sum.splits)

lemma bindR_ret [simp]: "bindR m ret = m"
  by (auto simp: bindR_def ret_def split: option.splits sum.splits)

lemma ret_inject [simp]: "ret x = ret y \<longleftrightarrow> x = y" by (simp add: ret_def)

section \<open>The transport\<close>

text \<open>
  What one call of \<^verbatim>\<open>ngtcp2_conn_writev_stream\<close> returns: a packet of \<^verbatim>\<open>nwrite\<close> bytes (none when \<^verbatim>\<open>nwrite\<close>
  is zero), or one of the error codes the session looks at.  It also stores in \<^verbatim>\<open>*pdatalen\<close> how many bytes of
  the stream's data it took, or -1 when it took none of the stream; no caller looks at that number.
\<close>

datatype write_result = Wrote bytes | Write_Blocked | Write_Shut | Write_More | Write_Failed

text \<open>
  A received datagram makes the transport call the session back; \<^verbatim>\<open>ngtcp2_conn_read_pkt\<close> is the sequence
  of these calls and its result.
\<close>

datatype quic_event =
    Ev_Handshake_Completed
  | Ev_Stream_Open int
  | Ev_Stream_Data bool int bytes
  | Ev_Stream_Close int

datatype read_result = Read_Ok | Read_Retry | Read_Error

text \<open>The calls the session makes on ngtcp2, over a connection state \<open>'q\<close>.\<close>

record 'q quic =
  q_open_uni :: "'q \<Rightarrow> 'q \<times> int option"
  q_open_bidi :: "'q \<Rightarrow> 'q \<times> int option"
  q_writev :: "bool \<Rightarrow> int \<Rightarrow> bytes \<Rightarrow> 'q \<Rightarrow> 'q \<times> int \<times> write_result"
  q_extend :: "int \<Rightarrow> nat \<Rightarrow> 'q \<Rightarrow> 'q"
  q_read_pkt :: "bytes \<Rightarrow> 'q \<Rightarrow> 'q \<times> quic_event list \<times> read_result"
  q_write_retry :: "u32 \<Rightarrow> bytes \<Rightarrow> bytes \<Rightarrow> 'q \<Rightarrow> bytes option"
  q_handle_expiry :: "'q \<Rightarrow> 'q \<times> bool"
  q_server_new :: "bytes \<Rightarrow> bytes \<Rightarrow> u32 \<Rightarrow> 'q option"

section \<open>State\<close>

datatype h3_mode = H3_Server | H3_Client

datatype h3_st = T_Idle | T_Open | T_Closed

record h3_stream =
  t3_id :: int
  t3_state :: h3_st
  t3_req :: request
  t3_body :: bytes
  t3_headers_complete :: bool
  t3_end_stream :: bool
  t3_reader :: h3_reader
  t3_control_stream :: bool
  t3_qpack_encoder_stream :: bool
  t3_qpack_decoder_stream :: bool
  t3_send_buf :: bytes
  t3_send_offset :: u64
  t3_resp :: response
  t3_resp_body :: bytes
  t3_resp_headers_complete :: bool
  t3_promise :: "nat option"

definition h3_stream_default :: h3_stream where
  "h3_stream_default = \<lparr>t3_id = 0, t3_state = T_Idle, t3_req = request_default, t3_body = [],
     t3_headers_complete = False, t3_end_stream = False, t3_reader = h3_reader_init,
     t3_control_stream = False, t3_qpack_encoder_stream = False, t3_qpack_decoder_stream = False,
     t3_send_buf = [], t3_send_offset = 0, t3_resp = response_default, t3_resp_body = [],
     t3_resp_headers_complete = False, t3_promise = None\<rparr>"

record h3_push_info =
  u3_push_id :: u64
  u3_promised_request :: request

definition h3_push_info_default :: h3_push_info where
  "h3_push_info_default = \<lparr>u3_push_id = 0, u3_promised_request = request_default\<rparr>"

text \<open>
  A promise; its \<^verbatim>\<open>waiter\<close>, when there is one, is what the resumed coroutine does to the application's
  state \<open>'u\<close>.
\<close>

record 'u h3_promise =
  p3_resp :: response
  p3_complete :: bool
  p3_error :: bool
  p3_is_push :: bool
  p3_push_info :: h3_push_info
  p3_waiter :: "('u \<Rightarrow> 'u) option"

definition h3_promise_default :: "'u h3_promise" where
  "h3_promise_default = \<lparr>p3_resp = response_default, p3_complete = False, p3_error = False, p3_is_push = False,
     p3_push_info = h3_push_info_default, p3_waiter = None\<rparr>"

record ('q, 'u) h3_session =
  s3_mode :: h3_mode
  s3_alive :: bool
  s3_handshake_done :: bool
  s3_conn :: "'q option"
  s3_output :: "bytes list"
  s3_decoder :: qpack_decoder
  s3_streams :: "int \<Rightarrow> h3_stream option"
  s3_control_stream_id :: int
  s3_qpack_encoder_stream_id :: int
  s3_qpack_decoder_stream_id :: int
  s3_request_handler :: "(request \<Rightarrow> 'u \<Rightarrow> (response \<times> 'u) res) option"
  s3_push_provider :: "(request \<Rightarrow> 'u \<Rightarrow> (request \<times> response) list \<times> 'u) option"
  s3_push_handler :: "(h3_push_info \<Rightarrow> 'u \<Rightarrow> 'u) option"
  s3_completed :: "nat list"
  s3_next_push_id :: u64
  s3_max_push_id_sent :: u64
  s3_pending_request :: request
  s3_pending_promise :: "nat option"
  s3_has_pending :: bool
  s3_uni_buf :: "int \<Rightarrow> bytes"
  s3_promises :: "nat \<Rightarrow> 'u h3_promise"
  s3_next_promise :: nat
  s3_user :: 'u

definition h3_session_new :: "h3_mode \<Rightarrow> 'u \<Rightarrow> ('q, 'u) h3_session" where
  "h3_session_new m u = \<lparr>s3_mode = m, s3_alive = True, s3_handshake_done = False, s3_conn = None, s3_output = [],
     s3_decoder = qpack_decoder_new, s3_streams = (\<lambda>_. None), s3_control_stream_id = -1,
     s3_qpack_encoder_stream_id = -1, s3_qpack_decoder_stream_id = -1, s3_request_handler = None,
     s3_push_provider = None, s3_push_handler = None, s3_completed = [], s3_next_push_id = 0,
     s3_max_push_id_sent = 0, s3_pending_request = request_default, s3_pending_promise = None,
     s3_has_pending = False, s3_uni_buf = (\<lambda>_. []), s3_promises = (\<lambda>_. h3_promise_default),
     s3_next_promise = 0, s3_user = u\<rparr>"

text \<open>\<^verbatim>\<open>streams_[id]\<close> creates a default entry when there is none.\<close>

definition h3_stream_at :: "('q, 'u) h3_session \<Rightarrow> int \<Rightarrow> h3_stream" where
  "h3_stream_at s sid = (case s3_streams s sid of Some ss \<Rightarrow> ss | None \<Rightarrow> h3_stream_default)"

definition h3_set_stream :: "int \<Rightarrow> h3_stream \<Rightarrow> ('q, 'u) h3_session \<Rightarrow> ('q, 'u) h3_session" where
  "h3_set_stream sid ss s = s\<lparr>s3_streams := (s3_streams s)(sid := Some ss)\<rparr>"

section \<open>Writing\<close>

definition h3_push_packet :: "write_result \<Rightarrow> ('q, 'u) h3_session \<Rightarrow> ('q, 'u) h3_session" where
  "h3_push_packet r s = (case r of Wrote pkt \<Rightarrow> if pkt = [] then s else s\<lparr>s3_output := s3_output s @ [pkt]\<rparr> | _ \<Rightarrow> s)"

text \<open>One call on a stream, its packet kept when there is one.\<close>

definition stream_write :: "'q quic \<Rightarrow> bool \<Rightarrow> int \<Rightarrow> bytes \<Rightarrow> ('q, 'u) h3_session \<Rightarrow> ('q, 'u) h3_session run" where
  "stream_write q fin sid data s =
     (case s3_conn s of
        None \<Rightarrow> Some (Inl Undefined_Behaviour)
      | Some c \<Rightarrow> (let (c', pdatalen, r) = q_writev q fin sid data c in ret (h3_push_packet r (s\<lparr>s3_conn := Some c'\<rparr>))))"

text \<open>The loop of \<^verbatim>\<open>submit_response\<close>: only \<^verbatim>\<open>NGTCP2_ERR_WRITE_MORE\<close> goes round again.\<close>

partial_function (option) writev_retry ::
  "'q quic \<Rightarrow> bool \<Rightarrow> int \<Rightarrow> bytes \<Rightarrow> 'q \<Rightarrow> ('q \<times> write_result) option" where
  "writev_retry q fin sid data c =
     (let (c', pdatalen, r) = q_writev q fin sid data c
      in if r = Write_More then writev_retry q fin sid data c' else Some (c', r))"

text \<open>The loop of \<^verbatim>\<open>write_packets\<close>, with the packets written so far and whether it ended without an error.\<close>

partial_function (option) write_packets_loop :: "'q quic \<Rightarrow> 'q \<Rightarrow> bytes list \<Rightarrow> ('q \<times> bytes list \<times> bool) option" where
  "write_packets_loop q c pkts =
     (let (c', pdatalen, r) = q_writev q False (-1) [] c
      in case r of
           Wrote pkt \<Rightarrow> if pkt = [] then Some (c', pkts, True) else write_packets_loop q c' (pkts @ [pkt])
         | Write_More \<Rightarrow> write_packets_loop q c' pkts
         | Write_Blocked \<Rightarrow> Some (c', pkts, False)
         | Write_Shut \<Rightarrow> Some (c', pkts, False)
         | Write_Failed \<Rightarrow> Some (c', pkts, False))"

definition write_packets :: "'q quic \<Rightarrow> ('q, 'u) h3_session \<Rightarrow> (int \<times> ('q, 'u) h3_session) run" where
  "write_packets q s =
     (case s3_conn s of
        None \<Rightarrow> Some (Inl Undefined_Behaviour)
      | Some c \<Rightarrow>
          map_option (\<lambda>(c', pkts, ok). Inr (if ok then int (length (concat pkts)) else -1,
              s\<lparr>s3_conn := Some c', s3_output := s3_output s @ pkts\<rparr>))
            (write_packets_loop q c []))"

definition h3_extend :: "'q quic \<Rightarrow> int \<Rightarrow> bytes \<Rightarrow> ('q, 'u) h3_session \<Rightarrow> ('q, 'u) h3_session" where
  "h3_extend q sid data s = s\<lparr>s3_conn := map_option (q_extend q sid (length data)) (s3_conn s)\<rparr>"

definition status_headers :: "response \<Rightarrow> headers" where
  "status_headers resp = (str '':status'', int_to_string (rs_status resp)) # rs_hdrs resp"

definition h3_message :: "headers \<Rightarrow> bytes \<Rightarrow> bytes" where
  "h3_message hdrs bd =
     h3_build_headers_frame (encode_static hdrs) @ (if bd \<noteq> [] then build_data_frame bd else [])"

definition submit_response3 :: "'q quic \<Rightarrow> int \<Rightarrow> response \<Rightarrow> ('q, 'u) h3_session \<Rightarrow> ('q, 'u) h3_session run" where
  "submit_response3 q sid resp s =
     (let ss = h3_stream_at s sid;
          ss1 = ss\<lparr>t3_send_buf := t3_send_buf ss @ h3_message (status_headers resp) (rs_bd resp)\<rparr>;
          s1 = h3_set_stream sid ss1 s; off = unat (t3_send_offset ss1)
      in if off < length (t3_send_buf ss1)
         then (case s3_conn s1 of
                 None \<Rightarrow> Some (Inl Undefined_Behaviour)
               | Some c \<Rightarrow>
                   map_option (\<lambda>(c', r). Inr (h3_push_packet r (s1\<lparr>s3_conn := Some c'\<rparr>)))
                     (writev_retry q True sid (drop off (t3_send_buf ss1)) c))
         else ret s1)"

text \<open>A QPACK stream: opened, remembered and begun with its type, or left out when it cannot be opened.\<close>

definition open_typed ::
  "'q quic \<Rightarrow> h3_stream_type \<Rightarrow> (int \<Rightarrow> ('q, 'u) h3_session \<Rightarrow> ('q, 'u) h3_session)
   \<Rightarrow> ('q, 'u) h3_session \<Rightarrow> ('q, 'u) h3_session run" where
  "open_typed q t remember s =
     (case s3_conn s of
        None \<Rightarrow> Some (Inl Undefined_Behaviour)
      | Some c \<Rightarrow>
          (case q_open_uni q c of
             (c1, None) \<Rightarrow> ret (s\<lparr>s3_conn := Some c1\<rparr>)
           | (c1, Some sid) \<Rightarrow>
               stream_write q False sid (append_varint [] (h3_stream_type_code t)) (remember sid (s\<lparr>s3_conn := Some c1\<rparr>))))"

definition open_control_streams :: "'q quic \<Rightarrow> ('q, 'u) h3_session \<Rightarrow> ('q, 'u) h3_session run" where
  "open_control_streams q s =
     (if 0 \<le> s3_control_stream_id s then ret s
      else case s3_conn s of
        None \<Rightarrow> Some (Inl Undefined_Behaviour)
      | Some c \<Rightarrow>
          (case q_open_uni q c of
             (c1, None) \<Rightarrow> ret (s\<lparr>s3_conn := Some c1\<rparr>)
           | (c1, Some sid) \<Rightarrow>
               bindR (stream_write q False sid
                        (append_varint [] (h3_stream_type_code CONTROL) @
                         h3_build_settings_frame [\<lparr>h3_id = MAX_FIELD_SECTION_SIZE, h3_value = 8192\<rparr>])
                        (s\<lparr>s3_conn := Some c1, s3_control_stream_id := sid\<rparr>)) (\<lambda>s1.
               bindR (open_typed q QPACK_ENCODER (\<lambda>sid s. s\<lparr>s3_qpack_encoder_stream_id := sid\<rparr>) s1)
                 (open_typed q QPACK_DECODER (\<lambda>sid s. s\<lparr>s3_qpack_decoder_stream_id := sid\<rparr>)))))"

section \<open>Requests\<close>

definition first_char :: "bytes \<Rightarrow> byte" where
  "first_char name = (case name of [] \<Rightarrow> 0 | c # _ \<Rightarrow> c)"

text \<open>The last of the headers that name the authority.\<close>

definition request_authority :: "headers \<Rightarrow> bytes" where
  "request_authority hdrs =
     fold (\<lambda>(k, v) authority. if k = str '':authority'' \<or> k = str ''Host'' \<or> k = str ''host'' then v else authority) hdrs []"

definition request_headers3 :: "request \<Rightarrow> headers" where
  "request_headers3 req =
     (let authority = request_authority (rq_hdrs req)
      in [(str '':method'', method_to_string (rq_method req)),
          (str '':path'', if rq_path req = [] then str ''/'' else rq_path req),
          (str '':scheme'', str ''https'')]
         @ (if authority \<noteq> [] then [(str '':authority'', authority)] else [])
         @ filter (\<lambda>(k, v). first_char k \<noteq> 0x3A) (rq_hdrs req))"

definition to_int32 :: "int \<Rightarrow> int" where
  "to_int32 i = sint (word_of_int i :: u32)"

text \<open>A request on a stream that has just been opened: tracked with its promise, written with FIN.\<close>

definition start_request ::
  "'q quic \<Rightarrow> int \<Rightarrow> request \<Rightarrow> nat option \<Rightarrow> ('q, 'u) h3_session \<Rightarrow> ('q, 'u) h3_session run" where
  "start_request q sid req promise s =
     (let frames = h3_message (request_headers3 req) (rq_bd req);
          ss = (h3_stream_at s sid)\<lparr>t3_id := sid, t3_state := T_Open, t3_send_buf := frames, t3_promise := promise\<rparr>
      in bindR (stream_write q True sid frames (h3_set_stream sid ss s)) (\<lambda>s1.
         bindR (write_packets q s1) (\<lambda>(_, s2). ret s2)))"

definition submit_request3 ::
  "'q quic \<Rightarrow> request \<Rightarrow> nat option \<Rightarrow> ('q, 'u) h3_session \<Rightarrow> (int \<times> ('q, 'u) h3_session) run" where
  "submit_request3 q req promise s =
     (case s3_conn s of
        None \<Rightarrow> ret (-1, s)
      | Some c \<Rightarrow>
          if \<not> s3_handshake_done s
          then ret (0, s\<lparr>s3_pending_request := req, s3_pending_promise := promise, s3_has_pending := True\<rparr>)
          else case q_open_bidi q c of
            (c1, None) \<Rightarrow> ret (-3, s\<lparr>s3_conn := Some c1\<rparr>)
          | (c1, Some sid) \<Rightarrow>
              bindR (start_request q sid req promise (s\<lparr>s3_conn := Some c1\<rparr>)) (\<lambda>s1. ret (to_int32 sid, s1)))"

definition upd_promise :: "nat \<Rightarrow> ('u h3_promise \<Rightarrow> 'u h3_promise) \<Rightarrow> ('q, 'u) h3_session \<Rightarrow> ('q, 'u) h3_session" where
  "upd_promise pid f s = s\<lparr>s3_promises := (s3_promises s)(pid := f (s3_promises s pid))\<rparr>"

definition submit_queued_request :: "'q quic \<Rightarrow> ('q, 'u) h3_session \<Rightarrow> ('q, 'u) h3_session run" where
  "submit_queued_request q s =
     (if \<not> s3_has_pending s then ret s
      else let s = s\<lparr>s3_has_pending := False\<rparr>
           in case s3_conn s of
                None \<Rightarrow> Some (Inl Undefined_Behaviour)
              | Some c \<Rightarrow>
                  (case q_open_bidi q c of
                     (c1, None) \<Rightarrow>
                       ret (case s3_pending_promise s of
                              None \<Rightarrow> s\<lparr>s3_conn := Some c1\<rparr>
                            | Some pid \<Rightarrow> upd_promise pid (\<lambda>p. p\<lparr>p3_error := True, p3_complete := True\<rparr>) (s\<lparr>s3_conn := Some c1\<rparr>))
                   | (c1, Some sid) \<Rightarrow>
                       start_request q sid (s3_pending_request s) (s3_pending_promise s) (s\<lparr>s3_conn := Some c1\<rparr>)))"

section \<open>Server push\<close>

definition push_headers :: "request \<Rightarrow> headers" where
  "push_headers req =
     [(str '':method'', method_to_string (rq_method req)),
      (str '':path'', if rq_path req = [] then str ''/'' else rq_path req),
      (str '':scheme'', str ''https''),
      (str '':authority'', case hdrs_get (str ''Host'') (rq_hdrs req) of Some h \<Rightarrow> h | None \<Rightarrow> str ''localhost'')]
     @ concat (map (\<lambda>(k, v). let lk = to_lower k
         in if lk = str ''host'' \<or> lk = str ''connection'' then [] else [(lk, v)]) (rq_hdrs req))"

definition push_stream_data :: "u64 \<Rightarrow> response \<Rightarrow> bytes" where
  "push_stream_data push_id resp =
     append_varint (append_varint [] (h3_stream_type_code PUSH)) push_id @ h3_message (status_headers resp) (rs_bd resp)"

definition do_submit_push3 ::
  "'q quic \<Rightarrow> request \<Rightarrow> response \<Rightarrow> int \<Rightarrow> ('q, 'u) h3_session \<Rightarrow> (int \<times> ('q, 'u) h3_session) run" where
  "do_submit_push3 q promised_req push_resp associated s =
     (if s3_mode s \<noteq> H3_Server \<or> s3_conn s = None then ret (-1, s)
      else let push_id = s3_next_push_id s; s0 = s\<lparr>s3_next_push_id := push_id + 1\<rparr>
           in bindR (if s3_max_push_id_sent s0 \<le> push_id
                     then bindR (stream_write q False (s3_control_stream_id s0) (build_max_push_id_frame (push_id + 10)) s0)
                            (\<lambda>s1. ret (s1\<lparr>s3_max_push_id_sent := push_id + 10\<rparr>))
                     else ret s0) (\<lambda>s1.
              bindR (stream_write q False associated
                       (build_push_promise_frame push_id (encode_static (push_headers promised_req))) s1) (\<lambda>s2.
              case s3_conn s2 of
                None \<Rightarrow> Some (Inl Undefined_Behaviour)
              | Some c \<Rightarrow>
                  (case q_open_uni q c of
                     (c1, None) \<Rightarrow> ret (-1, s2\<lparr>s3_conn := Some c1\<rparr>)
                   | (c1, Some psid) \<Rightarrow>
                       bindR (stream_write q True psid (push_stream_data push_id push_resp) (s2\<lparr>s3_conn := Some c1\<rparr>)) (\<lambda>s3.
                       bindR (write_packets q s3) (\<lambda>(_, s4). ret (sint push_id, s4)))))))"

fun submit_pushes3 :: "'q quic \<Rightarrow> (request \<times> response) list \<Rightarrow> int \<Rightarrow> ('q, 'u) h3_session \<Rightarrow> ('q, 'u) h3_session run" where
  "submit_pushes3 q [] sid s = ret s"
| "submit_pushes3 q ((req, resp) # pushes) sid s =
     bindR (do_submit_push3 q req resp sid s) (\<lambda>(_, s1). submit_pushes3 q pushes sid s1)"

definition submit_push3 ::
  "'q quic \<Rightarrow> request \<Rightarrow> response \<Rightarrow> int \<Rightarrow> ('q, 'u) h3_session \<Rightarrow> (int \<times> ('q, 'u) h3_session) run" where
  "submit_push3 q req resp associated s = do_submit_push3 q req resp associated s"

section \<open>Handling frames\<close>

definition dispatch_request3 :: "'q quic \<Rightarrow> int \<Rightarrow> ('q, 'u) h3_session \<Rightarrow> ('q, 'u) h3_session run" where
  "dispatch_request3 q sid s =
     (case s3_request_handler s of
        None \<Rightarrow> ret s
      | Some handler \<Rightarrow>
          (let ss = h3_stream_at s sid; req = (t3_req ss)\<lparr>rq_bd := t3_body ss\<rparr>;
               s1 = h3_set_stream sid (ss\<lparr>t3_req := req\<rparr>) s
           in bindR (Some (handler req (s3_user s1))) (\<lambda>(resp, u).
              bindR (submit_response3 q sid resp (s1\<lparr>s3_user := u\<rparr>)) (\<lambda>s2.
                case s3_push_provider s2 of
                  None \<Rightarrow> ret s2
                | Some provider \<Rightarrow>
                    (let (pushes, u) = provider (t3_req (h3_stream_at s2 sid)) (s3_user s2)
                     in submit_pushes3 q pushes sid (s2\<lparr>s3_user := u\<rparr>))))))"

definition request_field :: "bytes \<times> bytes \<Rightarrow> request \<Rightarrow> request" where
  "request_field h req =
     (let (name, val) = h
      in if name = str '':method'' then (case parse_method val of Some m \<Rightarrow> req\<lparr>rq_method := m\<rparr> | None \<Rightarrow> req)
         else if name = str '':path'' then req\<lparr>rq_path := val\<rparr>
         else if name = str '':authority'' then req\<lparr>rq_hdrs := hdrs_append (str ''Host'') val (rq_hdrs req)\<rparr>
         else if name = str '':scheme'' then req
         else if first_char name \<noteq> 0x3A then req\<lparr>rq_hdrs := hdrs_append name val (rq_hdrs req)\<rparr>
         else req)"

text \<open>\<^verbatim>\<open>std::atoi\<close>; a value outside \<^verbatim>\<open>int\<close> is undefined.\<close>

definition atoi :: "bytes \<Rightarrow> int res" where
  "atoi s =
     (let t = dropWhile (\<lambda>c. c = 0x20 \<or> 0x09 \<le> c \<and> c \<le> 0x0D) (takeWhile (\<lambda>c. c \<noteq> 0) s);
          u = (if first_char t = 0x2D \<or> first_char t = 0x2B then tl t else t);
          v = int (read_digits 10 u 0);
          v = (if first_char t = 0x2D then - v else v)
      in if - (2 ^ 31) \<le> v \<and> v < 2 ^ 31 then Inr v else Inl Undefined_Behaviour)"

fun response_fields3 :: "headers \<Rightarrow> response \<Rightarrow> response res" where
  "response_fields3 [] resp = Inr resp"
| "response_fields3 ((name, val) # hs) resp =
     (if name = str '':status''
      then bindE (atoi val) (\<lambda>code. response_fields3 hs (resp\<lparr>rs_status := (if 0 < code then code else 500)\<rparr>))
      else if first_char name \<noteq> 0x3A then response_fields3 hs (resp\<lparr>rs_hdrs := hdrs_set name val (rs_hdrs resp)\<rparr>)
      else response_fields3 hs resp)"

text \<open>A finished response: the promise gets it and its waiter is resumed.\<close>

definition resume :: "nat \<Rightarrow> ('q, 'u) h3_session \<Rightarrow> ('q, 'u) h3_session" where
  "resume pid s = (case p3_waiter (s3_promises s pid) of None \<Rightarrow> s | Some w \<Rightarrow> s\<lparr>s3_user := w (s3_user s)\<rparr>)"

definition complete_promise3 :: "nat option \<Rightarrow> response \<Rightarrow> ('q, 'u) h3_session \<Rightarrow> ('q, 'u) h3_session" where
  "complete_promise3 promise resp s =
     (case promise of
        None \<Rightarrow> s
      | Some pid \<Rightarrow>
          if p3_complete (s3_promises s pid) then s
          else resume pid (upd_promise pid (\<lambda>p. p\<lparr>p3_resp := resp, p3_complete := True\<rparr>) s))"

definition complete_response :: "int \<Rightarrow> ('q, 'u) h3_session \<Rightarrow> ('q, 'u) h3_session" where
  "complete_response sid s =
     (let ss = h3_stream_at s sid
      in complete_promise3 (t3_promise ss) ((t3_resp ss)\<lparr>rs_bd := t3_resp_body ss\<rparr>) s)"

definition handle_response_headers3 :: "int \<Rightarrow> bytes \<Rightarrow> ('q, 'u) h3_session \<Rightarrow> ('q, 'u) h3_session run" where
  "handle_response_headers3 sid payload s =
     (case s3_streams s sid of
        None \<Rightarrow> ret s
      | Some ss \<Rightarrow>
          bindR (Some (qpack_decode (s3_decoder s) payload)) (\<lambda>hdrs.
          bindR (Some (response_fields3 hdrs (t3_resp ss))) (\<lambda>resp.
            let s1 = h3_set_stream sid (ss\<lparr>t3_resp_headers_complete := True, t3_resp := resp\<lparr>rs_ver := HTTP_3\<rparr>\<rparr>) s
            in ret (if t3_end_stream ss then complete_response sid s1 else s1))))"

definition handle_response_data3 :: "int \<Rightarrow> bytes \<Rightarrow> ('q, 'u) h3_session \<Rightarrow> ('q, 'u) h3_session run" where
  "handle_response_data3 sid payload s =
     (case s3_streams s sid of
        None \<Rightarrow> ret s
      | Some ss \<Rightarrow>
          (let s1 = h3_set_stream sid (ss\<lparr>t3_resp_body := t3_resp_body ss @ payload\<rparr>) s
           in ret (if t3_end_stream ss \<and> t3_resp_headers_complete ss then complete_response sid s1 else s1)))"

definition handle_request_headers3 :: "'q quic \<Rightarrow> int \<Rightarrow> bytes \<Rightarrow> ('q, 'u) h3_session \<Rightarrow> ('q, 'u) h3_session run" where
  "handle_request_headers3 q sid payload s =
     (case s3_streams s sid of
        None \<Rightarrow> ret s
      | Some ss \<Rightarrow>
          if s3_mode s = H3_Client then handle_response_headers3 sid payload s
          else bindR (Some (qpack_decode (s3_decoder s) payload)) (\<lambda>hdrs.
            let req = (fold request_field hdrs (t3_req ss))\<lparr>rq_ver := HTTP_3\<rparr>;
                s1 = h3_set_stream sid (ss\<lparr>t3_headers_complete := True, t3_req := req\<rparr>) s
            in if t3_end_stream ss then dispatch_request3 q sid s1 else ret s1))"

definition handle_request_data3 :: "'q quic \<Rightarrow> int \<Rightarrow> bytes \<Rightarrow> ('q, 'u) h3_session \<Rightarrow> ('q, 'u) h3_session run" where
  "handle_request_data3 q sid payload s =
     (case s3_streams s sid of
        None \<Rightarrow> ret s
      | Some ss \<Rightarrow>
          if s3_mode s = H3_Client then handle_response_data3 sid payload s
          else let ss1 = ss\<lparr>t3_body := t3_body ss @ payload\<rparr>
               in if t3_end_stream ss1
                  then (let s1 = h3_set_stream sid (ss1\<lparr>t3_req := (t3_req ss1)\<lparr>rq_bd := t3_body ss1\<rparr>\<rparr>) s
                        in if t3_headers_complete ss1 then dispatch_request3 q sid s1 else ret s1)
                  else ret (h3_set_stream sid ss1 s))"

text \<open>The peer's settings are parsed and not kept.\<close>

definition handle_settings3 :: "bytes \<Rightarrow> ('q, 'u) h3_session \<Rightarrow> ('q, 'u) h3_session" where
  "handle_settings3 payload s = (let _ = h3_parse_settings payload in s)"

definition handle_push_promise3 :: "bytes \<Rightarrow> ('q, 'u) h3_session \<Rightarrow> ('q, 'u) h3_session run" where
  "handle_push_promise3 payload s =
     (if s3_mode s \<noteq> H3_Client then ret s
      else let pp = h3_parse_push_promise payload
           in bindR (Some (qpack_decode (s3_decoder s) (h3_header_block pp))) (\<lambda>hdrs.
                let info = \<lparr>u3_push_id = h3_push_id pp,
                      u3_promised_request = (fold request_field hdrs request_default)\<lparr>rq_ver := HTTP_3\<rparr>\<rparr>
                in ret (case s3_push_handler s of None \<Rightarrow> s | Some h \<Rightarrow> s\<lparr>s3_user := h info (s3_user s)\<rparr>)))"

section \<open>Push streams\<close>

definition push_fields :: "headers \<Rightarrow> response \<Rightarrow> response" where
  "push_fields hdrs resp =
     fold (\<lambda>(name, val) resp.
       if name = str '':status''
       then resp\<lparr>rs_status := (case from_chars_signed 32 val of Some code \<Rightarrow> code | None \<Rightarrow> 0)\<rparr>
       else if first_char name \<noteq> 0x3A then resp\<lparr>rs_hdrs := hdrs_append name val (rs_hdrs resp)\<rparr>
       else resp) hdrs resp"

text \<open>
  One round of the loop over the frames of a push stream.  The loop feeds nothing, and a reader reports
  one frame at a time, so that after the first frame there is no second round.
\<close>

definition push_frame :: "int \<Rightarrow> ('q, 'u) h3_session \<Rightarrow> ('q, 'u) h3_session run" where
  "push_frame sid s =
     (let ss = h3_stream_at s sid
      in if h3_has_frame (t3_reader ss)
         then (let (f, r) = h3_take_frame (t3_reader ss); ss1 = ss\<lparr>t3_reader := r\<rparr>
               in case h3_type f of
                    H3_HEADERS \<Rightarrow>
                      bindR (Some (qpack_decode (s3_decoder s) (h3_payload f))) (\<lambda>hdrs.
                        ret (h3_set_stream sid (ss1\<lparr>t3_resp := (push_fields hdrs (t3_resp ss1))\<lparr>rs_ver := HTTP_3\<rparr>,
                               t3_headers_complete := True\<rparr>) s))
                  | H3_DATA \<Rightarrow> ret (h3_set_stream sid (ss1\<lparr>t3_resp_body := t3_resp_body ss1 @ h3_payload f\<rparr>) s)
                  | _ \<Rightarrow> ret (h3_set_stream sid ss1 s))
         else ret s)"

definition finish_push :: "int \<Rightarrow> ('q, 'u) h3_session \<Rightarrow> ('q, 'u) h3_session" where
  "finish_push sid s =
     (let ss = h3_stream_at s sid; pid = s3_next_promise s
      in s\<lparr>s3_next_promise := pid + 1, s3_completed := s3_completed s @ [pid],
           s3_promises := (s3_promises s)(pid := h3_promise_default\<lparr>p3_is_push := True,
             p3_push_info := h3_push_info_default\<lparr>u3_push_id := t3_send_offset ss\<rparr>,
             p3_resp := (t3_resp ss)\<lparr>rs_bd := t3_resp_body ss\<rparr>, p3_complete := True\<rparr>)\<rparr>)"

definition handle_push_stream :: "int \<Rightarrow> bytes \<Rightarrow> bool \<Rightarrow> ('q, 'u) h3_session \<Rightarrow> ('q, 'u) h3_session run" where
  "handle_push_stream sid data fin s =
     (if s3_mode s \<noteq> H3_Client then ret s
      else let ss = (h3_stream_at s sid)\<lparr>t3_id := sid\<rparr>;
               fed = (if \<not> t3_headers_complete ss \<and> t3_body ss = []
                      then (case decode_varint data of
                              None \<Rightarrow> None
                            | Some (push_id, n) \<Rightarrow>
                                Some (ss\<lparr>t3_send_offset := push_id,
                                         t3_reader := fst (h3_reader_feed (t3_reader ss) (drop n data))\<rparr>))
                      else Some (ss\<lparr>t3_reader := fst (h3_reader_feed (t3_reader ss) data)\<rparr>))
           in case fed of
                None \<Rightarrow> ret (h3_set_stream sid ss s)
              | Some ss1 \<Rightarrow>
                  bindR (push_frame sid (h3_set_stream sid ss1 s)) (\<lambda>s1.
                    ret (if fin \<and> t3_headers_complete (h3_stream_at s1 sid) then finish_push sid s1 else s1)))"

section \<open>Callbacks of the transport\<close>

lemma h3_feed_loop_ge: "consumed \<le> snd (h3_reader_feed_loop r data consumed)"
proof (induction r data consumed rule: h3_reader_feed_loop.induct)
  case (1 r data consumed)
  show ?case
  proof (cases "data = []")
    case False
    then show ?thesis
    proof (cases "r3_state r")
      case READ_TYPE
      obtain n r1 where "read_type r data = (n, r1)" by force
      then show ?thesis using 1(1) [OF False READ_TYPE] False READ_TYPE by (fastforce simp: h3_reader_feed_loop.simps [of r])
    next
      case READ_LENGTH
      obtain n r1 where "read_length r data = (n, r1)" by force
      then show ?thesis using 1(2) [OF False READ_LENGTH] False READ_LENGTH by (fastforce simp: h3_reader_feed_loop.simps [of r])
    next
      case READ_PAYLOAD
      obtain n r1 where "read_payload r data = (n, r1)" by force
      then show ?thesis using 1(3) [OF False READ_PAYLOAD] False READ_PAYLOAD by (fastforce simp: h3_reader_feed_loop.simps [of r])
    qed (simp add: h3_reader_feed_loop.simps [of r])
  qed (simp add: h3_reader_feed_loop.simps [of r])
qed

lemma read_type_state:
  "read_type r data = (n, r1) \<Longrightarrow> r3_state r = READ_TYPE \<Longrightarrow> r3_state r1 \<noteq> COMPLETE"
  by (auto simp: read_type_def feed_varint_def Let_def split: if_splits option.splits prod.splits)

lemma h3_feed_frame_progress:
  assumes "h3_reader_feed r data = (r1, 0)" and "h3_has_frame r1"
  shows "r3_state r \<noteq> READ_TYPE"
proof
  assume st: "r3_state r = READ_TYPE"
  obtain n r2 where rt: "read_type r data = (n, r2)" by force
  show False
  proof (cases "data = []")
    case True
    then show ?thesis using assms st by (simp add: h3_reader_feed_def h3_has_frame_def h3_reader_feed_loop.simps)
  next
    case False
    then show ?thesis
      using assms st rt read_type_state [OF rt st] h3_feed_loop_ge [of n r2 "drop n data"]
      by (cases "n = 0") (auto simp: h3_reader_feed_def h3_has_frame_def h3_reader_feed_loop.simps [of r])
  qed
qed

text \<open>
  The loop over received bytes: feed, and while a frame is complete take it, handle it and feed what is
  left.  No handler looks at the reader, which the loop carries along and gives back at the end.
\<close>

function frame_loop ::
  "(h3_frame \<Rightarrow> 's \<Rightarrow> 's run) \<Rightarrow> bytes \<Rightarrow> h3_reader \<Rightarrow> 's \<Rightarrow> (h3_reader \<times> 's) run" where
  "frame_loop handle data r s =
     (let (r1, fed) = h3_reader_feed r data
      in if h3_has_frame r1
         then (let (f, r2) = h3_take_frame r1 in bindR (handle f s) (\<lambda>s1. frame_loop handle (drop fed data) r2 s1))
         else ret (r1, s))"
  by pat_completeness auto
termination
proof (relation "measures [\<lambda>(_, data, _, _). length data, \<lambda>(_, _, r, _). if r3_state r = READ_TYPE then 0 else 1]", goal_cases)
  case (2 handle data r s p r1 fed pp f r2 s1)
  have "r3_state r2 = READ_TYPE" using 2 by (auto simp: h3_take_frame_def)
  moreover have "fed = 0 \<Longrightarrow> r3_state r \<noteq> READ_TYPE" using h3_feed_frame_progress [of r data r1] 2 by auto
  moreover have "fed \<noteq> 0 \<Longrightarrow> data = [] \<Longrightarrow> False"
    using 2 by (auto simp: h3_reader_feed_def h3_reader_feed_loop.simps)
  ultimately show ?case by (cases "fed = 0"; cases data) auto
qed simp

declare frame_loop.simps [simp del]

definition control_frame :: "h3_frame \<Rightarrow> ('q, 'u) h3_session \<Rightarrow> ('q, 'u) h3_session run" where
  "control_frame f s =
     (case h3_type f of
        H3_SETTINGS \<Rightarrow> ret (handle_settings3 (h3_payload f) s)
      | H3_PUSH_PROMISE \<Rightarrow> handle_push_promise3 (h3_payload f) s
      | _ \<Rightarrow> ret s)"

definition request_frame :: "'q quic \<Rightarrow> int \<Rightarrow> h3_frame \<Rightarrow> ('q, 'u) h3_session \<Rightarrow> ('q, 'u) h3_session run" where
  "request_frame q sid f s =
     (case h3_type f of
        H3_HEADERS \<Rightarrow> handle_request_headers3 q sid (h3_payload f) s
      | H3_DATA \<Rightarrow> handle_request_data3 q sid (h3_payload f) s
      | _ \<Rightarrow> ret s)"

text \<open>Data of a unidirectional stream: the whole stream so far is looked at again.\<close>

definition recv_uni :: "'q quic \<Rightarrow> bool \<Rightarrow> int \<Rightarrow> bytes \<Rightarrow> ('q, 'u) h3_session \<Rightarrow> ('q, 'u) h3_session run" where
  "recv_uni q fin sid data s =
     (let ss = (h3_stream_at s sid)\<lparr>t3_id := sid\<rparr>;
          buf = s3_uni_buf s sid @ data;
          s0 = (h3_set_stream sid ss s)\<lparr>s3_uni_buf := (s3_uni_buf s)(sid := buf)\<rparr>
      in case (if buf = [] then None else decode_varint buf) of
           None \<Rightarrow> ret (if fin then h3_extend q sid data s0 else s0)
         | Some (stream_type, consumed) \<Rightarrow>
             (let payload = drop consumed buf
              in bindR
                   (if stream_type = h3_stream_type_code CONTROL
                    then bindR (frame_loop control_frame payload h3_reader_init (h3_set_stream sid (ss\<lparr>t3_control_stream := True\<rparr>) s0))
                           (\<lambda>(_, s1). ret s1)
                    else if stream_type = h3_stream_type_code PUSH then handle_push_stream sid payload fin s0
                    else if stream_type = h3_stream_type_code QPACK_ENCODER
                    then bindR (Some (process_encoder_instructions (s3_decoder s0) payload)) (\<lambda>d.
                           ret ((h3_set_stream sid (ss\<lparr>t3_qpack_encoder_stream := True\<rparr>) s0)\<lparr>s3_decoder := d\<rparr>))
                    else if stream_type = h3_stream_type_code QPACK_DECODER
                    then ret (h3_set_stream sid (ss\<lparr>t3_qpack_decoder_stream := True\<rparr>) s0)
                    else ret s0)
                   (\<lambda>s1. ret (h3_extend q sid data s1))))"

definition h3_opened :: "int \<Rightarrow> h3_stream \<Rightarrow> h3_stream" where
  "h3_opened sid ss =
     (let ss = ss\<lparr>t3_id := sid\<rparr> in if t3_state ss = T_Idle then ss\<lparr>t3_state := T_Open\<rparr> else ss)"

definition recv_bidi :: "'q quic \<Rightarrow> bool \<Rightarrow> int \<Rightarrow> bytes \<Rightarrow> ('q, 'u) h3_session \<Rightarrow> ('q, 'u) h3_session run" where
  "recv_bidi q fin sid data s =
     (let ss = h3_opened sid (h3_stream_at s sid)
      in bindR (frame_loop (request_frame q sid) data (t3_reader ss) (h3_set_stream sid ss s)) (\<lambda>(r, s1).
           let ss1 = (h3_stream_at s1 sid)\<lparr>t3_reader := r\<rparr>
           in bindR
                (if \<not> fin then ret (h3_set_stream sid ss1 s1)
                 else let ss2 = ss1\<lparr>t3_end_stream := True\<rparr>; s2 = h3_set_stream sid ss2 s1
                      in if s3_mode s2 = H3_Server
                         then (if t3_headers_complete ss2 then dispatch_request3 q sid s2 else ret s2)
                         else ret (if t3_resp_headers_complete ss2
                                   then complete_promise3 (t3_promise ss2)
                                          ((t3_resp ss2)\<lparr>rs_bd := t3_resp_body ss2, rs_ver := HTTP_3\<rparr>) s2
                                   else s2))
                (\<lambda>s3. ret (h3_extend q sid data s3))))"

definition cb_recv_stream_data ::
  "'q quic \<Rightarrow> bool \<Rightarrow> int \<Rightarrow> bytes \<Rightarrow> ('q, 'u) h3_session \<Rightarrow> ('q, 'u) h3_session run" where
  "cb_recv_stream_data q fin sid data s =
     (if sid AND 2 \<noteq> 0 then recv_uni q fin sid data s else recv_bidi q fin sid data s)"

definition cb_handshake_completed :: "'q quic \<Rightarrow> ('q, 'u) h3_session \<Rightarrow> ('q, 'u) h3_session run" where
  "cb_handshake_completed q s =
     bindR (open_control_streams q (s\<lparr>s3_handshake_done := True\<rparr>)) (\<lambda>s1.
       if s3_mode s1 = H3_Client \<and> s3_has_pending s1 then submit_queued_request q s1 else ret s1)"

definition cb_stream_open :: "int \<Rightarrow> ('q, 'u) h3_session \<Rightarrow> ('q, 'u) h3_session" where
  "cb_stream_open sid s = h3_set_stream sid ((h3_stream_at s sid)\<lparr>t3_id := sid\<rparr>) s"

definition cb_stream_close :: "int \<Rightarrow> ('q, 'u) h3_session \<Rightarrow> ('q, 'u) h3_session" where
  "cb_stream_close sid s =
     (case s3_streams s sid of
        None \<Rightarrow> s
      | Some ss \<Rightarrow>
          (let s1 = (case (if s3_mode s = H3_Client then t3_promise ss else None) of
                       None \<Rightarrow> s
                     | Some pid \<Rightarrow>
                         if p3_complete (s3_promises s pid) then s
                         else resume pid (upd_promise pid (\<lambda>p.
                                if t3_resp_headers_complete ss
                                then p\<lparr>p3_resp := (p3_resp p)\<lparr>rs_bd := t3_resp_body ss, rs_ver := HTTP_3\<rparr>, p3_complete := True\<rparr>
                                else p\<lparr>p3_error := True, p3_complete := True\<rparr>) s))
           in h3_set_stream sid (ss\<lparr>t3_state := T_Closed\<rparr>) s1))"

fun run_events :: "'q quic \<Rightarrow> quic_event list \<Rightarrow> ('q, 'u) h3_session \<Rightarrow> ('q, 'u) h3_session run" where
  "run_events q [] s = ret s"
| "run_events q (e # es) s =
     bindR (case e of
              Ev_Handshake_Completed \<Rightarrow> cb_handshake_completed q s
            | Ev_Stream_Open sid \<Rightarrow> ret (cb_stream_open sid s)
            | Ev_Stream_Data fin sid data \<Rightarrow> cb_recv_stream_data q fin sid data s
            | Ev_Stream_Close sid \<Rightarrow> ret (cb_stream_close sid s)) (run_events q es)"

section \<open>Packets\<close>

text \<open>The connection identifiers of a client's first packet, as the answer with a Retry reads them.\<close>

definition retry_cids :: "bytes \<Rightarrow> bytes \<times> bytes" where
  "retry_cids data =
     (let offset = 5;
          (dcid_len, offset) = (if offset < length data then (unat (data ! offset), offset + 1) else (0, offset));
          dcid_len = (if length data < offset + dcid_len then 0 else dcid_len);
          dcid = substr data offset dcid_len; offset = offset + dcid_len;
          (scid_len, offset) = (if offset < length data then (unat (data ! offset), offset + 1) else (0, offset));
          scid_len = (if length data < offset + scid_len then 0 else scid_len)
      in (dcid, substr data offset scid_len))"

definition packet_version :: "bytes \<Rightarrow> u32" where
  "packet_version data = ld32 (data ! 1) (data ! 2) (data ! 3) (data ! 4)"

definition feed_packet :: "'q quic \<Rightarrow> bytes \<Rightarrow> ('q, 'u) h3_session \<Rightarrow> (int \<times> ('q, 'u) h3_session) run" where
  "feed_packet q data s =
     (case s3_conn s of
        None \<Rightarrow> ret (-1, s)
      | Some c \<Rightarrow>
          if \<not> s3_alive s then ret (-1, s)
          else (case q_read_pkt q data c of (c', events, rv) \<Rightarrow>
            bindR (run_events q events (s\<lparr>s3_conn := Some c'\<rparr>)) (\<lambda>s1.
              case rv of
                Read_Retry \<Rightarrow>
                  (let pkt = (if 5 \<le> length data \<and> data ! 0 AND 0x80 \<noteq> 0
                              then (case retry_cids data of (dcid, scid) \<Rightarrow>
                                      q_write_retry q (packet_version data) dcid scid (the (s3_conn s1)))
                              else None)
                   in ret (int (length data),
                        s1\<lparr>s3_output := s3_output s1 @ (case pkt of Some p \<Rightarrow> [p] | None \<Rightarrow> []), s3_alive := False\<rparr>))
              | Read_Error \<Rightarrow> ret (-1, s1\<lparr>s3_alive := False\<rparr>)
              | Read_Ok \<Rightarrow> bindR (write_packets q s1) (\<lambda>(_, s2). ret (int (length data), s2)))))"

definition max_cidlen :: nat where "max_cidlen = 20"

definition long_header_cids :: "bytes \<Rightarrow> (u32 \<times> bytes \<times> bytes) option" where
  "long_header_cids data =
     (if length data < 5 then None
      else if data ! 0 AND 0x80 = 0 then None
      else if length data \<le> 5 then None
      else let dcid_len = unat (data ! 5); offset = 6
           in if length data < offset + dcid_len \<or> max_cidlen < dcid_len then None
              else let dcid = substr data offset dcid_len; offset = offset + dcid_len
                   in if length data \<le> offset then None
                      else let scid_len = unat (data ! offset); offset = offset + 1
                           in if length data < offset + scid_len \<or> max_cidlen < scid_len then None
                              else Some (packet_version data, dcid, substr data offset scid_len))"

definition init_server_from_packet :: "'q quic \<Rightarrow> bytes \<Rightarrow> ('q, 'u) h3_session \<Rightarrow> bool \<times> ('q, 'u) h3_session" where
  "init_server_from_packet q data s =
     (if s3_conn s \<noteq> None then (True, s)
      else if s3_mode s \<noteq> H3_Server then (False, s)
      else case long_header_cids data of
             None \<Rightarrow> (False, s)
           | Some (ver, dcid, scid) \<Rightarrow>
               (case q_server_new q dcid scid ver of
                  None \<Rightarrow> (False, s)
                | Some c \<Rightarrow> (True, s\<lparr>s3_conn := Some c\<rparr>)))"

definition get_pending_output3 :: "('q, 'u) h3_session \<Rightarrow> bytes \<times> ('q, 'u) h3_session" where
  "get_pending_output3 s = (concat (s3_output s), s\<lparr>s3_output := []\<rparr>)"

definition get_pending_packets :: "('q, 'u) h3_session \<Rightarrow> bytes list \<times> ('q, 'u) h3_session" where
  "get_pending_packets s = (s3_output s, s\<lparr>s3_output := []\<rparr>)"

text \<open>
  Flushing: the results of successive \<^verbatim>\<open>co_await fn(...)\<close>, at most what was offered.  The result is the
  datagrams handed over, whether everything was sent; \<open>None\<close> when the list of results ends first.
\<close>

fun send_packet :: "int list \<Rightarrow> bytes \<Rightarrow> (bytes list \<times> bool \<times> int list) option" where
  "send_packet ns [] = Some ([], True, ns)"
| "send_packet [] (b # d) = None"
| "send_packet (n # ns) (b # d) =
     (if n \<le> 0 then Some ([], False, ns)
      else map_option (\<lambda>(sent, r). (take (nat n) (b # d) # sent, r)) (send_packet ns (drop (nat n) (b # d))))"

fun flush_packets :: "int list \<Rightarrow> bytes list \<Rightarrow> (bytes list \<times> bool) option" where
  "flush_packets ns [] = Some ([], True)"
| "flush_packets ns (p # ps) =
     (case send_packet ns p of
        None \<Rightarrow> None
      | Some (sent, False, _) \<Rightarrow> Some (sent, False)
      | Some (sent, True, ns') \<Rightarrow> map_option (\<lambda>(more, ok). (sent @ more, ok)) (flush_packets ns' ps))"

definition h3_flush :: "int list \<Rightarrow> ('q, 'u) h3_session \<Rightarrow> (bytes list \<times> bool) option \<times> ('q, 'u) h3_session" where
  "h3_flush ns s = (let (pkts, s1) = get_pending_packets s in (flush_packets ns pkts, s1))"

definition handle_expiry :: "'q quic \<Rightarrow> ('q, 'u) h3_session \<Rightarrow> ('q, 'u) h3_session run" where
  "handle_expiry q s =
     (case s3_conn s of
        None \<Rightarrow> ret s
      | Some c \<Rightarrow>
          (let (c', ok) = q_handle_expiry q c
           in bindR (write_packets q (s\<lparr>s3_conn := Some c', s3_alive := (s3_alive s \<and> ok)\<rparr>)) (\<lambda>(_, s1). ret s1)))"

definition take_completed_promises3 :: "('q, 'u) h3_session \<Rightarrow> nat list \<times> ('q, 'u) h3_session" where
  "take_completed_promises3 s = (s3_completed s, s\<lparr>s3_completed := []\<rparr>)"

end
