(* ===== verification/H3_Exchange.thy ===== *)
theory H3_Exchange
  imports H3_Session
begin

text \<open>
  What the HTTP/3 session guarantees: the write loops return exactly when the transport settles, a
  message on a stream is handled the same however it is cut, and a request and its response cross two
  sessions unchanged as far as the transport takes each of them in one write, and not at all otherwise.  The last section also states where the session loses data: on the encoder stream,
  on push streams, on closed streams and before the handshake.
\<close>

section \<open>The write loops\<close>

text \<open>The transport runs out of packets, or reports an error, after finitely many calls.\<close>

inductive settles :: "'q quic \<Rightarrow> 'q \<Rightarrow> bool" for q where
  settles_done: "q_writev q False (-1) [] c = (c', n, Wrote []) \<Longrightarrow> settles q c"
| settles_error: "q_writev q False (-1) [] c = (c', n, r) \<Longrightarrow> r \<in> {Write_Blocked, Write_Shut, Write_Failed} \<Longrightarrow> settles q c"
| settles_packet: "q_writev q False (-1) [] c = (c', n, Wrote pkt) \<Longrightarrow> settles q c' \<Longrightarrow> settles q c"
| settles_more: "q_writev q False (-1) [] c = (c', n, Write_More) \<Longrightarrow> settles q c' \<Longrightarrow> settles q c"

lemma write_packets_loop_returns: "settles q c \<Longrightarrow> \<exists>r. write_packets_loop q c pkts = Some r"
proof (induction arbitrary: pkts rule: settles.induct)
  case (settles_done c c' n)
  then show ?case by (subst write_packets_loop.simps) auto
next
  case (settles_error c c' n r)
  then show ?case by (subst write_packets_loop.simps) auto
next
  case (settles_packet c c' n pkt)
  then show ?case by (subst write_packets_loop.simps) auto
next
  case (settles_more c c' n)
  then show ?case by (subst write_packets_loop.simps) simp
qed

lemma write_packets_loop_settles:
  assumes "write_packets_loop q c pkts = Some r"
  shows "settles q c"
proof (rule write_packets_loop.raw_induct [OF _ assms, where P = "\<lambda>q c pkts r. settles q c"])
  fix f :: "'a quic \<Rightarrow> 'a \<Rightarrow> bytes list \<Rightarrow> ('a \<times> bytes list \<times> bool) option" and q c pkts r
  assume hyp: "\<And>q c pkts r. f q c pkts = Some r \<Longrightarrow> settles q c"
    and body: "(let (c', pdatalen, r) = q_writev q False (-1) [] c
      in case r of
           Wrote pkt \<Rightarrow> if pkt = [] then Some (c', pkts, True) else f q c' (pkts @ [pkt])
         | Write_More \<Rightarrow> f q c' pkts
         | Write_Blocked \<Rightarrow> Some (c', pkts, False)
         | Write_Shut \<Rightarrow> Some (c', pkts, False)
         | Write_Failed \<Rightarrow> Some (c', pkts, False)) = Some r"
  obtain c' n w where "q_writev q False (-1) [] c = (c', n, w)" by (metis prod_cases3)
  then show "settles q c"
    using body hyp by (cases r; cases w) (auto intro: settles.intros split: if_splits)
qed

section \<open>Frames and the state of a stream\<close>

text \<open>
  Before the end of the stream a frame changes the stream it arrives on and nothing else.
\<close>

definition stream_frame :: "h3_mode \<Rightarrow> qpack_decoder \<Rightarrow> h3_frame \<Rightarrow> h3_stream \<Rightarrow> h3_stream res" where
  "stream_frame m d f ss =
     (case (h3_type f, m) of
        (H3_HEADERS, H3_Server) \<Rightarrow>
          bindE (qpack_decode d (h3_payload f)) (\<lambda>hdrs.
            Inr (ss\<lparr>t3_headers_complete := True, t3_req := (fold request_field hdrs (t3_req ss))\<lparr>rq_ver := HTTP_3\<rparr>\<rparr>))
      | (H3_HEADERS, H3_Client) \<Rightarrow>
          bindE (qpack_decode d (h3_payload f)) (\<lambda>hdrs.
          bindE (response_fields3 hdrs (t3_resp ss)) (\<lambda>resp.
            Inr (ss\<lparr>t3_resp_headers_complete := True, t3_resp := resp\<lparr>rs_ver := HTTP_3\<rparr>\<rparr>)))
      | (H3_DATA, H3_Server) \<Rightarrow> Inr (ss\<lparr>t3_body := t3_body ss @ h3_payload f\<rparr>)
      | (H3_DATA, H3_Client) \<Rightarrow> Inr (ss\<lparr>t3_resp_body := t3_resp_body ss @ h3_payload f\<rparr>)
      | _ \<Rightarrow> Inr ss)"

fun stream_frames :: "h3_mode \<Rightarrow> qpack_decoder \<Rightarrow> h3_frame list \<Rightarrow> h3_stream \<Rightarrow> h3_stream res" where
  "stream_frames m d [] ss = Inr ss"
| "stream_frames m d (f # fs) ss = bindE (stream_frame m d f ss) (stream_frames m d fs)"

lemma stream_frames_append: "stream_frames m d (fs @ gs) ss = bindE (stream_frames m d fs ss) (stream_frames m d gs)"
  by (induction fs arbitrary: ss) (auto simp: bindE_assoc intro!: bindE_cong)

text \<open>What no frame touches.\<close>

lemma stream_frame_keeps:
  assumes "stream_frame m d f ss = Inr ss'"
  shows "t3_end_stream ss' = t3_end_stream ss" "t3_id ss' = t3_id ss" "t3_state ss' = t3_state ss"
    "t3_send_buf ss' = t3_send_buf ss" "t3_send_offset ss' = t3_send_offset ss" "t3_promise ss' = t3_promise ss"
    "stream_frame m d f (ss\<lparr>t3_reader := r\<rparr>) = Inr (ss'\<lparr>t3_reader := r\<rparr>)"
  using assms
  by (cases "h3_type f"; cases m; auto simp: stream_frame_def elim!: bindE_InrE; fail)+

lemma stream_frames_keep:
  "stream_frames m d fs ss = Inr ss' \<Longrightarrow>
     t3_end_stream ss' = t3_end_stream ss \<and> t3_id ss' = t3_id ss \<and> t3_state ss' = t3_state ss \<and>
     t3_send_buf ss' = t3_send_buf ss \<and> t3_send_offset ss' = t3_send_offset ss \<and> t3_promise ss' = t3_promise ss \<and>
     stream_frames m d fs (ss\<lparr>t3_reader := r\<rparr>) = Inr (ss'\<lparr>t3_reader := r\<rparr>)"
proof (induction fs arbitrary: ss)
  case (Cons f fs)
  then obtain ss1 where "stream_frame m d f ss = Inr ss1" "stream_frames m d fs ss1 = Inr ss'"
    by (auto elim: bindE_InrE)
  then show ?case using Cons.IH [of ss1] stream_frame_keeps [of m d f ss ss1] by simp
qed simp

lemma h3_stream_at_set [simp]: "h3_stream_at (h3_set_stream sid ss s) sid = ss"
  by (simp add: h3_stream_at_def h3_set_stream_def)

lemma h3_set_stream_fields [simp]:
  "s3_mode (h3_set_stream sid ss s) = s3_mode s" "s3_decoder (h3_set_stream sid ss s) = s3_decoder s"
  "s3_conn (h3_set_stream sid ss s) = s3_conn s" "s3_streams (h3_set_stream sid ss s) sid = Some ss"
  "s3_request_handler (h3_set_stream sid ss s) = s3_request_handler s"
  "s3_push_provider (h3_set_stream sid ss s) = s3_push_provider s" "s3_user (h3_set_stream sid ss s) = s3_user s"
  "s3_promises (h3_set_stream sid ss s) = s3_promises s" "s3_output (h3_set_stream sid ss s) = s3_output s"
  "h3_set_stream sid ss (h3_set_stream sid ss' s) = h3_set_stream sid ss s"
  by (simp_all add: h3_set_stream_def)

lemma h3_set_stream_updates [simp]:
  "(h3_set_stream sid ss s)\<lparr>s3_user := u\<rparr> = h3_set_stream sid ss (s\<lparr>s3_user := u\<rparr>)"
  "(h3_set_stream sid ss s)\<lparr>s3_conn := c\<rparr> = h3_set_stream sid ss (s\<lparr>s3_conn := c\<rparr>)"
  "(h3_set_stream sid ss s)\<lparr>s3_promises := p\<rparr> = h3_set_stream sid ss (s\<lparr>s3_promises := p\<rparr>)"
  by (simp_all add: h3_set_stream_def)

lemma request_frame_stream:
  assumes "\<not> t3_end_stream ss"
  shows "request_frame q sid f (h3_set_stream sid ss s) =
    Some (bindE (stream_frame (s3_mode s) (s3_decoder s) f ss) (\<lambda>ss'. Inr (h3_set_stream sid ss' s)))"
  using assms
  by (cases "h3_type f"; cases "s3_mode s"; cases "qpack_decode (s3_decoder s) (h3_payload f)";
      simp add: request_frame_def stream_frame_def handle_request_headers3_def handle_response_headers3_def
        handle_request_data3_def handle_response_data3_def ret_def Let_def)
     (auto simp: bindR_def bindE_def Let_def ret_def split: sum.splits)

section \<open>The frame loop is a drain\<close>

fun fold_run :: "('f \<Rightarrow> 's \<Rightarrow> 's run) \<Rightarrow> 'f list \<Rightarrow> 's \<Rightarrow> 's run" where
  "fold_run h [] s = ret s"
| "fold_run h (f # fs) s = bindR (h f s) (fold_run h fs)"

lemma frame_loop_drain:
  "drain h3_reader_feed h3_has_frame h3_take_frame n r data = Some (fs, r') \<Longrightarrow>
   frame_loop h data r s = bindR (fold_run h fs s) (\<lambda>s'. ret (r', s'))"
proof (induction n arbitrary: r data fs s)
  case (Suc n)
  obtain r1 c where fd: "h3_reader_feed r data = (r1, c)" by force
  obtain f r2 where tk: "h3_take_frame r1 = (f, r2)" by force
  show ?case
  proof (cases "h3_has_frame r1")
    case True
    then obtain gs where gs: "fs = f # gs" "drain h3_reader_feed h3_has_frame h3_take_frame n r2 (drop c data) = Some (gs, r')"
      using Suc.prems fd tk by auto
    then show ?thesis
      using True fd tk Suc.IH [OF gs(2)] by (auto simp: frame_loop.simps [of h data] bindR_assoc intro!: bindR_cong)
  next
    case False
    then show ?thesis using Suc.prems fd by (simp add: frame_loop.simps [of h data])
  qed
qed simp

lemma fold_request_frames:
  assumes "stream_frames (s3_mode s) (s3_decoder s) fs ss = Inr ss'" and "\<not> t3_end_stream ss"
  shows "fold_run (request_frame q sid) fs (h3_set_stream sid ss s) = ret (h3_set_stream sid ss' s)"
  using assms
proof (induction fs arbitrary: ss)
  case (Cons f fs)
  then obtain ss1 where ss1: "stream_frame (s3_mode s) (s3_decoder s) f ss = Inr ss1"
    "stream_frames (s3_mode s) (s3_decoder s) fs ss1 = Inr ss'"
    by (auto elim: bindE_InrE)
  then show ?case
    using Cons.IH [OF ss1(2)] Cons.prems(2) stream_frame_keeps(1) [OF ss1(1)]
    by (simp add: request_frame_stream)
qed (simp add: ret_def)

section \<open>Any cut of the stream\<close>

lemma h3_parse_extend:
  assumes "h3_parse_frame w = Some (f, w')"
  shows "h3_parse_frame (w @ x) = Some (f, w' @ x)"
proof -
  obtain t n l k where d: "decode_varint w = Some (t, n)" "decode_varint (drop n w) = Some (l, k)"
    using assms by (auto simp: h3_parse_frame_def split: option.splits)
  have nk: "n \<le> length w" "k \<le> length (drop n w)"
    using decode_varint_pos [OF d(1)] decode_varint_pos [OF d(2)] by auto
  then show ?thesis
    using assms decode_varint_append [OF d(1), of x] decode_varint_append [OF d(2), of x] d
    by (auto simp: h3_parse_frame_def Let_def split: if_splits)
qed

lemma h3_parses_extend: "parses h3_parse_frame w fs u \<Longrightarrow> parses h3_parse_frame (w @ x) fs (u @ x)"
  by (induction rule: parses.induct) (auto intro: parses.intros h3_parse_extend)

lemma parses_split:
  "parses h3_parse_frame w gs u \<Longrightarrow> parses h3_parse_frame w fs [] \<Longrightarrow> \<exists>hs. fs = gs @ hs \<and> parses h3_parse_frame u hs []"
proof (induction arbitrary: fs rule: parses.induct)
  case (parses_Cons w f w' gs u)
  then show ?case by (cases fs) (auto simp: parses_Nil_simp parses_Cons_simp)
qed simp

text \<open>
  One chunk: whatever frames it completes are handled, the others wait in the reader.
\<close>

lemma drain_chunk:
  assumes "h3_holds r w" and "parses h3_parse_frame (w @ data @ rest) fs []"
  shows "\<exists>gs hs r' w'. drain h3_reader_feed h3_has_frame h3_take_frame (Suc (length w + length data)) r data = Some (gs, r') \<and>
    fs = gs @ hs \<and> h3_holds r' w' \<and> parses h3_parse_frame (w' @ rest) hs [] \<and>
    (rest = [] \<longrightarrow> hs = [] \<or> (\<exists>t. hs = [\<lparr>h3_type = t, h3_payload = []\<rparr>]))"
proof -
  obtain gs r' w' where d: "drain h3_reader_feed h3_has_frame h3_take_frame (Suc (length w + length data)) r data = Some (gs, r')"
    "h3_holds r' w'" "\<not> h3_has_frame r'" "parses h3_parse_frame (w @ data) gs w'"
    using h3_stream.drain_sound [OF assms(1), of data "Suc (length w + length data)"] by auto
  obtain hs where hs: "fs = gs @ hs" "parses h3_parse_frame (w' @ rest) hs []"
    using parses_split [OF h3_parses_extend [OF d(4), of rest]] assms(2) by auto
  have "hs = [] \<or> (\<exists>t. hs = [\<lparr>h3_type = t, h3_payload = []\<rparr>])" if "rest = []"
    using h3_unreported [OF d(2,3)] hs(2) that by (cases hs) (auto simp: parses_Cons_simp parses_Nil_simp, (cases "tl hs"; auto simp: parses_Cons_simp)+)
  then show ?thesis using d hs by blast
qed

section \<open>A whole message on a stream\<close>

lemma h3_extend_set_stream: "h3_extend q sid data (h3_set_stream sid ss s) = h3_set_stream sid ss (h3_extend q sid data s)"
  by (simp add: h3_extend_def h3_set_stream_def)

lemma h3_extend_fields [simp]:
  "s3_mode (h3_extend q sid data s) = s3_mode s" "s3_decoder (h3_extend q sid data s) = s3_decoder s"
  "s3_request_handler (h3_extend q sid data s) = s3_request_handler s" "s3_push_provider (h3_extend q sid data s) = s3_push_provider s"
  "s3_user (h3_extend q sid data s) = s3_user s" "s3_promises (h3_extend q sid data s) = s3_promises s"
  by (simp_all add: h3_extend_def)

text \<open>What \<^verbatim>\<open>recv_stream_data\<close> does when the last byte of the stream has been handled.\<close>

definition finish_stream :: "'q quic \<Rightarrow> int \<Rightarrow> bytes \<Rightarrow> ('q, 'u) h3_session \<Rightarrow> ('q, 'u) h3_session run" where
  "finish_stream q sid data s =
     bindR (if s3_mode s = H3_Server
            then (if t3_headers_complete (h3_stream_at s sid) then dispatch_request3 q sid s else ret s)
            else ret (let ss = h3_stream_at s sid
                      in if t3_resp_headers_complete ss
                         then complete_promise3 (t3_promise ss) ((t3_resp ss)\<lparr>rs_bd := t3_resp_body ss, rs_ver := HTTP_3\<rparr>) s
                         else s))
       (\<lambda>s3. ret (h3_extend q sid data s3))"

lemma recv_bidi_chunk:
  assumes "drain h3_reader_feed h3_has_frame h3_take_frame n (t3_reader ss) data = Some (gs, r')"
    and "stream_frames (s3_mode s) (s3_decoder s) gs ss = Inr ss'"
    and "t3_id ss = sid" and "t3_state ss = T_Open" and "\<not> t3_end_stream ss"
  shows "recv_bidi q False sid data (h3_set_stream sid ss s) =
      ret (h3_set_stream sid (ss'\<lparr>t3_reader := r'\<rparr>) (h3_extend q sid data s))"
    and "recv_bidi q True sid data (h3_set_stream sid ss s) =
      finish_stream q sid data (h3_set_stream sid (ss'\<lparr>t3_reader := r', t3_end_stream := True\<rparr>) s)"
proof -
  have id: "h3_opened sid ss = ss" using assms(3,4) by (cases ss) (simp add: h3_opened_def)
  have loop: "frame_loop (request_frame q sid) data (t3_reader ss) (h3_set_stream sid ss s) = ret (r', h3_set_stream sid ss' s)"
    unfolding frame_loop_drain [OF assms(1)] fold_request_frames [OF assms(2,5)] by simp
  show "recv_bidi q False sid data (h3_set_stream sid ss s) =
      ret (h3_set_stream sid (ss'\<lparr>t3_reader := r'\<rparr>) (h3_extend q sid data s))"
    using assms(4) by (simp add: recv_bidi_def id loop Let_def h3_extend_set_stream)
  show "recv_bidi q True sid data (h3_set_stream sid ss s) =
      finish_stream q sid data (h3_set_stream sid (ss'\<lparr>t3_reader := r', t3_end_stream := True\<rparr>) s)"
    using assms(4) by (simp add: recv_bidi_def id loop Let_def finish_stream_def)
qed

lemma run_events_Nil [simp]: "run_events q [] = ret"
  by (rule ext) simp

text \<open>The bytes of a stream as the transport delivers them: in pieces, the last one with FIN.\<close>

definition deliver :: "int \<Rightarrow> bytes list \<Rightarrow> bytes \<Rightarrow> quic_event list" where
  "deliver sid chunks final = map (Ev_Stream_Data False sid) chunks @ [Ev_Stream_Data True sid final]"

definition extends :: "'q quic \<Rightarrow> int \<Rightarrow> bytes list \<Rightarrow> ('q, 'u) h3_session \<Rightarrow> ('q, 'u) h3_session" where
  "extends q sid chunks s = fold (h3_extend q sid) chunks s"

lemma extends_fields [simp]:
  "s3_mode (extends q sid chunks s) = s3_mode s" "s3_decoder (extends q sid chunks s) = s3_decoder s"
  "s3_request_handler (extends q sid chunks s) = s3_request_handler s" "s3_push_provider (extends q sid chunks s) = s3_push_provider s"
  "s3_user (extends q sid chunks s) = s3_user s" "s3_promises (extends q sid chunks s) = s3_promises s"
  by (induction chunks arbitrary: s) (simp_all add: extends_def)

lemma deliver_frames:
  assumes "parses h3_parse_frame (w @ concat chunks @ final) fs []" and "h3_holds (t3_reader ss) w"
    and "fs \<noteq> [] \<longrightarrow> h3_payload (last fs) \<noteq> []"
    and "stream_frames (s3_mode s) (s3_decoder s) fs ss = Inr ss'"
    and "t3_id ss = sid" and "t3_state ss = T_Open" and "\<not> t3_end_stream ss" and "sid AND 2 = 0"
  shows "\<exists>r'. run_events q (deliver sid chunks final) (h3_set_stream sid ss s) =
    finish_stream q sid final (h3_set_stream sid (ss'\<lparr>t3_reader := r', t3_end_stream := True\<rparr>) (extends q sid chunks s))"
  using assms
proof (induction chunks arbitrary: w fs ss ss' s)
  case Nil
  obtain gs hs r' w' where d: "drain h3_reader_feed h3_has_frame h3_take_frame (Suc (length w + length final)) (t3_reader ss) final = Some (gs, r')"
    "fs = gs @ hs" "hs = [] \<or> (\<exists>t. hs = [\<lparr>h3_type = t, h3_payload = []\<rparr>])"
    using drain_chunk [OF Nil.prems(2), of final "[]" fs] Nil.prems(1) by auto
  then have "fs = gs" using Nil.prems(3) by auto
  then have "run_events q (deliver sid [] final) (h3_set_stream sid ss s) =
      finish_stream q sid final (h3_set_stream sid (ss'\<lparr>t3_reader := r', t3_end_stream := True\<rparr>) s)"
    using recv_bidi_chunk(2) [OF d(1) _ Nil.prems(5-7)] Nil.prems(4,8) by (simp add: deliver_def cb_recv_stream_data_def)
  then show ?case by (auto simp: extends_def)
next
  case (Cons c chunks)
  obtain gs hs r1 w1 where d: "drain h3_reader_feed h3_has_frame h3_take_frame (Suc (length w + length c)) (t3_reader ss) c = Some (gs, r1)"
    "fs = gs @ hs" "h3_holds r1 w1" "parses h3_parse_frame (w1 @ concat chunks @ final) hs []"
    using drain_chunk [OF Cons.prems(2), of c "concat chunks @ final" fs] Cons.prems(1) by auto
  obtain ss1 where ss1: "stream_frames (s3_mode s) (s3_decoder s) gs ss = Inr ss1"
    "stream_frames (s3_mode s) (s3_decoder s) hs ss1 = Inr ss'"
    using Cons.prems(4) d(2) by (auto simp: stream_frames_append elim: bindE_InrE)
  note keep = stream_frames_keep [OF ss1(1)]
  have "run_events q (deliver sid (c # chunks) final) (h3_set_stream sid ss s) =
      run_events q (deliver sid chunks final) (h3_set_stream sid (ss1\<lparr>t3_reader := r1\<rparr>) (h3_extend q sid c s))"
    using recv_bidi_chunk(1) [OF d(1) ss1(1) Cons.prems(5-7)] Cons.prems(8)
    by (simp add: deliver_def cb_recv_stream_data_def)
  moreover have "\<exists>r'. run_events q (deliver sid chunks final) (h3_set_stream sid (ss1\<lparr>t3_reader := r1\<rparr>) (h3_extend q sid c s)) =
      finish_stream q sid final (h3_set_stream sid ((ss'\<lparr>t3_reader := r1\<rparr>)\<lparr>t3_reader := r', t3_end_stream := True\<rparr>)
        (extends q sid chunks (h3_extend q sid c s)))"
    using d keep Cons.prems(3,5-8) stream_frames_keep [OF ss1(2), of r1]
    by (intro Cons.IH [OF d(4)]) auto
  ultimately show ?case by (auto simp: extends_def)
qed

text \<open>A message as its frames.\<close>

definition message_frames :: "headers \<Rightarrow> bytes \<Rightarrow> h3_frame list" where
  "message_frames hdrs bd = \<lparr>h3_type = H3_HEADERS, h3_payload = encode_static hdrs\<rparr> #
     (if bd \<noteq> [] then [\<lparr>h3_type = H3_DATA, h3_payload = bd\<rparr>] else [])"

text \<open>Headers and bodies that QPACK and the frame layer can carry.\<close>

definition message_ok :: "headers \<Rightarrow> bytes \<Rightarrow> bool" where
  "message_ok hdrs bd \<longleftrightarrow> list_all header_codable hdrs \<and> length (encode_static hdrs) < 2 ^ 31 \<and> length bd < 2 ^ 62"

lemma message_parses:
  assumes "message_ok hdrs bd"
  shows "parses h3_parse_frame (h3_message hdrs bd) (message_frames hdrs bd) []"
    and "h3_payload (last (message_frames hdrs bd)) \<noteq> []"
proof -
  have "\<forall>f\<in>set (message_frames hdrs bd). h3_frame_wf f"
    using assms by (auto simp: message_frames_def message_ok_def h3_frame_wf_def h3_type_code_def h3_type_of_def)
  moreover have "h3_message hdrs bd = concat (map h3_encode_frame (message_frames hdrs bd))"
    by (simp add: h3_message_def message_frames_def h3_encode_frame_def h3_build_headers_frame_def build_data_frame_def)
  ultimately show "parses h3_parse_frame (h3_message hdrs bd) (message_frames hdrs bd) []"
    using h3_parses_encoded [of "message_frames hdrs bd" "[]"] by simp
  show "h3_payload (last (message_frames hdrs bd)) \<noteq> []"
    by (simp add: message_frames_def encode_static_def)
qed

text \<open>A stream on which nothing has happened yet, opened by either side.\<close>

definition fresh_stream :: "int \<Rightarrow> h3_stream \<Rightarrow> bool" where
  "fresh_stream sid ss \<longleftrightarrow> ss\<lparr>t3_id := 0, t3_state := T_Idle, t3_send_buf := [], t3_promise := None\<rparr> = h3_stream_default \<and>
     t3_state ss \<noteq> T_Closed"

lemma h3_opened_idem [simp]: "h3_opened sid (h3_opened sid ss) = h3_opened sid ss"
  by (cases ss) (simp add: h3_opened_def Let_def)

lemma recv_bidi_open: "recv_bidi q fin sid data s = recv_bidi q fin sid data (h3_set_stream sid (h3_opened sid (h3_stream_at s sid)) s)"
  unfolding recv_bidi_def h3_stream_at_set h3_opened_idem h3_set_stream_fields ..

lemma deliver_open:
  assumes "sid AND 2 = 0"
  shows "run_events q (deliver sid chunks final) s =
    run_events q (deliver sid chunks final) (h3_set_stream sid (h3_opened sid (h3_stream_at s sid)) s)"
  using assms recv_bidi_open [of q False sid "hd chunks" s] recv_bidi_open [of q True sid final s]
  by (cases chunks) (simp_all add: deliver_def cb_recv_stream_data_def)

lemma deliver_message:
  assumes "message_ok hdrs bd" and "concat chunks @ final = h3_message hdrs bd" and "sid AND 2 = 0"
    and "h3_stream_at s sid = ss" and "fresh_stream sid ss"
    and "stream_frames (s3_mode s) (s3_decoder s) (message_frames hdrs bd) (ss\<lparr>t3_id := sid, t3_state := T_Open\<rparr>) = Inr ss'"
  shows "\<exists>r'. run_events q (deliver sid chunks final) s =
    finish_stream q sid final (h3_set_stream sid (ss'\<lparr>t3_reader := r', t3_end_stream := True\<rparr>) (extends q sid chunks s))"
proof -
  let ?ss = "ss\<lparr>t3_id := sid, t3_state := T_Open\<rparr>"
  have "t3_reader ss = h3_reader_init" "\<not> t3_end_stream ss" "t3_state ss = T_Idle \<or> t3_state ss = T_Open"
    using assms(5) by (cases ss; cases "t3_state ss"; simp add: fresh_stream_def h3_stream_default_def)+
  moreover from this have "h3_opened sid ss = ?ss"
    by (cases ss) (auto simp: h3_opened_def)
  ultimately show ?thesis
    using deliver_open [OF assms(3), of q chunks final s] message_parses [OF assms(1)] assms(2,3,4,6) h3_init_holds
      deliver_frames [of "[]" chunks final "message_frames hdrs bd" ?ss s ss' sid q]
    by simp
qed

text \<open>
  A part of a message without FIN: the frames that are complete are kept with the stream, and nothing else happens.
\<close>

lemma deliver_part:
  assumes "parses h3_parse_frame (w @ concat chunks @ rest) fs []" and "h3_holds (t3_reader ss) w"
    and "stream_frames (s3_mode s) (s3_decoder s) fs ss = Inr ss'"
    and "t3_id ss = sid" and "t3_state ss = T_Open" and "\<not> t3_end_stream ss" and "sid AND 2 = 0"
  shows "\<exists>ss1. run_events q (map (Ev_Stream_Data False sid) chunks) (h3_set_stream sid ss s) =
    ret (h3_set_stream sid ss1 (extends q sid chunks s))"
  using assms
proof (induction chunks arbitrary: w fs ss ss' s)
  case (Cons c chunks)
  obtain gs hs r1 w1 where d: "drain h3_reader_feed h3_has_frame h3_take_frame (Suc (length w + length c)) (t3_reader ss) c = Some (gs, r1)"
    "fs = gs @ hs" "h3_holds r1 w1" "parses h3_parse_frame (w1 @ concat chunks @ rest) hs []"
    using drain_chunk [OF Cons.prems(2), of c "concat chunks @ rest" fs] Cons.prems(1) by auto
  obtain ss1 where ss1: "stream_frames (s3_mode s) (s3_decoder s) gs ss = Inr ss1"
    "stream_frames (s3_mode s) (s3_decoder s) hs ss1 = Inr ss'"
    using Cons.prems(3) d(2) by (auto simp: stream_frames_append elim: bindE_InrE)
  have "run_events q (map (Ev_Stream_Data False sid) (c # chunks)) (h3_set_stream sid ss s) =
      run_events q (map (Ev_Stream_Data False sid) chunks) (h3_set_stream sid (ss1\<lparr>t3_reader := r1\<rparr>) (h3_extend q sid c s))"
    using recv_bidi_chunk(1) [OF d(1) ss1(1) Cons.prems(4-6)] Cons.prems(7) by (simp add: cb_recv_stream_data_def)
  moreover have "\<exists>ss2. run_events q (map (Ev_Stream_Data False sid) chunks) (h3_set_stream sid (ss1\<lparr>t3_reader := r1\<rparr>) (h3_extend q sid c s)) =
      ret (h3_set_stream sid ss2 (extends q sid chunks (h3_extend q sid c s)))"
    using d stream_frames_keep [OF ss1(1)] Cons.prems(4-7) stream_frames_keep [OF ss1(2), of r1]
    by (intro Cons.IH [OF d(4)]) auto
  ultimately show ?case by (auto simp: extends_def)
qed (auto simp: extends_def)

lemma deliver_part_message:
  assumes "message_ok hdrs bd" and "prefix (concat chunks) (h3_message hdrs bd)" and "sid AND 2 = 0"
    and "h3_stream_at s sid = ss" and "fresh_stream sid ss"
    and "stream_frames (s3_mode s) (s3_decoder s) (message_frames hdrs bd) (ss\<lparr>t3_id := sid, t3_state := T_Open\<rparr>) = Inr ss'"
  shows "\<exists>s'. run_events q (map (Ev_Stream_Data False sid) chunks) s = ret s' \<and> s3_user s' = s3_user s \<and>
    s3_promises s' = s3_promises s \<and> s3_conn s' = s3_conn (extends q sid chunks s)"
proof (cases chunks)
  case (Cons c cs)
  let ?ss = "ss\<lparr>t3_id := sid, t3_state := T_Open\<rparr>"
  have "t3_reader ss = h3_reader_init" "\<not> t3_end_stream ss" "t3_state ss = T_Idle \<or> t3_state ss = T_Open"
    using assms(5) by (cases ss; cases "t3_state ss"; simp add: fresh_stream_def h3_stream_default_def)+
  moreover from this have "h3_opened sid ss = ?ss"
    by (cases ss) (auto simp: h3_opened_def)
  moreover have "run_events q (map (Ev_Stream_Data False sid) chunks) s =
      run_events q (map (Ev_Stream_Data False sid) chunks) (h3_set_stream sid (h3_opened sid (h3_stream_at s sid)) s)"
    using assms(3) recv_bidi_open [of q False sid c s] by (simp add: Cons cb_recv_stream_data_def)
  moreover obtain rest where "concat chunks @ rest = h3_message hdrs bd" using assms(2) by (auto simp: prefix_def)
  ultimately obtain ss1 where "run_events q (map (Ev_Stream_Data False sid) chunks) s = ret (h3_set_stream sid ss1 (extends q sid chunks s))"
    using message_parses(1) [OF assms(1)] assms(3,4,6) h3_init_holds
      deliver_part [of "[]" chunks rest "message_frames hdrs bd" ?ss s ss' sid q]
    by auto
  then show ?thesis by auto
qed (simp add: extends_def)

section \<open>Requests and responses over HTTP/3\<close>

text \<open>The request a server sees and the response a client sees.\<close>

definition received_request3 :: "request \<Rightarrow> request" where
  "received_request3 req = \<lparr>rq_method = rq_method req, rq_path = (if rq_path req = [] then str ''/'' else rq_path req),
     rq_query = [], rq_ver = HTTP_3,
     rq_hdrs = (if request_authority (rq_hdrs req) \<noteq> [] then [(str ''Host'', request_authority (rq_hdrs req))] else [])
       @ filter (\<lambda>(k, v). first_char k \<noteq> 0x3A) (rq_hdrs req),
     rq_bd = rq_bd req\<rparr>"

definition received_response3 :: "response \<Rightarrow> response" where
  "received_response3 resp = \<lparr>rs_status = rs_status resp, rs_ver = HTTP_3,
     rs_hdrs = fold (\<lambda>(k, v). hdrs_set k v) (rs_hdrs resp) [], rs_bd = rs_bd resp, rs_trailers = []\<rparr>"

lemma fold_plain_fields:
  "list_all (\<lambda>(k, v). first_char k \<noteq> 0x3A) hs \<Longrightarrow> fold request_field hs req = req\<lparr>rq_hdrs := rq_hdrs req @ hs\<rparr>"
proof (induction hs arbitrary: req)
  case (Cons h hs)
  obtain k v where h: "h = (k, v)" by force
  have "request_field h req = req\<lparr>rq_hdrs := rq_hdrs req @ [h]\<rparr>"
    using Cons.prems by (auto simp: h request_field_def first_char_def hdrs_append_def)
  then show ?case using Cons by simp
qed simp

lemma fold_request_headers3:
  "(fold request_field (request_headers3 req) request_default)\<lparr>rq_ver := HTTP_3\<rparr> = (received_request3 req)\<lparr>rq_bd := []\<rparr>"
proof -
  let ?plain = "filter (\<lambda>(k, v). first_char k \<noteq> 0x3A) (rq_hdrs req)"
  have "list_all (\<lambda>(k, v). first_char k \<noteq> 0x3A) ?plain" by (simp add: list_all_iff)
  note plain = fold_plain_fields [OF this]
  show ?thesis
    by (simp add: request_headers3_def received_request3_def Let_def fold_append plain del: filter.simps)
       (simp add: request_field_def parse_method_to_string hdrs_append_def request_default_def)
qed

lemma digit_char_plain: "d < 10 \<Longrightarrow> 0x30 \<le> digit_char d \<and> digit_char d \<le> 0x39"
proof -
  assume "d < 10"
  moreover have "list_all (\<lambda>d. 0x30 \<le> digit_char d \<and> digit_char d \<le> 0x39) [0..<10]" by code_simp
  ultimately show ?thesis by (simp add: list_all_iff)
qed

lemma atoi_int_to_string:
  assumes "0 < i" and "i < 2 ^ 31"
  shows "atoi (int_to_string i) = Inr i"
proof -
  let ?t = "nat_to_string (nat i)"
  have digits: "\<forall>c\<in>set ?t. 0x30 \<le> c \<and> c \<le> 0x39"
    using nat_to_string_digits [of "nat i"] digit_char_plain by auto
  have s: "int_to_string i = ?t" using assms by (simp add: int_to_string_def)
  have nul: "takeWhile (\<lambda>c. c \<noteq> 0) ?t = ?t"
    unfolding takeWhile_eq_all_conv using digits by auto
  obtain c t where ct: "?t = c # t" by (cases ?t) auto
  then have c: "0x30 \<le> c" "c \<le> 0x39" using digits by auto
  then have nb: "\<not> (c = 0x20 \<or> 0x09 \<le> c \<and> c \<le> 0x0D)" "c \<noteq> 0x2D" "c \<noteq> 0x2B"
    by (auto simp: word_le_nat_alt word_unat_eq_iff)
  then have "dropWhile (\<lambda>c. c = 0x20 \<or> 0x09 \<le> c \<and> c \<le> 0x0D) ?t = ?t" "first_char ?t = c"
    by (auto simp: ct first_char_def)
  then show ?thesis
    using nb assms read_nat_to_string [of "nat i"] by (simp add: atoi_def s nul Let_def)
qed

lemma response_fields_plain:
  "list_all (\<lambda>(k, v). first_char k \<noteq> 0x3A) hs \<Longrightarrow>
   response_fields3 hs resp = Inr (resp\<lparr>rs_hdrs := fold (\<lambda>(k, v). hdrs_set k v) hs (rs_hdrs resp)\<rparr>)"
proof (induction hs arbitrary: resp)
  case (Cons h hs)
  obtain k v where "h = (k, v)" by force
  moreover from this have "k \<noteq> str '':status''" using Cons.prems by (auto simp: first_char_def)
  ultimately show ?case using Cons by simp
qed simp

section \<open>Observing the transport\<close>

text \<open>
  \<open>log\<close> reads off a connection what its streams have been given, in order: of each write the bytes that the
  transport says it took, with the end of the stream when that was asked for and everything was taken.
  One write fills at most one packet and flow control may allow less, so it can take a part only, or nothing.
  The transport never asks for more data of a write that was not announced as unfinished, and it has
  only finitely many packets to send.  All this is documented behaviour of ngtcp2.
\<close>

definition handed :: "int \<Rightarrow> bytes \<Rightarrow> bool \<Rightarrow> int \<Rightarrow> (int \<times> bytes \<times> bool) list" where
  "handed sid data fin n =
     (if sid < 0 \<or> n < 0 then [] else [(sid, take (nat n) data, fin \<and> int (length data) \<le> n)])"

definition observes :: "'q quic \<Rightarrow> ('q \<Rightarrow> (int \<times> bytes \<times> bool) list) \<Rightarrow> bool" where
  "observes q log \<longleftrightarrow>
     (\<forall>fin sid data c c' n r. q_writev q fin sid data c = (c', n, r) \<longrightarrow> log c' = log c @ handed sid data fin n) \<and>
     (\<forall>c. log (fst (q_open_uni q c)) = log c) \<and> (\<forall>c. log (fst (q_open_bidi q c)) = log c) \<and>
     (\<forall>sid n c. log (q_extend q sid n c) = log c)"

lemma handed_whole: "0 \<le> sid \<Longrightarrow> int (length data) \<le> n \<Longrightarrow> handed sid data fin n = [(sid, data, fin)]"
  by (simp add: handed_def)

lemma observes_writev: "observes q log \<Longrightarrow> q_writev q fin sid data c = (c', n, r) \<Longrightarrow> log c' = log c @ handed sid data fin n"
  by (simp add: observes_def)

lemma observes_flush: "observes q log \<Longrightarrow> q_writev q False (-1) [] c = (c', n, r) \<Longrightarrow> log c' = log c"
  using observes_writev [of q log False "-1" "[]" c c' n r] by (simp add: handed_def)

definition well_behaved :: "'q quic \<Rightarrow> bool" where
  "well_behaved q \<longleftrightarrow> (\<forall>fin sid data c. snd (snd (q_writev q fin sid data c)) \<noteq> Write_More) \<and> (\<forall>c. settles q c)"

lemma write_packets_loop_log:
  assumes "settles q c" and "observes q log"
  shows "\<exists>c' r. write_packets_loop q c pkts = Some (c', r) \<and> log c' = log c"
  using assms(1)
proof (induction arbitrary: pkts rule: settles.induct)
  case (settles_done c c' n)
  moreover from this have "log c' = log c" using observes_flush [OF assms(2)] by blast
  ultimately show ?case by (subst write_packets_loop.simps) auto
next
  case (settles_error c c' n r)
  moreover from this have "log c' = log c" using observes_flush [OF assms(2)] by blast
  ultimately show ?case by (subst write_packets_loop.simps) auto
next
  case (settles_packet c c' n pkt)
  moreover from this have "log c' = log c" using observes_flush [OF assms(2)] by blast
  ultimately show ?case by (subst write_packets_loop.simps) auto
next
  case (settles_more c c' n)
  moreover from this have "log c' = log c" using observes_flush [OF assms(2)] by blast
  ultimately show ?case by (subst write_packets_loop.simps) auto
qed

lemma h3_push_packet_fields [simp]:
  "s3_user (h3_push_packet r s) = s3_user s" "s3_conn (h3_push_packet r s) = s3_conn s"
  "s3_push_provider (h3_push_packet r s) = s3_push_provider s" "s3_mode (h3_push_packet r s) = s3_mode s"
  "s3_streams (h3_push_packet r s) = s3_streams s" "s3_promises (h3_push_packet r s) = s3_promises s"
  "s3_decoder (h3_push_packet r s) = s3_decoder s" "s3_handshake_done (h3_push_packet r s) = s3_handshake_done s"
  by (simp_all add: h3_push_packet_def split: write_result.splits)

lemma writev_retry_once:
  assumes "well_behaved q"
  shows "writev_retry q fin sid data c = (case q_writev q fin sid data c of (c', n, r) \<Rightarrow> Some (c', r))"
  using assms unfolding well_behaved_def by (subst writev_retry.simps) (auto simp: Let_def case_prod_unfold)

lemma extends_conn: "s3_conn s = Some c \<Longrightarrow> observes q log \<Longrightarrow>
   \<exists>c'. s3_conn (extends q sid chunks s) = Some c' \<and> log c' = log c"
proof (induction chunks arbitrary: s c)
  case (Cons d chunks)
  have "s3_conn (h3_extend q sid d s) = Some (q_extend q sid (length d) c)" using Cons.prems by (simp add: h3_extend_def)
  from Cons.IH [OF this Cons.prems(2)] show ?case
    using Cons.prems(2) by (simp add: extends_def observes_def)
qed (simp add: extends_def)

lemma server_stream:
  assumes "message_ok (request_headers3 req) (rq_bd req)"
    and "ss = h3_stream_default\<lparr>t3_id := sid, t3_state := T_Open\<rparr>"
  shows "stream_frames H3_Server d (message_frames (request_headers3 req) (rq_bd req)) ss =
    Inr (ss\<lparr>t3_headers_complete := True, t3_req := (received_request3 req)\<lparr>rq_bd := []\<rparr>, t3_body := rq_bd req\<rparr>)"
proof -
  have "qpack_decode d (encode_static (request_headers3 req)) = Inr (request_headers3 req)"
    using assms(1) by (intro qpack_decode_encoded) (simp_all add: message_ok_def list_all_iff)
  then show ?thesis
    using fold_request_headers3 [of req]
    by (simp add: assms(2) message_frames_def stream_frame_def h3_stream_default_def)
qed

lemma serve_request:
  assumes "s3_mode s = H3_Server" and "s3_conn s = Some c" and "s3_request_handler s = Some h"
    and "s3_push_provider s = None" and "h3_stream_at s sid = h3_stream_default\<lparr>t3_id := i\<rparr>"
    and "sid AND 2 = 0" and "0 \<le> sid" and "observes q log" and "well_behaved q"
    and "message_ok (request_headers3 req) (rq_bd req)"
    and "concat chunks @ final = h3_message (request_headers3 req) (rq_bd req)"
    and "h (received_request3 req) (s3_user s) = Inr (resp, u)"
  shows "\<exists>s' c' n cs cs' w. run_events q (deliver sid chunks final) s = ret s' \<and> s3_user s' = u \<and> s3_conn s' = Some c' \<and>
    log cs = log c \<and> q_writev q True sid (h3_message (status_headers resp) (rs_bd resp)) cs = (cs', n, w) \<and>
    log c' = log c @ handed sid (h3_message (status_headers resp) (rs_bd resp)) True n"
proof -
  let ?ss = "(h3_stream_default\<lparr>t3_id := i\<rparr>)\<lparr>t3_id := sid, t3_state := T_Open\<rparr>"
  have eq: "?ss = h3_stream_default\<lparr>t3_id := sid, t3_state := T_Open\<rparr>" by simp
  have fresh: "fresh_stream sid (h3_stream_default\<lparr>t3_id := i\<rparr>)" by (simp add: fresh_stream_def h3_stream_default_def)
  have "stream_frames (s3_mode s) (s3_decoder s) (message_frames (request_headers3 req) (rq_bd req)) ?ss =
      Inr (?ss\<lparr>t3_headers_complete := True, t3_req := (received_request3 req)\<lparr>rq_bd := []\<rparr>, t3_body := rq_bd req\<rparr>)"
    unfolding assms(1) by (rule server_stream [OF assms(10) eq])
  from deliver_message [OF assms(10,11,6,5) fresh this, of q] obtain r' where
    run: "run_events q (deliver sid chunks final) s = finish_stream q sid final (h3_set_stream sid
      (?ss\<lparr>t3_headers_complete := True, t3_req := (received_request3 req)\<lparr>rq_bd := []\<rparr>, t3_body := rq_bd req,
           t3_reader := r', t3_end_stream := True\<rparr>) (extends q sid chunks s))"
    by auto
  obtain c1 where c1: "s3_conn (extends q sid chunks s) = Some c1" "log c1 = log c"
    using extends_conn [OF assms(2,8)] by blast
  have req: "(received_request3 req)\<lparr>rq_bd := rq_bd req\<rparr> = received_request3 req" by (simp add: received_request3_def)
  have ne: "h3_message (status_headers resp) (rs_bd resp) \<noteq> []"
    by (simp add: h3_message_def h3_build_headers_frame_def h3_build_frame_def append_varint_def encode_static_def)
  obtain c2 n w where c2: "q_writev q True sid (h3_message (status_headers resp) (rs_bd resp)) c1 = (c2, n, w)" by (metis prod_cases3)
  have "log c2 = log c1 @ handed sid (h3_message (status_headers resp) (rs_bd resp)) True n" by (rule observes_writev [OF assms(8) c2])
  moreover have "log (q_extend q sid (length final) c2) = log c2" using assms(8) by (simp add: observes_def)
  moreover have "\<exists>s'. run_events q (deliver sid chunks final) s = ret s' \<and> s3_user s' = u \<and> s3_conn s' = Some (q_extend q sid (length final) c2)"
    unfolding run using assms(1,3,4,12) c1 c2 ne
    by (simp add: finish_stream_def dispatch_request3_def Let_def req submit_response3_def writev_retry_once [OF assms(9)]
        h3_stream_default_def h3_extend_def ret_def)
  ultimately show ?thesis using c1(2) c2 by (metis (no_types, lifting))
qed

lemma client_stream:
  assumes "message_ok (status_headers resp) (rs_bd resp)" and "list_all (\<lambda>(k, v). first_char k \<noteq> 0x3A) (rs_hdrs resp)"
    and "0 < rs_status resp" and "rs_status resp < 2 ^ 31" and "fresh_stream sid ss"
  shows "stream_frames H3_Client d (message_frames (status_headers resp) (rs_bd resp)) ss =
    Inr (ss\<lparr>t3_resp_headers_complete := True, t3_resp := (received_response3 resp)\<lparr>rs_bd := []\<rparr>, t3_resp_body := rs_bd resp\<rparr>)"
proof -
  have "qpack_decode d (encode_static (status_headers resp)) = Inr (status_headers resp)"
    using assms(1) by (intro qpack_decode_encoded) (simp_all add: message_ok_def list_all_iff)
  moreover have "t3_resp ss = response_default" "t3_resp_body ss = []"
    using assms(5) by (cases ss; simp add: fresh_stream_def h3_stream_default_def)+
  moreover have "response_fields3 (status_headers resp) response_default =
      Inr (response_default\<lparr>rs_status := rs_status resp, rs_hdrs := fold (\<lambda>(k, v). hdrs_set k v) (rs_hdrs resp) []\<rparr>)"
    using response_fields_plain [OF assms(2)] atoi_int_to_string [OF assms(3,4)] assms(3)
    by (simp add: status_headers_def response_default_def del: str_simps)
  ultimately show ?thesis
    by (simp add: message_frames_def stream_frame_def received_response3_def response_default_def)
qed

lemma receive_response:
  assumes "s3_mode s = H3_Client" and "fresh_stream sid (h3_stream_at s sid)" and "t3_promise (h3_stream_at s sid) = Some p"
    and "\<not> p3_complete (s3_promises s p)" and "sid AND 2 = 0"
    and "message_ok (status_headers resp) (rs_bd resp)" and "list_all (\<lambda>(k, v). first_char k \<noteq> 0x3A) (rs_hdrs resp)"
    and "0 < rs_status resp" and "rs_status resp < 2 ^ 31"
    and "concat chunks @ final = h3_message (status_headers resp) (rs_bd resp)"
  shows "\<exists>s'. run_events q (deliver sid chunks final) s = ret s' \<and>
    s3_promises s' p = (s3_promises s p)\<lparr>p3_resp := received_response3 resp, p3_complete := True\<rparr> \<and>
    s3_user s' = (case p3_waiter (s3_promises s p) of None \<Rightarrow> s3_user s | Some w \<Rightarrow> w (s3_user s))"
proof -
  let ?ss = "(h3_stream_at s sid)\<lparr>t3_id := sid, t3_state := T_Open\<rparr>"
  have "fresh_stream sid ?ss" using assms(2) by (simp add: fresh_stream_def)
  note frames = client_stream [OF assms(6-9) this, of "s3_decoder s", folded assms(1)]
  obtain r' where run: "run_events q (deliver sid chunks final) s = finish_stream q sid final (h3_set_stream sid
      (?ss\<lparr>t3_resp_headers_complete := True, t3_resp := (received_response3 resp)\<lparr>rs_bd := []\<rparr>, t3_resp_body := rs_bd resp,
           t3_reader := r', t3_end_stream := True\<rparr>) (extends q sid chunks s))"
    using deliver_message [OF assms(6,10,5) refl assms(2) frames, of q] by auto
  have resp: "(received_response3 resp)\<lparr>rs_bd := rs_bd resp, rs_ver := HTTP_3\<rparr> = received_response3 resp"
    by (simp add: received_response3_def)
  have upd: "upd_promise p f (h3_set_stream i t a) = h3_set_stream i t (upd_promise p f a)" for f i t a
    by (simp add: upd_promise_def)
  have fields: "s3_promises (resume p a) = s3_promises a" "s3_user (resume p a) = (case p3_waiter (s3_promises a p) of None \<Rightarrow> s3_user a | Some w \<Rightarrow> w (s3_user a))" for a
    by (simp_all add: resume_def split: option.splits)
  show ?thesis
    unfolding run using assms(1,3,4)
    by (simp add: finish_stream_def complete_promise3_def Let_def resp fields upd)
       (simp add: upd_promise_def cong: option.case_cong)
qed

text \<open>Submitting: the request is written to a new stream once, with FIN.\<close>

lemma write_packets_log:
  assumes "s3_conn s = Some c" and "observes q log" and "well_behaved q"
  shows "\<exists>n c' out. write_packets q s = ret (n, s\<lparr>s3_conn := Some c', s3_output := out\<rparr>) \<and> log c' = log c"
proof -
  obtain c' pkts ok where "write_packets_loop q c [] = Some (c', pkts, ok)" "log c' = log c"
    using write_packets_loop_log [of q c log "[]"] assms(2,3) by (auto simp: well_behaved_def)
  then show ?thesis using assms(1) by (auto simp: write_packets_def ret_def)
qed

lemma submit_request_log:
  assumes "s3_conn s = Some c" and "s3_handshake_done s" and "q_open_bidi q c = (c0, Some sid)"
    and "s3_streams s sid = None" and "observes q log" and "well_behaved q"
    and "q_writev q True sid (h3_message (request_headers3 req) (rq_bd req)) c0 = (c1, n, w)"
  shows "\<exists>s' c'. submit_request3 q req (Some p) s = ret (to_int32 sid, s') \<and> s3_conn s' = Some c' \<and>
    log c' = log c @ handed sid (h3_message (request_headers3 req) (rq_bd req)) True n \<and>
    fresh_stream sid (h3_stream_at s' sid) \<and> t3_promise (h3_stream_at s' sid) = Some p \<and>
    s3_promises s' = s3_promises s \<and> s3_user s' = s3_user s \<and> s3_mode s' = s3_mode s"
proof -
  let ?m = "h3_message (request_headers3 req) (rq_bd req)"
  note c1 = assms(7)
  have "log c0 = log c" using assms(3,5) unfolding observes_def by (metis fst_conv)
  then have l1: "log c1 = log c @ handed sid ?m True n" using observes_writev [OF assms(5) c1] by simp
  let ?s = "h3_push_packet w (h3_set_stream sid (h3_stream_default\<lparr>t3_id := sid, t3_state := T_Open, t3_send_buf := ?m, t3_promise := Some p\<rparr>)
     (s\<lparr>s3_conn := Some c1\<rparr>))"
  have at: "h3_stream_at s sid = h3_stream_default" using assms(4) by (simp add: h3_stream_at_def)
  have "h3_stream_at (s\<lparr>s3_conn := Some c0\<rparr>) sid = h3_stream_at s sid" by (simp add: h3_stream_at_def)
  then have step: "stream_write q True sid ?m (h3_set_stream sid ((h3_stream_at (s\<lparr>s3_conn := Some c0\<rparr>) sid)
      \<lparr>t3_id := sid, t3_state := T_Open, t3_send_buf := ?m, t3_promise := Some p\<rparr>) (s\<lparr>s3_conn := Some c0\<rparr>)) = ret ?s"
    by (simp add: stream_write_def c1 at)
  obtain n c' out where wp: "write_packets q ?s = ret (n, ?s\<lparr>s3_conn := Some c', s3_output := out\<rparr>)" "log c' = log c1"
    using write_packets_log [of ?s c1 q log] assms(5,6) by auto
  have "h3_stream_at (?s\<lparr>s3_conn := Some c', s3_output := out\<rparr>) sid =
      h3_stream_default\<lparr>t3_id := sid, t3_state := T_Open, t3_send_buf := ?m, t3_promise := Some p\<rparr>"
    by (simp add: h3_stream_at_def)
  then show ?thesis
    using assms(1-3) wp l1 by (simp add: submit_request3_def start_request_def Let_def step fresh_stream_def h3_stream_default_def)
qed

section \<open>One frame at a time\<close>

lemma feed_one_frame3:
  assumes "h3_parse_frame data = Some (f, rest)" and "h3_payload f \<noteq> []"
  shows "\<exists>r1. h3_reader_feed h3_reader_init data = (r1, length data - length rest) \<and> h3_has_frame r1 \<and>
    fst (h3_take_frame r1) = f \<and> \<not> h3_has_frame (snd (h3_take_frame r1))"
proof -
  obtain r1 c where fd: "h3_reader_feed h3_reader_init data = (r1, c)" by force
  note holds = h3_stream.feed_holds [OF h3_init_holds fd]
  have has: "h3_has_frame r1"
  proof (rule ccontr)
    assume no: "\<not> h3_has_frame r1"
    then have "c = length data" using h3_stream.feed_stop [OF h3_init_holds fd] by simp
    then have "h3_holds r1 data" using holds by simp
    from h3_unreported [OF this no] show False using assms by auto
  qed
  obtain g r2 where tk: "h3_take_frame r1 = (g, r2)" by force
  have "h3_parse_frame (take c data @ drop c data) = Some (g, drop c data)"
    using h3_stream.take_holds [OF _ has tk, of "take c data" "drop c data"] holds by simp
  then have "g = f" "rest = drop c data" using assms(1) by auto
  moreover have "\<not> h3_has_frame r2" using tk by (auto simp: h3_take_frame_def h3_has_frame_def)
  ultimately show ?thesis using fd has tk holds by auto
qed

lemma stream_type_code: "decode_varint (append_varint [] (h3_stream_type_code t) @ x) = Some (h3_stream_type_code t, 1)"
  if "t \<in> {CONTROL, PUSH, QPACK_ENCODER, QPACK_DECODER}"
  using that decode_encode_varint [of "h3_stream_type_code t" x]
  by (auto simp: append_varint_def h3_stream_type_code_def encode_varint_def)

lemma be32_ld32: "be32 (ld32 a b c d) = [a, b, c, d]"
proof -
  have "byte_at (ld32 a b c d) 24 = a" "byte_at (ld32 a b c d) 16 = b" "byte_at (ld32 a b c d) 8 = c" "byte_at (ld32 a b c d) 0 = d"
    by (rule bit_word_eqI; auto simp: bit_byte_at ld32_def bit_simps dest: bit_imp_le_length)+
  then show ?thesis by (simp add: be32_def)
qed

text \<open>A part of a request calls no handler; a part of a response completes no promise.\<close>

lemma serve_part:
  assumes "s3_mode s = H3_Server" and "s3_conn s = Some c" and "h3_stream_at s sid = h3_stream_default\<lparr>t3_id := i\<rparr>"
    and "sid AND 2 = 0" and "observes q log" and "message_ok (request_headers3 req) (rq_bd req)"
    and "prefix (concat chunks) (h3_message (request_headers3 req) (rq_bd req))"
  shows "\<exists>s' c'. run_events q (map (Ev_Stream_Data False sid) chunks) s = ret s' \<and> s3_user s' = s3_user s \<and>
    s3_conn s' = Some c' \<and> log c' = log c"
proof -
  let ?ss = "(h3_stream_default\<lparr>t3_id := i\<rparr>)\<lparr>t3_id := sid, t3_state := T_Open\<rparr>"
  have eq: "?ss = h3_stream_default\<lparr>t3_id := sid, t3_state := T_Open\<rparr>" by simp
  have fresh: "fresh_stream sid (h3_stream_default\<lparr>t3_id := i\<rparr>)" by (simp add: fresh_stream_def h3_stream_default_def)
  show ?thesis
    using deliver_part_message [OF assms(6,7,4,3) fresh server_stream [OF assms(6) eq, folded assms(1)], of q]
      extends_conn [OF assms(2,5), of sid chunks] by auto
qed

lemma receive_part:
  assumes "s3_mode s = H3_Client" and "fresh_stream sid (h3_stream_at s sid)" and "sid AND 2 = 0"
    and "message_ok (status_headers resp) (rs_bd resp)" and "list_all (\<lambda>(k, v). first_char k \<noteq> 0x3A) (rs_hdrs resp)"
    and "0 < rs_status resp" and "rs_status resp < 2 ^ 31"
    and "prefix (concat chunks) (h3_message (status_headers resp) (rs_bd resp))"
  shows "\<exists>s'. run_events q (map (Ev_Stream_Data False sid) chunks) s = ret s' \<and> s3_promises s' = s3_promises s"
proof -
  have "fresh_stream sid ((h3_stream_at s sid)\<lparr>t3_id := sid, t3_state := T_Open\<rparr>)" using assms(2) by (simp add: fresh_stream_def)
  from deliver_part_message [OF assms(4,8,3) refl assms(2) client_stream [OF assms(4-7) this, folded assms(1)], of q]
  show ?thesis by blast
qed

text \<open>
  What a peer may get of the bytes handed to a stream: all of them cut in any way when the stream has been
  ended, and otherwise pieces of what there is.
\<close>

definition carried :: "int \<Rightarrow> (int \<times> bytes \<times> bool) list \<Rightarrow> quic_event list \<Rightarrow> bool" where
  "carried sid hs es \<longleftrightarrow>
     (let data = concat (map (\<lambda>(_, d, _). d) hs)
      in if list_ex (\<lambda>(_, _, fin). fin) hs
         then \<exists>chunks final. concat chunks @ final = data \<and> es = deliver sid chunks final
         else \<exists>chunks. prefix (concat chunks) data \<and> es = map (Ev_Stream_Data False sid) chunks)"

lemma carried_whole:
  "carried sid (handed sid m True n) es \<Longrightarrow> 0 \<le> sid \<Longrightarrow> int (length m) \<le> n \<Longrightarrow>
   \<exists>chunks final. concat chunks @ final = m \<and> es = deliver sid chunks final"
  by (simp add: carried_def handed_whole)

lemma carried_part:
  assumes "carried sid (handed sid m fin n) es" and "\<not> int (length m) \<le> n"
  shows "\<exists>chunks. prefix (concat chunks) m \<and> es = map (Ev_Stream_Data False sid) chunks"
proof -
  obtain chunks where chunks: "es = map (Ev_Stream_Data False sid) chunks" and
    pre: "prefix (concat chunks) (concat (map (\<lambda>(_, d, _). d) (handed sid m fin n)))"
    using assms by (auto simp: carried_def handed_def Let_def split: if_splits)
  have "prefix (concat (map (\<lambda>(_, d, _). d) (handed sid m fin n))) m"
    by (simp add: handed_def take_is_prefix)
  with chunks pre show ?thesis using prefix_order.trans by blast
qed

section \<open>Properties\<close>

text \<open>
  C2: A complete HTTP/3 exchange between two sessions of this library, over transports that may take a
  part of a write only.  A request submitted by a client whose handshake is done is handed to the
  transport in one write with FIN.  If that takes the whole message, then however the network cuts its
  bytes the server's handler is called once, with exactly the request the client meant, and its response is
  handed to the transport in one write with FIN; and if that takes the whole response, then however it is cut it
  completes the client's promise with its status, headers and body and resumes the waiting coroutine.
  What a write does not take is lost: the peer gets the part that was taken, without the end of
  the stream, and however that arrives no handler is called and no promise completed.
\<close>

theorem h3_exchange:
  fixes a :: "('q, 'u) h3_session" and b :: "('r, 'v) h3_session"
  assumes client: "s3_mode a = H3_Client" "s3_conn a = Some ca" "s3_handshake_done a" "q_open_bidi qa ca = (c0, Some sid)"
      "s3_streams a sid = None" "\<not> p3_complete (s3_promises a p)" "observes qa la" "well_behaved qa"
    and server: "s3_mode b = H3_Server" "s3_conn b = Some cb" "s3_request_handler b = Some h" "s3_push_provider b = None"
      "h3_stream_at b sid = h3_stream_default\<lparr>t3_id := i\<rparr>" "observes qb lb" "well_behaved qb"
    and stream: "0 \<le> sid" "sid AND 2 = 0"
    and req: "message_ok (request_headers3 req) (rq_bd req)" "m = h3_message (request_headers3 req) (rq_bd req)"
      "q_writev qa True sid m c0 = (cw, n, w)"
    and resp: "h (received_request3 req) (s3_user b) = Inr (resp, v)" "message_ok (status_headers resp) (rs_bd resp)"
      "list_all (\<lambda>(k, v). first_char k \<noteq> 0x3A) (rs_hdrs resp)" "0 < rs_status resp" "rs_status resp < 2 ^ 31"
      "m' = h3_message (status_headers resp) (rs_bd resp)"
  shows "\<exists>a1 c1. submit_request3 qa req (Some p) a = ret (to_int32 sid, a1) \<and> s3_conn a1 = Some c1 \<and>
    la c1 = la ca @ handed sid m True n \<and>
    (\<forall>es. carried sid (handed sid m True n) es \<longrightarrow>
      (\<exists>b1 c2. run_events qb es b = ret b1 \<and> s3_conn b1 = Some c2 \<and>
        (if int (length m) \<le> n
         then s3_user b1 = v \<and>
           (\<exists>n' cs cs' w'. lb cs = lb cb \<and> q_writev qb True sid m' cs = (cs', n', w') \<and> lb c2 = lb cb @ handed sid m' True n' \<and>
             (\<forall>es'. carried sid (handed sid m' True n') es' \<longrightarrow>
               (\<exists>a2. run_events qa es' a1 = ret a2 \<and>
                 (if int (length m') \<le> n'
                  then s3_promises a2 p = (s3_promises a p)\<lparr>p3_resp := received_response3 resp, p3_complete := True\<rparr> \<and>
                    s3_user a2 = (case p3_waiter (s3_promises a p) of None \<Rightarrow> s3_user a | Some w \<Rightarrow> w (s3_user a))
                  else s3_promises a2 = s3_promises a))))
         else s3_user b1 = s3_user b \<and> lb c2 = lb cb)))"
proof -
  obtain a1 c1 where a1: "submit_request3 qa req (Some p) a = ret (to_int32 sid, a1)" "s3_conn a1 = Some c1"
    "la c1 = la ca @ handed sid m True n"
    "fresh_stream sid (h3_stream_at a1 sid)" "t3_promise (h3_stream_at a1 sid) = Some p"
    "s3_promises a1 = s3_promises a" "s3_user a1 = s3_user a" "s3_mode a1 = H3_Client"
    using submit_request_log [OF client(2-5,7,8), of req cw n w p] client(1) req(2,3) by auto
  let ?done = "\<lambda>a2. s3_promises a2 p = (s3_promises a p)\<lparr>p3_resp := received_response3 resp, p3_complete := True\<rparr> \<and>
      s3_user a2 = (case p3_waiter (s3_promises a p) of None \<Rightarrow> s3_user a | Some w \<Rightarrow> w (s3_user a))"
  have answer: "\<exists>a2. run_events qa es' a1 = ret a2 \<and> (if int (length m') \<le> n' then ?done a2 else s3_promises a2 = s3_promises a)"
    if es': "carried sid (handed sid m' True n') es'" for n' es'
  proof (cases "int (length m') \<le> n'")
    case True
    from carried_whole [OF es' stream(1) this] obtain chunks final where "concat chunks @ final = m'" "es' = deliver sid chunks final"
      by blast
    then show ?thesis
      using receive_response [OF a1(8,4,5) _ stream(2) resp(2-5), of chunks final qa] client(6) resp(6) True unfolding a1(6,7) by simp
  next
    case False
    from carried_part [OF es' this] obtain chunks where "prefix (concat chunks) m'" "es' = map (Ev_Stream_Data False sid) chunks"
      by blast
    then show ?thesis
      using receive_part [OF a1(8,4) stream(2) resp(2-5), of chunks qa] resp(6) a1(6) False by simp
  qed
  have "\<exists>b1 c2. run_events qb es b = ret b1 \<and> s3_conn b1 = Some c2 \<and>
      (if int (length m) \<le> n then s3_user b1 = v \<and>
         (\<exists>n' cs cs' w'. lb cs = lb cb \<and> q_writev qb True sid m' cs = (cs', n', w') \<and> lb c2 = lb cb @ handed sid m' True n')
       else s3_user b1 = s3_user b \<and> lb c2 = lb cb)"
    if es: "carried sid (handed sid m True n) es" for es
  proof (cases "int (length m) \<le> n")
    case True
    from carried_whole [OF es stream(1) this] obtain chunks final where "concat chunks @ final = m" "es = deliver sid chunks final"
      by blast
    then show ?thesis
      using serve_request [OF server(1-5) stream(2,1) server(6,7) req(1) _ resp(1), of chunks final] unfolding req(2) resp(6)
      by (metis True req(2))
  next
    case False
    from carried_part [OF es this] obtain chunks where "prefix (concat chunks) m" "es = map (Ev_Stream_Data False sid) chunks"
      by blast
    then show ?thesis
      using serve_part [OF server(1,2,5) stream(2) server(6) req(1), of chunks] req(2) False by auto
  qed
  with a1(1-3) answer show ?thesis by (intro exI [of _ a1] exI [of _ c1]) (simp, metis)
qed

text \<open>
  A transport that takes at most 1200 bytes of a write, the size of a packet, and keeps a record of what it took, for the
  concrete runs below.
\<close>

definition recorder :: "(int \<times> bytes \<times> bool) list quic" where
  "recorder = \<lparr>q_open_uni = (\<lambda>c. (c, Some 3)), q_open_bidi = (\<lambda>c. (c, Some 0)),
     q_writev = (\<lambda>fin sid data c. let n = (if sid < 0 then -1 else int (min 1200 (length data)))
        in (c @ handed sid data fin n, n, Wrote (take 1200 data))),
     q_extend = (\<lambda>_ _ c. c), q_read_pkt = (\<lambda>_ c. (c, [], Read_Ok)), q_write_retry = (\<lambda>_ _ _ _. None),
     q_handle_expiry = (\<lambda>c. (c, True)), q_server_new = (\<lambda>_ _ _. Some [])\<rparr>"

lemma recorder_ok: "observes recorder id" "well_behaved recorder"
  by (auto simp: observes_def well_behaved_def recorder_def Let_def intro!: settles_done)

definition example_client3 :: "((int \<times> bytes \<times> bool) list, nat) h3_session" where
  "example_client3 = (h3_session_new H3_Client 0)\<lparr>s3_conn := Some [], s3_handshake_done := True\<rparr>"

definition example_server3 :: "((int \<times> bytes \<times> bool) list, nat) h3_session" where
  "example_server3 = (h3_session_new H3_Server 0)\<lparr>s3_conn := Some [], s3_handshake_done := True,
     s3_request_handler := Some (\<lambda>req n. Inr (response_default\<lparr>rs_status := 201, rs_bd := rq_path req\<rparr>, n + 1))\<rparr>"

lemma short_codable: "length s \<le> 20 \<Longrightarrow> \<forall>b\<in>set s. huff_safe b \<Longrightarrow> codable s"
  by (simp add: codable_def)

lemma length_encode_static:
  "length (encode_static hs) \<le> 2 + sum_list (map (\<lambda>h. 23 + length (fst h) + length (snd h)) hs)"
proof (induction hs)
  case (Cons h hs)
  then show ?case using length_qpack_encode_header [of h] by (simp add: encode_static_def)
qed (simp add: encode_static_def)

lemma length_message: "length (h3_message hs bd) \<le> 32 + length (encode_static hs) + length bd"
proof -
  have v: "length (append_varint x k) \<le> length x + 8" for x k
    by (simp add: append_varint_def encode_varint_def)
  have frame: "length (h3_build_frame t p) \<le> 16 + length p" for t p
    using v [of "append_varint [] (h3_type_code t)" "word_of_nat (length p)"] v [of "[]" "h3_type_code t"]
    by (simp add: h3_build_frame_def)
  show ?thesis
    using frame [of H3_HEADERS "encode_static hs"] frame [of H3_DATA bd]
    by (simp add: h3_message_def h3_build_headers_frame_def build_data_frame_def)
qed

lemma example_messages:
  "message_ok (request_headers3 (request_default\<lparr>rq_path := str ''/a''\<rparr>)) []"
  "message_ok (status_headers (response_default\<lparr>rs_status := 201, rs_bd := str ''/a''\<rparr>)) (str ''/a'')"
proof -
  have n: "nat_to_string 201 = str ''201''" by (simp add: nat_to_string.simps digit_char_def)
  show "message_ok (request_headers3 (request_default\<lparr>rq_path := str ''/a''\<rparr>)) []"
    using length_encode_static [of "request_headers3 (request_default\<lparr>rq_path := str ''/a''\<rparr>)"]
    by (simp add: message_ok_def request_headers3_def request_authority_def request_default_def method_to_string_def
        header_codable_def codable_def huff_safe_iff)
  show "message_ok (status_headers (response_default\<lparr>rs_status := 201, rs_bd := str ''/a''\<rparr>)) (str ''/a'')"
    using length_encode_static [of "status_headers (response_default\<lparr>rs_status := 201, rs_bd := str ''/a''\<rparr>)"]
    by (simp add: message_ok_def status_headers_def response_default_def int_to_string_def n
        header_codable_def codable_def huff_safe_iff)
qed

definition upload :: request where
  "upload = request_default\<lparr>rq_path := str ''/a'', rq_bd := replicate 2000 7\<rparr>"

lemma upload_message:
  "message_ok (request_headers3 upload) (rq_bd upload)" "2000 \<le> length (h3_message (request_headers3 upload) (rq_bd upload))"
  using example_messages(1)
  by (simp_all add: upload_def message_ok_def request_headers3_def request_default_def h3_message_def build_data_frame_def
      h3_build_frame_def)

lemma short_messages:
  "length (h3_message (request_headers3 (request_default\<lparr>rq_path := str ''/a''\<rparr>)) []) \<le> 1200"
  "length (h3_message (status_headers (response_default\<lparr>rs_status := 201, rs_bd := str ''/a''\<rparr>)) (str ''/a'')) \<le> 1200"
proof -
  have n: "nat_to_string 201 = str ''201''" by (simp add: nat_to_string.simps digit_char_def)
  show "length (h3_message (request_headers3 (request_default\<lparr>rq_path := str ''/a''\<rparr>)) []) \<le> 1200"
    using length_message [of "request_headers3 (request_default\<lparr>rq_path := str ''/a''\<rparr>)" "[]"]
      length_encode_static [of "request_headers3 (request_default\<lparr>rq_path := str ''/a''\<rparr>)"]
    by (simp add: request_headers3_def request_authority_def request_default_def method_to_string_def)
  show "length (h3_message (status_headers (response_default\<lparr>rs_status := 201, rs_bd := str ''/a''\<rparr>)) (str ''/a'')) \<le> 1200"
    using length_message [of "status_headers (response_default\<lparr>rs_status := 201, rs_bd := str ''/a''\<rparr>)" "str ''/a''"]
      length_encode_static [of "status_headers (response_default\<lparr>rs_status := 201, rs_bd := str ''/a''\<rparr>)"]
    by (simp add: status_headers_def response_default_def int_to_string_def n)
qed

definition created :: response where
  "created = response_default\<lparr>rs_status := 201, rs_bd := str ''/a''\<rparr>"

definition get_a :: request where
  "get_a = request_default\<lparr>rq_path := str ''/a''\<rparr>"

lemma example_sessions:
  "s3_mode example_client3 = H3_Client" "s3_conn example_client3 = Some []" "s3_handshake_done example_client3"
  "q_open_bidi recorder [] = ([], Some 0)" "s3_streams example_client3 0 = None" "\<not> p3_complete (s3_promises example_client3 0)"
  "s3_mode example_server3 = H3_Server" "s3_conn example_server3 = Some []"
  "s3_request_handler example_server3 = Some (\<lambda>req n. Inr (response_default\<lparr>rs_status := 201, rs_bd := rq_path req\<rparr>, n + 1))"
  "s3_push_provider example_server3 = None" "h3_stream_at example_server3 0 = h3_stream_default\<lparr>t3_id := 0\<rparr>" "s3_user example_server3 = 0"
  by (simp_all add: example_client3_def example_server3_def h3_session_new_def recorder_def h3_promise_default_def h3_stream_at_def
      h3_stream_default_def)

lemma created_ok:
  "message_ok (status_headers created) (rs_bd created)" "list_all (\<lambda>(k, v). first_char k \<noteq> 0x3A) (rs_hdrs created)"
  "0 < rs_status created" "rs_status created < 2 ^ 31"
  using example_messages(2) by (simp_all add: response_default_def created_def)

lemma recorder_writes:
  "q_writev recorder True 0 m [] = (handed 0 m True (int (min 1200 (length m))), int (min 1200 (length m)), Wrote (take 1200 m))"
  by (simp add: recorder_def Let_def)

lemma carried_at_once: "carried 0 [(0, x, True)] (deliver 0 [] x)" "carried 0 [(0, x, False)] [Ev_Stream_Data False 0 x]"
  by (simp add: carried_def, rule exI [of _ "[]"], simp) (simp add: carried_def, rule exI [of _ "[x]"], simp)

lemma get_a_ok: "message_ok (request_headers3 get_a) (rq_bd get_a)" "length (h3_message (request_headers3 get_a) (rq_bd get_a)) \<le> 1200"
    "length (h3_message (status_headers created) (rs_bd created)) \<le> 1200"
  using example_messages(1) short_messages by (simp_all add: get_a_def created_def request_default_def)

text \<open>A short exchange, and an upload of which the one write takes a packet's worth.\<close>

theorem h3_exchange_witness:
  "(\<exists>a1 m b1 m' a2. submit_request3 recorder get_a (Some 0) example_client3 = ret (0, a1) \<and> s3_conn a1 = Some [(0, m, True)] \<and>
      run_events recorder (deliver 0 [] m) example_server3 = ret b1 \<and> s3_user b1 = 1 \<and> s3_conn b1 = Some [(0, m', True)] \<and>
      run_events recorder (deliver 0 [] m') a1 = ret a2 \<and> p3_complete (s3_promises a2 0) \<and>
      p3_resp (s3_promises a2 0) = received_response3 created) \<and>
   (\<exists>a1 b1 part. submit_request3 recorder upload (Some 0) example_client3 = ret (0, a1) \<and> s3_conn a1 = Some [(0, part, False)] \<and>
      length part = 1200 \<and> run_events recorder [Ev_Stream_Data False 0 part] example_server3 = ret b1 \<and> s3_user b1 = 0)"
proof
  have run: "(\<lambda>req n. Inr (response_default\<lparr>rs_status := 201, rs_bd := rq_path req\<rparr>, n + 1)) (received_request3 req)
      (s3_user example_server3) = Inr (created, 1)" if "rq_path req = str ''/a''" for req
    using that by (simp add: received_request3_def example_sessions created_def)
  have sid: "(0::int) \<le> 0" "(0::int) AND 2 = 0" "to_int32 0 = 0" by (simp_all add: to_int32_def)
  note exchange = h3_exchange [OF example_sessions(1-6) recorder_ok example_sessions(7-11) recorder_ok sid(1,2) _ refl recorder_writes run created_ok refl]
  let ?m = "h3_message (request_headers3 get_a) (rq_bd get_a)" and ?m' = "h3_message (status_headers created) (rs_bd created)"
  have m: "handed 0 ?m True (int (min 1200 (length ?m))) = [(0, ?m, True)]" "int (length ?m) \<le> int (min 1200 (length ?m))"
    "handed 0 ?m' True (int (min 1200 (length ?m'))) = [(0, ?m', True)]" "int (length ?m') \<le> int (min 1200 (length ?m'))"
    using get_a_ok(2,3) by (simp_all add: handed_whole min_def)
  have path: "rq_path get_a = str ''/a''" "rq_path upload = str ''/a''" by (simp_all add: get_a_def upload_def)
  obtain a1 where a1: "submit_request3 recorder get_a (Some 0) example_client3 = ret (0, a1)" "s3_conn a1 = Some [(0, ?m, True)]"
    and served: "\<exists>b1. run_events recorder (deliver 0 [] ?m) example_server3 = ret b1 \<and> s3_user b1 = 1 \<and>
      s3_conn b1 = Some [(0, ?m', True)] \<and>
      (\<exists>a2. run_events recorder (deliver 0 [] ?m') a1 = ret a2 \<and>
        s3_promises a2 0 = (s3_promises example_client3 0)\<lparr>p3_resp := received_response3 created, p3_complete := True\<rparr>)"
    using exchange [OF get_a_ok(1) path(1)] carried_at_once(1) [of ?m] carried_at_once(1) [of ?m'] m sid(3)
    by (fastforce simp: recorder_writes)
  then show "\<exists>a1 m b1 m' a2. submit_request3 recorder get_a (Some 0) example_client3 = ret (0, a1) \<and> s3_conn a1 = Some [(0, m, True)] \<and>
      run_events recorder (deliver 0 [] m) example_server3 = ret b1 \<and> s3_user b1 = 1 \<and> s3_conn b1 = Some [(0, m', True)] \<and>
      run_events recorder (deliver 0 [] m') a1 = ret a2 \<and> p3_complete (s3_promises a2 0) \<and>
      p3_resp (s3_promises a2 0) = received_response3 created"
    by force
  let ?u = "h3_message (request_headers3 upload) (rq_bd upload)"
  have u: "min 1200 (length ?u) = 1200" "\<not> int (length ?u) \<le> 1200" "handed 0 ?u True (int 1200) = [(0, take 1200 ?u, False)]"
    using upload_message(2) by (simp_all add: handed_def)
  show "\<exists>a1 b1 part. submit_request3 recorder upload (Some 0) example_client3 = ret (0, a1) \<and> s3_conn a1 = Some [(0, part, False)] \<and>
      length part = 1200 \<and> run_events recorder [Ev_Stream_Data False 0 part] example_server3 = ret b1 \<and> s3_user b1 = 0"
    using exchange [OF upload_message(1) path(2)] carried_at_once(2) [of "take 1200 ?u"] u sid(3) example_sessions(12)
    unfolding u(1,3) by auto
qed

text \<open>
  \<^verbatim>\<open>write_packets\<close> returns if and only if the transport runs out of packets, or reports an error
  other than the request for more data, after finitely many calls.
\<close>

theorem write_packets_returns: "(\<exists>r. write_packets_loop q c pkts = Some r) \<longleftrightarrow> settles q c"
  using write_packets_loop_returns [of q c pkts] write_packets_loop_settles [of q c pkts] by auto

text \<open>
  The encoder stream is read again from its beginning with every piece.  When the instructions of
  two insertions arrive in two pieces, the first entry is inserted twice; in one piece, once.  The
  decoder then counts three insertions instead of two, and its relative indices no longer agree with
  the encoder's.
\<close>

theorem encoder_stream_reprocessed:
  fixes s :: "('q, 'u) h3_session"
  assumes "sid AND 2 \<noteq> 0" and "s3_uni_buf s sid = []"
    and "header_codable h1" and "header_codable h2"
    and "i1 = 0x40 # qpack_encode_string (fst h1) @ qpack_encode_string (snd h1)"
    and "i2 = 0x40 # qpack_encode_string (fst h2) @ qpack_encode_string (snd h2)"
  shows "(\<exists>s'. run_events q [Ev_Stream_Data False sid (0x02 # i1), Ev_Stream_Data False sid i2] s = ret s' \<and>
       s3_decoder s' = qpack_count_insert h2 (qpack_count_insert h1 (qpack_count_insert h1 (s3_decoder s)))) \<and>
    (\<exists>s'. run_events q [Ev_Stream_Data False sid (0x02 # i1 @ i2)] s = ret s' \<and>
       s3_decoder s' = qpack_count_insert h2 (qpack_count_insert h1 (s3_decoder s)))"
proof -
  have type: "decode_varint (0x02 # x) = Some (h3_stream_type_code QPACK_ENCODER, 1)" for x
    using stream_type_code [of QPACK_ENCODER x]
    by (simp add: append_varint_def encode_varint_def h3_stream_type_code_def)
  have len: "length (qpack_encode_string (fst h) @ qpack_encode_string (snd h) @ x) < 2 ^ 63"
    if "header_codable h" "length x < 2 ^ 34" for h :: hpack_entry and x
    using that length_encode_string [of "fst h"] length_encode_string [of "snd h"]
    by (simp add: header_codable_def codable_def qpack_encode_string_eq)
  have "length i2 < 2 ^ 34"
    using assms(4) length_encode_string [of "fst h2"] length_encode_string [of "snd h2"]
    by (simp add: assms(6) header_codable_def codable_def qpack_encode_string_eq)
  then have both: "process_encoder_instructions d (i1 @ i2) = Inr (qpack_count_insert h2 (qpack_count_insert h1 d))" for d
    using process_insert_literal [OF assms(3) len [OF assms(3)], of i2] process_insert_literal [OF assms(4) len [OF assms(4)], of "[]"]
    by (simp add: assms(5,6) process_encoder_instructions.simps [of _ "[]"])
  have one: "process_encoder_instructions d i1 = Inr (qpack_count_insert h1 d)" for d
    using process_insert_literal [OF assms(3) len [OF assms(3)], of "[]"]
    by (simp add: assms(5) process_encoder_instructions.simps [of _ "[]"])
  have step: "\<exists>s'. recv_uni q False sid data a = ret s' \<and> s3_decoder s' = d' \<and> s3_uni_buf s' sid = buf"
    if "s3_uni_buf a sid @ data = buf" "buf = 0x02 # x" "process_encoder_instructions (s3_decoder a) x = Inr d'"
    for a :: "('q, 'u) h3_session" and data buf x d'
    using that by (simp add: recv_uni_def type Let_def h3_set_stream_def h3_extend_def ret_def) (simp add: h3_stream_type_code_def)
  obtain s1 where s1: "recv_uni q False sid (0x02 # i1) s = ret s1" "s3_decoder s1 = qpack_count_insert h1 (s3_decoder s)"
    "s3_uni_buf s1 sid = 0x02 # i1"
    using step [of s "0x02 # i1" "0x02 # i1" i1] one assms(2) by auto
  moreover obtain s2 where "recv_uni q False sid i2 s1 = ret s2"
    "s3_decoder s2 = qpack_count_insert h2 (qpack_count_insert h1 (qpack_count_insert h1 (s3_decoder s)))"
    using step [of s1 i2 "0x02 # i1 @ i2" "i1 @ i2"] both s1 by auto
  moreover obtain s3 where "recv_uni q False sid (0x02 # i1 @ i2) s = ret s3"
    "s3_decoder s3 = qpack_count_insert h2 (qpack_count_insert h1 (s3_decoder s))"
    using step [of s "0x02 # i1 @ i2" "0x02 # i1 @ i2" "i1 @ i2"] both assms(2) by auto
  ultimately show ?thesis using assms(1) by (simp add: cb_recv_stream_data_def)
qed

theorem encoder_stream_reprocessed_witness:
  "\<exists>s'. run_events recorder [Ev_Stream_Data False 2 (0x02 # 0x40 # qpack_encode_string (str ''x'') @ qpack_encode_string (str ''1'')),
      Ev_Stream_Data False 2 (0x40 # qpack_encode_string (str ''y'') @ qpack_encode_string (str ''2''))] example_client3 = ret s' \<and>
    s3_decoder s' = qpack_count_insert (str ''y'', str ''2'') (qpack_count_insert (str ''x'', str ''1'')
      (qpack_count_insert (str ''x'', str ''1'') qpack_decoder_new))"
proof -
  have "header_codable (str ''x'', str ''1'')" "header_codable (str ''y'', str ''2'')"
    by (simp_all add: header_codable_def codable_def huff_safe_iff)
  from encoder_stream_reprocessed [OF _ _ this, of 2 example_client3 _ _ recorder, OF _ _ refl refl]
  show ?thesis by (simp add: example_client3_def h3_session_new_def)
qed

text \<open>
  A pushed response loses its body.  The data of a push stream that arrives in one piece holds the
  HEADERS frame and the DATA frame, but the loop over its frames does not feed the reader again: the
  promise is completed with the status and the headers that were sent and an empty body.
\<close>

theorem push_body_lost:
  fixes s :: "('q, 'u) h3_session"
  assumes "s3_mode s = H3_Client" and "sid AND 2 \<noteq> 0" and "s3_uni_buf s sid = []" and "h3_stream_at s sid = h3_stream_default\<lparr>t3_id := i\<rparr>"
    and "unat pid < 2 ^ 62" and "message_ok (status_headers resp) (rs_bd resp)"
  shows "\<exists>s'. run_events q [Ev_Stream_Data True sid (push_stream_data pid resp)] s = ret s' \<and>
    s3_completed s' = s3_completed s @ [s3_next_promise s] \<and>
    p3_complete (s3_promises s' (s3_next_promise s)) \<and>
    u3_push_id (p3_push_info (s3_promises s' (s3_next_promise s))) = pid \<and>
    p3_resp (s3_promises s' (s3_next_promise s)) =
      (push_fields (status_headers resp) response_default)\<lparr>rs_ver := HTTP_3, rs_bd := []\<rparr>"
proof -
  let ?m = "h3_message (status_headers resp) (rs_bd resp)"
  have type: "decode_varint (push_stream_data pid resp) = Some (h3_stream_type_code PUSH, 1)"
    using stream_type_code [of PUSH "encode_varint 8 pid @ ?m"] by (simp add: push_stream_data_def append_varint_def)
  have rest: "drop 1 (push_stream_data pid resp) = encode_varint 8 pid @ ?m"
    by (simp add: push_stream_data_def append_varint_def encode_varint_def h3_stream_type_code_def)
  have id: "decode_varint (encode_varint 8 pid @ ?m) = Some (pid, length (encode_varint 8 pid))"
    using decode_encode_varint [OF assms(5)] by simp
  have ne: "push_stream_data pid resp \<noteq> []" using type by (auto simp: decode_varint_def)
  let ?f = "\<lparr>h3_type = H3_HEADERS, h3_payload = encode_static (status_headers resp)\<rparr>"
  obtain rst where parse: "h3_parse_frame ?m = Some (?f, rst)"
    using message_parses(1) [OF assms(6)] by (auto simp: message_frames_def parses_Cons_simp)
  obtain r1 n where fd: "h3_reader_feed h3_reader_init ?m = (r1, n)" "h3_has_frame r1" "fst (h3_take_frame r1) = ?f"
    using feed_one_frame3 [OF parse] by (auto simp: encode_static_def)
  have dec: "qpack_decode (s3_decoder s) (encode_static (status_headers resp)) = Inr (status_headers resp)"
    using assms(6) by (intro qpack_decode_encoded) (simp_all add: message_ok_def list_all_iff)
  obtain r2 where tk: "h3_take_frame r1 = (?f, r2)" using fd(3) by (cases "h3_take_frame r1") auto
  show ?thesis
    using assms(1-4) type rest ne dec
    by (simp add: cb_recv_stream_data_def recv_uni_def Let_def h3_stream_type_code_def handle_push_stream_def id)
       (simp add: h3_set_stream_def h3_stream_at_def fd tk push_frame_def finish_push_def h3_extend_def ret_def
          h3_stream_default_def h3_promise_default_def h3_push_info_default_def Let_def)
qed

theorem push_body_lost_witness:
  "\<exists>s'. run_events recorder [Ev_Stream_Data True 3 (push_stream_data 0 (response_default\<lparr>rs_status := 201, rs_bd := str ''/a''\<rparr>))]
      example_client3 = ret s' \<and> rs_bd (p3_resp (s3_promises s' 0)) = []"
proof -
  have "message_ok (status_headers (response_default\<lparr>rs_status := 201, rs_bd := str ''/a''\<rparr>))
      (rs_bd (response_default\<lparr>rs_status := 201, rs_bd := str ''/a''\<rparr>))"
    using example_messages(2) by simp
  from push_body_lost [of example_client3 3 0 0, OF _ _ _ _ _ this, of recorder]
  show ?thesis by (auto simp: example_client3_def h3_session_new_def h3_stream_at_def h3_stream_default_def)
qed

text \<open>
  A response whose stream is closed before its FIN is reported as complete and successful with
  status 200 and without headers, whatever status and headers had arrived: only the body and the version
  are copied into the promise.
\<close>

theorem closed_stream_forgets_status:
  assumes "s3_mode s = H3_Client" and "s3_streams s sid = Some ss" and "t3_promise ss = Some p"
    and "s3_promises s p = h3_promise_default" and "t3_resp_headers_complete ss"
  shows "p3_complete (s3_promises (cb_stream_close sid s) p) \<and> \<not> p3_error (s3_promises (cb_stream_close sid s) p) \<and>
    p3_resp (s3_promises (cb_stream_close sid s) p) = response_default\<lparr>rs_bd := t3_resp_body ss, rs_ver := HTTP_3\<rparr>"
  using assms by (simp add: cb_stream_close_def h3_promise_default_def upd_promise_def resume_def)

theorem closed_stream_forgets_status_witness:
  "rs_status (p3_resp (s3_promises (cb_stream_close 0 (h3_set_stream 0 (h3_stream_default\<lparr>t3_promise := Some 0,
     t3_resp_headers_complete := True, t3_resp := response_default\<lparr>rs_status := 404\<rparr>\<rparr>) example_client3)) 0)) = 200"
  using closed_stream_forgets_status [of "h3_set_stream 0 (h3_stream_default\<lparr>t3_promise := Some 0,
     t3_resp_headers_complete := True, t3_resp := response_default\<lparr>rs_status := 404\<rparr>\<rparr>) example_client3" 0 _ 0]
  by (simp add: example_client3_def h3_session_new_def response_default_def)

text \<open>
  Before the handshake a session keeps one request.  A second one takes its place: the session is
  then in the state in which only the second was submitted, and the first promise is never completed.
\<close>

theorem queued_request_replaced:
  assumes "s3_conn s = Some c" and "\<not> s3_handshake_done s"
  shows "bindR (submit_request3 q r1 p1 s) (\<lambda>(_, s1). submit_request3 q r2 p2 s1) = submit_request3 q r2 p2 s"
  using assms by (simp add: submit_request3_def)

theorem queued_request_replaced_witness:
  "bindR (submit_request3 recorder request_default (Some 1) (example_client3\<lparr>s3_handshake_done := False\<rparr>))
     (\<lambda>(_, s1). submit_request3 recorder request_default (Some 2) s1) =
   submit_request3 recorder request_default (Some 2) (example_client3\<lparr>s3_handshake_done := False\<rparr>)"
  by (rule queued_request_replaced [of _ "[]"]) (simp_all add: example_client3_def h3_session_new_def)

definition long_header :: "u32 \<Rightarrow> bytes \<Rightarrow> bytes \<Rightarrow> bytes \<Rightarrow> bool" where
  "long_header v dcid scid data \<longleftrightarrow>
     (\<exists>b0 rest. b0 AND 0x80 \<noteq> 0 \<and> length dcid \<le> 20 \<and> length scid \<le> 20 \<and>
       data = b0 # be32 v @ of_nat (length dcid) # dcid @ of_nat (length scid) # scid @ rest)"

lemma long_header_accepted:
  assumes L: "long_header_cids data = Some (v, dcid, scid)"
  shows "long_header v dcid scid data"
proof -
  have len: "6 \<le> length data" using L by (simp add: long_header_cids_def split: if_splits)
  then obtain b0 b1 b2 b3 b4 b5 r where data: "data = b0 # b1 # b2 # b3 # b4 # b5 # r"
    by (auto simp: numeral_eq_Suc Suc_le_length_iff)
  have nums: "data ! 0 = b0" "data ! 5 = b5" "drop 6 data = r" "length data = length r + 6"
    "packet_version data = ld32 b1 b2 b3 b4"
    by (simp_all add: data packet_version_def numeral_eq_Suc)
  define n where "n = unat b5"
  define t where "t = drop n r"
  have r: "n < length r" "n \<le> 20" "dcid = take n r"
    using L unfolding long_header_cids_def nums Let_def substr_def max_cidlen_def n_def
    by (auto simp: nums split: if_splits)
  have nth: "data ! (6 + n) = hd t" using r(1) by (simp add: t_def data hd_drop_conv_nth)
  then obtain k u where t: "t = k # u" using r(1) by (cases t) (auto simp: t_def)
  have "drop (6 + n + 1) data = u" using t by (simp add: t_def data drop_Suc_Cons drop_Cons' tl_drop [symmetric] drop_Suc)
  then have s: "unat k \<le> length u" "unat k \<le> 20" "scid = take (unat k) u" "v = ld32 b1 b2 b3 b4" "b0 AND 0x80 \<noteq> 0"
    using L nth t r(1) unfolding long_header_cids_def nums Let_def substr_def max_cidlen_def n_def [symmetric]
    by (auto simp: nums t_def split: if_splits)
  have req: "r = dcid @ k # scid @ drop (unat k) u" using r(3) t s(3) unfolding t_def by (metis append_take_drop_id)
  have b5: "b5 = of_nat (length dcid)" and k: "k = of_nat (length scid)" using r s by (simp_all add: n_def)
  have "be32 v = [b1, b2, b3, b4]" by (simp add: s(4) be32_ld32)
  then have "data = b0 # be32 v @ of_nat (length dcid) # dcid @ of_nat (length scid) # scid @ drop (unat k) u"
    using data req unfolding b5 k by simp
  moreover have "length dcid \<le> 20" "length scid \<le> 20" using r s by simp_all
  ultimately show ?thesis using s(5) unfolding long_header_def by blast
qed

lemma long_header_parsed:
  assumes "long_header v dcid scid data"
  shows "long_header_cids data = Some (v, dcid, scid)"
proof -
  obtain b0 rest where d: "b0 AND 0x80 \<noteq> 0" "length dcid \<le> 20" "length scid \<le> 20"
    "data = b0 # be32 v @ of_nat (length dcid) # dcid @ of_nat (length scid) # scid @ rest"
    using assms unfolding long_header_def by blast
  have un: "unat (of_nat n :: byte) = n" if "n \<le> 20" for n using that by (simp add: unat_of_nat)
  obtain b1 b2 b3 b4 where be: "be32 v = [b1, b2, b3, b4]" "ld32 b1 b2 b3 b4 = v"
    by (simp add: be32_def)
  have nums: "data ! 0 = b0" "data ! 5 = of_nat (length dcid)" "drop 6 data = dcid @ of_nat (length scid) # scid @ rest"
    "length data = 7 + length dcid + length scid + length rest" "packet_version data = v"
    by (simp_all add: d(4) packet_version_def be numeral_eq_Suc)
  have "data ! (6 + length dcid) = of_nat (length scid)" "drop (6 + length dcid + 1) data = scid @ rest"
    by (simp_all add: d(4) be nth_append numeral_eq_Suc)
  then show ?thesis
    unfolding long_header_cids_def nums Let_def substr_def max_cidlen_def un [OF d(2)]
    using d(1-3) by (simp add: nums un)
qed

text \<open>
  The first packet of a connection is read as RFC 8999 lays out a long header: the connection
  identifiers are accepted exactly when the packet is a header byte with the high bit set, the version,
  and two identifiers of at most 20 bytes, each behind its length and both whole.
\<close>

theorem long_header_exact:
  "long_header_cids data = Some (v, dcid, scid) \<longleftrightarrow>
     (\<exists>b0 rest. b0 AND 0x80 \<noteq> 0 \<and> length dcid \<le> 20 \<and> length scid \<le> 20 \<and>
       data = b0 # be32 v @ of_nat (length dcid) # dcid @ of_nat (length scid) # scid @ rest)"
  using long_header_accepted long_header_parsed unfolding long_header_def by blast

end
