(* ===== verification/Grpc_Wire.thy ===== *)
theory Grpc_Wire
  imports Http_Types
begin

text \<open>
  The transport-independent part of the RPC layer: status codes, metadata and paths
  (\<^verbatim>\<open>include/async_net/grpc/types.hpp\<close>), the length-prefixed message framing
  (\<^verbatim>\<open>src/grpc/grpc_wire.cpp\<close>), the deframer that cuts messages out of DATA frames
  (\<^verbatim>\<open>grpc/stream_deframer.hpp\<close>) and the message queue behind a streaming read
  (\<^verbatim>\<open>grpc/stream.hpp\<close>, \<^verbatim>\<open>src/grpc/grpc_stream.cpp\<close>).  FRPC reuses all of it.
\<close>

section \<open>Status\<close>

datatype grpc_status_code =
    G_ok | G_cancelled | G_unknown | G_invalid_argument | G_deadline_exceeded | G_not_found
  | G_already_exists | G_permission_denied | G_resource_exhausted | G_failed_precondition
  | G_aborted | G_out_of_range | G_unimplemented | G_internal | G_unavailable | G_data_loss
  | G_unauthenticated | G_other int

definition grpc_code :: "grpc_status_code \<Rightarrow> int" where
  "grpc_code c = (case c of
     G_ok \<Rightarrow> 0 | G_cancelled \<Rightarrow> 1 | G_unknown \<Rightarrow> 2 | G_invalid_argument \<Rightarrow> 3 | G_deadline_exceeded \<Rightarrow> 4
   | G_not_found \<Rightarrow> 5 | G_already_exists \<Rightarrow> 6 | G_permission_denied \<Rightarrow> 7 | G_resource_exhausted \<Rightarrow> 8
   | G_failed_precondition \<Rightarrow> 9 | G_aborted \<Rightarrow> 10 | G_out_of_range \<Rightarrow> 11 | G_unimplemented \<Rightarrow> 12
   | G_internal \<Rightarrow> 13 | G_unavailable \<Rightarrow> 14 | G_data_loss \<Rightarrow> 15 | G_unauthenticated \<Rightarrow> 16 | G_other i \<Rightarrow> i)"

definition grpc_code_of :: "int \<Rightarrow> grpc_status_code" where
  "grpc_code_of i =
     (if 0 \<le> i \<and> i \<le> 16
      then [G_ok, G_cancelled, G_unknown, G_invalid_argument, G_deadline_exceeded, G_not_found,
            G_already_exists, G_permission_denied, G_resource_exhausted, G_failed_precondition,
            G_aborted, G_out_of_range, G_unimplemented, G_internal, G_unavailable, G_data_loss,
            G_unauthenticated] ! nat i
      else G_other i)"

definition grpc_code_name :: "grpc_status_code \<Rightarrow> string" where
  "grpc_code_name c = (case c of
     G_ok \<Rightarrow> ''OK'' | G_cancelled \<Rightarrow> ''CANCELLED'' | G_unknown \<Rightarrow> ''UNKNOWN''
   | G_invalid_argument \<Rightarrow> ''INVALID_ARGUMENT'' | G_deadline_exceeded \<Rightarrow> ''DEADLINE_EXCEEDED''
   | G_not_found \<Rightarrow> ''NOT_FOUND'' | G_already_exists \<Rightarrow> ''ALREADY_EXISTS''
   | G_permission_denied \<Rightarrow> ''PERMISSION_DENIED'' | G_resource_exhausted \<Rightarrow> ''RESOURCE_EXHAUSTED''
   | G_failed_precondition \<Rightarrow> ''FAILED_PRECONDITION'' | G_aborted \<Rightarrow> ''ABORTED''
   | G_out_of_range \<Rightarrow> ''OUT_OF_RANGE'' | G_unimplemented \<Rightarrow> ''UNIMPLEMENTED'' | G_internal \<Rightarrow> ''INTERNAL''
   | G_unavailable \<Rightarrow> ''UNAVAILABLE'' | G_data_loss \<Rightarrow> ''DATA_LOSS'' | G_unauthenticated \<Rightarrow> ''UNAUTHENTICATED''
   | G_other _ \<Rightarrow> ''UNKNOWN'')"

record grpc_status =
  gs_code :: grpc_status_code
  gs_message :: bytes

definition grpc_status_default :: grpc_status where
  "grpc_status_default = \<lparr>gs_code = G_ok, gs_message = []\<rparr>"

definition grpc_ok :: "grpc_status \<Rightarrow> bool" where
  "grpc_ok st \<longleftrightarrow> gs_code st = G_ok"

text \<open>A code is canonical if it is recovered from its number.\<close>

definition canonical_code :: "grpc_status_code \<Rightarrow> bool" where
  "canonical_code c \<longleftrightarrow> (case c of G_other i \<Rightarrow> i < 0 \<or> 16 < i | _ \<Rightarrow> True)"

section \<open>Metadata\<close>

text \<open>
  A \<^verbatim>\<open>std::map<std::string, std::string>\<close> is iterated in the order of its keys, so it is a list of
  entries sorted by key.
\<close>

type_synonym metadata = "(bytes \<times> bytes) list"

fun bytes_less :: "bytes \<Rightarrow> bytes \<Rightarrow> bool" where
  "bytes_less [] ys = (ys \<noteq> [])"
| "bytes_less (x # xs) [] = False"
| "bytes_less (x # xs) (y # ys) = (x < y \<or> x = y \<and> bytes_less xs ys)"

fun md_put :: "bytes \<Rightarrow> 'v \<Rightarrow> (bytes \<times> 'v) list \<Rightarrow> (bytes \<times> 'v) list" where
  "md_put k v [] = [(k, v)]"
| "md_put k v ((k', v') # m) =
     (if k = k' then (k, v) # m
      else if bytes_less k k' then (k, v) # (k', v') # m
      else (k', v') # md_put k v m)"

record call_context =
  cc_initial_metadata :: metadata
  cc_response_metadata :: metadata

definition reserved_header :: "bytes \<Rightarrow> bool" where
  "reserved_header k \<longleftrightarrow> k = [] \<or> hd k = 0x3A \<or> hd k = 0x2D \<or>
     k \<in> {str ''content-type'', str ''te'', str ''host'', str ''grpc-encoding'', str ''grpc-status'',
           str ''grpc-message'', str ''grpc-accept-encoding'', str ''user-agent'', str ''accept-encoding''}"

definition extract_from_headers :: "headers \<Rightarrow> metadata" where
  "extract_from_headers hdrs = fold (\<lambda>(k, v) md. if reserved_header k then md else md_put k v md) hdrs []"

section \<open>Paths\<close>

definition make_path :: "bytes \<Rightarrow> bytes \<Rightarrow> bytes" where
  "make_path service mtd = str ''/'' @ service @ str ''/'' @ mtd"

definition parse_path :: "bytes \<Rightarrow> bytes \<times> bytes" where
  "parse_path path =
     (if path = [] \<or> hd path \<noteq> 0x2F then ([], [])
      else case find_from (str ''/'') path 1 of
             None \<Rightarrow> ([], [])
           | Some slash \<Rightarrow> (substr path 1 (slash - 1), drop (slash + 1) path))"

section \<open>Message framing\<close>

definition encode_grpc_message :: "bytes \<Rightarrow> bytes" where
  "encode_grpc_message data = 0 # be32 (of_nat (length data)) @ data"

text \<open>The 32-bit length in front of a message; five bytes are needed.\<close>

fun msg_length :: "bytes \<Rightarrow> u32" where
  "msg_length (_ # a # b # c # d # _) = ld32 a b c d"
| "msg_length _ = 0"

text \<open>\<^verbatim>\<open>5 + msg_len\<close> is computed in 32 bits.\<close>

definition decode_grpc_message :: "bytes \<Rightarrow> bytes option res" where
  "decode_grpc_message data =
     (if length data < 5 then Inr None
      else let msg_len = msg_length data
           in if length data < unat (5 + msg_len) then Inr None
              else if length data < 5 + unat msg_len then Inl Undefined_Behaviour
              else Inr (Some (take (unat msg_len) (drop 5 data))))"

section \<open>Deframer\<close>

text \<open>
  The loop of \<^verbatim>\<open>feed\<close>: the messages extracted and the bytes that are left.  The iterator
  \<^verbatim>\<open>begin() + 5 + msg_len\<close> is not computed in 32 bits, so a wrapped sum that passes the size check
  leads outside the buffer, unless the buffer holds 4 GiB; such buffers are not followed.
\<close>

function deframe_loop :: "bytes \<Rightarrow> bytes list \<Rightarrow> (bytes list \<times> bytes) res" where
  "deframe_loop buf msgs =
     (if length buf < 5 then Inr (msgs, buf)
      else let msg_len = msg_length buf
           in if length buf < unat (5 + msg_len) then Inr (msgs, buf)
              else if length buf < 5 + unat msg_len then Inl Undefined_Behaviour
              else if 2 ^ 32 \<le> 5 + unat msg_len then Inl Int_Narrowing
              else bindE (decode_grpc_message (take (5 + unat msg_len) buf)) (\<lambda>proto.
                     deframe_loop (drop (5 + unat msg_len) buf)
                       (case proto of Some m \<Rightarrow> msgs @ [m] | None \<Rightarrow> msgs)))"
  by pat_completeness auto
termination
  by (relation "measure (\<lambda>(buf, _). length buf)") auto

declare deframe_loop.simps [simp del]

section \<open>Reader\<close>

text \<open>
  \<^verbatim>\<open>grpc_reader\<close>: the queue, the end marker and whether a coroutine waits in \<^verbatim>\<open>read\<close>.  A read gives
  its result at once or suspends (\<open>None\<close>); \<^verbatim>\<open>push_message\<close> and \<^verbatim>\<open>finish\<close> resume a waiting
  coroutine as their last action, and the model returns the results the resumed read gets.
\<close>

record grpc_reader =
  gr_messages :: "bytes list"
  gr_done :: bool
  gr_waiter :: bool

definition grpc_reader_new :: grpc_reader where
  "grpc_reader_new = \<lparr>gr_messages = [], gr_done = False, gr_waiter = False\<rparr>"

definition reader_resume :: "grpc_reader \<Rightarrow> bytes option \<times> grpc_reader" where
  "reader_resume r =
     (case gr_messages r of m # ms \<Rightarrow> (Some m, r\<lparr>gr_messages := ms\<rparr>) | [] \<Rightarrow> (None, r))"

definition reader_read :: "grpc_reader \<Rightarrow> bytes option option \<times> grpc_reader" where
  "reader_read r =
     (case gr_messages r of
        m # ms \<Rightarrow> (Some (Some m), r\<lparr>gr_messages := ms\<rparr>)
      | [] \<Rightarrow> if gr_done r then (Some None, r) else (None, r\<lparr>gr_waiter := True\<rparr>))"

definition reader_wake :: "grpc_reader \<Rightarrow> bytes option list \<times> grpc_reader" where
  "reader_wake r =
     (if gr_waiter r then (let (x, r1) = reader_resume (r\<lparr>gr_waiter := False\<rparr>) in ([x], r1)) else ([], r))"

definition push_message :: "bytes \<Rightarrow> grpc_reader \<Rightarrow> bytes option list \<times> grpc_reader" where
  "push_message m r = reader_wake (r\<lparr>gr_messages := gr_messages r @ [m]\<rparr>)"

definition reader_finish :: "grpc_reader \<Rightarrow> bytes option list \<times> grpc_reader" where
  "reader_finish r = reader_wake (r\<lparr>gr_done := True\<rparr>)"

section \<open>The deframer object\<close>

text \<open>
  With a message callback the extracted messages go to it, otherwise into the reader, which may be
  a null pointer.  \<^verbatim>\<open>feed\<close> gives the messages for the callback and the results of resumed reads.
\<close>

record stream_deframer =
  df_rdr :: "grpc_reader option"
  df_buf :: bytes
  df_on_msg :: bool

definition stream_deframer_new :: "grpc_reader option \<Rightarrow> stream_deframer" where
  "stream_deframer_new r = \<lparr>df_rdr = r, df_buf = [], df_on_msg = False\<rparr>"

definition on_message :: "stream_deframer \<Rightarrow> stream_deframer" where
  "on_message d = d\<lparr>df_on_msg := True\<rparr>"

fun push_messages :: "bytes list \<Rightarrow> grpc_reader \<Rightarrow> bytes option list \<times> grpc_reader" where
  "push_messages [] r = ([], r)"
| "push_messages (m # ms) r =
     (let (xs, r1) = push_message m r; (ys, r2) = push_messages ms r1 in (xs @ ys, r2))"

definition deframer_feed ::
  "bytes \<Rightarrow> stream_deframer \<Rightarrow> (bytes list \<times> bytes option list \<times> stream_deframer) res" where
  "deframer_feed data d =
     bindE (deframe_loop (df_buf d @ data) []) (\<lambda>(msgs, rest).
       let d1 = d\<lparr>df_buf := rest\<rparr>
       in if msgs = [] then Inr ([], [], d1)
          else if df_on_msg d then Inr (msgs, [], d1)
          else case df_rdr d of
                 None \<Rightarrow> Inl Undefined_Behaviour
               | Some r \<Rightarrow> (let (xs, r1) = push_messages msgs r in Inr ([], xs, d1\<lparr>df_rdr := Some r1\<rparr>)))"

definition deframer_complete :: "stream_deframer \<Rightarrow> (bytes option list \<times> stream_deframer) res" where
  "deframer_complete d =
     (case df_rdr d of
        None \<Rightarrow> Inl Undefined_Behaviour
      | Some r \<Rightarrow> (let (xs, r1) = reader_finish r in Inr (xs, d\<lparr>df_rdr := Some r1\<rparr>)))"

definition deframer_feed_end ::
  "bytes \<Rightarrow> bool \<Rightarrow> stream_deframer \<Rightarrow> (bytes list \<times> bytes option list \<times> stream_deframer) res" where
  "deframer_feed_end data end_stream d =
     bindE (deframer_feed data d) (\<lambda>(ms, xs, d1).
       if end_stream then bindE (deframer_complete d1) (\<lambda>(ys, d2). Inr (ms, xs @ ys, d2))
       else Inr (ms, xs, d1))"

section \<open>Interceptors\<close>

text \<open>What a coroutine that is resumed once has done: returned, thrown, or suspended.\<close>

datatype 'a task = Done 'a | Threw string | Suspended

record call_info =
  ci_service :: bytes
  ci_method :: bytes
  ci_metadata :: metadata

definition full_method :: "call_info \<Rightarrow> bytes" where
  "full_method i = str ''/'' @ ci_service i @ str ''/'' @ ci_method i"

text \<open>
  An interceptor reads the call and may write the error response and status.  One that has
  suspended counts as having let the call pass.
\<close>

type_synonym 'u interceptor_fn =
  "call_info \<Rightarrow> bytes \<Rightarrow> bytes \<times> grpc_status \<Rightarrow> 'u \<Rightarrow> bool task \<times> (bytes \<times> grpc_status) \<times> 'u"

fun run_interceptors ::
  "'u interceptor_fn list \<Rightarrow> call_info \<Rightarrow> bytes \<Rightarrow> bytes \<times> grpc_status \<Rightarrow> 'u \<Rightarrow> (bool \<times> (bytes \<times> grpc_status) \<times> 'u) res"
where
  "run_interceptors [] info req err u = Inr (True, err, u)"
| "run_interceptors (f # fs) info req err u =
     (case f info req err u of
        (Done proceed, err1, u1) \<Rightarrow> if proceed then run_interceptors fs info req err1 u1 else Inr (False, err1, u1)
      | (Threw e, err1, u1) \<Rightarrow> Inl (Runtime_Error e)
      | (Suspended, err1, u1) \<Rightarrow> run_interceptors fs info req err1 u1)"

section \<open>Framing: correctness\<close>

lemma grpc_code_of_code: "canonical_code c \<Longrightarrow> grpc_code_of (grpc_code c) = c"
  by (cases c) (auto simp: canonical_code_def grpc_code_of_def grpc_code_def)

lemma msg_length_encode:
  assumes "length d < 2 ^ 32"
  shows "unat (msg_length (encode_grpc_message d @ rest)) = length d"
  using assms by (simp add: encode_grpc_message_def be32_def unsigned_of_nat take_bit_nat_eq_self)

lemma unat_u32: "unat (w :: u32) < 2 ^ 32"
  using unsigned_less [where 'b = 32 and 'a = nat, of w] by simp

lemma unat_plus5:
  fixes w :: u32
  shows "unat (5 + w) = (if 5 + unat w < 2 ^ 32 then 5 + unat w else 5 + unat w - 2 ^ 32)"
proof -
  have "unat (5 + w) = (5 + unat w) mod 2 ^ 32" by (simp add: unat_word_ariths)
  moreover have "unat w < 2 ^ 32" by (rule unat_u32)
  ultimately show ?thesis by (simp add: mod_if)
qed

lemma length_encode_grpc [simp]: "length (encode_grpc_message d) = 5 + length d"
  by (simp add: encode_grpc_message_def)

lemma drop5_encode [simp]: "drop 5 (encode_grpc_message d) = d"
  by (simp add: encode_grpc_message_def be32_def)

lemma decode_encode_grpc:
  assumes "length d < 2 ^ 32 - 5"
  shows "decode_grpc_message (encode_grpc_message d @ rest) = Inr (Some d)"
proof -
  have "unat (msg_length (encode_grpc_message d @ rest)) = length d" using assms by (intro msg_length_encode) simp
  then show ?thesis using assms by (simp add: decode_grpc_message_def Let_def unat_plus5)
qed

section \<open>Deframing: correctness\<close>

text \<open>One step of the deframer as a one-shot parser.\<close>

definition grpc_parse :: "bytes \<Rightarrow> (bytes \<times> bytes) option" where
  "grpc_parse w =
     (if length w < 5 \<or> length w < 5 + unat (msg_length w) then None
      else Some (take (unat (msg_length w)) (drop 5 w), drop (5 + unat (msg_length w)) w))"

text \<open>The buffer starts with a length that wraps the 32-bit sum.\<close>

definition wraps :: "bytes \<Rightarrow> bool" where
  "wraps w \<longleftrightarrow> 5 \<le> length w \<and> 2 ^ 32 \<le> 5 + unat (msg_length w)"

lemma msg_length_append: "5 \<le> length w \<Longrightarrow> msg_length (w @ x) = msg_length w"
  by (cases w rule: msg_length.cases) auto

lemma msg_length_take: "5 \<le> n \<Longrightarrow> 5 \<le> length w \<Longrightarrow> msg_length (take n w) = msg_length w"
  using msg_length_append [of "take n w" "drop n w"] by simp

lemma deframe_loop_eq:
  assumes "length buf < 2 ^ 32"
  shows "deframe_loop buf msgs =
    (if wraps buf then Inl Undefined_Behaviour
     else case grpc_parse buf of None \<Rightarrow> Inr (msgs, buf) | Some (m, rest) \<Rightarrow> deframe_loop rest (msgs @ [m]))"
proof (cases "wraps buf \<or> grpc_parse buf = None")
  case True
  then show ?thesis
    using assms unat_u32 [of "msg_length buf"]
    by (auto simp: deframe_loop.simps [of buf] wraps_def grpc_parse_def unat_plus5 Let_def split: if_splits)
next
  case False
  define n where "n = unat (msg_length buf)"
  have n: "5 \<le> length buf" "5 + n \<le> length buf" "5 + n < 2 ^ 32"
    using False by (auto simp: grpc_parse_def wraps_def n_def split: if_splits)
  have "msg_length (take (5 + n) buf) = msg_length buf" using n by (intro msg_length_take) auto
  then have "decode_grpc_message (take (5 + n) buf) = Inr (Some (take n (drop 5 buf)))"
    using n by (simp add: decode_grpc_message_def unat_plus5 n_def [symmetric] Let_def take_drop add.commute [of _ n])
  then show ?thesis
    using n False by (simp add: deframe_loop.simps [of buf] n_def [symmetric] unat_plus5 Let_def grpc_parse_def)
qed

lemma grpc_parse_append:
  assumes "grpc_parse w = Some (m, r)"
  shows "grpc_parse (w @ x) = Some (m, r @ x)" "wraps (w @ x) = wraps w"
  using assms msg_length_append [of w x] by (auto simp: grpc_parse_def wraps_def split: if_splits)

lemma grpc_parse_shrinks: "grpc_parse w = Some (m, r) \<Longrightarrow> length r < length w"
  by (auto simp: grpc_parse_def split: if_splits)

lemma deframe_append:
  assumes "length (a @ b) < 2 ^ 32"
  shows "deframe_loop (a @ b) msgs = bindE (deframe_loop a msgs) (\<lambda>(ms, rest). deframe_loop (rest @ b) ms)"
  using assms
proof (induction "length a" arbitrary: a msgs rule: less_induct)
  case less
  have la: "length a < 2 ^ 32" using less(2) by simp
  note unfold = deframe_loop_eq [OF la] deframe_loop_eq [OF less(2)]
  consider (wrap) "wraps a" | (stop) "\<not> wraps a" "grpc_parse a = None" | (msg) m r where "\<not> wraps a" "grpc_parse a = Some (m, r)"
    by (cases "grpc_parse a") auto
  then show ?case
  proof cases
    case wrap
    then have "wraps (a @ b)" using msg_length_append [of a b] by (auto simp: wraps_def)
    then show ?thesis using wrap by (simp add: unfold)
  next
    case stop
    then show ?thesis by (simp add: unfold(1))
  next
    case (msg m r)
    then show ?thesis
      using less.hyps [OF grpc_parse_shrinks [OF msg(2)], of "msgs @ [m]"] less(2) grpc_parse_shrinks [OF msg(2)] grpc_parse_append [OF msg(2), of b]
      by (simp add: unfold)
  qed
qed

lemma deframe_acc:
  assumes "length a < 2 ^ 32"
  shows "deframe_loop a msgs = bindE (deframe_loop a []) (\<lambda>(ms, rest). Inr (msgs @ ms, rest))"
  using assms
proof (induction "length a" arbitrary: a msgs rule: less_induct)
  case less
  show ?case
  proof (cases "grpc_parse a")
    case None
    then show ?thesis by (simp add: deframe_loop_eq [OF less(2)])
  next
    case (Some p)
    obtain m r where p: "p = (m, r)" by force
    have r: "length r < length a" using grpc_parse_shrinks Some p by blast
    note IH = less(1) [OF r]
    have "length r < 2 ^ 32" using r less(2) by simp
    then show ?thesis
      using IH [of "msgs @ [m]"] IH [of "[m]"] Some p
      by (cases "deframe_loop r []") (auto simp: deframe_loop_eq [OF less(2)])
  qed
qed

lemma grpc_parse_encode:
  assumes "length m < 2 ^ 32 - 5"
  shows "grpc_parse (encode_grpc_message m @ w) = Some (m, w)" "\<not> wraps (encode_grpc_message m @ w)"
proof -
  have "unat (msg_length (encode_grpc_message m @ w)) = length m" using assms by (intro msg_length_encode) simp
  then show "grpc_parse (encode_grpc_message m @ w) = Some (m, w)" "\<not> wraps (encode_grpc_message m @ w)"
    using assms by (simp_all add: grpc_parse_def wraps_def)
qed

lemma deframe_encoded:
  assumes "list_all (\<lambda>m. length m < 2 ^ 32 - 5) ms" and "\<not> wraps tail" and "grpc_parse tail = None"
    and "length (concat (map encode_grpc_message ms) @ tail) < 2 ^ 32"
  shows "deframe_loop (concat (map encode_grpc_message ms) @ tail) acc = Inr (acc @ ms, tail)"
  using assms
proof (induction ms arbitrary: acc)
  case Nil
  then show ?case by (simp add: deframe_loop_eq)
next
  case (Cons m ms)
  have "length m < 2 ^ 32 - 5" using Cons(2) by simp
  note p = grpc_parse_encode [OF this, of "concat (map encode_grpc_message ms) @ tail"]
  have "length (encode_grpc_message m @ concat (map encode_grpc_message ms) @ tail) < 2 ^ 32" using Cons(5) by simp
  from deframe_loop_eq [OF this] show ?case using Cons p by simp
qed

section \<open>Reader: correctness\<close>

datatype reader_event = Ev_Read | Ev_Push bytes | Ev_Finish

text \<open>
  A single consumer: it reads again only when its last read has returned.  The run gives the results
  of the completed reads in order; a read while another waits would overwrite the waiting handle.
\<close>

fun reader_run :: "reader_event list \<Rightarrow> grpc_reader \<Rightarrow> (bytes option list \<times> grpc_reader) option" where
  "reader_run [] r = Some ([], r)"
| "reader_run (Ev_Read # es) r =
     (if gr_waiter r then None
      else let (x, r1) = reader_read r
           in map_option (\<lambda>(xs, r2). ((case x of None \<Rightarrow> [] | Some y \<Rightarrow> [y]) @ xs, r2)) (reader_run es r1))"
| "reader_run (Ev_Push m # es) r =
     (let (xs, r1) = push_message m r in map_option (\<lambda>(ys, r2). (xs @ ys, r2)) (reader_run es r1))"
| "reader_run (Ev_Finish # es) r =
     (let (xs, r1) = reader_finish r in map_option (\<lambda>(ys, r2). (xs @ ys, r2)) (reader_run es r1))"

fun pushed :: "reader_event list \<Rightarrow> bytes list" where
  "pushed [] = []"
| "pushed (Ev_Push m # es) = m # pushed es"
| "pushed (_ # es) = pushed es"

text \<open>The producer pushes nothing after it has finished.\<close>

fun finish_last :: "bool \<Rightarrow> reader_event list \<Rightarrow> bool" where
  "finish_last fin [] = True"
| "finish_last fin (Ev_Push m # es) = (\<not> fin \<and> finish_last fin es)"
| "finish_last fin (Ev_Finish # es) = finish_last True es"
| "finish_last fin (Ev_Read # es) = finish_last fin es"

definition reader_sound :: "grpc_reader \<Rightarrow> bool" where
  "reader_sound r \<longleftrightarrow> (gr_waiter r \<longrightarrow> gr_messages r = [] \<and> \<not> gr_done r)"

lemma pushed_after_finish: "finish_last True es \<Longrightarrow> pushed es = []"
  by (induction es rule: pushed.induct) auto

lemmas reader_defs = reader_read_def push_message_def reader_finish_def reader_wake_def reader_resume_def reader_sound_def

lemma reader_run_fifo:
  assumes "reader_run es r = Some (xs, r')" and "finish_last (gr_done r) es" and "reader_sound r"
  shows "\<exists>k. xs @ map Some (gr_messages r') = map Some (gr_messages r @ pushed es) @ replicate k None \<and>
    (0 < k \<longrightarrow> gr_done r') \<and> (gr_done r \<longrightarrow> gr_done r') \<and> reader_sound r'"
  using assms
proof (induction es r arbitrary: xs r' rule: reader_run.induct)
  case (1 r)
  then show ?case by auto
next
  case (2 es r)
  have idle: "\<not> gr_waiter r" using 2(2) by (auto split: if_splits)
  obtain x r1 where rd: "reader_read r = (x, r1)" by force
  obtain ys where ys: "reader_run es r1 = Some (ys, r')" "xs = (case x of None \<Rightarrow> [] | Some y \<Rightarrow> [y]) @ ys"
    using 2(2) idle rd by (auto split: if_splits)
  have keep: "gr_done r1 = gr_done r" "reader_sound r1"
    using rd idle by (auto simp: reader_defs split: list.splits if_splits)
  obtain k where k: "ys @ map Some (gr_messages r') = map Some (gr_messages r1 @ pushed es) @ replicate k None"
    "(0 < k \<longrightarrow> gr_done r') \<and> (gr_done r \<longrightarrow> gr_done r') \<and> reader_sound r'"
    using 2(1) [OF idle rd [symmetric] refl ys(1)] 2(3) keep by auto
  show ?case
  proof (cases "gr_messages r = [] \<and> gr_done r")
    case True
    then have "pushed es = []" using 2(3) pushed_after_finish by simp
    then show ?thesis
      using True k rd ys(2) by (intro exI [of _ "Suc k"]) (auto simp: reader_read_def)
  next
    case False
    then show ?thesis
      using k rd ys(2) by (intro exI [of _ k]) (auto simp: reader_read_def split: list.splits if_splits)
  qed
next
  case (3 m es r)
  obtain x r1 where pu: "push_message m r = (x, r1)" by force
  obtain ys where ys: "reader_run es r1 = Some (ys, r')" "xs = x @ ys" using 3(2) pu by auto
  have keep: "gr_done r1 = gr_done r" "reader_sound r1" "\<not> gr_done r"
    using pu 3(3,4) by (auto simp: reader_defs split: list.splits if_splits)
  have q: "x @ map Some (gr_messages r1) = map Some (gr_messages r @ [m])"
    using pu 3(4) by (auto simp: reader_defs split: list.splits if_splits)
  obtain k where k: "ys @ map Some (gr_messages r') = map Some (gr_messages r1 @ pushed es) @ replicate k None"
    "(0 < k \<longrightarrow> gr_done r') \<and> (gr_done r \<longrightarrow> gr_done r') \<and> reader_sound r'"
    using 3(1) [OF pu [symmetric] refl ys(1)] 3(3) keep by auto
  have "xs @ map Some (gr_messages r') = (x @ map Some (gr_messages r1)) @ map Some (pushed es) @ replicate k None"
    using k(1) ys(2) by simp
  then show ?case using k(2) unfolding q by (intro exI [of _ k]) simp
next
  case (4 es r)
  obtain x r1 where fi: "reader_finish r = (x, r1)" by force
  obtain ys where ys: "reader_run es r1 = Some (ys, r')" "xs = x @ ys" using 4(2) fi by auto
  have keep: "gr_done r1" "reader_sound r1" "gr_messages r1 = gr_messages r"
    "x = (if gr_waiter r then [None] else [])" "gr_waiter r \<longrightarrow> gr_messages r = []"
    using fi 4(4) by (auto simp: reader_defs split: list.splits if_splits)
  have none: "pushed es = []" using 4(3) pushed_after_finish by simp
  obtain k where k: "ys @ map Some (gr_messages r') = map Some (gr_messages r1 @ pushed es) @ replicate k None"
    "(0 < k \<longrightarrow> gr_done r') \<and> gr_done r' \<and> reader_sound r'"
    using 4(1) [OF fi [symmetric] refl ys(1)] 4(3) keep by auto
  show ?case
    using k none keep ys(2) by (intro exI [of _ "if gr_waiter r then Suc k else k"]) auto
qed

section \<open>Metadata: correctness\<close>

lemma bytes_less_irrefl [simp]: "\<not> bytes_less x x"
  by (induction x) auto

lemma bytes_less_total: "bytes_less x y \<or> x = y \<or> bytes_less y x"
  by (induction x y rule: bytes_less.induct) auto

lemma bytes_less_Nil [simp]: "\<not> bytes_less x []"
  by (cases x) auto

lemma bytes_less_trans: "bytes_less x y \<Longrightarrow> bytes_less y z \<Longrightarrow> bytes_less x z"
proof (induction x y arbitrary: z rule: bytes_less.induct)
  case (1 ys)
  then show ?case by (cases z) auto
next
  case (3 x xs y ys)
  then show ?case by (cases z) auto
qed simp

definition md_sorted :: "(bytes \<times> 'v) list \<Rightarrow> bool" where
  "md_sorted m \<longleftrightarrow> sorted_wrt (\<lambda>a b. bytes_less (fst a) (fst b)) m"

lemma md_put_keys: "fst ` set (md_put k v m) = insert k (fst ` set m)"
  by (induction k v m rule: md_put.induct) auto

lemma md_put_sorted: "md_sorted m \<Longrightarrow> md_sorted (md_put k v m)"
proof (induction k v m rule: md_put.induct)
  case (2 k v k' v' m)
  have below: "\<forall>a\<in>fst ` set (md_put k v m). bytes_less k' a" if "k \<noteq> k'" "\<not> bytes_less k k'"
    using 2(2) that bytes_less_total [of k k'] unfolding md_put_keys by (auto simp: md_sorted_def)
  show ?case
  proof (cases "k \<noteq> k' \<and> \<not> bytes_less k k'")
    case True
    then show ?thesis using 2 below by (simp add: md_sorted_def)
  next
    case False
    then show ?thesis using 2(2) by (auto simp: md_sorted_def intro: bytes_less_trans)
  qed
qed (simp add: md_sorted_def)

lemma map_of_md_put: "md_sorted m \<Longrightarrow> map_of (md_put k v m) = (map_of m)(k \<mapsto> v)"
  by (induction k v m rule: md_put.induct) (auto simp: md_sorted_def fun_eq_iff)

lemma extract_fold:
  assumes "md_sorted m"
  shows "md_sorted (fold (\<lambda>(k, v) md. if reserved_header k then md else md_put k v md) hs m) \<and>
    map_of (fold (\<lambda>(k, v) md. if reserved_header k then md else md_put k v md) hs m) =
      map_of m ++ map_of (rev (filter (\<lambda>(k, v). \<not> reserved_header k) hs))"
  using assms
proof (induction hs arbitrary: m)
  case (Cons h hs)
  obtain k v where h: "h = (k, v)" by force
  show ?case
  proof (cases "reserved_header k")
    case True
    then show ?thesis using Cons by (simp add: h)
  next
    case False
    have "(map_of m)(k \<mapsto> v) ++ f = map_of m ++ ([k \<mapsto> v] ++ f)" for f
      by (simp add: map_add_def fun_eq_iff split: option.split)
    then show ?thesis
      using Cons.IH [OF md_put_sorted [OF Cons.prems, of k v]] False Cons.prems
      by (simp add: h map_of_md_put fun_upd_def)
  qed
qed simp

section \<open>The properties of the RPC wire format\<close>

lemma parse_make_path:
  assumes "0x2F \<notin> set service"
  shows "parse_path (make_path service mtd) = (service, mtd)"
  using assms find_sub_char_append [of "0x2F" service mtd]
  by (simp add: parse_path_def make_path_def find_from_def substr_def)

text \<open>
  A message of less than 4 GiB minus five bytes is recovered from its frame, whatever follows the
  frame in the buffer.
\<close>

theorem grpc_message_roundtrip:
  assumes "length d < 2 ^ 32 - 5"
  shows "decode_grpc_message (encode_grpc_message d @ rest) = Inr (Some d)"
  using assms by (rule decode_encode_grpc)

theorem grpc_message_roundtrip_witness:
  "decode_grpc_message (encode_grpc_message [1, 2, 3] @ [9]) = Inr (Some [1, 2, 3])"
  using grpc_message_roundtrip [of "[1, 2, 3]" "[9]"] by simp

text \<open>
  The decoder reads outside its buffer exactly when the announced length is one of the five that
  wrap the 32-bit sum with the prefix and the buffer passes the wrapped check without holding the
  message; every other input is decoded or answered with \<^verbatim>\<open>nullopt\<close>.
\<close>

theorem grpc_decode_undefined:
  "decode_grpc_message data = Inl e \<longleftrightarrow>
     e = Undefined_Behaviour \<and> 5 \<le> length data \<and> 2 ^ 32 - 5 \<le> unat (msg_length data) \<and>
     length data < 5 + unat (msg_length data)"
  using unat_u32 [of "msg_length data"]
  by (auto simp: decode_grpc_message_def Let_def unat_plus5)

text \<open>The chunks of a stream, fed one after another: the messages given to the callback.\<close>

fun feed_chunks :: "bytes list \<Rightarrow> stream_deframer \<Rightarrow> (bytes list \<times> stream_deframer) res" where
  "feed_chunks [] d = Inr ([], d)"
| "feed_chunks (c # cs) d =
     bindE (deframer_feed c d) (\<lambda>(ms, _, d1). bindE (feed_chunks cs d1) (\<lambda>(ns, d2). Inr (ms @ ns, d2)))"

lemma deframer_feed_callback:
  assumes "df_on_msg d"
  shows "deframer_feed data d =
    bindE (deframe_loop (df_buf d @ data) []) (\<lambda>(msgs, rest). Inr (msgs, [], d\<lparr>df_buf := rest\<rparr>))"
  using assms by (cases "deframe_loop (df_buf d @ data) []") (auto simp: deframer_feed_def Let_def)

lemma deframe_rest: "deframe_loop a acc = Inr (ms, r) \<Longrightarrow> length r \<le> length a"
proof (induction a acc rule: deframe_loop.induct)
  case (1 buf msgs)
  then show ?case
    by (subst (asm) (2) deframe_loop.simps)
       (fastforce simp: Let_def bindE_eq_Inr_iff split: if_splits)
qed

lemma deframe_idle: "deframe_loop a acc = Inr (ms, r) \<Longrightarrow> length a < 2 ^ 32 \<Longrightarrow> deframe_loop r [] = Inr ([], r)"
proof (induction "length a" arbitrary: a acc rule: less_induct)
  case less
  show ?case
  proof (cases "grpc_parse a")
    case None
    then show ?thesis using less.prems deframe_loop_eq [OF less.prems(2)] by (auto split: if_splits)
  next
    case (Some p)
    obtain m b where p: "p = (m, b)" by force
    have "length b < length a" using Some p grpc_parse_shrinks by blast
    then show ?thesis
      using less.hyps [of b "acc @ [m]"] less.prems Some p deframe_loop_eq [OF less.prems(2)]
      by (auto split: if_splits)
  qed
qed

lemma feed_chunks_deframe:
  assumes "df_on_msg d" and "length (df_buf d @ concat cs) < 2 ^ 32" and "deframe_loop (df_buf d) [] = Inr ([], df_buf d)"
  shows "feed_chunks cs d =
    bindE (deframe_loop (df_buf d @ concat cs) []) (\<lambda>(ms, rest). Inr (ms, d\<lparr>df_buf := rest\<rparr>))"
  using assms
proof (induction cs arbitrary: d)
  case (Cons c cs)
  note feed = deframer_feed_callback [OF Cons.prems(1), of c]
  have split: "deframe_loop (df_buf d @ concat (c # cs)) [] =
      bindE (deframe_loop (df_buf d @ c) []) (\<lambda>(ms, rest). deframe_loop (rest @ concat cs) ms)"
    using deframe_append [of "df_buf d @ c" "concat cs" "[]"] Cons.prems(2) by simp
  show ?case
  proof (cases "deframe_loop (df_buf d @ c) []")
    case (Inl e)
    then show ?thesis using feed split by simp
  next
    case (Inr p)
    obtain ms rest where p: "p = (ms, rest)" by force
    have len: "length (rest @ concat cs) < 2 ^ 32"
      using deframe_rest [of "df_buf d @ c" "[]" ms rest] Inr p Cons.prems(2) by simp
    have "deframe_loop rest [] = Inr ([], rest)" using deframe_idle Inr p Cons.prems(2) by simp
    then show ?thesis
      using Cons.IH [of "d\<lparr>df_buf := rest\<rparr>"] Cons.prems(1) len feed split Inr p deframe_acc [OF len, of ms]
      by (cases "deframe_loop (rest @ concat cs) []") auto
  qed
qed simp

text \<open>
  C31: However the encoded messages of a stream are cut into DATA frames, the deframer's callback gets
  exactly these messages, in order, and nothing is left in the buffer.
\<close>

theorem deframer_delivers:
  assumes "concat cs = concat (map encode_grpc_message ms)" and "length (concat cs) < 2 ^ 32"
  shows "feed_chunks cs (on_message (stream_deframer_new r)) = Inr (ms, on_message (stream_deframer_new r))"
proof -
  have "list_all (\<lambda>m. length m < 2 ^ 32 - 5) ms"
  proof -
    have "length m < 2 ^ 32 - 5" if "m \<in> set ms" for m
    proof -
      have "5 + length m \<le> length (concat (map encode_grpc_message ms))"
        using that by (induction ms) auto
      then show ?thesis using assms by simp
    qed
    then show ?thesis by (simp add: list_all_iff)
  qed
  then have "deframe_loop (concat cs) [] = Inr (ms, [])"
    using deframe_encoded [of ms "[]" "[]"] assms by (simp add: wraps_def grpc_parse_def)
  moreover have "deframe_loop [] [] = Inr ([], [])" by (simp add: deframe_loop.simps)
  ultimately show ?thesis
    using feed_chunks_deframe [of "on_message (stream_deframer_new r)" cs] assms(2)
    by (simp add: on_message_def stream_deframer_new_def)
qed

theorem deframer_delivers_witness:
  "feed_chunks [[0, 0], [0, 0, 1, 7, 0], [0, 0, 0], [0]] (on_message (stream_deframer_new None)) =
     Inr ([[7], []], on_message (stream_deframer_new None))"
proof (rule deframer_delivers)
  show "concat [[0, 0], [0, 0, 1, 7, 0], [0, 0, 0], [0]] = concat (map encode_grpc_message [[7], []])"
    by (simp add: encode_grpc_message_def be32_def byte_at_def)
qed simp

text \<open>
  C32: A single consumer gets the pushed messages in order, each once, followed only by end markers,
  and an end marker only after the producer has finished; what it has not yet read is still queued.
\<close>

theorem reader_fifo:
  assumes "reader_run es grpc_reader_new = Some (xs, r)" and "finish_last False es"
  shows "\<exists>k. xs @ map Some (gr_messages r) = map Some (pushed es) @ replicate k None \<and> (0 < k \<longrightarrow> gr_done r)"
  using reader_run_fifo [OF assms(1)] assms(2) by (auto simp: grpc_reader_new_def reader_sound_def)

theorem reader_fifo_witness:
  "\<exists>k. [Some [1], Some [2], None] @ map Some (gr_messages \<lparr>gr_messages = [], gr_done = True, gr_waiter = False\<rparr>) =
       map Some (pushed [Ev_Read, Ev_Push [1], Ev_Push [2], Ev_Read, Ev_Finish, Ev_Read]) @ replicate k None \<and>
     (0 < k \<longrightarrow> gr_done \<lparr>gr_messages = [], gr_done = True, gr_waiter = False\<rparr>)"
  by (rule reader_fifo) (simp_all add: reader_defs grpc_reader_new_def)

text \<open>
  The metadata of a call is a map sorted by key that holds, for every header that is neither a
  pseudo-header nor reserved, the value of its last occurrence, and no other key.
\<close>

theorem extract_metadata_refines:
  "md_sorted (extract_from_headers hdrs) \<and>
   map_of (extract_from_headers hdrs) = map_of (rev (filter (\<lambda>(k, v). \<not> reserved_header k) hdrs))"
  using extract_fold [of "[]" hdrs] by (simp add: extract_from_headers_def md_sorted_def)

end
