(* ===== verification/H2_Frame.thy ===== *)
theory H2_Frame
  imports Frame_Stream
begin

text \<open>
  The HTTP/2 frame layer, \<^verbatim>\<open>src/http/h2_frame.hpp\<close>: the frame header and its wire format, the
  frame builders and payload parsers, and the incremental \<^verbatim>\<open>frame_reader\<close>.

  An \<^verbatim>\<open>enum class\<close> with a fixed underlying type can hold every value of that type, so each enum is
  a datatype with one more constructor for the values the source does not name.
\<close>

section \<open>Constants and enumerations\<close>

abbreviation FRAME_HEADER_SIZE :: nat where "FRAME_HEADER_SIZE \<equiv> 9"
abbreviation SETTINGS_PARAM_SIZE :: nat where "SETTINGS_PARAM_SIZE \<equiv> 6"
abbreviation DEFAULT_MAX_FRAME_SIZE :: nat where "DEFAULT_MAX_FRAME_SIZE \<equiv> 16384"
abbreviation DEFAULT_WINDOW_SIZE :: int where "DEFAULT_WINDOW_SIZE \<equiv> 65535"
abbreviation MAX_WINDOW_SIZE :: int where "MAX_WINDOW_SIZE \<equiv> 0x7FFFFFFF"
abbreviation SIZE_MAX :: nat where "SIZE_MAX \<equiv> 0xFFFFFFFFFFFFFFFF"

datatype frame_type =
    DATA | HEADERS | PRIORITY | RST_STREAM | SETTINGS | PUSH_PROMISE | PING | GOAWAY
  | WINDOW_UPDATE | CONTINUATION | Other_Frame byte

definition frame_type_code :: "frame_type \<Rightarrow> byte" where
  "frame_type_code t = (case t of
     DATA \<Rightarrow> 0x0 | HEADERS \<Rightarrow> 0x1 | PRIORITY \<Rightarrow> 0x2 | RST_STREAM \<Rightarrow> 0x3 | SETTINGS \<Rightarrow> 0x4
   | PUSH_PROMISE \<Rightarrow> 0x5 | PING \<Rightarrow> 0x6 | GOAWAY \<Rightarrow> 0x7 | WINDOW_UPDATE \<Rightarrow> 0x8
   | CONTINUATION \<Rightarrow> 0x9 | Other_Frame b \<Rightarrow> b)"

definition frame_type_of :: "byte \<Rightarrow> frame_type" where
  "frame_type_of b =
     (if b = 0x0 then DATA else if b = 0x1 then HEADERS else if b = 0x2 then PRIORITY
      else if b = 0x3 then RST_STREAM else if b = 0x4 then SETTINGS
      else if b = 0x5 then PUSH_PROMISE else if b = 0x6 then PING else if b = 0x7 then GOAWAY
      else if b = 0x8 then WINDOW_UPDATE else if b = 0x9 then CONTINUATION else Other_Frame b)"

definition frame_type_name :: "frame_type \<Rightarrow> string" where
  "frame_type_name t = (case t of
     DATA \<Rightarrow> ''DATA'' | HEADERS \<Rightarrow> ''HEADERS'' | PRIORITY \<Rightarrow> ''PRIORITY''
   | RST_STREAM \<Rightarrow> ''RST_STREAM'' | SETTINGS \<Rightarrow> ''SETTINGS'' | PUSH_PROMISE \<Rightarrow> ''PUSH_PROMISE''
   | PING \<Rightarrow> ''PING'' | GOAWAY \<Rightarrow> ''GOAWAY'' | WINDOW_UPDATE \<Rightarrow> ''WINDOW_UPDATE''
   | CONTINUATION \<Rightarrow> ''CONTINUATION'' | Other_Frame b \<Rightarrow> ''UNKNOWN'')"

abbreviation FLAG_NONE :: byte where "FLAG_NONE \<equiv> 0x00"
abbreviation FLAG_ACK :: byte where "FLAG_ACK \<equiv> 0x01"
abbreviation FLAG_END_STREAM :: byte where "FLAG_END_STREAM \<equiv> 0x01"
abbreviation FLAG_END_HEADERS :: byte where "FLAG_END_HEADERS \<equiv> 0x04"
abbreviation FLAG_PADDED :: byte where "FLAG_PADDED \<equiv> 0x08"
abbreviation FLAG_PRIORITY :: byte where "FLAG_PRIORITY \<equiv> 0x20"

datatype h2_error =
    NO_ERR | PROTOCOL_ERROR | INTERNAL_ERROR | FLOW_CONTROL_ERROR | SETTINGS_TIMEOUT
  | STREAM_CLOSED | FRAME_SIZE_ERROR | REFUSED_STREAM | CANCEL | COMPRESSION_ERROR
  | CONNECT_ERROR | ENHANCE_YOUR_CALM | INADEQUATE_SECURITY | HTTP_1_1_REQUIRED | Other_Error u32

definition h2_error_code :: "h2_error \<Rightarrow> u32" where
  "h2_error_code e = (case e of
     NO_ERR \<Rightarrow> 0x0 | PROTOCOL_ERROR \<Rightarrow> 0x1 | INTERNAL_ERROR \<Rightarrow> 0x2 | FLOW_CONTROL_ERROR \<Rightarrow> 0x3
   | SETTINGS_TIMEOUT \<Rightarrow> 0x4 | STREAM_CLOSED \<Rightarrow> 0x5 | FRAME_SIZE_ERROR \<Rightarrow> 0x6
   | REFUSED_STREAM \<Rightarrow> 0x7 | CANCEL \<Rightarrow> 0x8 | COMPRESSION_ERROR \<Rightarrow> 0x9 | CONNECT_ERROR \<Rightarrow> 0xA
   | ENHANCE_YOUR_CALM \<Rightarrow> 0xB | INADEQUATE_SECURITY \<Rightarrow> 0xC | HTTP_1_1_REQUIRED \<Rightarrow> 0xD
   | Other_Error w \<Rightarrow> w)"

definition h2_error_of :: "u32 \<Rightarrow> h2_error" where
  "h2_error_of w =
     (if w = 0x0 then NO_ERR else if w = 0x1 then PROTOCOL_ERROR else if w = 0x2 then INTERNAL_ERROR
      else if w = 0x3 then FLOW_CONTROL_ERROR else if w = 0x4 then SETTINGS_TIMEOUT
      else if w = 0x5 then STREAM_CLOSED else if w = 0x6 then FRAME_SIZE_ERROR
      else if w = 0x7 then REFUSED_STREAM else if w = 0x8 then CANCEL
      else if w = 0x9 then COMPRESSION_ERROR else if w = 0xA then CONNECT_ERROR
      else if w = 0xB then ENHANCE_YOUR_CALM else if w = 0xC then INADEQUATE_SECURITY
      else if w = 0xD then HTTP_1_1_REQUIRED else Other_Error w)"

datatype setting_id =
    HEADER_TABLE_SIZE | ENABLE_PUSH | MAX_CONCURRENT_STREAMS | INITIAL_WINDOW_SIZE
  | MAX_FRAME_SIZE | MAX_HEADER_LIST_SIZE | Other_Setting u16

definition setting_id_code :: "setting_id \<Rightarrow> u16" where
  "setting_id_code s = (case s of
     HEADER_TABLE_SIZE \<Rightarrow> 0x1 | ENABLE_PUSH \<Rightarrow> 0x2 | MAX_CONCURRENT_STREAMS \<Rightarrow> 0x3
   | INITIAL_WINDOW_SIZE \<Rightarrow> 0x4 | MAX_FRAME_SIZE \<Rightarrow> 0x5 | MAX_HEADER_LIST_SIZE \<Rightarrow> 0x6
   | Other_Setting w \<Rightarrow> w)"

definition setting_id_of :: "u16 \<Rightarrow> setting_id" where
  "setting_id_of w =
     (if w = 0x1 then HEADER_TABLE_SIZE else if w = 0x2 then ENABLE_PUSH
      else if w = 0x3 then MAX_CONCURRENT_STREAMS else if w = 0x4 then INITIAL_WINDOW_SIZE
      else if w = 0x5 then MAX_FRAME_SIZE else if w = 0x6 then MAX_HEADER_LIST_SIZE
      else Other_Setting w)"

record setting_entry =
  se_id :: setting_id
  se_value :: u32

section \<open>Frame header\<close>

text \<open>
  \<^verbatim>\<open>int32_t\<close> stream identifiers are integers; \<open>sid31\<close> is
  \<^verbatim>\<open>static_cast<uint32_t>(stream_id) & 0x7FFFFFFF\<close>.
\<close>

record frame_header =
  fh_length :: u32
  fh_type :: frame_type
  fh_flags :: byte
  fh_stream_id :: int

definition frame_header_default :: frame_header where
  "frame_header_default = \<lparr>fh_length = 0, fh_type = DATA, fh_flags = 0, fh_stream_id = 0\<rparr>"

definition has_flag :: "frame_header \<Rightarrow> byte \<Rightarrow> bool" where
  "has_flag h f = ((fh_flags h AND f) \<noteq> 0)"

definition sid31 :: "int \<Rightarrow> u32" where
  "sid31 i = word_of_int i AND 0x7FFFFFFF"

definition write_to :: "frame_header \<Rightarrow> bytes" where
  "write_to h =
     be24 (fh_length h) @ [frame_type_code (fh_type h), fh_flags h] @ be32 (sid31 (fh_stream_id h))"

text \<open>Reading needs nine bytes; the callers always supply them.\<close>

fun read_from :: "bytes \<Rightarrow> frame_header" where
  "read_from (b0 # b1 # b2 # b3 # b4 # b5 # b6 # b7 # b8 # _) =
     \<lparr>fh_length = ld24 b0 b1 b2, fh_type = frame_type_of b3, fh_flags = b4,
      fh_stream_id = sint (ld32 b5 b6 b7 b8 AND 0x7FFFFFFF)\<rparr>"
| "read_from _ = frame_header_default"

record h2_frame =
  fr_hdr :: frame_header
  fr_payload :: bytes

section \<open>Builders and payload parsers\<close>

definition h2_build_frame :: "frame_type \<Rightarrow> byte \<Rightarrow> int \<Rightarrow> bytes \<Rightarrow> bytes" where
  "h2_build_frame t flags sid payload =
     write_to \<lparr>fh_length = of_nat (length payload), fh_type = t, fh_flags = flags,
               fh_stream_id = sid\<rparr> @ payload"

definition settings_payload :: "setting_entry list \<Rightarrow> bytes" where
  "settings_payload ss = concat (map (\<lambda>s. be16 (setting_id_code (se_id s)) @ be32 (se_value s)) ss)"

definition h2_build_settings_frame :: "setting_entry list \<Rightarrow> bool \<Rightarrow> bytes" where
  "h2_build_settings_frame ss ack =
     h2_build_frame SETTINGS (if ack then FLAG_ACK else FLAG_NONE) 0
       (if ack then [] else settings_payload ss)"

definition build_window_update :: "int \<Rightarrow> u32 \<Rightarrow> bytes" where
  "build_window_update sid increment =
     h2_build_frame WINDOW_UPDATE 0 sid (be32 (increment AND 0x7FFFFFFF))"

definition build_goaway :: "int \<Rightarrow> h2_error \<Rightarrow> bytes \<Rightarrow> bytes" where
  "build_goaway last_sid ec debug =
     h2_build_frame GOAWAY 0 0 (be32 (sid31 last_sid) @ be32 (h2_error_code ec) @ debug)"

definition build_rst_stream :: "int \<Rightarrow> h2_error \<Rightarrow> bytes" where
  "build_rst_stream sid ec = h2_build_frame RST_STREAM 0 sid (be32 (h2_error_code ec))"

definition build_ping :: "bytes \<Rightarrow> bool \<Rightarrow> bytes" where
  "build_ping opaque ack = h2_build_frame PING (if ack then FLAG_ACK else 0) 0 (take 8 opaque)"

definition h2_build_push_promise :: "int \<Rightarrow> int \<Rightarrow> bytes \<Rightarrow> bytes" where
  "h2_build_push_promise sid promised block =
     h2_build_frame PUSH_PROMISE FLAG_END_HEADERS sid (be32 (sid31 promised) @ block)"

fun settings_entries :: "bytes \<Rightarrow> setting_entry list" where
  "settings_entries (p0 # p1 # p2 # p3 # p4 # p5 # rest) =
     \<lparr>se_id = setting_id_of (ld16 p0 p1), se_value = ld32 p2 p3 p4 p5\<rparr> # settings_entries rest"
| "settings_entries _ = []"

definition h2_parse_settings :: "bytes \<Rightarrow> setting_entry list" where
  "h2_parse_settings payload =
     (if length payload mod SETTINGS_PARAM_SIZE \<noteq> 0 then [] else settings_entries payload)"

fun parse_window_update :: "bytes \<Rightarrow> u32" where
  "parse_window_update (p0 # p1 # p2 # p3 # _) = ld32 p0 p1 p2 p3 AND 0x7FFFFFFF"
| "parse_window_update _ = 0"

record h2_push_promise_data =
  pp_promised_stream_id :: int
  pp_header_block :: bytes

fun h2_parse_push_promise :: "bytes \<Rightarrow> h2_push_promise_data" where
  "h2_parse_push_promise (p0 # p1 # p2 # p3 # block) =
     \<lparr>pp_promised_stream_id = sint (ld32 p0 p1 p2 p3 AND 0x7FFFFFFF), pp_header_block = block\<rparr>"
| "h2_parse_push_promise _ = \<lparr>pp_promised_stream_id = 0, pp_header_block = []\<rparr>"

record goaway_data =
  ga_last_stream_id :: int
  ga_ec :: h2_error
  ga_debug_data :: bytes

fun h2_parse_goaway :: "bytes \<Rightarrow> goaway_data" where
  "h2_parse_goaway (p0 # p1 # p2 # p3 # p4 # p5 # p6 # p7 # debug) =
     \<lparr>ga_last_stream_id = sint (ld32 p0 p1 p2 p3 AND 0x7FFFFFFF),
      ga_ec = h2_error_of (ld32 p4 p5 p6 p7), ga_debug_data = debug\<rparr>"
| "h2_parse_goaway _ = \<lparr>ga_last_stream_id = 0, ga_ec = NO_ERR, ga_debug_data = []\<rparr>"

section \<open>Incremental reader\<close>

text \<open>
  \<open>rd_header_buf\<close> is the nine-byte array \<^verbatim>\<open>header_buf_\<close>, \<open>rd_header_len\<close> how much of it is valid;
  a \<open>rd_length\<close> of \<open>SIZE_MAX\<close> means that the header has not been parsed yet.
\<close>

record h2_reader =
  rd_header_buf :: bytes
  rd_header_len :: nat
  rd_header :: frame_header
  rd_length :: nat
  rd_payload :: bytes

definition h2_reader_init :: h2_reader where
  "h2_reader_init = \<lparr>rd_header_buf = replicate 9 0, rd_header_len = 0,
     rd_header = frame_header_default, rd_length = SIZE_MAX, rd_payload = []\<rparr>"

text \<open>\<^verbatim>\<open>memcpy(buf + off, src, src_len)\<close> inside the array.\<close>

definition copy_at :: "bytes \<Rightarrow> nat \<Rightarrow> bytes \<Rightarrow> bytes" where
  "copy_at buf off src = take off buf @ src @ drop (off + length src) buf"

definition h2_reader_check :: "h2_reader \<Rightarrow> h2_reader" where
  "h2_reader_check r =
     (if rd_header_len r = FRAME_HEADER_SIZE \<and> rd_length r = SIZE_MAX
      then (let h = read_from (rd_header_buf r)
            in r\<lparr>rd_header := h, rd_length := unat (fh_length h), rd_payload := []\<rparr>)
      else r)"

function h2_reader_feed_loop :: "h2_reader \<Rightarrow> bytes \<Rightarrow> nat \<Rightarrow> h2_reader \<times> nat" where
  "h2_reader_feed_loop r data consumed =
     (if data = [] then (r, consumed)
      else if rd_header_len r < FRAME_HEADER_SIZE then
        (let n = min (FRAME_HEADER_SIZE - rd_header_len r) (length data);
             r' = r\<lparr>rd_header_buf := copy_at (rd_header_buf r) (rd_header_len r) (take n data),
                    rd_header_len := rd_header_len r + n\<rparr>
         in h2_reader_feed_loop (h2_reader_check r') (drop n data) (consumed + n))
      else if length (rd_payload r) < rd_length r then
        (let n = min (rd_length r - length (rd_payload r)) (length data);
             r' = r\<lparr>rd_payload := rd_payload r @ take n data\<rparr>
         in h2_reader_feed_loop (h2_reader_check r') (drop n data) (consumed + n))
      else (r, consumed))"
  by pat_completeness auto
termination
  by (relation "measure (\<lambda>(_, data, _). length data)") auto

declare h2_reader_feed_loop.simps [simp del]

definition h2_reader_feed :: "h2_reader \<Rightarrow> bytes \<Rightarrow> h2_reader \<times> nat" where
  "h2_reader_feed r data = h2_reader_feed_loop r data 0"

definition h2_has_frame :: "h2_reader \<Rightarrow> bool" where
  "h2_has_frame r \<longleftrightarrow> rd_header_len r = FRAME_HEADER_SIZE \<and> rd_length r \<le> length (rd_payload r)"

definition h2_take_frame :: "h2_reader \<Rightarrow> h2_frame \<times> h2_reader" where
  "h2_take_frame r =
     (\<lparr>fr_hdr = rd_header r, fr_payload = rd_payload r\<rparr>,
      r\<lparr>rd_header_len := 0, rd_length := SIZE_MAX, rd_payload := []\<rparr>)"

section \<open>Codes\<close>

lemma frame_type_code_of [simp]: "frame_type_code (frame_type_of b) = b"
  by (simp add: frame_type_code_def frame_type_of_def)

lemma h2_error_code_of [simp]: "h2_error_code (h2_error_of w) = w"
  by (simp add: h2_error_code_def h2_error_of_def)

lemma setting_id_code_of [simp]: "setting_id_code (setting_id_of w) = w"
  by (simp add: setting_id_code_def setting_id_of_def)

text \<open>
  A value is canonical if it is recovered from its code: every named enumerator is, and
  \<open>Other_\<dots>\<close> is for the codes that no enumerator has.
\<close>

definition canonical_type :: "frame_type \<Rightarrow> bool" where
  "canonical_type t \<longleftrightarrow> frame_type_of (frame_type_code t) = t"

definition canonical_error :: "h2_error \<Rightarrow> bool" where
  "canonical_error e \<longleftrightarrow> h2_error_of (h2_error_code e) = e"

definition canonical_setting :: "setting_id \<Rightarrow> bool" where
  "canonical_setting s \<longleftrightarrow> setting_id_of (setting_id_code s) = s"

lemma canonical_named [simp]:
  "canonical_type DATA" "canonical_type HEADERS" "canonical_type PRIORITY"
  "canonical_type RST_STREAM" "canonical_type SETTINGS" "canonical_type PUSH_PROMISE"
  "canonical_type PING" "canonical_type GOAWAY" "canonical_type WINDOW_UPDATE"
  "canonical_type CONTINUATION" "canonical_type (frame_type_of b)"
  by (simp_all add: canonical_type_def frame_type_code_def frame_type_of_def)

lemma canonical_setting_named [simp]:
  "canonical_setting HEADER_TABLE_SIZE" "canonical_setting ENABLE_PUSH"
  "canonical_setting MAX_CONCURRENT_STREAMS" "canonical_setting INITIAL_WINDOW_SIZE"
  "canonical_setting MAX_FRAME_SIZE" "canonical_setting MAX_HEADER_LIST_SIZE"
  "canonical_setting (setting_id_of w)"
  by (simp_all add: canonical_setting_def setting_id_code_def setting_id_of_def)

lemma mask31: "(0x7FFFFFFF :: u32) = mask 31"
  by (simp add: mask_eq_exp_minus_1)

lemma sid31_and [simp]: "sid31 i AND 0x7FFFFFFF = sid31 i"
  by (simp add: sid31_def and.assoc)

lemma uint_and_mask31: "uint (w AND 0x7FFFFFFF :: u32) = uint w mod 2 ^ 31"
proof -
  have "w AND 0x7FFFFFFF = take_bit 31 w"
    by (simp only: mask31 take_bit_eq_mask)
  then have "uint (w AND 0x7FFFFFFF) = take_bit 31 (uint w)"
    by (simp only: unsigned_take_bit_eq)
  then show ?thesis
    by (simp only: take_bit_eq_mod)
qed

lemma sint_and_mask31: "sint (w AND 0x7FFFFFFF :: u32) = uint (w AND 0x7FFFFFFF)"
proof -
  have "uint (w AND 0x7FFFFFFF :: u32) < 2 ^ 31"
    by (simp add: uint_and_mask31)
  then have "signed_take_bit 31 (uint (w AND 0x7FFFFFFF :: u32)) = uint (w AND 0x7FFFFFFF)"
    by (intro signed_take_bit_int_eq_self) (auto intro: order_trans [of _ 0])
  then show ?thesis
    by (simp add: sint_uint)
qed

lemma sint_and_mask31_bounds: "0 \<le> sint (w AND 0x7FFFFFFF :: u32)" "sint (w AND 0x7FFFFFFF :: u32) < 2 ^ 31"
  by (simp_all add: sint_and_mask31 uint_and_mask31)

lemma sint_sid31 [round_trip]:
  assumes "0 \<le> i" and "i < 2 ^ 31"
  shows "sint (sid31 i) = i"
  using assms by (simp add: sid31_def sint_and_mask31 uint_and_mask31 uint_word_of_int)

section \<open>Round trips of headers and payloads\<close>

definition frame_header_wf :: "frame_header \<Rightarrow> bool" where
  "frame_header_wf h \<longleftrightarrow> unat (fh_length h) < 2 ^ 24 \<and> canonical_type (fh_type h) \<and>
     0 \<le> fh_stream_id h \<and> fh_stream_id h < 2 ^ 31"

lemma length_write_to [simp, wire_simps]: "length (write_to h) = 9"
  by (simp add: write_to_def)

lemma read_write_header:
  assumes "frame_header_wf h"
  shows "read_from (write_to h @ rest) = h"
  using assms
  by (cases h) (simp add: write_to_def be24_def be32_def frame_header_wf_def canonical_type_def
      ld24_be24 sint_sid31)

lemma read_from_wf:
  assumes "9 \<le> length w"
  shows "frame_header_wf (read_from w)"
proof -
  have "unat (ld24 a b c) < 2 ^ 24" for a b c
  proof -
    have "take_bit 24 (ld24 a b c) = ld24 a b c"
      by (rule bit_word_eqI) (auto simp: ld24_def bit_simps dest: bit_imp_le_length)
    then show ?thesis
      by (metis unsigned_take_bit_eq take_bit_nat_less_exp)
  qed
  then show ?thesis
    using assms sint_and_mask31_bounds
    by (cases w rule: read_from.cases)
       (simp_all add: frame_header_wf_def frame_header_default_def)
qed

lemma settings_entries_payload:
  assumes "\<forall>s \<in> set ss. canonical_setting (se_id s)"
  shows "settings_entries (settings_payload ss) = ss"
  using assms
  by (induction ss)
     (auto simp: settings_payload_def be16_def be32_def canonical_setting_def)

lemma length_settings_payload [wire_simps]: "length (settings_payload ss) = 6 * length ss"
  by (induction ss) (auto simp: settings_payload_def)

lemma parse_settings_payload:
  assumes "\<forall>s \<in> set ss. canonical_setting (se_id s)"
  shows "h2_parse_settings (settings_payload ss) = ss"
  using settings_entries_payload [OF assms] by (simp add: h2_parse_settings_def wire_simps)

section \<open>The reader implements the frame-stream interface\<close>

text \<open>The one-shot parse of a frame off the front of a byte string.\<close>

definition h2_parse_frame :: "bytes \<Rightarrow> (h2_frame \<times> bytes) option" where
  "h2_parse_frame w =
     (if length w < 9 then None
      else let h = read_from w; n = unat (fh_length h)
           in if length w < 9 + n then None
              else Some (\<lparr>fr_hdr = h, fr_payload = take n (drop 9 w)\<rparr>, drop (9 + n) w))"

definition h2_reader_ok :: "h2_reader \<Rightarrow> bool" where
  "h2_reader_ok r \<longleftrightarrow> length (rd_header_buf r) = 9 \<and>
     (if rd_header_len r < 9 then rd_length r = SIZE_MAX \<and> rd_payload r = []
      else rd_header_len r = 9 \<and> rd_header r = read_from (rd_header_buf r) \<and>
           rd_length r = unat (fh_length (rd_header r)) \<and> length (rd_payload r) \<le> rd_length r)"

definition h2_buffered :: "h2_reader \<Rightarrow> bytes" where
  "h2_buffered r = take (rd_header_len r) (rd_header_buf r) @ rd_payload r"

lemma h2_reader_init_ok: "h2_reader_ok h2_reader_init" "h2_buffered h2_reader_init = []"
  by (simp_all add: h2_reader_ok_def h2_buffered_def h2_reader_init_def)

lemma fh_length_bound:
  assumes "length w = 9"
  shows "unat (fh_length (read_from w)) < SIZE_MAX"
proof -
  have "unat (fh_length (read_from w)) < 2 ^ 24"
    using read_from_wf [of w] assms by (simp add: frame_header_wf_def)
  then show ?thesis by simp
qed

lemma read_from_prefix: "length w = 9 \<Longrightarrow> read_from (w @ x) = read_from w"
  by (cases w rule: read_from.cases) auto

text \<open>One round of the feed loop keeps the invariant and moves bytes into the buffer.\<close>

lemma feed_header_step:
  assumes ok: "h2_reader_ok r" and "rd_header_len r < 9" and "length d = n" and "n \<le> 9 - rd_header_len r"
  defines "r' \<equiv> h2_reader_check (r\<lparr>rd_header_buf := copy_at (rd_header_buf r) (rd_header_len r) d,
                                  rd_header_len := rd_header_len r + n\<rparr>)"
  shows "h2_reader_ok r' \<and> h2_buffered r' = h2_buffered r @ d"
  using assms fh_length_bound [of "copy_at (rd_header_buf r) (rd_header_len r) d"]
  by (auto simp: h2_reader_ok_def h2_buffered_def h2_reader_check_def copy_at_def Let_def
      split: if_splits)

lemma feed_payload_step:
  assumes ok: "h2_reader_ok r" and "\<not> rd_header_len r < 9" and "length d \<le> rd_length r - length (rd_payload r)"
  defines "r' \<equiv> h2_reader_check (r\<lparr>rd_payload := rd_payload r @ d\<rparr>)"
  shows "h2_reader_ok r' \<and> h2_buffered r' = h2_buffered r @ d"
  using assms fh_length_bound [of "rd_header_buf r"]
  by (auto simp: h2_reader_ok_def h2_buffered_def h2_reader_check_def split: if_splits)

lemma feed_loop_spec:
  assumes "h2_reader_ok r" and "h2_reader_feed_loop r data k = (r', c)"
  shows "\<exists>used rest. data = used @ rest \<and> c = k + length used \<and> h2_reader_ok r' \<and>
           h2_buffered r' = h2_buffered r @ used \<and> (h2_has_frame r' \<or> rest = [])"
  using assms
proof (induction r data k arbitrary: r' c rule: h2_reader_feed_loop.induct)
  case (1 r data k)
  note unfold = h2_reader_feed_loop.simps [of r data k]
  consider (empty) "data = []"
    | (header) "data \<noteq> []" "rd_header_len r < 9"
    | (payload) "data \<noteq> []" "\<not> rd_header_len r < 9" "length (rd_payload r) < rd_length r"
    | (full) "data \<noteq> []" "\<not> rd_header_len r < 9" "\<not> length (rd_payload r) < rd_length r"
    by blast
  then show ?case
  proof cases
    case empty
    with 1(3,4) show ?thesis by (simp add: h2_reader_feed_loop.simps [of r "[]" k])
  next
    case header
    define n where "n = min (9 - rd_header_len r) (length data)"
    define r1 where "r1 = h2_reader_check (r\<lparr>rd_header_buf := copy_at (rd_header_buf r)
        (rd_header_len r) (take n data), rd_header_len := rd_header_len r + n\<rparr>)"
    have st: "h2_reader_ok r1 \<and> h2_buffered r1 = h2_buffered r @ take n data"
      unfolding r1_def by (rule feed_header_step) (use 1(3) header in \<open>auto simp: n_def\<close>)
    have loop: "h2_reader_feed_loop r1 (drop n data) (k + n) = (r', c)"
      using 1(4) header by (simp add: unfold Let_def n_def r1_def)
    from 1(1) [OF header n_def refl, folded r1_def, OF _ loop] st obtain used rest where
      "drop n data = used @ rest" "c = k + n + length used" "h2_reader_ok r'"
      "h2_buffered r' = h2_buffered r1 @ used" "h2_has_frame r' \<or> rest = []" by blast
    moreover from this(1) have "data = (take n data @ used) @ rest" "length (take n data) = n"
      by (metis append.assoc append_take_drop_id) (simp add: n_def)
    ultimately show ?thesis
      using st by (intro exI [of _ "take n data @ used"] exI [of _ rest]) auto
  next
    case payload
    define n where "n = min (rd_length r - length (rd_payload r)) (length data)"
    define r1 where "r1 = h2_reader_check (r\<lparr>rd_payload := rd_payload r @ take n data\<rparr>)"
    have st: "h2_reader_ok r1 \<and> h2_buffered r1 = h2_buffered r @ take n data"
      unfolding r1_def by (rule feed_payload_step) (use 1(3) payload in \<open>auto simp: n_def\<close>)
    have loop: "h2_reader_feed_loop r1 (drop n data) (k + n) = (r', c)"
      using 1(4) payload by (simp add: unfold Let_def n_def r1_def)
    from 1(2) [OF payload n_def refl, folded r1_def, OF _ loop] st obtain used rest where
      "drop n data = used @ rest" "c = k + n + length used" "h2_reader_ok r'"
      "h2_buffered r' = h2_buffered r1 @ used" "h2_has_frame r' \<or> rest = []" by blast
    moreover from this(1) have "data = (take n data @ used) @ rest" "length (take n data) = n"
      by (metis append.assoc append_take_drop_id) (simp add: n_def)
    ultimately show ?thesis
      using st by (intro exI [of _ "take n data @ used"] exI [of _ rest]) auto
  next
    case full
    with 1(3,4) show ?thesis
      by (auto simp: unfold h2_has_frame_def h2_reader_ok_def split: if_splits)
  qed
qed

lemma take_frame_parse:
  assumes "h2_reader_ok r" and "h2_has_frame r"
  shows "h2_parse_frame (h2_buffered r @ w) = Some (fst (h2_take_frame r), w)"
  using assms
  by (auto simp: h2_parse_frame_def h2_reader_ok_def h2_has_frame_def h2_buffered_def
      h2_take_frame_def read_from_prefix Let_def split: if_splits)

lemma no_frame_parse:
  assumes "h2_reader_ok r" and "\<not> h2_has_frame r"
  shows "h2_parse_frame (h2_buffered r) = None"
  using assms
  by (auto simp: h2_parse_frame_def h2_reader_ok_def h2_has_frame_def h2_buffered_def
      read_from_prefix Let_def split: if_splits)

lemma h2_parse_frame_append:
  assumes "h2_parse_frame w = Some (f, w')"
  shows "h2_parse_frame (w @ x) = Some (f, w' @ x)"
proof -
  have len: "9 \<le> length w" using assms by (auto simp: h2_parse_frame_def split: if_splits)
  then have "read_from (w @ x) = read_from w"
    by (cases w rule: read_from.cases) auto
  then show ?thesis
    using assms len by (auto simp: h2_parse_frame_def Let_def split: if_splits)
qed

interpretation h2_stream: prompt_reader h2_reader_ok h2_buffered h2_reader_feed h2_has_frame
  h2_take_frame h2_parse_frame
proof unfold_locales
  fix r :: h2_reader and data r' c
  assume ok: "h2_reader_ok r" and fd: "h2_reader_feed r data = (r', c)"
  from feed_loop_spec [OF ok fd [unfolded h2_reader_feed_def]] obtain used rest where
    u: "data = used @ rest" "c = length used" "h2_reader_ok r'"
       "h2_buffered r' = h2_buffered r @ used" "h2_has_frame r' \<or> rest = []" by auto
  show "h2_reader_ok r'" using u by simp
  show "c \<le> length data \<and> h2_buffered r' = h2_buffered r @ take c data" using u by simp
  show "h2_has_frame r' \<or> c = length data" using u by auto
next
  fix r f r' w
  assume ok: "h2_reader_ok r" and has: "h2_has_frame r"
  show "h2_buffered r \<noteq> []"
    using ok has by (auto simp: h2_buffered_def h2_has_frame_def h2_reader_ok_def)
  assume tk: "h2_take_frame r = (f, r')"
  show "h2_reader_ok r' \<and> h2_buffered r' = []"
    using ok tk by (auto simp: h2_take_frame_def h2_reader_ok_def h2_buffered_def)
  show "h2_parse_frame (h2_buffered r @ w) = Some (f, w)"
    using take_frame_parse [OF ok has] tk by simp
next
  show "h2_parse_frame (h2_buffered r) = None" if "h2_reader_ok r" "\<not> h2_has_frame r" for r
    using that by (rule no_frame_parse)
  show "h2_parse_frame (w @ x) = Some (f, w' @ x)" if "h2_parse_frame w = Some (f, w')" for w f w' x
    using that by (rule h2_parse_frame_append)
qed

section \<open>Correctness of the frame layer\<close>

text \<open>The wire form of a whole frame, through the builder.\<close>

definition encode_frame :: "h2_frame \<Rightarrow> bytes" where
  "encode_frame f = h2_build_frame (fh_type (fr_hdr f)) (fh_flags (fr_hdr f))
     (fh_stream_id (fr_hdr f)) (fr_payload f)"

definition frame_wf :: "h2_frame \<Rightarrow> bool" where
  "frame_wf f \<longleftrightarrow> frame_header_wf (fr_hdr f) \<and> unat (fh_length (fr_hdr f)) = length (fr_payload f)"

lemma of_nat_unat_length: "unat (n :: u32) = k \<Longrightarrow> of_nat k = n"
  by auto

lemma encode_frame_eq: "frame_wf f \<Longrightarrow> encode_frame f = write_to (fr_hdr f) @ fr_payload f"
  by (cases "fr_hdr f")
     (auto simp: encode_frame_def h2_build_frame_def frame_wf_def dest!: of_nat_unat_length)

lemma parse_encode_frame:
  assumes "frame_wf f"
  shows "h2_parse_frame (encode_frame f @ w) = Some (f, w)"
proof -
  have "read_from (write_to (fr_hdr f) @ fr_payload f @ w) = fr_hdr f"
    using assms by (simp add: read_write_header frame_wf_def)
  then show ?thesis
    using assms by (simp add: encode_frame_eq h2_parse_frame_def Let_def) (simp add: frame_wf_def)
qed

lemma parses_encode_frames:
  assumes "\<forall>f \<in> set fs. frame_wf f"
  shows "parses h2_parse_frame (concat (map encode_frame fs) @ w) fs w"
  using assms
  by (induction fs) (auto intro!: parses.intros simp: parse_encode_frame)

lemma h2_parse_frame_Nil [simp]: "h2_parse_frame [] = None"
  by (simp add: h2_parse_frame_def)

text \<open>a well-formed frame header survives the wire: reading the nine bytes that \<^verbatim>\<open>write_to\<close>
  produces gives the header back, whatever follows them, and every nine bytes read as a
  well-formed header.\<close>

theorem h2_header_round_trip:
  "(frame_header_wf h \<longrightarrow> read_from (write_to h @ rest) = h) \<and>
   (length w = 9 \<longrightarrow> frame_header_wf (read_from w))"
  by (simp add: read_write_header read_from_wf)

theorem h2_header_round_trip_witness:
  "read_from (write_to \<lparr>fh_length = 5, fh_type = HEADERS, fh_flags = 4, fh_stream_id = 3\<rparr> @ [])
     = \<lparr>fh_length = 5, fh_type = HEADERS, fh_flags = 4, fh_stream_id = 3\<rparr>"
  using h2_header_round_trip [of "\<lparr>fh_length = 5, fh_type = HEADERS, fh_flags = 4, fh_stream_id = 3\<rparr>" "[]" "replicate 9 0"]
  by (simp add: frame_header_wf_def)

text \<open>a fresh reader fed the concatenation of any well-formed frames delivers exactly those
  frames, in order, and is left empty.\<close>

theorem h2_reader_delivers:
  assumes "\<forall>f \<in> set fs. frame_wf f"
  shows "\<exists>r. drain h2_reader_feed h2_has_frame h2_take_frame
              (Suc (length (concat (map encode_frame fs)))) h2_reader_init (concat (map encode_frame fs))
            = Some (fs, r) \<and> h2_buffered r = []"
proof -
  obtain gs r where d: "drain h2_reader_feed h2_has_frame h2_take_frame
      (Suc (length (concat (map encode_frame fs)))) h2_reader_init (concat (map encode_frame fs))
      = Some (gs, r)"
    using h2_stream.drain_enough [OF h2_reader_init_ok(1)] by (force simp: h2_reader_init_ok)
  have "parses h2_parse_frame (concat (map encode_frame fs)) gs (h2_buffered r)"
    and "h2_parse_frame (h2_buffered r) = None"
    using h2_stream.drain_complete [OF h2_reader_init_ok(1) d] by (simp_all add: h2_reader_init_ok)
  then have "gs = fs \<and> h2_buffered r = []"
    using parses_encode_frames [OF assms, of "[]"] parses_unique [of h2_parse_frame] by fastforce
  with d show ?thesis by auto
qed

theorem h2_reader_delivers_witness:
  "\<exists>r. drain h2_reader_feed h2_has_frame h2_take_frame 18 h2_reader_init
         (encode_frame \<lparr>fr_hdr = \<lparr>fh_length = 8, fh_type = PING, fh_flags = 0, fh_stream_id = 0\<rparr>,
                        fr_payload = [1, 2, 3, 4, 5, 6, 7, 8]\<rparr>)
       = Some ([\<lparr>fr_hdr = \<lparr>fh_length = 8, fh_type = PING, fh_flags = 0, fh_stream_id = 0\<rparr>,
                 fr_payload = [1, 2, 3, 4, 5, 6, 7, 8]\<rparr>], r) \<and> h2_buffered r = []"
  using h2_reader_delivers [of "[\<lparr>fr_hdr = \<lparr>fh_length = 8, fh_type = PING, fh_flags = 0, fh_stream_id = 0\<rparr>,
    fr_payload = [1, 2, 3, 4, 5, 6, 7, 8]\<rparr>]"]
  by (simp add: frame_wf_def frame_header_wf_def encode_frame_def h2_build_frame_def)

text \<open>the frames a reader delivers do not depend on how the transport cut the stream: draining
  \<open>a @ b\<close> in one go and draining \<open>a\<close> and then \<open>b\<close> give the same frames and leave the same
  bytes buffered.\<close>

theorem h2_reader_chunk_independent:
  assumes "h2_reader_ok r"
  shows "\<exists>fs gs hs r' r1 r2.
    drain h2_reader_feed h2_has_frame h2_take_frame (Suc (length (h2_buffered r) + length (a @ b))) r (a @ b)
      = Some (fs, r') \<and>
    drain h2_reader_feed h2_has_frame h2_take_frame (Suc (length (h2_buffered r) + length a)) r a
      = Some (gs, r1) \<and>
    drain h2_reader_feed h2_has_frame h2_take_frame (Suc (length (h2_buffered r1) + length b)) r1 b
      = Some (hs, r2) \<and>
    fs = gs @ hs \<and> h2_buffered r' = h2_buffered r2"
proof -
  obtain fs r' where one: "drain h2_reader_feed h2_has_frame h2_take_frame
      (Suc (length (h2_buffered r) + length (a @ b))) r (a @ b) = Some (fs, r')"
    using h2_stream.drain_enough [OF assms, of "a @ b"] by blast
  obtain gs r1 where fst: "drain h2_reader_feed h2_has_frame h2_take_frame
      (Suc (length (h2_buffered r) + length a)) r a = Some (gs, r1)" and ok1: "h2_reader_ok r1"
    using h2_stream.drain_enough [OF assms, of a] by blast
  obtain hs r2 where snd: "drain h2_reader_feed h2_has_frame h2_take_frame
      (Suc (length (h2_buffered r1) + length b)) r1 b = Some (hs, r2)"
    using h2_stream.drain_enough [OF ok1, of b] by blast
  show ?thesis
    using h2_stream.drain_chunks [OF assms one fst snd] one fst snd by auto
qed

theorem h2_reader_chunk_independent_witness:
  "\<exists>fs gs hs r' r1 r2.
    drain h2_reader_feed h2_has_frame h2_take_frame 10 h2_reader_init ([0, 0, 0, 6, 0] @ [0, 0, 0, 0])
      = Some (fs, r') \<and>
    drain h2_reader_feed h2_has_frame h2_take_frame 6 h2_reader_init [0, 0, 0, 6, 0] = Some (gs, r1) \<and>
    drain h2_reader_feed h2_has_frame h2_take_frame (Suc (length (h2_buffered r1) + 4)) r1 [0, 0, 0, 0]
      = Some (hs, r2) \<and>
    fs = gs @ hs \<and> h2_buffered r' = h2_buffered r2"
  using h2_reader_chunk_independent [OF h2_reader_init_ok(1), of "[0, 0, 0, 6, 0]" "[0, 0, 0, 0]"]
  by (simp add: h2_reader_init_ok eval_nat_numeral)

text \<open>the payload parsers invert the builders: SETTINGS entries, the GOAWAY and PUSH_PROMISE
  payloads and the WINDOW_UPDATE increment come back as they were sent (the increment without the
  reserved bit).\<close>

theorem h2_payload_round_trips:
  assumes "\<forall>s \<in> set ss. canonical_setting (se_id s)"
    and "0 \<le> sid" and "sid < 2 ^ 31" and "canonical_error ec"
  shows "h2_parse_settings (settings_payload ss) = ss \<and>
    h2_parse_goaway (drop 9 (build_goaway sid ec debug))
      = \<lparr>ga_last_stream_id = sid, ga_ec = ec, ga_debug_data = debug\<rparr> \<and>
    h2_parse_push_promise (drop 9 (h2_build_push_promise parent sid block))
      = \<lparr>pp_promised_stream_id = sid, pp_header_block = block\<rparr> \<and>
    parse_window_update (drop 9 (build_window_update sid inc)) = inc AND 0x7FFFFFFF"
  using assms
  by (simp add: parse_settings_payload build_goaway_def h2_build_push_promise_def
      build_window_update_def h2_build_frame_def be32_def sint_sid31 canonical_error_def and.assoc)

theorem h2_payload_round_trips_witness:
  "h2_parse_goaway (drop 9 (build_goaway 7 PROTOCOL_ERROR [1, 2]))
     = \<lparr>ga_last_stream_id = 7, ga_ec = PROTOCOL_ERROR, ga_debug_data = [1, 2]\<rparr>"
  using h2_payload_round_trips [of "[]" 7 PROTOCOL_ERROR "[1, 2]" 0 "[]" 0]
  by (simp add: canonical_error_def h2_error_of_def h2_error_code_def)

end
