(* ===== verification/H2_Session.thy ===== *)
theory H2_Session
  imports H2_Frame Hpack Http_Types
begin

text \<open>
  The HTTP/2 session, \<^verbatim>\<open>src/http/http2_session.cpp\<close> and \<^verbatim>\<open>include/async_net/http/http2_session.hpp\<close>:
  the connection and stream state, the handler of every frame type, the submission of requests,
  responses, pushes, data and trailers, and the feed loop.

  A \<^verbatim>\<open>std::function\<close> member is a callback identifier (\<open>None\<close> when empty) and the application gives
  each identifier its behaviour: a callback reads and updates the application's own state \<open>'u\<close> and
  answers with the calls it makes on the session's public interface, in order, or throws; an
  exception leaves \<^verbatim>\<open>feed\<close>.  Callbacks do not call \<^verbatim>\<open>feed\<close> themselves.  A \<^verbatim>\<open>shared_ptr<response_promise>\<close> is an identifier in a store of
  promises; resuming a waiting coroutine is a callback that does not throw.  The 64-bit window counters
  are integers; stream identifiers are integers, and the increment that would overflow
  \<^verbatim>\<open>int32_t\<close> is undefined behaviour.  Log output is left out.
\<close>

section \<open>State\<close>

datatype h2_mode = Server | Client

datatype h2_st = Idle | Open | Half_Closed_Local | Half_Closed_Remote | Closed

record stream_state =
  ss_id :: int
  ss_state :: h2_st
  ss_req :: request
  ss_resp :: response
  ss_body :: bytes
  ss_headers_complete :: bool
  ss_end_stream :: bool
  ss_send_window :: int
  ss_recv_window :: int
  ss_promise :: "nat option"
  ss_data_cb :: "nat option"
  ss_streaming_handled :: bool
  ss_pending :: bytes

definition stream_default :: stream_state where
  "stream_default = \<lparr>ss_id = 0, ss_state = Idle, ss_req = request_default, ss_resp = response_default,
     ss_body = [], ss_headers_complete = False, ss_end_stream = False,
     ss_send_window = DEFAULT_WINDOW_SIZE, ss_recv_window = DEFAULT_WINDOW_SIZE, ss_promise = None,
     ss_data_cb = None, ss_streaming_handled = False, ss_pending = []\<rparr>"

record push_promise_info =
  pi_promised_stream_id :: int
  pi_promised_request :: request

record response_promise =
  pr_resp :: response
  pr_complete :: bool
  pr_error :: bool
  pr_is_push :: bool
  pr_push_info :: push_promise_info
  pr_waiter :: "nat option"

definition promise_default :: response_promise where
  "promise_default = \<lparr>pr_resp = response_default, pr_complete = False, pr_error = False, pr_is_push = False,
     pr_push_info = \<lparr>pi_promised_stream_id = 0, pi_promised_request = request_default\<rparr>, pr_waiter = None\<rparr>"

record 'u h2_session =
  s_mode :: h2_mode
  s_alive :: bool
  s_preface_received :: bool
  s_flushing :: bool
  s_reader :: h2_reader
  s_output :: bytes
  s_encoder :: hpack_encoder
  s_decoder :: hpack_decoder
  s_streams :: "int \<Rightarrow> stream_state option"
  s_next_stream_id :: int
  s_last_client_stream :: int
  s_conn_send_window :: int
  s_conn_recv_window :: int
  s_peer_max_frame_size :: nat
  s_peer_initial_window_size :: u32
  s_request_handler :: "nat option"
  s_streaming_request_handler :: "nat option"
  s_request_start_handler :: "nat option"
  s_push_provider :: "nat option"
  s_push_handler :: "nat option"
  s_completed_promises :: "nat list"
  s_continuation_stream :: int
  s_peer_enable_push :: bool
  s_next_push_stream_id :: int
  s_promises :: "nat \<Rightarrow> response_promise option"
  s_next_promise :: nat
  s_user :: 'u

definition enqueue :: "bytes \<Rightarrow> 'u h2_session \<Rightarrow> 'u h2_session" where
  "enqueue data s = s\<lparr>s_output := s_output s @ data\<rparr>"

definition h2_session_new :: "h2_mode \<Rightarrow> 'u \<Rightarrow> 'u h2_session" where
  "h2_session_new m u =
     enqueue (h2_build_settings_frame
       [\<lparr>se_id = MAX_CONCURRENT_STREAMS, se_value = 100\<rparr>,
        \<lparr>se_id = INITIAL_WINDOW_SIZE, se_value = 65535\<rparr>,
        \<lparr>se_id = MAX_HEADER_LIST_SIZE, se_value = 8192\<rparr>,
        \<lparr>se_id = ENABLE_PUSH, se_value = 1\<rparr>] False)
     \<lparr>s_mode = m, s_alive = True, s_preface_received = False, s_flushing = False,
      s_reader = h2_reader_init, s_output = [], s_encoder = hpack_encoder_new 4096,
      s_decoder = hpack_decoder_new 4096, s_streams = (\<lambda>_. None),
      s_next_stream_id = (if m = Server then 2 else 1), s_last_client_stream = 0,
      s_conn_send_window = DEFAULT_WINDOW_SIZE, s_conn_recv_window = DEFAULT_WINDOW_SIZE,
      s_peer_max_frame_size = DEFAULT_MAX_FRAME_SIZE, s_peer_initial_window_size = 65535,
      s_request_handler = None, s_streaming_request_handler = None, s_request_start_handler = None,
      s_push_provider = None, s_push_handler = None, s_completed_promises = [],
      s_continuation_stream = 0, s_peer_enable_push = True, s_next_push_stream_id = 2,
      s_promises = (\<lambda>_. None), s_next_promise = 0, s_user = u\<rparr>"

text \<open>\<^verbatim>\<open>streams_[sid]\<close> creates a default entry when there is none; an iterator's entry is updated in place.\<close>

definition stream_at :: "'u h2_session \<Rightarrow> int \<Rightarrow> stream_state" where
  "stream_at s sid = (case s_streams s sid of Some ss \<Rightarrow> ss | None \<Rightarrow> stream_default)"

definition set_stream :: "int \<Rightarrow> stream_state \<Rightarrow> 'u h2_session \<Rightarrow> 'u h2_session" where
  "set_stream sid ss s = s\<lparr>s_streams := (s_streams s)(sid := Some ss)\<rparr>"

definition upd_stream :: "int \<Rightarrow> (stream_state \<Rightarrow> stream_state) \<Rightarrow> 'u h2_session \<Rightarrow> 'u h2_session" where
  "upd_stream sid f s = s\<lparr>s_streams := (s_streams s)(sid := map_option f (s_streams s sid))\<rparr>"

definition h2_goaway :: "h2_error \<Rightarrow> string \<Rightarrow> 'u h2_session \<Rightarrow> 'u h2_session" where
  "h2_goaway ec debug s =
     (enqueue (build_goaway (s_last_client_stream s) ec (str debug)) s)\<lparr>s_alive := False\<rparr>"

section \<open>Submission\<close>

definition to_lower_header :: "bytes \<Rightarrow> bytes" where
  "to_lower_header hdr = map tolower hdr"

text \<open>
  A block or body is cut into pieces of the peer's maximum frame size, which the session keeps at
  16384 or more; with a size of zero the source would not terminate and the model stops.
\<close>

function continuation_frames :: "nat \<Rightarrow> int \<Rightarrow> bytes \<Rightarrow> bytes" where
  "continuation_frames mx sid block =
     (if block = [] \<or> mx = 0 then []
      else h2_build_frame CONTINUATION (if drop mx block = [] then FLAG_END_HEADERS else 0) sid (take mx block)
           @ continuation_frames mx sid (drop mx block))"
  by pat_completeness auto
termination
  by (relation "measure (\<lambda>(_, _, block). length block)") auto

declare continuation_frames.simps [simp del]

definition build_headers_frame ::
  "int \<Rightarrow> byte \<Rightarrow> (bytes \<times> bytes) list \<Rightarrow> 'u h2_session \<Rightarrow> bytes \<times> 'u h2_session" where
  "build_headers_frame sid flags hdrs s =
     (let (block, enc) = hpack_encode hdrs (s_encoder s); mx = s_peer_max_frame_size s
      in (if length block \<le> mx
          then h2_build_frame HEADERS (flags OR FLAG_END_HEADERS) sid block
          else h2_build_frame HEADERS flags sid (take mx block) @ continuation_frames mx sid (drop mx block),
          s\<lparr>s_encoder := enc\<rparr>))"

definition enqueue_headers :: "int \<Rightarrow> byte \<Rightarrow> (bytes \<times> bytes) list \<Rightarrow> 'u h2_session \<Rightarrow> 'u h2_session" where
  "enqueue_headers sid flags hdrs s = (let (data, s') = build_headers_frame sid flags hdrs s in enqueue data s')"

function data_frames :: "nat \<Rightarrow> int \<Rightarrow> bool \<Rightarrow> bytes \<Rightarrow> bytes" where
  "data_frames mx sid end_stream body =
     (if body = [] \<or> mx = 0 then []
      else h2_build_frame DATA (if end_stream \<and> drop mx body = [] then FLAG_END_STREAM else 0) sid (take mx body)
           @ data_frames mx sid end_stream (drop mx body))"
  by pat_completeness auto
termination
  by (relation "measure (\<lambda>(_, _, _, body). length body)") auto

declare data_frames.simps [simp del]

definition build_data_frames :: "int \<Rightarrow> bytes \<Rightarrow> bool \<Rightarrow> 'u h2_session \<Rightarrow> bytes" where
  "build_data_frames sid body no_end_stream s =
     data_frames (s_peer_max_frame_size s) sid (\<not> no_end_stream) body @
     (if body = [] \<and> \<not> no_end_stream then h2_build_frame DATA FLAG_END_STREAM sid [] else [])"

definition close_stream :: "int \<Rightarrow> 'u h2_session \<Rightarrow> 'u h2_session" where
  "close_stream sid s = upd_stream sid (\<lambda>ss. ss\<lparr>ss_state := Closed\<rparr>) s"

definition lower_headers :: "headers \<Rightarrow> (bytes \<times> bytes) list" where
  "lower_headers hdrs = map (\<lambda>(k, v). (to_lower_header k, v)) hdrs"

definition response_extra_headers :: "headers \<Rightarrow> (bytes \<times> bytes) list" where
  "response_extra_headers hdrs =
     filter (\<lambda>(lk, v). lk \<notin> {str ''content-type'', str ''content-length'', str ''connection'',
                            str ''transfer-encoding''}) (lower_headers hdrs)"

definition content_type_header :: "response \<Rightarrow> (bytes \<times> bytes) list" where
  "content_type_header resp =
     (case hdrs_get (str ''Content-Type'') (rs_hdrs resp) of
        Some ct \<Rightarrow> [(str ''content-type'', ct)] | None \<Rightarrow> [])"

definition do_submit_response :: "int \<Rightarrow> response \<Rightarrow> 'u h2_session \<Rightarrow> 'u h2_session" where
  "do_submit_response sid resp s =
     (let hdrs = [(str '':status'', int_to_string (rs_status resp))] @ content_type_header resp @
            (if rs_bd resp \<noteq> [] then [(str ''content-length'', nat_to_string (length (rs_bd resp)))] else []) @
            response_extra_headers (rs_hdrs resp);
          has_body = (rs_bd resp \<noteq> []); has_trailers = (rs_trailers resp \<noteq> []);
          flags = (if has_body \<or> has_trailers then 0 else FLAG_END_STREAM);
          s1 = enqueue_headers sid flags hdrs s;
          s2 = (if has_body then enqueue (build_data_frames sid (rs_bd resp) has_trailers s1) s1 else s1);
          s3 = (if has_trailers then enqueue_headers sid FLAG_END_STREAM (lower_headers (rs_trailers resp)) s2 else s2)
      in close_stream sid s3)"

definition do_submit_response_headers :: "int \<Rightarrow> response \<Rightarrow> 'u h2_session \<Rightarrow> 'u h2_session" where
  "do_submit_response_headers sid resp s =
     enqueue_headers sid 0 ([(str '':status'', int_to_string (rs_status resp))] @ content_type_header resp @
       response_extra_headers (rs_hdrs resp)) s"

definition do_submit_data :: "int \<Rightarrow> bytes \<Rightarrow> bool \<Rightarrow> 'u h2_session \<Rightarrow> 'u h2_session" where
  "do_submit_data sid data end_stream s =
     (let s1 = enqueue (if data = [] then h2_build_frame DATA (if end_stream then FLAG_END_STREAM else 0) sid []
                        else data_frames (s_peer_max_frame_size s) sid end_stream data) s
      in if end_stream then close_stream sid s1 else s1)"

definition do_submit_trailers :: "int \<Rightarrow> headers \<Rightarrow> 'u h2_session \<Rightarrow> 'u h2_session" where
  "do_submit_trailers sid trailers s =
     close_stream sid (enqueue_headers sid FLAG_END_STREAM (lower_headers trailers) s)"

definition request_headers :: "request \<Rightarrow> (bytes \<times> bytes) list" where
  "request_headers req =
     [(str '':method'', method_to_string (rq_method req)),
      (str '':path'', if rq_path req = [] then str ''/'' else rq_path req),
      (str '':scheme'', str ''https''),
      (str '':authority'', case hdrs_get (str ''Host'') (rq_hdrs req) of Some h \<Rightarrow> h | None \<Rightarrow> str ''localhost'')] @
     filter (\<lambda>(lk, v). lk \<notin> {str ''host'', str ''connection''}) (lower_headers (rq_hdrs req))"

definition do_submit_request ::
  "request \<Rightarrow> nat option \<Rightarrow> bool \<Rightarrow> 'u h2_session \<Rightarrow> (int \<times> 'u h2_session) res" where
  "do_submit_request req promise no_end_stream s =
     (let sid = s_next_stream_id s
      in if 2 ^ 31 \<le> sid + 2 then Inl Undefined_Behaviour
         else let s1 = s\<lparr>s_next_stream_id := sid + 2\<rparr>;
                  s2 = set_stream sid ((stream_at s1 sid)\<lparr>ss_id := sid, ss_state := Open, ss_promise := promise\<rparr>) s1;
                  has_body = (rq_bd req \<noteq> []);
                  s3 = enqueue_headers sid (if has_body \<or> no_end_stream then 0 else FLAG_END_STREAM)
                         (request_headers req) s2;
                  s4 = (if has_body then enqueue (build_data_frames sid (rq_bd req) False s3) s3 else s3)
              in Inr (sid, s4))"

definition do_submit_push ::
  "int \<Rightarrow> request \<Rightarrow> response \<Rightarrow> 'u h2_session \<Rightarrow> (int \<times> 'u h2_session) res" where
  "do_submit_push parent req resp s =
     (if \<not> s_peer_enable_push s then Inr (-1, s)
      else let promised = s_next_push_stream_id s
           in if 2 ^ 31 \<le> promised + 2 then Inl Undefined_Behaviour
              else let s1 = s\<lparr>s_next_push_stream_id := promised + 2\<rparr>;
                       (block, enc) = hpack_encode (request_headers req) (s_encoder s1);
                       s2 = enqueue (h2_build_push_promise parent promised block) (s1\<lparr>s_encoder := enc\<rparr>);
                       s3 = set_stream promised
                              ((stream_at s2 promised)\<lparr>ss_id := promised, ss_state := Half_Closed_Local\<rparr>) s2
                   in Inr (promised, do_submit_response promised resp s3))"

definition get_pending_output :: "'u h2_session \<Rightarrow> bytes \<times> 'u h2_session" where
  "get_pending_output s = (s_output s, s\<lparr>s_output := []\<rparr>)"

definition take_completed_promises :: "'u h2_session \<Rightarrow> nat list \<times> 'u h2_session" where
  "take_completed_promises s = (s_completed_promises s, s\<lparr>s_completed_promises := []\<rparr>)"

definition set_data_callback :: "int \<Rightarrow> nat option \<Rightarrow> 'u h2_session \<Rightarrow> 'u h2_session" where
  "set_data_callback sid cb s = upd_stream sid (\<lambda>ss. ss\<lparr>ss_data_cb := cb\<rparr>) s"

definition make_promise :: "response_promise \<Rightarrow> 'u h2_session \<Rightarrow> nat \<times> 'u h2_session" where
  "make_promise p s =
     (s_next_promise s, s\<lparr>s_promises := (s_promises s)(s_next_promise s := Some p), s_next_promise := Suc (s_next_promise s)\<rparr>)"

section \<open>The application\<close>

text \<open>The calls a callback can make on the session.\<close>

datatype h2_call =
    Submit_Response int response
  | Submit_Response_Headers int response
  | Submit_Data int bytes bool
  | Submit_Trailers int headers
  | Submit_Request request bool
  | Submit_Push int request response
  | Set_Data_Callback int "nat option"
  | Set_Request_Handler "nat option"
  | Set_Streaming_Request_Handler "nat option"
  | Set_Request_Start_Handler "nat option"
  | Set_Push_Provider "nat option"
  | Set_Push_Handler "nat option"
  | Get_Pending_Output
  | Take_Completed_Promises

fun run_call :: "h2_call \<Rightarrow> 'u h2_session \<Rightarrow> 'u h2_session res" where
  "run_call (Submit_Response sid resp) s = Inr (do_submit_response sid resp s)"
| "run_call (Submit_Response_Headers sid resp) s = Inr (do_submit_response_headers sid resp s)"
| "run_call (Submit_Data sid data fin) s = Inr (do_submit_data sid data fin s)"
| "run_call (Submit_Trailers sid trailers) s = Inr (do_submit_trailers sid trailers s)"
| "run_call (Submit_Request req no_end) s =
     (let (p, s1) = make_promise promise_default s
      in bindE (do_submit_request req (Some p) no_end s1) (\<lambda>(_, s2). Inr s2))"
| "run_call (Submit_Push parent req resp) s = bindE (do_submit_push parent req resp s) (\<lambda>(_, s1). Inr s1)"
| "run_call (Set_Data_Callback sid cb) s = Inr (set_data_callback sid cb s)"
| "run_call (Set_Request_Handler h) s = Inr (s\<lparr>s_request_handler := h\<rparr>)"
| "run_call (Set_Streaming_Request_Handler h) s = Inr (s\<lparr>s_streaming_request_handler := h\<rparr>)"
| "run_call (Set_Request_Start_Handler h) s = Inr (s\<lparr>s_request_start_handler := h\<rparr>)"
| "run_call (Set_Push_Provider h) s = Inr (s\<lparr>s_push_provider := h\<rparr>)"
| "run_call (Set_Push_Handler h) s = Inr (s\<lparr>s_push_handler := h\<rparr>)"
| "run_call Get_Pending_Output s = Inr (snd (get_pending_output s))"
| "run_call Take_Completed_Promises s = Inr (snd (take_completed_promises s))"

fun run_calls :: "h2_call list \<Rightarrow> 'u h2_session \<Rightarrow> 'u h2_session res" where
  "run_calls [] s = Inr s"
| "run_calls (c # cs) s = bindE (run_call c s) (run_calls cs)"

record 'u h2_app =
  app_request :: "nat \<Rightarrow> request \<Rightarrow> 'u \<Rightarrow> (response \<times> 'u) res"
  app_streaming :: "nat \<Rightarrow> int \<Rightarrow> request \<Rightarrow> 'u \<Rightarrow> (bool \<times> h2_call list \<times> 'u) res"
  app_start :: "nat \<Rightarrow> int \<Rightarrow> request \<Rightarrow> bool \<Rightarrow> 'u \<Rightarrow> (bool \<times> h2_call list \<times> 'u) res"
  app_data :: "nat \<Rightarrow> int \<Rightarrow> bytes \<Rightarrow> bool \<Rightarrow> 'u \<Rightarrow> (h2_call list \<times> 'u) res"
  app_push_provider :: "nat \<Rightarrow> request \<Rightarrow> 'u \<Rightarrow> ((request \<times> response) list \<times> 'u) res"
  app_push :: "nat \<Rightarrow> push_promise_info \<Rightarrow> 'u \<Rightarrow> (h2_call list \<times> 'u) res"
  app_resume :: "nat \<Rightarrow> 'u \<Rightarrow> h2_call list \<times> 'u"

definition callback :: "(h2_call list \<times> 'u) res \<Rightarrow> 'u h2_session \<Rightarrow> 'u h2_session res" where
  "callback m s = bindE m (\<lambda>(calls, u). run_calls calls (s\<lparr>s_user := u\<rparr>))"

section \<open>Dispatch\<close>

fun submit_pushes :: "int \<Rightarrow> (request \<times> response) list \<Rightarrow> 'u h2_session \<Rightarrow> 'u h2_session res" where
  "submit_pushes sid [] s = Inr s"
| "submit_pushes sid ((req, resp) # ps) s =
     bindE (do_submit_push sid req resp s) (\<lambda>(_, s1). submit_pushes sid ps s1)"

definition respond_request :: "'u h2_app \<Rightarrow> int \<Rightarrow> 'u h2_session \<Rightarrow> 'u h2_session res" where
  "respond_request app sid s =
     (case s_request_handler s of
        Some h \<Rightarrow>
          bindE (app_request app h (ss_req (stream_at s sid)) (s_user s)) (\<lambda>(resp, u).
            let s1 = do_submit_response sid resp (s\<lparr>s_user := u\<rparr>)
            in case s_push_provider s1 of
                 Some p \<Rightarrow>
                   if s_peer_enable_push s1
                   then bindE (app_push_provider app p (ss_req (stream_at s1 sid)) (s_user s1)) (\<lambda>(pushes, u).
                          submit_pushes sid pushes (s1\<lparr>s_user := u\<rparr>))
                   else Inr s1
               | None \<Rightarrow> Inr s1)
      | None \<Rightarrow> Inr (do_submit_response sid response_not_found s))"

definition dispatch_request :: "'u h2_app \<Rightarrow> int \<Rightarrow> 'u h2_session \<Rightarrow> 'u h2_session res" where
  "dispatch_request app sid s =
     (let s1 = upd_stream sid (\<lambda>ss. ss\<lparr>ss_req := (ss_req ss)\<lparr>rq_bd := ss_body ss\<rparr>, ss_body := []\<rparr>) s
      in case s_streaming_request_handler s1 of
           Some h \<Rightarrow>
             bindE (app_streaming app h sid (ss_req (stream_at s1 sid)) (s_user s1)) (\<lambda>(took, r).
               bindE (callback (Inr r) s1) (\<lambda>s2. if took then Inr s2 else respond_request app sid s2))
         | None \<Rightarrow> respond_request app sid s1)"

text \<open>
  The promise is completed and its waiter resumed.  The response is moved into the promise; what is
  left in the stream is an empty response with the same status.
\<close>

definition complete_promise :: "'u h2_app \<Rightarrow> int \<Rightarrow> 'u h2_session \<Rightarrow> 'u h2_session res" where
  "complete_promise app sid s =
     (let ss = stream_at s sid;
          resp = (ss_resp ss)\<lparr>rs_bd := ss_body ss\<rparr>;
          s1 = upd_stream sid (\<lambda>ss. ss\<lparr>ss_resp := resp, ss_body := []\<rparr>) s
      in case ss_promise ss of
           None \<Rightarrow> Inr s1
         | Some p \<Rightarrow>
             (case s_promises s1 p of
                None \<Rightarrow> Inr s1
              | Some pr \<Rightarrow>
                  (let s2 = upd_stream sid (\<lambda>ss. ss\<lparr>ss_resp := resp\<lparr>rs_hdrs := [], rs_bd := [], rs_trailers := []\<rparr>\<rparr>)
                         (s1\<lparr>s_promises := (s_promises s1)(p := Some (pr\<lparr>pr_resp := resp, pr_complete := True\<rparr>)),
                            s_completed_promises := s_completed_promises s1 @ [p]\<rparr>)
                   in case pr_waiter pr of
                        Some w \<Rightarrow> callback (Inr (app_resume app w (s_user s2))) s2
                      | None \<Rightarrow> Inr s2)))"

section \<open>Received headers\<close>

definition is_pseudo :: "bytes \<Rightarrow> bool" where
  "is_pseudo name \<longleftrightarrow> name \<noteq> [] \<and> hd name = 0x3A"

definition split_path :: "bytes \<Rightarrow> request \<Rightarrow> request" where
  "split_path val req =
     (let req1 = (case find_sub (str ''?'') val of
                    Some qpos \<Rightarrow> req\<lparr>rq_path := take qpos val, rq_query := drop (qpos + 1) val\<rparr>
                  | None \<Rightarrow> req\<lparr>rq_path := val\<rparr>)
      in if rq_path req1 = [] then req1\<lparr>rq_path := str ''/''\<rparr> else req1)"

fun apply_request_header :: "bytes \<times> bytes \<Rightarrow> request \<Rightarrow> request" where
  "apply_request_header (name, val) req =
     (if name = str '':method'' then
        (case parse_method val of Some m \<Rightarrow> req\<lparr>rq_method := m\<rparr> | None \<Rightarrow> req)
      else if name = str '':path'' then split_path val req
      else if name = str '':scheme'' then req
      else if name = str '':authority'' then req\<lparr>rq_hdrs := hdrs_append (str ''Host'') val (rq_hdrs req)\<rparr>
      else if \<not> is_pseudo name then req\<lparr>rq_hdrs := hdrs_append name val (rq_hdrs req)\<rparr>
      else req)"

fun apply_response_header :: "bytes \<times> bytes \<Rightarrow> response \<Rightarrow> response" where
  "apply_response_header (name, val) resp =
     (if name = str '':status'' then
        resp\<lparr>rs_status := (case from_chars_signed 32 val of Some code \<Rightarrow> code | None \<Rightarrow> 0)\<rparr>
      else if \<not> is_pseudo name then resp\<lparr>rs_hdrs := hdrs_append name val (rs_hdrs resp)\<rparr>
      else resp)"

definition apply_headers ::
  "'u h2_app \<Rightarrow> int \<Rightarrow> (bytes \<times> bytes) list \<Rightarrow> bool \<Rightarrow> 'u h2_session \<Rightarrow> 'u h2_session res" where
  "apply_headers app sid hdrs end_stream s =
     (let s1 = upd_stream sid (\<lambda>ss. ss\<lparr>ss_headers_complete := True,
                 ss_req := (fold apply_request_header hdrs (ss_req ss))\<lparr>rq_ver := HTTP_2\<rparr>\<rparr>) s;
          s2 = (if end_stream then upd_stream sid (\<lambda>ss. ss\<lparr>ss_end_stream := True\<rparr>) s1 else s1)
      in case s_request_start_handler s2 of
           Some h \<Rightarrow>
             bindE (app_start app h sid (ss_req (stream_at s2 sid)) end_stream (s_user s2)) (\<lambda>(took, r).
               bindE (callback (Inr r) s2) (\<lambda>s3.
                   if took then Inr (upd_stream sid (\<lambda>ss. ss\<lparr>ss_streaming_handled := True\<rparr>) s3)
                   else if end_stream then dispatch_request app sid s3 else Inr s3))
         | None \<Rightarrow> if end_stream then dispatch_request app sid s2 else Inr s2)"

definition apply_response_headers ::
  "'u h2_app \<Rightarrow> int \<Rightarrow> (bytes \<times> bytes) list \<Rightarrow> bool \<Rightarrow> 'u h2_session \<Rightarrow> 'u h2_session res" where
  "apply_response_headers app sid hdrs end_stream s =
     (let s1 = upd_stream sid (\<lambda>ss. ss\<lparr>ss_headers_complete := True,
                 ss_resp := (fold apply_response_header hdrs (ss_resp ss))\<lparr>rs_ver := HTTP_2\<rparr>\<rparr>) s
      in if end_stream
         then complete_promise app sid (upd_stream sid (\<lambda>ss. ss\<lparr>ss_end_stream := True\<rparr>) s1)
         else Inr s1)"

definition decode_block :: "bytes \<Rightarrow> 'u h2_session \<Rightarrow> ((bytes \<times> bytes) list \<times> 'u h2_session) res" where
  "decode_block block s =
     bindE (hpack_decode (s_decoder s) block) (\<lambda>(hdrs, dec). Inr (hdrs, s\<lparr>s_decoder := dec\<rparr>))"

section \<open>Frame handlers\<close>

text \<open>The payload without its padding, or the error that ends the connection.\<close>

definition strip_padding :: "h2_frame \<Rightarrow> h2_error + bytes" where
  "strip_padding f =
     (if has_flag (fr_hdr f) FLAG_PADDED then
        (case fr_payload f of
           [] \<Rightarrow> Inl FRAME_SIZE_ERROR
         | pad # rest \<Rightarrow>
             if length (fr_payload f) < 1 + unat pad then Inl PROTOCOL_ERROR
             else Inr (take (length rest - unat pad) rest))
      else Inr (fr_payload f))"

text \<open>Refill a receive window that has dropped below half: the new window and the update to send.\<close>

definition refill :: "int \<Rightarrow> int \<Rightarrow> int \<times> bytes" where
  "refill sid window =
     (if window < DEFAULT_WINDOW_SIZE div 2
      then (let increment = (of_int (DEFAULT_WINDOW_SIZE - window) :: u32)
            in (window + uint increment, build_window_update sid increment))
      else (window, []))"

definition handle_data :: "'u h2_app \<Rightarrow> h2_frame \<Rightarrow> 'u h2_session \<Rightarrow> 'u h2_session res" where
  "handle_data app f s =
     (let sid = fh_stream_id (fr_hdr f); fin = has_flag (fr_hdr f) FLAG_END_STREAM
      in if sid = 0 then Inr (h2_goaway PROTOCOL_ERROR ''DATA on stream 0'' s)
         else case s_streams s sid of
           None \<Rightarrow> Inr (enqueue (build_rst_stream sid STREAM_CLOSED) s)
         | Some ss \<Rightarrow>
             (case strip_padding f of
                Inl ec \<Rightarrow> Inr (h2_goaway ec '''' s)
              | Inr data \<Rightarrow>
                  bindE
                    (case ss_data_cb ss of
                       Some cb \<Rightarrow> callback (app_data app cb sid data fin (s_user s)) s
                     | None \<Rightarrow> Inr (upd_stream sid (\<lambda>ss. ss\<lparr>ss_body := ss_body ss @ data\<rparr>) s))
                    (\<lambda>s1.
                      let (cw, cout) = refill 0 (s_conn_recv_window s1 - int (length data));
                          (sw, sout) = refill sid (ss_recv_window (stream_at s1 sid) - int (length data));
                          s2 = upd_stream sid (\<lambda>ss. ss\<lparr>ss_recv_window := sw\<rparr>)
                                 (enqueue (cout @ sout) (s1\<lparr>s_conn_recv_window := cw\<rparr>))
                      in if fin then
                           (let s3 = upd_stream sid (\<lambda>ss. ss\<lparr>ss_end_stream := True\<rparr>) s2
                            in if s_mode s3 = Server
                               then (if ss_streaming_handled (stream_at s3 sid) then Inr s3
                                     else dispatch_request app sid s3)
                               else complete_promise app sid s3)
                         else Inr s2)))"

definition strip_priority :: "h2_frame \<Rightarrow> bytes \<Rightarrow> h2_error + bytes" where
  "strip_priority f data =
     (if has_flag (fr_hdr f) FLAG_PRIORITY
      then (if length data < 5 then Inl FRAME_SIZE_ERROR else Inr (drop 5 data))
      else Inr data)"

text \<open>A block that needs CONTINUATION frames is kept in the stream.\<close>

definition begin_continuation :: "int \<Rightarrow> bytes \<Rightarrow> bool \<Rightarrow> 'u h2_session \<Rightarrow> 'u h2_session" where
  "begin_continuation sid block fin s =
     (upd_stream sid (\<lambda>ss. ss\<lparr>ss_pending := block, ss_end_stream := (ss_end_stream ss \<or> fin)\<rparr>) s)
       \<lparr>s_continuation_stream := sid\<rparr>"

definition handle_headers_server ::
  "'u h2_app \<Rightarrow> int \<Rightarrow> bytes \<Rightarrow> bool \<Rightarrow> bool \<Rightarrow> 'u h2_session \<Rightarrow> 'u h2_session res" where
  "handle_headers_server app sid block end_headers fin s =
     (if (case s_streams s sid of Some ss \<Rightarrow> ss_streaming_handled ss | None \<Rightarrow> False) \<and> fin then
        bindE (case ss_data_cb (stream_at s sid) of
                 Some cb \<Rightarrow> callback (app_data app cb sid [] True (s_user s)) s
               | None \<Rightarrow> Inr s)
          (\<lambda>s1. Inr (upd_stream sid (\<lambda>ss. ss\<lparr>ss_end_stream := True\<rparr>) s1))
      else let s1 = (set_stream sid ((stream_at s sid)\<lparr>ss_id := sid, ss_state := Open\<rparr>) s)
                      \<lparr>s_last_client_stream := max (s_last_client_stream s) sid\<rparr>
           in if end_headers
              then bindE (decode_block block s1) (\<lambda>(hdrs, s2). apply_headers app sid hdrs fin s2)
              else Inr (begin_continuation sid block fin s1))"

definition handle_headers_client ::
  "'u h2_app \<Rightarrow> int \<Rightarrow> bytes \<Rightarrow> bool \<Rightarrow> bool \<Rightarrow> 'u h2_session \<Rightarrow> 'u h2_session res" where
  "handle_headers_client app sid block end_headers fin s =
     (case s_streams s sid of
        None \<Rightarrow> Inr s
      | Some ss \<Rightarrow>
          (case ss_data_cb ss of
             Some cb \<Rightarrow>
               if ss_headers_complete ss \<and> fin
               then bindE (callback (app_data app cb sid [] True (s_user s)) s)
                      (\<lambda>s1. bindE (decode_block block s1) (\<lambda>(hdrs, s2). apply_response_headers app sid hdrs fin s2))
               else if end_headers
               then bindE (decode_block block s) (\<lambda>(hdrs, s2). apply_response_headers app sid hdrs fin s2)
               else Inr (begin_continuation sid block fin s)
           | None \<Rightarrow>
               if end_headers
               then bindE (decode_block block s) (\<lambda>(hdrs, s2). apply_response_headers app sid hdrs fin s2)
               else Inr (begin_continuation sid block fin s)))"

definition handle_headers :: "'u h2_app \<Rightarrow> h2_frame \<Rightarrow> 'u h2_session \<Rightarrow> 'u h2_session res" where
  "handle_headers app f s =
     (let sid = fh_stream_id (fr_hdr f); end_headers = has_flag (fr_hdr f) FLAG_END_HEADERS;
          fin = has_flag (fr_hdr f) FLAG_END_STREAM
      in if sid = 0 then Inr (h2_goaway PROTOCOL_ERROR ''HEADERS on stream 0'' s)
         else case strip_padding f of
           Inl ec \<Rightarrow> Inr (h2_goaway ec '''' s)
         | Inr data \<Rightarrow>
             (case strip_priority f data of
                Inl ec \<Rightarrow> Inr (h2_goaway ec '''' s)
              | Inr block \<Rightarrow>
                  if s_mode s = Server then handle_headers_server app sid block end_headers fin s
                  else handle_headers_client app sid block end_headers fin s))"

definition handle_continuation :: "'u h2_app \<Rightarrow> h2_frame \<Rightarrow> 'u h2_session \<Rightarrow> 'u h2_session res" where
  "handle_continuation app f s =
     (let sid = fh_stream_id (fr_hdr f)
      in case s_streams s sid of
           None \<Rightarrow> Inr (h2_goaway PROTOCOL_ERROR ''CONTINUATION for unknown stream'' s)
         | Some ss \<Rightarrow>
             (let block = ss_pending ss @ fr_payload f;
                  s1 = upd_stream sid (\<lambda>ss. ss\<lparr>ss_pending := block\<rparr>) s
              in if has_flag (fr_hdr f) FLAG_END_HEADERS
                 then bindE (decode_block block (s1\<lparr>s_continuation_stream := 0\<rparr>)) (\<lambda>(hdrs, s2).
                        let s3 = upd_stream sid (\<lambda>ss. ss\<lparr>ss_pending := []\<rparr>) s2;
                            fin = ss_end_stream (stream_at s3 sid)
                        in if s_mode s3 = Server then apply_headers app sid hdrs fin s3
                           else apply_response_headers app sid hdrs fin s3)
                 else Inr s1))"

text \<open>The settings in order; \<open>False\<close> when one of them ends the connection.\<close>

fun apply_settings :: "setting_entry list \<Rightarrow> 'u h2_session \<Rightarrow> bool \<times> 'u h2_session" where
  "apply_settings [] s = (True, s)"
| "apply_settings (e # es) s =
     (case se_id e of
        HEADER_TABLE_SIZE \<Rightarrow>
          apply_settings es (s\<lparr>s_encoder := hpack_encoder_set_max (unat (se_value e)) (s_encoder s)\<rparr>)
      | INITIAL_WINDOW_SIZE \<Rightarrow>
          if 0x7FFFFFFF < se_value e then (False, h2_goaway FLOW_CONTROL_ERROR '''' s)
          else (let delta = uint (se_value e) - uint (s_peer_initial_window_size s)
                in apply_settings es
                     (s\<lparr>s_streams := (\<lambda>sid. map_option (\<lambda>ss. ss\<lparr>ss_send_window := ss_send_window ss + delta\<rparr>) (s_streams s sid)),
                        s_peer_initial_window_size := se_value e\<rparr>))
      | MAX_FRAME_SIZE \<Rightarrow>
          if se_value e < 16384 \<or> 16777215 < se_value e
          then (False, h2_goaway PROTOCOL_ERROR ''Invalid MAX_FRAME_SIZE'' s)
          else apply_settings es (s\<lparr>s_peer_max_frame_size := unat (se_value e)\<rparr>)
      | ENABLE_PUSH \<Rightarrow> apply_settings es (s\<lparr>s_peer_enable_push := (se_value e \<noteq> 0)\<rparr>)
      | _ \<Rightarrow> apply_settings es s)"

definition handle_settings :: "h2_frame \<Rightarrow> 'u h2_session \<Rightarrow> 'u h2_session" where
  "handle_settings f s =
     (if fh_stream_id (fr_hdr f) \<noteq> 0 then h2_goaway PROTOCOL_ERROR ''SETTINGS on non-zero stream'' s
      else if has_flag (fr_hdr f) FLAG_ACK then s
      else if length (fr_payload f) mod SETTINGS_PARAM_SIZE \<noteq> 0 then h2_goaway FRAME_SIZE_ERROR '''' s
      else let (ok, s1) = apply_settings (h2_parse_settings (fr_payload f)) s
           in if ok then enqueue (h2_build_settings_frame [] True) s1 else s1)"

definition handle_ping :: "h2_frame \<Rightarrow> 'u h2_session \<Rightarrow> 'u h2_session" where
  "handle_ping f s =
     (if fh_stream_id (fr_hdr f) \<noteq> 0 then h2_goaway PROTOCOL_ERROR ''PING on non-zero stream'' s
      else if length (fr_payload f) \<noteq> 8 then h2_goaway FRAME_SIZE_ERROR '''' s
      else if has_flag (fr_hdr f) FLAG_ACK then s
      else enqueue (build_ping (fr_payload f) True) s)"

definition handle_window_update :: "h2_frame \<Rightarrow> 'u h2_session \<Rightarrow> 'u h2_session" where
  "handle_window_update f s =
     (let sid = fh_stream_id (fr_hdr f); increment = parse_window_update (fr_payload f)
      in if length (fr_payload f) \<noteq> 4 then h2_goaway FRAME_SIZE_ERROR '''' s
         else if increment = 0 then
           (if sid = 0 then h2_goaway PROTOCOL_ERROR ''WINDOW_UPDATE 0 increment'' s
            else enqueue (build_rst_stream sid PROTOCOL_ERROR) s)
         else if sid = 0 then
           (let s1 = s\<lparr>s_conn_send_window := s_conn_send_window s + uint increment\<rparr>
            in if MAX_WINDOW_SIZE < s_conn_send_window s1 then h2_goaway FLOW_CONTROL_ERROR '''' s1 else s1)
         else case s_streams s sid of
           None \<Rightarrow> s
         | Some ss \<Rightarrow>
             (let w = ss_send_window ss + uint increment;
                  s1 = upd_stream sid (\<lambda>ss. ss\<lparr>ss_send_window := w\<rparr>) s
              in if MAX_WINDOW_SIZE < w then enqueue (build_rst_stream sid FLOW_CONTROL_ERROR) s1 else s1))"

definition handle_goaway :: "h2_frame \<Rightarrow> 'u h2_session \<Rightarrow> 'u h2_session" where
  "handle_goaway f s = s\<lparr>s_alive := False\<rparr>"

definition handle_rst_stream :: "'u h2_app \<Rightarrow> h2_frame \<Rightarrow> 'u h2_session \<Rightarrow> 'u h2_session res" where
  "handle_rst_stream app f s =
     (let sid = fh_stream_id (fr_hdr f)
      in if length (fr_payload f) \<noteq> 4 then Inr (h2_goaway FRAME_SIZE_ERROR '''' s)
         else case s_streams s sid of
           None \<Rightarrow> Inr s
         | Some ss \<Rightarrow>
             bindE
               (case ss_promise ss of
                  None \<Rightarrow> Inr s
                | Some p \<Rightarrow>
                    (case s_promises s p of
                       None \<Rightarrow> Inr s
                     | Some pr \<Rightarrow>
                         (let s1 = s\<lparr>s_promises := (s_promises s)(p := Some (pr\<lparr>pr_error := True, pr_complete := True\<rparr>)),
                                     s_completed_promises := s_completed_promises s @ [p]\<rparr>
                          in case pr_waiter pr of
                               Some w \<Rightarrow> callback (Inr (app_resume app w (s_user s1))) s1
                             | None \<Rightarrow> Inr s1)))
               (\<lambda>s2. Inr (s2\<lparr>s_streams := (s_streams s2)(sid := None)\<rparr>)))"

fun apply_push_header :: "bytes \<times> bytes \<Rightarrow> request \<Rightarrow> request" where
  "apply_push_header (name, val) req =
     (if name = str '':method'' then
        (case parse_method val of Some m \<Rightarrow> req\<lparr>rq_method := m\<rparr> | None \<Rightarrow> req)
      else if name = str '':path'' then req\<lparr>rq_path := val\<rparr>
      else if name = str '':scheme'' then req
      else if name = str '':authority'' then req\<lparr>rq_hdrs := hdrs_append (str ''Host'') val (rq_hdrs req)\<rparr>
      else if \<not> is_pseudo name then req\<lparr>rq_hdrs := hdrs_append name val (rq_hdrs req)\<rparr>
      else req)"

definition handle_push_promise :: "'u h2_app \<Rightarrow> h2_frame \<Rightarrow> 'u h2_session \<Rightarrow> 'u h2_session res" where
  "handle_push_promise app f s =
     (if s_mode s = Server then Inr (h2_goaway PROTOCOL_ERROR ''PUSH_PROMISE on server'' s)
      else let pp = h2_parse_push_promise (fr_payload f)
           in bindE (decode_block (pp_header_block pp) s) (\<lambda>(hdrs, s1).
                let psid = pp_promised_stream_id pp;
                    info = \<lparr>pi_promised_stream_id = psid,
                            pi_promised_request = (fold apply_push_header hdrs request_default)\<lparr>rq_ver := HTTP_2\<rparr>\<rparr>;
                    (p, s2) = make_promise (promise_default\<lparr>pr_is_push := True, pr_push_info := info\<rparr>) s1;
                    s3 = set_stream psid ((stream_at s2 psid)\<lparr>ss_id := psid, ss_state := Open, ss_promise := Some p\<rparr>) s2
                in case s_push_handler s3 of
                     Some h \<Rightarrow> callback (app_push app h info (s_user s3)) s3
                   | None \<Rightarrow> Inr s3))"

definition process_frame :: "'u h2_app \<Rightarrow> h2_frame \<Rightarrow> 'u h2_session \<Rightarrow> 'u h2_session res" where
  "process_frame app f s =
     (if s_continuation_stream s \<noteq> 0 then
        (if fh_type (fr_hdr f) \<noteq> CONTINUATION \<or> fh_stream_id (fr_hdr f) \<noteq> s_continuation_stream s
         then Inr (h2_goaway PROTOCOL_ERROR ''Expected CONTINUATION'' s)
         else handle_continuation app f s)
      else case fh_type (fr_hdr f) of
        DATA \<Rightarrow> handle_data app f s
      | HEADERS \<Rightarrow> handle_headers app f s
      | PRIORITY \<Rightarrow> Inr s
      | RST_STREAM \<Rightarrow> handle_rst_stream app f s
      | SETTINGS \<Rightarrow> Inr (handle_settings f s)
      | PUSH_PROMISE \<Rightarrow> handle_push_promise app f s
      | PING \<Rightarrow> Inr (handle_ping f s)
      | GOAWAY \<Rightarrow> Inr (handle_goaway f s)
      | WINDOW_UPDATE \<Rightarrow> Inr (handle_window_update f s)
      | CONTINUATION \<Rightarrow> Inr (h2_goaway PROTOCOL_ERROR ''Unexpected CONTINUATION'' s)
      | Other_Frame _ \<Rightarrow> Inr s)"

section \<open>The feed loop\<close>

text \<open>
  After a frame has been taken the reader holds none, and no handler touches the reader, so the
  inner loop of the source runs at most once per round.
\<close>

definition process_available :: "'u h2_app \<Rightarrow> 'u h2_session \<Rightarrow> 'u h2_session res" where
  "process_available app s =
     (if h2_has_frame (s_reader s)
      then (let (f, r) = h2_take_frame (s_reader s) in process_frame app f (s\<lparr>s_reader := r\<rparr>))
      else Inr s)"

function h2_feed_loop :: "'u h2_app \<Rightarrow> bytes \<Rightarrow> nat \<Rightarrow> 'u h2_session \<Rightarrow> (nat \<times> 'u h2_session) res" where
  "h2_feed_loop app data count s =
     (if data = [] \<or> \<not> s_alive s then Inr (count, s)
      else let (r, consumed) = h2_reader_feed (s_reader s) data
           in bindE (process_available app (s\<lparr>s_reader := r\<rparr>)) (\<lambda>s1.
                if consumed = 0 then Inr (count, s1)
                else h2_feed_loop app (drop consumed data) (count + consumed) s1))"
  by pat_completeness auto
termination
  by (relation "measure (\<lambda>(_, data, _, _). length data)") auto

declare h2_feed_loop.simps [simp del]

definition h2_feed :: "'u h2_app \<Rightarrow> bytes \<Rightarrow> 'u h2_session \<Rightarrow> (int \<times> 'u h2_session) res" where
  "h2_feed app data s =
     (if \<not> s_alive s then Inr (-1, s)
      else bindE (h2_feed_loop app data 0
                    (if s_mode s = Server then s\<lparr>s_preface_received := True\<rparr> else s))
             (\<lambda>(count, s1). Inr (int count, s1)))"

section \<open>Flushing\<close>

text \<open>
  Each element of the list is one completed \<^verbatim>\<open>co_await fn(...)\<close>: the number the transport returns and
  the calls other tasks made on the session in the meantime.  The result is the wire data, whether
  everything was sent, and the session; \<open>None\<close> when the list ends before the flush does.  The
  transport returns at most the number of bytes it was given.
\<close>

fun flush_loop ::
  "(int \<times> h2_call list) list \<Rightarrow> bytes \<Rightarrow> bytes \<Rightarrow> 'u h2_session \<Rightarrow> (bytes \<times> bool \<times> 'u h2_session) option res"
where
  "flush_loop sends wire data s =
     (if data = [] then
        (let (data', s1) = get_pending_output s
         in if data' = [] then Inr (Some (wire, True, s1\<lparr>s_flushing := False\<rparr>))
            else case sends of
              [] \<Rightarrow> Inr None
            | (n, calls) # rest \<Rightarrow>
                bindE (run_calls calls s1) (\<lambda>s2.
                  if n \<le> 0 then Inr (Some (wire, False, s2\<lparr>s_flushing := False\<rparr>))
                  else flush_loop rest (wire @ take (nat n) data') (drop (nat n) data') s2))
      else case sends of
        [] \<Rightarrow> Inr None
      | (n, calls) # rest \<Rightarrow>
          bindE (run_calls calls s) (\<lambda>s2.
            if n \<le> 0 then Inr (Some (wire, False, s2\<lparr>s_flushing := False\<rparr>))
            else flush_loop rest (wire @ take (nat n) data) (drop (nat n) data) s2))"

declare flush_loop.simps [simp del]

definition h2_flush ::
  "(int \<times> h2_call list) list \<Rightarrow> 'u h2_session \<Rightarrow> (bytes \<times> bool \<times> 'u h2_session) option res" where
  "h2_flush sends s =
     (if s_flushing s then Inr (Some ([], True, s))
      else flush_loop sends [] [] (s\<lparr>s_flushing := True\<rparr>))"

end
