(* ===== verification/H2_Invariant.thy ===== *)
theory H2_Invariant
  imports H2_Session
begin

text \<open>
  What holds of every HTTP/2 session: the invariant of the connection state over all reachable
  sessions, independence of the result from how the transport cuts the byte stream, and the order and
  completeness of what a flush sends.
\<close>

section \<open>Quiet steps\<close>

text \<open>
  Submissions, callbacks and dispatch never touch the reader, the mode, the flow-control counters or
  the frame size limit, never remove a stream, and never make a dead session alive again.  They keep
  the compression tables and the promise store consistent.
\<close>

definition tables_ok :: "'u h2_session \<Rightarrow> bool" where
  "tables_ok s \<longleftrightarrow> dt_inv (en_table (s_encoder s)) \<and> dt_inv (de_table (s_decoder s)) \<and>
     en_max_table_size (s_encoder s) < 2 ^ 32"

definition promises_ok :: "'u h2_session \<Rightarrow> bool" where
  "promises_ok s \<longleftrightarrow>
     (\<forall>sid ss p. s_streams s sid = Some ss \<longrightarrow> ss_promise ss = Some p \<longrightarrow> s_promises s p \<noteq> None) \<and>
     (\<forall>p. s_promises s p \<noteq> None \<longrightarrow> p < s_next_promise s)"

definition quiet :: "'u h2_session \<Rightarrow> 'u h2_session \<Rightarrow> bool" where
  "quiet s s' \<longleftrightarrow>
     s_reader s' = s_reader s \<and> s_mode s' = s_mode s \<and> s_preface_received s' = s_preface_received s \<and>
     s_flushing s' = s_flushing s \<and> s_conn_recv_window s' = s_conn_recv_window s \<and>
     s_conn_send_window s' = s_conn_send_window s \<and> s_peer_max_frame_size s' = s_peer_max_frame_size s \<and>
     s_continuation_stream s' = s_continuation_stream s \<and>
     (s_alive s' \<longleftrightarrow> s_alive s) \<and>
     (\<forall>sid. s_streams s sid \<noteq> None \<longrightarrow> s_streams s' sid \<noteq> None) \<and>
     (\<forall>sid ss. s_streams s' sid = Some ss \<longrightarrow> ss_recv_window ss = ss_recv_window (stream_at s sid)) \<and>
     (tables_ok s \<longrightarrow> tables_ok s') \<and> (promises_ok s \<longrightarrow> promises_ok s')"

named_theorems quiet_intros \<open>quiet operations\<close>

lemma quiet_refl [simp, quiet_intros]: "quiet s s"
  by (simp add: quiet_def stream_at_def)

lemma quiet_trans:
  assumes "quiet s t" and "quiet t u"
  shows "quiet s u"
proof -
  have "ss_recv_window (stream_at t sid) = ss_recv_window (stream_at s sid)" if "s_streams t sid \<noteq> None \<or> s_streams s sid = None" for sid
    using assms(1) that by (auto simp: quiet_def stream_at_def split: option.splits)
  then show ?thesis
    using assms unfolding quiet_def by (smt (verit) option.exhaust)
qed

text \<open>The record updates that are quiet by themselves.\<close>

lemma quiet_fields:
  "quiet s (s\<lparr>s_output := d\<rparr>)" "quiet s (s\<lparr>s_user := u\<rparr>)" "quiet s (s\<lparr>s_request_handler := h\<rparr>)"
  "quiet s (s\<lparr>s_streaming_request_handler := h\<rparr>)" "quiet s (s\<lparr>s_request_start_handler := h\<rparr>)"
  "quiet s (s\<lparr>s_push_provider := h\<rparr>)" "quiet s (s\<lparr>s_push_handler := h\<rparr>)" "quiet s (s\<lparr>s_completed_promises := c\<rparr>)"
  "quiet s (s\<lparr>s_next_stream_id := i\<rparr>)" "quiet s (s\<lparr>s_next_push_stream_id := i\<rparr>)"
  "quiet s (s\<lparr>s_last_client_stream := i\<rparr>)"
  by (simp_all add: quiet_def stream_at_def tables_ok_def promises_ok_def)

lemmas quiet_field_intros [quiet_intros] = quiet_fields [THEN quiet_trans [rotated]]

lemma quiet_enqueue [quiet_intros]: "quiet s t \<Longrightarrow> quiet s (enqueue d t)"
  unfolding enqueue_def by (rule quiet_intros)

lemma quiet_upd_stream [quiet_intros]:
  assumes "quiet s t" and "\<And>ss. ss_recv_window (f ss) = ss_recv_window ss \<and> ss_promise (f ss) = ss_promise ss"
  shows "quiet s (upd_stream sid f t)"
proof (rule quiet_trans [OF assms(1)])
  have f [simp]: "ss_recv_window (f ss) = ss_recv_window ss" "ss_promise (f ss) = ss_promise ss" for ss
    using assms(2) by simp_all
  have "promises_ok t \<Longrightarrow> promises_ok (upd_stream sid f t)"
    by (simp add: promises_ok_def upd_stream_def) fastforce
  then show "quiet t (upd_stream sid f t)"
    by (simp add: quiet_def upd_stream_def stream_at_def tables_ok_def) auto
qed

lemma quiet_set_stream [quiet_intros]:
  assumes "quiet s t" and "ss_recv_window ss = ss_recv_window (stream_at t sid)"
    and "\<And>p. promises_ok t \<Longrightarrow> ss_promise ss = Some p \<Longrightarrow> s_promises t p \<noteq> None"
  shows "quiet s (set_stream sid ss t)"
proof (rule quiet_trans [OF assms(1)])
  have "promises_ok (set_stream sid ss t)" if ok: "promises_ok t"
    using ok assms(3) [OF ok] unfolding promises_ok_def set_stream_def
    by (simp split: if_split)
  moreover have "s_streams (set_stream sid ss t) k = Some x \<Longrightarrow> ss_recv_window x = ss_recv_window (stream_at t k)" for k x
    using assms(2) by (cases "k = sid") (simp_all add: set_stream_def stream_at_def)
  ultimately show "quiet t (set_stream sid ss t)"
    unfolding quiet_def by (simp add: set_stream_def tables_ok_def)
qed

lemma quiet_encoder [quiet_intros]:
  "quiet s t \<Longrightarrow> hpack_encode hs (s_encoder t) = (b, e) \<Longrightarrow> quiet s (t\<lparr>s_encoder := e\<rparr>)"
  by (erule quiet_trans) (auto simp: quiet_def tables_ok_def promises_ok_def stream_at_def hpack_encode_def)

lemma quiet_close [quiet_intros]: "quiet s t \<Longrightarrow> quiet s (close_stream sid t)"
  unfolding close_stream_def by (auto intro: quiet_intros)

lemma quiet_callback_slot [quiet_intros]: "quiet s t \<Longrightarrow> quiet s (set_data_callback sid cb t)"
  unfolding set_data_callback_def by (auto intro: quiet_intros)

lemma quiet_enqueue_headers [quiet_intros]: "quiet s t \<Longrightarrow> quiet s (enqueue_headers sid fl hs t)"
  by (auto simp: enqueue_headers_def build_headers_frame_def Let_def intro!: quiet_intros split: prod.splits)

lemma quiet_make_promise:
  assumes "quiet s t" and "make_promise p t = (i, t')"
  shows "quiet s t'"
proof (rule quiet_trans [OF assms(1)])
  show "quiet t t'"
    using assms(2)
    by (auto simp: make_promise_def quiet_def tables_ok_def promises_ok_def stream_at_def less_Suc_eq)
qed

lemma quiet_submit_response [quiet_intros]: "quiet s t \<Longrightarrow> quiet s (do_submit_response sid resp t)"
  by (auto simp: do_submit_response_def Let_def intro!: quiet_intros)

lemma quiet_submits [quiet_intros]:
  "quiet s t \<Longrightarrow> quiet s (do_submit_response_headers sid resp t)"
  "quiet s t \<Longrightarrow> quiet s (do_submit_data sid d fin t)"
  "quiet s t \<Longrightarrow> quiet s (do_submit_trailers sid tr t)"
  by (auto simp: do_submit_response_headers_def do_submit_data_def do_submit_trailers_def Let_def
      intro!: quiet_intros)


lemma promises_ok_at: "promises_ok t \<Longrightarrow> ss_promise (stream_at t sid) = Some p \<Longrightarrow> s_promises t p \<noteq> None"
  by (auto simp: promises_ok_def stream_at_def stream_default_def split: option.splits)

lemma promises_ok_fields [simp]:
  "promises_ok (t\<lparr>s_next_stream_id := i\<rparr>) = promises_ok t" "promises_ok (t\<lparr>s_output := d\<rparr>) = promises_ok t"
  by (simp_all add: promises_ok_def)

lemma quiet_submit_request:
  assumes "quiet s t" and "do_submit_request req p ne t = Inr (sid, t')"
    and "\<And>i. promises_ok t \<Longrightarrow> p = Some i \<Longrightarrow> s_promises t i \<noteq> None"
  shows "quiet s t'"
  using assms(1,2)
  by (auto simp: do_submit_request_def Let_def dest: assms(3) intro!: quiet_intros split: if_splits)

lemma quiet_submit_push:
  assumes "quiet s t" and "do_submit_push par req resp t = Inr (sid, t')"
  shows "quiet s t'"
  using assms
  by (auto simp: do_submit_push_def Let_def dest: promises_ok_at intro!: quiet_intros
      split: if_splits prod.splits)

lemma quiet_run_call:
  assumes "quiet s t" and "run_call c t = Inr t'"
  shows "quiet s t'"
proof (cases c)
  case (Submit_Request req ne)
  obtain p t1 where mp: "make_promise promise_default t = (p, t1)" by force
  with assms(2) Submit_Request obtain sid where sub: "do_submit_request req (Some p) ne t1 = Inr (sid, t')"
    by (auto simp: bindE_eq_Inr_iff)
  have "s_promises t1 p \<noteq> None" using mp by (auto simp: make_promise_def)
  then show ?thesis
    by (intro quiet_submit_request [OF quiet_make_promise [OF assms(1) mp] sub]) simp
next
  case (Submit_Push par req resp)
  then show ?thesis using assms by (auto simp: bindE_eq_Inr_iff dest: quiet_submit_push)
qed (use assms in \<open>auto simp: get_pending_output_def take_completed_promises_def intro!: quiet_intros\<close>)

lemma quiet_run_calls: "quiet s t \<Longrightarrow> run_calls cs t = Inr t' \<Longrightarrow> quiet s t'"
  by (induction cs arbitrary: t) (auto simp: bindE_eq_Inr_iff dest: quiet_run_call)

lemma quiet_callback: "quiet s t \<Longrightarrow> callback r t = Inr t' \<Longrightarrow> quiet s t'"
  by (auto simp: callback_def bindE_eq_Inr_iff elim!: quiet_run_calls [rotated] intro: quiet_intros)

lemma quiet_submit_pushes: "quiet s t \<Longrightarrow> submit_pushes sid ps t = Inr t' \<Longrightarrow> quiet s t'"
  by (induction sid ps t rule: submit_pushes.induct) (auto simp: bindE_eq_Inr_iff dest: quiet_submit_push)

lemma quiet_respond: "quiet s t \<Longrightarrow> respond_request app sid t = Inr t' \<Longrightarrow> quiet s t'"
  by (auto simp: respond_request_def Let_def bindE_eq_Inr_iff intro!: quiet_intros
      elim!: quiet_submit_pushes [rotated] split: option.splits prod.splits if_splits)

lemma quiet_dispatch: "quiet s t \<Longrightarrow> dispatch_request app sid t = Inr t' \<Longrightarrow> quiet s t'"
  by (auto simp: dispatch_request_def Let_def bindE_eq_Inr_iff intro!: quiet_intros
      elim!: quiet_respond [rotated] quiet_callback [rotated] split: option.splits prod.splits if_splits)

lemma quiet_complete_promise_store [quiet_intros]:
  assumes "quiet s t" and "s_promises t p \<noteq> None"
  shows "quiet s (t\<lparr>s_promises := (s_promises t)(p \<mapsto> pr)\<rparr>)"
  using assms(1)
proof (rule quiet_trans)
  show "quiet t (t\<lparr>s_promises := (s_promises t)(p \<mapsto> pr)\<rparr>)"
    using assms(2) by (auto simp: quiet_def tables_ok_def promises_ok_def stream_at_def)
qed

lemma quiet_complete: "quiet s t \<Longrightarrow> complete_promise app sid t = Inr t' \<Longrightarrow> quiet s t'"
  by (auto simp: complete_promise_def Let_def intro!: quiet_intros elim!: quiet_callback [rotated]
      split: option.splits)

lemma quiet_apply_headers: "quiet s t \<Longrightarrow> apply_headers app sid hs fin t = Inr t' \<Longrightarrow> quiet s t'"
  by (auto simp: apply_headers_def Let_def bindE_eq_Inr_iff intro!: quiet_intros
      elim!: quiet_dispatch [rotated] quiet_callback [rotated] split: option.splits prod.splits if_splits)

lemma quiet_apply_response_headers: "quiet s t \<Longrightarrow> apply_response_headers app sid hs fin t = Inr t' \<Longrightarrow> quiet s t'"
  by (auto simp: apply_response_headers_def Let_def intro!: quiet_intros elim!: quiet_complete [rotated]
      split: if_splits)

section \<open>The session invariant\<close>

definition window_ok :: "int \<Rightarrow> bool" where
  "window_ok w \<longleftrightarrow> DEFAULT_WINDOW_SIZE div 2 \<le> w \<and> w \<le> DEFAULT_WINDOW_SIZE"

definition h2_inv :: "'u h2_session \<Rightarrow> bool" where
  "h2_inv s \<longleftrightarrow>
     16384 \<le> s_peer_max_frame_size s \<and> s_peer_max_frame_size s \<le> 16777215 \<and>
     window_ok (s_conn_recv_window s) \<and>
     (\<forall>sid ss. s_streams s sid = Some ss \<longrightarrow> window_ok (ss_recv_window ss)) \<and>
     (s_alive s \<longrightarrow> s_conn_send_window s \<le> MAX_WINDOW_SIZE) \<and>
     (s_continuation_stream s \<noteq> 0 \<longrightarrow> s_streams s (s_continuation_stream s) \<noteq> None) \<and>
     tables_ok s \<and> promises_ok s"

text \<open>A step of the connection: it keeps the invariant, the reader, the mode and the flags.\<close>

definition conn_step :: "'u h2_session \<Rightarrow> 'u h2_session \<Rightarrow> bool" where
  "conn_step s s' \<longleftrightarrow> (h2_inv s \<longrightarrow> h2_inv s') \<and> s_reader s' = s_reader s \<and> s_mode s' = s_mode s \<and>
     s_preface_received s' = s_preface_received s \<and> s_flushing s' = s_flushing s \<and> (s_alive s' \<longrightarrow> s_alive s)"

lemma conn_step_trans: "conn_step s t \<Longrightarrow> conn_step t u \<Longrightarrow> conn_step s u"
  by (simp add: conn_step_def)

lemma window_ok_stream_at:
  assumes "h2_inv s"
  shows "window_ok (ss_recv_window (stream_at s sid))"
  using assms by (auto simp: h2_inv_def stream_at_def stream_default_def window_ok_def split: option.splits)

lemma quiet_inv:
  assumes "quiet s t" and "h2_inv s"
  shows "h2_inv t"
proof -
  have "window_ok (ss_recv_window ss)" if "s_streams t sid = Some ss" for sid ss
    using assms that window_ok_stream_at [OF assms(2), of sid] by (simp add: quiet_def)
  then show ?thesis
    using assms unfolding h2_inv_def quiet_def by simp
qed

lemma quiet_conn_step: "quiet s t \<Longrightarrow> conn_step s t"
  using quiet_inv by (auto simp: conn_step_def) (simp_all add: quiet_def)

lemma conn_step_quiet: "conn_step s t \<Longrightarrow> quiet t u \<Longrightarrow> conn_step s u"
  using conn_step_trans quiet_conn_step by blast

lemma conn_step_refl [simp]: "conn_step s s"
  by (simp add: conn_step_def)

lemma conn_step_goaway: "conn_step s t \<Longrightarrow> conn_step s (h2_goaway ec d t)"
  by (erule conn_step_trans)
     (auto simp: conn_step_def h2_inv_def h2_goaway_def enqueue_def tables_ok_def promises_ok_def)

text \<open>Decoding a header block keeps the decoder's table consistent.\<close>

lemma hpack_decode_loop_inv:
  "dt_inv t \<Longrightarrow> hpack_decode_loop t data res new = Inr (hs, t') \<Longrightarrow> dt_inv t'"
proof (induction t data res new rule: hpack_decode_loop.induct)
  case (1 t data res new)
  note unfold = hpack_decode_loop.simps [of t data res new]
  have fold: "dt_inv (fold dt_add new t)"
    using hpack_table.add_all [OF 1(5)] by blast
  have resize: "dt_inv (dt_resize n t)" for n
    using hpack_table.resize_ok [OF 1(5)] .
  show ?case
    using 1(6) 1(1-5) fold resize
    by (auto simp: unfold bindE_eq_Inr_iff split: if_splits option.splits prod.splits)
qed

lemma quiet_decode_block:
  assumes "quiet s t" and "decode_block b t = Inr (hs, t')"
  shows "quiet s t'"
proof (rule quiet_trans [OF assms(1)])
  from assms(2) obtain d where d: "hpack_decode (s_decoder t) b = Inr (hs, d)" "t' = t\<lparr>s_decoder := d\<rparr>"
    by (auto simp: decode_block_def bindE_eq_Inr_iff)
  then have "dt_inv (de_table (s_decoder t)) \<Longrightarrow> dt_inv (de_table d)"
    using hpack_decode_loop_inv by (auto simp: hpack_decode_def bindE_eq_Inr_iff)
  then show "quiet t t'"
    using d(2) by (simp add: quiet_def tables_ok_def promises_ok_def stream_at_def)
qed


lemma uint_of_int_32: "0 \<le> k \<Longrightarrow> k < 2 ^ 32 \<Longrightarrow> uint (of_int k :: u32) = k"
  by (simp add: unsigned_of_int take_bit_int_eq_self)

lemma refill_ok:
  assumes "window_ok w" and "n < 2 ^ 24"
  shows "window_ok (fst (refill sid (w - int n)))"
proof (cases "w - int n < DEFAULT_WINDOW_SIZE div 2")
  case True
  have "uint (of_int (DEFAULT_WINDOW_SIZE - (w - int n)) :: u32) = DEFAULT_WINDOW_SIZE - (w - int n)"
    using assms True by (intro uint_of_int_32) (simp_all add: window_ok_def)
  then show ?thesis using True by (simp add: refill_def window_ok_def Let_def)
qed (use assms in \<open>auto simp: refill_def window_ok_def\<close>)

lemma conn_step_enqueue: "conn_step s t \<Longrightarrow> conn_step s (enqueue d t)"
  by (erule conn_step_quiet) (intro quiet_intros)

lemma conn_step_recv:
  assumes "h2_inv t \<Longrightarrow> window_ok cw" and "h2_inv t \<Longrightarrow> window_ok sw"
  shows "conn_step t (upd_stream sid (\<lambda>ss. ss\<lparr>ss_recv_window := sw\<rparr>) (enqueue d (t\<lparr>s_conn_recv_window := cw\<rparr>)))"
proof -
  have "h2_inv (upd_stream sid (\<lambda>ss. ss\<lparr>ss_recv_window := sw\<rparr>) (enqueue d (t\<lparr>s_conn_recv_window := cw\<rparr>)))"
    if "h2_inv t"
    using that assms [OF that]
    by (auto simp: h2_inv_def upd_stream_def enqueue_def tables_ok_def promises_ok_def)
  then show ?thesis
    by (simp add: conn_step_def upd_stream_def enqueue_def)
qed

lemma handle_data_step:
  assumes "handle_data app f s = Inr s'" and "length (fr_payload f) < 2 ^ 24"
  shows "conn_step s s'"
proof -
  define sid where "sid = fh_stream_id (fr_hdr f)"
  show ?thesis
  proof (cases "sid = 0 \<or> s_streams s sid = None \<or> (\<exists>ec. strip_padding f = Inl ec)")
    case True
    then show ?thesis
      using assms(1) by (auto simp: handle_data_def Let_def sid_def intro!: conn_step_goaway conn_step_enqueue split: option.splits if_splits)
  next
    case False
    then obtain ss data where ss: "s_streams s sid = Some ss" and data: "strip_padding f = Inr data" and "sid \<noteq> 0"
      by (cases "strip_padding f") auto
    then have len: "length data < 2 ^ 24"
      using assms(2) by (auto simp: strip_padding_def split: if_splits list.splits)
    define fin where "fin = has_flag (fr_hdr f) FLAG_END_STREAM"
    obtain s1 where deliver: "(case ss_data_cb ss of
          Some cb \<Rightarrow> callback (app_data app cb sid data fin (s_user s)) s
        | None \<Rightarrow> Inr (upd_stream sid (\<lambda>ss. ss\<lparr>ss_body := ss_body ss @ data\<rparr>) s)) = Inr s1"
      using assms(1) \<open>sid \<noteq> 0\<close> ss data
      by (auto simp: handle_data_def Let_def sid_def [symmetric] fin_def [symmetric] bindE_eq_Inr_iff)
    have q1: "quiet s s1"
      using deliver by (auto intro!: quiet_intros elim: quiet_callback [OF quiet_refl] split: option.splits)
    obtain cw cout where c: "refill 0 (s_conn_recv_window s1 - int (length data)) = (cw, cout)" by force
    obtain sw sout where w: "refill sid (ss_recv_window (stream_at s1 sid) - int (length data)) = (sw, sout)" by force
    define s2 where "s2 = upd_stream sid (\<lambda>ss. ss\<lparr>ss_recv_window := sw\<rparr>)
        (enqueue (cout @ sout) (s1\<lparr>s_conn_recv_window := cw\<rparr>))"
    have "conn_step s1 s2"
      unfolding s2_def
      using refill_ok [OF _ len, of "s_conn_recv_window s1" 0] refill_ok [OF window_ok_stream_at len, of s1 sid sid] c w
      by (intro conn_step_recv) (auto simp: h2_inv_def)
    then have st2: "conn_step s s2" using conn_step_trans quiet_conn_step [OF q1] by blast
    define s3 where "s3 = upd_stream sid (\<lambda>ss. ss\<lparr>ss_end_stream := True\<rparr>) s2"
    have run: "(if fin then (if s_mode s3 = Server
              then (if ss_streaming_handled (stream_at s3 sid) then Inr s3 else dispatch_request app sid s3)
              else complete_promise app sid s3) else Inr s2) = Inr s'"
      using assms(1) \<open>sid \<noteq> 0\<close> ss data deliver c w
      by (simp add: handle_data_def Let_def s2_def s3_def cong: if_cong flip: sid_def fin_def)
    have q23: "quiet s2 s3" unfolding s3_def by (intro quiet_intros) simp
    have end_quiet: "quiet s2 t" if "(if b then (if c then (if d then Inr s3 else dispatch_request app sid s3)
              else complete_promise app sid s3) else Inr s2) = Inr t" for b c d t
      using that q23 quiet_dispatch [OF q23] quiet_complete [OF q23] by (cases b; cases c; cases d) simp_all
    have "quiet s2 s'" by (rule end_quiet [OF run])
    then show ?thesis using st2 conn_step_quiet by blast
  qed
qed


lemma begin_continuation_step:
  assumes "s_streams s sid \<noteq> None"
  shows "conn_step s (begin_continuation sid b fin s)"
  using assms
  by (auto simp: conn_step_def begin_continuation_def upd_stream_def h2_inv_def tables_ok_def promises_ok_def)

lemma handle_headers_server_step:
  assumes "handle_headers_server app sid b eh fin s = Inr s'"
  shows "conn_step s s'"
proof -
  define s1 where "s1 = (set_stream sid ((stream_at s sid)\<lparr>ss_id := sid, ss_state := Open\<rparr>) s)
      \<lparr>s_last_client_stream := max (s_last_client_stream s) sid\<rparr>"
  have q: "quiet s s1"
    unfolding s1_def by (intro quiet_intros) (auto dest: promises_ok_at)
  have ex: "s_streams s1 sid \<noteq> None" by (simp add: s1_def set_stream_def)
  consider (trailers) "(case s_streams s sid of Some ss \<Rightarrow> ss_streaming_handled ss | None \<Rightarrow> False) \<and> fin"
    | (block) "\<not> ((case s_streams s sid of Some ss \<Rightarrow> ss_streaming_handled ss | None \<Rightarrow> False) \<and> fin)" eh
    | (part) "\<not> ((case s_streams s sid of Some ss \<Rightarrow> ss_streaming_handled ss | None \<Rightarrow> False) \<and> fin)" "\<not> eh"
    by blast
  then show ?thesis
  proof cases
    case trailers
    then have "quiet s s'"
      using assms by (auto simp: handle_headers_server_def bindE_eq_Inr_iff
          intro!: quiet_intros elim: quiet_callback [OF quiet_refl] split: option.splits)
    then show ?thesis by (rule quiet_conn_step)
  next
    case block
    then have "bindE (decode_block b s1) (\<lambda>(hdrs, s2). apply_headers app sid hdrs fin s2) = Inr s'"
      using assms block(2) unfolding handle_headers_server_def if_not_P [OF block(1)] s1_def by (simp only: Let_def if_True)
    then have "quiet s s'"
      using q by (auto simp: bindE_eq_Inr_iff dest: quiet_decode_block quiet_apply_headers)
    then show ?thesis by (rule quiet_conn_step)
  next
    case part
    then have "s' = begin_continuation sid b fin s1"
      using assms part(2) unfolding handle_headers_server_def if_not_P [OF part(1)] s1_def
      by (simp only: Let_def if_False sum.inject)
    then show ?thesis
      using begin_continuation_step [OF ex] q conn_step_trans quiet_conn_step by blast
  qed
qed

lemma handle_headers_client_step:
  assumes "handle_headers_client app sid b eh fin s = Inr s'"
  shows "conn_step s s'"
proof (cases "s_streams s sid")
  case None
  then show ?thesis using assms by (simp add: handle_headers_client_def)
next
  case (Some ss)
  have decoded: "quiet s s'" if "quiet s t" "bindE (decode_block b t) (\<lambda>(hdrs, s2). apply_response_headers app sid hdrs fin s2) = Inr s'" for t
    using that by (auto simp: bindE_eq_Inr_iff dest: quiet_decode_block quiet_apply_response_headers)
  have "quiet s s' \<or> s' = begin_continuation sid b fin s"
    using assms Some
    by (auto simp: handle_headers_client_def bindE_eq_Inr_iff split: option.splits if_splits
        dest: quiet_callback [OF quiet_refl] quiet_decode_block [OF quiet_refl] intro: decoded quiet_apply_response_headers
          elim!: quiet_apply_response_headers [rotated] quiet_decode_block [rotated])
  then show ?thesis
    using quiet_conn_step begin_continuation_step [of s sid b fin] Some by auto
qed

lemma handle_headers_step: "handle_headers app f s = Inr s' \<Longrightarrow> conn_step s s'"
  by (auto simp: handle_headers_def Let_def intro!: conn_step_goaway
      dest: handle_headers_server_step handle_headers_client_step split: if_splits sum.splits)

lemma handle_continuation_step:
  assumes "handle_continuation app f s = Inr s'"
  shows "conn_step s s'"
proof -
  define sid where "sid = fh_stream_id (fr_hdr f)"
  show ?thesis
  proof (cases "s_streams s sid")
    case None
    then show ?thesis using assms by (auto simp: handle_continuation_def sid_def intro!: conn_step_goaway)
  next
    case (Some ss)
    define b where "b = ss_pending ss @ fr_payload f"
    define s1 where "s1 = upd_stream sid (\<lambda>ss. ss\<lparr>ss_pending := b\<rparr>) s"
    have q: "quiet s s1" unfolding s1_def by (intro quiet_intros) simp
    have z: "conn_step s1 (s1\<lparr>s_continuation_stream := 0\<rparr>)"
      by (auto simp: conn_step_def h2_inv_def tables_ok_def promises_ok_def)
    show ?thesis
    proof (cases "has_flag (fr_hdr f) FLAG_END_HEADERS")
      case True
      then obtain hs s2 where d: "decode_block b (s1\<lparr>s_continuation_stream := 0\<rparr>) = Inr (hs, s2)"
        and run: "(let s3 = upd_stream sid (\<lambda>ss. ss\<lparr>ss_pending := []\<rparr>) s2; fin = ss_end_stream (stream_at s3 sid)
          in if s_mode s3 = Server then apply_headers app sid hs fin s3 else apply_response_headers app sid hs fin s3) = Inr s'"
        using assms Some
        by (auto simp: handle_continuation_def bindE_eq_Inr_iff Let_def simp flip: sid_def b_def s1_def)
      have "quiet s2 (upd_stream sid (\<lambda>ss. ss\<lparr>ss_pending := []\<rparr>) s2)"
        by (intro quiet_intros) simp
      then have "quiet s2 s'"
        using run by (auto simp: Let_def split: if_splits elim!: quiet_apply_headers [rotated] quiet_apply_response_headers [rotated])
      then have "quiet (s1\<lparr>s_continuation_stream := 0\<rparr>) s'"
        using quiet_decode_block [OF quiet_refl d] quiet_trans by blast
      then show ?thesis using q z conn_step_quiet conn_step_trans quiet_conn_step by blast
    next
      case False
      then have "s' = s1" using assms Some by (simp add: handle_continuation_def b_def s1_def sid_def)
      then show ?thesis using q quiet_conn_step by simp
    qed
  qed
qed


lemma apply_settings_step: "apply_settings es s = (ok, s') \<Longrightarrow> conn_step s s'"
proof (induction es arbitrary: s)
  case Nil
  then show ?case by simp
next
  case (Cons e es)
  have enc: "conn_step s (s\<lparr>s_encoder := hpack_encoder_set_max (unat (se_value e)) (s_encoder s)\<rparr>)"
    using unsigned_less [of "se_value e", where ?'a = nat] dt_resize_spec [of "en_table (s_encoder s)" "unat (se_value e)"]
    by (auto simp: conn_step_def h2_inv_def tables_ok_def promises_ok_def hpack_encoder_set_max_def)
  have win: "conn_step s (s\<lparr>s_streams := (\<lambda>sid. map_option (\<lambda>ss. ss\<lparr>ss_send_window := ss_send_window ss + d\<rparr>) (s_streams s sid)),
                        s_peer_initial_window_size := w\<rparr>)" for d w
    by (auto simp: conn_step_def h2_inv_def tables_ok_def promises_ok_def)
  have mx: "conn_step s (s\<lparr>s_peer_max_frame_size := unat (se_value e)\<rparr>)" if "\<not> se_value e < 16384" "\<not> 16777215 < se_value e"
    using that by (auto simp: conn_step_def h2_inv_def tables_ok_def promises_ok_def word_less_nat_alt)
  have push: "conn_step s (s\<lparr>s_peer_enable_push := b\<rparr>)" for b
    by (auto simp: conn_step_def h2_inv_def tables_ok_def promises_ok_def)
  have step: "conn_step s s'" if "conn_step s t" "apply_settings es t = (ok, s')" for t
    using that Cons.IH conn_step_trans by blast
  show ?case
    using Cons.prems step [OF enc] step [OF win] step [OF mx] step [OF push] step [OF conn_step_refl]
      conn_step_goaway [OF conn_step_refl, of s]
    by (cases "se_id e") (auto simp: Let_def split: if_splits)
qed

lemma simple_handler_steps:
  "conn_step s (handle_settings f s)" "conn_step s (handle_ping f s)" "conn_step s (handle_goaway f s)"
proof -
  show "conn_step s (handle_settings f s)"
    by (auto simp: handle_settings_def intro!: conn_step_goaway conn_step_enqueue dest: apply_settings_step split: prod.splits)
  show "conn_step s (handle_ping f s)"
    by (auto simp: handle_ping_def intro!: conn_step_goaway conn_step_enqueue)
  show "conn_step s (handle_goaway f s)"
    by (auto simp: handle_goaway_def conn_step_def h2_inv_def tables_ok_def promises_ok_def)
qed

lemma handle_window_update_step: "conn_step s (handle_window_update f s)"
proof -
  have conn: "conn_step s (s\<lparr>s_conn_send_window := w\<rparr>)" if "w \<le> MAX_WINDOW_SIZE" for w
    using that by (auto simp: conn_step_def h2_inv_def tables_ok_def promises_ok_def)
  have over: "conn_step s (h2_goaway ec d (s\<lparr>s_conn_send_window := w\<rparr>))" for w ec d
    by (auto simp: conn_step_def h2_inv_def tables_ok_def promises_ok_def h2_goaway_def enqueue_def)
  have strm: "conn_step s (upd_stream sid (\<lambda>ss. ss\<lparr>ss_send_window := w\<rparr>) s)" for sid w
    by (intro quiet_conn_step quiet_intros) simp
  show ?thesis
    using conn over strm
    by (auto simp: handle_window_update_def Let_def not_less intro!: conn_step_goaway conn_step_enqueue split: option.splits)
qed

lemma handle_rst_stream_step:
  assumes "handle_rst_stream app f s = Inr s'" and "s_continuation_stream s = 0"
  shows "conn_step s s'"
proof -
  define sid where "sid = fh_stream_id (fr_hdr f)"
  show ?thesis
  proof (cases "length (fr_payload f) \<noteq> 4 \<or> s_streams s sid = None")
    case True
    then show ?thesis
      using assms(1) by (auto simp: handle_rst_stream_def Let_def sid_def intro!: conn_step_goaway split: if_splits)
  next
    case False
    then obtain ss where ss: "length (fr_payload f) = 4" "s_streams s sid = Some ss" by auto
    obtain t where t: "(case ss_promise ss of
                  None \<Rightarrow> Inr s
                | Some p \<Rightarrow>
                    (case s_promises s p of
                       None \<Rightarrow> Inr s
                     | Some pr \<Rightarrow>
                         (let s1 = s\<lparr>s_promises := (s_promises s)(p := Some (pr\<lparr>pr_error := True, pr_complete := True\<rparr>)),
                                     s_completed_promises := s_completed_promises s @ [p]\<rparr>
                          in case pr_waiter pr of
                               Some w \<Rightarrow> callback (Inr (app_resume app w (s_user s1))) s1
                             | None \<Rightarrow> Inr s1))) = Inr t"
      and s': "s' = t\<lparr>s_streams := (s_streams t)(sid := None)\<rparr>"
      using assms(1) ss by (auto simp: handle_rst_stream_def Let_def bindE_eq_Inr_iff simp flip: sid_def)
    have q: "quiet s t"
      using t by (auto simp: Let_def intro!: quiet_intros elim!: quiet_callback [rotated] split: option.splits)
    have "s_continuation_stream t = 0" using q assms(2) by (simp add: quiet_def)
    then have "conn_step t s'"
      by (auto simp: s' conn_step_def h2_inv_def tables_ok_def promises_ok_def)
    then show ?thesis using q quiet_conn_step conn_step_trans by blast
  qed
qed

lemma handle_push_promise_step:
  assumes "handle_push_promise app f s = Inr s'"
  shows "conn_step s s'"
proof (cases "s_mode s = Server")
  case True
  then show ?thesis using assms by (auto simp: handle_push_promise_def intro!: conn_step_goaway)
next
  case False
  define pp where "pp = h2_parse_push_promise (fr_payload f)"
  obtain hs s1 where d: "decode_block (pp_header_block pp) s = Inr (hs, s1)"
    using assms False by (auto simp: handle_push_promise_def bindE_eq_Inr_iff pp_def Let_def)
  define info where "info = \<lparr>pi_promised_stream_id = pp_promised_stream_id pp,
      pi_promised_request = (fold apply_push_header hs request_default)\<lparr>rq_ver := HTTP_2\<rparr>\<rparr>"
  obtain p s2 where mp: "make_promise (promise_default\<lparr>pr_is_push := True, pr_push_info := info\<rparr>) s1 = (p, s2)" by force
  define s3 where "s3 = set_stream (pp_promised_stream_id pp)
     ((stream_at s2 (pp_promised_stream_id pp))\<lparr>ss_id := pp_promised_stream_id pp, ss_state := Open, ss_promise := Some p\<rparr>) s2"
  have "quiet s s2"
    using quiet_make_promise [OF quiet_decode_block [OF quiet_refl d] mp] .
  moreover have "s_promises s2 p \<noteq> None" using mp by (auto simp: make_promise_def)
  ultimately have q: "quiet s s3"
    unfolding s3_def by (intro quiet_intros) auto
  have "(case s_push_handler s3 of Some h \<Rightarrow> callback (app_push app h info (s_user s3)) s3 | None \<Rightarrow> Inr s3) = Inr s'"
    using assms False d mp by (simp add: handle_push_promise_def Let_def pp_def info_def s3_def cong: option.case_cong)
  then have "quiet s s'" using q by (auto split: option.splits dest: quiet_callback)
  then show ?thesis by (rule quiet_conn_step)
qed

lemma process_frame_step:
  assumes "process_frame app f s = Inr s'" and "length (fr_payload f) < 2 ^ 24"
  shows "conn_step s s'"
  using assms
  by (auto simp: process_frame_def intro!: conn_step_goaway simple_handler_steps handle_window_update_step
      dest: handle_continuation_step handle_data_step handle_headers_step handle_rst_stream_step handle_push_promise_step
      split: if_splits frame_type.splits)

section \<open>Feeding in pieces\<close>

text \<open>The reader's state after some bytes does not depend on how they were cut.\<close>

lemma copy_at_append:
  assumes "off + length a + length b \<le> length buf"
  shows "copy_at (copy_at buf off a) (off + length a) b = copy_at buf off (a @ b)"
proof (cases "length buf \<le> off")
  case True
  then have "length a = 0 \<and> length b = 0" using assms by linarith
  then show ?thesis by (simp add: copy_at_def)
next
  case False
  then show ?thesis using assms by (auto simp: copy_at_def min_def ac_simps)
qed

lemma feed_loop_full:
  assumes "h2_has_frame r"
  shows "h2_reader_feed_loop r data k = (r, k)"
  using assms by (subst h2_reader_feed_loop.simps) (simp add: h2_has_frame_def)

lemma feed_loop_header_part:
  assumes "h2_reader_ok r" and "rd_header_len r + length a < 9"
  shows "h2_reader_feed_loop r (a @ b) k =
    h2_reader_feed_loop (r\<lparr>rd_header_buf := copy_at (rd_header_buf r) (rd_header_len r) a,
        rd_header_len := rd_header_len r + length a\<rparr>) b (k + length a)"
proof (cases "b = []")
  case True
  let ?r1 = "r\<lparr>rd_header_buf := copy_at (rd_header_buf r) (rd_header_len r) a, rd_header_len := rd_header_len r + length a\<rparr>"
  have "h2_reader_feed_loop r a k = (?r1, k + length a)"
  proof (cases "a = []")
    case True
    then show ?thesis by (simp add: h2_reader_feed_loop.simps copy_at_def)
  next
    case False
    have "h2_reader_check ?r1 = ?r1" using assms(2) by (simp add: h2_reader_check_def)
    then show ?thesis
      using assms(2) False
      by (simp add: h2_reader_feed_loop.simps [of r a] h2_reader_feed_loop.simps [of ?r1 "[]"] Let_def)
  qed
  then show ?thesis using True by (simp add: h2_reader_feed_loop.simps [of _ "[]"])
next
  case False
  define n where "n = min (9 - (rd_header_len r + length a)) (length b)"
  have len: "length (rd_header_buf r) = 9" using assms(1) by (simp add: h2_reader_ok_def)
  have "min (9 - rd_header_len r) (length (a @ b)) = length a + n"
    using assms(2) by (simp add: n_def)
  moreover have "copy_at (copy_at (rd_header_buf r) (rd_header_len r) a) (rd_header_len r + length a) (take n b) =
      copy_at (rd_header_buf r) (rd_header_len r) (a @ take n b)"
    using assms(2) len by (intro copy_at_append) (auto simp: n_def)
  ultimately show ?thesis
    using False assms(2)
    by (simp add: h2_reader_feed_loop.simps [of r "a @ b"] h2_reader_feed_loop.simps [of _ b] Let_def n_def add.assoc)
qed

lemma feed_loop_payload_part:
  assumes "\<not> rd_header_len r < 9" and "rd_length r \<noteq> SIZE_MAX" and "length (rd_payload r) + length a < rd_length r"
  shows "h2_reader_feed_loop r (a @ b) k = h2_reader_feed_loop (r\<lparr>rd_payload := rd_payload r @ a\<rparr>) b (k + length a)"
proof (cases "a = []")
  case False
  have check: "h2_reader_check (r\<lparr>rd_payload := p\<rparr>) = r\<lparr>rd_payload := p\<rparr>" for p
    using assms(2) by (simp add: h2_reader_check_def)
  show ?thesis
  proof (cases "b = []")
    case True
    then show ?thesis
      using assms False check
      by (simp add: h2_reader_feed_loop.simps [of r a] h2_reader_feed_loop.simps [of _ "[]"] Let_def)
  next
    case False
    define n where "n = min (rd_length r - (length (rd_payload r) + length a)) (length b)"
    have "min (rd_length r - length (rd_payload r)) (length (a @ b)) = length a + n"
      using assms(3) by (simp add: n_def)
    then show ?thesis
      using False assms check
      by (simp add: h2_reader_feed_loop.simps [of r "a @ b"] h2_reader_feed_loop.simps [of _ b] Let_def n_def add.assoc)
  qed
qed simp

lemma feed_loop_append:
  assumes "h2_reader_ok r"
  shows "h2_reader_feed_loop r (a @ b) k =
    (case h2_reader_feed_loop r a k of (r1, c) \<Rightarrow> if h2_has_frame r1 then (r1, c) else h2_reader_feed_loop r1 b c)"
  using assms
proof (induction r a k rule: h2_reader_feed_loop.induct)
  case (1 r a k)
  note unfold = h2_reader_feed_loop.simps [of r a k] h2_reader_feed_loop.simps [of r "a @ b" k]
  consider (empty) "a = []" | (header) "a \<noteq> []" "rd_header_len r < 9"
    | (payload) "a \<noteq> []" "\<not> rd_header_len r < 9" "length (rd_payload r) < rd_length r"
    | (full) "a \<noteq> []" "\<not> rd_header_len r < 9" "\<not> length (rd_payload r) < rd_length r" by blast
  then show ?case
  proof cases
    case empty
    then show ?thesis by (simp add: h2_reader_feed_loop.simps [of r "[]"] feed_loop_full)
  next
    case header
    show ?thesis
    proof (cases "rd_header_len r + length a < 9")
      case True
      define r1 where "r1 = r\<lparr>rd_header_buf := copy_at (rd_header_buf r) (rd_header_len r) a, rd_header_len := rd_header_len r + length a\<rparr>"
      have "h2_reader_feed_loop r a k = (r1, k + length a)"
        using feed_loop_header_part [OF 1(3) True, of "[]" k] by (simp add: r1_def h2_reader_feed_loop.simps [of _ "[]"])
      moreover have "\<not> h2_has_frame r1" using True by (simp add: h2_has_frame_def r1_def)
      ultimately show ?thesis
        using feed_loop_header_part [OF 1(3) True, of b k] by (simp add: r1_def)
    next
      case False
      define n where "n = min (9 - rd_header_len r) (length a)"
      define r1 where "r1 = h2_reader_check (r\<lparr>rd_header_buf := copy_at (rd_header_buf r) (rd_header_len r) (take n a),
          rd_header_len := rd_header_len r + n\<rparr>)"
      have ok: "h2_reader_ok r1"
        unfolding r1_def using feed_header_step [OF 1(3) header(2), of "take n a" n] by (simp add: n_def)
      have n: "n = 9 - rd_header_len r" "n \<le> length a" "min (9 - rd_header_len r) (length (a @ b)) = n"
        using False by (auto simp: n_def)
      have "h2_reader_feed_loop r (a @ b) k = h2_reader_feed_loop r1 (drop n a @ b) (k + n)"
        "h2_reader_feed_loop r a k = h2_reader_feed_loop r1 (drop n a) (k + n)"
        using header n by (simp_all add: unfold Let_def r1_def)
      then show ?thesis
        using 1(1) [OF header n_def refl, folded r1_def, OF ok] by simp
    qed
  next
    case payload
    have "rd_length r \<noteq> SIZE_MAX"
      using 1(3) payload(2) fh_length_bound [of "rd_header_buf r"] by (auto simp: h2_reader_ok_def)
    show ?thesis
    proof (cases "length (rd_payload r) + length a < rd_length r")
      case True
      note part = feed_loop_payload_part [OF payload(2) \<open>rd_length r \<noteq> SIZE_MAX\<close> True]
      have "h2_reader_feed_loop r a k = (r\<lparr>rd_payload := rd_payload r @ a\<rparr>, k + length a)"
        using part [of "[]" k] by (simp add: h2_reader_feed_loop.simps [of _ "[]"])
      moreover have "\<not> h2_has_frame (r\<lparr>rd_payload := rd_payload r @ a\<rparr>)" using True by (simp add: h2_has_frame_def)
      ultimately show ?thesis using part [of b k] by simp
    next
      case False
      define n where "n = min (rd_length r - length (rd_payload r)) (length a)"
      define r1 where "r1 = h2_reader_check (r\<lparr>rd_payload := rd_payload r @ take n a\<rparr>)"
      have ok: "h2_reader_ok r1"
        unfolding r1_def using feed_payload_step [OF 1(3) payload(2), of "take n a"] by (simp add: n_def)
      have n: "n = rd_length r - length (rd_payload r)" "n \<le> length a"
        "min (rd_length r - length (rd_payload r)) (length (a @ b)) = n"
        using False by (auto simp: n_def)
      have "h2_reader_feed_loop r (a @ b) k = h2_reader_feed_loop r1 (drop n a @ b) (k + n)"
        "h2_reader_feed_loop r a k = h2_reader_feed_loop r1 (drop n a) (k + n)"
        using payload n by (simp_all add: unfold Let_def r1_def)
      then show ?thesis
        using 1(2) [OF payload n_def refl, folded r1_def, OF ok] by simp
    qed
  next
    case full
    then have "h2_has_frame r" using 1(3) by (auto simp: h2_has_frame_def h2_reader_ok_def split: if_splits)
    then show ?thesis by (simp add: feed_loop_full)
  qed
qed


lemma feed_append:
  assumes "h2_reader_ok r" and "h2_reader_feed r a = (r1, c)"
  shows "h2_reader_feed r (a @ b) =
    (if h2_has_frame r1 then (r1, c) else case h2_reader_feed r1 b of (r2, c2) \<Rightarrow> (r2, c + c2))"
proof -
  have shift: "h2_reader_feed_loop r b (k + j) = (case h2_reader_feed_loop r b k of (r2, c2) \<Rightarrow> (r2, c2 + j))" for r b k j
  proof (induction r b k rule: h2_reader_feed_loop.induct)
    case (1 r b k)
    note unfold = h2_reader_feed_loop.simps [of r b]
    consider (stop) "b = [] \<or> (\<not> rd_header_len r < 9 \<and> \<not> length (rd_payload r) < rd_length r)"
      | (header) "b \<noteq> []" "rd_header_len r < 9"
      | (payload) "b \<noteq> []" "\<not> rd_header_len r < 9" "length (rd_payload r) < rd_length r" by blast
    then show ?case
    proof cases
      case stop
      then show ?thesis by (auto simp: unfold)
    next
      case header
      show ?thesis using 1(1) [OF header refl refl] header by (simp add: unfold Let_def ac_simps)
    next
      case payload
      show ?thesis using 1(2) [OF payload refl refl] payload by (simp add: unfold Let_def ac_simps)
    qed
  qed
  show ?thesis
    using feed_loop_append [OF assms(1), of a b 0] assms(2) shift [of r1 b 0 c]
    by (auto simp: h2_reader_feed_def split: prod.splits)
qed

lemma feed_progress:
  assumes "h2_reader_ok r" and "\<not> h2_has_frame r" and "data \<noteq> []" and "h2_reader_feed r data = (r1, c)"
  shows "0 < c"
proof (rule ccontr)
  assume "\<not> 0 < c"
  from feed_loop_spec [OF assms(1) assms(4) [unfolded h2_reader_feed_def]] obtain used rest where
    u: "data = used @ rest" "c = length used" "h2_reader_ok r1" "h2_buffered r1 = h2_buffered r @ used"
      "h2_has_frame r1 \<or> rest = []" by auto
  then have "h2_has_frame r1" "h2_buffered r1 = h2_buffered r" using assms(3) \<open>\<not> 0 < c\<close> by auto
  then show False
    using no_frame_parse [OF assms(1,2)] take_frame_parse [OF u(3), of "[]"] by simp
qed

section \<open>The feed loop\<close>

definition reader_idle :: "h2_reader \<Rightarrow> bool" where
  "reader_idle r \<longleftrightarrow> h2_reader_ok r \<and> \<not> h2_has_frame r"

lemma payload_bound:
  assumes "h2_reader_ok r" and "h2_has_frame r"
  shows "length (rd_payload r) < 2 ^ 24"
  using assms read_from_wf [of "rd_header_buf r"]
  by (auto simp: h2_reader_ok_def h2_has_frame_def frame_header_wf_def)

lemma process_available_step:
  assumes "process_available app s = Inr s'" and "h2_reader_ok (s_reader s)"
  shows "(h2_inv s \<longrightarrow> h2_inv s') \<and> reader_idle (s_reader s') \<and> s_mode s' = s_mode s \<and>
    s_preface_received s' = s_preface_received s \<and> s_flushing s' = s_flushing s \<and> (s_alive s' \<longrightarrow> s_alive s)"
proof (cases "h2_has_frame (s_reader s)")
  case True
  obtain f r where tk: "h2_take_frame (s_reader s) = (f, r)" by force
  then have "fr_payload f = rd_payload (s_reader s)" by (auto simp: h2_take_frame_def)
  then have "length (fr_payload f) < 2 ^ 24" using payload_bound [OF assms(2) True] by simp
  moreover have "process_frame app f (s\<lparr>s_reader := r\<rparr>) = Inr s'"
    using assms(1) True tk by (simp add: process_available_def)
  ultimately have st: "conn_step (s\<lparr>s_reader := r\<rparr>) s'" by (intro process_frame_step)
  have "reader_idle r"
    using tk assms(2) by (auto simp: reader_idle_def h2_take_frame_def h2_reader_ok_def h2_has_frame_def)
  moreover have "h2_inv (s\<lparr>s_reader := r\<rparr>) = h2_inv s"
    by (simp add: h2_inv_def tables_ok_def promises_ok_def)
  ultimately show ?thesis using st by (simp add: conn_step_def)
next
  case False
  then show ?thesis using assms by (simp add: process_available_def reader_idle_def)
qed

lemma feed_reader_ok: "h2_reader_ok r \<Longrightarrow> h2_reader_feed r data = (r1, c) \<Longrightarrow> h2_reader_ok r1"
  by (rule h2_stream.feed_ok)

lemma h2_feed_loop_append:
  assumes "reader_idle (s_reader s)"
  shows "h2_feed_loop app (a @ b) n s = bindE (h2_feed_loop app a n s) (\<lambda>(m, s1). h2_feed_loop app b m s1)"
  using assms
proof (induction app a n s rule: h2_feed_loop.induct)
  case (1 app a n s)
  note unfold = h2_feed_loop.simps [of app a n s] h2_feed_loop.simps [of app "a @ b" n s]
  have ok: "h2_reader_ok (s_reader s)" and none: "\<not> h2_has_frame (s_reader s)"
    using 1(2) by (simp_all add: reader_idle_def)
  show ?case
  proof (cases "a = [] \<or> \<not> s_alive s")
    case True
    then consider "a = []" | "\<not> s_alive s" by blast
    then show ?thesis
    proof cases
      case 1
      then show ?thesis by (simp add: h2_feed_loop.simps [of _ "[]"])
    next
      case 2
      then show ?thesis by (simp add: h2_feed_loop.simps [of _ _ _ s])
    qed
  next
    case False
    obtain r1 c where fd: "h2_reader_feed (s_reader s) a = (r1, c)" by force
    have c: "0 < c" using feed_progress [OF ok none _ fd] False by simp
    have ok1: "h2_reader_ok r1" using feed_reader_ok [OF ok fd] .
    have split: "h2_feed_loop app a n s = bindE (process_available app (s\<lparr>s_reader := r1\<rparr>)) (\<lambda>s1. h2_feed_loop app (drop c a) (n + c) s1)"
      using False fd c by (simp add: unfold)
    show ?thesis
    proof (cases "h2_has_frame r1")
      case True
      have "c \<le> length a" using h2_stream.feed_moves [OF ok fd] by simp
      then have "h2_feed_loop app (a @ b) n s =
          bindE (process_available app (s\<lparr>s_reader := r1\<rparr>)) (\<lambda>s1. h2_feed_loop app (drop c a @ b) (n + c) s1)"
        using False fd c True feed_append [OF ok fd, of b] by (simp add: unfold)
      also have "\<dots> = bindE (process_available app (s\<lparr>s_reader := r1\<rparr>))
          (\<lambda>s1. bindE (h2_feed_loop app (drop c a) (n + c) s1) (\<lambda>(m, s1). h2_feed_loop app b m s1))"
      proof (rule bindE_cong [OF refl])
        fix s1
        assume pa: "process_available app (s\<lparr>s_reader := r1\<rparr>) = Inr s1"
        have "reader_idle (s_reader s1)" using process_available_step [OF pa] ok1 by simp
        then show "h2_feed_loop app (drop c a @ b) (n + c) s1 =
            bindE (h2_feed_loop app (drop c a) (n + c) s1) (\<lambda>(m, s1). h2_feed_loop app b m s1)"
          using 1(1) [OF \<open>\<not> (a = [] \<or> \<not> s_alive s)\<close> fd [symmetric] refl pa] c by simp
      qed
      finally show ?thesis by (simp add: split bindE_assoc)
    next
      case False
      then have all: "c = length a" using h2_stream.feed_stops [OF ok fd] by simp
      then have one: "h2_feed_loop app a n s = Inr (n + c, s\<lparr>s_reader := r1\<rparr>)"
        using False by (simp add: split process_available_def h2_feed_loop.simps [of _ "[]"])
      obtain r2 c2 where fb: "h2_reader_feed r1 b = (r2, c2)" by force
      show ?thesis
      proof (cases "b = []")
        case True
        then show ?thesis by (simp add: one h2_feed_loop.simps [of _ "[]"])
      next
        case False
        have "0 < c2" using feed_progress [OF ok1 \<open>\<not> h2_has_frame r1\<close> False fb] .
        then show ?thesis
          using \<open>\<not> (a = [] \<or> \<not> s_alive s)\<close> False feed_append [OF ok fd, of b] fb all \<open>\<not> h2_has_frame r1\<close>
          by (simp add: one unfold(2) h2_feed_loop.simps [of app b "n + length a" "s\<lparr>s_reader := r1\<rparr>"] add.assoc)
      qed
    qed
  qed
qed

lemma h2_feed_loop_step:
  assumes "h2_feed_loop app data n s = Inr (m, s')" and "reader_idle (s_reader s)"
  shows "(h2_inv s \<longrightarrow> h2_inv s') \<and> reader_idle (s_reader s') \<and> s_mode s' = s_mode s \<and>
    s_preface_received s' = s_preface_received s \<and> s_flushing s' = s_flushing s \<and> (s_alive s' \<longrightarrow> s_alive s)"
  using assms
proof (induction app data n s rule: h2_feed_loop.induct)
  case (1 app data n s)
  show ?case
  proof (cases "data = [] \<or> \<not> s_alive s")
    case True
    then show ?thesis using 1(2,3) by (auto simp: h2_feed_loop.simps [of app data n s])
  next
    case False
    obtain r1 c where fd: "h2_reader_feed (s_reader s) data = (r1, c)" by force
    have ok1: "h2_reader_ok r1" using feed_reader_ok [OF _ fd] 1(3) by (simp add: reader_idle_def)
    have inv: "h2_inv (s\<lparr>s_reader := r1\<rparr>) = h2_inv s" by (simp add: h2_inv_def tables_ok_def promises_ok_def)
    from 1(2) False fd obtain s1 where p: "process_available app (s\<lparr>s_reader := r1\<rparr>) = Inr s1"
      and rest: "(if c = 0 then Inr (n, s1) else h2_feed_loop app (drop c data) (n + c) s1) = Inr (m, s')"
      by (auto simp: h2_feed_loop.simps [of app data n s] bindE_eq_Inr_iff)
    note st = process_available_step [OF p] 
    show ?thesis
      using st ok1 rest inv 1(1) [OF False fd [symmetric] refl p] by (auto split: if_splits)
  qed
qed

text \<open>The byte count is only passed along.\<close>

lemma h2_feed_loop_count:
  "h2_feed_loop app data (n + k) s = bindE (h2_feed_loop app data n s) (\<lambda>(m, s'). Inr (m + k, s'))"
proof (induction app data n s rule: h2_feed_loop.induct)
  case (1 app data n s)
  note unfold = h2_feed_loop.simps [of app data _ s]
  show ?case
  proof (cases "data = [] \<or> \<not> s_alive s")
    case True
    then show ?thesis by (auto simp: unfold)
  next
    case False
    obtain r c where fd: "h2_reader_feed (s_reader s) data = (r, c)" by force
    have "h2_feed_loop app (drop c data) (n + k + c) s1 =
        bindE (h2_feed_loop app (drop c data) (n + c) s1) (\<lambda>(m, s'). Inr (m + k, s'))"
      if "process_available app (s\<lparr>s_reader := r\<rparr>) = Inr s1" "c \<noteq> 0" for s1
      using 1 [OF False fd [symmetric] refl that] by (simp add: ac_simps)
    then show ?thesis
      using False by (cases "process_available app (s\<lparr>s_reader := r\<rparr>)") (simp_all add: unfold fd)
  qed
qed

section \<open>Reachable sessions\<close>

text \<open>
  Everything that happens to a session after its construction: bytes arrive, the application calls
  one of the operations, or a flush runs to its end while other tasks use the session.
\<close>

inductive h2_step :: "'u h2_app \<Rightarrow> 'u h2_session \<Rightarrow> 'u h2_session \<Rightarrow> bool" for app where
  step_feed: "h2_feed app data s = Inr (n, s') \<Longrightarrow> h2_step app s s'"
| step_call: "run_call c s = Inr s' \<Longrightarrow> h2_step app s s'"
| step_flush: "h2_flush sends s = Inr (Some (wire, ok, s')) \<Longrightarrow> h2_step app s s'"

inductive h2_reachable :: "'u h2_app \<Rightarrow> 'u h2_session \<Rightarrow> bool" for app where
  reach_new: "h2_reachable app (h2_session_new m u)"
| reach_step: "h2_reachable app s \<Longrightarrow> h2_step app s s' \<Longrightarrow> h2_reachable app s'"

inductive_cases h2_stepE: "h2_step app s s'"

definition session_ok :: "'u h2_session \<Rightarrow> bool" where
  "session_ok s \<longleftrightarrow> h2_inv s \<and> reader_idle (s_reader s)"

lemma session_ok_new: "session_ok (h2_session_new m u)"
  by (simp add: session_ok_def h2_inv_def h2_session_new_def enqueue_def window_ok_def tables_ok_def
      promises_ok_def reader_idle_def h2_reader_init_ok hpack_encoder_new_def hpack_decoder_new_def
      dt_new_inv)
     (simp add: h2_has_frame_def h2_reader_init_def)

lemma session_ok_quiet: "quiet s t \<Longrightarrow> session_ok s \<Longrightarrow> session_ok t"
  using quiet_inv [of s t] by (simp add: session_ok_def quiet_def)

lemma session_ok_fields [simp]:
  "session_ok (s\<lparr>s_flushing := b\<rparr>) = session_ok s" "session_ok (s\<lparr>s_preface_received := b\<rparr>) = session_ok s"
  by (simp_all add: session_ok_def h2_inv_def tables_ok_def promises_ok_def)

lemma session_ok_feed:
  assumes "h2_feed app data s = Inr (n, s')" and "session_ok s"
  shows "session_ok s'"
proof (cases "s_alive s")
  case True
  let ?s = "if s_mode s = Server then s\<lparr>s_preface_received := True\<rparr> else s"
  from assms(1) True obtain m where "h2_feed_loop app data 0 ?s = Inr (m, s')"
    by (auto simp: h2_feed_def bindE_eq_Inr_iff)
  moreover have "session_ok ?s" using assms(2) by simp
  ultimately show ?thesis
    using h2_feed_loop_step [of app data 0 ?s m s'] by (simp add: session_ok_def)
next
  case False
  then show ?thesis using assms by (simp add: h2_feed_def)
qed

lemma session_ok_call: "run_call c s = Inr s' \<Longrightarrow> session_ok s \<Longrightarrow> session_ok s'"
  using quiet_run_call [OF quiet_refl] session_ok_quiet by blast

lemma session_ok_calls: "run_calls cs s = Inr s' \<Longrightarrow> session_ok s \<Longrightarrow> session_ok s'"
  using quiet_run_calls [OF quiet_refl] session_ok_quiet by blast

lemma session_ok_take_output: "get_pending_output s = (d, s') \<Longrightarrow> session_ok s \<Longrightarrow> session_ok s'"
  by (auto simp: get_pending_output_def intro: session_ok_quiet [OF quiet_fields(1)])

lemma session_ok_flush_loop:
  "flush_loop sends wire data s = Inr (Some (w, ok, s')) \<Longrightarrow> session_ok s \<Longrightarrow> session_ok s'"
proof (induction sends arbitrary: wire data s)
  case Nil
  then show ?case
    using session_ok_take_output [OF prod.collapse [symmetric] Nil(2)]
    by (auto simp: flush_loop.simps [of "[]"] get_pending_output_def split: if_splits)
next
  case (Cons x rest)
  obtain n calls where x: "x = (n, calls)" by force
  show ?case
    using Cons session_ok_take_output [OF prod.collapse [symmetric] Cons(3)]
    by (auto simp: x flush_loop.simps [of "(n, calls) # rest"] bindE_eq_Inr_iff get_pending_output_def
        dest: session_ok_calls split: if_splits)
qed

lemma session_ok_flush: "h2_flush sends s = Inr (Some (w, ok, s')) \<Longrightarrow> session_ok s \<Longrightarrow> session_ok s'"
  by (auto simp: h2_flush_def dest: session_ok_flush_loop split: if_splits)

lemma session_ok_reachable: "h2_reachable app s \<Longrightarrow> session_ok s"
  by (induction rule: h2_reachable.induct)
     (auto intro: session_ok_new elim!: h2_stepE dest: session_ok_feed session_ok_call session_ok_flush)

section \<open>Output\<close>

text \<open>
  Operations only append to the output buffer, and what they append does not depend on what it
  holds: running an operation on a session whose output has been extended in front gives the same
  session with the same extension.
\<close>

definition front :: "bytes \<Rightarrow> 'u h2_session \<Rightarrow> 'u h2_session" where
  "front d s = s\<lparr>s_output := d @ s_output s\<rparr>"

lemma front_fields [simp]:
  "s_encoder (front d s) = s_encoder s" "s_streams (front d s) = s_streams s" "s_peer_max_frame_size (front d s) = s_peer_max_frame_size s"
  "s_next_stream_id (front d s) = s_next_stream_id s" "s_peer_enable_push (front d s) = s_peer_enable_push s"
  "s_next_push_stream_id (front d s) = s_next_push_stream_id s" "s_next_promise (front d s) = s_next_promise s"
  "s_promises (front d s) = s_promises s" "s_output (front d s) = d @ s_output s" "stream_at (front d s) = stream_at s"
  "front [] s = s"
  by (simp_all add: front_def stream_at_def fun_eq_iff)

named_theorems front_simps \<open>operations commute with extending the output in front\<close>

lemma front_updates [front_simps]:
  "(front d s)\<lparr>s_encoder := e\<rparr> = front d (s\<lparr>s_encoder := e\<rparr>)"
  "(front d s)\<lparr>s_next_stream_id := i\<rparr> = front d (s\<lparr>s_next_stream_id := i\<rparr>)"
  "(front d s)\<lparr>s_next_push_stream_id := i\<rparr> = front d (s\<lparr>s_next_push_stream_id := i\<rparr>)"
  "(front d s)\<lparr>s_promises := p, s_next_promise := n\<rparr> = front d (s\<lparr>s_promises := p, s_next_promise := n\<rparr>)"
  "(front d s)\<lparr>s_request_handler := h\<rparr> = front d (s\<lparr>s_request_handler := h\<rparr>)"
  "(front d s)\<lparr>s_streaming_request_handler := h\<rparr> = front d (s\<lparr>s_streaming_request_handler := h\<rparr>)"
  "(front d s)\<lparr>s_request_start_handler := h\<rparr> = front d (s\<lparr>s_request_start_handler := h\<rparr>)"
  "(front d s)\<lparr>s_push_provider := h\<rparr> = front d (s\<lparr>s_push_provider := h\<rparr>)"
  "(front d s)\<lparr>s_push_handler := h\<rparr> = front d (s\<lparr>s_push_handler := h\<rparr>)"
  "(front d s)\<lparr>s_completed_promises := c\<rparr> = front d (s\<lparr>s_completed_promises := c\<rparr>)"
  "set_stream sid ss (front d s) = front d (set_stream sid ss s)"
  "upd_stream sid f (front d s) = front d (upd_stream sid f s)"
  "enqueue x (front d s) = front d (enqueue x s)"
  by (simp_all add: front_def set_stream_def upd_stream_def enqueue_def)

lemma front_submit [front_simps]:
  "enqueue_headers sid fl hs (front d s) = front d (enqueue_headers sid fl hs s)"
  "close_stream sid (front d s) = front d (close_stream sid s)"
  by (simp_all add: enqueue_headers_def build_headers_frame_def close_stream_def front_simps Let_def split: prod.splits)

lemma build_data_frames_front [simp]: "build_data_frames sid b ne (front d s) = build_data_frames sid b ne s"
  by (simp add: build_data_frames_def)

lemma front_submits [front_simps]:
  "do_submit_response sid resp (front d s) = front d (do_submit_response sid resp s)"
  "do_submit_response_headers sid resp (front d s) = front d (do_submit_response_headers sid resp s)"
  "do_submit_data sid x fin (front d s) = front d (do_submit_data sid x fin s)"
  "do_submit_trailers sid tr (front d s) = front d (do_submit_trailers sid tr s)"
  "set_data_callback sid cb (front d s) = front d (set_data_callback sid cb s)"
  by (simp_all add: do_submit_response_def do_submit_response_headers_def do_submit_data_def
      do_submit_trailers_def set_data_callback_def front_simps Let_def)

definition keeps_output :: "h2_call \<Rightarrow> bool" where
  "keeps_output c \<longleftrightarrow> c \<noteq> Get_Pending_Output"

lemma run_call_front:
  assumes "keeps_output c"
  shows "run_call c (front d s) = bindE (run_call c s) (\<lambda>t. Inr (front d t))"
  using assms
  by (cases c)
     (simp_all add: keeps_output_def front_simps do_submit_request_def do_submit_push_def make_promise_def
       take_completed_promises_def Let_def split: prod.splits)

lemma run_calls_front:
  assumes "list_all keeps_output cs"
  shows "run_calls cs (front d s) = bindE (run_calls cs s) (\<lambda>t. Inr (front d t))"
  using assms
proof (induction cs arbitrary: s)
  case (Cons c cs)
  then show ?case by (cases "run_call c s") (simp_all add: run_call_front)
qed simp

lemma run_calls_append: "run_calls (cs @ ds) s = bindE (run_calls cs s) (run_calls ds)"
  by (induction cs arbitrary: s) (auto simp: bindE_assoc intro: bindE_cong)

text \<open>
  The reference for a flush: the same calls in the same order on a session nobody sends from.  What
  was sent, what was taken out of the buffer and lost with a failed send, and what is still in the
  buffer make up that session's output.
\<close>

definition flushed ::
  "(int \<times> h2_call list) list \<Rightarrow> 'u h2_session \<Rightarrow> bytes \<Rightarrow> bool \<Rightarrow> 'u h2_session \<Rightarrow> bool" where
  "flushed sends s w ok s' \<longleftrightarrow>
     (\<exists>used t lost. prefix used sends \<and> run_calls (concat (map snd used)) s = Inr t \<and>
        s_output t = w @ lost @ s_output s' \<and> s' = t\<lparr>s_output := s_output s', s_flushing := False\<rparr> \<and>
        (ok \<longrightarrow> lost = [] \<and> s_output s' = []))"

lemma flushed_later:
  assumes "run_calls calls s = Inr s1" and "flushed rest s1 w ok s'"
  shows "flushed ((n, calls) # rest) s w ok s'"
proof -
  from assms(2) obtain used t lost where u: "prefix used rest" "run_calls (concat (map snd used)) s1 = Inr t"
    "s_output t = w @ lost @ s_output s'" "s' = t\<lparr>s_output := s_output s', s_flushing := False\<rparr>"
    "ok \<longrightarrow> lost = [] \<and> s_output s' = []" unfolding flushed_def by blast
  then have "prefix ((n, calls) # used) ((n, calls) # rest)"
    "run_calls (concat (map snd ((n, calls) # used))) s = Inr t"
    using assms(1) by (simp_all add: run_calls_append)
  then show ?thesis using u(3-5) unfolding flushed_def by blast
qed

lemma flushed_failed:
  assumes "run_calls calls s = Inr (front (w @ lost) t)"
  shows "flushed ((n, calls) # rest) s w False (t\<lparr>s_flushing := False\<rparr>)"
  unfolding flushed_def
  by (rule exI [of _ "[(n, calls)]"], rule exI [of _ "front (w @ lost) t"], rule exI [of _ lost])
     (simp add: assms front_def)

lemma flush_loop_flushed:
  assumes "flush_loop sends wire data s = Inr (Some (w, ok, s'))" and "list_all (\<lambda>p. list_all keeps_output (snd p)) sends"
  shows "flushed sends (front (wire @ data) s) w ok s'"
  using assms
proof (induction sends arbitrary: wire data s)
  case Nil
  then have "data = []" "s_output s = []" "w = wire" "ok" "s' = s\<lparr>s_output := [], s_flushing := False\<rparr>"
    by (auto simp: flush_loop.simps [of "[]"] get_pending_output_def split: if_splits)
  then show ?case by (simp add: flushed_def front_def)
next
  case (Cons x rest)
  obtain n calls where x: "x = (n, calls)" by force
  have keep: "list_all keeps_output calls" "list_all (\<lambda>p. list_all keeps_output (snd p)) rest"
    using Cons(3) by (simp_all add: x)
  have send: "flushed (x # rest) (front (wire @ d) s0) w ok s'"
    if r: "run_calls calls s0 = Inr s1"
      and e: "(if n \<le> 0 then Inr (Some (wire, False, s1\<lparr>s_flushing := False\<rparr>))
           else flush_loop rest (wire @ take (nat n) d) (drop (nat n) d) s1) = Inr (Some (w, ok, s'))" for d s0 s1
  proof -
    have r': "run_calls calls (front (wire @ d) s0) = Inr (front (wire @ d) s1)"
      using run_calls_front [OF keep(1), of "wire @ d" s0] r by simp
    show ?thesis
    proof (cases "n \<le> 0")
      case True
      then have "w = wire" "\<not> ok" "s' = s1\<lparr>s_flushing := False\<rparr>" using e by auto
      then show ?thesis using flushed_failed r' by (simp add: x)
    next
      case False
      then have "flushed rest (front (wire @ d) s1) w ok s'" using Cons.IH [OF _ keep(2)] e by fastforce
      then show ?thesis using flushed_later [OF r'] by (simp add: x)
    qed
  qed
  show ?case
  proof (cases "data = [] \<and> s_output s = []")
    case True
    then have "w = wire" "ok" "s' = s\<lparr>s_output := [], s_flushing := False\<rparr>"
      using Cons(2) by (auto simp: flush_loop.simps [of "x # rest"] get_pending_output_def)
    then show ?thesis using True by (auto simp: flushed_def front_def intro: exI [of _ "[]"])
  next
    case False
    define d where "d = (if data = [] then s_output s else data)"
    define s0 where "s0 = (if data = [] then s\<lparr>s_output := []\<rparr> else s)"
    have "front (wire @ data) s = front (wire @ d) s0" by (simp add: d_def s0_def front_def)
    moreover have eq: "flush_loop (x # rest) wire data s = bindE (run_calls calls s0) (\<lambda>s1.
        if n \<le> 0 then Inr (Some (wire, False, s1\<lparr>s_flushing := False\<rparr>))
        else flush_loop rest (wire @ take (nat n) d) (drop (nat n) d) s1)"
      using False unfolding d_def s0_def x by (auto simp: flush_loop.simps [of "(n, calls) # rest"] get_pending_output_def)
    obtain s1 where "run_calls calls s0 = Inr s1"
      "(if n \<le> 0 then Inr (Some (wire, False, s1\<lparr>s_flushing := False\<rparr>))
        else flush_loop rest (wire @ take (nat n) d) (drop (nat n) d) s1) = Inr (Some (w, ok, s'))"
      using Cons(2) unfolding eq by (rule bindE_InrE)
    ultimately show ?thesis using send by simp
  qed
qed

text \<open>A transport that always takes at least one byte empties the buffer.\<close>

lemma flush_loop_completes:
  assumes "list_all (\<lambda>(n, calls). 0 < n \<and> calls = []) sends" and "length data + length (s_output s) \<le> length sends"
  shows "flush_loop sends wire data s = Inr (Some (wire @ data @ s_output s, True, s\<lparr>s_output := [], s_flushing := False\<rparr>))"
  using assms
proof (induction sends arbitrary: wire data s)
  case Nil
  then show ?case by (simp add: flush_loop.simps [of "[]"] get_pending_output_def)
next
  case (Cons x rest)
  then obtain n where x: "x = (n, [])" "0 < n" by (cases x) auto
  have all: "list_all (\<lambda>(n, calls). 0 < n \<and> calls = []) rest" using Cons(2) by simp
  show ?case
  proof (cases "data = []")
    case True
    have "length (drop (nat n) (s_output s)) \<le> length rest"
      if "s_output s \<noteq> []" using that x(2) Cons(3) True by (cases "s_output s") auto
    then show ?thesis
      using True x Cons.IH [OF all, of "drop (nat n) (s_output s)" "s\<lparr>s_output := []\<rparr>" "wire @ take (nat n) (s_output s)"]
      by (simp add: flush_loop.simps [of "(n, []) # rest"] get_pending_output_def)
  next
    case False
    then have "length (drop (nat n) data) + length (s_output s) \<le> length rest"
      using x(2) Cons(3) by (cases data) auto
    then show ?thesis
      using False x Cons.IH [OF all, of "drop (nat n) data" s "wire @ take (nat n) data"]
      by (simp add: flush_loop.simps [of "(n, []) # rest"])
  qed
qed

section \<open>Properties of every session\<close>

text \<open>An application that answers every request with an empty 200 and does nothing else.\<close>

definition plain_app :: "request list h2_app" where
  "plain_app = \<lparr>app_request = (\<lambda>_ req u. Inr (response_default, u @ [req])),
     app_streaming = (\<lambda>_ _ _ u. Inr (False, [], u)), app_start = (\<lambda>_ _ _ _ u. Inr (False, [], u)),
     app_data = (\<lambda>_ _ _ _ u. Inr ([], u)), app_push_provider = (\<lambda>_ _ u. Inr ([], u)),
     app_push = (\<lambda>_ _ u. Inr ([], u)), app_resume = (\<lambda>_ u. ([], u))\<rparr>"

lemma plain_reachable: "h2_reachable plain_app ((h2_session_new Server [])\<lparr>s_request_handler := Some 1\<rparr>)"
  by (rule reach_step [OF reach_new [of _ Server "[]"] step_call [of "Set_Request_Handler (Some 1)"]]) simp

lemma feed_dead: "\<not> s_alive s \<Longrightarrow> h2_feed_loop app b m s = Inr (m, s)"
  by (simp add: h2_feed_loop.simps)

text \<open>
  C8: In every session reached from construction by received bytes, application calls and flushes,
  the receive windows of the connection and of every stream lie between half and all of the default
  window, the peer's frame size limit is a legal one, the connection send window of a live session
  has not overflowed, both compression tables are consistent and fit their capacity, every promise a
  stream refers to exists, and no complete frame is left unprocessed in the reader.
\<close>

theorem h2_reachable_invariant:
  assumes "h2_reachable app s"
  shows "16384 \<le> s_peer_max_frame_size s \<and> s_peer_max_frame_size s \<le> 16777215 \<and>
    32767 \<le> s_conn_recv_window s \<and> s_conn_recv_window s \<le> 65535 \<and>
    (\<forall>sid ss. s_streams s sid = Some ss \<longrightarrow> 32767 \<le> ss_recv_window ss \<and> ss_recv_window ss \<le> 65535 \<and>
       (\<forall>p. ss_promise ss = Some p \<longrightarrow> s_promises s p \<noteq> None)) \<and>
    (s_alive s \<longrightarrow> s_conn_send_window s \<le> 2147483647) \<and>
    dt_inv (en_table (s_encoder s)) \<and> dt_inv (de_table (s_decoder s)) \<and>
    h2_reader_ok (s_reader s) \<and> \<not> h2_has_frame (s_reader s)"
proof -
  have inv: "h2_inv s" "reader_idle (s_reader s)"
    using session_ok_reachable [OF assms] by (simp_all add: session_ok_def)
  have "32767 \<le> ss_recv_window ss \<and> ss_recv_window ss \<le> 65535 \<and> (\<forall>p. ss_promise ss = Some p \<longrightarrow> s_promises s p \<noteq> None)"
    if "s_streams s sid = Some ss" for sid ss
    using inv(1) that by (fastforce simp: h2_inv_def window_ok_def promises_ok_def)
  moreover have "32767 \<le> s_conn_recv_window s \<and> s_conn_recv_window s \<le> 65535"
    using inv(1) by (simp add: h2_inv_def window_ok_def)
  ultimately show ?thesis
    using inv by (simp add: h2_inv_def reader_idle_def tables_ok_def)
qed

theorem h2_reachable_invariant_witness:
  "16384 \<le> s_peer_max_frame_size ((h2_session_new Server ([] :: request list))\<lparr>s_request_handler := Some 1\<rparr>)"
  using h2_reachable_invariant [OF plain_reachable] by blast

text \<open>
  C10: Feeding a session in two pieces is the same as feeding it once, whatever the cut: the same
  errors, the same callbacks, the same output, the same final session.
\<close>

theorem h2_feed_chunks:
  assumes "h2_reachable app s"
  shows "bindE (h2_feed app a s) (\<lambda>(_, s1). bindE (h2_feed app b s1) (\<lambda>(_, s2). Inr s2)) =
    bindE (h2_feed app (a @ b) s) (\<lambda>(_, s2). Inr s2)"
proof (cases "s_alive s")
  case False
  then show ?thesis by (simp add: h2_feed_def)
next
  case True
  define s0 where "s0 = (if s_mode s = Server then s\<lparr>s_preface_received := True\<rparr> else s)"
  have idle: "reader_idle (s_reader s0)"
    using session_ok_reachable [OF assms] by (simp add: session_ok_def s0_def)
  show ?thesis
  proof (cases "h2_feed_loop app a 0 s0")
    case (Inl e)
    then show ?thesis
      using True h2_feed_loop_append [OF idle, of app a b 0] by (simp add: h2_feed_def s0_def [symmetric])
  next
    case (Inr r)
    obtain m s1 where r: "r = (m, s1)" by force
    have pre: "(if s_mode s1 = Server then s1\<lparr>s_preface_received := True\<rparr> else s1) = s1"
      using h2_feed_loop_step [OF Inr [unfolded r] idle] by (auto simp: s0_def split: if_splits)
    have shift: "bindE (h2_feed_loop app b m s1) (\<lambda>(_, s2). Inr s2) = bindE (h2_feed_loop app b 0 s1) (\<lambda>(_, s2). Inr s2)"
      using h2_feed_loop_count [of app b 0 m s1] by (cases "h2_feed_loop app b 0 s1") auto
    have one: "bindE (h2_feed app (a @ b) s) (\<lambda>(_, s2). Inr s2) = bindE (h2_feed_loop app b m s1) (\<lambda>(_, s2). Inr s2)"
      using True Inr h2_feed_loop_append [OF idle, of app a b 0]
      by (cases "h2_feed_loop app b m s1") (auto simp: h2_feed_def s0_def [symmetric] r)
    have two: "bindE (h2_feed app b s1) (\<lambda>(_, s2). Inr s2) = bindE (h2_feed_loop app b 0 s1) (\<lambda>(_, s2). Inr s2)"
      using pre feed_dead [of s1 app b 0] by (cases "s_alive s1"; cases "h2_feed_loop app b 0 s1") (auto simp: h2_feed_def)
    have "h2_feed app a s = Inr (int m, s1)" using True Inr by (simp add: h2_feed_def s0_def [symmetric] r)
    then show ?thesis by (simp add: one two shift)
  qed
qed

theorem h2_feed_chunks_witness:
  "let s = (h2_session_new Server ([] :: request list))\<lparr>s_request_handler := Some 1\<rparr>
   in bindE (h2_feed plain_app [0] s) (\<lambda>(_, s1). bindE (h2_feed plain_app [0] s1) (\<lambda>(_, s2). Inr s2)) =
      bindE (h2_feed plain_app ([0] @ [0]) s) (\<lambda>(_, s2). Inr s2)"
  unfolding Let_def by (rule h2_feed_chunks [OF plain_reachable])

text \<open>
  C27: A flush sends the output in the order it was queued, each byte once, although other tasks may
  queue more while it waits for the transport: the bytes on the wire, those lost with a failed send
  and those still queued are together what the same calls would have queued with nobody sending; a
  flush that succeeds has lost nothing and leaves nothing.
\<close>

theorem h2_flush_in_order:
  assumes "\<not> s_flushing s" and "list_all (\<lambda>p. list_all keeps_output (snd p)) sends"
    and "h2_flush sends s = Inr (Some (w, ok, s'))"
  shows "\<exists>used t lost. prefix used sends \<and>
    run_calls (concat (map snd used)) (s\<lparr>s_flushing := True\<rparr>) = Inr t \<and>
    s_output t = w @ lost @ s_output s' \<and> s' = t\<lparr>s_output := s_output s', s_flushing := False\<rparr> \<and>
    (ok \<longrightarrow> lost = [] \<and> s_output s' = [])"
proof -
  have "flush_loop sends [] [] (s\<lparr>s_flushing := True\<rparr>) = Inr (Some (w, ok, s'))"
    using assms(1,3) by (simp add: h2_flush_def)
  from flush_loop_flushed [OF this assms(2)] show ?thesis by (simp add: flushed_def)
qed

definition flush_example :: "(int \<times> h2_call list) list" where
  "flush_example = [(2, [Submit_Data 1 [7] True]), (100, []), (100, [])]"

lemma flush_example_runs:
  "h2_flush flush_example ((h2_session_new Server ())\<lparr>s_output := [1, 2, 3]\<rparr>) =
   Inr (Some ([1, 2, 3, 0, 0, 1, 0, 1, 0, 0, 0, 1, 7], True, (h2_session_new Server ())\<lparr>s_output := []\<rparr>))"
  by (simp add: h2_flush_def flush_example_def flush_loop.simps get_pending_output_def h2_session_new_def
      enqueue_def do_submit_data_def data_frames.simps h2_build_frame_def write_to_def be24_def be32_def byte_at_def
      frame_type_code_def sid31_def close_stream_def upd_stream_def)

theorem h2_flush_in_order_witness:
  "\<exists>used t lost. prefix used flush_example \<and>
    run_calls (concat (map snd used)) ((h2_session_new Server ())\<lparr>s_output := [1, 2, 3], s_flushing := True\<rparr>) = Inr t \<and>
    s_output t = [1, 2, 3, 0, 0, 1, 0, 1, 0, 0, 0, 1, 7] @ lost @ [] \<and> lost = []"
  using h2_flush_in_order [OF _ _ flush_example_runs]
  by (auto simp: h2_session_new_def enqueue_def flush_example_def keeps_output_def)

text \<open>
  C28: A flush ends: with a transport that takes at least one byte per call, as many calls as there
  are queued bytes are enough, everything queued is on the wire and the session is ready for the next
  flush.
\<close>

theorem h2_flush_completes:
  assumes "\<not> s_flushing s" and "list_all (\<lambda>(n, calls). 0 < n \<and> calls = []) sends"
    and "length (s_output s) \<le> length sends"
  shows "h2_flush sends s = Inr (Some (s_output s, True, s\<lparr>s_output := []\<rparr>))"
  using flush_loop_completes [OF assms(2), of "[]" "s\<lparr>s_flushing := True\<rparr>" "[]"] assms(1,3)
  by (simp add: h2_flush_def)

theorem h2_flush_completes_witness:
  "h2_flush [(1, []), (1, []), (1, [])] ((h2_session_new Server ())\<lparr>s_output := [1, 2, 3]\<rparr>) =
   Inr (Some ([1, 2, 3], True, (h2_session_new Server ())\<lparr>s_output := []\<rparr>))"
  using h2_flush_completes [of "(h2_session_new Server ())\<lparr>s_output := [1, 2, 3]\<rparr>" "[(1, []), (1, []), (1, [])]"]
  by (simp add: h2_session_new_def enqueue_def)

end
