(* ===== verification/H2_Exchange.thy ===== *)
theory H2_Exchange
  imports H2_Invariant
begin

text \<open>
  Two HTTP/2 sessions talking to each other: the byte-level session refines a machine over frames, a
  request submitted by a client reaches the server's handler, and a response submitted by a server
  completes the client's promise, for every way the messages are cut into frames.
\<close>

section \<open>The session without its reader\<close>

text \<open>
  No handler looks at the reader, so a run over frames can be followed on sessions whose reader has
  been put aside.
\<close>

definition rd :: "h2_reader \<Rightarrow> 'u h2_session \<Rightarrow> 'u h2_session" where
  "rd r s = s\<lparr>s_reader := r\<rparr>"

lemma rd_fields [simp]:
  "s_mode (rd r s) = s_mode s" "s_alive (rd r s) = s_alive s" "s_output (rd r s) = s_output s"
  "s_encoder (rd r s) = s_encoder s" "s_decoder (rd r s) = s_decoder s" "s_streams (rd r s) = s_streams s"
  "s_next_stream_id (rd r s) = s_next_stream_id s" "s_last_client_stream (rd r s) = s_last_client_stream s"
  "s_conn_send_window (rd r s) = s_conn_send_window s" "s_conn_recv_window (rd r s) = s_conn_recv_window s"
  "s_peer_max_frame_size (rd r s) = s_peer_max_frame_size s" "s_peer_initial_window_size (rd r s) = s_peer_initial_window_size s"
  "s_request_handler (rd r s) = s_request_handler s" "s_streaming_request_handler (rd r s) = s_streaming_request_handler s"
  "s_request_start_handler (rd r s) = s_request_start_handler s" "s_push_provider (rd r s) = s_push_provider s"
  "s_push_handler (rd r s) = s_push_handler s" "s_completed_promises (rd r s) = s_completed_promises s"
  "s_continuation_stream (rd r s) = s_continuation_stream s" "s_peer_enable_push (rd r s) = s_peer_enable_push s"
  "s_next_push_stream_id (rd r s) = s_next_push_stream_id s" "s_promises (rd r s) = s_promises s"
  "s_next_promise (rd r s) = s_next_promise s" "s_user (rd r s) = s_user s" "s_reader (rd r s) = r"
  "stream_at (rd r s) = stream_at s" "rd r (rd q s) = rd r s" "s_preface_received (rd r s) = s_preface_received s"
  by (simp_all add: rd_def stream_at_def fun_eq_iff)

named_theorems rd_simps \<open>operations commute with replacing the reader\<close>

lemma rd_updates [rd_simps]:
  "(rd r s)\<lparr>s_alive := x1\<rparr> = rd r (s\<lparr>s_alive := x1\<rparr>)" "(rd r s)\<lparr>s_output := x2\<rparr> = rd r (s\<lparr>s_output := x2\<rparr>)"
  "(rd r s)\<lparr>s_encoder := x3\<rparr> = rd r (s\<lparr>s_encoder := x3\<rparr>)" "(rd r s)\<lparr>s_decoder := x4\<rparr> = rd r (s\<lparr>s_decoder := x4\<rparr>)"
  "(rd r s)\<lparr>s_streams := x5\<rparr> = rd r (s\<lparr>s_streams := x5\<rparr>)" "(rd r s)\<lparr>s_next_stream_id := x6\<rparr> = rd r (s\<lparr>s_next_stream_id := x6\<rparr>)"
  "(rd r s)\<lparr>s_last_client_stream := x6\<rparr> = rd r (s\<lparr>s_last_client_stream := x6\<rparr>)"
  "(rd r s)\<lparr>s_conn_send_window := x6\<rparr> = rd r (s\<lparr>s_conn_send_window := x6\<rparr>)"
  "(rd r s)\<lparr>s_conn_recv_window := x6\<rparr> = rd r (s\<lparr>s_conn_recv_window := x6\<rparr>)"
  "(rd r s)\<lparr>s_peer_max_frame_size := x7\<rparr> = rd r (s\<lparr>s_peer_max_frame_size := x7\<rparr>)"
  "(rd r s)\<lparr>s_peer_initial_window_size := x8\<rparr> = rd r (s\<lparr>s_peer_initial_window_size := x8\<rparr>)"
  "(rd r s)\<lparr>s_request_handler := h\<rparr> = rd r (s\<lparr>s_request_handler := h\<rparr>)"
  "(rd r s)\<lparr>s_streaming_request_handler := h\<rparr> = rd r (s\<lparr>s_streaming_request_handler := h\<rparr>)"
  "(rd r s)\<lparr>s_request_start_handler := h\<rparr> = rd r (s\<lparr>s_request_start_handler := h\<rparr>)"
  "(rd r s)\<lparr>s_push_provider := h\<rparr> = rd r (s\<lparr>s_push_provider := h\<rparr>)" "(rd r s)\<lparr>s_push_handler := h\<rparr> = rd r (s\<lparr>s_push_handler := h\<rparr>)"
  "(rd r s)\<lparr>s_completed_promises := x9\<rparr> = rd r (s\<lparr>s_completed_promises := x9\<rparr>)"
  "(rd r s)\<lparr>s_continuation_stream := x6\<rparr> = rd r (s\<lparr>s_continuation_stream := x6\<rparr>)"
  "(rd r s)\<lparr>s_peer_enable_push := x1\<rparr> = rd r (s\<lparr>s_peer_enable_push := x1\<rparr>)"
  "(rd r s)\<lparr>s_next_push_stream_id := x6\<rparr> = rd r (s\<lparr>s_next_push_stream_id := x6\<rparr>)"
  "(rd r s)\<lparr>s_promises := x10\<rparr> = rd r (s\<lparr>s_promises := x10\<rparr>)" "(rd r s)\<lparr>s_next_promise := x7\<rparr> = rd r (s\<lparr>s_next_promise := x7\<rparr>)"
  "(rd r s)\<lparr>s_user := u\<rparr> = rd r (s\<lparr>s_user := u\<rparr>)" "(rd r s)\<lparr>s_preface_received := x1\<rparr> = rd r (s\<lparr>s_preface_received := x1\<rparr>)"
  by (simp_all add: rd_def)

lemma rd_basic [rd_simps]:
  "enqueue d (rd r s) = rd r (enqueue d s)" "set_stream sid ss (rd r s) = rd r (set_stream sid ss s)"
  "upd_stream sid f (rd r s) = rd r (upd_stream sid f s)" "close_stream sid (rd r s) = rd r (close_stream sid s)"
  "h2_goaway ec msg (rd r s) = rd r (h2_goaway ec msg s)" "begin_continuation sid b fin (rd r s) = rd r (begin_continuation sid b fin s)"
  by (simp_all add: rd_def enqueue_def set_stream_def upd_stream_def close_stream_def h2_goaway_def begin_continuation_def)

lemma rd_submit [rd_simps]: "enqueue_headers sid fl hs (rd r s) = rd r (enqueue_headers sid fl hs s)"
  by (simp add: enqueue_headers_def build_headers_frame_def rd_simps Let_def split: prod.splits)

lemma build_data_frames_rd [simp]: "build_data_frames sid b ne (rd r s) = build_data_frames sid b ne s"
  by (simp add: build_data_frames_def)

lemma rd_submits [rd_simps]:
  "do_submit_response sid resp (rd r s) = rd r (do_submit_response sid resp s)"
  "do_submit_response_headers sid resp (rd r s) = rd r (do_submit_response_headers sid resp s)"
  "do_submit_data sid x fin (rd r s) = rd r (do_submit_data sid x fin s)"
  "do_submit_trailers sid tr (rd r s) = rd r (do_submit_trailers sid tr s)"
  "set_data_callback sid cb (rd r s) = rd r (set_data_callback sid cb s)"
  by (simp_all add: do_submit_response_def do_submit_response_headers_def do_submit_data_def
      do_submit_trailers_def set_data_callback_def rd_simps Let_def)

text \<open>A fallible operation commutes with replacing the reader.\<close>

definition rd_map :: "h2_reader \<Rightarrow> 'u h2_session res \<Rightarrow> 'u h2_session res" where
  "rd_map r m = bindE m (\<lambda>t. Inr (rd r t))"

lemma rd_map_simps [simp]: "rd_map r (Inl e) = Inl e" "rd_map r (Inr s) = Inr (rd r s)"
  by (simp_all add: rd_map_def)

lemma bindE_rd_map: "(\<And>t. f (rd r t) = rd_map r (f t)) \<Longrightarrow> bindE (rd_map r m) f = rd_map r (bindE m f)"
  by (cases m) auto

lemma rd_push [rd_simps]:
  "do_submit_push par req resp (rd r s) = bindE (do_submit_push par req resp s) (\<lambda>(i, t). Inr (i, rd r t))"
  "do_submit_request req p ne (rd r s) = bindE (do_submit_request req p ne s) (\<lambda>(i, t). Inr (i, rd r t))"
  by (simp_all add: do_submit_push_def do_submit_request_def rd_simps Let_def split: prod.splits)

lemma rd_call [rd_simps]: "run_call c (rd r s) = rd_map r (run_call c s)"
  by (cases c)
     (auto simp: rd_simps make_promise_def get_pending_output_def take_completed_promises_def bindE_def
       split: sum.splits)

lemma rd_calls [rd_simps]: "run_calls cs (rd r s) = rd_map r (run_calls cs s)"
  by (induction cs arbitrary: s) (simp_all add: rd_call bindE_rd_map)

lemma rd_callback [rd_simps]: "callback x (rd r s) = rd_map r (callback x s)"
  by (cases x) (auto simp: callback_def rd_simps)

lemma rd_pushes [rd_simps]: "submit_pushes sid ps (rd r s) = rd_map r (submit_pushes sid ps s)"
proof (induction sid ps s rule: submit_pushes.induct)
  case (2 sid req resp ps s)
  then show ?case
    by (cases "do_submit_push sid req resp s") (auto simp: rd_push(1))
qed simp

lemma rd_respond [rd_simps]: "respond_request app sid (rd r s) = rd_map r (respond_request app sid s)"
  by (auto simp: respond_request_def rd_simps Let_def bindE_def rd_map_def split: option.splits prod.splits sum.splits)

lemma rd_dispatch [rd_simps]: "dispatch_request app sid (rd r s) = rd_map r (dispatch_request app sid s)"
  by (auto simp: dispatch_request_def rd_simps Let_def bindE_def rd_map_def split: option.splits prod.splits sum.splits)

lemma rd_complete [rd_simps]: "complete_promise app sid (rd r s) = rd_map r (complete_promise app sid s)"
  by (auto simp: complete_promise_def rd_simps Let_def split: option.splits)

lemma rd_decode [rd_simps]: "decode_block b (rd r s) = bindE (decode_block b s) (\<lambda>(hs, t). Inr (hs, rd r t))"
  by (auto simp: decode_block_def rd_simps bindE_def split: sum.splits)

lemma rd_apply_headers [rd_simps]: "apply_headers app sid hs fin (rd r s) = rd_map r (apply_headers app sid hs fin s)"
  by (auto simp: apply_headers_def rd_simps Let_def bindE_def rd_map_def split: option.splits prod.splits sum.splits)

lemma rd_apply_response [rd_simps]:
  "apply_response_headers app sid hs fin (rd r s) = rd_map r (apply_response_headers app sid hs fin s)"
  by (auto simp: apply_response_headers_def rd_simps Let_def)

lemma rd_handle_data [rd_simps]: "handle_data app f (rd r s) = rd_map r (handle_data app f s)"
proof -
  have "bindE (rd_map r m) (\<lambda>s1. case refill 0 (s_conn_recv_window s1 - n) of (cw, cout) \<Rightarrow>
      (case refill sid (ss_recv_window (stream_at s1 sid) - n) of (sw, sout) \<Rightarrow> k s1 cw cout sw sout)) =
    rd_map r (bindE m (\<lambda>s1. case refill 0 (s_conn_recv_window s1 - n) of (cw, cout) \<Rightarrow>
      (case refill sid (ss_recv_window (stream_at s1 sid) - n) of (sw, sout) \<Rightarrow> k s1 cw cout sw sout)))"
    if "\<And>t cw cout sw sout. k (rd r t) cw cout sw sout = rd_map r (k t cw cout sw sout)" for m k n sid
    by (rule bindE_rd_map) (auto simp: that split: prod.splits)
  then show ?thesis
    unfolding handle_data_def Let_def
    by (auto simp: rd_simps Let_def split: option.splits sum.splits)
       (auto intro!: bindE_rd_map simp: rd_simps split: prod.splits)
qed

lemma rd_headers_server [rd_simps]:
  "handle_headers_server app sid b eh fin (rd r s) = rd_map r (handle_headers_server app sid b eh fin s)"
  by (auto simp: handle_headers_server_def rd_simps Let_def bindE_def rd_map_def split: option.splits sum.splits)

lemma rd_headers_client [rd_simps]:
  "handle_headers_client app sid b eh fin (rd r s) = rd_map r (handle_headers_client app sid b eh fin s)"
  by (auto simp: handle_headers_client_def rd_simps Let_def bindE_def rd_map_def split: option.splits sum.splits)

lemma rd_headers [rd_simps]: "handle_headers app f (rd r s) = rd_map r (handle_headers app f s)"
  by (auto simp: handle_headers_def rd_simps Let_def split: sum.splits)

lemma rd_continuation [rd_simps]: "handle_continuation app f (rd r s) = rd_map r (handle_continuation app f s)"
  by (auto simp: handle_continuation_def rd_simps Let_def bindE_def rd_map_def split: option.splits sum.splits)

lemma rd_apply_settings: "apply_settings es (rd r s) = (let (ok, t) = apply_settings es s in (ok, rd r t))"
  by (induction es arbitrary: s) (auto simp: rd_simps Let_def split: setting_id.splits prod.splits)

lemma rd_handlers [rd_simps]:
  "handle_settings f (rd r s) = rd r (handle_settings f s)" "handle_ping f (rd r s) = rd r (handle_ping f s)"
  "handle_goaway f (rd r s) = rd r (handle_goaway f s)" "handle_window_update f (rd r s) = rd r (handle_window_update f s)"
  by (auto simp: handle_settings_def handle_ping_def handle_goaway_def handle_window_update_def rd_apply_settings
      rd_simps Let_def split: prod.splits option.splits)

lemma rd_rst_stream [rd_simps]: "handle_rst_stream app f (rd r s) = rd_map r (handle_rst_stream app f s)"
  by (auto simp: handle_rst_stream_def rd_simps Let_def bindE_def rd_map_def split: option.splits sum.splits)

lemma rd_push_promise [rd_simps]: "handle_push_promise app f (rd r s) = rd_map r (handle_push_promise app f s)"
  by (auto simp: handle_push_promise_def make_promise_def rd_simps Let_def bindE_def rd_map_def
      split: option.splits sum.splits)

lemma rd_process_frame [rd_simps]: "process_frame app f (rd r s) = rd_map r (process_frame app f s)"
  by (auto simp: process_frame_def rd_simps split: frame_type.splits)

section \<open>The frame-level session\<close>

text \<open>The session as a machine over frames: the frames in order, until one ends the connection.\<close>

fun process_frames :: "'u h2_app \<Rightarrow> h2_frame list \<Rightarrow> 'u h2_session \<Rightarrow> 'u h2_session res" where
  "process_frames app [] s = Inr s"
| "process_frames app (f # fs) s = (if s_alive s then bindE (process_frame app f s) (process_frames app fs) else Inr s)"

lemma process_frames_dead: "\<not> s_alive s \<Longrightarrow> process_frames app fs s = Inr s"
  by (cases fs) auto

lemma process_frames_append:
  "process_frames app (fs @ gs) s = bindE (process_frames app fs s) (process_frames app gs)"
proof (induction fs arbitrary: s)
  case (Cons f fs)
  then show ?case by (cases "process_frame app f s") (auto simp: process_frames_dead)
qed simp

lemma rd_process_frames [rd_simps]: "process_frames app fs (rd r s) = rd_map r (process_frames app fs s)"
  by (induction fs arbitrary: s) (auto simp: rd_process_frame bindE_rd_map)

definition reader_clean :: "h2_reader \<Rightarrow> bool" where
  "reader_clean r \<longleftrightarrow> reader_idle r \<and> h2_buffered r = []"

text \<open>A reader between frames, fed a whole frame and more, takes up exactly the frame.\<close>

lemma feed_whole_frame:
  assumes "reader_clean r" and "frame_wf f" and "h2_reader_feed r (encode_frame f @ w) = (r1, c)"
  shows "c = length (encode_frame f) \<and> h2_has_frame r1 \<and> h2_reader_ok r1 \<and>
    fst (h2_take_frame r1) = f \<and> reader_clean (snd (h2_take_frame r1))"
proof -
  have ok: "h2_reader_ok r" "h2_buffered r = []" using assms(1) by (simp_all add: reader_clean_def reader_idle_def)
  note ok1 = h2_stream.feed_ok [OF ok(1) assms(3)]
  have buf: "c \<le> length (encode_frame f @ w)" "h2_buffered r1 = take c (encode_frame f @ w)"
    using h2_stream.feed_moves [OF ok(1) assms(3)] ok(2) by auto
  have has: "h2_has_frame r1"
  proof (rule ccontr)
    assume no: "\<not> h2_has_frame r1"
    then have "h2_buffered r1 = encode_frame f @ w"
      using h2_stream.feed_stops [OF ok(1) assms(3)] buf by simp
    then show False using no_frame_parse [OF ok1 no] parse_encode_frame [OF assms(2)] by simp
  qed
  have "h2_parse_frame (encode_frame f @ w) = Some (fst (h2_take_frame r1), drop c (encode_frame f @ w))"
    using take_frame_parse [OF ok1 has, of "drop c (encode_frame f @ w)"]
    unfolding buf(2) append_take_drop_id .
  then have tk: "fst (h2_take_frame r1) = f" "drop c (encode_frame f @ w) = w"
    unfolding parse_encode_frame [OF assms(2), of w] by (metis option.inject prod.inject)+
  have "length (encode_frame f @ w) - c = length w" using tk(2) by (metis length_drop)
  then have "c = length (encode_frame f)" using buf(1) by simp
  moreover have "reader_clean (snd (h2_take_frame r1))"
    using ok1 by (auto simp: reader_clean_def reader_idle_def h2_take_frame_def h2_reader_ok_def h2_buffered_def h2_has_frame_def)
  ultimately show ?thesis using has ok1 tk(1) by simp
qed

lemma encode_frame_nonempty: "encode_frame f \<noteq> []"
  by (simp add: encode_frame_def h2_build_frame_def write_to_def be24_def)

lemma feed_one_frame:
  assumes "reader_clean (s_reader s)" and "frame_wf f" and "s_alive s"
  obtains r where "reader_clean r"
    and "h2_feed_loop app (encode_frame f @ w) n s =
      bindE (rd_map r (process_frame app f s)) (h2_feed_loop app w (n + length (encode_frame f)))"
proof -
  obtain r1 c where fd: "h2_reader_feed (s_reader s) (encode_frame f @ w) = (r1, c)" by force
  note whole = feed_whole_frame [OF assms(1,2) fd]
  obtain r where tk: "h2_take_frame r1 = (f, r)" using whole by (metis prod.collapse)
  have "reader_clean r" using whole tk by simp
  moreover have "process_available app (s\<lparr>s_reader := r1\<rparr>) = rd_map r (process_frame app f s)"
    using whole tk rd_process_frame [of app f r s] by (simp add: process_available_def rd_def)
  then have "h2_feed_loop app (encode_frame f @ w) n s =
      bindE (rd_map r (process_frame app f s)) (h2_feed_loop app w (n + length (encode_frame f)))"
    using assms(3) whole fd encode_frame_nonempty [of f]
    by (simp add: h2_feed_loop.simps [of app "encode_frame f @ w"])
  ultimately show thesis using that by blast
qed

lemma feed_frames:
  assumes "reader_clean (s_reader s)" and "list_all frame_wf fs"
  shows "bindE (h2_feed_loop app (concat (map encode_frame fs)) n s) (\<lambda>(_, t). Inr (rd q t)) =
    rd_map q (process_frames app fs s) \<and>
    (\<forall>m t. h2_feed_loop app (concat (map encode_frame fs)) n s = Inr (m, t) \<longrightarrow> s_alive t \<longrightarrow>
       m = n + length (concat (map encode_frame fs)) \<and> reader_clean (s_reader t))"
  using assms
proof (induction fs arbitrary: s n)
  case Nil
  then show ?case by (simp add: h2_feed_loop.simps [of app "[]"])
next
  case (Cons f fs)
  show ?case
  proof (cases "s_alive s")
    case False
    then show ?thesis by (auto simp: h2_feed_loop.simps)
  next
    case True
    have wf: "frame_wf f" "list_all frame_wf fs" using Cons.prems(2) by simp_all
    obtain r where r: "reader_clean r" "h2_feed_loop app (encode_frame f @ concat (map encode_frame fs)) n s =
        bindE (rd_map r (process_frame app f s)) (h2_feed_loop app (concat (map encode_frame fs)) (n + length (encode_frame f)))"
      using feed_one_frame [OF Cons.prems(1) wf(1) True] by metis
    show ?thesis
    proof (cases "process_frame app f s")
      case (Inl e)
      then show ?thesis using True r(2) by simp
    next
      case (Inr t)
      have "rd_map q (process_frames app fs (rd r t)) = rd_map q (process_frames app fs t)"
        by (cases "process_frames app fs t") (simp_all add: rd_process_frames)
      then show ?thesis
        using Cons.IH [OF _ wf(2), of "rd r t" "n + length (encode_frame f)"] r True Inr by (simp add: add.assoc)
    qed
  qed
qed

section \<open>Messages as frames\<close>

definition mk_frame :: "frame_type \<Rightarrow> byte \<Rightarrow> int \<Rightarrow> bytes \<Rightarrow> h2_frame" where
  "mk_frame t fl sid payload =
     \<lparr>fr_hdr = \<lparr>fh_length = of_nat (length payload), fh_type = t, fh_flags = fl, fh_stream_id = sid\<rparr>, fr_payload = payload\<rparr>"

lemma mk_frame_sel [simp]:
  "fh_type (fr_hdr (mk_frame t fl sid d)) = t" "fh_flags (fr_hdr (mk_frame t fl sid d)) = fl"
  "fh_stream_id (fr_hdr (mk_frame t fl sid d)) = sid" "fr_payload (mk_frame t fl sid d) = d"
  "has_flag (fr_hdr (mk_frame t fl sid d)) b = ((fl AND b) \<noteq> 0)"
  by (simp_all add: mk_frame_def has_flag_def)

lemma encode_mk_frame [simp]: "encode_frame (mk_frame t fl sid d) = h2_build_frame t fl sid d"
  by (simp add: encode_frame_def)

lemma frame_wf_mk:
  assumes "canonical_type t" and "0 \<le> sid" and "sid < 2 ^ 31" and "length d < 2 ^ 24"
  shows "frame_wf (mk_frame t fl sid d)"
proof -
  have "unat (of_nat (length d) :: u32) = length d"
    using assms(4) by (simp add: unsigned_of_nat take_bit_nat_eq_self)
  then show ?thesis using assms by (simp add: frame_wf_def frame_header_wf_def mk_frame_def)
qed

function continuation_list :: "nat \<Rightarrow> int \<Rightarrow> bytes \<Rightarrow> h2_frame list" where
  "continuation_list mx sid block =
     (if block = [] \<or> mx = 0 then []
      else mk_frame CONTINUATION (if drop mx block = [] then FLAG_END_HEADERS else 0) sid (take mx block)
           # continuation_list mx sid (drop mx block))"
  by pat_completeness auto
termination
  by (relation "measure (\<lambda>(_, _, block). length block)") auto

declare continuation_list.simps [simp del]

definition header_list :: "nat \<Rightarrow> bool \<Rightarrow> int \<Rightarrow> bytes \<Rightarrow> h2_frame list" where
  "header_list mx fin sid block =
     (let fl = (if fin then FLAG_END_STREAM else 0)
      in if length block \<le> mx then [mk_frame HEADERS (fl OR FLAG_END_HEADERS) sid block]
         else mk_frame HEADERS fl sid (take mx block) # continuation_list mx sid (drop mx block))"

function data_list :: "nat \<Rightarrow> int \<Rightarrow> bool \<Rightarrow> bytes \<Rightarrow> h2_frame list" where
  "data_list mx sid fin body =
     (if body = [] \<or> mx = 0 then []
      else mk_frame DATA (if fin \<and> drop mx body = [] then FLAG_END_STREAM else 0) sid (take mx body)
           # data_list mx sid fin (drop mx body))"
  by pat_completeness auto
termination
  by (relation "measure (\<lambda>(_, _, _, body). length body)") auto

declare data_list.simps [simp del]

lemma encode_continuation_list: "concat (map encode_frame (continuation_list mx sid block)) = continuation_frames mx sid block"
  by (induction mx sid block rule: continuation_list.induct)
     (simp add: continuation_list.simps [of _ _ block for block] continuation_frames.simps [of _ _ block for block])

lemma encode_data_list: "concat (map encode_frame (data_list mx sid fin body)) = data_frames mx sid fin body"
  by (induction mx sid fin body rule: data_list.induct)
     (simp add: data_list.simps [of _ _ _ body for body] data_frames.simps [of _ _ _ body for body])

lemma enqueue_headers_frames:
  assumes "hpack_encode hs (s_encoder s) = (block, enc)"
  shows "enqueue_headers sid (if fin then FLAG_END_STREAM else 0) hs s =
    enqueue (concat (map encode_frame (header_list (s_peer_max_frame_size s) fin sid block))) (s\<lparr>s_encoder := enc\<rparr>)"
  using assms by (simp add: enqueue_headers_def build_headers_frame_def header_list_def encode_continuation_list Let_def)

lemma message_frames_wf:
  assumes "0 \<le> sid" and "sid < 2 ^ 31" and "mx < 2 ^ 24"
  shows "list_all frame_wf (header_list mx fin sid block)" "list_all frame_wf (data_list mx sid fin body)"
proof -
  have "list_all frame_wf (continuation_list mx sid b)" for b
    using assms
  proof (induction mx sid b rule: continuation_list.induct)
    case (1 mx sid b)
    then show ?case by (auto simp: continuation_list.simps [of mx sid b] intro!: frame_wf_mk)
  qed
  then show "list_all frame_wf (header_list mx fin sid block)"
    using assms by (simp add: header_list_def Let_def frame_wf_mk)
  show "list_all frame_wf (data_list mx sid fin body)"
    using assms
  proof (induction mx sid fin body rule: data_list.induct)
    case (1 mx sid fin body)
    then show ?case by (auto simp: data_list.simps [of mx sid fin body] intro!: frame_wf_mk)
  qed
qed

section \<open>Receiving a header block\<close>

definition finish_block :: "'u h2_app \<Rightarrow> int \<Rightarrow> bool \<Rightarrow> bytes \<Rightarrow> 'u h2_session \<Rightarrow> 'u h2_session res" where
  "finish_block app sid fin block s =
     bindE (hpack_decode (s_decoder s) block) (\<lambda>(hs, dec).
       (if s_mode s = Server then apply_headers else apply_response_headers) app sid hs fin (s\<lparr>s_decoder := dec\<rparr>))"

lemma upd_stream_compose: "upd_stream sid f (upd_stream sid g s) = upd_stream sid (\<lambda>x. f (g x)) s"
  by (simp add: upd_stream_def option.map_comp comp_def)

lemma upd_stream_fields [simp]:
  "s_mode (upd_stream sid f s) = s_mode s" "s_alive (upd_stream sid f s) = s_alive s" "s_decoder (upd_stream sid f s) = s_decoder s"
  "s_continuation_stream (upd_stream sid f s) = s_continuation_stream s"
  "s_streams (upd_stream sid f s) sid = map_option f (s_streams s sid)"
  by (simp_all add: upd_stream_def)

lemma process_frames_last [simp]: "bindE m (process_frames app []) = m"
  by (cases m) auto

text \<open>The pieces of a block are collected and the block is handled as if it had come in one frame.\<close>

lemma process_continuations:
  assumes "s_streams s sid = Some ss" and "s_continuation_stream s = sid" and "sid \<noteq> 0" and "s_alive s"
    and "0 < mx" and "block \<noteq> []"
  shows "process_frames app (continuation_list mx sid block) s =
    finish_block app sid (ss_end_stream ss) (ss_pending ss @ block)
      ((upd_stream sid (\<lambda>ss. ss\<lparr>ss_pending := []\<rparr>) s)\<lparr>s_continuation_stream := 0\<rparr>)"
  using assms
proof (induction mx sid block arbitrary: s ss rule: continuation_list.induct)
  case (1 mx sid block)
  note unfold = continuation_list.simps [of mx sid block]
  show ?case
  proof (cases "drop mx block = []")
    case True
    then have all: "take mx block = block" by simp
    define full where "full = ss_pending ss @ block"
    define E where "E dec = ((upd_stream sid (\<lambda>ss. ss\<lparr>ss_pending := []\<rparr>) s)\<lparr>s_continuation_stream := 0\<rparr>)\<lparr>s_decoder := dec\<rparr>" for dec
    have E: "upd_stream sid (\<lambda>ss. ss\<lparr>ss_pending := []\<rparr>)
        ((upd_stream sid (\<lambda>ss. ss\<lparr>ss_pending := full\<rparr>) s)\<lparr>s_continuation_stream := 0, s_decoder := dec\<rparr>) = E dec"
      "s_mode (E dec) = s_mode s" "ss_end_stream (stream_at (E dec) sid) = ss_end_stream ss" for dec
      using 1(2) by (simp_all add: E_def upd_stream_def stream_at_def)
    show ?thesis
    proof (cases "hpack_decode (s_decoder s) full")
      case (Inl e)
      then show ?thesis
        using 1(2-7) True all
        by (simp add: unfold process_frame_def handle_continuation_def decode_block_def finish_block_def full_def)
    next
      case (Inr x)
      obtain hs dec where x: "x = (hs, dec)" by force
      have "process_frame app (mk_frame CONTINUATION FLAG_END_HEADERS sid block) s =
          (if s_mode s = Server then apply_headers else apply_response_headers) app sid hs (ss_end_stream ss) (E dec)"
        using 1(2-4) Inr x E
        by (simp add: process_frame_def handle_continuation_def decode_block_def full_def [symmetric] Let_def)
      then show ?thesis
        using 1(2-7) True all Inr x
        by (simp add: unfold continuation_list.simps [of _ _ "[]"] finish_block_def full_def [symmetric] E_def [symmetric])
    qed
  next
    case False
    define s1 where "s1 = upd_stream sid (\<lambda>x. x\<lparr>ss_pending := ss_pending ss @ take mx block\<rparr>) s"
    have step: "process_frame app (mk_frame CONTINUATION 0 sid (take mx block)) s = Inr s1"
      using 1(2-4) by (simp add: process_frame_def handle_continuation_def s1_def Let_def)
    have "process_frames app (continuation_list mx sid (drop mx block)) s1 =
      finish_block app sid (ss_end_stream ss) (ss_pending ss @ block)
        ((upd_stream sid (\<lambda>ss. ss\<lparr>ss_pending := []\<rparr>) s1)\<lparr>s_continuation_stream := 0\<rparr>)"
      using 1(1) [of s1 "ss\<lparr>ss_pending := ss_pending ss @ take mx block\<rparr>"] 1(2-7) False by (simp add: s1_def)
    then show ?thesis
      using 1(2-7) False step by (simp add: unfold) (simp add: s1_def upd_stream_compose)
  qed
qed

lemma flag_evals [simp]:
  "((if fin then FLAG_END_STREAM else 0) OR FLAG_END_HEADERS) AND FLAG_PADDED = (0 :: byte)"
  "((if fin then FLAG_END_STREAM else 0) OR FLAG_END_HEADERS) AND FLAG_PRIORITY = (0 :: byte)"
  "(if fin then FLAG_END_STREAM else 0) AND FLAG_PADDED = (0 :: byte)"
  "(if fin then FLAG_END_STREAM else 0) AND FLAG_PRIORITY = (0 :: byte)"
  "(if fin then FLAG_END_STREAM else 0) AND FLAG_END_HEADERS = (0 :: byte)"
  "(((if fin then FLAG_END_STREAM else 0) OR FLAG_END_HEADERS) AND FLAG_END_HEADERS \<noteq> (0 :: byte))"
  "(((if fin then FLAG_END_STREAM else 0) OR FLAG_END_HEADERS) AND FLAG_END_STREAM = (0 :: byte)) \<longleftrightarrow> \<not> fin"
  "((if fin then FLAG_END_STREAM else 0) AND FLAG_END_STREAM = (0 :: byte)) \<longleftrightarrow> \<not> fin"
  by (simp_all add: or_eq_0_iff)

text \<open>A request's header block on a stream the server has not seen.\<close>

definition open_stream :: "int \<Rightarrow> 'u h2_session \<Rightarrow> 'u h2_session" where
  "open_stream sid s = (set_stream sid (stream_default\<lparr>ss_id := sid, ss_state := Open\<rparr>) s)
     \<lparr>s_last_client_stream := max (s_last_client_stream s) sid\<rparr>"

lemma apply_headers_end:
  "apply_headers app sid hs fin (upd_stream sid (\<lambda>x. x\<lparr>ss_end_stream := ss_end_stream x \<or> fin\<rparr>) s) = apply_headers app sid hs fin s"
proof (cases fin)
  case True
  have "upd_stream sid (\<lambda>ss. ss\<lparr>ss_end_stream := True\<rparr>) (upd_stream sid (\<lambda>ss. ss\<lparr>ss_headers_complete := True, ss_req := g ss\<rparr>)
      (upd_stream sid (\<lambda>x. x\<lparr>ss_end_stream := True\<rparr>) s)) =
    upd_stream sid (\<lambda>ss. ss\<lparr>ss_end_stream := True\<rparr>) (upd_stream sid (\<lambda>ss. ss\<lparr>ss_headers_complete := True, ss_req := g ss\<rparr>) s)"
    if "\<And>x. g (x\<lparr>ss_end_stream := True\<rparr>) = g x" for g
    by (simp add: upd_stream_compose that)
  then show ?thesis using True by (simp add: apply_headers_def Let_def cong: option.case_cong)
qed (simp add: upd_stream_def map_option.id [unfolded id_def])

lemma apply_response_headers_end:
  "apply_response_headers app sid hs fin (upd_stream sid (\<lambda>x. x\<lparr>ss_end_stream := ss_end_stream x \<or> fin\<rparr>) s) =
   apply_response_headers app sid hs fin s"
  by (cases fin) (simp_all add: apply_response_headers_def upd_stream_compose Let_def)

lemma finish_block_end:
  "finish_block app sid fin b (upd_stream sid (\<lambda>x. x\<lparr>ss_end_stream := ss_end_stream x \<or> fin\<rparr>) s) = finish_block app sid fin b s"
proof -
  have "(upd_stream sid f s)\<lparr>s_decoder := d\<rparr> = upd_stream sid f (s\<lparr>s_decoder := d\<rparr>)" for f d
    by (simp add: upd_stream_def)
  then show ?thesis
    by (simp add: finish_block_def apply_headers_end apply_response_headers_end)
qed

text \<open>
  A block that was begun in \<open>s\<close> and is finished by its continuations, starting from an empty
  pending buffer, has the effect of the whole block on \<open>s\<close>.
\<close>

lemma continued_block:
  assumes "s_streams s sid = Some ss" and "ss_pending ss = []" and "\<not> ss_end_stream ss" and "s_continuation_stream s = 0"
    and "sid \<noteq> 0" and "s_alive s" and "0 < mx" and "mx < length block"
  shows "process_frames app (continuation_list mx sid (drop mx block)) (begin_continuation sid (take mx block) fin s) =
    finish_block app sid fin block s"
proof -
  let ?s = "begin_continuation sid (take mx block) fin s"
  have "s_streams ?s sid = Some (ss\<lparr>ss_pending := take mx block, ss_end_stream := fin\<rparr>)"
    "s_continuation_stream ?s = sid" "s_alive ?s"
    using assms by (simp_all add: begin_continuation_def)
  moreover have "drop mx block \<noteq> []" using assms(8) by simp
  moreover have "(upd_stream sid (\<lambda>ss. ss\<lparr>ss_pending := []\<rparr>) ?s)\<lparr>s_continuation_stream := 0\<rparr> =
      upd_stream sid (\<lambda>x. x\<lparr>ss_end_stream := ss_end_stream x \<or> fin\<rparr>) s"
    using assms(1-4) by (cases s; cases ss) (simp add: begin_continuation_def upd_stream_def)
  ultimately show ?thesis
    using process_continuations [of ?s sid _ mx "drop mx block" app] assms(5,7) by (simp add: finish_block_end)
qed

lemma server_block:
  assumes "s_mode s = Server" and "s_streams s sid = None" and "s_continuation_stream s = 0" and "s_alive s"
    and "sid \<noteq> 0" and "0 < mx"
  shows "process_frames app (header_list mx fin sid block) s = finish_block app sid fin block (open_stream sid s)"
proof -
  have head: "process_frame app (mk_frame HEADERS fl sid b) s =
      handle_headers_server app sid b (fl AND FLAG_END_HEADERS \<noteq> 0) (fl AND FLAG_END_STREAM \<noteq> 0) s"
    if "fl AND FLAG_PADDED = 0" "fl AND FLAG_PRIORITY = 0" for fl b
    using assms that by (simp add: process_frame_def handle_headers_def strip_padding_def strip_priority_def Let_def)
  have op: "s_mode (open_stream sid s) = Server" "s_alive (open_stream sid s)" "s_continuation_stream (open_stream sid s) = 0"
    "s_decoder (open_stream sid s) = s_decoder s"
    "s_streams (open_stream sid s) sid = Some (stream_default\<lparr>ss_id := sid, ss_state := Open\<rparr>)"
    using assms by (simp_all add: open_stream_def set_stream_def)
  have st: "stream_at s sid = stream_default" using assms(2) by (simp add: stream_at_def)
  show ?thesis
  proof (cases "length block \<le> mx")
    case True
    have "process_frames app (header_list mx fin sid block) s = handle_headers_server app sid block True fin s"
      using True assms(4) by (simp add: header_list_def Let_def head)
    also have "\<dots> = finish_block app sid fin block (open_stream sid s)"
      using assms(2) op by (simp add: handle_headers_server_def st open_stream_def [symmetric] Let_def decode_block_def
          finish_block_def bindE_def split: sum.splits)
    finally show ?thesis .
  next
    case False
    have "process_frames app (header_list mx fin sid block) s =
        process_frames app (continuation_list mx sid (drop mx block)) (begin_continuation sid (take mx block) fin (open_stream sid s))"
      using False assms(2,4) by (simp add: header_list_def Let_def head handle_headers_server_def st open_stream_def [symmetric])
    then show ?thesis
      using continued_block [OF op(5) _ _ op(3) assms(5) op(2) assms(6)] False by (simp add: stream_default_def)
  qed
qed

text \<open>A response's header block, or its trailers, on a stream the client opened and reads as a whole.\<close>

lemma client_block:
  assumes "s_mode s = Client" and "s_streams s sid = Some ss" and "ss_data_cb ss = None" and "ss_pending ss = []"
    and "\<not> ss_end_stream ss" and "s_continuation_stream s = 0" and "s_alive s" and "sid \<noteq> 0" and "0 < mx"
  shows "process_frames app (header_list mx fin sid block) s = finish_block app sid fin block s"
proof -
  have head: "process_frame app (mk_frame HEADERS fl sid b) s =
      handle_headers_client app sid b (fl AND FLAG_END_HEADERS \<noteq> 0) (fl AND FLAG_END_STREAM \<noteq> 0) s"
    if "fl AND FLAG_PADDED = 0" "fl AND FLAG_PRIORITY = 0" for fl b
    using assms that by (simp add: process_frame_def handle_headers_def strip_padding_def strip_priority_def Let_def)
  show ?thesis
  proof (cases "length block \<le> mx")
    case True
    then show ?thesis
      using assms(1-3,7) by (simp add: header_list_def Let_def head handle_headers_client_def decode_block_def
          finish_block_def bindE_def split: sum.splits)
  next
    case False
    then show ?thesis
      using assms(1-3,7) continued_block [OF assms(2,4,5,6,8,7,9)]
      by (simp add: header_list_def Let_def head handle_headers_client_def)
  qed
qed

section \<open>Receiving a body\<close>

definition finish_message :: "'u h2_app \<Rightarrow> int \<Rightarrow> 'u h2_session \<Rightarrow> 'u h2_session res" where
  "finish_message app sid s = (if s_mode s = Server then dispatch_request app sid s else complete_promise app sid s)"

text \<open>
  The session after body bytes have been collected: the stream holds them, and the flow control
  counters and the output have moved.
\<close>

definition with_body :: "int \<Rightarrow> bytes \<Rightarrow> bool \<Rightarrow> bytes \<Rightarrow> int \<Rightarrow> int \<Rightarrow> 'u h2_session \<Rightarrow> 'u h2_session" where
  "with_body sid d fin out cw sw s =
     upd_stream sid (\<lambda>ss. ss\<lparr>ss_body := ss_body ss @ d, ss_recv_window := sw, ss_end_stream := ss_end_stream ss \<or> fin\<rparr>)
       (s\<lparr>s_conn_recv_window := cw, s_output := s_output s @ out\<rparr>)"

lemma with_body_compose:
  "with_body sid d2 f2 o2 c2 w2 (with_body sid d1 False o1 c1 w1 s) = with_body sid (d1 @ d2) f2 (o1 @ o2) c2 w2 s"
  by (simp add: with_body_def upd_stream_def option.map_comp comp_def)

lemma process_data_frame:
  assumes "s_streams s sid = Some ss" and "ss_data_cb ss = None" and "\<not> ss_streaming_handled ss"
    and "s_continuation_stream s = 0" and "sid \<noteq> 0"
  shows "\<exists>out cw sw. process_frame app (mk_frame DATA (if fin then FLAG_END_STREAM else 0) sid d) s =
    (if fin then finish_message app sid else Inr) (with_body sid d fin out cw sw s)"
proof -
  obtain cw cout where c: "refill 0 (s_conn_recv_window s - int (length d)) = (cw, cout)" by force
  obtain sw sout where w: "refill sid (ss_recv_window ss - int (length d)) = (sw, sout)" by force
  have "process_frame app (mk_frame DATA (if fin then FLAG_END_STREAM else 0) sid d) s =
      (if fin then finish_message app sid else Inr) (with_body sid d fin (cout @ sout) cw sw s)"
    using assms c w
    by (cases fin)
       (simp_all add: process_frame_def handle_data_def strip_padding_def Let_def finish_message_def with_body_def
         stream_at_def upd_stream_def enqueue_def)
  then show ?thesis by blast
qed

lemma process_data:
  assumes "s_streams s sid = Some ss" and "ss_data_cb ss = None" and "\<not> ss_streaming_handled ss"
    and "s_continuation_stream s = 0" and "s_alive s" and "sid \<noteq> 0" and "0 < mx" and "body \<noteq> []"
  shows "\<exists>out cw sw. process_frames app (data_list mx sid fin body) s =
    (if fin then finish_message app sid else Inr) (with_body sid body fin out cw sw s)"
  using assms
proof (induction mx sid fin body arbitrary: s ss rule: data_list.induct)
  case (1 mx sid fin body)
  note unfold = data_list.simps [of mx sid fin body]
  show ?case
  proof (cases "drop mx body = []")
    case True
    then show ?thesis
      using 1(6-9) process_data_frame [OF 1(2-5,7), of app fin body] by (simp add: unfold data_list.simps [of _ _ _ "[]"])
  next
    case False
    obtain o1 c1 w1 where step: "process_frame app (mk_frame DATA 0 sid (take mx body)) s =
        Inr (with_body sid (take mx body) False o1 c1 w1 s)"
      using process_data_frame [OF 1(2-5,7), of app False "take mx body"] by auto
    let ?s = "with_body sid (take mx body) False o1 c1 w1 s"
    have "s_streams ?s sid = Some (ss\<lparr>ss_body := ss_body ss @ take mx body, ss_recv_window := w1\<rparr>)"
      "s_continuation_stream ?s = 0" "s_alive ?s"
      using 1(2,5,6) by (simp_all add: with_body_def)
    then obtain o2 c2 w2 where "process_frames app (data_list mx sid fin (drop mx body)) ?s =
        (if fin then finish_message app sid else Inr) (with_body sid (drop mx body) fin o2 c2 w2 ?s)"
      using 1(1) [of ?s] 1(3,4,7,8,9) False by fastforce
    then show ?thesis
      using 1(6-9) False step by (auto simp: unfold with_body_compose)
  qed
qed

section \<open>A request from client to server\<close>

definition request_extra_headers :: "request \<Rightarrow> (bytes \<times> bytes) list" where
  "request_extra_headers req = filter (\<lambda>(lk, v). lk \<notin> {str ''host'', str ''connection''}) (lower_headers (rq_hdrs req))"

text \<open>
  The request the server's handler is given.  A header of the name \<^verbatim>\<open>:authority\<close>, which the client of this library adds,
  arrives as another \<^verbatim>\<open>Host\<close>.
\<close>

definition received_field :: "bytes \<times> bytes \<Rightarrow> bytes \<times> bytes" where
  "received_field h = (if fst h = str '':authority'' then str ''Host'' else fst h, snd h)"

definition received_request :: "request \<Rightarrow> request" where
  "received_request req =
     (split_path (if rq_path req = [] then str ''/'' else rq_path req) request_default)
       \<lparr>rq_method := rq_method req, rq_ver := HTTP_2,
        rq_hdrs := (str ''Host'', case hdrs_get (str ''Host'') (rq_hdrs req) of Some h \<Rightarrow> h | None \<Rightarrow> str ''localhost'')
                   # map received_field (request_extra_headers req),
        rq_bd := rq_bd req\<rparr>"

lemma split_path_query:
  "split_path p req = (let path = takeWhile (\<lambda>b. b \<noteq> 0x3F) p
     in req\<lparr>rq_path := if path = [] then str ''/'' else path, rq_query := if path = p then rq_query req else drop (length path + 1) p\<rparr>)"
proof (cases rule: find_char_cases [of "0x3F" p])
  case none
  have "find_sub (str ''?'') p = None" using none by simp
  then show ?thesis unfolding split_path_def Let_def none(1) by (cases req) simp
next
  case (some t q)
  have "find_sub (str ''?'') p = Some (length t)" using some by simp
  then show ?thesis unfolding split_path_def Let_def some(2) using some(1) by (cases req) simp
qed

lemma pseudo_names: "is_pseudo (str '':method'')" "is_pseudo (str '':path'')" "is_pseudo (str '':scheme'')"
  "is_pseudo (str '':authority'')" "is_pseudo (str '':status'')"
  by (simp_all add: is_pseudo_def)

lemma fold_request_extra:
  assumes "list_all (\<lambda>(n, v). is_pseudo n \<longrightarrow> n = str '':authority'') hs"
  shows "fold apply_request_header hs req = req\<lparr>rq_hdrs := rq_hdrs req @ map received_field hs\<rparr>"
  using assms
proof (induction hs arbitrary: req)
  case (Cons h hs)
  obtain n v where h: "h = (n, v)" by force
  have n: "is_pseudo n \<longrightarrow> n = str '':authority''" using Cons(2) h by simp
  have "n \<notin> {str '':method'', str '':path'', str '':scheme''}"
  proof (cases "is_pseudo n")
    case True
    then show ?thesis using n by simp
  next
    case False
    then show ?thesis using pseudo_names by blast
  qed
  then have "apply_request_header h req = req\<lparr>rq_hdrs := rq_hdrs req @ [received_field h]\<rparr>"
    using n by (cases "is_pseudo n") (auto simp: h hdrs_append_def received_field_def pseudo_names [unfolded str_simps list.map])
  then show ?case using Cons h by simp
qed simp

lemma fold_response_extra:
  assumes "list_all (\<lambda>(n, v). \<not> is_pseudo n) hs"
  shows "fold apply_response_header hs resp = resp\<lparr>rs_hdrs := rs_hdrs resp @ hs\<rparr>"
  using assms
proof (induction hs arbitrary: resp)
  case (Cons h hs)
  obtain n v where h: "h = (n, v)" by force
  have "\<not> is_pseudo n" using Cons(2) h by simp
  then have "n \<noteq> str '':status''" using pseudo_names by blast
  then have "apply_response_header h resp = resp\<lparr>rs_hdrs := rs_hdrs resp @ [(n, v)]\<rparr>"
    using \<open>\<not> is_pseudo n\<close> by (simp add: h hdrs_append_def)
  then show ?case using Cons h by simp
qed simp

lemma split_path_hdrs: "rq_hdrs (split_path p req) = rq_hdrs req"
  by (auto simp: split_path_def Let_def split: option.splits)

lemma split_path_method: "split_path p (req\<lparr>rq_method := m\<rparr>) = (split_path p req)\<lparr>rq_method := m\<rparr>"
  by (auto simp: split_path_def Let_def split: option.splits)

lemma apply_request_header_bd: "rq_bd (apply_request_header h req) = rq_bd req"
  by (cases h) (auto simp: split_path_def Let_def split: option.splits)

lemma fold_request_headers_bd [simp]: "rq_bd (fold apply_request_header hs req) = rq_bd req"
  by (induction hs arbitrary: req) (simp_all add: apply_request_header_bd)

lemma fold_request_headers:
  assumes "list_all (\<lambda>(n, v). is_pseudo n \<longrightarrow> n = str '':authority'') (request_extra_headers req)"
  shows "((fold apply_request_header (request_headers req) request_default)\<lparr>rq_ver := HTTP_2\<rparr>)\<lparr>rq_bd := rq_bd req\<rparr> =
    received_request req"
proof -
  have "request_headers req = [(str '':method'', method_to_string (rq_method req)),
      (str '':path'', if rq_path req = [] then str ''/'' else rq_path req), (str '':scheme'', str ''https''),
      (str '':authority'', case hdrs_get (str ''Host'') (rq_hdrs req) of Some h \<Rightarrow> h | None \<Rightarrow> str ''localhost'')]
      @ request_extra_headers req"
    by (simp add: request_headers_def request_extra_headers_def)
  moreover have "rq_hdrs request_default = []" by (simp add: request_default_def)
  ultimately show ?thesis
    by (simp add: fold_request_extra [OF assms] parse_method_to_string received_request_def hdrs_append_def
        split_path_hdrs split_path_method)
qed

definition plain_server :: "nat \<Rightarrow> 'u h2_session \<Rightarrow> bool" where
  "plain_server h s \<longleftrightarrow> s_mode s = Server \<and> s_alive s \<and> s_continuation_stream s = 0 \<and> s_request_handler s = Some h \<and>
     s_streaming_request_handler s = None \<and> s_push_provider s = None"

text \<open>The handler that is told of a request when its headers are complete leaves it to the request handler.\<close>

definition declines :: "'u h2_app \<Rightarrow> int \<Rightarrow> request \<Rightarrow> 'u h2_session \<Rightarrow> bool" where
  "declines app sid req s \<longleftrightarrow>
     (case s_request_start_handler s of
        None \<Rightarrow> True
      | Some g \<Rightarrow> \<forall>fin. app_start app g sid req fin (s_user s) = Inr (False, [], s_user s))"

text \<open>The session in which the response is submitted: nothing but the stream and flow control has moved.\<close>

definition request_context :: "int \<Rightarrow> 'u h2_session \<Rightarrow> 'u h2_session \<Rightarrow> bool" where
  "request_context sid s t \<longleftrightarrow> s_encoder t = s_encoder s \<and> s_alive t \<and> prefix (s_output s) (s_output t) \<and>
     s_peer_max_frame_size t = s_peer_max_frame_size s \<and> s_streams t sid \<noteq> None \<and> s_mode t = s_mode s \<and>
     s_continuation_stream t = s_continuation_stream s \<and> s_request_handler t = s_request_handler s \<and>
     s_streaming_request_handler t = s_streaming_request_handler s \<and>
     s_request_start_handler t = s_request_start_handler s \<and> s_push_provider t = s_push_provider s \<and>
     (\<forall>i. i \<noteq> sid \<longrightarrow> s_streams t i = s_streams s i)"

lemma dispatch_plain:
  assumes "plain_server h s" and "s_streams s sid = Some ss"
    and "app_request app h ((ss_req ss)\<lparr>rq_bd := ss_body ss\<rparr>) (s_user s) = Inr (resp, u)"
  shows "\<exists>t. dispatch_request app sid s = Inr (do_submit_response sid resp (t\<lparr>s_user := u\<rparr>)) \<and> request_context sid s t"
proof -
  let ?t = "upd_stream sid (\<lambda>ss. ss\<lparr>ss_req := (ss_req ss)\<lparr>rq_bd := ss_body ss\<rparr>, ss_body := []\<rparr>) s"
  have push: "s_push_provider (do_submit_response sid resp (?t\<lparr>s_user := u\<rparr>)) = None"
    using assms(1) by (simp add: plain_server_def do_submit_response_def Let_def close_stream_def upd_stream_def
        enqueue_headers_def build_headers_frame_def enqueue_def split: prod.splits)
  have "dispatch_request app sid s = Inr (do_submit_response sid resp (?t\<lparr>s_user := u\<rparr>))"
    using assms push by (simp add: dispatch_request_def respond_request_def plain_server_def stream_at_def upd_stream_def Let_def)
  moreover have "request_context sid s ?t"
    using assms(1,2) by (simp add: request_context_def upd_stream_def plain_server_def)
  ultimately show ?thesis by blast
qed

lemma request_context_trans: "request_context sid s t \<Longrightarrow> request_context sid t u \<Longrightarrow> request_context sid s u"
  by (auto simp: request_context_def)

definition request_list :: "nat \<Rightarrow> int \<Rightarrow> bytes \<Rightarrow> bytes \<Rightarrow> h2_frame list" where
  "request_list mx sid block body =
     header_list mx (body = []) sid block @ (if body = [] then [] else data_list mx sid True body)"

text \<open>The session once the header block of a request has been received.\<close>

definition with_request :: "int \<Rightarrow> request \<Rightarrow> bool \<Rightarrow> hpack_decoder \<Rightarrow> 'u h2_session \<Rightarrow> 'u h2_session" where
  "with_request sid req fin dec s =
     upd_stream sid (\<lambda>ss. ss\<lparr>ss_headers_complete := True, ss_req := req, ss_end_stream := fin\<rparr>)
       ((open_stream sid s)\<lparr>s_decoder := dec\<rparr>)"

lemma with_request_simps:
  assumes "plain_server h s"
  shows "plain_server h (with_request sid req fin dec s)" "s_user (with_request sid req fin dec s) = s_user s"
    "request_context sid s (with_request sid req fin dec s)"
    "s_streams (with_request sid req fin dec s) sid = Some (stream_default\<lparr>ss_id := sid, ss_state := Open,
       ss_headers_complete := True, ss_req := req, ss_end_stream := fin\<rparr>)"
  using assms
  by (auto simp: with_request_def open_stream_def set_stream_def upd_stream_def plain_server_def request_context_def
      stream_default_def)

lemma server_request_headers:
  assumes "plain_server h s" and "s_streams s sid = None" and "sid \<noteq> 0" and "0 < mx"
    and "hpack_decode (s_decoder s) block = Inr (hs, dec)"
  defines "req \<equiv> (fold apply_request_header hs request_default)\<lparr>rq_ver := HTTP_2\<rparr>"
  assumes "declines app sid req s"
  shows "process_frames app (header_list mx fin sid block) s =
    (if fin then dispatch_request app sid else Inr) (with_request sid req fin dec s)"
proof -
  have "process_frames app (header_list mx fin sid block) s = finish_block app sid fin block (open_stream sid s)"
    using assms(1-4) by (intro server_block) (simp_all add: plain_server_def)
  also have "\<dots> = apply_headers app sid hs fin ((open_stream sid s)\<lparr>s_decoder := dec\<rparr>)"
    using assms(1,5) by (simp add: finish_block_def open_stream_def set_stream_def plain_server_def)
  also have "\<dots> = (if fin then dispatch_request app sid else Inr) (with_request sid req fin dec s)"
  proof -
    let ?s2 = "with_request sid req fin dec s"
    have s2: "s_request_start_handler ?s2 = s_request_start_handler s" "s_user ?s2 = s_user s" "ss_req (stream_at ?s2 sid) = req"
      by (simp_all add: with_request_def upd_stream_def open_stream_def set_stream_def stream_at_def)
    define s1 where "s1 = upd_stream sid (\<lambda>ss. ss\<lparr>ss_headers_complete := True,
        ss_req := (fold apply_request_header hs (ss_req ss))\<lparr>rq_ver := HTTP_2\<rparr>\<rparr>) ((open_stream sid s)\<lparr>s_decoder := dec\<rparr>)"
    have s2_eq: "(if fin then upd_stream sid (\<lambda>ss. ss\<lparr>ss_end_stream := True\<rparr>) s1 else s1) = ?s2"
      using assms(1) by (cases fin) (simp_all add: s1_def upd_stream_def with_request_def open_stream_def set_stream_def
        req_def stream_default_def)
    have "apply_headers app sid hs fin ((open_stream sid s)\<lparr>s_decoder := dec\<rparr>) =
        (case s_request_start_handler ?s2 of
           Some h \<Rightarrow>
             bindE (app_start app h sid (ss_req (stream_at ?s2 sid)) fin (s_user ?s2)) (\<lambda>(took, r).
               bindE (callback (Inr r) ?s2) (\<lambda>s3.
                   if took then Inr (upd_stream sid (\<lambda>ss. ss\<lparr>ss_streaming_handled := True\<rparr>) s3)
                   else if fin then dispatch_request app sid s3 else Inr s3))
         | None \<Rightarrow> if fin then dispatch_request app sid ?s2 else Inr ?s2)"
      by (simp only: apply_headers_def Let_def s1_def [symmetric] s2_eq)
    moreover have keep: "(with_request sid req b dec s)\<lparr>s_user := s_user s\<rparr> = with_request sid req b dec s" for b
      by (simp add: with_request_def upd_stream_def open_stream_def set_stream_def)
    ultimately show ?thesis
      using assms(7) s2 by (cases fin) (auto simp: declines_def callback_def keep split: option.splits)
  qed
  finally show ?thesis .
qed

lemma server_request:
  assumes "plain_server h s" and "s_streams s sid = None" and "sid \<noteq> 0" and "0 < mx"
    and "hpack_decode (s_decoder s) block = Inr (request_headers req, dec)"
    and "list_all (\<lambda>(n, v). is_pseudo n \<longrightarrow> n = str '':authority'') (request_extra_headers req)"
    and "declines app sid ((received_request req)\<lparr>rq_bd := []\<rparr>) s"
    and "app_request app h (received_request req) (s_user s) = Inr (resp, u)"
  shows "\<exists>t. process_frames app (request_list mx sid block (rq_bd req)) s =
      Inr (do_submit_response sid resp (t\<lparr>s_user := u\<rparr>)) \<and> request_context sid s t"
proof -
  define R where "R = (fold apply_request_header (request_headers req) request_default)\<lparr>rq_ver := HTTP_2\<rparr>"
  have "rq_bd R = []" by (simp add: R_def request_default_def)
  then have "R\<lparr>rq_bd := []\<rparr> = R" by (cases R) simp
  then have R: "(received_request req)\<lparr>rq_bd := []\<rparr> = R"
    using fold_request_headers [OF assms(6), folded R_def, symmetric] by simp
  note hdr = server_request_headers [OF assms(1-5), folded R_def, OF assms(7) [unfolded R]]
  note w = with_request_simps [OF assms(1), of sid R _ dec]
  have app: "app_request app h (R\<lparr>rq_bd := rq_bd req\<rparr>) (s_user s) = Inr (resp, u)"
    using assms(8) fold_request_headers [OF assms(6)] by (simp add: R_def)
  show ?thesis
  proof (cases "rq_bd req = []")
    case True
    have "\<exists>t. dispatch_request app sid (with_request sid R True dec s) = Inr (do_submit_response sid resp (t\<lparr>s_user := u\<rparr>)) \<and>
        request_context sid (with_request sid R True dec s) t"
      by (rule dispatch_plain [OF w(1,4)]) (use app True w(2) in \<open>simp add: stream_default_def\<close>)
    then show ?thesis
      using True hdr [of True] request_context_trans [OF w(3)] by (auto simp: request_list_def)
  next
    case False
    let ?s = "with_request sid R False dec s"
    from process_data [OF w(4) [of False], of mx "rq_bd req" app True] obtain out cw sw where
      d: "process_frames app (data_list mx sid True (rq_bd req)) ?s = finish_message app sid (with_body sid (rq_bd req) True out cw sw ?s)"
      using w(1) [of False] assms(3,4) False by (auto simp: stream_default_def plain_server_def)
    let ?b = "with_body sid (rq_bd req) True out cw sw ?s"
    have b: "plain_server h ?b" "s_user ?b = s_user s" "request_context sid s ?b"
      using w(1-3) [of False] by (auto simp: with_body_def upd_stream_def plain_server_def request_context_def prefix_def)
    obtain ss where ss: "s_streams ?b sid = Some ss" "ss_req ss = R" "ss_body ss = rq_bd req"
      using w(4) [of False] by (simp add: with_body_def stream_default_def)
    have "\<exists>t. dispatch_request app sid ?b = Inr (do_submit_response sid resp (t\<lparr>s_user := u\<rparr>)) \<and> request_context sid ?b t"
      by (rule dispatch_plain [OF b(1) ss(1)]) (use app b(2) ss in simp)
    then show ?thesis
      using False hdr [of False] d b(1) request_context_trans [OF b(3)]
      by (auto simp: request_list_def process_frames_append finish_message_def plain_server_def)
  qed
qed

lemma decodes_any:
  assumes "\<forall>h\<in>set hs. header_codable h" and "length (concat (map encode_header hs)) < 2 ^ 63" and "en_max_table_size e < 2 ^ 32"
  shows "\<exists>d'. hpack_decode d (fst (hpack_encode hs e)) = Inr (hs, d')"
  using hpack_decode_encoded [OF assms(1) _ assms(2), of e d] assms(3) by auto

lemma submit_request_wire:
  assumes "do_submit_request req p False c = Inr (sid, c')"
  shows "s_output c' = s_output c @ concat (map encode_frame (request_list (s_peer_max_frame_size c) sid
      (fst (hpack_encode (request_headers req) (s_encoder c))) (rq_bd req))) \<and> sid < 2 ^ 31"
proof -
  obtain block enc where e: "hpack_encode (request_headers req) (s_encoder c) = (block, enc)" by force
  define c1 where "c1 = set_stream sid ((stream_at c sid)\<lparr>ss_id := sid, ss_state := Open, ss_promise := p\<rparr>) (c\<lparr>s_next_stream_id := sid + 2\<rparr>)"
  have enc: "hpack_encode (request_headers req) (s_encoder c1) = (block, enc)"
    and c1: "s_peer_max_frame_size c1 = s_peer_max_frame_size c" "s_output c1 = s_output c"
    using e by (simp_all add: c1_def set_stream_def)
  have sid: "sid = s_next_stream_id c" "sid + 2 < 2 ^ 31" using assms by (auto simp: do_submit_request_def Let_def split: if_splits)
  have at: "stream_at (c\<lparr>s_next_stream_id := i\<rparr>) = stream_at c" for i by (simp add: stream_at_def fun_eq_iff)
  have "c' = (let s3 = enqueue_headers sid (if rq_bd req \<noteq> [] then 0 else FLAG_END_STREAM) (request_headers req) c1
      in if rq_bd req \<noteq> [] then enqueue (build_data_frames sid (rq_bd req) False s3) s3 else s3)"
    using assms sid by (cases "rq_bd req = []") (simp_all add: do_submit_request_def c1_def at Let_def)
  then show ?thesis
    using sid(2) enqueue_headers_frames [OF enc, of sid "rq_bd req = []"] c1 e
    by (cases "rq_bd req = []")
       (simp_all add: request_list_def build_data_frames_def enqueue_def encode_data_list)
qed

lemma submit_response_fields [simp]:
  "s_alive (do_submit_response sid resp s) = s_alive s" "s_user (do_submit_response sid resp s) = s_user s"
  by (simp_all add: do_submit_response_def enqueue_headers_def build_headers_frame_def enqueue_def close_stream_def
      upd_stream_def Let_def split: prod.splits)

text \<open>Feeding a session between frames with whole frames, and a known result at the frame level.\<close>

lemma feed_wire:
  assumes "reader_clean (s_reader s)" and "list_all frame_wf fs" and "s_alive s"
    and "process_frames app fs (if s_mode s = Server then s\<lparr>s_preface_received := True\<rparr> else s) = Inr t" and "s_alive t"
  shows "\<exists>r. reader_clean r \<and> h2_feed app (concat (map encode_frame fs)) s = Inr (int (length (concat (map encode_frame fs))), rd r t)"
proof -
  define w where "w = concat (map encode_frame fs)"
  define s0 where "s0 = (if s_mode s = Server then s\<lparr>s_preface_received := True\<rparr> else s)"
  have clean: "reader_clean (s_reader s0)" using assms(1) by (simp add: s0_def)
  note run = feed_frames [OF clean assms(2), of app 0, folded w_def]
  obtain m t' where m: "h2_feed_loop app w 0 s0 = Inr (m, t')" "rd q t' = rd q t" for q
    using run assms(4) by (cases "h2_feed_loop app w 0 s0") (auto simp: s0_def)
  have "t' = rd (s_reader t') t" using m(2) [of "s_reader t'"] by (simp add: rd_def)
  moreover have "s_alive t'" using m(2) [of h2_reader_init] assms(5) by (metis rd_fields(2))
  then have "m = length w" "reader_clean (s_reader t')" using run m(1) by auto
  ultimately show ?thesis
    using m(1) assms(3) by (auto simp: h2_feed_def s0_def [symmetric] w_def [symmetric])
qed

text \<open>What the delivery theorems need of a reachable session: a sane frame size and table size.\<close>

lemma reachable_sizes:
  "h2_reachable app s \<Longrightarrow>
     0 < s_peer_max_frame_size s \<and> s_peer_max_frame_size s < 2 ^ 24 \<and> en_max_table_size (s_encoder s) < 2 ^ 32"
  using session_ok_reachable [of app s] by (simp add: session_ok_def h2_inv_def tables_ok_def)

lemma request_delivered:
  fixes c :: "'v h2_session" and s :: "'u h2_session"
  assumes "0 < s_peer_max_frame_size c \<and> s_peer_max_frame_size c < 2 ^ 24 \<and> en_max_table_size (s_encoder c) < 2 ^ 32"
    and "do_submit_request req p False c = Inr (sid, c')" and "0 < sid"
    and "s_output c' = s_output c @ wire"
    and "\<forall>hd\<in>set (request_headers req). header_codable hd"
    and "length (concat (map encode_header (request_headers req))) < 2 ^ 63"
    and "list_all (\<lambda>(n, v). is_pseudo n \<longrightarrow> n = str '':authority'') (request_extra_headers req)"
    and "plain_server h s" and "reader_clean (s_reader s)" and "s_streams s sid = None"
    and "declines app sid ((received_request req)\<lparr>rq_bd := []\<rparr>) s"
    and "app_request app h (received_request req) (s_user s) = Inr (resp, u)"
  shows "\<exists>r t. h2_feed app wire s = Inr (int (length wire), rd r (do_submit_response sid resp (t\<lparr>s_user := u\<rparr>))) \<and>
    reader_clean r \<and> request_context sid s t"
proof -
  define mx where "mx = s_peer_max_frame_size c"
  define block where "block = fst (hpack_encode (request_headers req) (s_encoder c))"
  define fs where "fs = request_list mx sid block (rq_bd req)"
  define s0 where "s0 = s\<lparr>s_preface_received := True\<rparr>"
  have c: "0 < mx" "mx < 2 ^ 24" "en_max_table_size (s_encoder c) < 2 ^ 32"
    using assms(1) by (simp_all add: mx_def)
  have wire: "wire = concat (map encode_frame fs)" "sid < 2 ^ 31"
    using submit_request_wire [OF assms(2)] assms(4) by (simp_all add: fs_def mx_def block_def)
  have wf: "list_all frame_wf fs"
    using message_frames_wf [OF _ wire(2) c(2)] assms(3) by (simp add: fs_def request_list_def)
  have s0: "plain_server h s0" "s_streams s0 sid = None" "s_user s0 = s_user s" "request_context sid s0 t = request_context sid s t"
    "declines app sid ((received_request req)\<lparr>rq_bd := []\<rparr>) s0"
    for t using assms(8,10,11) by (simp_all add: s0_def plain_server_def request_context_def declines_def split: option.splits)
  obtain dec where "hpack_decode (s_decoder s0) block = Inr (request_headers req, dec)"
    using decodes_any [OF assms(5,6) c(3)] unfolding block_def by blast
  from server_request [OF s0(1,2) _ c(1) this assms(7) s0(5), of resp u] obtain t where
    t: "process_frames app fs s0 = Inr (do_submit_response sid resp (t\<lparr>s_user := u\<rparr>))" "request_context sid s t"
    using assms(3,12) s0(3,4) unfolding fs_def by fastforce
  have "s_mode s = Server" "s_alive s" "s_alive t"
    using assms(8) t(2) by (simp_all add: plain_server_def request_context_def)
  then show ?thesis
    using feed_wire [OF assms(9) wf _ _ , of app "do_submit_response sid resp (t\<lparr>s_user := u\<rparr>)"] t
    by (auto simp: s0_def wire(1))
qed

text \<open>
  C6: A request is delivered: the bytes that submitting it adds to the client's output, fed to a
  server that is between frames and has not seen the stream, and whose request-start handler, if any,
  does not take the request over, make the server call its handler exactly
  once, with the method, path, query, host, remaining headers and body of the request, and submit the
  handler's response on the stream.  It does not matter how many HEADERS, CONTINUATION and DATA frames
  the request is cut into.
\<close>

theorem h2_request_delivered:
  fixes c :: "'v h2_session" and s :: "'u h2_session"
  assumes "h2_reachable capp c" and "do_submit_request req p False c = Inr (sid, c')" and "0 < sid"
    and "s_output c' = s_output c @ wire"
    and "\<forall>hd\<in>set (request_headers req). header_codable hd"
    and "length (concat (map encode_header (request_headers req))) < 2 ^ 63"
    and "list_all (\<lambda>(n, v). is_pseudo n \<longrightarrow> n = str '':authority'') (request_extra_headers req)"
    and "plain_server h s" and "reader_clean (s_reader s)" and "s_streams s sid = None"
    and "declines app sid ((received_request req)\<lparr>rq_bd := []\<rparr>) s"
    and "app_request app h (received_request req) (s_user s) = Inr (resp, u)"
  shows "\<exists>r t. h2_feed app wire s = Inr (int (length wire), rd r (do_submit_response sid resp (t\<lparr>s_user := u\<rparr>))) \<and>
    reader_clean r \<and> request_context sid s t"
  using reachable_sizes [OF assms(1)] assms(2-) by (rule request_delivered)

section \<open>A response from server to client\<close>

definition response_fields :: "response \<Rightarrow> (bytes \<times> bytes) list" where
  "response_fields resp = content_type_header resp @
     (if rs_bd resp \<noteq> [] then [(str ''content-length'', nat_to_string (length (rs_bd resp)))] else []) @
     response_extra_headers (rs_hdrs resp)"

definition response_block :: "response \<Rightarrow> (bytes \<times> bytes) list" where
  "response_block resp = (str '':status'', int_to_string (rs_status resp)) # response_fields resp"

text \<open>The response the client's promise is completed with: trailers arrive as headers.\<close>

definition received_response :: "response \<Rightarrow> response" where
  "received_response resp = \<lparr>rs_status = rs_status resp, rs_ver = HTTP_2,
     rs_hdrs = response_fields resp @ lower_headers (rs_trailers resp), rs_bd = rs_bd resp, rs_trailers = []\<rparr>"

definition response_list :: "nat \<Rightarrow> int \<Rightarrow> bytes \<Rightarrow> bytes \<Rightarrow> response \<Rightarrow> h2_frame list" where
  "response_list mx sid block tblock resp =
     header_list mx (rs_bd resp = [] \<and> rs_trailers resp = []) sid block @
     (if rs_bd resp = [] then [] else data_list mx sid (rs_trailers resp = []) (rs_bd resp)) @
     (if rs_trailers resp = [] then [] else header_list mx True sid tblock)"

lemma submit_response_wire:
  assumes "hpack_encode (response_block resp) (s_encoder s) = (block, e1)"
    and "hpack_encode (lower_headers (rs_trailers resp)) e1 = (tblock, e2)"
  shows "s_output (do_submit_response sid resp s) =
    s_output s @ concat (map encode_frame (response_list (s_peer_max_frame_size s) sid block tblock resp))"
proof -
  define fin where "fin = (rs_bd resp = [] \<and> rs_trailers resp = [])"
  define s1 where "s1 = enqueue_headers sid (if fin then FLAG_END_STREAM else 0) (response_block resp) s"
  define s2 where "s2 = (if rs_bd resp = [] then s1 else enqueue (build_data_frames sid (rs_bd resp) (rs_trailers resp \<noteq> []) s1) s1)"
  have s1: "s1 = enqueue (concat (map encode_frame (header_list (s_peer_max_frame_size s) fin sid block))) (s\<lparr>s_encoder := e1\<rparr>)"
    unfolding s1_def by (rule enqueue_headers_frames [OF assms(1)])
  have s2: "s_encoder s2 = e1" "s_peer_max_frame_size s2 = s_peer_max_frame_size s"
    by (simp_all add: s2_def s1 enqueue_def)
  have "do_submit_response sid resp s = close_stream sid
      (if rs_trailers resp = [] then s2 else enqueue_headers sid FLAG_END_STREAM (lower_headers (rs_trailers resp)) s2)"
    by (cases "rs_trailers resp = []"; cases "rs_bd resp = []")
       (simp_all add: do_submit_response_def response_block_def response_fields_def s1_def s2_def fin_def Let_def)
  moreover have "s_output (close_stream sid x) = s_output x" for x :: "'a h2_session"
    by (simp add: close_stream_def upd_stream_def)
  ultimately show ?thesis
    using enqueue_headers_frames [of "lower_headers (rs_trailers resp)" s2 tblock e2 sid True] assms(2) s2
    by (cases "rs_trailers resp = []"; cases "rs_bd resp = []")
       (simp_all add: response_list_def fin_def s2_def s1 enqueue_def build_data_frames_def encode_data_list)
qed

text \<open>
  A client stream on which a response is being received: what has come in so far, the promise that
  waits for it, and the promises completed before.
\<close>

definition awaiting ::
  "int \<Rightarrow> nat \<Rightarrow> response_promise \<Rightarrow> nat list \<Rightarrow> response \<Rightarrow> bytes \<Rightarrow> 'u h2_session \<Rightarrow> bool" where
  "awaiting sid p pr cp resp body s \<longleftrightarrow>
     s_mode s = Client \<and> s_alive s \<and> s_continuation_stream s = 0 \<and> s_promises s p = Some pr \<and>
     s_completed_promises s = cp \<and>
     (\<exists>ss. s_streams s sid = Some ss \<and> ss_data_cb ss = None \<and> \<not> ss_streaming_handled ss \<and> ss_pending ss = [] \<and>
        \<not> ss_end_stream ss \<and> ss_promise ss = Some p \<and> ss_resp ss = resp \<and> ss_body ss = body)"

definition delivered :: "nat \<Rightarrow> response_promise \<Rightarrow> nat list \<Rightarrow> response \<Rightarrow> 'u h2_session \<Rightarrow> bool" where
  "delivered p pr cp resp s \<longleftrightarrow> s_alive s \<and> s_promises s p = Some (pr\<lparr>pr_resp := resp, pr_complete := True\<rparr>) \<and>
     s_completed_promises s = cp @ [p]"

text \<open>The coroutine that waits for the promise, if there is one, makes no call on the session when it is resumed.\<close>

definition resumes_quietly :: "'u h2_app \<Rightarrow> response_promise \<Rightarrow> bool" where
  "resumes_quietly app pr \<longleftrightarrow> (case pr_waiter pr of None \<Rightarrow> True | Some w \<Rightarrow> \<forall>u. \<exists>u'. app_resume app w u = ([], u'))"

lemma complete_promise_delivers:
  assumes "s_streams s sid = Some ss" and "ss_promise ss = Some p" and "s_promises s p = Some pr" and "resumes_quietly app pr"
    and "s_alive s" and "s_completed_promises s = cp"
  shows "\<exists>t. complete_promise app sid s = Inr t \<and> delivered p pr cp ((ss_resp ss)\<lparr>rs_bd := ss_body ss\<rparr>) t"
proof (cases "pr_waiter pr")
  case None
  then show ?thesis using assms by (simp add: complete_promise_def stream_at_def upd_stream_def delivered_def Let_def)
next
  case (Some w)
  then obtain u' where "app_resume app w (s_user s) = ([], u')" using assms(4) by (auto simp: resumes_quietly_def)
  then show ?thesis
    using assms Some by (simp add: complete_promise_def stream_at_def upd_stream_def delivered_def Let_def callback_def)
qed

lemma client_headers:
  assumes "awaiting sid p pr cp resp body s" and "sid \<noteq> 0" and "0 < mx"
    and "\<exists>d. hpack_decode (s_decoder s) block = Inr (hs, d)" and "resumes_quietly app pr"
  defines "resp' \<equiv> (fold apply_response_header hs resp)\<lparr>rs_ver := HTTP_2\<rparr>"
  shows "\<exists>t. process_frames app (header_list mx fin sid block) s = Inr t \<and>
    (if fin then delivered p pr cp (resp'\<lparr>rs_bd := body\<rparr>) t else awaiting sid p pr cp resp' body t)"
proof -
  from assms(1,5) obtain ss where s: "s_mode s = Client" "s_alive s" "s_continuation_stream s = 0" "s_promises s p = Some pr"
      "resumes_quietly app pr" "s_completed_promises s = cp"
    and ss: "s_streams s sid = Some ss" "ss_data_cb ss = None" "\<not> ss_streaming_handled ss" "ss_pending ss = []"
      "\<not> ss_end_stream ss" "ss_promise ss = Some p" "ss_resp ss = resp" "ss_body ss = body"
    unfolding awaiting_def by blast
  from assms(4) obtain d where d: "hpack_decode (s_decoder s) block = Inr (hs, d)" by blast
  have run: "process_frames app (header_list mx fin sid block) s = apply_response_headers app sid hs fin (s\<lparr>s_decoder := d\<rparr>)"
    using client_block [OF s(1) ss(1,2,4,5) s(3,2) assms(2,3)] d s(1) by (simp add: finish_block_def)
  define s1 where "s1 = upd_stream sid (\<lambda>ss. ss\<lparr>ss_headers_complete := True, ss_resp := resp'\<rparr>) (s\<lparr>s_decoder := d\<rparr>)"
  have s1: "s_streams s1 sid = Some (ss\<lparr>ss_headers_complete := True, ss_resp := resp'\<rparr>)"
    using ss(1) by (simp add: s1_def)
  have eq: "upd_stream sid (\<lambda>ss. ss\<lparr>ss_headers_complete := True,
      ss_resp := (fold apply_response_header hs (ss_resp ss))\<lparr>rs_ver := HTTP_2\<rparr>\<rparr>) (s\<lparr>s_decoder := d\<rparr>) = s1"
    using ss(1,7) by (simp add: s1_def upd_stream_def resp'_def)
  show ?thesis
  proof (cases fin)
    case True
    have "s_streams (upd_stream sid (\<lambda>ss. ss\<lparr>ss_end_stream := True\<rparr>) s1) sid =
        Some (ss\<lparr>ss_headers_complete := True, ss_resp := resp', ss_end_stream := True\<rparr>)" using s1 by simp
    from complete_promise_delivers [OF this, of p pr app cp] show ?thesis
      using True s ss run by (simp add: apply_response_headers_def eq Let_def) (simp add: s1_def upd_stream_def)
  next
    case False
    have "awaiting sid p pr cp resp' body s1"
      using s ss s1 by (simp add: awaiting_def) (simp add: s1_def upd_stream_def)
    then show ?thesis using False run by (simp add: apply_response_headers_def eq Let_def)
  qed
qed

lemma client_data:
  assumes "awaiting sid p pr cp resp body s" and "sid \<noteq> 0" and "0 < mx" and "d \<noteq> []"
    and "resumes_quietly app pr"
  shows "\<exists>t. process_frames app (data_list mx sid fin d) s = Inr t \<and>
    (if fin then delivered p pr cp (resp\<lparr>rs_bd := body @ d\<rparr>) t else awaiting sid p pr cp resp (body @ d) t)"
proof -
  from assms(1,5) obtain ss where s: "s_mode s = Client" "s_alive s" "s_continuation_stream s = 0" "s_promises s p = Some pr"
      "resumes_quietly app pr" "s_completed_promises s = cp"
    and ss: "s_streams s sid = Some ss" "ss_data_cb ss = None" "\<not> ss_streaming_handled ss" "ss_pending ss = []"
      "\<not> ss_end_stream ss" "ss_promise ss = Some p" "ss_resp ss = resp" "ss_body ss = body"
    unfolding awaiting_def by blast
  from process_data [OF ss(1-3) s(3,2) assms(2-4), of app fin] obtain out cw sw where
    run: "process_frames app (data_list mx sid fin d) s = (if fin then finish_message app sid else Inr) (with_body sid d fin out cw sw s)"
    by blast
  have st: "s_streams (with_body sid d fin out cw sw s) sid =
      Some (ss\<lparr>ss_body := body @ d, ss_recv_window := sw, ss_end_stream := fin\<rparr>)"
    using ss(1,5,8) by (simp add: with_body_def)
  show ?thesis
  proof (cases fin)
    case True
    then show ?thesis
      using complete_promise_delivers [OF st, of p pr app cp] s ss run
      by (simp add: finish_message_def) (simp add: with_body_def upd_stream_def)
  next
    case False
    have "awaiting sid p pr cp resp (body @ d) (with_body sid d fin out cw sw s)"
      using s ss False st by (simp add: awaiting_def) (simp add: with_body_def upd_stream_def)
    then show ?thesis using run False by simp
  qed
qed

lemma fold_response_block:
  assumes "list_all (\<lambda>(n, v). \<not> is_pseudo n) (response_fields resp)" and "- (2 ^ 31) \<le> rs_status resp" and "rs_status resp < 2 ^ 31"
  shows "(fold apply_response_header (response_block resp) response_default)\<lparr>rs_ver := HTTP_2\<rparr> =
    \<lparr>rs_status = rs_status resp, rs_ver = HTTP_2, rs_hdrs = response_fields resp, rs_bd = [], rs_trailers = []\<rparr>"
proof -
  have "from_chars_signed 32 (int_to_string (rs_status resp)) = Some (rs_status resp)"
    using from_chars_signed_to_string [of 32 "rs_status resp" "[]"] assms(2,3) by simp
  then show ?thesis
    by (simp add: response_block_def fold_response_extra [OF assms(1)] response_default_def)
qed

lemma client_response:
  assumes "awaiting sid p pr cp response_default [] c" and "sid \<noteq> 0" and "0 < mx"
    and "\<And>d. \<exists>d'. hpack_decode d block = Inr (response_block resp, d')"
    and "\<And>d. \<exists>d'. hpack_decode d tblock = Inr (lower_headers (rs_trailers resp), d')"
    and "list_all (\<lambda>(n, v). \<not> is_pseudo n) (response_fields resp)" and "- (2 ^ 31) \<le> rs_status resp" and "rs_status resp < 2 ^ 31"
    and "list_all (\<lambda>(n, v). \<not> is_pseudo n) (lower_headers (rs_trailers resp))" and "resumes_quietly app pr"
  shows "\<exists>t. process_frames app (response_list mx sid block tblock resp) c = Inr t \<and> delivered p pr cp (received_response resp) t"
proof -
  define R where "R = \<lparr>rs_status = rs_status resp, rs_ver = HTTP_2, rs_hdrs = response_fields resp, rs_bd = [], rs_trailers = []\<rparr>"
  note hdr = client_headers [OF assms(1-4,10), unfolded fold_response_block [OF assms(6-8)], folded R_def]
  note last = client_headers [OF _ assms(2,3,5,10), unfolded fold_response_extra [OF assms(9)]]
  note body = client_data [OF _ assms(2,3) _ assms(10)]
  show ?thesis
  proof (cases "rs_trailers resp = []")
    case True
    then have R: "received_response resp = R\<lparr>rs_bd := rs_bd resp\<rparr>" by (simp add: received_response_def R_def lower_headers_def)
    show ?thesis
    proof (cases "rs_bd resp = []")
      case True
      then show ?thesis using hdr [of True] R \<open>rs_trailers resp = []\<close> by (auto simp: response_list_def)
    next
      case False
      obtain t where "process_frames app (header_list mx False sid block) c = Inr t" "awaiting sid p pr cp R [] t"
        using hdr [of False] by auto
      then show ?thesis
        using body [of p cp R "[]" t "rs_bd resp" True] False R \<open>rs_trailers resp = []\<close>
        by (auto simp: response_list_def process_frames_append)
    qed
  next
    case False
    obtain t where t: "process_frames app (header_list mx False sid block) c = Inr t" "awaiting sid p pr cp R [] t"
      using hdr [of False] by auto
    have "\<exists>t'. process_frames app (if rs_bd resp = [] then [] else data_list mx sid False (rs_bd resp)) t = Inr t' \<and>
        awaiting sid p pr cp R (rs_bd resp) t'"
      using t(2) body [of p cp R "[]" t "rs_bd resp" False] by auto
    then obtain t' where t': "process_frames app (if rs_bd resp = [] then [] else data_list mx sid False (rs_bd resp)) t = Inr t'"
      "awaiting sid p pr cp R (rs_bd resp) t'" by blast
    have "(R\<lparr>rs_hdrs := rs_hdrs R @ lower_headers (rs_trailers resp)\<rparr>)\<lparr>rs_ver := HTTP_2, rs_bd := rs_bd resp\<rparr> = received_response resp"
      by (simp add: R_def received_response_def)
    then show ?thesis
      using last [OF t'(2), of True] t(1) t'(1) False by (auto simp: response_list_def process_frames_append)
  qed
qed

lemma response_delivered:
  fixes s :: "'v h2_session" and c :: "'u h2_session"
  assumes "0 < s_peer_max_frame_size s \<and> s_peer_max_frame_size s < 2 ^ 24 \<and> en_max_table_size (s_encoder s) < 2 ^ 32"
    and "0 < sid" and "sid < 2 ^ 31"
    and "s_output (do_submit_response sid resp s) = s_output s @ wire"
    and "\<forall>hd\<in>set (response_block resp @ lower_headers (rs_trailers resp)). header_codable hd"
    and "length (concat (map encode_header (response_block resp @ lower_headers (rs_trailers resp)))) < 2 ^ 63"
    and "list_all (\<lambda>(n, v). \<not> is_pseudo n) (response_fields resp @ lower_headers (rs_trailers resp))"
    and "- (2 ^ 31) \<le> rs_status resp" and "rs_status resp < 2 ^ 31"
    and "awaiting sid p pr cp response_default [] c" and "reader_clean (s_reader c)"
    and "resumes_quietly app pr"
  shows "\<exists>r t. h2_feed app wire c = Inr (int (length wire), rd r t) \<and> reader_clean r \<and>
    delivered p pr cp (received_response resp) t"
proof -
  define mx where "mx = s_peer_max_frame_size s"
  obtain block e1 where e1: "hpack_encode (response_block resp) (s_encoder s) = (block, e1)" by force
  obtain tblock e2 where e2: "hpack_encode (lower_headers (rs_trailers resp)) e1 = (tblock, e2)" by force
  have s: "0 < mx" "mx < 2 ^ 24" "en_max_table_size (s_encoder s) < 2 ^ 32"
    using assms(1) by (simp_all add: mx_def)
  then have "en_max_table_size e1 < 2 ^ 32" using e1 by (auto simp: hpack_encode_def)
  then have dec: "\<exists>d'. hpack_decode d block = Inr (response_block resp, d')"
    "\<exists>d'. hpack_decode d tblock = Inr (lower_headers (rs_trailers resp), d')" for d
    using decodes_any [of "response_block resp" "s_encoder s" d] decodes_any [of "lower_headers (rs_trailers resp)" e1 d]
      assms(5,6) s(3) e1 e2 by simp_all
  define fs where "fs = response_list mx sid block tblock resp"
  have wire: "wire = concat (map encode_frame fs)"
    using submit_response_wire [OF e1 e2, of sid] assms(4) by (simp add: fs_def mx_def)
  have wf: "list_all frame_wf fs"
    using message_frames_wf [OF _ assms(3) s(2)] assms(2) by (simp add: fs_def response_list_def)
  obtain t where t: "process_frames app fs c = Inr t" "delivered p pr cp (received_response resp) t"
    using client_response [OF assms(10) _ s(1) dec _ assms(8,9) _ assms(12)] assms(2,7) by (auto simp: fs_def)
  have "s_mode c = Client" "s_alive c" "s_alive t"
    using assms(10) t(2) by (simp_all add: awaiting_def delivered_def)
  then obtain r where "reader_clean r" "h2_feed app wire c = Inr (int (length wire), rd r t)"
    using feed_wire [OF assms(11) wf, of app t] t(1) wire by auto
  then show ?thesis using t(2) by blast
qed

text \<open>
  C7: A response is delivered: the bytes that submitting it adds to the server's output, fed to the
  client that opened the stream and waits for the whole response, complete the stream's promise with
  the status, the headers and the body of the response, with the trailers appended to the headers,
  whatever the framing.
\<close>

theorem h2_response_delivered:
  fixes s :: "'v h2_session" and c :: "'u h2_session"
  assumes "h2_reachable sapp s" and "0 < sid" and "sid < 2 ^ 31"
    and "s_output (do_submit_response sid resp s) = s_output s @ wire"
    and "\<forall>hd\<in>set (response_block resp @ lower_headers (rs_trailers resp)). header_codable hd"
    and "length (concat (map encode_header (response_block resp @ lower_headers (rs_trailers resp)))) < 2 ^ 63"
    and "list_all (\<lambda>(n, v). \<not> is_pseudo n) (response_fields resp @ lower_headers (rs_trailers resp))"
    and "- (2 ^ 31) \<le> rs_status resp" and "rs_status resp < 2 ^ 31"
    and "awaiting sid p pr cp response_default [] c" and "reader_clean (s_reader c)"
    and "resumes_quietly app pr"
  shows "\<exists>r t. h2_feed app wire c = Inr (int (length wire), rd r t) \<and> reader_clean r \<and>
    delivered p pr cp (received_response resp) t"
  using reachable_sizes [OF assms(1)] assms(2-) by (rule response_delivered)

section \<open>Concrete exchange\<close>

definition example_request :: request where
  "example_request = request_default\<lparr>rq_method := POST, rq_path := str ''/a?b'', rq_hdrs := [(str ''X-Id'', str ''7'')], rq_bd := [1, 2]\<rparr>"

definition example_server :: "request list h2_session" where
  "example_server = (h2_session_new Server [])\<lparr>s_request_handler := Some 1\<rparr>"

lemma length_encode_headers:
  "length (concat (map encode_header hs)) \<le> (\<Sum>h\<leftarrow>hs. 33 + length (fst h) + length (snd h))"
proof (induction hs)
  case (Cons h hs)
  then show ?case using length_encode_header [of h] by simp
qed simp

lemma example_codable:
  "\<forall>hd\<in>set (request_headers example_request). header_codable hd"
  "length (concat (map encode_header (request_headers example_request))) < 2 ^ 63"
proof -
  have rh: "request_headers example_request = [(str '':method'', str ''POST''), (str '':path'', str ''/a?b''),
      (str '':scheme'', str ''https''), (str '':authority'', str ''localhost''), (str ''x-id'', str ''7'')]"
    by (simp add: request_headers_def example_request_def request_default_def method_to_string_def
        lower_headers_def to_lower_header_def tolower_def to_lower_def)
  show "\<forall>hd\<in>set (request_headers example_request). header_codable hd"
    by (simp add: rh header_codable_def codable_def huff_safe_iff)
  show "length (concat (map encode_header (request_headers example_request))) < 2 ^ 63"
    using length_encode_headers [of "request_headers example_request"] unfolding rh by (rule order.strict_trans1) simp
qed

lemma session_new_clean: "reader_clean (s_reader (h2_session_new m u))"
  by (simp add: reader_clean_def reader_idle_def h2_session_new_def enqueue_def h2_reader_init_ok)
     (simp add: h2_has_frame_def h2_reader_init_def)

theorem h2_request_delivered_witness:
  "\<exists>c' wire r t. do_submit_request example_request None False (h2_session_new Client ()) = Inr (1, c') \<and>
     s_output c' = s_output (h2_session_new Client ()) @ wire \<and>
     h2_feed plain_app wire example_server =
       Inr (int (length wire), rd r (do_submit_response 1 response_default (t\<lparr>s_user := [received_request example_request]\<rparr>)))"
proof -
  obtain c' where c': "do_submit_request example_request None False (h2_session_new Client ()) = Inr (1, c')"
    by (simp add: do_submit_request_def h2_session_new_def enqueue_def Let_def)
  obtain wire where wire: "s_output c' = s_output (h2_session_new Client ()) @ wire"
    using submit_request_wire [OF c'] by blast
  have names: "list_all (\<lambda>(n, v). is_pseudo n \<longrightarrow> n = str '':authority'') (request_extra_headers example_request)"
    by (simp add: request_extra_headers_def example_request_def lower_headers_def to_lower_header_def tolower_def is_pseudo_def)
  have server: "plain_server 1 example_server" "reader_clean (s_reader example_server)" "s_streams example_server 1 = None"
    using session_new_clean [of Server "[]"]
    by (simp_all add: example_server_def plain_server_def h2_session_new_def enqueue_def)
  have declined: "declines plain_app 1 req example_server" for req
    by (simp add: declines_def example_server_def h2_session_new_def enqueue_def)
  have "app_request plain_app 1 (received_request example_request) (s_user example_server) =
      Inr (response_default, [received_request example_request])"
    by (simp add: plain_app_def example_server_def h2_session_new_def enqueue_def)
  from h2_request_delivered [OF reach_new c' _ wire example_codable names server _ this]
  show ?thesis using c' wire declined by (fastforce simp: zero_less_one)
qed

definition example_response :: response where
  "example_response = response_default\<lparr>rs_status := 404, rs_bd := [9], rs_trailers := [(str ''X-T'', str ''1'')]\<rparr>"

definition example_client :: "unit h2_session" where
  "example_client = (h2_session_new Client ())\<lparr>s_streams := [1 \<mapsto> stream_default\<lparr>ss_promise := Some 0\<rparr>],
     s_promises := [0 \<mapsto> promise_default], s_next_promise := 1\<rparr>"

definition idle_app :: "unit h2_app" where
  "idle_app = \<lparr>app_request = (\<lambda>_ req u. Inr (response_default, u)), app_streaming = (\<lambda>_ _ _ u. Inr (False, [], u)),
     app_start = (\<lambda>_ _ _ _ u. Inr (False, [], u)), app_data = (\<lambda>_ _ _ _ u. Inr ([], u)),
     app_push_provider = (\<lambda>_ _ u. Inr ([], u)), app_push = (\<lambda>_ _ u. Inr ([], u)), app_resume = (\<lambda>_ u. ([], u))\<rparr>"

theorem h2_response_delivered_witness:
  "\<exists>wire r t. s_output (do_submit_response 1 example_response (h2_session_new Server ())) =
       s_output (h2_session_new Server ()) @ wire \<and>
     h2_feed idle_app wire example_client = Inr (int (length wire), rd r t) \<and>
     s_promises t 0 = Some (promise_default\<lparr>pr_resp := received_response example_response, pr_complete := True\<rparr>)"
proof -
  have num: "int_to_string 404 = str ''404''" "nat_to_string (Suc 0) = str ''1''"
    by (simp_all add: int_to_string_def nat_to_string.simps digit_char_def)
  have rb: "response_block example_response = [(str '':status'', str ''404''), (str ''content-length'', str ''1'')]"
    "response_fields example_response = [(str ''content-length'', str ''1'')]"
    "lower_headers (rs_trailers example_response) = [(str ''x-t'', str ''1'')]"
    by (simp_all add: response_block_def response_fields_def example_response_def response_default_def num
        content_type_header_def response_extra_headers_def lower_headers_def to_lower_header_def tolower_def)
  obtain wire where wire: "s_output (do_submit_response 1 example_response (h2_session_new Server ())) =
      s_output (h2_session_new Server ()) @ wire"
    using submit_response_wire by (metis surj_pair)
  let ?hs = "response_block example_response @ lower_headers (rs_trailers example_response)"
  have codable: "\<forall>hd\<in>set ?hs. header_codable hd"
    by (simp add: rb header_codable_def codable_def huff_safe_iff)
  have len: "length (concat (map encode_header ?hs)) < 2 ^ 63"
    using length_encode_headers [of ?hs] by (rule order.strict_trans1) (simp add: rb)
  have names: "list_all (\<lambda>(n, v). \<not> is_pseudo n) (response_fields example_response @ lower_headers (rs_trailers example_response))"
    by (simp add: rb is_pseudo_def)
  have client: "awaiting 1 0 promise_default [] response_default [] example_client" "reader_clean (s_reader example_client)"
    using session_new_clean [of Client "()"]
    by (simp_all add: awaiting_def example_client_def h2_session_new_def enqueue_def stream_default_def promise_default_def)
  have "rs_status example_response = 404" by (simp add: example_response_def)
  moreover have "resumes_quietly idle_app promise_default" by (simp add: resumes_quietly_def promise_default_def)
  ultimately show ?thesis
    using h2_response_delivered [OF reach_new _ _ wire codable len names _ _ client, of idle_app] wire
    by (fastforce simp: delivered_def)
qed

text \<open>
  C11: Fed whole frames, the byte-level session does what the machine over frames does: the same
  error, or the same session up to the reader's buffers.
\<close>

theorem h2_feed_refines:
  assumes "reader_clean (s_reader s)" and "list_all frame_wf fs" and "s_alive s"
  shows "bindE (h2_feed app (concat (map encode_frame fs)) s) (\<lambda>(_, t). Inr (rd h2_reader_init t)) =
    rd_map h2_reader_init (process_frames app fs (if s_mode s = Server then s\<lparr>s_preface_received := True\<rparr> else s))"
proof -
  define s0 where "s0 = (if s_mode s = Server then s\<lparr>s_preface_received := True\<rparr> else s)"
  have "reader_clean (s_reader s0)" using assms(1) by (simp add: s0_def)
  from feed_frames [OF this assms(2), of app 0 h2_reader_init] show ?thesis
    using assms(3) by (cases "h2_feed_loop app (concat (map encode_frame fs)) 0 s0")
      (auto simp: h2_feed_def s0_def [symmetric])
qed

theorem h2_feed_refines_witness:
  "bindE (h2_feed idle_app (h2_build_frame PING 0 0 [1, 2, 3, 4, 5, 6, 7, 8]) (h2_session_new Client ()))
     (\<lambda>(_, t). Inr (rd h2_reader_init t)) =
   rd_map h2_reader_init (process_frames idle_app [mk_frame PING 0 0 [1, 2, 3, 4, 5, 6, 7, 8]] (h2_session_new Client ()))"
  using h2_feed_refines [OF session_new_clean [of Client "()"], of "[mk_frame PING 0 0 [1, 2, 3, 4, 5, 6, 7, 8]]" idle_app]
  by (simp add: frame_wf_mk h2_session_new_def enqueue_def)

end
