(* ===== verification/Grpc_Rpc.thy ===== *)
theory Grpc_Rpc
  imports Grpc_Wire H2_Exchange
begin

text \<open>
  The RPC layer over the HTTP/2 session: the writer (\<^verbatim>\<open>grpc/stream.hpp\<close>, \<^verbatim>\<open>src/grpc/grpc_stream.cpp\<close>),
  the server's method table, dispatch and connection handlers (\<^verbatim>\<open>src/grpc/grpc_server.cpp\<close>) and the
  client's channel (\<^verbatim>\<open>src/grpc/grpc_channel.cpp\<close>).  The FRPC sources are copies that differ in a content
  type and a few messages; those are the fields of a flavour.

  A registered handler is a coroutine that the server resumes once.  It is a function of its request,
  of what its reader holds and of the application's state, and answers with what it did in that one
  step: returned, threw a \<^verbatim>\<open>std::exception\<close> with the given text, or suspended.  What it does to its
  writer is the list of its writer operations, in order.
\<close>

section \<open>Writer\<close>

text \<open>A default-constructed writer has no session.\<close>

record grpc_writer =
  wr_session :: bool
  wr_stream_id :: int
  wr_finished :: bool

definition writer_new :: "int \<Rightarrow> grpc_writer" where
  "writer_new sid = \<lparr>wr_session = True, wr_stream_id = sid, wr_finished = False\<rparr>"

definition status_trailers :: "grpc_status \<Rightarrow> headers" where
  "status_trailers st =
     (let t = hdrs_set (str ''grpc-status'') (int_to_string (grpc_code (gs_code st))) []
      in if gs_message st \<noteq> [] then hdrs_set (str ''grpc-message'') (gs_message st) t else t)"

definition writer_write :: "bytes \<Rightarrow> grpc_writer \<Rightarrow> bool \<times> h2_call list \<times> grpc_writer" where
  "writer_write msg w =
     (if wr_finished w \<or> \<not> wr_session w then (False, [], w)
      else (True, [Submit_Data (wr_stream_id w) (encode_grpc_message msg) False], w))"

definition writer_finish :: "grpc_status_code \<Rightarrow> bytes \<Rightarrow> grpc_writer \<Rightarrow> h2_call list \<times> grpc_writer" where
  "writer_finish code msg w =
     (if wr_finished w \<or> \<not> wr_session w then ([], w)
      else ([Submit_Trailers (wr_stream_id w) (status_trailers \<lparr>gs_code = code, gs_message = msg\<rparr>)],
            w\<lparr>wr_finished := True\<rparr>))"

definition finish_writer :: "grpc_writer \<Rightarrow> h2_call list \<times> grpc_writer" where
  "finish_writer w = writer_finish G_ok [] w"

datatype writer_op = Op_Write bytes | Op_Finish grpc_status_code bytes

fun writer_ops :: "writer_op list \<Rightarrow> grpc_writer \<Rightarrow> h2_call list \<times> grpc_writer" where
  "writer_ops [] w = ([], w)"
| "writer_ops (Op_Write m # ops) w =
     (let (_, cs, w1) = writer_write m w; (ds, w2) = writer_ops ops w1 in (cs @ ds, w2))"
| "writer_ops (Op_Finish c m # ops) w =
     (let (cs, w1) = writer_finish c m w; (ds, w2) = writer_ops ops w1 in (cs @ ds, w2))"

section \<open>Method table\<close>

datatype handler_type = Unary | Server_Stream | Client_Stream | Bidi_Stream

type_synonym 'u unary_fn = "bytes \<Rightarrow> 'u \<Rightarrow> bytes task \<times> 'u"
type_synonym 'u unary_ctx_fn = "bytes \<Rightarrow> call_context \<Rightarrow> 'u \<Rightarrow> bytes task \<times> call_context \<times> 'u"
type_synonym 'u srv_stream_fn = "bytes \<Rightarrow> 'u \<Rightarrow> writer_op list \<times> unit task \<times> 'u"
type_synonym 'u srv_stream_ctx_fn =
  "bytes \<Rightarrow> call_context \<Rightarrow> 'u \<Rightarrow> writer_op list \<times> unit task \<times> call_context \<times> 'u"
type_synonym 'u cli_stream_fn = "grpc_reader \<Rightarrow> 'u \<Rightarrow> bytes task \<times> grpc_reader \<times> 'u"
type_synonym 'u cli_stream_ctx_fn =
  "grpc_reader \<Rightarrow> call_context \<Rightarrow> 'u \<Rightarrow> bytes task \<times> grpc_reader \<times> call_context \<times> 'u"
type_synonym 'u bidi_fn = "grpc_reader \<Rightarrow> 'u \<Rightarrow> writer_op list \<times> unit task \<times> grpc_reader \<times> 'u"
type_synonym 'u bidi_ctx_fn =
  "grpc_reader \<Rightarrow> call_context \<Rightarrow> 'u \<Rightarrow> writer_op list \<times> unit task \<times> grpc_reader \<times> call_context \<times> 'u"

record 'u method_entry =
  me_type :: handler_type
  me_has_context :: bool
  me_unary :: "'u unary_fn option"
  me_unary_ctx :: "'u unary_ctx_fn option"
  me_srv_stream :: "'u srv_stream_fn option"
  me_srv_stream_ctx :: "'u srv_stream_ctx_fn option"
  me_cli_stream :: "'u cli_stream_fn option"
  me_cli_stream_ctx :: "'u cli_stream_ctx_fn option"
  me_bidi :: "'u bidi_fn option"
  me_bidi_ctx :: "'u bidi_ctx_fn option"

definition method_entry_empty :: "handler_type \<Rightarrow> bool \<Rightarrow> 'u method_entry" where
  "method_entry_empty t ctx = \<lparr>me_type = t, me_has_context = ctx, me_unary = None, me_unary_ctx = None,
     me_srv_stream = None, me_srv_stream_ctx = None, me_cli_stream = None, me_cli_stream_ctx = None,
     me_bidi = None, me_bidi_ctx = None\<rparr>"

record 'u grpc_server =
  sv_methods :: "bytes \<Rightarrow> 'u method_entry option"
  sv_interceptors :: "'u interceptor_fn list"
  sv_running :: bool

definition grpc_server_new :: "'u grpc_server" where
  "grpc_server_new = \<lparr>sv_methods = (\<lambda>_. None), sv_interceptors = [], sv_running = True\<rparr>"

definition put_method :: "bytes \<Rightarrow> bytes \<Rightarrow> 'u method_entry \<Rightarrow> 'u grpc_server \<Rightarrow> 'u grpc_server" where
  "put_method service mtd e sv = sv\<lparr>sv_methods := (sv_methods sv)(make_path service mtd := Some e)\<rparr>"

definition register_method :: "bytes \<Rightarrow> bytes \<Rightarrow> 'u unary_fn \<Rightarrow> 'u grpc_server \<Rightarrow> 'u grpc_server" where
  "register_method service mtd h sv = put_method service mtd ((method_entry_empty Unary False)\<lparr>me_unary := Some h\<rparr>) sv"

definition register_method_ctx :: "bytes \<Rightarrow> bytes \<Rightarrow> 'u unary_ctx_fn \<Rightarrow> 'u grpc_server \<Rightarrow> 'u grpc_server" where
  "register_method_ctx service mtd h sv =
     put_method service mtd ((method_entry_empty Unary True)\<lparr>me_unary_ctx := Some h\<rparr>) sv"

definition register_server_stream :: "bytes \<Rightarrow> bytes \<Rightarrow> 'u srv_stream_fn \<Rightarrow> 'u grpc_server \<Rightarrow> 'u grpc_server" where
  "register_server_stream service mtd h sv =
     put_method service mtd ((method_entry_empty Server_Stream False)\<lparr>me_srv_stream := Some h\<rparr>) sv"

definition register_server_stream_ctx :: "bytes \<Rightarrow> bytes \<Rightarrow> 'u srv_stream_ctx_fn \<Rightarrow> 'u grpc_server \<Rightarrow> 'u grpc_server" where
  "register_server_stream_ctx service mtd h sv =
     put_method service mtd ((method_entry_empty Server_Stream True)\<lparr>me_srv_stream_ctx := Some h\<rparr>) sv"

definition register_client_stream :: "bytes \<Rightarrow> bytes \<Rightarrow> 'u cli_stream_fn \<Rightarrow> 'u grpc_server \<Rightarrow> 'u grpc_server" where
  "register_client_stream service mtd h sv =
     put_method service mtd ((method_entry_empty Client_Stream False)\<lparr>me_cli_stream := Some h\<rparr>) sv"

definition register_client_stream_ctx :: "bytes \<Rightarrow> bytes \<Rightarrow> 'u cli_stream_ctx_fn \<Rightarrow> 'u grpc_server \<Rightarrow> 'u grpc_server" where
  "register_client_stream_ctx service mtd h sv =
     put_method service mtd ((method_entry_empty Client_Stream True)\<lparr>me_cli_stream_ctx := Some h\<rparr>) sv"

definition register_bidi_stream :: "bytes \<Rightarrow> bytes \<Rightarrow> 'u bidi_fn \<Rightarrow> 'u grpc_server \<Rightarrow> 'u grpc_server" where
  "register_bidi_stream service mtd h sv =
     put_method service mtd ((method_entry_empty Bidi_Stream False)\<lparr>me_bidi := Some h\<rparr>) sv"

definition register_bidi_stream_ctx :: "bytes \<Rightarrow> bytes \<Rightarrow> 'u bidi_ctx_fn \<Rightarrow> 'u grpc_server \<Rightarrow> 'u grpc_server" where
  "register_bidi_stream_ctx service mtd h sv =
     put_method service mtd ((method_entry_empty Bidi_Stream True)\<lparr>me_bidi_ctx := Some h\<rparr>) sv"

definition add_interceptor :: "'u interceptor_fn \<Rightarrow> 'u grpc_server \<Rightarrow> 'u grpc_server" where
  "add_interceptor f sv = sv\<lparr>sv_interceptors := sv_interceptors sv @ [f]\<rparr>"

definition server_stop :: "'u grpc_server \<Rightarrow> 'u grpc_server" where
  "server_stop sv = sv\<lparr>sv_running := False\<rparr>"

section \<open>Flavours\<close>

record rpc_flavour =
  fl_content_type :: bytes
  fl_not_rpc :: bytes
  fl_not_post :: bytes
  fl_bad_frame :: bytes
  fl_bad_response :: bytes

definition grpc_flavour :: rpc_flavour where
  "grpc_flavour = \<lparr>fl_content_type = str ''application/grpc'', fl_not_rpc = str ''Not a gRPC request'',
     fl_not_post = str ''gRPC requires POST method'', fl_bad_frame = str ''Invalid gRPC frame'',
     fl_bad_response = str ''Invalid gRPC response frame''\<rparr>"

definition frpc_flavour :: rpc_flavour where
  "frpc_flavour = \<lparr>fl_content_type = str ''application/grpc+flatbuffers'', fl_not_rpc = str ''Not a gRPC/FRPC request'',
     fl_not_post = str ''RPC requires POST method'', fl_bad_frame = str ''Invalid RPC frame'',
     fl_bad_response = str ''Invalid FRPC response frame''\<rparr>"

section \<open>Unary calls on the server\<close>

text \<open>Calling an empty \<^verbatim>\<open>std::function\<close> throws.\<close>

definition bad_function_call :: string where
  "bad_function_call = ''bad_function_call''"

definition call_unary :: "'u method_entry \<Rightarrow> bytes \<Rightarrow> call_context \<Rightarrow> 'u \<Rightarrow> bytes task \<times> call_context \<times> 'u" where
  "call_unary e data ctx u =
     (if me_has_context e
      then (case me_unary_ctx e of Some h \<Rightarrow> h data ctx u | None \<Rightarrow> (Threw bad_function_call, ctx, u))
      else (case me_unary e of Some h \<Rightarrow> (let (t, u1) = h data u in (t, ctx, u1))
                             | None \<Rightarrow> (Threw bad_function_call, ctx, u)))"

definition failed :: "grpc_status_code \<Rightarrow> string \<Rightarrow> grpc_status \<times> bytes" where
  "failed code text = (\<lparr>gs_code = code, gs_message = str text\<rparr>, [])"

definition dispatch ::
  "'u grpc_server \<Rightarrow> bytes \<Rightarrow> bytes \<Rightarrow> call_context \<Rightarrow> 'u \<Rightarrow> ((grpc_status \<times> bytes) \<times> call_context \<times> 'u) res" where
  "dispatch sv path data ctx u =
     (case sv_methods sv path of
        None \<Rightarrow> Inr (failed G_unimplemented ''Method not found'', ctx, u)
      | Some e \<Rightarrow>
          if me_type e \<noteq> Unary then Inr (failed G_unimplemented ''Method is not a unary RPC'', ctx, u)
          else bindE
            (let (svc, mtd) = parse_path path
             in run_interceptors (sv_interceptors sv)
                  \<lparr>ci_service = svc, ci_method = mtd, ci_metadata = cc_initial_metadata ctx\<rparr> data
                  ([], grpc_status_default) u)
            (\<lambda>(proceed, (error_response, error_status), u1).
              if \<not> proceed then Inr ((error_status, error_response), ctx, u1)
              else (case call_unary e data ctx u1 of
                      (Done response_data, ctx1, u2) \<Rightarrow> Inr ((grpc_status_default, response_data), ctx1, u2)
                    | (Suspended, ctx1, u2) \<Rightarrow> Inr (failed G_internal ''Handler did not complete synchronously'', ctx1, u2)
                    | (Threw e, ctx1, u2) \<Rightarrow> Inr (failed G_internal e, ctx1, u2))))"

definition is_rpc :: "request \<Rightarrow> bool" where
  "is_rpc req \<longleftrightarrow>
     (case hdrs_get (str ''content-type'') (rq_hdrs req) of
        None \<Rightarrow> False | Some ct \<Rightarrow> find_sub (str ''application/grpc'') ct = Some 0)"

definition rpc_headers :: "rpc_flavour \<Rightarrow> headers" where
  "rpc_headers fl =
     hdrs_set (str ''grpc-encoding'') (str ''identity'') (hdrs_set (str ''content-type'') (fl_content_type fl) [])"

definition rpc_response :: "rpc_flavour \<Rightarrow> grpc_status \<Rightarrow> bytes \<Rightarrow> metadata \<Rightarrow> response" where
  "rpc_response fl st response_data md =
     response_default\<lparr>rs_status := 200, rs_hdrs := rpc_headers fl,
       rs_bd := (if response_data = [] then [] else encode_grpc_message response_data),
       rs_trailers := fold (\<lambda>(k, v). hdrs_set k v) md (status_trailers st)\<rparr>"

text \<open>The request handler that a connection installs.\<close>

definition rpc_request_handler ::
  "rpc_flavour \<Rightarrow> 'u grpc_server \<Rightarrow> request \<Rightarrow> 'u \<Rightarrow> (response \<times> 'u) res" where
  "rpc_request_handler fl sv req u =
     (if \<not> is_rpc req then Inr (response_default\<lparr>rs_status := 415, rs_bd := fl_not_rpc fl\<rparr>, u)
      else if rq_method req \<noteq> POST then Inr (response_default\<lparr>rs_status := 405, rs_bd := fl_not_post fl\<rparr>, u)
      else bindE (decode_grpc_message (rq_bd req)) (\<lambda>msg.
        case msg of
          None \<Rightarrow>
            Inr (response_default\<lparr>rs_status := 200,
                   rs_hdrs := hdrs_set (str ''content-type'') (fl_content_type fl) [],
                   rs_trailers := status_trailers \<lparr>gs_code = G_internal, gs_message = fl_bad_frame fl\<rparr>\<rparr>, u)
        | Some data \<Rightarrow>
            bindE (dispatch sv (rq_path req) data
                     \<lparr>cc_initial_metadata = extract_from_headers (rq_hdrs req), cc_response_metadata = []\<rparr> u)
              (\<lambda>((st, response_data), ctx, u1). Inr (rpc_response fl st response_data (cc_response_metadata ctx), u1))))"

section \<open>Streaming calls on the server\<close>

text \<open>
  The state a data callback captures: the method's table entry by its path, the writer, whether the
  handler has been called, and the buffer or the deframer with its reader.
\<close>

datatype rpc_closure =
    Srv_Closure bytes bytes grpc_writer bool
  | Cli_Closure bytes stream_deframer grpc_writer bool
  | Bidi_Closure bytes stream_deframer grpc_writer bool

record 'u rpc_state =
  rc_user :: 'u
  rc_closures :: "nat \<Rightarrow> rpc_closure option"
  rc_next :: nat

definition rpc_state_new :: "'u \<Rightarrow> 'u rpc_state" where
  "rpc_state_new u = \<lparr>rc_user = u, rc_closures = (\<lambda>_. None), rc_next = 0\<rparr>"

definition put_closure :: "nat \<Rightarrow> rpc_closure \<Rightarrow> 'u \<Rightarrow> 'u rpc_state \<Rightarrow> 'u rpc_state" where
  "put_closure i c u st = st\<lparr>rc_user := u, rc_closures := (rc_closures st)(i := Some c)\<rparr>"

definition finish_unless_finished :: "grpc_writer \<Rightarrow> h2_call list \<times> grpc_writer" where
  "finish_unless_finished w = (if wr_finished w then ([], w) else finish_writer w)"

text \<open>
  The streaming paths call the slots without context, whatever the entry's type of registration.  A
  \<^verbatim>\<open>Task<void>\<close> that has thrown is done; its exception is not looked at.
\<close>

definition srv_invoke :: "'u method_entry \<Rightarrow> bytes \<Rightarrow> grpc_writer \<Rightarrow> 'u \<Rightarrow> (h2_call list \<times> grpc_writer \<times> 'u) res" where
  "srv_invoke e data w u =
     (case me_srv_stream e of
        None \<Rightarrow> Inl (Runtime_Error bad_function_call)
      | Some h \<Rightarrow>
          (let (ops, t, u1) = h data u; (cs, w1) = writer_ops ops w
           in if t = Suspended then Inr (cs, w1, u1)
              else (let (ds, w2) = finish_unless_finished w1 in Inr (cs @ ds, w2, u1))))"

definition cli_invoke ::
  "'u method_entry \<Rightarrow> stream_deframer \<Rightarrow> grpc_writer \<Rightarrow> 'u \<Rightarrow> (h2_call list \<times> stream_deframer \<times> grpc_writer \<times> 'u) res" where
  "cli_invoke e d w u =
     (case (me_cli_stream e, df_rdr d) of
        (None, _) \<Rightarrow> Inl (Runtime_Error bad_function_call)
      | (_, None) \<Rightarrow> Inl Undefined_Behaviour
      | (Some h, Some r) \<Rightarrow>
          (case h r u of
             (Done result, r1, u1) \<Rightarrow>
               (let (ds, w1) = finish_writer w
                in Inr (Submit_Data (wr_stream_id w) (encode_grpc_message result) False # ds, d\<lparr>df_rdr := Some r1\<rparr>, w1, u1))
           | (Threw x, r1, u1) \<Rightarrow> Inl (Runtime_Error x)
           | (Suspended, r1, u1) \<Rightarrow> Inr ([], d\<lparr>df_rdr := Some r1\<rparr>, w, u1)))"

definition bidi_invoke ::
  "'u method_entry \<Rightarrow> stream_deframer \<Rightarrow> grpc_writer \<Rightarrow> 'u \<Rightarrow> (h2_call list \<times> stream_deframer \<times> grpc_writer \<times> 'u) res" where
  "bidi_invoke e d w u =
     (case (me_bidi e, df_rdr d) of
        (None, _) \<Rightarrow> Inl (Runtime_Error bad_function_call)
      | (_, None) \<Rightarrow> Inl Undefined_Behaviour
      | (Some h, Some r) \<Rightarrow>
          (let (ops, t, r1, u1) = h r u; (cs, w1) = writer_ops ops w
           in if t = Suspended then Inr (cs, d\<lparr>df_rdr := Some r1\<rparr>, w1, u1)
              else (let (ds, w2) = finish_unless_finished w1 in Inr (cs @ ds, d\<lparr>df_rdr := Some r1\<rparr>, w2, u1))))"

text \<open>The three data callbacks.  Entries of the method table are never removed.\<close>

definition srv_on_data ::
  "'u method_entry \<Rightarrow> bytes \<Rightarrow> bool \<Rightarrow> bytes \<Rightarrow> grpc_writer \<Rightarrow> bool \<Rightarrow> 'u \<Rightarrow>
     (h2_call list \<times> bytes \<times> grpc_writer \<times> bool \<times> 'u) res" where
  "srv_on_data e data es buffer w called u =
     (let buffer1 = buffer @ data
      in if es \<and> \<not> called
         then bindE (decode_grpc_message buffer1) (\<lambda>msg.
                bindE (srv_invoke e (case msg of Some m \<Rightarrow> m | None \<Rightarrow> []) w u) (\<lambda>(cs, w1, u1).
                  Inr (cs, buffer1, w1, True, u1)))
         else Inr ([], buffer1, w, called, u))"

definition reader_on_data ::
  "(stream_deframer \<Rightarrow> grpc_writer \<Rightarrow> 'u \<Rightarrow> (h2_call list \<times> stream_deframer \<times> grpc_writer \<times> 'u) res) \<Rightarrow>
     bytes \<Rightarrow> bool \<Rightarrow> stream_deframer \<Rightarrow> grpc_writer \<Rightarrow> bool \<Rightarrow> 'u \<Rightarrow>
     (h2_call list \<times> stream_deframer \<times> grpc_writer \<times> bool \<times> 'u) res" where
  "reader_on_data invoke data es d w launched u =
     bindE (deframer_feed data d) (\<lambda>(_, _, d1).
       if es
       then bindE (deframer_complete d1) (\<lambda>(_, d2).
              if \<not> launched
              then bindE (invoke d2 w u) (\<lambda>(cs, d3, w1, u1). Inr (cs, d3, w1, True, u1))
              else Inr ([], d2, w, launched, u))
       else Inr ([], d1, w, launched, u))"

definition rpc_data ::
  "'u grpc_server \<Rightarrow> nat \<Rightarrow> int \<Rightarrow> bytes \<Rightarrow> bool \<Rightarrow> 'u rpc_state \<Rightarrow> (h2_call list \<times> 'u rpc_state) res" where
  "rpc_data sv i sid data es st =
     (case rc_closures st i of
        Some (Srv_Closure path buffer w called) \<Rightarrow>
          (case sv_methods sv path of
             None \<Rightarrow> Inl Undefined_Behaviour
           | Some e \<Rightarrow> bindE (srv_on_data e data es buffer w called (rc_user st)) (\<lambda>(cs, buffer1, w1, called1, u1).
               Inr (cs, put_closure i (Srv_Closure path buffer1 w1 called1) u1 st)))
      | Some (Cli_Closure path d w launched) \<Rightarrow>
          (case sv_methods sv path of
             None \<Rightarrow> Inl Undefined_Behaviour
           | Some e \<Rightarrow> bindE (reader_on_data (cli_invoke e) data es d w launched (rc_user st)) (\<lambda>(cs, d1, w1, l1, u1).
               Inr (cs, put_closure i (Cli_Closure path d1 w1 l1) u1 st)))
      | Some (Bidi_Closure path d w launched) \<Rightarrow>
          (case sv_methods sv path of
             None \<Rightarrow> Inl Undefined_Behaviour
           | Some e \<Rightarrow> bindE (reader_on_data (bidi_invoke e) data es d w launched (rc_user st)) (\<lambda>(cs, d1, w1, l1, u1).
               Inr (cs, put_closure i (Bidi_Closure path d1 w1 l1) u1 st)))
      | None \<Rightarrow> Inl Undefined_Behaviour)"

text \<open>
  The start handler.  With END_STREAM on the headers the handler is called at once; only the
  server-streaming path records that.
\<close>

definition start_server_stream ::
  "'u method_entry \<Rightarrow> bytes \<Rightarrow> int \<Rightarrow> bool \<Rightarrow> 'u \<Rightarrow> (h2_call list \<times> rpc_closure \<times> 'u) res" where
  "start_server_stream e path sid end_stream u =
     (if end_stream
      then bindE (srv_invoke e [] (writer_new sid) u) (\<lambda>(cs, w, u1). Inr (cs, Srv_Closure path [] w True, u1))
      else Inr ([], Srv_Closure path [] (writer_new sid) False, u))"

definition start_reader_stream ::
  "(stream_deframer \<Rightarrow> grpc_writer \<Rightarrow> 'u \<Rightarrow> (h2_call list \<times> stream_deframer \<times> grpc_writer \<times> 'u) res) \<Rightarrow>
     (stream_deframer \<Rightarrow> grpc_writer \<Rightarrow> bool \<Rightarrow> rpc_closure) \<Rightarrow> int \<Rightarrow> bool \<Rightarrow> 'u \<Rightarrow> (h2_call list \<times> rpc_closure \<times> 'u) res" where
  "start_reader_stream invoke closure sid end_stream u =
     (let d = stream_deframer_new (Some grpc_reader_new)
      in if end_stream
         then bindE (deframer_complete d) (\<lambda>(_, d1).
                bindE (invoke d1 (writer_new sid) u) (\<lambda>(cs, d2, w, u1). Inr (cs, closure d2 w False, u1)))
         else Inr ([], closure d (writer_new sid) False, u))"

definition rpc_start ::
  "rpc_flavour \<Rightarrow> 'u grpc_server \<Rightarrow> int \<Rightarrow> request \<Rightarrow> bool \<Rightarrow> 'u rpc_state \<Rightarrow> (bool \<times> h2_call list \<times> 'u rpc_state) res" where
  "rpc_start fl sv sid req end_stream st =
     (if \<not> is_rpc req then Inr (False, [], st)
      else case sv_methods sv (rq_path req) of
             None \<Rightarrow> Inr (False, [], st)
           | Some e \<Rightarrow>
               if me_type e = Unary then Inr (False, [], st)
               else bindE
                 (case me_type e of
                    Server_Stream \<Rightarrow> start_server_stream e (rq_path req) sid end_stream (rc_user st)
                  | Client_Stream \<Rightarrow> start_reader_stream (cli_invoke e) (Cli_Closure (rq_path req)) sid end_stream (rc_user st)
                  | _ \<Rightarrow> start_reader_stream (bidi_invoke e) (Bidi_Closure (rq_path req)) sid end_stream (rc_user st))
                 (\<lambda>(cs, closure, u1).
                   Inr (True,
                     [Submit_Response_Headers sid (response_default\<lparr>rs_status := 200, rs_hdrs := rpc_headers fl\<rparr>),
                      Set_Data_Callback sid (Some (rc_next st))] @ cs,
                     (put_closure (rc_next st) closure u1 st)\<lparr>rc_next := Suc (rc_next st)\<rparr>)))"

section \<open>Connections\<close>

text \<open>What the session of a connection calls back; the session's other handlers are not installed.\<close>

definition rpc_app :: "rpc_flavour \<Rightarrow> 'u grpc_server \<Rightarrow> 'u rpc_state h2_app" where
  "rpc_app fl sv = \<lparr>
     app_request = (\<lambda>_ req st. bindE (rpc_request_handler fl sv req (rc_user st)) (\<lambda>(resp, u). Inr (resp, st\<lparr>rc_user := u\<rparr>))),
     app_streaming = (\<lambda>_ _ _ st. Inr (False, [], st)),
     app_start = (\<lambda>_ sid req end_stream st. rpc_start fl sv sid req end_stream st),
     app_data = (\<lambda>i sid data es st. rpc_data sv i sid data es st),
     app_push_provider = (\<lambda>_ _ st. Inr ([], st)),
     app_push = (\<lambda>_ _ st. Inr ([], st)),
     app_resume = (\<lambda>_ st. ([], st))\<rparr>"

definition connection_session :: "'u \<Rightarrow> 'u rpc_state h2_session" where
  "connection_session u =
     (h2_session_new Server (rpc_state_new u))\<lparr>s_request_handler := Some 0, s_request_start_handler := Some 0\<rparr>"

definition PREFACE :: bytes where
  "PREFACE = str ''PRI * HTTP/2.0'' @ [13, 10, 13, 10] @ str ''SM'' @ [13, 10, 13, 10]"

text \<open>
  The transport's reads, in order; an empty one stands for an error or the end.  A read returns no
  more than the room left in the buffer.  \<open>None\<close>: the coroutine waits for another read.
\<close>

fun read_preface :: "bytes list \<Rightarrow> bytes \<Rightarrow> (bytes \<times> bytes list) option" where
  "read_preface reads buf =
     (if 24 \<le> length buf then Some (buf, reads)
      else case reads of
             [] \<Rightarrow> None
           | r # rs \<Rightarrow> if r = [] then Some (buf, rs) else read_preface rs (buf @ r))"

text \<open>
  The read loop.  A round has the value of \<^verbatim>\<open>running_\<close> when the loop tests it, the bytes read and what
  the flush after it meets.
\<close>

type_synonym sends = "(int \<times> h2_call list) list"

datatype 'u conn_out = In_Read bytes "'u h2_session" | In_Flush | Ended bytes "'u h2_session"

fun read_rounds :: "'u h2_app \<Rightarrow> (bool \<times> bytes \<times> sends) list \<Rightarrow> bytes \<Rightarrow> 'u h2_session \<Rightarrow> 'u conn_out res" where
  "read_rounds app [] wire s = Inr (In_Read wire s)"
| "read_rounds app ((running, data, sends) # rounds) wire s =
     (if \<not> (s_alive s \<and> running) then Inr (Ended wire s)
      else if data = [] then Inr (Ended wire s)
      else bindE (h2_feed app data s) (\<lambda>(consumed, s1).
        if consumed < 0 then Inr (Ended wire s1)
        else bindE (h2_flush sends s1) (\<lambda>r.
          case r of
            None \<Rightarrow> Inr In_Flush
          | Some (w, ok, s2) \<Rightarrow> if ok then read_rounds app rounds (wire @ w) s2 else Inr (Ended (wire @ w) s2))))"

definition handle_connection ::
  "'u h2_app \<Rightarrow> sends \<Rightarrow> bytes list \<Rightarrow> sends \<Rightarrow> (bool \<times> bytes \<times> sends) list \<Rightarrow> 'u h2_session \<Rightarrow> 'u conn_out res" where
  "handle_connection app sends1 reads sends2 rounds s =
     bindE (h2_flush sends1 s) (\<lambda>r1.
       case r1 of
         None \<Rightarrow> Inr In_Flush
       | Some (w1, _, s1) \<Rightarrow>
           (case read_preface reads [] of
              None \<Rightarrow> Inr (In_Read w1 s1)
            | Some (buf, _) \<Rightarrow>
                if length buf < 24 \<or> take 24 buf \<noteq> PREFACE then Inr (Ended w1 s1)
                else bindE (if 24 < length buf then h2_feed app (drop 24 buf) s1 else Inr (0, s1)) (\<lambda>(_, s2).
                  bindE (h2_flush sends2 s2) (\<lambda>r2.
                    case r2 of
                      None \<Rightarrow> Inr In_Flush
                    | Some (w2, _, s3) \<Rightarrow> read_rounds app rounds (w1 @ w2) s3))))"

section \<open>Channel\<close>

record rpc_channel =
  ch_host :: bytes
  ch_connected :: bool

definition rpc_channel_new :: "bytes \<Rightarrow> rpc_channel" where
  "rpc_channel_new host = \<lparr>ch_host = host, ch_connected = False\<rparr>"

definition channel_close :: "rpc_channel \<Rightarrow> rpc_channel" where
  "channel_close ch = ch\<lparr>ch_connected := False\<rparr>"

definition make_rpc_request :: "rpc_flavour \<Rightarrow> bytes \<Rightarrow> bytes \<Rightarrow> bytes \<Rightarrow> request" where
  "make_rpc_request fl host path body_data =
     request_default\<lparr>rq_method := POST, rq_path := path, rq_ver := HTTP_2,
       rq_hdrs := hdrs_set (str ''grpc-encoding'') (str ''identity'') (hdrs_set (str ''TE'') (str ''trailers'')
         (hdrs_set (str ''Content-Type'') (fl_content_type fl) (hdrs_set (str ''Host'') host []))),
       rq_bd := body_data\<rparr>"

definition extract_rpc_status :: "response \<Rightarrow> grpc_status" where
  "extract_rpc_status resp =
     \<lparr>gs_code = (case hdrs_get (str ''grpc-status'') (rs_hdrs resp) of
                   Some v \<Rightarrow> grpc_code_of (case from_chars_signed 32 v of Some code \<Rightarrow> code | None \<Rightarrow> 0)
                 | None \<Rightarrow> G_ok),
      gs_message = (case hdrs_get (str ''grpc-message'') (rs_hdrs resp) of Some m \<Rightarrow> m | None \<Rightarrow> [])\<rparr>"

text \<open>
  A call runs in two parts around the flush and the wait for the promise: what is submitted, and what
  the caller gets from the completed promise.
\<close>

datatype ('r, 'u) call_begin = Refused 'r | Started int nat "'u h2_session"

definition begin_call ::
  "rpc_channel \<Rightarrow> request \<Rightarrow> bool \<Rightarrow> (grpc_status \<Rightarrow> 'r) \<Rightarrow> 'u h2_session \<Rightarrow> ('r, 'u) call_begin res" where
  "begin_call ch req no_end_stream refuse c =
     (if \<not> ch_connected ch then Inr (Refused (refuse \<lparr>gs_code = G_unavailable, gs_message = str ''Channel not connected''\<rparr>))
      else let (p, c1) = make_promise promise_default c
           in bindE (do_submit_request req (Some p) no_end_stream c1) (\<lambda>(sid, c2).
                if sid < 0 then Inr (Refused (refuse \<lparr>gs_code = G_internal, gs_message = str ''Failed to submit request''\<rparr>))
                else Inr (Started sid p c2)))"

definition unary_call ::
  "rpc_flavour \<Rightarrow> rpc_channel \<Rightarrow> bytes \<Rightarrow> bytes \<Rightarrow> bytes \<Rightarrow> 'u h2_session \<Rightarrow> (grpc_status \<times> bytes, 'u) call_begin res" where
  "unary_call fl ch service mtd request_data c =
     begin_call ch (make_rpc_request fl (ch_host ch) (make_path service mtd) (encode_grpc_message request_data)) False
       (\<lambda>st. (st, [])) c"

definition unary_call_metadata ::
  "rpc_flavour \<Rightarrow> rpc_channel \<Rightarrow> bytes \<Rightarrow> bytes \<Rightarrow> bytes \<Rightarrow> metadata \<Rightarrow> 'u h2_session \<Rightarrow> (grpc_status \<times> bytes, 'u) call_begin res" where
  "unary_call_metadata fl ch service mtd request_data initial_metadata c =
     (let req = make_rpc_request fl (ch_host ch) (make_path service mtd) (encode_grpc_message request_data)
      in begin_call ch (req\<lparr>rq_hdrs := fold (\<lambda>(k, v). hdrs_set k v) initial_metadata (rq_hdrs req)\<rparr>) False
           (\<lambda>st. (st, [])) c)"

definition unary_result :: "rpc_flavour \<Rightarrow> response_promise \<Rightarrow> (grpc_status \<times> bytes) res" where
  "unary_result fl pr =
     (let resp = pr_resp pr; st = extract_rpc_status resp
      in if pr_error pr then Inr (failed G_internal ''Request error'')
         else if rs_status resp \<noteq> 200
         then Inr (\<lparr>gs_code = G_internal, gs_message = str ''HTTP error: '' @ int_to_string (rs_status resp)\<rparr>, [])
         else if \<not> grpc_ok st then Inr (st, [])
         else bindE (decode_grpc_message (rs_bd resp)) (\<lambda>msg.
           case msg of
             None \<Rightarrow> Inr (\<lparr>gs_code = G_internal, gs_message = fl_bad_response fl\<rparr>, [])
           | Some data \<Rightarrow> Inr (st, data)))"

text \<open>With response metadata asked for, it is set from every answer with status 200.\<close>

definition unary_result_metadata ::
  "rpc_flavour \<Rightarrow> metadata \<Rightarrow> response_promise \<Rightarrow> ((grpc_status \<times> bytes) \<times> metadata) res" where
  "unary_result_metadata fl md pr =
     bindE (unary_result fl pr) (\<lambda>r.
       Inr (r, if pr_error pr \<or> rs_status (pr_resp pr) \<noteq> 200 then md else extract_from_headers (rs_hdrs (pr_resp pr))))"

text \<open>The waiting: at once if the promise is complete, otherwise the coroutine is entered as its waiter.\<close>

definition promise_await :: "nat \<Rightarrow> nat \<Rightarrow> 'u h2_session \<Rightarrow> bool \<times> 'u h2_session" where
  "promise_await p w c =
     (case s_promises c p of
        None \<Rightarrow> (True, c)
      | Some pr \<Rightarrow> if pr_complete pr then (True, c)
                   else (False, c\<lparr>s_promises := (s_promises c)(p := Some (pr\<lparr>pr_waiter := Some w\<rparr>))\<rparr>))"

text \<open>
  The streaming calls.  Their data callback is a deframer, kept by the application under the callback's
  identifier; \<open>cb\<close> is the identifier chosen for it.
\<close>

definition server_stream_call ::
  "rpc_flavour \<Rightarrow> rpc_channel \<Rightarrow> bytes \<Rightarrow> bytes \<Rightarrow> bytes \<Rightarrow> bool \<Rightarrow> nat \<Rightarrow> 'u h2_session \<Rightarrow>
     ((grpc_status, 'u) call_begin \<times> stream_deframer) res" where
  "server_stream_call fl ch service mtd request_data has_on_message cb c =
     (let d = stream_deframer_new None; d1 = (if has_on_message then on_message d else d)
      in bindE (begin_call ch (make_rpc_request fl (ch_host ch) (make_path service mtd) (encode_grpc_message request_data))
                  False (\<lambda>st. st) c)
           (\<lambda>b. Inr (case b of
                Refused st \<Rightarrow> Refused st
              | Started sid p c1 \<Rightarrow> Started sid p (set_data_callback sid (Some cb) c1), d1)))"

definition server_stream_result :: "response_promise \<Rightarrow> grpc_status" where
  "server_stream_result pr =
     (if pr_error pr then \<lparr>gs_code = G_internal, gs_message = str ''Request error''\<rparr> else extract_rpc_status (pr_resp pr))"

definition client_stream_call ::
  "rpc_flavour \<Rightarrow> rpc_channel \<Rightarrow> bytes \<Rightarrow> bytes \<Rightarrow> 'u h2_session \<Rightarrow> ((unit, 'u) call_begin \<times> grpc_writer option) res" where
  "client_stream_call fl ch service mtd c =
     bindE (begin_call ch (make_rpc_request fl (ch_host ch) (make_path service mtd) []) True (\<lambda>_. ()) c)
       (\<lambda>b. Inr (b, case b of Refused _ \<Rightarrow> None | Started sid p c1 \<Rightarrow> Some (writer_new sid)))"

definition bidi_stream_call ::
  "rpc_flavour \<Rightarrow> rpc_channel \<Rightarrow> bytes \<Rightarrow> bytes \<Rightarrow> nat \<Rightarrow> 'u h2_session \<Rightarrow>
     ((unit, 'u) call_begin \<times> (stream_deframer \<times> grpc_writer) option) res" where
  "bidi_stream_call fl ch service mtd cb c =
     bindE (begin_call ch (make_rpc_request fl (ch_host ch) (make_path service mtd) []) True (\<lambda>_. ()) c)
       (\<lambda>b. Inr (case b of
            Refused r \<Rightarrow> (Refused r, None)
          | Started sid p c1 \<Rightarrow>
              (Started sid p (set_data_callback sid (Some cb) c1),
               Some (stream_deframer_new (Some grpc_reader_new), writer_new sid))))"

text \<open>The data callbacks of the two calls.\<close>

definition server_stream_on_data ::
  "bytes \<Rightarrow> bool \<Rightarrow> stream_deframer \<Rightarrow> (bytes list \<times> bytes option list \<times> stream_deframer) res" where
  "server_stream_on_data data end_stream d = deframer_feed data d"

definition bidi_stream_on_data ::
  "bytes \<Rightarrow> bool \<Rightarrow> stream_deframer \<Rightarrow> (bytes list \<times> bytes option list \<times> stream_deframer) res" where
  "bidi_stream_on_data data end_stream d = deframer_feed_end data end_stream d"

text \<open>The channel's background loop: like the server's, and a failure marks the channel as not connected.\<close>

fun channel_read_loop ::
  "'u h2_app \<Rightarrow> (bytes \<times> sends) list \<Rightarrow> bytes \<Rightarrow> rpc_channel \<Rightarrow> 'u h2_session \<Rightarrow> (rpc_channel \<times> 'u conn_out) res" where
  "channel_read_loop app [] wire ch s =
     Inr (ch, if ch_connected ch \<and> s_alive s then In_Read wire s else Ended wire s)"
| "channel_read_loop app ((data, sends) # rounds) wire ch s =
     (if \<not> (ch_connected ch \<and> s_alive s) then Inr (ch, Ended wire s)
      else if data = [] then Inr (channel_close ch, Ended wire s)
      else bindE (h2_feed app data s) (\<lambda>(consumed, s1).
        if consumed < 0 then Inr (channel_close ch, Ended wire s1)
        else bindE (h2_flush sends s1) (\<lambda>r.
          case r of
            None \<Rightarrow> Inr (ch, In_Flush)
          | Some (w, ok, s2) \<Rightarrow>
              if ok then channel_read_loop app rounds (wire @ w) ch s2
              else Inr (channel_close ch, Ended (wire @ w) s2))))"

section \<open>FRPC and TLS connections\<close>

text \<open>The connection handlers over TLS and those of FRPC install the same callbacks, with their flavour.\<close>

definition grpc_tls_app :: "'u grpc_server \<Rightarrow> 'u rpc_state h2_app" where
  "grpc_tls_app sv = rpc_app grpc_flavour sv"

definition frpc_request_handler :: "'u grpc_server \<Rightarrow> request \<Rightarrow> 'u \<Rightarrow> (response \<times> 'u) res" where
  "frpc_request_handler sv req u = rpc_request_handler frpc_flavour sv req u"

definition frpc_start :: "'u grpc_server \<Rightarrow> int \<Rightarrow> request \<Rightarrow> bool \<Rightarrow> 'u rpc_state \<Rightarrow> (bool \<times> h2_call list \<times> 'u rpc_state) res" where
  "frpc_start sv sid req end_stream st = rpc_start frpc_flavour sv sid req end_stream st"

definition frpc_tls_app :: "'u grpc_server \<Rightarrow> 'u rpc_state h2_app" where
  "frpc_tls_app sv = rpc_app frpc_flavour sv"

definition make_frpc_request :: "bytes \<Rightarrow> bytes \<Rightarrow> bytes \<Rightarrow> request" where
  "make_frpc_request host path body_data = make_rpc_request frpc_flavour host path body_data"

definition frpc_unary_call ::
  "rpc_channel \<Rightarrow> bytes \<Rightarrow> bytes \<Rightarrow> bytes \<Rightarrow> 'u h2_session \<Rightarrow> (grpc_status \<times> bytes, 'u) call_begin res" where
  "frpc_unary_call ch service mtd request_data c = unary_call frpc_flavour ch service mtd request_data c"

definition frpc_unary_call_metadata ::
  "rpc_channel \<Rightarrow> bytes \<Rightarrow> bytes \<Rightarrow> bytes \<Rightarrow> metadata \<Rightarrow> 'u h2_session \<Rightarrow> (grpc_status \<times> bytes, 'u) call_begin res" where
  "frpc_unary_call_metadata ch service mtd request_data md c = unary_call_metadata frpc_flavour ch service mtd request_data md c"

definition frpc_server_stream_call ::
  "rpc_channel \<Rightarrow> bytes \<Rightarrow> bytes \<Rightarrow> bytes \<Rightarrow> bool \<Rightarrow> nat \<Rightarrow> 'u h2_session \<Rightarrow> ((grpc_status, 'u) call_begin \<times> stream_deframer) res"
where
  "frpc_server_stream_call ch service mtd request_data has cb c = server_stream_call frpc_flavour ch service mtd request_data has cb c"

definition frpc_client_stream_call ::
  "rpc_channel \<Rightarrow> bytes \<Rightarrow> bytes \<Rightarrow> 'u h2_session \<Rightarrow> ((unit, 'u) call_begin \<times> grpc_writer option) res" where
  "frpc_client_stream_call ch service mtd c = client_stream_call frpc_flavour ch service mtd c"

definition frpc_bidi_stream_call ::
  "rpc_channel \<Rightarrow> bytes \<Rightarrow> bytes \<Rightarrow> nat \<Rightarrow> 'u h2_session \<Rightarrow>
     ((unit, 'u) call_begin \<times> (stream_deframer \<times> grpc_writer) option) res" where
  "frpc_bidi_stream_call ch service mtd cb c = bidi_stream_call frpc_flavour ch service mtd cb c"

section \<open>A unary call from end to end\<close>

lemma nat_to_string_length: "n < 10 ^ k \<Longrightarrow> 0 < k \<Longrightarrow> length (nat_to_string n) \<le> k"
proof (induction k arbitrary: n)
  case (Suc k)
  show ?case
  proof (cases "n < 10")
    case True
    then show ?thesis by (simp add: nat_to_string.simps)
  next
    case False
    then have "0 < k" using Suc.prems by (cases k) auto
    moreover have "n div 10 < 10 ^ k" using Suc.prems(1) by (simp add: less_mult_imp_div_less)
    ultimately have "length (nat_to_string (n div 10)) \<le> k" using Suc.IH by blast
    then show ?thesis using False by (simp add: nat_to_string.simps [of n])
  qed
qed simp

lemma digit_huff_safe: "d < 10 \<Longrightarrow> huff_safe (digit_char d)"
proof -
  assume "d < 10"
  then have "d \<in> {0, 1, 2, 3, 4, 5, 6, 7, 8, 9}" by auto
  then show ?thesis by (auto simp: huff_safe_iff digit_char_def)
qed

lemma codable_number:
  assumes "n < 2 ^ 32"
  shows "codable (nat_to_string n)"
proof -
  have "length (nat_to_string n) \<le> 10" using assms by (intro nat_to_string_length) auto
  moreover have "\<forall>c\<in>set (nat_to_string n). huff_safe c" using nat_to_string_digits [of n] digit_huff_safe by fastforce
  ultimately show ?thesis by (simp add: codable_def)
qed

definition rpc_flavours :: "rpc_flavour set" where
  "rpc_flavours = {grpc_flavour, frpc_flavour}"

lemma flavour_content_type:
  assumes "fl \<in> rpc_flavours"
  shows "codable (fl_content_type fl)" "find_sub (str ''application/grpc'') (fl_content_type fl) = Some 0"
    "length (fl_content_type fl) < 100"
  using assms by (auto simp: rpc_flavours_def grpc_flavour_def frpc_flavour_def codable_def huff_safe_iff)

definition rpc_request_fields :: "rpc_flavour \<Rightarrow> (bytes \<times> bytes) list" where
  "rpc_request_fields fl = [(str ''content-type'', fl_content_type fl), (str ''te'', str ''trailers''),
     (str ''grpc-encoding'', str ''identity'')]"

lemma lower_names:
  "map tolower (str ''Host'') = str ''host''" "map tolower (str ''Content-Type'') = str ''content-type''"
  "map tolower (str ''TE'') = str ''te''" "map tolower (str ''grpc-encoding'') = str ''grpc-encoding''"
  "map tolower (str ''content-type'') = str ''content-type''" "map tolower (str ''host'') = str ''host''"
  "map tolower (str ''te'') = str ''te''" "map tolower (str ''grpc-status'') = str ''grpc-status''"
  "map tolower (str ''grpc-message'') = str ''grpc-message''" "map tolower (str ''content-length'') = str ''content-length''"
  by (simp_all add: tolower_def)

lemmas lower_simps = lower_names [unfolded str_simps list.map]

lemma rpc_request_hdrs:
  "rq_hdrs (make_rpc_request fl host path body) = [(str ''Host'', host), (str ''Content-Type'', fl_content_type fl),
     (str ''TE'', str ''trailers''), (str ''grpc-encoding'', str ''identity'')]"
  by (simp add: make_rpc_request_def hdrs_set_def to_lower_def tolower_def)

lemma rpc_request_extra:
  "request_extra_headers (make_rpc_request fl host path body) = rpc_request_fields fl"
  by (simp add: request_extra_headers_def lower_headers_def rpc_request_hdrs to_lower_header_def tolower_def rpc_request_fields_def)

lemma rpc_request_headers:
  assumes "path \<noteq> []"
  shows "request_headers (make_rpc_request fl host path body) =
    [(str '':method'', str ''POST''), (str '':path'', path), (str '':scheme'', str ''https''), (str '':authority'', host)] @
    rpc_request_fields fl"
  using assms rpc_request_extra [of fl host path body]
  by (simp add: request_headers_def request_extra_headers_def rpc_request_hdrs to_lower_def)
     (simp add: make_rpc_request_def method_to_string_def)

text \<open>The path under which a method is looked up: what precedes a question mark.\<close>

definition rpc_path :: "bytes \<Rightarrow> bytes" where
  "rpc_path path = takeWhile (\<lambda>b. b \<noteq> 0x3F) path"

lemma rpc_path_made: "rpc_path (make_path service mtd) \<noteq> []" "make_path service mtd \<noteq> []"
  by (simp_all add: rpc_path_def make_path_def)

lemma received_rpc_request:
  assumes "rpc_path path \<noteq> []"
  shows "\<exists>q. received_request (make_rpc_request fl host path body) =
    \<lparr>rq_method = POST, rq_path = rpc_path path, rq_query = q, rq_ver = HTTP_2,
     rq_hdrs = (str ''Host'', host) # rpc_request_fields fl, rq_bd = body\<rparr>"
proof -
  have "path \<noteq> []" using assms by (auto simp: rpc_path_def)
  have "rq_path (make_rpc_request fl host path body) = path" "rq_method (make_rpc_request fl host path body) = POST"
    "rq_bd (make_rpc_request fl host path body) = body"
    by (simp_all add: make_rpc_request_def)
  moreover have "hdrs_get (str ''Host'') (rq_hdrs (make_rpc_request fl host path body)) = Some host"
    unfolding rpc_request_hdrs by simp
  moreover have "map received_field (rpc_request_fields fl) = rpc_request_fields fl"
    by (simp add: rpc_request_fields_def received_field_def)
  ultimately show ?thesis
    using assms \<open>path \<noteq> []\<close>
    by (simp add: received_request_def rpc_request_extra split_path_query request_default_def Let_def rpc_path_def)
qed

text \<open>The context the handler gets: the client's host is the only metadata of a call without any.\<close>

definition unary_context :: "bytes \<Rightarrow> call_context" where
  "unary_context host = \<lparr>cc_initial_metadata = [(str ''Host'', host)], cc_response_metadata = []\<rparr>"

lemma unary_context_eq:
  "\<lparr>cc_initial_metadata = extract_from_headers ((str ''Host'', host) # rpc_request_fields fl), cc_response_metadata = []\<rparr> =
   unary_context host"
  by (simp add: extract_from_headers_def rpc_request_fields_def reserved_header_def unary_context_def)

lemma is_rpc_request:
  assumes "fl \<in> rpc_flavours"
  shows "is_rpc \<lparr>rq_method = m, rq_path = p, rq_query = q, rq_ver = v, rq_hdrs = (str ''Host'', host) # rpc_request_fields fl, rq_bd = b\<rparr>"
  using flavour_content_type(2) [OF assms] by (simp add: is_rpc_def rpc_request_fields_def to_lower_def tolower_def)

lemma rpc_handler_result:
  assumes "fl \<in> rpc_flavours" and "dispatch sv path data (unary_context host) u = Inr ((st, result), ctx, u1)"
    and "length data < 2 ^ 32 - 5"
  shows "rpc_request_handler fl sv \<lparr>rq_method = POST, rq_path = path, rq_query = q, rq_ver = v,
      rq_hdrs = (str ''Host'', host) # rpc_request_fields fl, rq_bd = encode_grpc_message data\<rparr> u =
    Inr (rpc_response fl st result (cc_response_metadata ctx), u1)"
  using assms decode_encode_grpc [OF assms(3), of "[]"] is_rpc_request [OF assms(1)]
  by (simp add: rpc_request_handler_def unary_context_eq [simplified])

lemma rpc_response_fields:
  "response_fields (rpc_response fl st result md) =
     [(str ''content-type'', fl_content_type fl)] @
     (if result = [] then [] else [(str ''content-length'', nat_to_string (5 + length result))]) @
     [(str ''grpc-encoding'', str ''identity'')]"
  "rs_status (rpc_response fl st result md) = 200"
  "rs_bd (rpc_response fl st result md) = (if result = [] then [] else encode_grpc_message result)"
  "rs_trailers (rpc_response fl st result md) = fold (\<lambda>(k, v). hdrs_set k v) md (status_trailers st)"
  by (simp_all add: response_fields_def rpc_response_def response_default_def rpc_headers_def content_type_header_def
      hdrs_set_def to_lower_def tolower_def response_extra_headers_def lower_headers_def to_lower_header_def Let_def)
    (simp_all add: encode_grpc_message_def)

lemma hdrs_get_lower: "hdrs_get n (lower_headers hs) = hdrs_get n hs"
  by (induction hs) (auto simp: lower_headers_def to_lower_def to_lower_header_def comp_def)

lemma hdrs_get_metadata:
  assumes "\<forall>(k, v)\<in>set md. to_lower k \<noteq> to_lower n"
  shows "hdrs_get n (fold (\<lambda>(k, v). hdrs_set k v) md hs) = hdrs_get n hs"
  using assms
proof (induction md arbitrary: hs)
  case (Cons x md)
  obtain k v where x: "x = (k, v)" by (cases x)
  have "hdrs_get n (hdrs_set k v hs) = hdrs_get n hs"
    using Cons.prems by (auto simp: x hdrs_set_def hdrs_get_append hdrs_get_filter_other split: option.split)
  then show ?case using Cons by (simp add: x)
qed simp

text \<open>The status is the application's own, and its metadata has other names.\<close>

definition status_sendable :: "grpc_status \<Rightarrow> metadata \<Rightarrow> bool" where
  "status_sendable st md \<longleftrightarrow> canonical_code (gs_code st) \<and> - (2 ^ 31) \<le> grpc_code (gs_code st) \<and> grpc_code (gs_code st) < 2 ^ 31 \<and>
     (\<forall>(k, v)\<in>set md. to_lower k \<notin> {str ''grpc-status'', str ''grpc-message''})"

lemma extract_received_status:
  assumes "status_sendable st md"
  shows "extract_rpc_status (received_response (rpc_response fl st result md)) = st"
proof -
  let ?r = "received_response (rpc_response fl st result md)" and ?t = "status_trailers st"
  have names: "to_lower (str ''grpc-status'') = str ''grpc-status''" "to_lower (str ''grpc-message'') = str ''grpc-message''"
    by (simp_all add: to_lower_def tolower_def)
  have get: "hdrs_get n (rs_hdrs ?r) = hdrs_get n ?t" if n: "n \<in> {str ''grpc-status'', str ''grpc-message''}" for n
  proof -
    have "hdrs_get n (response_fields (rpc_response fl st result md)) = None"
      using n by (auto simp: rpc_response_fields to_lower_def tolower_def)
    moreover have "\<forall>(k, v)\<in>set md. to_lower k \<noteq> to_lower n"
      using assms n names unfolding status_sendable_def by fastforce
    ultimately show ?thesis
      using hdrs_get_metadata [of md n ?t]
      by (simp add: received_response_def hdrs_get_append hdrs_get_lower rpc_response_fields(4))
  qed
  have "hdrs_get (str ''grpc-status'') ?t = Some (int_to_string (grpc_code (gs_code st)))"
    "hdrs_get (str ''grpc-message'') ?t = (if gs_message st = [] then None else Some (gs_message st))"
    by (simp_all add: status_trailers_def Let_def hdrs_set_def to_lower_def tolower_def)
  moreover have "from_chars_signed 32 (int_to_string (grpc_code (gs_code st))) = Some (grpc_code (gs_code st))"
    using from_chars_signed_to_string [of 32 "grpc_code (gs_code st)" "[]"] assms by (simp add: status_sendable_def)
  moreover have "grpc_code_of (grpc_code (gs_code st)) = gs_code st"
    using assms grpc_code_of_code by (simp add: status_sendable_def)
  ultimately show ?thesis
    unfolding extract_rpc_status_def using get by (cases st) auto
qed

text \<open>
  What the caller gets for the status and the bytes that the dispatcher returned: the bytes of a failed call are dropped, and
  an empty result is taken for a broken frame.
\<close>

definition unary_outcome :: "rpc_flavour \<Rightarrow> grpc_status \<Rightarrow> bytes \<Rightarrow> grpc_status \<times> bytes" where
  "unary_outcome fl st result =
     (if \<not> grpc_ok st then (st, [])
      else if result = [] then (\<lparr>gs_code = G_internal, gs_message = fl_bad_response fl\<rparr>, [])
      else (st, result))"

lemma unary_result_outcome:
  assumes "status_sendable st md" and "length result < 2 ^ 32 - 5" and "\<not> pr_error pr"
  shows "unary_result fl (pr\<lparr>pr_resp := received_response (rpc_response fl st result md), pr_complete := True\<rparr>) =
    Inr (unary_outcome fl st result)"
proof -
  let ?r = "received_response (rpc_response fl st result md)"
  have "rs_status ?r = 200" "rs_bd ?r = (if result = [] then [] else encode_grpc_message result)"
    by (simp_all add: received_response_def rpc_response_fields)
  moreover have "decode_grpc_message [] = Inr None" by (simp add: decode_grpc_message_def)
  ultimately show ?thesis
    using extract_received_status [OF assms(1), of fl result] assms(3) decode_encode_grpc [OF assms(2), of "[]"]
    by (simp add: unary_result_def unary_outcome_def)
qed

lemma make_promise_simps:
  assumes "make_promise pr c = (p, c1)"
  shows "s_peer_max_frame_size c1 = s_peer_max_frame_size c" "s_encoder c1 = s_encoder c" "s_output c1 = s_output c"
    "s_mode c1 = s_mode c" "s_alive c1 = s_alive c" "s_continuation_stream c1 = s_continuation_stream c" "s_reader c1 = s_reader c"
    "s_streams c1 = s_streams c" "s_next_stream_id c1 = s_next_stream_id c" "s_completed_promises c1 = s_completed_promises c"
    "s_promises c1 p = Some pr"
  using assms by (auto simp: make_promise_def)

text \<open>A request has been submitted on a fresh stream: the session waits for the response.\<close>

lemma submit_request_awaits:
  assumes "do_submit_request req (Some p) no_end c = Inr (sid, c')" and "s_mode c = Client" and "s_alive c"
    and "s_continuation_stream c = 0" and "s_promises c p = Some pr" and "s_streams c (s_next_stream_id c) = None"
  shows "awaiting sid p pr (s_completed_promises c) response_default [] c' \<and> s_reader c' = s_reader c"
  using assms
  by (auto simp: do_submit_request_def Let_def awaiting_def enqueue_headers_def build_headers_frame_def enqueue_def
      set_stream_def stream_at_def stream_default_def split: if_splits prod.splits)

lemma rpc_request_codable:
  fixes body :: bytes
  assumes "fl \<in> rpc_flavours" and "codable path" and "codable host" and "path \<noteq> []"
  defines "hs \<equiv> request_headers (make_rpc_request fl host path body)"
  shows "\<forall>hd\<in>set hs. header_codable hd" "length (concat (map encode_header hs)) < 2 ^ 63"
proof -
  note hs = hs_def [unfolded rpc_request_headers [OF assms(4)] rpc_request_fields_def]
  show "\<forall>hd\<in>set hs. header_codable hd"
    using assms(2,3) flavour_content_type [OF assms(1)] unfolding hs
    by (auto simp: header_codable_def) (simp_all add: codable_def huff_safe_iff)
  have "length path < 2 ^ 31" "length host < 2 ^ 31" using assms(2,3) by (simp_all add: codable_def)
  then show "length (concat (map encode_header hs)) < 2 ^ 63"
    using length_encode_headers [of hs] flavour_content_type(3) [OF assms(1)] unfolding hs by simp
qed

text \<open>The header blocks of a response can be coded and have no names of pseudo-headers.\<close>

definition answer_codable :: "response \<Rightarrow> bool" where
  "answer_codable resp \<longleftrightarrow> (\<forall>hd\<in>set (response_block resp @ lower_headers (rs_trailers resp)). header_codable hd) \<and>
     length (concat (map encode_header (response_block resp @ lower_headers (rs_trailers resp)))) < 2 ^ 63 \<and>
     list_all (\<lambda>(n, v). \<not> is_pseudo n) (response_fields resp @ lower_headers (rs_trailers resp))"

lemma rpc_response_codable:
  assumes "fl \<in> rpc_flavours" and "length result < 2 ^ 32 - 5"
  shows "answer_codable (rpc_response fl grpc_status_default result [])"
proof -
  let ?resp = "rpc_response fl grpc_status_default result []"
  have trailers: "lower_headers (rs_trailers ?resp) = [(str ''grpc-status'', str ''0'')]"
    by (simp add: rpc_response_fields status_trailers_def lower_headers_def to_lower_header_def tolower_def hdrs_set_def
        grpc_status_default_def grpc_code_def int_to_string_def nat_to_string.simps digit_char_def)
  have hs: "response_block ?resp @ lower_headers (rs_trailers ?resp) =
      [(str '':status'', str ''200''), (str ''content-type'', fl_content_type fl)] @
      (if result = [] then [] else [(str ''content-length'', nat_to_string (5 + length result))]) @
      [(str ''grpc-encoding'', str ''identity''), (str ''grpc-status'', str ''0'')]"
    unfolding trailers by (simp add: response_block_def rpc_response_fields int_to_string_def nat_to_string.simps digit_char_def)
  have n: "codable (nat_to_string (5 + length result))" using assms(2) by (intro codable_number) simp
  have "header_codable (str '':status'', str ''200'')" "header_codable (str ''content-type'', fl_content_type fl)"
    "header_codable (str ''content-length'', nat_to_string (5 + length result))"
    "header_codable (str ''grpc-encoding'', str ''identity'')" "header_codable (str ''grpc-status'', str ''0'')"
    using n flavour_content_type [OF assms(1)]
    by (simp_all add: header_codable_def) (simp_all add: codable_def huff_safe_iff)
  then have "\<forall>hd\<in>set (response_block ?resp @ lower_headers (rs_trailers ?resp)). header_codable hd"
    unfolding hs by (auto split: if_splits)
  moreover have "length (nat_to_string (5 + length result)) < 2 ^ 31" using n by (simp add: codable_def)
  then have "length (concat (map encode_header (response_block ?resp @ lower_headers (rs_trailers ?resp)))) < 2 ^ 63"
    using length_encode_headers [of "response_block ?resp @ lower_headers (rs_trailers ?resp)"] flavour_content_type(3) [OF assms(1)]
    unfolding hs by (simp split: if_splits)
  moreover have "list_all (\<lambda>(n, v). \<not> is_pseudo n) (response_fields ?resp @ lower_headers (rs_trailers ?resp))"
    unfolding trailers unfolding rpc_response_fields by (simp add: is_pseudo_def)
  ultimately show ?thesis by (simp add: answer_codable_def)
qed

text \<open>A connection of the server that is between two frames, with the handlers that it installs.\<close>

definition connection_idle :: "'u rpc_state h2_session \<Rightarrow> bool" where
  "connection_idle s \<longleftrightarrow> plain_server 0 s \<and> s_request_start_handler s = Some 0 \<and> reader_clean (s_reader s)"

text \<open>Whether a path leads to the code for unary calls, which also answers for unknown methods.\<close>

definition not_streaming :: "'u grpc_server \<Rightarrow> bytes \<Rightarrow> bool" where
  "not_streaming sv path \<longleftrightarrow> (case sv_methods sv path of None \<Rightarrow> True | Some e \<Rightarrow> me_type e = Unary)"

text \<open>
  The server side of a unary call: the request's bytes make the connection dispatch it and submit the outcome.
\<close>

lemma unary_served:
  fixes c :: "'v h2_session" and s :: "'u rpc_state h2_session"
  assumes "fl \<in> rpc_flavours" and "h2_reachable capp c" and "h2_reachable sapp s" and "connection_idle s"
    and "make_promise promise_default c = (p, c1)"
    and "do_submit_request (make_rpc_request fl host path (encode_grpc_message data)) (Some p) False c1 = Inr (sid, c')"
    and "0 < sid" and "s_output c' = s_output c @ wire" and "s_streams s sid = None"
    and "codable path" and "codable host" and "rpc_path path \<noteq> []" and "not_streaming sv (rpc_path path)"
    and "dispatch sv (rpc_path path) data (unary_context host) (rc_user (s_user s)) = Inr ((st, result), ctx, u1)"
    and "length data < 2 ^ 32 - 5"
  shows "\<exists>r t. h2_feed (rpc_app fl sv) wire s = Inr (int (length wire),
      rd r (do_submit_response sid (rpc_response fl st result (cc_response_metadata ctx))
              (t\<lparr>s_user := (s_user s)\<lparr>rc_user := u1\<rparr>\<rparr>))) \<and> request_context sid s t"
proof -
  let ?req = "make_rpc_request fl host path (encode_grpc_message data)"
  note c1 = make_promise_simps [OF assms(5)]
  obtain q where rq: "received_request ?req = \<lparr>rq_method = POST, rq_path = rpc_path path, rq_query = q, rq_ver = HTTP_2,
      rq_hdrs = (str ''Host'', host) # rpc_request_fields fl, rq_bd = encode_grpc_message data\<rparr>"
    using received_rpc_request [OF assms(12)] by blast
  have path: "path \<noteq> []" using assms(12) by (auto simp: rpc_path_def)
  have sizes: "0 < s_peer_max_frame_size c1 \<and> s_peer_max_frame_size c1 < 2 ^ 24 \<and> en_max_table_size (s_encoder c1) < 2 ^ 32"
    using reachable_sizes [OF assms(2)] c1(1,2) by simp
  have out: "s_output c' = s_output c1 @ wire" using assms(8) c1(3) by simp
  have names: "list_all (\<lambda>(n, v). is_pseudo n \<longrightarrow> n = str '':authority'') (request_extra_headers ?req)"
    by (simp add: rpc_request_extra rpc_request_fields_def is_pseudo_def)
  have s: "plain_server 0 s" "reader_clean (s_reader s)" using assms(4) by (simp_all add: connection_idle_def)
  have dec: "declines (rpc_app fl sv) sid ((received_request ?req)\<lparr>rq_bd := []\<rparr>) s"
    using assms(4,13) is_rpc_request [OF assms(1)]
    by (simp add: declines_def connection_idle_def rpc_app_def rpc_start_def rq not_streaming_def split: option.splits)
  have app: "app_request (rpc_app fl sv) 0 (received_request ?req) (s_user s) =
      Inr (rpc_response fl st result (cc_response_metadata ctx), (s_user s)\<lparr>rc_user := u1\<rparr>)"
    using rpc_handler_result [OF assms(1,14,15), of q HTTP_2] unfolding rq by (simp add: rpc_app_def)
  from request_delivered [OF sizes assms(6,7) out rpc_request_codable [OF assms(1,10,11) path] names s assms(9) dec app]
  show ?thesis by blast
qed

lemma submit_response_extends: "\<exists>wire. s_output (do_submit_response sid resp s) = s_output s @ wire"
  using submit_response_wire by (metis surj_pair)

text \<open>
  C1: What a unary call comes to.  The bytes that the call adds to the client's output, fed to a connection of the server that
  is between two frames, make the server dispatch the request message once to the method registered for the path, unless an
  interceptor stops it; what the connection then submits, fed to the client that waits for the answer, completes
  the call with the outcome of the dispatch: a failed status as it was given, an OK with exactly the bytes the
  handler returned, and INTERNAL instead of an OK with an empty result, for which the server sends no message.  This holds for gRPC
  and FRPC, for unknown methods and for handlers that suspend or throw, for every framing of the two messages; path, host and the
  headers of the answer have to be codable, the messages shorter than 4 GiB, and the response metadata may not take the
  names of the status.
\<close>

theorem rpc_unary_call:
  fixes c :: "'v h2_session" and s :: "'u rpc_state h2_session"
  assumes "fl \<in> rpc_flavours" and "h2_reachable capp c" and "s_mode c = Client" and "s_alive c"
    and "s_continuation_stream c = 0" and "s_streams c (s_next_stream_id c) = None" and "0 < s_next_stream_id c"
    and "unary_call fl ch service mtd data c = Inr (Started sid p c')" and "s_output c' = s_output c @ wire"
    and "codable (make_path service mtd)" and "codable (ch_host ch)" and "length data < 2 ^ 32 - 5"
    and "h2_reachable (rpc_app fl sv) s" and "connection_idle s" and "s_streams s sid = None"
    and "not_streaming sv (rpc_path (make_path service mtd))"
    and "dispatch sv (rpc_path (make_path service mtd)) data (unary_context (ch_host ch)) (rc_user (s_user s)) =
      Inr ((st, result), ctx, u1)"
    and "length result < 2 ^ 32 - 5" and "status_sendable st (cc_response_metadata ctx)"
    and "answer_codable (rpc_response fl st result (cc_response_metadata ctx))"
  shows "awaiting sid p promise_default (s_completed_promises c) response_default [] c' \<and>
    (\<exists>s' updates answer. h2_feed (rpc_app fl sv) wire s = Inr (int (length wire), s') \<and> rc_user (s_user s') = u1 \<and>
      s_output s' = s_output s @ updates @ answer \<and>
      (\<forall>c2 pr cp. awaiting sid p pr cp response_default [] c2 \<longrightarrow> reader_clean (s_reader c2) \<longrightarrow>
         resumes_quietly capp pr \<longrightarrow> \<not> pr_error pr \<longrightarrow>
         (\<exists>c3 pr'. h2_feed capp answer c2 = Inr (int (length answer), c3) \<and> s_promises c3 p = Some pr' \<and>
            pr_complete pr' \<and> unary_result fl pr' = Inr (unary_outcome fl st result))))"
proof -
  let ?req = "make_rpc_request fl (ch_host ch) (make_path service mtd) (encode_grpc_message data)"
  let ?resp = "rpc_response fl st result (cc_response_metadata ctx)"
  obtain c1 where mk: "make_promise promise_default c = (p, c1)"
    and sub: "do_submit_request ?req (Some p) False c1 = Inr (sid, c')"
    using assms(8) by (auto simp: unary_call_def begin_call_def bindE_eq_Inr_iff split: if_splits prod.splits)
  note c1 = make_promise_simps [OF mk]
  have sid: "0 < sid" "sid < 2 ^ 31"
    using sub assms(7) c1(9) by (auto simp: do_submit_request_def Let_def split: if_splits)
  have wait: "awaiting sid p promise_default (s_completed_promises c) response_default [] c'"
    using submit_request_awaits [OF sub] assms(3-6) c1 by simp
  from unary_served [OF assms(1,2,13,14) mk sub sid(1) assms(9,15,10,11) rpc_path_made(1) assms(16,17,12)] obtain r t where
    t: "h2_feed (rpc_app fl sv) wire s =
        Inr (int (length wire), rd r (do_submit_response sid ?resp (t\<lparr>s_user := (s_user s)\<lparr>rc_user := u1\<rparr>\<rparr>)))"
      "request_context sid s t"
    by blast
  let ?t = "t\<lparr>s_user := (s_user s)\<lparr>rc_user := u1\<rparr>\<rparr>"
  obtain answer where answer: "s_output (do_submit_response sid ?resp ?t) = s_output ?t @ answer"
    using submit_response_extends by blast
  obtain updates where updates: "s_output t = s_output s @ updates"
    using t(2) by (auto simp: request_context_def prefix_def)
  have sizes: "0 < s_peer_max_frame_size ?t \<and> s_peer_max_frame_size ?t < 2 ^ 24 \<and> en_max_table_size (s_encoder ?t) < 2 ^ 32"
    using reachable_sizes [OF assms(13)] t(2) by (simp add: request_context_def)
  note codable = assms(20) [unfolded answer_codable_def]
  have reply: "\<exists>c3 pr'. h2_feed capp answer c2 = Inr (int (length answer), c3) \<and> s_promises c3 p = Some pr' \<and>
      pr_complete pr' \<and> unary_result fl pr' = Inr (unary_outcome fl st result)"
    if "awaiting sid p pr cp response_default [] c2" "reader_clean (s_reader c2)" "resumes_quietly capp pr" "\<not> pr_error pr"
    for c2 pr cp
    using response_delivered [OF sizes sid answer codable [THEN conjunct1] codable [THEN conjunct2, THEN conjunct1]
        codable [THEN conjunct2, THEN conjunct2] _ _ that(1-3)]
      unary_result_outcome [OF assms(19,18) that(4), of fl]
    by (fastforce simp: delivered_def rpc_response_fields(2))
  have "s_output (rd r (do_submit_response sid ?resp ?t)) = s_output s @ updates @ answer"
    using answer updates by (simp add: rd_def)
  moreover have "rc_user (s_user (rd r (do_submit_response sid ?resp ?t))) = u1" by (simp add: rd_def)
  ultimately show ?thesis using wait t(1) reply by blast
qed

definition echo_server :: "nat grpc_server" where
  "echo_server = register_method (str ''S'') (str ''M'') (\<lambda>req n. (Done (req @ [9]), n + 1)) grpc_server_new"

definition echo_channel :: rpc_channel where
  "echo_channel = (rpc_channel_new (str ''h''))\<lparr>ch_connected := True\<rparr>"

lemma connection_reachable_new: "h2_reachable (rpc_app fl sv) (connection_session u)"
proof -
  have "h2_reachable (rpc_app fl sv) ((h2_session_new Server (rpc_state_new u))\<lparr>s_request_handler := Some 0\<rparr>)"
    by (rule reach_step [OF reach_new step_call [of "Set_Request_Handler (Some 0)"]]) simp
  then show ?thesis
    unfolding connection_session_def by (rule reach_step [OF _ step_call [of "Set_Request_Start_Handler (Some 0)"]]) simp
qed

lemma connection_session_idle: "connection_idle (connection_session u)" "s_streams (connection_session u) = (\<lambda>_. None)"
    "rc_user (s_user (connection_session u)) = u"
  using session_new_clean [of Server "rpc_state_new u"]
  by (simp_all add: connection_idle_def connection_session_def plain_server_def)
     (simp_all add: h2_session_new_def enqueue_def rpc_state_new_def)

theorem rpc_unary_call_witness:
  "\<exists>c' wire s' updates answer. unary_call grpc_flavour echo_channel (str ''S'') (str ''M'') [5] (h2_session_new Client ()) =
       Inr (Started 1 0 c') \<and>
     h2_feed (rpc_app grpc_flavour echo_server) wire (connection_session 0) = Inr (int (length wire), s') \<and>
     rc_user (s_user s') = 1 \<and> s_output s' = s_output (connection_session (0 :: nat)) @ updates @ answer \<and>
     (\<exists>c3 pr'. h2_feed idle_app answer example_client = Inr (int (length answer), c3) \<and> s_promises c3 0 = Some pr' \<and>
        unary_result grpc_flavour pr' = Inr (grpc_status_default, [5, 9]))"
proof -
  let ?c = "h2_session_new Client ()"
  have fl: "grpc_flavour \<in> rpc_flavours" by (simp add: rpc_flavours_def)
  have c: "s_mode ?c = Client" "s_alive ?c" "s_continuation_stream ?c = 0" "s_streams ?c (s_next_stream_id ?c) = None"
    "0 < s_next_stream_id ?c"
    by (simp_all add: h2_session_new_def enqueue_def)
  obtain c' where call: "unary_call grpc_flavour echo_channel (str ''S'') (str ''M'') [5] ?c = Inr (Started 1 0 c')"
    by (simp add: unary_call_def begin_call_def make_promise_def do_submit_request_def h2_session_new_def enqueue_def Let_def
        echo_channel_def rpc_channel_new_def)
  then obtain c1 where "make_promise promise_default ?c = (0, c1)"
    "do_submit_request (make_rpc_request grpc_flavour (ch_host echo_channel) (make_path (str ''S'') (str ''M'')) (encode_grpc_message [5]))
       (Some 0) False c1 = Inr (1, c')"
    by (auto simp: unary_call_def begin_call_def bindE_eq_Inr_iff split: if_splits prod.splits)
  then obtain wire where wire: "s_output c' = s_output ?c @ wire"
    using submit_request_wire make_promise_simps(3) by metis
  have codable: "codable (make_path (str ''S'') (str ''M''))" "codable (ch_host echo_channel)"
    by (simp_all add: make_path_def echo_channel_def rpc_channel_new_def codable_def huff_safe_iff)
  let ?path = "rpc_path (make_path (str ''S'') (str ''M''))"
  have path: "?path = make_path (str ''S'') (str ''M'')" by (simp add: rpc_path_def make_path_def)
  have unary: "not_streaming echo_server ?path"
    unfolding path by (simp add: not_streaming_def echo_server_def register_method_def put_method_def grpc_server_new_def method_entry_empty_def)
  have run: "dispatch echo_server ?path [5] (unary_context (ch_host echo_channel)) (rc_user (s_user (connection_session (0 :: nat)))) =
      Inr ((grpc_status_default, [5, 9]), unary_context (ch_host echo_channel), 1)"
    unfolding path
    by (cases "parse_path (make_path (str ''S'') (str ''M''))")
       (simp add: dispatch_def echo_server_def register_method_def put_method_def grpc_server_new_def call_unary_def
         method_entry_empty_def connection_session_idle)
  have st: "s_streams (connection_session (0 :: nat)) 1 = None" by (simp add: connection_session_idle)
  have md: "cc_response_metadata (unary_context (ch_host echo_channel)) = []" by (simp add: unary_context_def)
  have ok: "status_sendable grpc_status_default (cc_response_metadata (unary_context (ch_host echo_channel)))"
    by (simp add: md status_sendable_def grpc_status_default_def canonical_code_def grpc_code_def)
  have ans: "answer_codable (rpc_response grpc_flavour grpc_status_default [5, 9] (cc_response_metadata (unary_context (ch_host echo_channel))))"
    unfolding md by (rule rpc_response_codable [OF fl]) simp
  note served = rpc_unary_call [OF fl reach_new c call wire codable _ connection_reachable_new connection_session_idle(1) st unary run _ ok ans, of idle_app]
  have waiting: "awaiting 1 0 promise_default [] response_default [] example_client" "reader_clean (s_reader example_client)"
    "resumes_quietly idle_app promise_default" "\<not> pr_error promise_default"
    using session_new_clean [of Client "()"]
    by (simp_all add: awaiting_def example_client_def h2_session_new_def enqueue_def stream_default_def promise_default_def
        resumes_quietly_def)
  have "unary_outcome grpc_flavour grpc_status_default [5, 9] = (grpc_status_default, [5, 9])"
    by (simp add: unary_outcome_def grpc_ok_def grpc_status_default_def)
  with served have "\<exists>s' updates answer. h2_feed (rpc_app grpc_flavour echo_server) wire (connection_session 0) = Inr (int (length wire), s') \<and>
      rc_user (s_user s') = 1 \<and> s_output s' = s_output (connection_session (0 :: nat)) @ updates @ answer \<and>
      (\<exists>c3 pr'. h2_feed idle_app answer example_client = Inr (int (length answer), c3) \<and> s_promises c3 0 = Some pr' \<and>
        unary_result grpc_flavour pr' = Inr (grpc_status_default, [5, 9]))"
    using waiting by simp blast
  then show ?thesis using call by blast
qed

text \<open>
  A handler that returns the empty message, as every protobuf message with default values is
  encoded, makes the client's call fail: the server sends no frame for it and the client reports an
  invalid response although the status of the call was OK.
\<close>

theorem rpc_empty_result_lost:
  assumes "\<not> pr_error pr"
  shows "rs_bd (rpc_response fl grpc_status_default [] []) = [] \<and>
    extract_rpc_status (received_response (rpc_response fl grpc_status_default [] [])) = grpc_status_default \<and>
    unary_result fl (pr\<lparr>pr_resp := received_response (rpc_response fl grpc_status_default [] [])\<rparr>) =
      Inr (\<lparr>gs_code = G_internal, gs_message = fl_bad_response fl\<rparr>, [])"
proof -
  let ?r = "received_response (rpc_response fl grpc_status_default [] [])"
  have bd: "rs_bd (rpc_response fl grpc_status_default [] []) = []" by (simp add: rpc_response_def)
  have hdrs: "rs_hdrs ?r = [(str ''content-type'', fl_content_type fl), (str ''grpc-encoding'', str ''identity''), (str ''grpc-status'', str ''0'')]"
    by (simp add: received_response_def response_fields_def rpc_response_def response_default_def rpc_headers_def
        content_type_header_def hdrs_set_def to_lower_def tolower_def response_extra_headers_def lower_headers_def
        to_lower_header_def status_trailers_def grpc_status_default_def grpc_code_def int_to_string_def
        nat_to_string.simps digit_char_def Let_def)
  have "from_chars_signed 32 (str ''0'') = Some 0" by (simp add: from_chars_signed_def digit_val_def)
  then have st: "extract_rpc_status ?r = grpc_status_default"
    unfolding extract_rpc_status_def hdrs
    by (simp add: to_lower_def tolower_def grpc_code_of_def grpc_status_default_def)
  have "rs_status ?r = 200" "rs_bd ?r = []" by (simp_all add: received_response_def rpc_response_def)
  then show ?thesis
    using assms bd st
    by (simp add: unary_result_def grpc_ok_def decode_grpc_message_def) (simp add: grpc_status_default_def)
qed

theorem rpc_empty_result_lost_witness:
  "unary_result grpc_flavour (promise_default\<lparr>pr_resp := received_response (rpc_response grpc_flavour grpc_status_default [] [])\<rparr>) =
     Inr (\<lparr>gs_code = G_internal, gs_message = str ''Invalid gRPC response frame''\<rparr>, [])"
  using rpc_empty_result_lost [of promise_default grpc_flavour] by (simp add: promise_default_def grpc_flavour_def)

section \<open>Streaming on the server\<close>

text \<open>The messages a handler writes before it finishes its writer, and the status it finishes with.\<close>

fun written :: "writer_op list \<Rightarrow> bytes list" where
  "written [] = []"
| "written (Op_Write m # ops) = m # written ops"
| "written (Op_Finish c m # ops) = []"

fun final_status :: "writer_op list \<Rightarrow> grpc_status" where
  "final_status [] = grpc_status_default"
| "final_status (Op_Write m # ops) = final_status ops"
| "final_status (Op_Finish c m # ops) = \<lparr>gs_code = c, gs_message = m\<rparr>"

definition message_calls :: "int \<Rightarrow> bytes list \<Rightarrow> h2_call list" where
  "message_calls sid ms = map (\<lambda>m. Submit_Data sid (encode_grpc_message m) False) ms"

lemma writer_ops_finished: "wr_finished w \<Longrightarrow> writer_ops ops w = ([], w)"
proof (induction ops)
  case (Cons op ops)
  then show ?case by (cases op) (simp_all add: writer_write_def writer_finish_def)
qed simp

lemma writer_ops_then_finish:
  assumes "wr_session w" and "\<not> wr_finished w" and "writer_ops ops w = (cs, w1)" and "finish_unless_finished w1 = (ds, w2)"
  shows "cs @ ds = message_calls (wr_stream_id w) (written ops) @ [Submit_Trailers (wr_stream_id w) (status_trailers (final_status ops))] \<and>
    wr_finished w2"
  using assms
proof (induction ops w arbitrary: cs rule: writer_ops.induct)
  case (1 w)
  then show ?case
    by (auto simp: finish_unless_finished_def finish_writer_def writer_finish_def message_calls_def grpc_status_default_def)
next
  case (2 m ops w)
  then show ?case
    by (auto simp: writer_write_def message_calls_def Let_def split: prod.splits)
next
  case (3 c m ops w)
  then show ?case
    by (auto simp: writer_finish_def message_calls_def Let_def writer_ops_finished finish_unless_finished_def split: prod.splits)
qed

text \<open>
  A server-streaming handler that has run to its end leaves a complete answer on its stream: one
  DATA submission per message it wrote, framed and in order, and then exactly one set of trailers with
  the status it finished with, or OK if it did not finish the writer itself.
\<close>

theorem srv_stream_answer:
  assumes "me_srv_stream e = Some h" and "h data u = (ops, t, u1)" and "t \<noteq> Suspended"
  shows "\<exists>w. wr_finished w \<and> srv_invoke e data (writer_new sid) u =
    Inr (message_calls sid (written ops) @ [Submit_Trailers sid (status_trailers (final_status ops))], w, u1)"
proof -
  obtain cs w1 where w1: "writer_ops ops (writer_new sid) = (cs, w1)" by force
  obtain ds w2 where w2: "finish_unless_finished w1 = (ds, w2)" by force
  have "cs @ ds = message_calls sid (written ops) @ [Submit_Trailers sid (status_trailers (final_status ops))]" "wr_finished w2"
    using writer_ops_then_finish [OF _ _ w1 w2] by (simp_all add: writer_new_def)
  then show ?thesis using assms w1 w2 by (simp add: srv_invoke_def)
qed

theorem srv_stream_answer_witness:
  "\<exists>w. wr_finished w \<and>
     srv_invoke ((method_entry_empty Server_Stream False)\<lparr>me_srv_stream := Some (\<lambda>req n. ([Op_Write req, Op_Write [2]], Threw ''x'', Suc n))\<rparr>)
       [7] (writer_new 3) (0 :: nat) =
     Inr (message_calls 3 [[7], [2]] @ [Submit_Trailers 3 (status_trailers grpc_status_default)], w, Suc 0)"
proof -
  let ?h = "\<lambda>req n. ([Op_Write req, Op_Write [2]], Threw ''x'', Suc n)"
  have "me_srv_stream ((method_entry_empty Server_Stream False)\<lparr>me_srv_stream := Some ?h\<rparr>) = Some ?h" by simp
  from srv_stream_answer [OF this, of "[7]" 0 "[Op_Write [7], Op_Write [2]]" "Threw ''x''" "Suc 0" 3] show ?thesis
    by (simp add: method_entry_empty_def)
qed

text \<open>
  A streaming handler that was registered with a call context is never run: the streaming paths
  call the slot for handlers without context, which is empty, and the exception leaves the session.
\<close>

theorem stream_context_handlers_never_run:
  "srv_invoke (the (sv_methods (register_server_stream_ctx service mtd h1 sv) (make_path service mtd))) data w u =
     Inl (Runtime_Error bad_function_call) \<and>
   cli_invoke (the (sv_methods (register_client_stream_ctx service mtd h2 sv) (make_path service mtd))) d w u =
     Inl (Runtime_Error bad_function_call) \<and>
   bidi_invoke (the (sv_methods (register_bidi_stream_ctx service mtd h3 sv) (make_path service mtd))) d w u =
     Inl (Runtime_Error bad_function_call)"
  by (simp add: register_server_stream_ctx_def register_client_stream_ctx_def register_bidi_stream_ctx_def put_method_def
      method_entry_empty_def srv_invoke_def cli_invoke_def bidi_invoke_def)

section \<open>Connections: correctness\<close>

fun conn_state :: "'u conn_out \<Rightarrow> 'u h2_session option" where
  "conn_state (In_Read w s) = Some s"
| "conn_state (Ended w s) = Some s"
| "conn_state In_Flush = None"

text \<open>The session a connection coroutine leaves behind is reachable.\<close>

definition conn_reach :: "'u h2_app \<Rightarrow> 'u conn_out res \<Rightarrow> bool" where
  "conn_reach app m \<longleftrightarrow> (\<forall>out s. m = Inr out \<longrightarrow> conn_state out = Some s \<longrightarrow> h2_reachable app s)"

lemma conn_reach_simps [simp]:
  "conn_reach app (Inr (In_Read w s)) = h2_reachable app s" "conn_reach app (Inr (Ended w s)) = h2_reachable app s"
  "conn_reach app (Inr In_Flush)" "conn_reach app (Inl e)"
  by (simp_all add: conn_reach_def)

lemma conn_reach_bind:
  assumes "\<And>x. m = Inr x \<Longrightarrow> conn_reach app (f x)"
  shows "conn_reach app (bindE m f)"
  using assms by (cases m) simp_all

lemma conn_reach_feed:
  assumes "h2_reachable app s" and "\<And>n s1. h2_reachable app s1 \<Longrightarrow> conn_reach app (k n s1)"
  shows "conn_reach app (bindE (h2_feed app data s) (\<lambda>(n, s1). k n s1))"
  by (rule conn_reach_bind) (use assms in \<open>auto intro: reach_step step_feed\<close>)

lemma conn_reach_flush:
  assumes "h2_reachable app s" and "\<And>w ok s1. h2_reachable app s1 \<Longrightarrow> conn_reach app (k w ok s1)"
  shows "conn_reach app (bindE (h2_flush sends s) (\<lambda>r. case r of None \<Rightarrow> Inr In_Flush | Some (w, ok, s1) \<Rightarrow> k w ok s1))"
proof (rule conn_reach_bind)
  fix r assume r: "h2_flush sends s = Inr r"
  show "conn_reach app (case r of None \<Rightarrow> Inr In_Flush | Some (w, ok, s1) \<Rightarrow> k w ok s1)"
  proof (cases r)
    case (Some p)
    obtain w ok s1 where p: "p = (w, ok, s1)" by (cases p) auto
    have "h2_reachable app s1" using assms(1) r Some p by (blast intro: reach_step step_flush)
    then show ?thesis using assms(2) Some p by simp
  qed simp
qed

lemma read_rounds_reachable: "h2_reachable app s \<Longrightarrow> conn_reach app (read_rounds app rounds wire s)"
proof (induction rounds arbitrary: wire s)
  case (Cons x rounds)
  obtain running data sends where x: "x = (running, data, sends)" by (cases x) auto
  have "conn_reach app (bindE (h2_feed app data s) (\<lambda>(n, s1).
      if n < 0 then Inr (Ended wire s1)
      else bindE (h2_flush sends s1) (\<lambda>r. case r of None \<Rightarrow> Inr In_Flush
        | Some (w, ok, s2) \<Rightarrow> if ok then read_rounds app rounds (wire @ w) s2 else Inr (Ended (wire @ w) s2))))"
  proof (rule conn_reach_feed [OF Cons.prems])
    fix n s1 assume s1: "h2_reachable app s1"
    have "conn_reach app (bindE (h2_flush sends s1) (\<lambda>r. case r of None \<Rightarrow> Inr In_Flush
        | Some (w, ok, s2) \<Rightarrow> if ok then read_rounds app rounds (wire @ w) s2 else Inr (Ended (wire @ w) s2)))"
      using s1 by (rule conn_reach_flush) (simp add: Cons.IH)
    then show "conn_reach app (if n < 0 then Inr (Ended wire s1) else bindE (h2_flush sends s1) (\<lambda>r. case r of None \<Rightarrow> Inr In_Flush
        | Some (w, ok, s2) \<Rightarrow> if ok then read_rounds app rounds (wire @ w) s2 else Inr (Ended (wire @ w) s2)))"
      using s1 by simp
  qed
  then show ?case using Cons.prems by (simp add: x)
qed simp

text \<open>The connection once its first flush is done.\<close>

lemma connection_continues:
  assumes "h2_reachable app s1"
  shows "conn_reach app
    (case read_preface reads [] of
       None \<Rightarrow> Inr (In_Read w1 s1)
     | Some (buf, _) \<Rightarrow>
         if length buf < 24 \<or> take 24 buf \<noteq> PREFACE then Inr (Ended w1 s1)
         else bindE (if 24 < length buf then h2_feed app (drop 24 buf) s1 else Inr (0, s1)) (\<lambda>(_, s2).
           bindE (h2_flush sends2 s2) (\<lambda>r2.
             case r2 of
               None \<Rightarrow> Inr In_Flush
             | Some (w2, _, s3) \<Rightarrow> read_rounds app rounds (w1 @ w2) s3)))"
proof -
  have tail: "conn_reach app (bindE (h2_flush sends2 s2) (\<lambda>r2. case r2 of None \<Rightarrow> Inr In_Flush
      | Some (w2, _, s3) \<Rightarrow> read_rounds app rounds (w1 @ w2) s3))" if "h2_reachable app s2" for s2
    using that by (rule conn_reach_flush) (rule read_rounds_reachable)
  have "conn_reach app (bindE (if b then h2_feed app data s1 else Inr (0, s1)) (\<lambda>(_, s2).
      bindE (h2_flush sends2 s2) (\<lambda>r2. case r2 of None \<Rightarrow> Inr In_Flush
        | Some (w2, _, s3) \<Rightarrow> read_rounds app rounds (w1 @ w2) s3)))" for b data
    using conn_reach_feed [OF assms, of "\<lambda>_ s2. bindE (h2_flush sends2 s2) (\<lambda>r2. case r2 of None \<Rightarrow> Inr In_Flush
        | Some (w2, _, s3) \<Rightarrow> read_rounds app rounds (w1 @ w2) s3)"] tail assms by (cases b) auto
  then show ?thesis using assms by (auto split: option.splits)
qed

text \<open>
  Whatever the transport delivers and however sends and reads interleave with the calls of other
  tasks, the session of a server connection is a reachable session whenever the connection waits for
  input or has ended, so that the session invariant holds on every connection.
\<close>

lemma connection_invariant:
  assumes "handle_connection (rpc_app fl sv) sends1 reads sends2 rounds (connection_session u) = Inr out"
    and "conn_state out = Some s"
  shows "h2_reachable (rpc_app fl sv) s \<and> h2_inv s"
proof -
  have "conn_reach (rpc_app fl sv) (handle_connection (rpc_app fl sv) sends1 reads sends2 rounds (connection_session u))"
    by (simp only: handle_connection_def)
       (intro conn_reach_flush connection_reachable_new connection_continues)
  then have "h2_reachable (rpc_app fl sv) s" using assms by (simp add: conn_reach_def)
  then show ?thesis using session_ok_reachable by (auto simp: session_ok_def)
qed

end
