(* ===== verification/Http_Server.thy ===== *)
theory Http_Server
  imports WebSocket H3_Exchange Grpc_Rpc
begin

text \<open>
  The HTTP server, \<^verbatim>\<open>src/http/server_impl.cpp\<close>, \<^verbatim>\<open>server.hpp\<close>, \<^verbatim>\<open>server_builder.hpp\<close> and \<^verbatim>\<open>handler.hpp\<close>: routing table
  and builder, the HTTP/1.1 keep-alive loop with the WebSocket upgrade, the adapter that lets the
  HTTP/2 and HTTP/3 sessions call the same handlers, TLS connections and the HTTP/3 datagram loop.
  Accepting connections, TLS itself and the worker processes are not modelled.
\<close>

section \<open>Handlers\<close>

text \<open>
  A request handler is a coroutine.  \<open>Awaits f k\<close> is one that is suspended: until it is resumed the rest
  of the program changes the state by \<open>f\<close>, and then it goes on as \<open>k\<close>.  Being a datatype, this describes
  the handlers that end after finitely many suspensions.
\<close>

datatype 'u handler_run = Returns response | Throws string | Awaits "'u \<Rightarrow> 'u" "'u \<Rightarrow> 'u handler_run"

type_synonym 'u handler_fn = "request \<Rightarrow> 'u \<Rightarrow> 'u handler_run \<times> 'u"

text \<open>\<^verbatim>\<open>co_await\<close> on a handler, and one \<^verbatim>\<open>resume()\<close> of it.\<close>

primrec await :: "'u handler_run \<Rightarrow> 'u \<Rightarrow> (response \<times> 'u) res" where
  "await (Returns resp) u = Inr (resp, u)"
| "await (Throws e) u = Inl (Runtime_Error e)"
| "await (Awaits f k) u = await (k (f u)) (f u)"

definition resume_once :: "'u handler_run \<Rightarrow> response task" where
  "resume_once r = (case r of Returns resp \<Rightarrow> Done resp | Throws e \<Rightarrow> Threw e | Awaits _ _ \<Rightarrow> Suspended)"

type_synonym 'u ws_handler_fn = "websocket_connection \<Rightarrow> 'u \<Rightarrow> (websocket_connection \<times> 'u) res"

section \<open>Server and builder\<close>

record 'u route_entry =
  rt_method :: http_method
  rt_path :: bytes
  rt_handler :: "'u handler_fn"

type_synonym 'u push_provider_fn = "request \<Rightarrow> 'u \<Rightarrow> (request \<times> response) list \<times> 'u"

text \<open>
  The acceptors and the HTTP/3 task are sockets and threads; the context remembers which of them are set.
\<close>

record 'u server_context =
  sc_port :: u16
  sc_addr :: bytes
  sc_reuse_port :: bool
  sc_running :: bool
  sc_routes :: "'u route_entry list"
  sc_ws_routes :: "(bytes \<times> 'u ws_handler_fn) list"
  sc_default_handler :: "'u handler_fn"
  sc_push_provider :: "'u push_provider_fn option"
  sc_h3_enabled :: bool
  sc_h3_cert :: bytes
  sc_h3_key :: bytes
  sc_h1_acceptor :: bool
  sc_tls_acceptor :: bool

definition server_new :: "u16 \<Rightarrow> bytes option \<Rightarrow> bool \<Rightarrow> 'u server_context" where
  "server_new port addr reuse_port =
     \<lparr>sc_port = port, sc_addr = (case addr of Some a \<Rightarrow> a | None \<Rightarrow> str ''0.0.0.0''), sc_reuse_port = reuse_port,
      sc_running = True, sc_routes = [], sc_ws_routes = [],
      sc_default_handler = (\<lambda>_ u. (Returns response_not_found, u)), sc_push_provider = None,
      sc_h3_enabled = False, sc_h3_cert = [], sc_h3_key = [], sc_h1_acceptor = False, sc_tls_acceptor = False\<rparr>"

definition server_route :: "http_method \<Rightarrow> bytes \<Rightarrow> 'u handler_fn \<Rightarrow> 'u server_context \<Rightarrow> 'u server_context" where
  "server_route m path h ctx =
     ctx\<lparr>sc_routes := sc_routes ctx @ [\<lparr>rt_method = m, rt_path = path, rt_handler = h\<rparr>]\<rparr>"

definition server_ws_route :: "bytes \<Rightarrow> 'u ws_handler_fn \<Rightarrow> 'u server_context \<Rightarrow> 'u server_context" where
  "server_ws_route path h ctx = ctx\<lparr>sc_ws_routes := sc_ws_routes ctx @ [(path, h)]\<rparr>"

definition server_default_handler :: "'u handler_fn \<Rightarrow> 'u server_context \<Rightarrow> 'u server_context" where
  "server_default_handler h ctx = ctx\<lparr>sc_default_handler := h\<rparr>"

definition server_set_push_provider :: "'u push_provider_fn \<Rightarrow> 'u server_context \<Rightarrow> 'u server_context" where
  "server_set_push_provider p ctx = ctx\<lparr>sc_push_provider := Some p\<rparr>"

definition server_stop :: "'u server_context \<Rightarrow> 'u server_context" where
  "server_stop ctx = ctx\<lparr>sc_running := False\<rparr>"

record 'u server_builder =
  sb_port :: u16
  sb_addr :: bytes
  sb_reuse_port :: bool
  sb_routes :: "'u route_entry list"
  sb_ws_routes :: "(bytes \<times> 'u ws_handler_fn) list"
  sb_default_handler :: "'u handler_fn option"
  sb_push_provider :: "'u push_provider_fn option"
  sb_use_tls :: bool
  sb_ssl_ctx :: bool
  sb_use_h3 :: bool
  sb_h3_cert :: bytes
  sb_h3_key :: bytes

definition builder_new :: "u16 \<Rightarrow> 'u server_builder" where
  "builder_new port =
     \<lparr>sb_port = port, sb_addr = str ''0.0.0.0'', sb_reuse_port = False, sb_routes = [], sb_ws_routes = [],
      sb_default_handler = None, sb_push_provider = None, sb_use_tls = False, sb_ssl_ctx = False,
      sb_use_h3 = False, sb_h3_cert = [], sb_h3_key = []\<rparr>"

definition builder_route :: "http_method \<Rightarrow> bytes \<Rightarrow> 'u handler_fn \<Rightarrow> 'u server_builder \<Rightarrow> 'u server_builder" where
  "builder_route m path h b =
     b\<lparr>sb_routes := sb_routes b @ [\<lparr>rt_method = m, rt_path = path, rt_handler = h\<rparr>]\<rparr>"

definition builder_ws_route :: "bytes \<Rightarrow> 'u ws_handler_fn \<Rightarrow> 'u server_builder \<Rightarrow> 'u server_builder" where
  "builder_ws_route path h b = b\<lparr>sb_ws_routes := sb_ws_routes b @ [(path, h)]\<rparr>"

definition builder_default_handler :: "'u handler_fn \<Rightarrow> 'u server_builder \<Rightarrow> 'u server_builder" where
  "builder_default_handler h b = b\<lparr>sb_default_handler := Some h\<rparr>"

definition builder_push_provider :: "'u push_provider_fn \<Rightarrow> 'u server_builder \<Rightarrow> 'u server_builder" where
  "builder_push_provider p b = b\<lparr>sb_push_provider := Some p\<rparr>"

definition builder_tls :: "'u server_builder \<Rightarrow> 'u server_builder" where
  "builder_tls b = b\<lparr>sb_use_tls := True, sb_ssl_ctx := True\<rparr>"

definition builder_http1 :: "'u server_builder \<Rightarrow> 'u server_builder" where
  "builder_http1 b = b\<lparr>sb_use_tls := False\<rparr>"

definition builder_http3 :: "bytes \<Rightarrow> bytes \<Rightarrow> 'u server_builder \<Rightarrow> 'u server_builder" where
  "builder_http3 cert key b = b\<lparr>sb_use_h3 := True, sb_h3_cert := cert, sb_h3_key := key\<rparr>"

text \<open>\<^verbatim>\<open>build()\<close>, with TLS and HTTP/3 compiled in.\<close>

definition builder_build :: "'u server_builder \<Rightarrow> 'u server_context" where
  "builder_build b =
     (let srv = server_new (sb_port b) (Some (sb_addr b)) (sb_reuse_port b);
          srv = fold (\<lambda>r. server_route (rt_method r) (rt_path r) (rt_handler r)) (sb_routes b) srv;
          srv = fold (\<lambda>(path, h). server_ws_route path h) (sb_ws_routes b) srv;
          srv = (case sb_default_handler b of Some h \<Rightarrow> server_default_handler h srv | None \<Rightarrow> srv);
          srv = (case sb_push_provider b of Some p \<Rightarrow> server_set_push_provider p srv | None \<Rightarrow> srv);
          srv = (if sb_use_tls b \<and> sb_ssl_ctx b then srv\<lparr>sc_tls_acceptor := True\<rparr> else srv\<lparr>sc_h1_acceptor := True\<rparr>)
      in if sb_use_h3 b
         then srv\<lparr>sc_h3_enabled := True, sc_h3_cert := sb_h3_cert b, sc_h3_key := sb_h3_key b\<rparr> else srv)"

section \<open>Routing\<close>

fun find_route :: "'u route_entry list \<Rightarrow> request \<Rightarrow> 'u handler_fn option" where
  "find_route [] req = None"
| "find_route (r # rs) req =
     (if rt_method r = rq_method req \<and> rt_path r = rq_path req then Some (rt_handler r) else find_route rs req)"

definition http_dispatch :: "'u server_context \<Rightarrow> request \<Rightarrow> 'u \<Rightarrow> (response \<times> 'u) res" where
  "http_dispatch ctx req u =
     (case find_route (sc_routes ctx) req of
        Some h \<Rightarrow> (let (r, u1) = h req u in await r u1)
      | None \<Rightarrow> (let (r, u1) = sc_default_handler ctx req u in await r u1))"

fun find_ws_handler :: "(bytes \<times> 'u ws_handler_fn) list \<Rightarrow> bytes \<Rightarrow> 'u ws_handler_fn option" where
  "find_ws_handler [] path = None"
| "find_ws_handler ((p, h) # rs) path = (if p = path then Some h else find_ws_handler rs path)"

text \<open>
  The announcement of HTTP/3; \<open>h3\<close> says whether it was compiled in.  The HTTP/2 and HTTP/3 sessions call
  handlers without waiting: the adapter resumes them once.
\<close>

definition alt_svc :: "bool \<Rightarrow> u16 \<Rightarrow> headers \<Rightarrow> headers" where
  "alt_svc h3 port hs =
     (if h3 \<and> \<not> hdrs_contains (str ''Alt-Svc'') hs
      then hdrs_set (str ''Alt-Svc'') (str ''h3=\":'' @ nat_to_string (unat port) @ str ''\"; ma=86400'') hs else hs)"

definition adapter_dispatch :: "bool \<Rightarrow> 'u server_context \<Rightarrow> request \<Rightarrow> 'u \<Rightarrow> (response \<times> 'u) res" where
  "adapter_dispatch h3 ctx req u =
     (let announce = (\<lambda>resp. resp\<lparr>rs_hdrs := alt_svc h3 (sc_port ctx) (rs_hdrs resp)\<rparr>)
      in case find_route (sc_routes ctx) req of
           Some h \<Rightarrow>
             (let (r, u1) = h req u
              in case resume_once r of
                   Done resp \<Rightarrow> Inr (announce resp, u1)
                 | Threw e \<Rightarrow> Inl (Runtime_Error e)
                 | Suspended \<Rightarrow> Inr (response_internal_error (str ''Handler not synchronous''), u1))
         | None \<Rightarrow>
             (let (r, u1) = sc_default_handler ctx req u
              in case resume_once r of
                   Done resp \<Rightarrow> Inr (announce resp, u1)
                 | Threw e \<Rightarrow> Inl (Runtime_Error e)
                 | Suspended \<Rightarrow> Inr (response_not_found, u1)))"

text \<open>The protocol is chosen from what the client offers.\<close>

definition alpn_select :: "bytes list \<Rightarrow> bytes" where
  "alpn_select protos =
     (if str ''h2'' \<in> set protos then str ''h2''
      else if str ''http/1.1'' \<in> set protos then str ''http/1.1'' else [])"

section \<open>The HTTP/1.1 loop\<close>

text \<open>
  A connection: the stream requests are read from, the TCP socket under it (used apart from the stream
  only when the stream is a TLS one), and whether the socket has been closed.
\<close>

record http_conn =
  hc_stream :: ws_socket
  hc_sock :: ws_socket
  hc_closed :: bool

text \<open>At most \<open>attempts\<close> reads; the last one is not looked at any more.\<close>

fun read_request :: "nat \<Rightarrow> bytes \<Rightarrow> ws_socket \<Rightarrow> (request option \<times> ws_socket) run" where
  "read_request 0 buffer sk = ret (None, sk)"
| "read_request (Suc attempts) buffer sk =
     bindR (parse_request buffer) (\<lambda>result.
       case result of
         Some (req, _) \<Rightarrow> ret (Some req, sk)
       | None \<Rightarrow>
           (let (chunk, sk1) = async_read_some sk
            in if chunk = [] then ret (None, sk1) else read_request attempts (buffer @ chunk) sk1))"

definition finish_response :: "bool \<Rightarrow> u16 \<Rightarrow> bool \<Rightarrow> response \<Rightarrow> response" where
  "finish_response h3 port keep_alive resp =
     (let hs = hdrs_set (str ''Connection'') (if keep_alive then str ''keep-alive'' else str ''close'') (rs_hdrs resp);
          hs = alt_svc h3 port hs;
          hs = (if hdrs_contains (str ''Content-Length'') hs then hs
                else hdrs_set (str ''Content-Length'') (nat_to_string (length (rs_bd resp))) hs)
      in resp\<lparr>rs_hdrs := hs\<rparr>)"

text \<open>One turn of the loop: it goes round again or is over.  A WebSocket handler is given the TCP socket.\<close>

datatype 'a turn = Again 'a | Over 'a

definition ws_upgrade ::
  "bool \<Rightarrow> 'u ws_handler_fn \<Rightarrow> request \<Rightarrow> http_conn \<Rightarrow> 'u \<Rightarrow> (http_conn \<times> 'u) res" where
  "ws_upgrade tls h req c u =
     (let st = snd (write_raw (build_handshake_response req) (hc_stream c));
          sock = (if tls then hc_sock c else st)
      in bindE (h \<lparr>wc_sock = sock, wc_read_buffer = []\<rparr> u) (\<lambda>(w, u1).
           Inr (if tls then c\<lparr>hc_stream := st, hc_sock := wc_sock w\<rparr> else c\<lparr>hc_stream := wc_sock w\<rparr>, u1)))"

definition answer_request ::
  "bool \<Rightarrow> 'u server_context \<Rightarrow> request \<Rightarrow> http_conn \<Rightarrow> 'u \<Rightarrow> (http_conn \<times> 'u) turn res" where
  "answer_request h3 ctx req c u =
     (let keep_alive = is_keep_alive (rq_hdrs req) \<and> rq_ver req = HTTP_11
      in bindE (http_dispatch ctx req u) (\<lambda>(resp, u1).
           let (ok, sk) = write_raw (serialize_response (finish_response h3 (sc_port ctx) keep_alive resp)) (hc_stream c);
               c1 = c\<lparr>hc_stream := sk\<rparr>
           in Inr (if ok \<and> keep_alive then Again (c1, u1) else Over (c1, u1))))"

definition serve_turn ::
  "bool \<Rightarrow> bool \<Rightarrow> 'u server_context \<Rightarrow> http_conn \<Rightarrow> 'u \<Rightarrow> (http_conn \<times> 'u) turn run" where
  "serve_turn h3 tls ctx c u =
     bindR (read_request 1000 [] (hc_stream c)) (\<lambda>(req_opt, sk).
       let c1 = c\<lparr>hc_stream := sk\<rparr>
       in case req_opt of
            None \<Rightarrow> ret (Over (c1, u))
          | Some req \<Rightarrow>
              (case (if is_websocket_upgrade req then find_ws_handler (sc_ws_routes ctx) (rq_path req) else None) of
                 Some h \<Rightarrow> bindR (Some (ws_upgrade tls h req c1 u)) (\<lambda>r. ret (Over r))
               | None \<Rightarrow> Some (answer_request h3 ctx req c1 u)))"

text \<open>A read is consumed by every turn that goes round again.\<close>

lemma read_request_reads:
  "read_request n buffer sk = Some (Inr (r, sk')) \<Longrightarrow>
   length (sk_reads sk') \<le> length (sk_reads sk) \<and> sk_accepts sk' = sk_accepts sk \<and> sk_sent sk' = sk_sent sk"
proof (induction n arbitrary: buffer sk)
  case (Suc n)
  obtain chunk sk1 where rd: "async_read_some sk = (chunk, sk1)" by force
  have le: "length (sk_reads sk1) \<le> length (sk_reads sk)" "sk_accepts sk1 = sk_accepts sk" "sk_sent sk1 = sk_sent sk"
    using rd by (auto simp: async_read_some_def split: list.splits)
  show ?case using Suc.prems Suc.IH [of "buffer @ chunk" sk1] le
    by (auto simp: bindR_def rd ret_def split: option.splits sum.splits if_splits)
qed (simp add: ret_def)

lemma parse_request_nil: "parse_request [] = ret None"
  by (simp add: parse_request_def find_header_end_def crlf_simps ret_def)

lemma read_request_consumes:
  assumes "read_request (Suc n) [] sk = Some (Inr (Some req, sk'))"
  shows "length (sk_reads sk') < length (sk_reads sk)"
proof (cases "sk_reads sk")
  case Nil
  then show ?thesis using assms by (simp add: parse_request_nil async_read_some_def ret_def)
next
  case (Cons c cs)
  then have "read_request n c (sk\<lparr>sk_reads := cs\<rparr>) = Some (Inr (Some req, sk'))"
    using assms by (auto simp: parse_request_nil async_read_some_def ret_def split: if_splits)
  then show ?thesis using read_request_reads [of n c "sk\<lparr>sk_reads := cs\<rparr>"] Cons by fastforce
qed

lemma answer_request_reads:
  "answer_request h3 ctx req c u = Inr (Again (c', u')) \<Longrightarrow> sk_reads (hc_stream c') = sk_reads (hc_stream c)"
  using write_raw_reads
  by (auto simp: answer_request_def Let_def bindE_eq_Inr_iff case_prod_beta split: if_splits)

lemma serve_turn_consumes:
  assumes "serve_turn h3 tls ctx c u = Some (Inr (Again (c', u')))"
  shows "length (sk_reads (hc_stream c')) < length (sk_reads (hc_stream c))"
proof -
  have 1: "1000 = Suc 999" by simp
  obtain req sk where rd: "read_request 1000 [] (hc_stream c) = Some (Inr (Some req, sk))"
    and ans: "answer_request h3 ctx req (c\<lparr>hc_stream := sk\<rparr>) u = Inr (Again (c', u'))"
    using assms by (auto simp: serve_turn_def bindR_def ret_def Let_def split: option.splits sum.splits prod.splits)
  from answer_request_reads [OF ans] read_request_consumes [of 999 "hc_stream c"] rd
  show ?thesis by (simp only: 1) simp
qed

text \<open>
  The loop.  \<open>flags\<close> are the values of \<^verbatim>\<open>running\<close> it meets; behind the end of that list the server runs.
\<close>

function keep_alive_loop ::
  "bool \<Rightarrow> bool \<Rightarrow> 'u server_context \<Rightarrow> bool list \<Rightarrow> http_conn \<Rightarrow> 'u \<Rightarrow> (http_conn \<times> 'u) run" where
  "keep_alive_loop h3 tls ctx flags c u =
     (if flags \<noteq> [] \<and> \<not> hd flags then ret (c\<lparr>hc_closed := True\<rparr>, u)
      else bindR (serve_turn h3 tls ctx c u) (\<lambda>t.
        case t of
          Again (c1, u1) \<Rightarrow> keep_alive_loop h3 tls ctx (tl flags) c1 u1
        | Over (c1, u1) \<Rightarrow> ret (c1\<lparr>hc_closed := True\<rparr>, u1)))"
  by pat_completeness auto
termination
  by (relation "measure (\<lambda>(_, _, _, _, c, _). length (sk_reads (hc_stream c)))") (auto dest: serve_turn_consumes)

declare keep_alive_loop.simps [simp del]

section \<open>TLS connections\<close>

text \<open>What a session of an HTTP/2 connection calls back, and the session as it is set up.\<close>

definition http_app :: "bool \<Rightarrow> 'u server_context \<Rightarrow> 'u h2_app" where
  "http_app h3 ctx = \<lparr>
     app_request = (\<lambda>_ req u. adapter_dispatch h3 ctx req u),
     app_streaming = (\<lambda>_ _ _ u. Inr (False, [], u)),
     app_start = (\<lambda>_ _ _ _ u. Inr (False, [], u)),
     app_data = (\<lambda>_ _ _ _ u. Inr ([], u)),
     app_push_provider = (\<lambda>_ req u. case sc_push_provider ctx of Some p \<Rightarrow> Inr (p req u) | None \<Rightarrow> Inr ([], u)),
     app_push = (\<lambda>_ _ u. Inr ([], u)),
     app_resume = (\<lambda>_ u. ([], u))\<rparr>"

definition https_session :: "'u server_context \<Rightarrow> 'u \<Rightarrow> 'u h2_session" where
  "https_session ctx u =
     (h2_session_new Server u)\<lparr>s_request_handler := Some 0,
        s_push_provider := (if sc_push_provider ctx = None then None else Some 0)\<rparr>"

text \<open>
  \<^verbatim>\<open>run_tls\<close>: HTTP/2 when it was agreed on, HTTP/1.1 otherwise.  What the transport does during an HTTP/2
  connection is given as for a connection of the RPC server, whose code is the same.
\<close>

record h2_traffic =
  tr_sends1 :: sends
  tr_reads :: "bytes list"
  tr_sends2 :: sends
  tr_rounds :: "(bool \<times> bytes \<times> sends) list"

datatype 'u tls_result = Spoke_H2 "'u conn_out" | Spoke_H1 http_conn 'u

definition run_tls ::
  "bool \<Rightarrow> 'u server_context \<Rightarrow> bytes \<Rightarrow> h2_traffic \<Rightarrow> bool list \<Rightarrow> http_conn \<Rightarrow> 'u \<Rightarrow> 'u tls_result run" where
  "run_tls h3 ctx alpn t flags c u =
     (if alpn = str ''h2''
      then bindR (Some (handle_connection (http_app h3 ctx) (tr_sends1 t) (tr_reads t) (tr_sends2 t) (tr_rounds t) (https_session ctx u)))
             (\<lambda>out. ret (Spoke_H2 out))
      else bindR (keep_alive_loop h3 True ctx flags c u) (\<lambda>(c1, u1). ret (Spoke_H1 c1 u1)))"

section \<open>HTTP/3\<close>

text \<open>
  The UDP socket: a datagram comes from an address, whose \<^verbatim>\<open>address:port\<close> text is the key of its
  connection.  An entry of the table without a session is one whose set-up failed.
\<close>

type_synonym ('q, 'u) h3_connections = "bytes \<Rightarrow> ('q, 'u) h3_session option option"

record ('q, 'u) h3_server =
  hs_connections :: "('q, 'u) h3_connections"
  hs_sent :: "(bytes \<times> bytes) list"
  hs_user :: 'u

definition drop_dead :: "('q, 'u) h3_connections \<Rightarrow> ('q, 'u) h3_connections" where
  "drop_dead cs = (\<lambda>k. case cs k of Some (Some s) \<Rightarrow> if s3_alive s then cs k else None | x \<Rightarrow> x)"

definition h3_server_session :: "'u server_context \<Rightarrow> 'u \<Rightarrow> ('q, 'u) h3_session" where
  "h3_server_session ctx u =
     (h3_session_new H3_Server u)\<lparr>s3_request_handler := Some (adapter_dispatch True ctx), s3_push_provider := sc_push_provider ctx\<rparr>"

text \<open>A datagram for a session that is set up: fed, the pending packets sent, the timers looked at.\<close>

definition h3_turn ::
  "'q quic \<Rightarrow> bytes \<Rightarrow> bytes \<Rightarrow> ('q, 'u) h3_connections \<Rightarrow> ('q, 'u) h3_session \<Rightarrow> ('q, 'u) h3_server \<Rightarrow> ('q, 'u) h3_server run" where
  "h3_turn q data key cs s sv =
     bindR (feed_packet q data s) (\<lambda>(_, s1).
       let (pkts, s2) = get_pending_packets s1;
           sent = map (\<lambda>p. (p, key)) (filter (\<lambda>p. p \<noteq> []) pkts)
       in bindR (handle_expiry q s2) (\<lambda>s3.
            ret (sv\<lparr>hs_connections := cs(key := Some (Some s3)), hs_sent := hs_sent sv @ sent, hs_user := s3_user s3\<rparr>)))"

definition serve_h3_step ::
  "'q quic \<Rightarrow> 'u server_context \<Rightarrow> bytes \<Rightarrow> bytes \<Rightarrow> ('q, 'u) h3_server \<Rightarrow> ('q, 'u) h3_server run" where
  "serve_h3_step q ctx data key sv =
     (if data = [] then ret sv
      else let cs = drop_dead (hs_connections sv)
           in case cs key of
                Some (Some s) \<Rightarrow> h3_turn q data key cs (s\<lparr>s3_user := hs_user sv\<rparr>) sv
              | _ \<Rightarrow>
                  (case init_server_from_packet q data (h3_server_session ctx (hs_user sv)) of
                     (False, _) \<Rightarrow> ret (sv\<lparr>hs_connections := cs(key := Some None)\<rparr>)
                   | (True, s) \<Rightarrow> h3_turn q data key cs s sv))"

fun serve_h3 ::
  "'q quic \<Rightarrow> 'u server_context \<Rightarrow> (bytes \<times> bytes) list \<Rightarrow> ('q, 'u) h3_server \<Rightarrow> ('q, 'u) h3_server run" where
  "serve_h3 q ctx [] sv = ret sv"
| "serve_h3 q ctx ((data, key) # ds) sv = bindR (serve_h3_step q ctx data key sv) (serve_h3 q ctx ds)"

section \<open>What clients see\<close>

text \<open>
  A request, with its query if it has one, arrives in pieces: none is empty, there are fewer of them
  than the loop reads, and it is complete with the last one, behind which \<open>rest\<close> may follow in the
  same piece.
\<close>

definition pieces_of :: "request \<Rightarrow> bytes list \<Rightarrow> bytes \<Rightarrow> bool" where
  "pieces_of req cs rest \<longleftrightarrow> request_ok req \<and> [] \<notin> set cs \<and> length cs < 1000 \<and> cs \<noteq> [] \<and>
     concat cs = request_wire req @ rest \<and> length (concat (butlast cs)) < length (request_wire req)"

text \<open>
  The contract of a loop that reads a message: it stops at the first buffer the parser accepts and reads
  on while the parser asks for more; the parser accepts what was printed and waits on its proper
  prefixes.  The loops of server and client keep it.
\<close>

locale message_reader =
  fixes parse :: "bytes \<Rightarrow> 'm parse"
    and reader :: "nat \<Rightarrow> bytes \<Rightarrow> ws_socket \<Rightarrow> ('m option \<times> ws_socket) run"
    and printed :: "'m \<Rightarrow> bytes"
    and printable :: "'m \<Rightarrow> bool"
  assumes reader_done: "parse b = ret (Some (x, k)) \<Longrightarrow> reader (Suc n) b sk = ret (Some x, sk)"
    and reader_more: "parse b = ret None \<Longrightarrow> async_read_some sk = (c, sk') \<Longrightarrow> c \<noteq> [] \<Longrightarrow>
      reader (Suc n) b sk = reader n (b @ c) sk'"
    and parse_printed: "printable x \<Longrightarrow> parse (printed x @ rest) = ret (Some (x, length (printed x)))"
    and parse_prefix: "printable x \<Longrightarrow> n < length (printed x) \<Longrightarrow> parse (take n (printed x)) = ret None"
begin

lemma reader_pieces:
  assumes "printable x" and "[] \<notin> set cs" and "cs \<noteq> []" and "length cs < n"
    and "b @ concat cs = printed x @ rest" and "length (b @ concat (butlast cs)) < length (printed x)"
    and "sk_reads sk = cs @ later"
  shows "reader n b sk = ret (Some x, sk\<lparr>sk_reads := later\<rparr>)"
  using assms(2-)
proof (induction cs arbitrary: b n sk)
  case (Cons c cs)
  obtain m where n: "n = Suc m" using Cons.prems(3) by (cases n) auto
  have len: "length b < length (printed x)" using Cons.prems(5) by simp
  then have "b = take (length b) (printed x)"
    using arg_cong [OF Cons.prems(4), of "take (length b)"] by simp
  then have none: "parse b = ret None" using parse_prefix [OF assms(1) len] by simp
  have rd: "async_read_some sk = (c, sk\<lparr>sk_reads := cs @ later\<rparr>)" using Cons.prems(6) by (simp add: async_read_some_def)
  have step: "reader n b sk = reader m (b @ c) (sk\<lparr>sk_reads := cs @ later\<rparr>)"
    using reader_more [OF none rd, of m] Cons.prems(1) n by auto
  show ?case
  proof (cases "cs = []")
    case True
    then obtain k where m: "m = Suc k" using Cons.prems(3) n by (cases m) auto
    have "parse (b @ c) = ret (Some (x, length (printed x)))"
      using parse_printed [OF assms(1), of rest] Cons.prems(4) True by simp
    then show ?thesis using reader_done [of "b @ c" x] True by (simp add: step m)
  next
    case False
    then show ?thesis
      unfolding step using Cons.IH [of m "b @ c" "sk\<lparr>sk_reads := cs @ later\<rparr>"] Cons.prems n by simp
  qed
qed simp

end

interpretation requests: message_reader parse_request read_request request_wire request_ok
  by unfold_locales (auto simp: parse_printed_request parse_request_prefix ret_def)

lemma read_request_arrives:
  assumes "pieces_of req cs rest" and "sk_reads sk = cs @ later"
  shows "read_request 1000 [] sk = ret (Some req, sk\<lparr>sk_reads := later\<rparr>)"
  using assms by (intro requests.reader_pieces [where cs = cs and rest = rest]) (auto simp: pieces_of_def)

text \<open>What a server owes to a sequence of requests.\<close>

definition keeps :: "request \<Rightarrow> bool" where
  "keeps req \<longleftrightarrow> is_keep_alive (rq_hdrs req) \<and> rq_ver req = HTTP_11"

fun serve_all :: "bool \<Rightarrow> 'u server_context \<Rightarrow> request list \<Rightarrow> 'u \<Rightarrow> (bytes \<times> 'u) res" where
  "serve_all h3 ctx [] u = Inr ([], u)"
| "serve_all h3 ctx (req # reqs) u =
     bindE (http_dispatch ctx req u) (\<lambda>(resp, u1).
       let out = serialize_response (finish_response h3 (sc_port ctx) (keeps req) resp)
       in if keeps req then bindE (serve_all h3 ctx reqs u1) (\<lambda>(outs, u2). Inr (out @ outs, u2)) else Inr (out, u1))"

definition no_upgrade :: "'u server_context \<Rightarrow> request \<Rightarrow> bool" where
  "no_upgrade ctx req \<longleftrightarrow> is_websocket_upgrade req \<longrightarrow> find_ws_handler (sc_ws_routes ctx) (rq_path req) = None"

definition writable :: "ws_socket \<Rightarrow> bool" where
  "writable sk \<longleftrightarrow> (\<forall>a\<in>set (sk_accepts sk). 0 < a)"

lemma serve_turn_arrives:
  assumes "pieces_of req cs rest" and "sk_reads (hc_stream c) = cs @ later" and "no_upgrade ctx req"
  shows "serve_turn h3 tls ctx c u = Some (answer_request h3 ctx req (c\<lparr>hc_stream := (hc_stream c)\<lparr>sk_reads := later\<rparr>\<rparr>) u)"
  using assms(3) by (auto simp: serve_turn_def read_request_arrives [OF assms(1,2)] no_upgrade_def)

lemma answer_request_writes:
  assumes "writable (hc_stream c)" and "http_dispatch ctx req u = Inr (resp, u1)"
  shows "\<exists>sk. answer_request h3 ctx req c u =
      Inr ((if keeps req then Again else Over) (c\<lparr>hc_stream := sk\<rparr>, u1)) \<and> writable sk \<and> sk_reads sk = sk_reads (hc_stream c) \<and>
      sk_sent sk = sk_sent (hc_stream c) @ serialize_response (finish_response h3 (sc_port ctx) (keeps req) resp)"
proof -
  obtain sk where "write_raw (serialize_response (finish_response h3 (sc_port ctx) (keeps req) resp)) (hc_stream c) = (True, sk)"
    and sk: "sk_sent sk = sk_sent (hc_stream c) @ serialize_response (finish_response h3 (sc_port ctx) (keeps req) resp)"
      "sk_reads sk = sk_reads (hc_stream c)" "set (sk_accepts sk) \<subseteq> set (sk_accepts (hc_stream c))"
    using write_raw_sent [of "hc_stream c"] assms(1) by (meson writable_def)
  then show ?thesis
    using assms by (intro exI [of _ sk]) (auto simp: answer_request_def keeps_def writable_def)
qed

definition seen :: "http_conn \<times> 'u \<Rightarrow> bytes \<times> bool \<times> 'u" where
  "seen r = (sk_sent (hc_stream (fst r)), hc_closed (fst r), snd r)"

lemma keep_alive_nothing:
  assumes "sk_reads (hc_stream c) = []"
  shows "bindR (keep_alive_loop h3 tls ctx [] c u) (\<lambda>r. ret (seen r)) = ret (sk_sent (hc_stream c), True, u)"
proof -
  have 1: "1000 = Suc 999" by simp
  have "read_request 1000 [] (hc_stream c) = ret (None, hc_stream c)"
    unfolding 1 read_request.simps using assms by (simp add: parse_request_nil async_read_some_def)
  then show ?thesis
    by (simp add: keep_alive_loop.simps [of h3 tls ctx "[]" c] serve_turn_def seen_def)
qed

lemma keep_alive_serves_requests:
  assumes "list_all2 (\<lambda>req cs. (\<exists>rest. pieces_of req cs rest) \<and> no_upgrade ctx req) reqs css"
    and "sk_reads (hc_stream c) = concat css" and "writable (hc_stream c)"
  shows "bindR (keep_alive_loop h3 tls ctx [] c u) (\<lambda>r. ret (seen r)) =
    Some (bindE (serve_all h3 ctx reqs u) (\<lambda>(out, u'). Inr (sk_sent (hc_stream c) @ out, True, u')))"
  using assms
proof (induction reqs css arbitrary: c u rule: list_all2_induct)
  case Nil
  then show ?case using keep_alive_nothing [of c h3 tls ctx u] by (simp add: ret_def)
next
  case (Cons req reqs cs css)
  let ?c = "c\<lparr>hc_stream := (hc_stream c)\<lparr>sk_reads := concat css\<rparr>\<rparr>"
  obtain rest where rest: "pieces_of req cs rest" "no_upgrade ctx req" using Cons.hyps(1) by blast
  have turn: "serve_turn h3 tls ctx c u = Some (answer_request h3 ctx req ?c u)"
    using rest Cons.prems(1) by (intro serve_turn_arrives [where cs = cs and rest = rest]) auto
  show ?case
  proof (cases "http_dispatch ctx req u")
    case (Inl e)
    then show ?thesis by (simp add: keep_alive_loop.simps [of h3 tls ctx "[]" c] turn answer_request_def)
  next
    case (Inr p)
    obtain resp u1 where p: "p = (resp, u1)" by (cases p)
    have "writable (hc_stream ?c)" using Cons.prems(2) by (simp add: writable_def)
    from answer_request_writes [OF this, of ctx req u resp u1 h3] Inr p
    obtain sk where sk: "answer_request h3 ctx req ?c u = Inr ((if keeps req then Again else Over) (c\<lparr>hc_stream := sk\<rparr>, u1))"
      "writable sk" "sk_reads sk = concat css"
      "sk_sent sk = sk_sent (hc_stream c) @ serialize_response (finish_response h3 (sc_port ctx) (keeps req) resp)" by auto
    show ?thesis
    proof (cases "keeps req")
      case True
      then show ?thesis
        using Cons.IH [of "c\<lparr>hc_stream := sk\<rparr>" u1] sk Inr p
        by (simp add: keep_alive_loop.simps [of h3 tls ctx "[]" c] turn bindE_def case_prod_beta split: sum.splits)
    next
      case False
      then show ?thesis
        using sk Inr p by (simp add: keep_alive_loop.simps [of h3 tls ctx "[]" c] turn seen_def ret_def)
    qed
  qed
qed

lemma request_wire_nonempty: "request_wire req \<noteq> []"
  by (simp add: request_wire_def serialize_request_def crlf_def)

lemma request_arrives_whole: "request_ok req \<Longrightarrow> pieces_of req [request_wire req] []"
  using request_wire_nonempty [of req] by (auto simp: pieces_of_def)

text \<open>A failed set-up leaves an entry that no datagram from another address removes.\<close>

lemma h3_turn_other:
  "h3_turn q data key cs s sv = Some (Inr sv') \<Longrightarrow> key \<noteq> k \<Longrightarrow> hs_connections sv' k = cs k"
  by (auto simp: h3_turn_def bindR_def ret_def Let_def split: option.splits sum.splits prod.splits)

lemma serve_h3_step_other:
  assumes "serve_h3_step q ctx data key sv = Some (Inr sv')" and "key \<noteq> k" and "hs_connections sv k = Some None"
  shows "hs_connections sv' k = Some None"
proof -
  have "drop_dead (hs_connections sv) k = Some None" using assms(3) by (simp add: drop_dead_def)
  then show ?thesis
    using assms h3_turn_other [OF _ assms(2), of q data "drop_dead (hs_connections sv)" _ sv sv']
    by (auto simp: serve_h3_step_def ret_def Let_def split: if_splits option.splits prod.splits bool.splits)
qed

lemma serve_h3_keeps_entry:
  assumes "serve_h3 q ctx ds sv = Some (Inr sv')" and "k \<notin> snd ` set ds" and "hs_connections sv k = Some None"
  shows "hs_connections sv' k = Some None"
  using assms
proof (induction ds arbitrary: sv)
  case (Cons d ds)
  obtain data key where d: "d = (data, key)" by (cases d)
  obtain sv1 where "serve_h3_step q ctx data key sv = Some (Inr sv1)" "serve_h3 q ctx ds sv1 = Some (Inr sv')"
    using Cons.prems(1) d by (auto simp: bindR_def split: option.splits sum.splits)
  then show ?case using Cons.IH [of sv1] Cons.prems serve_h3_step_other [of q ctx data key sv sv1 k] d by auto
qed (simp add: ret_def)

section \<open>Theorems\<close>


definition hello_server :: "nat server_context" where
  "hello_server = builder_build (builder_route POST (str ''/a'') (\<lambda>req u. (Returns (response_ok (rq_bd req)), u + 1)) (builder_new 80))"

definition query_example :: request where
  "query_example = post_example\<lparr>rq_query := str ''b''\<rparr>"

definition two_requests :: http_conn where
  "two_requests = \<lparr>hc_stream = \<lparr>sk_reads = [take 9 (serialize_request post_example), drop 9 (serialize_request post_example),
       request_wire query_example @ [71, 69, 84]], sk_accepts = [7], sk_sent = []\<rparr>,
     hc_sock = \<lparr>sk_reads = [], sk_accepts = [], sk_sent = []\<rparr>, hc_closed = False\<rparr>"

lemma post_example_keeps: "keeps post_example" "no_upgrade ctx post_example"
  by (simp_all add: keeps_def is_keep_alive_def no_upgrade_def is_websocket_upgrade_def post_example_def to_lower_def tolower_def)

lemma post_example_served:
  "http_dispatch hello_server post_example u = Inr (response_ok [13, 10], u + 1)"
  by (simp add: http_dispatch_def hello_server_def builder_build_def builder_route_def builder_new_def server_new_def
      server_route_def post_example_def)

lemma post_example_pieces:
  "pieces_of post_example [take 9 (serialize_request post_example), drop 9 (serialize_request post_example)] []"
  "pieces_of post_example [serialize_request post_example] []"
proof -
  have "9 < length (serialize_request post_example)"
    by (simp add: serialize_request_def post_example_def method_to_string_def version_to_string_def hdrs_serialize_def crlf_def)
  then show "pieces_of post_example [take 9 (serialize_request post_example), drop 9 (serialize_request post_example)] []"
    by (auto simp: pieces_of_def post_example_ok post_example_wire)
  show "pieces_of post_example [serialize_request post_example] []"
    using request_arrives_whole [OF post_example_ok] by (simp add: post_example_wire)
qed

lemma query_example_ok: "request_ok query_example" "keeps query_example" "no_upgrade ctx query_example"
  "http_dispatch hello_server query_example u = Inr (response_ok [13, 10], u + 1)"
  using post_example_ok post_example_keeps(1) post_example_keeps(2) [of ctx] post_example_served [of u]
  by (simp_all add: query_example_def request_ok_def keeps_def no_upgrade_def is_websocket_upgrade_def http_dispatch_def
      hello_server_def builder_build_def builder_route_def builder_new_def server_new_def server_route_def post_example_def)

lemma query_example_pieces: "pieces_of query_example [request_wire query_example @ [71, 69, 84]] [71, 69, 84]"
  using request_wire_nonempty [of query_example] by (simp add: pieces_of_def query_example_ok)


text \<open>
  Bytes that follow a request in the same read are lost.  Whatever a client has pipelined behind a
  request, the loop does exactly what it does when those bytes were never sent; a second request among
  them is never answered.
\<close>

theorem pipelined_bytes_lost:
  assumes "pieces_of req cs rest" and "no_upgrade ctx req"
  shows "bindR (keep_alive_loop h3 tls ctx flags (c\<lparr>hc_stream := sk\<lparr>sk_reads := cs @ later\<rparr>\<rparr>) u) (\<lambda>r. ret (seen r)) =
    bindR (keep_alive_loop h3 tls ctx flags (c\<lparr>hc_stream := sk\<lparr>sk_reads := request_wire req # later\<rparr>\<rparr>) u) (\<lambda>r. ret (seen r))"
proof -
  have whole: "pieces_of req [request_wire req] []" using assms(1) by (intro request_arrives_whole) (simp add: pieces_of_def)
  have "serve_turn h3 tls ctx (c\<lparr>hc_stream := sk\<lparr>sk_reads := cs @ later\<rparr>\<rparr>) u =
      serve_turn h3 tls ctx (c\<lparr>hc_stream := sk\<lparr>sk_reads := request_wire req # later\<rparr>\<rparr>) u"
    using serve_turn_arrives [OF assms(1) _ assms(2), of "c\<lparr>hc_stream := sk\<lparr>sk_reads := cs @ later\<rparr>\<rparr>" later]
      serve_turn_arrives [OF whole _ assms(2), of "c\<lparr>hc_stream := sk\<lparr>sk_reads := request_wire req # later\<rparr>\<rparr>" later]
    by simp
  then show ?thesis
    by (cases "flags \<noteq> [] \<and> \<not> hd flags") (auto simp: keep_alive_loop.simps [of h3 tls ctx flags] seen_def)
qed

theorem pipelined_bytes_lost_witness:
  "bindR (keep_alive_loop True False hello_server [] (two_requests\<lparr>hc_stream := \<lparr>sk_reads = [serialize_request post_example @ serialize_request post_example],
      sk_accepts = [], sk_sent = []\<rparr>\<rparr>) 0) (\<lambda>r. ret (seen r)) =
   bindR (keep_alive_loop True False hello_server [] (two_requests\<lparr>hc_stream := \<lparr>sk_reads = [serialize_request post_example],
      sk_accepts = [], sk_sent = []\<rparr>\<rparr>) 0) (\<lambda>r. ret (seen r))"
proof -
  have "pieces_of post_example [serialize_request post_example @ serialize_request post_example] (serialize_request post_example)"
    using request_wire_nonempty [of post_example] by (simp add: pieces_of_def post_example_ok post_example_wire)
  from pipelined_bytes_lost [OF this post_example_keeps(2), where ?h3.0 = True and tls = False and flags = "[]" and
      c = two_requests and sk = "\<lparr>sk_reads = [], sk_accepts = [], sk_sent = []\<rparr>" and later = "[]" and ctx = hello_server and u = 0]
  show ?thesis by (simp add: post_example_wire)
qed

text \<open>
  On a TLS connection a WebSocket handler does not speak TLS.  The handshake answer goes through
  the TLS stream, but the handler is given the TCP socket below it: what it sends is written there in
  the clear, what it reads is undecoded TLS records, and bytes already read behind the request are lost.
\<close>

theorem tls_websocket_in_the_clear:
  assumes "pieces_of req cs rest" and "sk_reads (hc_stream c) = cs @ later" and "writable (hc_stream c)"
    and "is_websocket_upgrade req" and "find_ws_handler (sc_ws_routes ctx) (rq_path req) = Some h"
    and "h \<lparr>wc_sock = hc_sock c, wc_read_buffer = []\<rparr> u = Inr (w, u')"
  shows "\<exists>c'. keep_alive_loop h3 True ctx [] c u = ret (c', u') \<and> hc_sock c' = wc_sock w \<and> hc_closed c' \<and>
    sk_sent (hc_stream c') = sk_sent (hc_stream c) @ build_handshake_response req \<and> sk_reads (hc_stream c') = later"
proof -
  let ?sk = "(hc_stream c)\<lparr>sk_reads := later\<rparr>"
  obtain st where st: "write_raw (build_handshake_response req) ?sk = (True, st)"
    "sk_sent st = sk_sent ?sk @ build_handshake_response req" "sk_reads st = sk_reads ?sk"
    using write_raw_sent [of ?sk "build_handshake_response req"] assms(3) by (auto simp: writable_def)
  show ?thesis
    using assms(4-6) st
    by (simp add: keep_alive_loop.simps [of h3 True ctx "[]" c] serve_turn_def read_request_arrives [OF assms(1,2)]
        ws_upgrade_def Let_def ret_def)
qed

definition chat_server :: "nat server_context" where
  "chat_server = server_ws_route (str ''/'') (\<lambda>w u. Inr (snd (ws_send (str ''secret'') w), u)) (server_new 443 None False)"

definition tls_conn :: http_conn where
  "tls_conn = two_requests\<lparr>hc_stream := \<lparr>sk_reads = [request_wire upgrade_example], sk_accepts = [], sk_sent = []\<rparr>\<rparr>"

lemma upgrade_example_ok: "request_ok upgrade_example" "is_websocket_upgrade upgrade_example"
  by (simp add: request_ok_def upgrade_example_def request_default_def header_ok_def is_blank_def length_told_def is_chunked_def
      content_length_def to_lower_def tolower_def) code_simp

theorem tls_websocket_in_the_clear_witness:
  "\<exists>c'. keep_alive_loop True True chat_server [] tls_conn 0 = ret (c', 0) \<and>
     sk_sent (hc_sock c') = encode_ws_frame Op_Text (str ''secret'') True \<and>
     sk_sent (hc_stream c') = build_handshake_response upgrade_example"
proof -
  let ?w = "\<lparr>wc_sock = hc_sock tls_conn, wc_read_buffer = []\<rparr>"
  have ws: "find_ws_handler (sc_ws_routes chat_server) (rq_path upgrade_example) = Some (\<lambda>w u. Inr (snd (ws_send (str ''secret'') w), u))"
    by (simp add: chat_server_def server_ws_route_def server_new_def upgrade_example_def request_default_def)
  have wr: "writable (hc_stream tls_conn)" by (simp add: tls_conn_def writable_def)
  have rd: "sk_reads (hc_stream tls_conn) = [request_wire upgrade_example] @ []" by (simp add: tls_conn_def)
  have "\<exists>c'. keep_alive_loop True True chat_server [] tls_conn 0 = ret (c', 0) \<and> hc_sock c' = wc_sock (snd (ws_send (str ''secret'') ?w)) \<and>
      hc_closed c' \<and> sk_sent (hc_stream c') = sk_sent (hc_stream tls_conn) @ build_handshake_response upgrade_example \<and>
      sk_reads (hc_stream c') = []"
    by (rule tls_websocket_in_the_clear [OF request_arrives_whole [OF upgrade_example_ok(1)] rd wr upgrade_example_ok(2) ws]) simp
  moreover have "sk_sent (wc_sock (snd (ws_send (str ''secret'') ?w))) = encode_ws_frame Op_Text (str ''secret'') True"
    using conn_write_live(3) [of ?w] by (simp add: ws_send_def sent_def live_def tls_conn_def two_requests_def)
  ultimately show ?thesis by (auto simp: tls_conn_def)
qed

section \<open>One routing table for three protocols\<close>

text \<open>The handler a request is routed to, and that it has not suspended when it has been resumed once.\<close>

definition routed :: "'u server_context \<Rightarrow> request \<Rightarrow> 'u handler_fn" where
  "routed ctx req = (case find_route (sc_routes ctx) req of Some h \<Rightarrow> h | None \<Rightarrow> sc_default_handler ctx)"

definition synchronous :: "'u server_context \<Rightarrow> request \<Rightarrow> 'u \<Rightarrow> bool" where
  "synchronous ctx req u \<longleftrightarrow> resume_once (fst (routed ctx req req u)) \<noteq> Suspended"

definition announced :: "bool \<Rightarrow> 'u server_context \<Rightarrow> response \<Rightarrow> response" where
  "announced h3 ctx resp = resp\<lparr>rs_hdrs := alt_svc h3 (sc_port ctx) (rs_hdrs resp)\<rparr>"

lemma adapter_dispatch_http:
  "adapter_dispatch h3 ctx req u =
     (if synchronous ctx req u
      then bindE (http_dispatch ctx req u) (\<lambda>(resp, u'). Inr (announced h3 ctx resp, u'))
      else Inr (if find_route (sc_routes ctx) req = None then response_not_found
                else response_internal_error (str ''Handler not synchronous''),
                snd (routed ctx req req u)))"
  by (cases "routed ctx req req u"; cases "fst (routed ctx req req u)"; cases "find_route (sc_routes ctx) req")
     (simp_all add: adapter_dispatch_def http_dispatch_def synchronous_def announced_def routed_def resume_once_def)

lemma find_route_find:
  "find_route rs req = map_option rt_handler (find (\<lambda>r. rt_method r = rq_method req \<and> rt_path r = rq_path req) rs)"
  by (induction rs) auto

lemma built_routes:
  fixes b :: "'u server_builder"
  shows "sc_routes (builder_build b) = sb_routes b" "sc_ws_routes (builder_build b) = sb_ws_routes b"
    "sc_default_handler (builder_build b) =
       (case sb_default_handler b of Some h \<Rightarrow> h | None \<Rightarrow> (\<lambda>_ u. (Returns response_not_found, u)))"
proof -
  have routes: "fold (\<lambda>r. server_route (rt_method r) (rt_path r) (rt_handler r)) rs ctx = ctx\<lparr>sc_routes := sc_routes ctx @ rs\<rparr>"
    for rs and ctx :: "'u server_context"
    by (induction rs arbitrary: ctx) (auto simp: server_route_def)
  have ws: "fold (\<lambda>(path, h). server_ws_route path h) rs ctx = ctx\<lparr>sc_ws_routes := sc_ws_routes ctx @ rs\<rparr>"
    for rs and ctx :: "'u server_context"
    by (induction rs arbitrary: ctx) (auto simp: server_ws_route_def)
  show "sc_routes (builder_build b) = sb_routes b" "sc_ws_routes (builder_build b) = sb_ws_routes b"
    "sc_default_handler (builder_build b) =
       (case sb_default_handler b of Some h \<Rightarrow> h | None \<Rightarrow> (\<lambda>_ u. (Returns response_not_found, u)))"
    by (auto simp: builder_build_def routes ws Let_def server_new_def server_default_handler_def server_set_push_provider_def
        split: option.splits)
qed

text \<open>
  On a server made by the builder the first registered route with the request's method and path
  answers; a request without one goes to the default handler, and to a 404 when none was given.
\<close>

theorem built_server_routes:
  "http_dispatch (builder_build b) req u =
     (case find (\<lambda>r. rt_method r = rq_method req \<and> rt_path r = rq_path req) (sb_routes b) of
        Some r \<Rightarrow> (case rt_handler r req u of (run, u1) \<Rightarrow> await run u1)
      | None \<Rightarrow> (case sb_default_handler b of
          Some h \<Rightarrow> (case h req u of (run, u1) \<Rightarrow> await run u1) | None \<Rightarrow> Inr (response_not_found, u)))"
  by (simp add: http_dispatch_def built_routes find_route_find split: option.splits)

text \<open>A connection of this server that is between two frames, without a push provider.\<close>

definition https_idle :: "'u h2_session \<Rightarrow> bool" where
  "https_idle s \<longleftrightarrow> plain_server 0 s \<and> s_request_start_handler s = None \<and> reader_clean (s_reader s)"

lemma https_idle_new: "sc_push_provider ctx = None \<Longrightarrow> https_idle (https_session ctx u)" "s_streams (https_session ctx u) = (\<lambda>_. None)"
    "s_user (https_session ctx u) = u"
  using session_new_clean [of Server u]
  by (simp_all add: https_idle_def plain_server_def https_session_def) (simp_all add: h2_session_new_def enqueue_def)

lemma https_session_reachable:
  assumes "sc_push_provider ctx = None"
  shows "h2_reachable app (https_session ctx u)"
proof -
  have "https_session ctx u = (h2_session_new Server u)\<lparr>s_request_handler := Some 0\<rparr>"
    using assms by (simp add: https_session_def h2_session_new_def enqueue_def)
  moreover have "h2_reachable app ((h2_session_new Server u)\<lparr>s_request_handler := Some 0\<rparr>)"
    by (rule reach_step [OF reach_new step_call [of "Set_Request_Handler (Some 0)"]]) simp
  ultimately show ?thesis by simp
qed

lemma submit_response_frame:
  "s_mode (do_submit_response sid resp s) = s_mode s" "s_alive (do_submit_response sid resp s) = s_alive s"
  "s_continuation_stream (do_submit_response sid resp s) = s_continuation_stream s"
  "s_request_handler (do_submit_response sid resp s) = s_request_handler s"
  "s_streaming_request_handler (do_submit_response sid resp s) = s_streaming_request_handler s"
  "s_request_start_handler (do_submit_response sid resp s) = s_request_start_handler s"
  "s_push_provider (do_submit_response sid resp s) = s_push_provider s" "s_user (do_submit_response sid resp s) = s_user s"
  by (simp_all add: do_submit_response_def Let_def close_stream_def upd_stream_def enqueue_headers_def build_headers_frame_def
      enqueue_def split: prod.splits)

text \<open>What a client is owed for a request: the answer of the adapter, unless the handler throws.\<close>

definition https_answers :: "bool \<Rightarrow> 'u server_context \<Rightarrow> request \<Rightarrow> 'u \<Rightarrow> response \<Rightarrow> 'u \<Rightarrow> bool" where
  "https_answers h3 ctx req u answer u' \<longleftrightarrow>
     (if synchronous ctx req u
      then \<exists>resp. http_dispatch ctx req u = Inr (resp, u') \<and> answer = announced h3 ctx resp
      else u' = snd (routed ctx req req u) \<and>
        answer = (if find_route (sc_routes ctx) req = None then response_not_found
                  else response_internal_error (str ''Handler not synchronous'')))"

text \<open>The server side: what the bytes of a request make an idle connection do.\<close>

lemma https_request_served:
  fixes c :: "'v h2_session" and s :: "'u h2_session"
  assumes "0 < s_peer_max_frame_size c \<and> s_peer_max_frame_size c < 2 ^ 24 \<and> en_max_table_size (s_encoder c) < 2 ^ 32"
    and "do_submit_request req p False c = Inr (sid, c')" and "0 < sid" and "s_output c' = s_output c @ wire"
    and "\<forall>hd\<in>set (request_headers req). header_codable hd"
    and "length (concat (map encode_header (request_headers req))) < 2 ^ 63"
    and "list_all (\<lambda>(n, v). is_pseudo n \<longrightarrow> n = str '':authority'') (request_extra_headers req)"
    and "https_idle s" and "s_streams s sid = None" and "https_answers h3 ctx (received_request req) (s_user s) answer u'"
  shows "\<exists>s' t. h2_feed (http_app h3 ctx) wire s = Inr (int (length wire), s') \<and> https_idle s' \<and> s_user s' = u' \<and>
    s_output s' = s_output (do_submit_response sid answer t) \<and> request_context sid s t"
proof -
  have s: "plain_server 0 s" "reader_clean (s_reader s)" "s_request_start_handler s = None"
    using assms(8) by (simp_all add: https_idle_def)
  have app: "app_request (http_app h3 ctx) 0 (received_request req) (s_user s) = Inr (answer, u')"
    using assms(10) by (auto simp: http_app_def adapter_dispatch_http https_answers_def split: if_splits)
  have "declines (http_app h3 ctx) sid ((received_request req)\<lparr>rq_bd := []\<rparr>) s" using s(3) by (simp add: declines_def)
  from request_delivered [OF assms(1-7) s(1,2) assms(9) this app] obtain r t where
    t: "h2_feed (http_app h3 ctx) wire s = Inr (int (length wire), rd r (do_submit_response sid answer (t\<lparr>s_user := u'\<rparr>)))"
      "reader_clean r" "request_context sid s t"
    by blast
  have "https_idle (rd r (do_submit_response sid answer (t\<lparr>s_user := u'\<rparr>)))"
    using s t(2,3) by (auto simp: https_idle_def plain_server_def rd_def submit_response_frame request_context_def)
  then show ?thesis
    using t by (intro exI [of _ "rd r (do_submit_response sid answer (t\<lparr>s_user := u'\<rparr>))"] exI [of _ "t\<lparr>s_user := u'\<rparr>"])
      (simp add: rd_def submit_response_frame request_context_def)
qed

text \<open>
  C4: A complete exchange over HTTP/2 with this server.  The bytes that submitting a request adds to the
  client's output, fed to any connection of the server that is between two frames, make it run the
  handler of the first route with the request's method and path once, or the default handler;
  what the connection then submits, fed to the client that waits for the answer, completes the client's
  promise.  The answer is the handler's response with the announcement of HTTP/3, as long as the handler does not suspend; of a
  handler that suspends the client gets a 500, or a 404 when it is the default handler, and the rest of
  it is never run.  The connection is ready for the next request.  The request may carry an \<^verbatim>\<open>:authority\<close>
  header as this library's client adds it; the server has no push provider, the handler does not throw, and the
  headers of request and answer are codable.
\<close>

theorem https_request_routed:
  fixes c :: "'v h2_session" and s :: "'u h2_session"
  assumes "h2_reachable capp c" and "s_mode c = Client" and "s_alive c" and "s_continuation_stream c = 0"
    and "s_streams c (s_next_stream_id c) = None" and "0 < s_next_stream_id c"
    and "make_promise promise_default c = (p, c1)" and "do_submit_request req (Some p) False c1 = Inr (sid, c')"
    and "s_output c' = s_output c @ wire"
    and "\<forall>hd\<in>set (request_headers req). header_codable hd"
    and "length (concat (map encode_header (request_headers req))) < 2 ^ 63"
    and "list_all (\<lambda>(n, v). is_pseudo n \<longrightarrow> n = str '':authority'') (request_extra_headers req)"
    and "h2_reachable (http_app h3 ctx) s" and "https_idle s" and "s_streams s sid = None"
    and "https_answers h3 ctx (received_request req) (s_user s) answer u'"
    and "answer_codable answer" and "- (2 ^ 31) \<le> rs_status answer" and "rs_status answer < 2 ^ 31"
  shows "awaiting sid p promise_default (s_completed_promises c) response_default [] c' \<and>
    (\<exists>s' updates out. h2_feed (http_app h3 ctx) wire s = Inr (int (length wire), s') \<and> s_user s' = u' \<and> https_idle s' \<and>
      s_output s' = s_output s @ updates @ out \<and>
      (\<forall>c2 pr cp. awaiting sid p pr cp response_default [] c2 \<longrightarrow> reader_clean (s_reader c2) \<longrightarrow> resumes_quietly capp pr \<longrightarrow>
         (\<exists>c3. h2_feed capp out c2 = Inr (int (length out), c3) \<and>
            s_promises c3 p = Some (pr\<lparr>pr_resp := received_response answer, pr_complete := True\<rparr>))))"
proof -
  note c1 = make_promise_simps [OF assms(7)]
  have sid: "0 < sid" "sid < 2 ^ 31"
    using assms(6,8) c1(9) by (auto simp: do_submit_request_def Let_def split: if_splits)
  have wait: "awaiting sid p promise_default (s_completed_promises c) response_default [] c'"
    using submit_request_awaits [OF assms(8)] assms(2-5) c1 by simp
  have csizes: "0 < s_peer_max_frame_size c1 \<and> s_peer_max_frame_size c1 < 2 ^ 24 \<and> en_max_table_size (s_encoder c1) < 2 ^ 32"
    using reachable_sizes [OF assms(1)] c1(1,2) by simp
  have "s_output c' = s_output c1 @ wire" using assms(9) c1(3) by simp
  from https_request_served [OF csizes assms(8) sid(1) this assms(10-12,14-16)] obtain s' t where
    s': "h2_feed (http_app h3 ctx) wire s = Inr (int (length wire), s')" "https_idle s'" "s_user s' = u'"
      "s_output s' = s_output (do_submit_response sid answer t)" "request_context sid s t"
    by blast
  obtain out where out: "s_output (do_submit_response sid answer t) = s_output t @ out"
    using submit_response_extends by blast
  obtain updates where updates: "s_output t = s_output s @ updates"
    using s'(5) by (auto simp: request_context_def prefix_def)
  have sizes: "0 < s_peer_max_frame_size t \<and> s_peer_max_frame_size t < 2 ^ 24 \<and> en_max_table_size (s_encoder t) < 2 ^ 32"
    using reachable_sizes [OF assms(13)] s'(5) by (simp add: request_context_def)
  note codable = assms(17) [unfolded answer_codable_def]
  have reply: "\<exists>c3. h2_feed capp out c2 = Inr (int (length out), c3) \<and>
      s_promises c3 p = Some (pr\<lparr>pr_resp := received_response answer, pr_complete := True\<rparr>)"
    if "awaiting sid p pr cp response_default [] c2" "reader_clean (s_reader c2)" "resumes_quietly capp pr" for c2 pr cp
    using response_delivered [OF sizes sid out codable [THEN conjunct1] codable [THEN conjunct2, THEN conjunct1]
        codable [THEN conjunct2, THEN conjunct2] assms(18,19) that]
    by (fastforce simp: delivered_def)
  have "s_output s' = s_output s @ updates @ out" using s'(4) out updates by simp
  then show ?thesis using wait s' reply by blast
qed

definition authority_request :: request where
  "authority_request = example_request\<lparr>rq_hdrs := [(str '':authority'', str ''h''), (str ''X-Id'', str ''7'')]\<rparr>"

definition authority_answer :: response where
  "authority_answer = announced True hello_server (response_ok [1, 2])"

lemma authority_request_codable:
  "\<forall>hd\<in>set (request_headers authority_request). header_codable hd"
  "length (concat (map encode_header (request_headers authority_request))) < 2 ^ 63"
  "list_all (\<lambda>(n, v). is_pseudo n \<longrightarrow> n = str '':authority'') (request_extra_headers authority_request)"
proof -
  have rh: "request_headers authority_request = [(str '':method'', str ''POST''), (str '':path'', str ''/a?b''),
      (str '':scheme'', str ''https''), (str '':authority'', str ''localhost''), (str '':authority'', str ''h''), (str ''x-id'', str ''7'')]"
    by (simp add: request_headers_def authority_request_def example_request_def request_default_def method_to_string_def
        lower_headers_def to_lower_header_def tolower_def to_lower_def)
  show "\<forall>hd\<in>set (request_headers authority_request). header_codable hd"
    by (simp add: rh header_codable_def codable_def huff_safe_iff)
  show "length (concat (map encode_header (request_headers authority_request))) < 2 ^ 63"
    using length_encode_headers [of "request_headers authority_request"] unfolding rh by (rule order.strict_trans1) simp
  show "list_all (\<lambda>(n, v). is_pseudo n \<longrightarrow> n = str '':authority'') (request_extra_headers authority_request)"
    by (simp add: request_extra_headers_def authority_request_def lower_headers_def to_lower_header_def tolower_def is_pseudo_def)
qed

lemma authority_answer_block:
  "response_block authority_answer @ lower_headers (rs_trailers authority_answer) =
     [(str '':status'', str ''200''), (str ''content-type'', str ''text/plain''), (str ''content-length'', str ''2''),
      (str ''alt-svc'', str ''h3=\":80\"; ma=86400'')]"
  by code_simp

lemma authority_answer_codable: "answer_codable authority_answer"
proof -
  note rb = authority_answer_block
  have "length (concat (map encode_header (response_block authority_answer @ lower_headers (rs_trailers authority_answer)))) < 2 ^ 63"
    using length_encode_headers [of "response_block authority_answer @ lower_headers (rs_trailers authority_answer)"]
    unfolding rb by (rule order.strict_trans1) simp
  moreover have "\<forall>hd\<in>set (response_block authority_answer @ lower_headers (rs_trailers authority_answer)). header_codable hd"
    by (simp add: rb header_codable_def codable_def huff_safe_iff)
  moreover have "list_all (\<lambda>(n, v). \<not> is_pseudo n) (response_fields authority_answer @ lower_headers (rs_trailers authority_answer))"
    using rb by (simp add: response_block_def is_pseudo_def)
  ultimately show ?thesis by (simp add: answer_codable_def)
qed

lemma authority_request_answered:
  "https_answers True hello_server (received_request authority_request) u authority_answer (u + 1)"
  by (auto simp: https_answers_def authority_answer_def hello_server_def builder_build_def builder_route_def builder_new_def
      server_new_def server_route_def synchronous_def routed_def resume_once_def http_dispatch_def received_request_def
      authority_request_def example_request_def split_path_def request_default_def)

theorem https_request_routed_witness:
  "\<exists>c1 c' wire s' updates out. make_promise promise_default (h2_session_new Client ()) = (0, c1) \<and>
     do_submit_request authority_request (Some 0) False c1 = Inr (1, c') \<and>
     h2_feed (http_app True hello_server) wire (https_session hello_server 5) = Inr (int (length wire), s') \<and> s_user s' = 6 \<and>
     s_output s' = s_output (https_session hello_server 5) @ updates @ out \<and>
     (\<exists>c3. h2_feed idle_app out example_client = Inr (int (length out), c3) \<and>
        s_promises c3 0 = Some (promise_default\<lparr>pr_resp := received_response authority_answer, pr_complete := True\<rparr>))"
proof -
  let ?c = "h2_session_new Client ()"
  have c: "s_mode ?c = Client" "s_alive ?c" "s_continuation_stream ?c = 0" "s_streams ?c (s_next_stream_id ?c) = None"
    "0 < s_next_stream_id ?c"
    by (simp_all add: h2_session_new_def enqueue_def)
  obtain c1 where c1: "make_promise promise_default ?c = (0, c1)"
    by (simp add: make_promise_def h2_session_new_def enqueue_def)
  then obtain c' where c': "do_submit_request authority_request (Some 0) False c1 = Inr (1, c')"
    by (auto simp: make_promise_def do_submit_request_def h2_session_new_def enqueue_def Let_def)
  obtain wire where wire: "s_output c' = s_output ?c @ wire"
    using submit_request_wire [OF c'] make_promise_simps(3) [OF c1] by auto
  have ctx: "sc_push_provider hello_server = None"
    by (simp add: hello_server_def builder_build_def builder_route_def builder_new_def server_new_def server_route_def)
  note session = https_idle_new [of hello_server "5 :: nat"]
  have ans: "https_answers True hello_server (received_request authority_request) (s_user (https_session hello_server 5)) authority_answer 6"
    using authority_request_answered [of 5] by (simp add: session)
  have st: "s_streams (https_session hello_server (5 :: nat)) 1 = None" by (simp add: session)
  have code: "- (2 ^ 31) \<le> rs_status authority_answer" "rs_status authority_answer < 2 ^ 31"
    by (simp_all add: authority_answer_def announced_def response_ok_def response_with_def response_build_def Let_def)
  note served = https_request_routed [OF reach_new c c1 c' wire authority_request_codable https_session_reachable [OF ctx] session(1) [OF ctx]
      st ans authority_answer_codable code, of idle_app]
  have client: "awaiting 1 0 promise_default [] response_default [] example_client" "reader_clean (s_reader example_client)"
      "resumes_quietly idle_app promise_default"
    using session_new_clean [of Client "()"]
    by (simp_all add: example_client_def awaiting_def resumes_quietly_def promise_default_def)
       (simp_all add: h2_session_new_def enqueue_def stream_default_def)
  show ?thesis using served client c1 c' by metis
qed

text \<open>
  The table of HTTP/3 connections grows with junk.  A datagram that is not a QUIC packet with a long
  header, from an address without a connection, leaves an entry without a session; the sweep that
  removes dead connections never removes it, whatever arrives from other addresses.
\<close>

theorem h3_junk_entry_stays:
  assumes "data \<noteq> []" and "long_header_cids data = None" and "hs_connections sv key = None"
    and "key \<notin> snd ` set ds" and "serve_h3 q ctx ((data, key) # ds) sv = Some (Inr sv')"
  shows "hs_connections sv' key = Some None"
proof -
  have "drop_dead (hs_connections sv) key = None" using assms(3) by (simp add: drop_dead_def)
  moreover have "init_server_from_packet q data (h3_server_session ctx (hs_user sv)) = (False, h3_server_session ctx (hs_user sv))"
    using assms(2) by (simp add: init_server_from_packet_def h3_server_session_def h3_session_new_def)
  ultimately have "serve_h3_step q ctx data key sv = ret (sv\<lparr>hs_connections := (drop_dead (hs_connections sv))(key := Some None)\<rparr>)"
    using assms(1) by (simp add: serve_h3_step_def)
  then have "serve_h3 q ctx ds (sv\<lparr>hs_connections := (drop_dead (hs_connections sv))(key := Some None)\<rparr>) = Some (Inr sv')"
    using assms(5) by simp
  from serve_h3_keeps_entry [OF this assms(4)] show ?thesis by simp
qed

theorem h3_junk_entry_stays_witness:
  "\<exists>sv'. serve_h3 recorder hello_server [([0], str ''a:1''), ([0], str ''a:2'')]
      \<lparr>hs_connections = (\<lambda>_. None), hs_sent = [], hs_user = 0\<rparr> = ret sv' \<and> hs_connections sv' (str ''a:1'') = Some None"
proof -
  let ?sv = "\<lparr>hs_connections = (\<lambda>_. None), hs_sent = [], hs_user = 0\<rparr>"
  have run: "\<exists>sv'. serve_h3 recorder hello_server [([0], str ''a:1''), ([0], str ''a:2'')] ?sv = Some (Inr sv')"
    by (simp add: serve_h3_step_def drop_dead_def init_server_from_packet_def h3_server_session_def h3_session_new_def
        long_header_cids_def ret_def)
  then obtain sv' where sv': "serve_h3 recorder hello_server [([0], str ''a:1''), ([0], str ''a:2'')] ?sv = Some (Inr sv')" ..
  have "hs_connections sv' (str ''a:1'') = Some None"
    by (rule h3_junk_entry_stays [OF _ _ _ _ sv']) (simp_all add: long_header_cids_def)
  then show ?thesis using sv' by (auto simp: ret_def)
qed

end
