(* ===== verification/Http_Client.thy ===== *)
theory Http_Client
  imports Http_Server
begin

text \<open>
  The HTTP client, \<^verbatim>\<open>src/http/client_impl.cpp\<close> and \<^verbatim>\<open>client.hpp\<close>: the requests made from URLs, the three pools of
  idle connections, exchanges over HTTP/1.1, HTTP/2 and HTTP/3 with reuse and fallback, and the upgrade
  from plain HTTP/1.1 to HTTP/2.  What sockets, TLS and name resolution do is an argument.
\<close>

section \<open>Connections and pools\<close>

text \<open>
  A connection kept for reuse.  The stream of an HTTP/1.1 connection is the TCP socket or the TLS stream on
  it.  For an HTTP/2 connection the sends of its coming flushes are listed (behind the end everything is
  taken at once) and the reads (behind the end the connection is closed).  For an HTTP/3 connection the
  datagrams are listed, an empty one being a receive that timed out.
\<close>

record h1_conn =
  k1_stream :: ws_socket
  k1_is_tls :: bool

record h2_conn =
  k2_session :: "unit h2_session"
  k2_flushes :: "sends list"
  k2_reads :: "bytes list"
  k2_sent :: bytes

record 'q h3_conn =
  k3_session :: "('q, unit) h3_session"
  k3_recv :: "bytes list"
  k3_sent :: "bytes list"

record 'q http_client =
  cl_ssl :: bool
  cl_h1_pool :: "bytes \<rightharpoonup> h1_conn list"
  cl_h2_pool :: "bytes \<rightharpoonup> h2_conn list"
  cl_h3_pool :: "bytes \<rightharpoonup> 'q h3_conn list"

definition client_new :: "bool \<Rightarrow> 'q http_client" where
  "client_new ssl = \<lparr>cl_ssl = ssl, cl_h1_pool = Map.empty, cl_h2_pool = Map.empty, cl_h3_pool = Map.empty\<rparr>"

definition pool_key :: "bytes \<Rightarrow> u16 \<Rightarrow> bool \<Rightarrow> bytes" where
  "pool_key host port tls =
     host @ str '':'' @ nat_to_string (unat port) @ str '':'' @ (if tls then str ''1'' else str ''0'')"

definition pool_push :: "bytes \<Rightarrow> 'a \<Rightarrow> (bytes \<rightharpoonup> 'a list) \<Rightarrow> (bytes \<rightharpoonup> 'a list)" where
  "pool_push key x pool = pool(key \<mapsto> (case pool key of Some v \<Rightarrow> v | None \<Rightarrow> []) @ [x])"

text \<open>A vector from which the last element was taken is erased from the pool when nothing is left.\<close>

definition pool_keep :: "bytes \<Rightarrow> 'a list \<Rightarrow> (bytes \<rightharpoonup> 'a list) \<Rightarrow> (bytes \<rightharpoonup> 'a list)" where
  "pool_keep key v pool = (if v = [] then pool(key := None) else pool(key \<mapsto> v))"

definition return_h1 :: "bytes \<Rightarrow> h1_conn \<Rightarrow> 'q http_client \<Rightarrow> 'q http_client" where
  "return_h1 key conn cl = cl\<lparr>cl_h1_pool := pool_push key conn (cl_h1_pool cl)\<rparr>"

definition take_h1 :: "bytes \<Rightarrow> 'q http_client \<Rightarrow> h1_conn option \<times> 'q http_client" where
  "take_h1 key cl =
     (case cl_h1_pool cl key of
        None \<Rightarrow> (None, cl)
      | Some v \<Rightarrow> if v = [] then (None, cl)
                  else (Some (last v), cl\<lparr>cl_h1_pool := pool_keep key (butlast v) (cl_h1_pool cl)\<rparr>))"

definition close_idle_connections :: "'q http_client \<Rightarrow> 'q http_client" where
  "close_idle_connections cl = cl\<lparr>cl_h1_pool := Map.empty, cl_h2_pool := Map.empty, cl_h3_pool := Map.empty\<rparr>"

section \<open>Requests from URLs\<close>

definition url_target :: "uri \<Rightarrow> bytes" where
  "url_target u = uri_path u @ (if uri_query u = [] then [] else str ''?'' @ uri_query u)"

text \<open>The requests of \<^verbatim>\<open>get\<close>, \<^verbatim>\<open>delete_\<close>, \<^verbatim>\<open>post\<close> and \<^verbatim>\<open>put\<close>.\<close>

definition plain_request :: "http_method \<Rightarrow> uri \<Rightarrow> request" where
  "plain_request m u =
     request_build (request_default\<lparr>rq_method := m, rq_path := url_target u,
       rq_hdrs := [(str ''Host'', uri_host u), (str ''Connection'', str ''keep-alive''), (str ''User-Agent'', str ''async_net/1.0'')]\<rparr>)"

definition body_request :: "http_method \<Rightarrow> uri \<Rightarrow> bytes \<Rightarrow> bytes \<Rightarrow> request" where
  "body_request m u body_text content_type =
     request_build (request_default\<lparr>rq_method := m, rq_path := url_target u,
       rq_hdrs := [(str ''Host'', uri_host u), (str ''Content-Type'', content_type), (str ''Connection'', str ''keep-alive''),
                   (str ''User-Agent'', str ''async_net/1.0'')], rq_bd := body_text\<rparr>)"

section \<open>HTTP/1.1 exchanges\<close>

fun read_response :: "nat \<Rightarrow> bytes \<Rightarrow> ws_socket \<Rightarrow> (response option \<times> ws_socket) run" where
  "read_response 0 buffer sk = ret (None, sk)"
| "read_response (Suc attempts) buffer sk =
     bindR (parse_response buffer) (\<lambda>result.
       case result of
         Some (resp, _) \<Rightarrow> ret (Some resp, sk)
       | None \<Rightarrow>
           (let (chunk, sk1) = async_read_some sk
            in if chunk = []
               then (if buffer = [] then ret (None, sk1)
                     else bindR (parse_response buffer) (\<lambda>last_try. ret (map_option fst last_try, sk1)))
               else read_response attempts (buffer @ chunk) sk1))"

text \<open>The request written and the response read; the first component tells whether writing went well.\<close>

definition exchange_h1 :: "request \<Rightarrow> ws_socket \<Rightarrow> (bool \<times> response option \<times> ws_socket) run" where
  "exchange_h1 req sk =
     (let (ok, sk1) = write_raw (serialize_request req) sk
      in if ok then bindR (read_response 1000 [] sk1) (\<lambda>(resp, sk2). ret (True, resp, sk2)) else ret (False, None, sk1))"

text \<open>When the connection goes back to the pool: the two tests the code has.\<close>

definition keep_reused :: "response \<Rightarrow> bool" where
  "keep_reused resp \<longleftrightarrow> hdrs_get (str ''Connection'') (rs_hdrs resp) = Some (str ''keep-alive'') \<or> rs_ver resp = HTTP_11"

definition keep_new :: "response \<Rightarrow> bool" where
  "keep_new resp \<longleftrightarrow> hdrs_get (str ''Connection'') (rs_hdrs resp) \<noteq> Some (str ''close'')"

text \<open>\<open>None\<close> in the result: no usable connection was in the pool, or the one taken was stale and is gone.\<close>

definition reuse_h1 :: "bool \<Rightarrow> bytes \<Rightarrow> request \<Rightarrow> 'q http_client \<Rightarrow> (response option \<times> 'q http_client) run" where
  "reuse_h1 tls key req cl =
     (case take_h1 key cl of
        (None, cl1) \<Rightarrow> ret (None, cl1)
      | (Some conn, cl1) \<Rightarrow>
          if k1_is_tls conn \<noteq> tls then ret (None, cl1)
          else bindR (exchange_h1 req (k1_stream conn)) (\<lambda>(_, resp, sk).
            case resp of
              None \<Rightarrow> ret (None, cl1)
            | Some r \<Rightarrow>
                ret (Some r, if keep_reused r then return_h1 key (conn\<lparr>k1_stream := sk\<rparr>) cl1 else cl1)))"

section \<open>HTTP/2 exchanges\<close>

definition client_app :: "unit h2_app" where
  "client_app = \<lparr>app_request = (\<lambda>_ req u. Inr (response_default, u)), app_streaming = (\<lambda>_ _ _ u. Inr (False, [], u)),
     app_start = (\<lambda>_ _ _ _ u. Inr (False, [], u)), app_data = (\<lambda>_ _ _ _ u. Inr ([], u)),
     app_push_provider = (\<lambda>_ _ u. Inr ([], u)), app_push = (\<lambda>_ _ u. Inr ([], u)), app_resume = (\<lambda>_ u. ([], u))\<rparr>"

definition conn_flush :: "h2_conn \<Rightarrow> h2_conn run" where
  "conn_flush c =
     (let (sends, later) = (case k2_flushes c of [] \<Rightarrow> ([(int (length (s_output (k2_session c))), [])], []) | f # fs \<Rightarrow> (f, fs))
      in case h2_flush sends (k2_session c) of
           Inl e \<Rightarrow> Some (Inl e)
         | Inr None \<Rightarrow> None
         | Inr (Some (wire, _, s)) \<Rightarrow> ret (c\<lparr>k2_session := s, k2_flushes := later, k2_sent := k2_sent c @ wire\<rparr>))"

definition promise_done :: "nat \<Rightarrow> unit h2_session \<Rightarrow> bool" where
  "promise_done p s = (case s_promises s p of Some pr \<Rightarrow> pr_complete pr | None \<Rightarrow> False)"

fun await_h2 :: "bytes list \<Rightarrow> nat \<Rightarrow> h2_conn \<Rightarrow> h2_conn run" where
  "await_h2 reads p c =
     (if promise_done p (k2_session c) \<or> \<not> s_alive (k2_session c) then ret (c\<lparr>k2_reads := reads\<rparr>)
      else case reads of
             [] \<Rightarrow> ret (c\<lparr>k2_reads := []\<rparr>)
           | r # rs \<Rightarrow>
               if r = [] then ret (c\<lparr>k2_reads := rs\<rparr>)
               else bindR (Some (h2_feed client_app r (k2_session c))) (\<lambda>(_, s).
                    bindR (conn_flush (c\<lparr>k2_session := s\<rparr>)) (await_h2 rs p)))"

declare await_h2.simps [simp del]

definition h2_request :: "bytes \<Rightarrow> request \<Rightarrow> request" where
  "h2_request host req =
     (let r = req\<lparr>rq_ver := HTTP_2\<rparr>
      in if hdrs_contains (str '':authority'') (rq_hdrs r) then r
         else r\<lparr>rq_hdrs := hdrs_set (str '':authority'') host (rq_hdrs r)\<rparr>)"

definition exchange_h2 :: "request \<Rightarrow> h2_conn \<Rightarrow> (response option \<times> h2_conn) run" where
  "exchange_h2 req c =
     (let (p, s1) = make_promise promise_default (k2_session c)
      in bindR (Some (do_submit_request req (Some p) False s1)) (\<lambda>(_, s2).
         bindR (conn_flush (c\<lparr>k2_session := s2\<rparr>)) (\<lambda>c1.
         bindR (await_h2 (k2_reads c1) p c1) (\<lambda>c2.
           ret (case s_promises (k2_session c2) p of
                  Some pr \<Rightarrow> if pr_complete pr \<and> \<not> pr_error pr then Some ((pr_resp pr)\<lparr>rs_ver := HTTP_2\<rparr>) else None
                | None \<Rightarrow> None, c2)))))"

text \<open>
  The search for a usable HTTP/2 session.  The iterator is used again after its entry has been erased,
  when the session taken last from a vector that is now empty was dead or failed.
\<close>

function reuse_h2 :: "bytes \<Rightarrow> request \<Rightarrow> h2_conn list \<Rightarrow> 'q http_client \<Rightarrow> (response option \<times> 'q http_client) run" where
  "reuse_h2 key req v cl =
     (if v = [] then ret (None, cl)
      else let conn = last v; v' = butlast v; cl1 = cl\<lparr>cl_h2_pool := pool_keep key v' (cl_h2_pool cl)\<rparr>;
               next = (if v' = [] then Some (Inl Undefined_Behaviour) else reuse_h2 key req v' cl1)
           in if \<not> s_alive (k2_session conn) then next
              else bindR (exchange_h2 req conn) (\<lambda>(resp, c).
                case resp of
                  None \<Rightarrow> next
                | Some r \<Rightarrow>
                    ret (Some r, if s_alive (k2_session c) then cl1\<lparr>cl_h2_pool := pool_push key c (cl_h2_pool cl1)\<rparr> else cl1)))"
  by pat_completeness auto
termination
  by (relation "measure (\<lambda>(_, _, v, _). length v)") auto

declare reuse_h2.simps [simp del]

section \<open>New connections\<close>

text \<open>What dialling meets: whether TCP connects, whether the TLS handshake succeeds, the protocol it agrees on.\<close>

record dial =
  dl_connects :: bool
  dl_handshakes :: bool
  dl_alpn :: bytes
  dl_stream :: ws_socket
  dl_flushes :: "sends list"

definition connection_failed :: "bytes \<Rightarrow> u16 \<Rightarrow> response" where
  "connection_failed host port =
     response_internal_error (str ''Connection failed to '' @ host @ str '':'' @ nat_to_string (unat port))"

definition h2_conn_new :: "dial \<Rightarrow> ws_socket \<Rightarrow> h2_conn" where
  "h2_conn_new d sk =
     \<lparr>k2_session = h2_session_new Client (), k2_flushes = dl_flushes d, k2_reads = sk_reads sk, k2_sent = sk_sent sk\<rparr>"

definition dial_h2 :: "dial \<Rightarrow> bytes \<Rightarrow> bytes \<Rightarrow> request \<Rightarrow> 'q http_client \<Rightarrow> (response \<times> 'q http_client) run" where
  "dial_h2 d key host req cl =
     (let (ok, sk) = write_raw PREFACE (dl_stream d)
      in if \<not> ok then ret (response_internal_error (str ''Failed to send H2 preface''), cl)
         else bindR (conn_flush (h2_conn_new d sk)) (\<lambda>c.
              bindR (exchange_h2 (h2_request host req) c) (\<lambda>(resp, c1).
                ret (case resp of
                       None \<Rightarrow> (response_internal_error (str ''H2 request incomplete''), cl)
                     | Some r \<Rightarrow>
                         (r, if s_alive (k2_session c1) then cl\<lparr>cl_h2_pool := pool_push key c1 (cl_h2_pool cl)\<rparr> else cl)))))"

definition dial_h1 ::
  "bytes \<Rightarrow> bool \<Rightarrow> bytes \<Rightarrow> request \<Rightarrow> dial \<Rightarrow> 'q http_client \<Rightarrow> (response option \<times> response \<times> ws_socket \<times> 'q http_client) run" where
  "dial_h1 write_error tls key req d cl =
     bindR (exchange_h1 req (dl_stream d)) (\<lambda>(ok, resp, sk).
       ret (if \<not> ok then (None, response_internal_error write_error, sk, cl)
            else case resp of
                   None \<Rightarrow> (None, response_internal_error (str ''Failed to read response''), sk, cl)
                 | Some r \<Rightarrow> (Some r, r, sk, if keep_new r then return_h1 key \<lparr>k1_stream = sk, k1_is_tls = tls\<rparr> cl else cl)))"

definition dial_tls :: "dial \<Rightarrow> bytes \<Rightarrow> bytes \<Rightarrow> u16 \<Rightarrow> request \<Rightarrow> 'q http_client \<Rightarrow> (response \<times> 'q http_client) run" where
  "dial_tls d key host port req cl =
     (if \<not> dl_connects d then ret (connection_failed host port, cl)
      else if \<not> dl_handshakes d then ret (response_internal_error (str ''TLS handshake failed''), cl)
      else if dl_alpn d = str ''h2'' then dial_h2 d key host req cl
      else bindR (dial_h1 (str ''TLS write failed'') True key req d cl) (\<lambda>(_, r, _, cl1). ret (r, cl1)))"

text \<open>Over plain TCP a client built with TLS offers to go on in HTTP/2 and does so when the server agrees.\<close>

definition upgrade_request :: "bool \<Rightarrow> request \<Rightarrow> request" where
  "upgrade_request has_ssl req =
     (if has_ssl
      then req\<lparr>rq_hdrs := hdrs_set (str ''Connection'') (str ''Upgrade,HTTP2-Settings'')
                (hdrs_set (str ''HTTP2-Settings'') (str ''AAMAAABkAAQBAAAAAAIAAAAA'') (hdrs_set (str ''Upgrade'') (str ''h2c'') (rq_hdrs req)))\<rparr>
      else req)"

definition upgraded_h2c :: "dial \<Rightarrow> bytes \<Rightarrow> request \<Rightarrow> ws_socket \<Rightarrow> 'q http_client \<Rightarrow> (response \<times> 'q http_client) run" where
  "upgraded_h2c d host req sk cl =
     bindR (conn_flush (h2_conn_new d sk)) (\<lambda>c.
     bindR (exchange_h2 (h2_request host (req\<lparr>rq_hdrs := hdrs_remove (str ''Connection'')
              (hdrs_remove (str ''HTTP2-Settings'') (hdrs_remove (str ''Upgrade'') (rq_hdrs req)))\<rparr>)) c) (\<lambda>(resp, _).
       ret (case resp of Some r \<Rightarrow> r | None \<Rightarrow> response_internal_error (str ''h2c upgrade request incomplete''), cl)))"

definition dial_plain :: "bool \<Rightarrow> dial \<Rightarrow> bytes \<Rightarrow> bytes \<Rightarrow> u16 \<Rightarrow> request \<Rightarrow> 'q http_client \<Rightarrow> (response \<times> 'q http_client) run" where
  "dial_plain has_ssl d key host port req cl =
     (if \<not> dl_connects d then ret (connection_failed host port, cl)
      else let req1 = upgrade_request has_ssl req
           in bindR (dial_h1 (str ''Write failed'') False key req1 d cl) (\<lambda>(resp, r, sk, cl1).
                if has_ssl \<and> resp \<noteq> None \<and> rs_status r = 101 then upgraded_h2c d host req1 sk cl else ret (r, cl1)))"

section \<open>Sending\<close>

definition client_send ::
  "bool \<Rightarrow> dial \<Rightarrow> bytes \<Rightarrow> u16 \<Rightarrow> request \<Rightarrow> bool \<Rightarrow> 'q http_client \<Rightarrow> (response \<times> 'q http_client) run" where
  "client_send has_ssl d host port req use_tls cl =
     (let key = pool_key host port use_tls;
          req1 = (if hdrs_contains (str ''Host'') (rq_hdrs req) then req
                  else req\<lparr>rq_hdrs := hdrs_set (str ''Host'') host (rq_hdrs req)\<rparr>)
      in if has_ssl \<and> use_tls \<and> cl_ssl cl
         then bindR (reuse_h2 key (h2_request host req1) (case cl_h2_pool cl key of Some v \<Rightarrow> v | None \<Rightarrow> []) cl) (\<lambda>(resp, cl1).
              case resp of
                Some r \<Rightarrow> ret (r, cl1)
              | None \<Rightarrow>
                  bindR (reuse_h1 True key req1 cl1) (\<lambda>(resp, cl2).
                    case resp of Some r \<Rightarrow> ret (r, cl2) | None \<Rightarrow> dial_tls d key host port req1 cl2))
         else bindR (reuse_h1 False key req1 cl) (\<lambda>(resp, cl1).
                case resp of Some r \<Rightarrow> ret (r, cl1) | None \<Rightarrow> dial_plain has_ssl d key host port req1 cl1))"

definition client_send_host :: "bool \<Rightarrow> dial \<Rightarrow> request \<Rightarrow> 'q http_client \<Rightarrow> (response \<times> 'q http_client) run" where
  "client_send_host has_ssl d req cl =
     (case hdrs_get (str ''Host'') (rq_hdrs req) of
        None \<Rightarrow> ret (response_bad_request (str ''Missing Host header''), cl)
      | Some h \<Rightarrow>
          (let u = uri_parse uri_default (str ''http://'' @ h @ rq_path req)
           in client_send has_ssl d (uri_host u) (uri_port u) req False cl))"

section \<open>HTTP/3\<close>

text \<open>Every datagram that is pending is handed to the UDP socket, which takes it whole.\<close>

definition send_pending :: "'q h3_conn \<Rightarrow> 'q h3_conn" where
  "send_pending c =
     (let (pkts, s) = get_pending_packets (k3_session c)
      in c\<lparr>k3_session := s, k3_sent := k3_sent c @ filter (\<lambda>p. p \<noteq> []) pkts\<rparr>)"

text \<open>The receive loop: at most \<open>rounds\<close> receives, and at most ten in a row that time out.\<close>

fun h3_rounds :: "'q quic \<Rightarrow> nat \<Rightarrow> nat \<Rightarrow> nat \<Rightarrow> 'q h3_conn \<Rightarrow> 'q h3_conn run" where
  "h3_rounds q 0 idle p c = ret c"
| "h3_rounds q (Suc rounds) idle p c =
     (if p3_complete (s3_promises (k3_session c) p) \<or> \<not> s3_alive (k3_session c) then ret c
      else let (data, later) = (case k3_recv c of [] \<Rightarrow> ([], []) | d # ds \<Rightarrow> (d, ds)); c = c\<lparr>k3_recv := later\<rparr>
           in if data = []
              then (if 10 < Suc idle then ret c
                    else bindR (handle_expiry q (k3_session c)) (\<lambda>s.
                           h3_rounds q rounds (Suc idle) p (send_pending (c\<lparr>k3_session := s\<rparr>))))
              else bindR (feed_packet q data (k3_session c)) (\<lambda>(_, s).
                   let c1 = send_pending (c\<lparr>k3_session := s\<rparr>)
                   in bindR (handle_expiry q (k3_session c1)) (\<lambda>s.
                        h3_rounds q rounds 0 p (c1\<lparr>k3_session := s\<rparr>))))"

text \<open>A new promise of the session's store.\<close>

definition new_promise3 :: "('q, 'u) h3_session \<Rightarrow> nat \<times> ('q, 'u) h3_session" where
  "new_promise3 s =
     (s3_next_promise s, upd_promise (s3_next_promise s) (\<lambda>_. h3_promise_default) (s\<lparr>s3_next_promise := Suc (s3_next_promise s)\<rparr>))"

definition h3_outcome :: "nat \<Rightarrow> 'q h3_conn \<Rightarrow> response option" where
  "h3_outcome p c =
     (let pr = s3_promises (k3_session c) p
      in if p3_complete pr \<and> \<not> p3_error pr then Some ((p3_resp pr)\<lparr>rs_ver := HTTP_3\<rparr>) else None)"

text \<open>On a pooled session the request is flushed; a new one keeps it until the handshake is complete.\<close>

definition exchange_h3 :: "'q quic \<Rightarrow> bool \<Rightarrow> request \<Rightarrow> 'q h3_conn \<Rightarrow> (response option \<times> 'q h3_conn) run" where
  "exchange_h3 q flush req c =
     (let (p, s1) = new_promise3 (k3_session c)
      in bindR (submit_request3 q req (Some p) s1) (\<lambda>(_, s2).
         let c1 = c\<lparr>k3_session := s2\<rparr>; c2 = (if flush then send_pending c1 else c1)
         in bindR (h3_rounds q 200 0 p c2) (\<lambda>c3. ret (h3_outcome p c3, c3))))"

function reuse_h3 ::
  "'q quic \<Rightarrow> bytes \<Rightarrow> request \<Rightarrow> 'q h3_conn list \<Rightarrow> 'q http_client \<Rightarrow> (response option \<times> 'q http_client) run" where
  "reuse_h3 q key req v cl =
     (if v = [] then ret (None, cl)
      else let conn = last v; v' = butlast v; cl1 = cl\<lparr>cl_h3_pool := pool_keep key v' (cl_h3_pool cl)\<rparr>;
               next = (if v' = [] then Some (Inl Undefined_Behaviour) else reuse_h3 q key req v' cl1)
           in if \<not> s3_alive (k3_session conn) then next
              else bindR (exchange_h3 q True req conn) (\<lambda>(resp, c).
                case resp of
                  None \<Rightarrow> next
                | Some r \<Rightarrow>
                    ret (Some r, if s3_alive (k3_session c) then cl1\<lparr>cl_h3_pool := pool_push key c (cl_h3_pool cl1)\<rparr> else cl1)))"
  by pat_completeness auto
termination
  by (relation "measure (\<lambda>(_, _, _, v, _). length v)") auto

declare reuse_h3.simps [simp del]

text \<open>
  A new connection: whether the name resolves, the QUIC connection \<^verbatim>\<open>init_client\<close> has made, if it could, and the
  datagrams that arrive.
\<close>

record 'q dial3 =
  d3_resolves :: bool
  d3_conn :: "'q option"
  d3_recv :: "bytes list"

definition h3_client_session :: "'q quic \<Rightarrow> 'q option \<Rightarrow> ('q, unit) h3_session run" where
  "h3_client_session q conn =
     (let s = (h3_session_new H3_Client ())\<lparr>s3_conn := conn\<rparr>
      in if conn = None then ret s else bindR (write_packets q s) (\<lambda>(_, s1). ret s1))"

definition h3_timed_out :: response where
  "h3_timed_out = response_internal_error (str ''H3 request timed out or incomplete'')"

definition dial_h3 :: "'q quic \<Rightarrow> 'q dial3 \<Rightarrow> bytes \<Rightarrow> bytes \<Rightarrow> request \<Rightarrow> 'q http_client \<Rightarrow> (response \<times> 'q http_client) run" where
  "dial_h3 q d key host req cl =
     (if \<not> d3_resolves d then ret (response_internal_error (str ''DNS resolution failed for '' @ host), cl)
      else bindR (h3_client_session q (d3_conn d)) (\<lambda>s.
           if \<not> s3_alive s then ret (response_internal_error (str ''H3 session init failed''), cl)
           else bindR (exchange_h3 q False req (send_pending \<lparr>k3_session = s, k3_recv = d3_recv d, k3_sent = []\<rparr>)) (\<lambda>(resp, c).
                  ret (case resp of
                         None \<Rightarrow> (h3_timed_out, cl)
                       | Some r \<Rightarrow>
                           (r, if s3_alive (k3_session c) then cl\<lparr>cl_h3_pool := pool_push key c (cl_h3_pool cl)\<rparr> else cl)))))"

definition h3_request :: "bytes \<Rightarrow> request \<Rightarrow> request" where
  "h3_request host req =
     (let hs = (if hdrs_contains (str ''Host'') (rq_hdrs req) then rq_hdrs req else hdrs_set (str ''Host'') host (rq_hdrs req));
          hs = (if hdrs_contains (str '':authority'') hs then hs else hdrs_set (str '':authority'') host hs)
      in req\<lparr>rq_hdrs := hs, rq_ver := HTTP_3\<rparr>)"

definition send_h3 ::
  "'q quic \<Rightarrow> 'q dial3 \<Rightarrow> bytes \<Rightarrow> u16 \<Rightarrow> request \<Rightarrow> 'q http_client \<Rightarrow> (response \<times> 'q http_client) run" where
  "send_h3 q d host port req cl =
     (let key = pool_key host port True; req1 = h3_request host req
      in bindR (reuse_h3 q key req1 (case cl_h3_pool cl key of Some v \<Rightarrow> v | None \<Rightarrow> []) cl) (\<lambda>(resp, cl1).
           case resp of Some r \<Rightarrow> ret (r, cl1) | None \<Rightarrow> dial_h3 q d key host req1 cl1))"

section \<open>Convenience methods\<close>

definition send_url ::
  "bool \<Rightarrow> bool \<Rightarrow> 'q quic \<Rightarrow> dial \<Rightarrow> 'q dial3 \<Rightarrow> uri \<Rightarrow> request \<Rightarrow> 'q http_client \<Rightarrow> (response \<times> 'q http_client) run" where
  "send_url has_ssl has_h3 q d d3 u req cl =
     (if has_h3 \<and> uri_scheme u = str ''h3'' then send_h3 q d3 (uri_host u) (uri_port u) req cl
      else client_send has_ssl d (uri_host u) (uri_port u) req (is_https u) cl)"

definition client_get ::
  "bool \<Rightarrow> bool \<Rightarrow> 'q quic \<Rightarrow> dial \<Rightarrow> 'q dial3 \<Rightarrow> bytes \<Rightarrow> 'q http_client \<Rightarrow> (response \<times> 'q http_client) run" where
  "client_get has_ssl has_h3 q d d3 url cl =
     (let u = uri_parse uri_default url in send_url has_ssl has_h3 q d d3 u (plain_request GET u) cl)"

definition client_delete ::
  "bool \<Rightarrow> bool \<Rightarrow> 'q quic \<Rightarrow> dial \<Rightarrow> 'q dial3 \<Rightarrow> bytes \<Rightarrow> 'q http_client \<Rightarrow> (response \<times> 'q http_client) run" where
  "client_delete has_ssl has_h3 q d d3 url cl =
     (let u = uri_parse uri_default url in send_url has_ssl has_h3 q d d3 u (plain_request DELETE' u) cl)"

definition client_post ::
  "bool \<Rightarrow> bool \<Rightarrow> 'q quic \<Rightarrow> dial \<Rightarrow> 'q dial3 \<Rightarrow> bytes \<Rightarrow> bytes \<Rightarrow> bytes \<Rightarrow> 'q http_client \<Rightarrow> (response \<times> 'q http_client) run" where
  "client_post has_ssl has_h3 q d d3 url body_text content_type cl =
     (let u = uri_parse uri_default url
      in send_url has_ssl has_h3 q d d3 u (body_request POST u body_text content_type) cl)"

definition client_put ::
  "bool \<Rightarrow> bool \<Rightarrow> 'q quic \<Rightarrow> dial \<Rightarrow> 'q dial3 \<Rightarrow> bytes \<Rightarrow> bytes \<Rightarrow> bytes \<Rightarrow> 'q http_client \<Rightarrow> (response \<times> 'q http_client) run" where
  "client_put has_ssl has_h3 q d d3 url body_text content_type cl =
     (let u = uri_parse uri_default url
      in send_url has_ssl has_h3 q d d3 u (body_request PUT u body_text content_type) cl)"

section \<open>Pools\<close>

text \<open>
  The contract of a pool: connections are kept per key, and the one put in last is taken out first.
\<close>

locale lifo_pool =
  fixes put :: "'k \<Rightarrow> 'a \<Rightarrow> 'c \<Rightarrow> 'c"
    and take_out :: "'k \<Rightarrow> 'c \<Rightarrow> 'a option \<times> 'c"
    and idle :: "'c \<Rightarrow> 'k \<Rightarrow> 'a list"
  assumes idle_put: "idle (put k x c) = (idle c)(k := idle c k @ [x])"
    and take_empty: "idle c k = [] \<Longrightarrow> take_out k c = (None, c)"
    and take_last: "idle c k \<noteq> [] \<Longrightarrow>
      fst (take_out k c) = Some (last (idle c k)) \<and> idle (snd (take_out k c)) = (idle c)(k := butlast (idle c k))"
begin

lemma take_put: "fst (take_out k' (put k x c)) = (if k = k' then Some x else fst (take_out k' c))"
  using take_empty [of c k'] take_empty [of "put k x c" k'] take_last [of c k'] take_last [of "put k x c" k']
  by (cases "idle c k' = []") (auto simp: idle_put)

lemma idle_take_put: "idle (snd (take_out k (put k x c))) = idle c"
  using take_last [of "put k x c" k] by (simp add: idle_put)

lemma take_puts:
  "idle (fold (put k) xs c) = (idle c)(k := idle c k @ xs)"
  by (induction xs arbitrary: c) (auto simp: idle_put)

end

definition idle_h1 :: "'q http_client \<Rightarrow> bytes \<Rightarrow> h1_conn list" where
  "idle_h1 cl key = (case cl_h1_pool cl key of Some v \<Rightarrow> v | None \<Rightarrow> [])"

interpretation h1_pool: lifo_pool return_h1 take_h1 idle_h1
  by unfold_locales
     (auto simp: return_h1_def take_h1_def idle_h1_def pool_push_def pool_keep_def fun_eq_iff split: option.splits if_splits)

text \<open>Port and flag can be read off the end of a key, because neither contains a colon.\<close>

lemma split_at_last_colon:
  fixes c :: 'a
  assumes "c \<notin> set a" and "c \<notin> set b" and "x @ c # a = y @ c # b"
  shows "x = y \<and> a = b"
proof -
  have tail: "takeWhile (\<lambda>z. z \<noteq> c) (rev (w @ c # v)) = rev v" if "c \<notin> set v" for v w :: "'a list"
    using that by (induction v rule: rev_induct) auto
  have "a = b" using tail [OF assms(1), of x] tail [OF assms(2), of y] assms(3) by (metis rev_rev_ident)
  then show ?thesis using assms(3) by simp
qed

lemma port_no_colon: "0x3A \<notin> set (nat_to_string n)"
  by (rule number_no_char) (simp add: digit_val_def)

lemma pool_key_inject: "pool_key h p t = pool_key h' p' t' \<longleftrightarrow> h = h' \<and> p = p' \<and> t = t'"
proof
  assume eq: "pool_key h p t = pool_key h' p' t'"
  let ?f = "\<lambda>t. if t then str ''1'' else str ''0''"
  have f: "0x3A \<notin> set (?f t)" for t by simp
  have "(h @ 0x3A # nat_to_string (unat p)) @ 0x3A # ?f t = (h' @ 0x3A # nat_to_string (unat p')) @ 0x3A # ?f t'"
    using eq by (simp add: pool_key_def)
  then have 1: "h @ 0x3A # nat_to_string (unat p) = h' @ 0x3A # nat_to_string (unat p')" "?f t = ?f t'"
    using split_at_last_colon [OF f f] by blast+
  then have "h = h' \<and> nat_to_string (unat p) = nat_to_string (unat p')"
    using split_at_last_colon [OF port_no_colon port_no_colon] by blast
  moreover from this have "unat p = unat p'" using read_nat_to_string by metis
  moreover have "t = t'" using 1(2) by (simp split: if_splits)
  ultimately show "h = h' \<and> p = p' \<and> t = t'" by (simp add: word_unat_eq_iff)
qed simp

section \<open>Reading responses\<close>

definition response_told :: "response \<Rightarrow> bool" where
  "response_told resp \<longleftrightarrow> response_ok1 resp \<and> content_length (rs_hdrs resp) \<noteq> None"

lemma parse_response_prefix:
  assumes "response_told resp" and "n < length (serialize_response resp)"
  shows "parse_response (take n (serialize_response resp)) = Some (Inr None)"
proof (cases "n < length (head_bytes (status_line resp) (rs_hdrs resp))")
  case True
  have "list_all header_ok (rs_hdrs resp)" using assms(1) by (simp add: response_told_def response_ok1_def)
  with True show ?thesis
    using assms(1) head_found(4) [OF status_line_parses(2), of resp "rs_hdrs resp" n "rs_bd resp"]
    by (simp add: serialize_response_head parse_response_def response_told_def)
next
  case False
  define m where "m = n - length (head_bytes (status_line resp) (rs_hdrs resp))"
  have told: "length_told (rs_hdrs resp) (rs_bd resp)" using assms by (simp add: response_told_def response_ok1_def)
  have "m < length (rs_bd resp)" using False assms(2) by (simp add: m_def serialize_response_head)
  then show ?thesis
    using False assms(1) parse_response_head [of resp "take m (rs_bd resp)"] parse_body_told(2) [OF told]
    by (simp add: serialize_response_head m_def response_told_def)
qed

interpretation responses: message_reader parse_response read_response serialize_response response_told
  by unfold_locales (auto simp: parse_printed_response parse_response_prefix response_told_def ret_def)

text \<open>An exchange over a stream that takes what is written and delivers the response in pieces.\<close>

lemma exchange_h1_answered:
  assumes "writable sk" and "response_told resp" and "[] \<notin> set cs" and "length cs < 1000"
    and "concat cs = serialize_response resp" and "sk_reads sk = cs @ later"
  shows "\<exists>sk'. exchange_h1 req sk = ret (True, Some resp, sk') \<and> sk_sent sk' = sk_sent sk @ serialize_request req \<and>
    sk_reads sk' = later \<and> writable sk'"
proof -
  obtain sk1 where sk1: "write_raw (serialize_request req) sk = (True, sk1)" "sk_sent sk1 = sk_sent sk @ serialize_request req"
    "sk_reads sk1 = cs @ later" "set (sk_accepts sk1) \<subseteq> set (sk_accepts sk)"
    using write_raw_sent [of sk "serialize_request req"] assms(1,6) by (auto simp: writable_def)
  have ne: "cs \<noteq> []" using assms(5) by (auto simp: serialize_response_def crlf_def)
  then have "concat cs = concat (butlast cs) @ last cs" by (metis append_butlast_last_id concat_append concat.simps append_Nil2)
  moreover have "last cs \<noteq> []" using ne assms(3) last_in_set by metis
  ultimately have "length (concat (butlast cs)) < length (serialize_response resp)" using assms(5) by auto
  then have "read_response 1000 [] sk1 = ret (Some resp, sk1\<lparr>sk_reads := later\<rparr>)"
    using assms ne sk1(3) by (intro responses.reader_pieces [where cs = cs and rest = "[]"]) auto
  then show ?thesis using sk1 assms(1) by (auto simp: exchange_h1_def writable_def)
qed

section \<open>Theorems\<close>

text \<open>The bytes a client writes for a request arrive in pieces: those of a request that has no query of its own.\<close>

definition arrives :: "request \<Rightarrow> bytes list \<Rightarrow> bytes \<Rightarrow> bool" where
  "arrives req cs rest \<longleftrightarrow> request_ok req \<and> rq_query req = [] \<and> [] \<notin> set cs \<and> length cs < 1000 \<and> cs \<noteq> [] \<and>
     concat cs = serialize_request req @ rest \<and> length (concat (butlast cs)) < length (serialize_request req)"

lemma arrives_pieces: "arrives req cs rest \<longleftrightarrow> rq_query req = [] \<and> pieces_of req cs rest"
  by (auto simp: arrives_def pieces_of_def request_wire_plain)

text \<open>A request with the headers a new plain connection adds, and what the server keeps of the connection.\<close>

definition with_host :: "bytes \<Rightarrow> request \<Rightarrow> request" where
  "with_host host req =
     (if hdrs_contains (str ''Host'') (rq_hdrs req) then req
      else req\<lparr>rq_hdrs := hdrs_set (str ''Host'') host (rq_hdrs req)\<rparr>)"

lemma upgrade_request_closes: "\<not> keeps (upgrade_request True req)"
proof -
  have "hdrs_get (str ''Connection'') (rq_hdrs (upgrade_request True req)) = Some (str ''Upgrade,HTTP2-Settings'')"
    unfolding upgrade_request_def by (simp add: hdrs.get_set del: str_simps)
  then show ?thesis by (simp add: keeps_def is_keep_alive_def to_lower_def tolower_def)
qed

lemma finished_connection:
  "hdrs_get (str ''Connection'') (rs_hdrs (finish_response h3 port keep resp)) =
     Some (if keep then str ''keep-alive'' else str ''close'')"
proof -
  have "to_lower (str ''Connection'') \<noteq> to_lower (str ''Alt-Svc'')" "to_lower (str ''Connection'') \<noteq> to_lower (str ''Content-Length'')"
    by (simp_all add: to_lower_def tolower_def)
  then show ?thesis by (simp add: finish_response_def alt_svc_def hdrs.get_set Let_def del: str_simps)
qed

lemma client_send_new_plain:
  assumes "idle_h1 cl (pool_key host port False) = []" and "dl_connects d"
    and "exchange_h1 (upgrade_request has_ssl (with_host host req)) (dl_stream d) = ret (True, Some out, sk)"
    and "rs_status out \<noteq> 101"
  shows "client_send has_ssl d host port req False cl =
    ret (out, if keep_new out then return_h1 (pool_key host port False) \<lparr>k1_stream = sk, k1_is_tls = False\<rparr> cl else cl)"
  using assms
  by (simp add: client_send_def reuse_h1_def h1_pool.take_empty dial_plain_def dial_h1_def with_host_def Let_def
      del: str_simps)

text \<open>
  C3: A complete HTTP/1.1 exchange of this library's client with this library's server over a new
  plain connection.  The client writes its request, with the headers it adds, and nothing else; however
  these bytes and the answer are cut on the way, the server runs the routed handler once, and the client
  returns the handler's response with the server's headers.  The connection is pooled exactly when the
  server keeps it, and a client that was built with TLS never gets that far: its offer to upgrade makes
  the server close the connection after every response.
\<close>

theorem http1_exchange:
  assumes "idle_h1 cl (pool_key host port False) = []" and "dl_connects d" and "writable (dl_stream d)"
    and req1: "req1 = upgrade_request has_ssl (with_host host req)"
    and "arrives req1 ps []" and "no_upgrade ctx req1"
    and "http_dispatch ctx req1 u = Inr (resp, u')"
    and out: "out = finish_response h3 (sc_port ctx) (keeps req1) resp"
    and "response_told out" and "rs_status out \<noteq> 101"
    and "sk_reads (dl_stream d) = cs" and "[] \<notin> set cs" and "length cs < 1000" and "concat cs = serialize_response out"
    and "sk_reads (hc_stream c) = ps" and "writable (hc_stream c)"
  shows "bindR (keep_alive_loop h3 False ctx [] c u) (\<lambda>r. ret (seen r)) = ret (sk_sent (hc_stream c) @ concat cs, True, u') \<and>
    (\<exists>sk. sk_sent sk = sk_sent (dl_stream d) @ concat ps \<and>
      client_send has_ssl d host port req False cl =
        ret (out, if keeps req1 then return_h1 (pool_key host port False) \<lparr>k1_stream = sk, k1_is_tls = False\<rparr> cl else cl)) \<and>
    (has_ssl \<longrightarrow> \<not> keeps req1)"
proof (intro conjI)
  have "bindR (keep_alive_loop h3 False ctx [] c u) (\<lambda>r. ret (seen r)) =
      Some (bindE (serve_all h3 ctx [req1] u) (\<lambda>(out, u'). Inr (sk_sent (hc_stream c) @ out, True, u')))"
    using assms arrives_pieces by (intro keep_alive_serves_requests [where css = "[ps]"]) auto
  then show "bindR (keep_alive_loop h3 False ctx [] c u) (\<lambda>r. ret (seen r)) = ret (sk_sent (hc_stream c) @ concat cs, True, u')"
    using assms by (simp add: ret_def Let_def)
  obtain sk where "exchange_h1 req1 (dl_stream d) = ret (True, Some out, sk)"
      "sk_sent sk = sk_sent (dl_stream d) @ serialize_request req1"
    using exchange_h1_answered [where later = "[]" and cs = cs and resp = out and req = req1 and sk = "dl_stream d"] assms by auto
  moreover have "concat ps = serialize_request req1" using assms(5) by (simp add: arrives_def)
  moreover have "keep_new out = keeps req1" unfolding out keep_new_def finished_connection by simp
  ultimately show "\<exists>sk. sk_sent sk = sk_sent (dl_stream d) @ concat ps \<and>
      client_send has_ssl d host port req False cl =
        ret (out, if keeps req1 then return_h1 (pool_key host port False) \<lparr>k1_stream = sk, k1_is_tls = False\<rparr> cl else cl)"
    using client_send_new_plain [OF assms(1,2), of has_ssl req out sk] assms(10) req1 by auto
  show "has_ssl \<longrightarrow> \<not> keeps req1" using upgrade_request_closes req1 by auto
qed

text \<open>
  A pooled connection is handed out only for the host, port and kind of transport it was opened
  for, and the one returned last comes first.
\<close>

theorem pooled_connection_same_origin:
  "fst (take_h1 (pool_key host' port' tls') (return_h1 (pool_key host port tls) conn cl)) =
     (if host = host' \<and> port = port' \<and> tls = tls' then Some conn else fst (take_h1 (pool_key host' port' tls') cl))"
  by (simp add: h1_pool.take_put pool_key_inject)

lemma reuse_h2_dead:
  "v \<noteq> [] \<Longrightarrow> list_all (\<lambda>c. \<not> s_alive (k2_session c)) v \<Longrightarrow> reuse_h2 key req v cl = Some (Inl Undefined_Behaviour)"
proof (induction v arbitrary: cl rule: length_induct)
  case (1 v)
  have dead: "\<not> s_alive (k2_session (last v))" "list_all (\<lambda>c. \<not> s_alive (k2_session c)) (butlast v)"
    using 1(2,3) by (auto simp: list_all_iff dest: in_set_butlastD)
  show ?case
    using 1 dead by (subst reuse_h2.simps) (auto simp: Let_def)
qed

text \<open>
  When every pooled HTTP/2 session of a server has died, the next request to it is undefined
  behaviour: the search goes on with an iterator whose entry it has just erased.
\<close>

theorem stale_h2_pool_undefined:
  assumes "cl_ssl cl" and "cl_h2_pool cl (pool_key host port True) = Some v" and "v \<noteq> []"
    and "list_all (\<lambda>c. \<not> s_alive (k2_session c)) v"
  shows "client_send True d host port req True cl = Some (Inl Undefined_Behaviour)"
  using assms by (simp add: client_send_def reuse_h2_dead Let_def)

text \<open>
  A connection that is being reused goes back to the pool although the server has said that it
  closes it, whenever the response is an HTTP/1.1 one; on a new connection the same response would not
  put it there.
\<close>

theorem closing_connection_pooled:
  assumes "idle_h1 cl key = v @ [conn]" and "k1_is_tls conn = tls"
    and "exchange_h1 req (k1_stream conn) = ret (True, Some r, sk)"
    and "hdrs_get (str ''Connection'') (rs_hdrs r) = Some (str ''close'')" and "rs_ver r = HTTP_11"
  shows "\<not> keep_new r \<and> (\<exists>cl'. reuse_h1 tls key req cl = ret (Some r, cl') \<and> idle_h1 cl' key = v @ [conn\<lparr>k1_stream := sk\<rparr>])"
proof -
  obtain cl1 where "take_h1 key cl = (Some conn, cl1)" "idle_h1 cl1 key = v"
    using h1_pool.take_last [of cl key] assms(1) by (cases "take_h1 key cl") auto
  then show ?thesis
    using assms(2-5) by (simp add: reuse_h1_def keep_reused_def keep_new_def h1_pool.idle_put)
qed

definition closing_response :: response where
  "closing_response = response_default\<lparr>rs_hdrs := [(str ''Connection'', str ''close''), (str ''Content-Length'', str ''0'')]\<rparr>"

lemma closing_response_told: "response_told closing_response"
  by (simp add: response_told_def response_ok1_def closing_response_def response_default_def header_ok_def is_blank_def
      length_told_def is_chunked_def content_length_def to_lower_def tolower_def from_chars_signed_def digit_val_def)

definition reused_conn :: h1_conn where
  "reused_conn = \<lparr>k1_stream = \<lparr>sk_reads = [serialize_response closing_response], sk_accepts = [], sk_sent = []\<rparr>, k1_is_tls = False\<rparr>"

theorem closing_connection_pooled_witness:
  "\<exists>sk cl'. reuse_h1 False (str ''k'') request_default (return_h1 (str ''k'') reused_conn (client_new False :: unit http_client)) =
     ret (Some closing_response, cl') \<and> idle_h1 cl' (str ''k'') = [reused_conn\<lparr>k1_stream := sk\<rparr>]"
proof -
  let ?cl = "return_h1 (str ''k'') reused_conn (client_new False :: unit http_client)"
  have idle: "idle_h1 ?cl (str ''k'') = [] @ [reused_conn]"
    unfolding h1_pool.idle_put by (simp add: idle_h1_def client_new_def)
  have "serialize_response closing_response \<noteq> []" by (simp add: serialize_response_def crlf_def)
  then obtain sk where "exchange_h1 request_default (k1_stream reused_conn) = ret (True, Some closing_response, sk)"
    using exchange_h1_answered [where sk = "k1_stream reused_conn" and later = "[]" and cs = "[serialize_response closing_response]" and
        resp = closing_response and req = request_default] closing_response_told
    by (auto simp: reused_conn_def writable_def)
  from closing_connection_pooled [OF idle _ this, of False]
  show ?thesis by (auto simp: reused_conn_def closing_response_def response_default_def to_lower_def tolower_def)
qed

section \<open>HTTP/3\<close>

lemma rounds_without_connection:
  assumes "s3_conn (k3_session c) = None" and "\<not> p3_complete (s3_promises (k3_session c) p)"
  shows "\<exists>c'. h3_rounds q rounds idle p c = ret c' \<and> \<not> p3_complete (s3_promises (k3_session c') p)"
  using assms
proof (induction rounds arbitrary: idle c)
  case (Suc rounds)
  then show ?case
    by (auto simp: Let_def feed_packet_def handle_expiry_def send_pending_def get_pending_packets_def split: list.splits)
qed simp

text \<open>
  When the QUIC connection could not be set up, a new HTTP/3 request does not report that: whatever
  arrives, it waits for up to eleven receive timeouts and answers that it timed out.  The answer
  \<^verbatim>\<open>H3 session init failed\<close> is never given.
\<close>

theorem h3_setup_failure_unreported:
  fixes q :: "'q quic"
  assumes "d3_resolves d" and "d3_conn d = None"
  shows "dial_h3 q d key host req cl = ret (h3_timed_out, cl)"
proof -
  let ?s = "(h3_session_new H3_Client () :: ('q, unit) h3_session)\<lparr>s3_conn := None\<rparr>"
  let ?c = "send_pending \<lparr>k3_session = ?s, k3_recv = d3_recv d, k3_sent = []\<rparr>"
  have c: "s3_conn (k3_session ?c) = None" "\<not> p3_complete (s3_promises (k3_session ?c) p)" "s3_alive ?s" for p
    by (simp_all add: send_pending_def get_pending_packets_def h3_session_new_def h3_promise_default_def)
  obtain p s1 where p: "new_promise3 (k3_session ?c) = (p, s1)" by force
  then have s1: "s3_conn s1 = None" "\<not> p3_complete (s3_promises s1 p)"
    using c by (auto simp: new_promise3_def upd_promise_def h3_promise_default_def)
  from rounds_without_connection [of "?c\<lparr>k3_session := s1\<rparr>" p q 200 0] s1
  have "\<exists>c'. exchange_h3 q False req ?c = ret (None, c')"
    by (auto simp: exchange_h3_def p submit_request3_def h3_outcome_def Let_def)
  then show ?thesis using assms c(3) by (auto simp: dial_h3_def h3_client_session_def Let_def)
qed

theorem h3_setup_failure_unreported_witness:
  "dial_h3 recorder \<lparr>d3_resolves = True, d3_conn = None, d3_recv = [[1, 2], []]\<rparr> (str ''k'') (str ''h'') request_default (client_new True) =
     ret (h3_timed_out, client_new True)"
  by (rule h3_setup_failure_unreported) simp_all

definition echo_out :: response where
  "echo_out = finish_response True 80 True (response_ok [13, 10])"

lemma echo_out_told: "response_told echo_out" "rs_status echo_out \<noteq> 101"
  by code_simp+

definition dial_example :: dial where
  "dial_example = \<lparr>dl_connects = True, dl_handshakes = False, dl_alpn = [],
     dl_stream = \<lparr>sk_reads = [serialize_response echo_out], sk_accepts = [5], sk_sent = []\<rparr>, dl_flushes = []\<rparr>"

theorem http1_exchange_witness:
  "\<exists>sk. sk_sent sk = serialize_request post_example \<and>
     client_send False dial_example (str ''h'') 80 post_example False (client_new False :: unit http_client) =
       ret (echo_out, return_h1 (pool_key (str ''h'') 80 False) \<lparr>k1_stream = sk, k1_is_tls = False\<rparr> (client_new False))"
proof -
  let ?c = "two_requests\<lparr>hc_stream := \<lparr>sk_reads = [serialize_request post_example], sk_accepts = [], sk_sent = []\<rparr>\<rparr>"
  have req: "post_example = upgrade_request False (with_host (str ''h'') post_example)"
    by (simp add: upgrade_request_def with_host_def post_example_def hdrs_contains_def to_lower_def tolower_def)
  have port: "sc_port hello_server = 80"
    by (simp add: hello_server_def builder_build_def builder_route_def builder_new_def server_new_def server_route_def)
  have out: "echo_out = finish_response True (sc_port hello_server) (keeps post_example) (response_ok [13, 10])"
    by (simp add: echo_out_def post_example_keeps port)
  have ne: "serialize_response echo_out \<noteq> []" by (simp add: serialize_response_def crlf_def)
  have pieces: "arrives post_example [serialize_request post_example] []"
    using post_example_pieces(2) by (simp only: arrives_pieces) (simp add: post_example_def)
  show ?thesis
    using http1_exchange [OF _ _ _ req pieces post_example_keeps(2) post_example_served out echo_out_told,
        of "client_new False :: unit http_client" 80 dial_example "[serialize_response echo_out]" ?c 0] ne
    by (simp add: idle_h1_def client_new_def dial_example_def writable_def post_example_keeps del: str_simps)
qed

definition dead_conn :: h2_conn where
  "dead_conn = \<lparr>k2_session = (h2_session_new Client ())\<lparr>s_alive := False\<rparr>, k2_flushes = [], k2_reads = [], k2_sent = []\<rparr>"

definition stale_client :: "unit http_client" where
  "stale_client = (client_new True)\<lparr>cl_h2_pool := [pool_key (str ''h'') 443 True \<mapsto> [dead_conn]]\<rparr>"

theorem stale_h2_pool_undefined_witness:
  "client_send True dial_example (str ''h'') 443 request_default True stale_client = Some (Inl Undefined_Behaviour)"
  by (rule stale_h2_pool_undefined [where v = "[dead_conn]"]) (simp_all add: stale_client_def client_new_def dead_conn_def)

end
