(* ===== verification/Executors.thy ===== *)
theory Executors
  imports Net_Prelude
begin

text \<open>
  The thread pool of \<^verbatim>\<open>include/async_net/detail/thread_pool.hpp\<close> and the strand of
  \<^verbatim>\<open>include/async_net/executor/strand.hpp\<close>.  Their critical sections, which hold the mutex, are atomic
  operations on a record; threads are interleaved arbitrarily by step relations.  A worker of the pool that
  finds nothing to do sleeps until a notification of the condition variable, or nothing at all, wakes it; a
  notification is under way from the critical section that causes it until it is delivered.  A task is what its
  identity says; it may post further tasks, which is a step of its own.  The records carry the tasks
  accepted and started so far.
\<close>

section \<open>First in, first out\<close>

text \<open>
  The contract of an executor that starts what it accepted in order: the tasks started and those
  waiting are, in this order, the tasks accepted.
\<close>

locale fifo_executor =
  fixes step :: "'s \<Rightarrow> 's \<Rightarrow> bool"
    and accepted :: "'s \<Rightarrow> 'a list"
    and started :: "'s \<Rightarrow> 'a list"
    and waiting :: "'s \<Rightarrow> 'a list"
  assumes step_fifo: "step s s' \<Longrightarrow> started s @ waiting s = accepted s \<Longrightarrow> started s' @ waiting s' = accepted s'"
    and accepted_grows: "step s s' \<Longrightarrow> \<exists>more. accepted s' = accepted s @ more"
begin

lemma steps_fifo:
  assumes "step\<^sup>*\<^sup>* s s'" and "started s @ waiting s = accepted s"
  shows "started s' @ waiting s' = accepted s' \<and> (\<exists>more. accepted s' = accepted s @ more)"
  using assms
proof (induction rule: rtranclp_induct)
  case (step y z)
  then show ?case using step_fifo accepted_grows by fastforce
qed simp

end

section \<open>Threads\<close>

lemma finite_dom_upd:
  assumes "finite (dom m)"
  shows "finite (dom (m(i := x)))" and "finite (dom (\<lambda>a. if a = i then x else m a))"
  by (rule finite_subset [of _ "insert i (dom m)"], use assms in \<open>auto split: if_splits\<close>)+

text \<open>What is left to do by the threads of a map, each weighed by what it is at.\<close>

definition threads_weight :: "('w \<Rightarrow> nat) \<Rightarrow> (nat \<rightharpoonup> 'w) \<Rightarrow> nat" where
  "threads_weight w m = (\<Sum>i\<in>dom m. w (the (m i)))"

lemma threads_weight_upd:
  assumes "finite (dom m)" and "m i = Some x"
  shows "threads_weight w (m(i \<mapsto> y)) + w x = threads_weight w m + w y"
    and "threads_weight w (m(i := None)) + w x = threads_weight w m"
proof -
  have i: "i \<in> dom m" using assms by auto
  have rest: "(\<Sum>j\<in>dom m - {i}. w (the ((m(i := z)) j))) = (\<Sum>j\<in>dom m - {i}. w (the (m j)))" for z
    by (rule sum.cong) auto
  have all: "threads_weight w m = w x + (\<Sum>j\<in>dom m - {i}. w (the (m j)))"
    unfolding threads_weight_def using sum.remove [OF assms(1) i, of "\<lambda>j. w (the (m j))"] assms(2) by simp
  have "threads_weight w (m(i \<mapsto> y)) = w y + (\<Sum>j\<in>dom m - {i}. w (the (m j)))"
    unfolding threads_weight_def
    using sum.remove [of "dom (m(i \<mapsto> y))" i "\<lambda>j. w (the ((m(i \<mapsto> y)) j))"] assms(1) i rest [of "Some y"]
    by (simp add: insert_absorb)
  then show "threads_weight w (m(i \<mapsto> y)) + w x = threads_weight w m + w y" using all by simp
  have "threads_weight w (m(i := None)) = (\<Sum>j\<in>dom m - {i}. w (the (m j)))"
    unfolding threads_weight_def using rest [of None] by simp
  then show "threads_weight w (m(i := None)) + w x = threads_weight w m" using all by simp
qed

lemma threads_weight_new:
  assumes "finite (dom m)" and "m i = None"
  shows "threads_weight w (m(i \<mapsto> y)) = threads_weight w m + w y"
proof -
  have "threads_weight w ((m(i \<mapsto> y))(i := None)) + w y = threads_weight w (m(i \<mapsto> y))"
    by (rule threads_weight_upd) (use assms in auto)
  moreover have "(m(i \<mapsto> y))(i := None) = m" using assms(2) by (auto simp: fun_eq_iff)
  ultimately show ?thesis by simp
qed

text \<open>Steps that lower a measure under an invariant do not go on for ever.\<close>

lemma no_infinite_run:
  fixes mu :: "'s \<Rightarrow> nat"
  assumes "\<And>s s'. work s s' \<Longrightarrow> ok s \<Longrightarrow> ok s' \<and> mu s' < mu s" and "ok (run 0)"
  shows "\<exists>i. \<not> work (run i) (run (Suc i))"
proof (rule ccontr)
  assume "\<nexists>i. \<not> work (run i) (run (Suc i))"
  then have work: "work (run i) (run (Suc i))" for i by blast
  have ok: "ok (run i)" for i by (induction i) (use assms work in blast)+
  have "mu (run i) + i \<le> mu (run 0)" for i
  proof (induction i)
    case (Suc i)
    then show ?case using assms(1) [OF work ok, of i] by simp
  qed simp
  from this [of "Suc (mu (run 0))"] show False by simp
qed

section \<open>Thread pool\<close>

text \<open>
  A worker is about to take the mutex and look at the predicate, sleeps on the condition variable, or runs a
  task.  A call of \<^verbatim>\<open>post\<close>, \<^verbatim>\<open>submit\<close> or \<^verbatim>\<open>stop\<close> is two steps: its critical section, and the notification after the
  mutex is released; \<open>tp_notify_one\<close> and \<open>tp_notify_all\<close> count the calls that are between them.  A notification
  wakes only workers that sleep at that moment.
\<close>

datatype 'a worker = Checking | Asleep | Busy 'a

record 'a thread_pool =
  tp_tasks :: "'a list"
  tp_stop :: bool
  tp_workers :: "nat \<rightharpoonup> 'a worker"
  tp_notify_one :: nat
  tp_notify_all :: nat
  tp_accepted :: "'a list"
  tp_started :: "'a list"

definition pool_new :: "nat \<Rightarrow> 'a thread_pool" where
  "pool_new num_threads =
     \<lparr>tp_tasks = [], tp_stop = False,
      tp_workers = (\<lambda>i. if i < (if num_threads = 0 then 1 else num_threads) then Some Checking else None),
      tp_notify_one = 0, tp_notify_all = 0, tp_accepted = [], tp_started = []\<rparr>"

definition pool_post :: "'a \<Rightarrow> 'a thread_pool \<Rightarrow> 'a thread_pool" where
  "pool_post f p =
     (if tp_stop p then p
      else p\<lparr>tp_tasks := tp_tasks p @ [f], tp_accepted := tp_accepted p @ [f], tp_notify_one := tp_notify_one p + 1\<rparr>)"

definition pool_submit :: "'a \<Rightarrow> 'a thread_pool \<Rightarrow> 'a thread_pool res" where
  "pool_submit f p =
     (if tp_stop p then Inl (Runtime_Error ''Cannot submit to stopped thread pool'')
      else Inr (p\<lparr>tp_tasks := tp_tasks p @ [f], tp_accepted := tp_accepted p @ [f], tp_notify_one := tp_notify_one p + 1\<rparr>))"

text \<open>\<^verbatim>\<open>stop\<close> up to \<^verbatim>\<open>notify_all\<close>; then it joins the workers, which it can when none is left.\<close>

definition pool_stop :: "'a thread_pool \<Rightarrow> 'a thread_pool" where
  "pool_stop p = p\<lparr>tp_stop := True, tp_notify_all := tp_notify_all p + 1\<rparr>"

definition pool_joined :: "'a thread_pool \<Rightarrow> bool" where
  "pool_joined p \<longleftrightarrow> tp_stop p \<and> tp_notify_all p = 0 \<and> tp_workers p = Map.empty"

text \<open>What \<^verbatim>\<open>condition_.notify_one\<close> does when it wakes worker \<open>i\<close>, if any is asleep, and \<^verbatim>\<open>condition_.notify_all\<close>.\<close>

definition wake :: "'a worker \<Rightarrow> 'a worker" where
  "wake w = (case w of Asleep \<Rightarrow> Checking | _ \<Rightarrow> w)"

definition notify_one :: "nat option \<Rightarrow> 'a thread_pool \<Rightarrow> 'a thread_pool" where
  "notify_one woken p =
     p\<lparr>tp_notify_one := tp_notify_one p - 1,
       tp_workers := (case woken of None \<Rightarrow> tp_workers p | Some i \<Rightarrow> (tp_workers p)(i \<mapsto> Checking))\<rparr>"

definition notify_all :: "'a thread_pool \<Rightarrow> 'a thread_pool" where
  "notify_all p = p\<lparr>tp_notify_all := tp_notify_all p - 1, tp_workers := map_option wake \<circ> tp_workers p\<rparr>"

text \<open>One pass of \<^verbatim>\<open>worker_loop\<close> through its critical section, which ends in \<^verbatim>\<open>wait\<close> when the predicate is false.\<close>

definition worker_pass :: "nat \<Rightarrow> 'a thread_pool \<Rightarrow> 'a thread_pool" where
  "worker_pass i p =
     (if \<not> (tp_stop p \<or> tp_tasks p \<noteq> []) then p\<lparr>tp_workers := (tp_workers p)(i \<mapsto> Asleep)\<rparr>
      else case tp_tasks p of
             [] \<Rightarrow> p\<lparr>tp_workers := (tp_workers p)(i := None)\<rparr>
           | f # fs \<Rightarrow> p\<lparr>tp_tasks := fs, tp_workers := (tp_workers p)(i \<mapsto> Busy f), tp_started := tp_started p @ [f]\<rparr>)"

text \<open>The steps of the workers and of the calls under way, which go on whether or not anything is posted.\<close>

inductive pool_work :: "'a thread_pool \<Rightarrow> 'a thread_pool \<Rightarrow> bool" where
  work_pass: "tp_workers p i = Some Checking \<Longrightarrow> pool_work p (worker_pass i p)"
| work_done: "tp_workers p i = Some (Busy f) \<Longrightarrow> pool_work p (p\<lparr>tp_workers := (tp_workers p)(i \<mapsto> Checking)\<rparr>)"
| work_notify: "0 < tp_notify_one p \<Longrightarrow> tp_workers p i = Some Asleep \<Longrightarrow> pool_work p (notify_one (Some i) p)"
| work_notify_none: "0 < tp_notify_one p \<Longrightarrow> \<nexists>i. tp_workers p i = Some Asleep \<Longrightarrow> pool_work p (notify_one None p)"
| work_notify_all: "0 < tp_notify_all p \<Longrightarrow> pool_work p (notify_all p)"

inductive_cases pool_workE: "pool_work p p'"

text \<open>With the calls of clients and spurious wake-ups.\<close>

inductive pool_step :: "'a thread_pool \<Rightarrow> 'a thread_pool \<Rightarrow> bool" where
  step_post: "pool_step p (pool_post f p)"
| step_submit: "pool_submit f p = Inr p' \<Longrightarrow> pool_step p p'"
| step_stop: "pool_step p (pool_stop p)"
| step_spurious: "tp_workers p i = Some Asleep \<Longrightarrow> pool_step p (p\<lparr>tp_workers := (tp_workers p)(i \<mapsto> Checking)\<rparr>)"
| step_work: "pool_work p p' \<Longrightarrow> pool_step p p'"

inductive_cases pool_stepE: "pool_step p p'"

lemmas pool_defs = pool_post_def pool_submit_def pool_stop_def notify_one_def notify_all_def

lemma worker_pass_cases:
  obtains (sleep) "\<not> tp_stop p" "tp_tasks p = []" "worker_pass i p = p\<lparr>tp_workers := (tp_workers p)(i \<mapsto> Asleep)\<rparr>"
  | (exit) "tp_stop p" "tp_tasks p = []" "worker_pass i p = p\<lparr>tp_workers := (tp_workers p)(i := None)\<rparr>"
  | (run) f fs where "tp_tasks p = f # fs"
      "worker_pass i p = p\<lparr>tp_tasks := fs, tp_workers := (tp_workers p)(i \<mapsto> Busy f), tp_started := tp_started p @ [f]\<rparr>"
  by (cases "tp_tasks p"; cases "tp_stop p") (auto simp: worker_pass_def)

lemma worker_pass_fields:
  "tp_started (worker_pass i p) @ tp_tasks (worker_pass i p) = tp_started p @ tp_tasks p"
  "tp_accepted (worker_pass i p) = tp_accepted p" "tp_stop (worker_pass i p) = tp_stop p"
  "tp_notify_all (worker_pass i p) = tp_notify_all p" "tp_notify_one (worker_pass i p) = tp_notify_one p"
  by (cases rule: worker_pass_cases [of p i]; simp)+

interpretation pool: fifo_executor pool_step tp_accepted tp_started tp_tasks
  by unfold_locales
     (auto elim!: pool_stepE pool_workE simp: pool_defs worker_pass_fields split: if_splits)

section \<open>No wake-up is lost\<close>

definition workers_at :: "'a worker \<Rightarrow> 'a thread_pool \<Rightarrow> nat set" where
  "workers_at w p = {i. tp_workers p i = Some w}"

text \<open>
  A worker is left until the pool is stopped and its tasks are done; a sleeping worker of a stopped pool has
  \<^verbatim>\<open>notify_all\<close> still to come; and while a worker sleeps there are no more tasks than workers on their way to them.
\<close>

definition pool_inv :: "'a thread_pool \<Rightarrow> bool" where
  "pool_inv p \<longleftrightarrow> finite (dom (tp_workers p)) \<and>
     (tp_workers p = Map.empty \<longrightarrow> tp_stop p \<and> tp_tasks p = []) \<and>
     (workers_at Asleep p \<noteq> {} \<and> tp_stop p \<longrightarrow> 0 < tp_notify_all p) \<and>
     (workers_at Asleep p \<noteq> {} \<longrightarrow> length (tp_tasks p) \<le> tp_notify_one p + card (workers_at Checking p))"

lemma finite_workers_at: "finite (dom (tp_workers p)) \<Longrightarrow> finite (workers_at w p)"
  by (rule finite_subset [of _ "dom (tp_workers p)"]) (auto simp: workers_at_def)

lemma map_upd_not_empty: "m(i \<mapsto> x) \<noteq> Map.empty"
  by (metis fun_upd_same option.distinct(1))

lemma pool_inv_pass:
  assumes "pool_inv p" and i: "tp_workers p i = Some Checking"
  shows "pool_inv (worker_pass i p)"
proof (cases rule: worker_pass_cases [of p i])
  case sleep
  then show ?thesis using assms
    by (simp add: pool_inv_def workers_at_def map_upd_not_empty finite_dom_upd del: dom_fun_upd)
next
  case exit
  have "workers_at Asleep (worker_pass i p) = workers_at Asleep p"
    using exit(3) i by (auto simp: workers_at_def split: if_splits)
  then show ?thesis using assms exit by (auto simp: pool_inv_def finite_dom_upd simp del: dom_fun_upd)
next
  case (run f fs)
  have at: "workers_at Asleep (worker_pass i p) = workers_at Asleep p" "workers_at Checking (worker_pass i p) = workers_at Checking p - {i}"
    using run(2) i by (auto simp: workers_at_def split: if_splits)
  have "i \<in> workers_at Checking p" using i by (simp add: workers_at_def)
  then have "card (workers_at Checking p) = Suc (card (workers_at Checking p - {i}))"
    using card_Suc_Diff1 [OF finite_workers_at [of p Checking]] assms(1) by (simp add: pool_inv_def)
  then show ?thesis using assms(1) run at
    by (auto simp: pool_inv_def map_upd_not_empty finite_dom_upd simp del: dom_fun_upd)
qed

text \<open>A worker goes on to look at the predicate.\<close>

lemma pool_inv_check:
  assumes inv: "pool_inv p" and i: "tp_workers p i = Some w" "w \<noteq> Checking"
    and n: "tp_notify_one p \<le> n + 1" "w = Asleep \<or> n = tp_notify_one p"
  shows "pool_inv (p\<lparr>tp_notify_one := n, tp_workers := (tp_workers p)(i \<mapsto> Checking)\<rparr>)"
proof -
  let ?q = "p\<lparr>tp_notify_one := n, tp_workers := (tp_workers p)(i \<mapsto> Checking)\<rparr>"
  have at: "workers_at Asleep ?q \<subseteq> workers_at Asleep p" "workers_at Checking ?q = insert i (workers_at Checking p)"
    using i by (auto simp: workers_at_def)
  have "i \<notin> workers_at Checking p" using i by (simp add: workers_at_def)
  then have "card (workers_at Checking ?q) = Suc (card (workers_at Checking p))"
    using finite_workers_at [of p Checking] inv at(2) by (simp add: pool_inv_def)
  then show ?thesis using inv at n
    by (auto simp: pool_inv_def map_upd_not_empty finite_dom_upd simp del: dom_fun_upd)
qed

lemma pool_inv_notify_all:
  assumes "pool_inv p"
  shows "pool_inv (notify_all p)"
proof -
  have "workers_at Asleep (notify_all p) = {}"
    by (auto simp: workers_at_def notify_all_def wake_def split: worker.splits)
  moreover have "dom (tp_workers (notify_all p)) = dom (tp_workers p)" by (simp add: notify_all_def dom_map_option_comp)
  moreover have "tp_workers (notify_all p) = Map.empty \<Longrightarrow> tp_workers p = Map.empty"
    using calculation(2) by (metis dom_eq_empty_conv)
  ultimately show ?thesis using assms by (auto simp: pool_inv_def notify_all_def)
qed

lemma pool_inv_work:
  assumes "pool_work p p'" and inv: "pool_inv p"
  shows "pool_inv p'"
  using assms(1)
proof (cases rule: pool_work.cases)
  case (work_done i f)
  then show ?thesis using pool_inv_check [OF inv work_done(2), of "tp_notify_one p"] by simp
next
  case (work_notify i)
  then show ?thesis using pool_inv_check [OF inv work_notify(3), of "tp_notify_one p - 1"] by (simp add: notify_one_def)
next
  case work_notify_none
  then have "workers_at Asleep p' = {}" by (auto simp: workers_at_def notify_one_def)
  then show ?thesis using inv work_notify_none(1) by (auto simp: pool_inv_def notify_one_def)
qed (use inv pool_inv_pass pool_inv_notify_all in auto)

lemma pool_inv_step:
  assumes "pool_step p p'" and inv: "pool_inv p"
  shows "pool_inv p'"
  using assms(1)
proof (cases rule: pool_step.cases)
  case (step_spurious i)
  then show ?thesis using pool_inv_check [OF inv step_spurious(2), of "tp_notify_one p"] by simp
qed (use inv pool_inv_work in \<open>auto simp: pool_inv_def workers_at_def pool_defs split: if_splits\<close>)

lemma pool_inv_steps:
  fixes p :: "'a thread_pool"
  assumes "pool_step\<^sup>*\<^sup>* (pool_new n) p"
  shows "pool_inv p"
  using assms
proof (induction rule: rtranclp_induct)
  case base
  have "dom (tp_workers (pool_new n :: 'a thread_pool)) \<subseteq> {..<Suc n}" by (auto simp: pool_new_def split: if_splits)
  then have "finite (dom (tp_workers (pool_new n :: 'a thread_pool)))" by (rule finite_subset) simp
  moreover have "tp_workers (pool_new n :: 'a thread_pool) 0 = Some Checking" by (simp add: pool_new_def)
  then have "tp_workers (pool_new n :: 'a thread_pool) \<noteq> Map.empty" by (metis option.distinct(1))
  moreover have "workers_at Asleep (pool_new n :: 'a thread_pool) = {}" by (auto simp: workers_at_def pool_new_def)
  ultimately show ?case by (simp add: pool_inv_def)
qed (rule pool_inv_step)

section \<open>The workers come to rest\<close>

lemma pool_work_steps: "pool_work\<^sup>*\<^sup>* p p' \<Longrightarrow> pool_step\<^sup>*\<^sup>* p p'"
  by (induction rule: rtranclp_induct) (auto intro: rtranclp.rtrancl_into_rtrancl step_work)

definition worker_weight :: "'a worker \<Rightarrow> nat" where
  "worker_weight w = (case w of Asleep \<Rightarrow> 0 | Checking \<Rightarrow> 1 | Busy f \<Rightarrow> 2)"

text \<open>A notification may set every worker going once more.\<close>

definition pool_measure :: "'a thread_pool \<Rightarrow> nat" where
  "pool_measure p = 2 * length (tp_tasks p) + 2 * tp_notify_one p +
     (card (dom (tp_workers p)) + 1) * tp_notify_all p + threads_weight worker_weight (tp_workers p)"

lemma card_dom_shrinks:
  assumes "finite (dom m)"
  shows "card (dom (m(i := None))) \<le> card (dom m)" and "m i = Some x \<Longrightarrow> card (dom (m(i \<mapsto> y))) = card (dom m)"
proof -
  show "card (dom (m(i := None))) \<le> card (dom m)" using assms by (intro card_mono) auto
  show "m i = Some x \<Longrightarrow> card (dom (m(i \<mapsto> y))) = card (dom m)" by (simp add: insert_absorb domI)
qed

lemma worker_pass_decreases:
  assumes "tp_workers p i = Some Checking" and fin: "finite (dom (tp_workers p))"
  shows "pool_measure (worker_pass i p) < pool_measure p"
proof (cases rule: worker_pass_cases [of p i])
  case sleep
  then show ?thesis
    using threads_weight_upd(1) [OF fin assms(1), of worker_weight Asleep] card_dom_shrinks(2) [OF fin assms(1), of Asleep]
    by (simp add: pool_measure_def worker_weight_def del: dom_fun_upd)
next
  case exit
  have "threads_weight worker_weight ((tp_workers p)(i := None)) < threads_weight worker_weight (tp_workers p)"
    using threads_weight_upd(2) [OF fin assms(1), of worker_weight] by (simp add: worker_weight_def)
  then have "card (dom ((tp_workers p)(i := None))) * tp_notify_all p + threads_weight worker_weight ((tp_workers p)(i := None)) <
      card (dom (tp_workers p)) * tp_notify_all p + threads_weight worker_weight (tp_workers p)"
    by (intro add_le_less_mono mult_le_mono1 card_dom_shrinks(1) [OF fin])
  then show ?thesis using exit(2,3) by (simp add: pool_measure_def)
next
  case (run f fs)
  then show ?thesis
    using threads_weight_upd(1) [OF fin assms(1), of worker_weight "Busy f"] card_dom_shrinks(2) [OF fin assms(1), of "Busy f"]
    by (simp add: pool_measure_def worker_weight_def del: dom_fun_upd)
qed

lemma notify_all_decreases:
  assumes "0 < tp_notify_all p"
  shows "pool_measure (notify_all p) < pool_measure p"
proof -
  let ?d = "dom (tp_workers p)"
  have dom: "dom (tp_workers (notify_all p)) = ?d" by (simp add: notify_all_def dom_map_option_comp)
  have "threads_weight worker_weight (tp_workers (notify_all p)) \<le> (\<Sum>i\<in>?d. worker_weight (the (tp_workers p i)) + 1)"
    unfolding threads_weight_def dom
    by (rule sum_mono) (auto simp: notify_all_def wake_def worker_weight_def split: worker.splits)
  then have weight: "threads_weight worker_weight (tp_workers (notify_all p)) \<le> threads_weight worker_weight (tp_workers p) + card ?d"
    unfolding sum.distrib by (simp add: threads_weight_def)
  obtain k where k: "tp_notify_all p = Suc k" using assms gr0_implies_Suc by blast
  show ?thesis using weight unfolding pool_measure_def dom by (simp add: notify_all_def k)
qed

lemma pool_work_decreases:
  assumes "pool_work p p'" and inv: "pool_inv p"
  shows "pool_inv p' \<and> pool_measure p' < pool_measure p"
proof
  show "pool_inv p'" using assms by (rule pool_inv_work)
  have fin: "finite (dom (tp_workers p))" using inv by (simp add: pool_inv_def)
  show "pool_measure p' < pool_measure p" using assms(1)
  proof (cases rule: pool_work.cases)
    case (work_done i f)
    then show ?thesis
      using threads_weight_upd(1) [OF fin work_done(2), of worker_weight Checking] card_dom_shrinks(2) [OF fin work_done(2), of Checking]
      by (simp add: pool_measure_def worker_weight_def del: dom_fun_upd)
  next
    case (work_notify i)
    then show ?thesis
      using threads_weight_upd(1) [OF fin work_notify(3), of worker_weight Checking] card_dom_shrinks(2) [OF fin work_notify(3), of Checking]
      by (simp add: pool_measure_def worker_weight_def notify_one_def del: dom_fun_upd)
  next
    case work_notify_none
    then show ?thesis by (simp add: pool_measure_def notify_one_def)
  qed (use worker_pass_decreases [OF _ fin] notify_all_decreases in simp_all)
qed

text \<open>At rest all workers that are left sleep, and then no task is waiting and the pool is not stopped.\<close>

lemma pool_at_rest:
  assumes rest: "\<nexists>p'. pool_work p p'" and inv: "pool_inv p"
  shows "tp_tasks p = [] \<and> (tp_stop p \<longrightarrow> pool_joined p)"
proof -
  have quiet: "tp_notify_all p = 0" "tp_notify_one p = 0"
    using rest work_notify_all work_notify work_notify_none by blast+
  have asleep: "w = Asleep" if "tp_workers p i = Some w" for i w
    using rest that by (cases w) (blast intro: work_pass work_done)+
  then have none: "workers_at Checking p = {}" by (auto simp: workers_at_def)
  show ?thesis
  proof (cases "workers_at Asleep p = {}")
    case True
    have "tp_workers p i = None" for i using True asleep [of i] by (cases "tp_workers p i") (auto simp: workers_at_def)
    then have "tp_workers p = Map.empty" by blast
    then show ?thesis using inv quiet by (simp add: pool_inv_def pool_joined_def)
  next
    case False
    then show ?thesis using inv quiet none by (auto simp: pool_inv_def)
  qed
qed

lemma pool_work_keeps:
  assumes "pool_work\<^sup>*\<^sup>* p p'"
  shows "tp_stop p' = tp_stop p \<and> tp_accepted p' = tp_accepted p"
  using assms
proof (induction rule: rtranclp_induct)
  case (step y z)
  then show ?case by (auto elim!: pool_workE simp: pool_defs worker_pass_fields)
qed simp

lemma pool_order:
  assumes "pool_step\<^sup>*\<^sup>* (pool_new n) p"
  shows "tp_started p @ tp_tasks p = tp_accepted p"
  using pool.steps_fifo [OF assms] by (simp add: pool_new_def)

lemma pool_refuses_stopped:
  assumes "tp_stop p"
  shows "pool_post f p = p" and "pool_submit f p = Inl (Runtime_Error ''Cannot submit to stopped thread pool'')"
  using assms by (auto simp: pool_post_def pool_submit_def)

text \<open>
  C18: The pool runs what it accepts, and \<^verbatim>\<open>stop\<close> returns.  From every state reached by calls of \<^verbatim>\<open>post\<close>, \<^verbatim>\<open>submit\<close> and
  \<^verbatim>\<open>stop\<close> in any interleaving, the workers and the notifications under way cannot go on for ever; where they come to
  rest the tasks started are, in order, all that were accepted, and no sleeping worker has missed its wake-up: if
  the pool was stopped every worker has returned, so that \<^verbatim>\<open>join\<close> does.  A stopped pool refuses tasks.
\<close>

theorem pool_stop_drains:
  assumes "pool_step\<^sup>*\<^sup>* (pool_new n) p"
  shows "(run 0 = p \<longrightarrow> (\<exists>i. \<not> pool_work (run i) (run (Suc i)))) \<and>
    (pool_work\<^sup>*\<^sup>* p p' \<and> (\<nexists>p''. pool_work p' p'') \<longrightarrow>
       tp_started p' = tp_accepted p \<and> (tp_stop p \<longrightarrow> pool_joined p')) \<and>
    (tp_stop p \<longrightarrow> pool_post f p = p \<and> pool_submit f p = Inl (Runtime_Error ''Cannot submit to stopped thread pool''))"
proof (intro conjI [of "_ \<longrightarrow> _"] impI)
  assume "run 0 = p"
  then show "\<exists>i. \<not> pool_work (run i) (run (Suc i))"
    using pool_work_decreases pool_inv_steps [OF assms]
    by (intro no_infinite_run [of pool_work pool_inv pool_measure run]) auto
next
  assume rest: "pool_work\<^sup>*\<^sup>* p p' \<and> (\<nexists>p''. pool_work p' p'')"
  have reach: "pool_step\<^sup>*\<^sup>* (pool_new n) p'"
    using assms pool_work_steps [of p p'] rest by (blast intro: rtranclp_trans)
  have same: "tp_stop p' = tp_stop p" "tp_accepted p' = tp_accepted p" using pool_work_keeps [of p p'] rest by auto
  have idle: "tp_tasks p' = []" "tp_stop p' \<longrightarrow> pool_joined p'"
    using pool_at_rest [OF _ pool_inv_steps [OF reach]] rest by auto
  then show "tp_started p' = tp_accepted p \<and> (tp_stop p \<longrightarrow> pool_joined p')" using pool_order [OF reach] same by simp
qed (simp add: pool_refuses_stopped)

text \<open>A worker falls asleep, is given a task and told to stop.\<close>

definition pool_one :: "nat thread_pool" where
  "pool_one = pool_stop (pool_post 7 (worker_pass 0 (pool_new 1)))"

lemma pool_one_reached: "pool_step\<^sup>*\<^sup>* (pool_new 1) pool_one"
proof -
  have "pool_step (pool_new 1 :: nat thread_pool) (worker_pass 0 (pool_new 1))"
    by (rule step_work, rule work_pass) (simp add: pool_new_def)
  then show ?thesis
    unfolding pool_one_def by (meson step_post step_stop r_into_rtranclp rtranclp.rtrancl_into_rtrancl)
qed

lemma pool_one_finishes:
  defines "q \<equiv> \<lparr>tp_tasks = [], tp_stop = True, tp_workers = Map.empty, tp_notify_one = 0, tp_notify_all = 0,
    tp_accepted = [7], tp_started = [7::nat]\<rparr>"
  shows "pool_work\<^sup>*\<^sup>* pool_one q \<and> (\<nexists>q'. pool_work q q')"
proof
  let ?w = "\<lambda>w m k. \<lparr>tp_tasks = [7], tp_stop = True, tp_workers = [0 \<mapsto> w], tp_notify_one = m, tp_notify_all = k,
    tp_accepted = [7], tp_started = []\<rparr> :: nat thread_pool"
  let ?p = "\<lambda>w. \<lparr>tp_tasks = [], tp_stop = True, tp_workers = [0 \<mapsto> w], tp_notify_one = 0, tp_notify_all = 0,
    tp_accepted = [7], tp_started = [7::nat]\<rparr>"
  have one: "pool_one = ?w Asleep 1 1"
    by (auto simp: pool_one_def pool_stop_def pool_post_def pool_new_def worker_pass_def)
  have "pool_work pool_one (?w Checking 0 1)"
    using work_notify [of "?w Asleep 1 1" 0] by (simp add: one notify_one_def)
  moreover have "pool_work (?w Checking 0 1) (?w Checking 0 0)"
    using work_notify_all [of "?w Checking 0 1"] by (simp add: notify_all_def wake_def comp_def fun_upd_def if_distrib cong: if_cong)
  moreover have "pool_work (?w Checking 0 0) (?p (Busy 7))"
    using work_pass [of "?w Checking 0 0" 0] by (simp add: worker_pass_def)
  moreover have "pool_work (?p (Busy 7)) (?p Checking)"
    using work_done [of "?p (Busy 7)" 0 7] by simp
  moreover have "pool_work (?p Checking) q"
    using work_pass [of "?p Checking" 0] by (simp add: q_def worker_pass_def)
  ultimately show "pool_work\<^sup>*\<^sup>* pool_one q" by (meson converse_rtranclp_into_rtranclp r_into_rtranclp)
  show "\<nexists>q'. pool_work q q'" by (auto simp: q_def elim!: pool_workE)
qed

theorem pool_stop_drains_witness:
  "pool_joined \<lparr>tp_tasks = [], tp_stop = True, tp_workers = Map.empty, tp_notify_one = 0, tp_notify_all = 0,
     tp_accepted = [7], tp_started = [7::nat]\<rparr> \<and>
   tp_accepted pool_one = [7] \<and> tp_workers pool_one 0 = Some Asleep \<and> pool_post 8 pool_one = pool_one"
  using pool_stop_drains [OF pool_one_reached, of "\<lambda>_. pool_one" _ 8] pool_one_finishes
  by (simp add: pool_one_def pool_stop_def pool_post_def pool_new_def worker_pass_def)

section \<open>Strand\<close>

text \<open>
  A thread inside \<^verbatim>\<open>run()\<close> is before its critical section or executes a task.  \<open>sd_dispatching\<close> counts the
  threads that have left the critical section of \<^verbatim>\<open>post_impl\<close> with \<^verbatim>\<open>should_dispatch\<close> and not yet posted
  \<^verbatim>\<open>run\<close> to the inner executor, \<open>sd_posted\<close> the calls of \<^verbatim>\<open>run\<close> the inner executor holds.
\<close>

datatype 'a run_point = At_Loop | In_Task 'a

record 'a strand =
  sd_queue :: "'a list"
  sd_running :: bool
  sd_dispatching :: nat
  sd_posted :: nat
  sd_threads :: "nat \<rightharpoonup> 'a run_point"
  sd_accepted :: "'a list"
  sd_started :: "'a list"

definition strand_new :: "'a strand" where
  "strand_new = \<lparr>sd_queue = [], sd_running = False, sd_dispatching = 0, sd_posted = 0, sd_threads = Map.empty,
     sd_accepted = [], sd_started = []\<rparr>"

definition strand_post :: "'a \<Rightarrow> 'a strand \<Rightarrow> 'a strand" where
  "strand_post f s =
     s\<lparr>sd_queue := sd_queue s @ [f], sd_running := True, sd_accepted := sd_accepted s @ [f],
       sd_dispatching := (if sd_running s then sd_dispatching s else Suc (sd_dispatching s))\<rparr>"

definition strand_dispatch :: "'a strand \<Rightarrow> 'a strand" where
  "strand_dispatch s = s\<lparr>sd_dispatching := sd_dispatching s - 1, sd_posted := Suc (sd_posted s)\<rparr>"

text \<open>One pass of \<^verbatim>\<open>run\<close> through its critical section.\<close>

definition strand_pass :: "nat \<Rightarrow> 'a strand \<Rightarrow> 'a strand" where
  "strand_pass t s =
     (case sd_queue s of
        [] \<Rightarrow> s\<lparr>sd_running := False, sd_threads := (sd_threads s)(t := None)\<rparr>
      | f # fs \<Rightarrow> s\<lparr>sd_queue := fs, sd_threads := (sd_threads s)(t \<mapsto> In_Task f), sd_started := sd_started s @ [f]\<rparr>)"

inductive strand_step :: "'a strand \<Rightarrow> 'a strand \<Rightarrow> bool" where
  strand_posts: "strand_step s (strand_post f s)"
| strand_dispatches: "0 < sd_dispatching s \<Longrightarrow> strand_step s (strand_dispatch s)"
| strand_starts: "0 < sd_posted s \<Longrightarrow> sd_threads s t = None \<Longrightarrow>
    strand_step s (s\<lparr>sd_posted := sd_posted s - 1, sd_threads := (sd_threads s)(t \<mapsto> At_Loop)\<rparr>)"
| strand_passes: "sd_threads s t = Some At_Loop \<Longrightarrow> strand_step s (strand_pass t s)"
| strand_returns: "sd_threads s t = Some (In_Task f) \<Longrightarrow> strand_step s (s\<lparr>sd_threads := (sd_threads s)(t \<mapsto> At_Loop)\<rparr>)"

text \<open>With tasks that may throw: the exception leaves \<^verbatim>\<open>run\<close>, which has not reset \<^verbatim>\<open>running_\<close>.\<close>

inductive strand_step_throwing :: "'a strand \<Rightarrow> 'a strand \<Rightarrow> bool" where
  strand_steps: "strand_step s s' \<Longrightarrow> strand_step_throwing s s'"
| strand_throws: "sd_threads s t = Some (In_Task f) \<Longrightarrow> strand_step_throwing s (s\<lparr>sd_threads := (sd_threads s)(t := None)\<rparr>)"

inductive_cases strand_stepE: "strand_step s s'"
inductive_cases strand_throwE: "strand_step_throwing s s'"

lemma strand_step_fifo:
  assumes "strand_step_throwing s s'" and "sd_started s @ sd_queue s = sd_accepted s"
  shows "sd_started s' @ sd_queue s' = sd_accepted s'"
  using assms
  by (auto elim!: strand_throwE strand_stepE simp: strand_post_def strand_dispatch_def strand_pass_def split: list.splits)

interpretation strand: fifo_executor strand_step_throwing sd_accepted sd_started sd_queue
  by unfold_locales
     (auto intro: strand_step_fifo elim!: strand_throwE strand_stepE
       simp: strand_post_def strand_dispatch_def strand_pass_def split: list.splits)

text \<open>
  The right to run the strand's tasks: handed out by \<^verbatim>\<open>running_\<close>, it is with a poster that has to dispatch, with
  the inner executor, or with one thread in \<^verbatim>\<open>run\<close>; it is never with two.
\<close>

definition strand_holders :: "'a strand \<Rightarrow> nat" where
  "strand_holders s = sd_dispatching s + sd_posted s + card (dom (sd_threads s))"

definition strand_inv :: "'a strand \<Rightarrow> bool" where
  "strand_inv s \<longleftrightarrow> finite (dom (sd_threads s)) \<and> strand_holders s = (if sd_running s then 1 else 0) \<and>
     (sd_queue s \<noteq> [] \<longrightarrow> sd_running s)"

text \<open>The steps that run what the strand holds: the poster's dispatch and the threads in \<^verbatim>\<open>run\<close>.\<close>

inductive strand_work :: "'a strand \<Rightarrow> 'a strand \<Rightarrow> bool" where
  work_dispatches: "0 < sd_dispatching s \<Longrightarrow> strand_work s (strand_dispatch s)"
| work_starts: "0 < sd_posted s \<Longrightarrow> sd_threads s t = None \<Longrightarrow>
    strand_work s (s\<lparr>sd_posted := sd_posted s - 1, sd_threads := (sd_threads s)(t \<mapsto> At_Loop)\<rparr>)"
| work_passes: "sd_threads s t = Some At_Loop \<Longrightarrow> strand_work s (strand_pass t s)"
| work_returns: "sd_threads s t = Some (In_Task f) \<Longrightarrow> strand_work s (s\<lparr>sd_threads := (sd_threads s)(t \<mapsto> At_Loop)\<rparr>)"

inductive_cases strand_workE: "strand_work s s'"

lemma strand_work_step: "strand_work s s' \<Longrightarrow> strand_step s s'"
  by (erule strand_work.cases) (simp_all only: strand_step.intros)

lemma strand_work_steps: "strand_work\<^sup>*\<^sup>* s s' \<Longrightarrow> strand_step\<^sup>*\<^sup>* s s'"
  by (induction rule: rtranclp_induct) (auto intro: rtranclp.rtrancl_into_rtrancl strand_work_step)

lemma strand_steps_throwing: "strand_step\<^sup>*\<^sup>* s s' \<Longrightarrow> strand_step_throwing\<^sup>*\<^sup>* s s'"
  by (induction rule: rtranclp_induct) (auto intro: rtranclp.rtrancl_into_rtrancl strand_steps)

lemma card_dom_upd:
  assumes "finite (dom m)"
  shows "m t = Some x \<Longrightarrow> card (dom (m(t \<mapsto> y))) = card (dom m)"
    and "m t = Some x \<Longrightarrow> Suc (card (dom (m(t := None)))) = card (dom m)"
    and "m t = None \<Longrightarrow> card (dom (m(t \<mapsto> y))) = Suc (card (dom m))"
proof -
  show "m t = Some x \<Longrightarrow> card (dom (m(t \<mapsto> y))) = card (dom m)" by (simp add: insert_absorb domI)
  show "m t = Some x \<Longrightarrow> Suc (card (dom (m(t := None)))) = card (dom m)"
    using card_Suc_Diff1 [OF assms, of t] by (simp add: domI)
  show "m t = None \<Longrightarrow> card (dom (m(t \<mapsto> y))) = Suc (card (dom m))"
    using card_insert_disjoint [OF assms, of t] by (simp add: domIff)
qed

lemma strand_pass_inv:
  assumes "strand_inv s" and "sd_threads s t = Some At_Loop"
  shows "strand_inv (strand_pass t s)"
proof -
  have fin: "finite (dom (sd_threads s))" using assms(1) by (simp add: strand_inv_def)
  note card = card_dom_upd(1,2) [OF fin assms(2)]
  show ?thesis
  proof (cases "sd_queue s")
    case Nil
    have "strand_holders s = Suc (sd_dispatching s + sd_posted s + card (dom ((sd_threads s)(t := None))))"
      using card(2) by (simp add: strand_holders_def)
    then show ?thesis using Nil assms(1) fin
      by (auto simp: strand_pass_def strand_inv_def strand_holders_def split: if_splits)
  next
    case (Cons f fs)
    then show ?thesis using assms(1) fin card(1)
      by (auto simp: strand_pass_def strand_inv_def strand_holders_def finite_dom_upd simp del: dom_fun_upd)
  qed
qed

lemma strand_inv_step:
  assumes "strand_step s s'" and inv: "strand_inv s"
  shows "strand_inv s'"
proof -
  have fin: "finite (dom (sd_threads s))" using inv by (simp add: strand_inv_def)
  show ?thesis using assms(1)
  proof (cases rule: strand_step.cases)
    case (strand_starts t)
    then show ?thesis using inv fin card_dom_upd(3) [OF fin strand_starts(3), of At_Loop]
      by (auto simp: strand_inv_def strand_holders_def finite_dom_upd simp del: dom_fun_upd split: if_splits)
  next
    case (strand_passes t)
    then show ?thesis using strand_pass_inv [OF inv] by simp
  next
    case (strand_returns t f)
    then show ?thesis using inv fin card_dom_upd(1) [OF fin strand_returns(2), of At_Loop]
      by (auto simp: strand_inv_def strand_holders_def finite_dom_upd simp del: dom_fun_upd split: if_splits)
  qed (use inv in \<open>auto simp: strand_inv_def strand_holders_def strand_post_def strand_dispatch_def\<close>)
qed

lemma strand_inv_new: "strand_inv strand_new"
  by (simp add: strand_new_def strand_inv_def strand_holders_def)

lemma strand_inv_steps: "strand_step\<^sup>*\<^sup>* strand_new s \<Longrightarrow> strand_inv s"
  by (induction rule: rtranclp_induct) (auto intro: strand_inv_new strand_inv_step)

lemma strand_one_thread:
  assumes "strand_inv s" and "sd_threads s t = Some x" and "sd_threads s u = Some y"
  shows "t = u"
proof (rule ccontr)
  assume "t \<noteq> u"
  then have "card {t, u} = 2" by simp
  moreover have "{t, u} \<subseteq> dom (sd_threads s)" using assms(2,3) by auto
  ultimately have "2 \<le> card (dom (sd_threads s))"
    using assms(1) card_mono [of "dom (sd_threads s)" "{t, u}"] by (simp add: strand_inv_def)
  then show False using assms(1) by (auto simp: strand_inv_def strand_holders_def split: if_splits)
qed

lemma strand_order:
  assumes "strand_step_throwing\<^sup>*\<^sup>* strand_new s"
  shows "sd_started s @ sd_queue s = sd_accepted s"
  using strand.steps_fifo [OF assms] by (simp add: strand_new_def)

definition run_weight :: "'a run_point \<Rightarrow> nat" where
  "run_weight r = (case r of At_Loop \<Rightarrow> 1 | In_Task f \<Rightarrow> 2)"

definition strand_measure :: "'a strand \<Rightarrow> nat" where
  "strand_measure s = 2 * length (sd_queue s) + 3 * sd_dispatching s + 2 * sd_posted s + threads_weight run_weight (sd_threads s)"

lemma strand_work_decreases:
  assumes "strand_work s s'" and inv: "strand_inv s"
  shows "strand_inv s' \<and> strand_measure s' < strand_measure s"
proof
  show "strand_inv s'" using assms strand_inv_step strand_work_step by blast
  have fin: "finite (dom (sd_threads s))" using inv by (simp add: strand_inv_def)
  note simps = strand_measure_def run_weight_def strand_dispatch_def strand_pass_def
  show "strand_measure s' < strand_measure s" using assms(1)
  proof (cases rule: strand_work.cases)
    case (work_starts t)
    then show ?thesis using threads_weight_new [OF fin work_starts(3), of run_weight At_Loop] by (simp add: simps)
  next
    case (work_passes t)
    note upd = threads_weight_upd [OF fin work_passes(2), of run_weight]
    show ?thesis
    proof (cases "sd_queue s")
      case Nil
      then show ?thesis using work_passes upd(2) by (simp add: simps)
    next
      case (Cons f fs)
      then show ?thesis using work_passes upd(1) [of "In_Task f"] by (simp add: simps)
    qed
  next
    case (work_returns t f)
    then show ?thesis using threads_weight_upd(1) [OF fin work_returns(2), of run_weight At_Loop] by (simp add: simps)
  qed (simp add: simps)
qed

lemma strand_idle:
  assumes "\<nexists>s'. strand_work s s'" and inv: "strand_inv s"
  shows "sd_queue s = [] \<and> \<not> sd_running s"
proof -
  have fin: "finite (dom (sd_threads s))" using inv by (simp add: strand_inv_def)
  have "sd_threads s t = None" for t
  proof (cases "sd_threads s t")
    case (Some r)
    then show ?thesis using assms(1) work_passes [of s t] work_returns [of s t] by (cases r) blast+
  qed
  then have "sd_threads s = Map.empty" by blast
  moreover have "sd_dispatching s = 0" using assms(1) work_dispatches by blast
  moreover have "sd_posted s = 0" using assms(1) work_starts [of s 0] \<open>sd_threads s = Map.empty\<close> by fastforce
  ultimately have "strand_holders s = 0" by (simp add: strand_holders_def)
  then show ?thesis using inv by (auto simp: strand_inv_def split: if_splits)
qed

text \<open>
  C17: What the strand guarantees when its tasks return: no two threads are ever inside a task, the tasks are
  started in the order they were posted, and whatever the scheduling, what was posted is run to the end.
\<close>

theorem strand_serialises:
  assumes "strand_step\<^sup>*\<^sup>* strand_new s"
  shows "(sd_threads s t = Some (In_Task f) \<and> sd_threads s u = Some (In_Task g) \<longrightarrow> t = u) \<and>
    sd_started s @ sd_queue s = sd_accepted s \<and>
    (run 0 = s \<longrightarrow> (\<exists>i. \<not> strand_work (run i) (run (Suc i)))) \<and>
    (strand_work\<^sup>*\<^sup>* s s' \<and> (\<nexists>s''. strand_work s' s'') \<longrightarrow> sd_started s' = sd_accepted s' \<and> \<not> sd_running s')"
proof (intro conjI impI)
  have inv: "strand_inv s" using strand_inv_steps [OF assms] .
  show "sd_started s @ sd_queue s = sd_accepted s" using strand_order [OF strand_steps_throwing [OF assms]] .
  show "t = u" if "sd_threads s t = Some (In_Task f) \<and> sd_threads s u = Some (In_Task g)"
    using strand_one_thread [OF inv] that by blast
  show "\<exists>i. \<not> strand_work (run i) (run (Suc i))" if "run 0 = s"
    using strand_work_decreases inv that by (intro no_infinite_run [of strand_work strand_inv strand_measure]) auto
  assume rest: "strand_work\<^sup>*\<^sup>* s s' \<and> (\<nexists>s''. strand_work s' s'')"
  then have reach: "strand_step\<^sup>*\<^sup>* strand_new s'" using assms strand_work_steps rtranclp_trans by metis
  have idle: "sd_queue s' = [] \<and> \<not> sd_running s'" using strand_idle rest strand_inv_steps [OF reach] by blast
  then show "\<not> sd_running s'" by simp
  show "sd_started s' = sd_accepted s'" using strand_order [OF strand_steps_throwing [OF reach]] idle by simp
qed

lemma strand_reaches_task:
  defines "s \<equiv> strand_new\<lparr>sd_running := True, sd_threads := [0 \<mapsto> In_Task (5::nat)], sd_accepted := [5], sd_started := [5]\<rparr>"
  shows "strand_step\<^sup>*\<^sup>* strand_new s"
proof -
  let ?a = "strand_post (5::nat) strand_new" and ?b = "strand_dispatch (strand_post (5::nat) strand_new)"
  let ?c = "?b\<lparr>sd_posted := sd_posted ?b - 1, sd_threads := (sd_threads ?b)(0 \<mapsto> At_Loop)\<rparr>"
  note simps = strand_post_def strand_new_def strand_dispatch_def strand_pass_def s_def
  have "strand_step strand_new ?a" by (rule strand_posts)
  moreover have "strand_step ?a ?b" by (rule strand_dispatches) (simp add: simps)
  moreover have "strand_step ?b ?c" by (rule strand_starts) (simp_all add: simps)
  moreover have "strand_step ?c s" using strand_passes [of ?c 0] by (simp add: simps)
  ultimately show ?thesis by (meson converse_rtranclp_into_rtranclp r_into_rtranclp)
qed

lemma strand_task_finishes:
  defines "s \<equiv> strand_new\<lparr>sd_running := True, sd_threads := [0 \<mapsto> In_Task (5::nat)], sd_accepted := [5], sd_started := [5]\<rparr>"
    and "q \<equiv> strand_new\<lparr>sd_accepted := [5], sd_started := [5::nat]\<rparr>"
  shows "strand_work\<^sup>*\<^sup>* s q \<and> (\<nexists>q'. strand_work q q')"
proof
  note simps = strand_new_def strand_pass_def s_def q_def
  let ?r = "s\<lparr>sd_threads := [0 \<mapsto> At_Loop]\<rparr>"
  have "strand_work s ?r" using work_returns [of s 0 5] by (simp add: simps)
  moreover have "strand_work ?r q" using work_passes [of ?r 0] by (simp add: simps)
  ultimately show "strand_work\<^sup>*\<^sup>* s q" by (meson converse_rtranclp_into_rtranclp r_into_rtranclp)
  show "\<nexists>q'. strand_work q q'" by (auto simp: simps elim!: strand_workE)
qed

theorem strand_serialises_witness:
  "sd_started (strand_new\<lparr>sd_accepted := [5], sd_started := [5::nat]\<rparr>) = [5] \<and>
   \<not> sd_running (strand_new\<lparr>sd_accepted := [5], sd_started := [5::nat]\<rparr>)"
  using strand_serialises [OF strand_reaches_task, of 0 5 0 5 undefined] strand_task_finishes by simp

section \<open>A task that throws\<close>

definition strand_stuck :: "'a strand \<Rightarrow> bool" where
  "strand_stuck s \<longleftrightarrow> sd_running s \<and> sd_dispatching s = 0 \<and> sd_posted s = 0 \<and> sd_threads s = Map.empty"

lemma strand_stuck_step:
  assumes "strand_step_throwing s s'" and "strand_stuck s"
  shows "strand_stuck s' \<and> sd_started s' = sd_started s"
  using assms by (auto elim!: strand_throwE strand_stepE simp: strand_stuck_def strand_post_def)

lemma strand_stuck_steps:
  assumes "strand_step_throwing\<^sup>*\<^sup>* s s'" and "strand_stuck s"
  shows "strand_stuck s' \<and> sd_started s' = sd_started s"
  using assms by (induction rule: rtranclp_induct) (auto dest: strand_stuck_step)

lemma strand_throw_sticks:
  assumes "strand_inv s" and "sd_threads s t = Some (In_Task f)"
  shows "strand_stuck (s\<lparr>sd_threads := (sd_threads s)(t := None)\<rparr>)"
proof -
  have fin: "finite (dom (sd_threads s))" using assms(1) by (simp add: strand_inv_def)
  have "Suc (card (dom ((sd_threads s)(t := None)))) = card (dom (sd_threads s))"
    using card_dom_upd(2) [OF fin assms(2)] .
  moreover have "finite (dom ((sd_threads s)(t := None)))" using fin by simp
  moreover have "card (dom (sd_threads s)) = 1 \<and> sd_running s \<and> sd_dispatching s = 0 \<and> sd_posted s = 0"
    using assms(1) calculation by (auto simp: strand_inv_def strand_holders_def split: if_splits)
  ultimately have "dom ((sd_threads s)(t := None)) = {}" by (metis card_0_eq nat.inject One_nat_def)
  then show ?thesis
    using \<open>card (dom (sd_threads s)) = 1 \<and> sd_running s \<and> sd_dispatching s = 0 \<and> sd_posted s = 0\<close>
    by (simp add: strand_stuck_def del: dom_fun_upd)
qed

text \<open>
  C39: The exception of a task ends the strand: \<^verbatim>\<open>running_\<close> stays set with no call of \<^verbatim>\<open>run\<close> left, so what is
  posted from then on is queued and never started.
\<close>

theorem strand_dies_with_throw:
  assumes "strand_step\<^sup>*\<^sup>* strand_new s" and "sd_threads s t = Some (In_Task f)"
    and "strand_step_throwing\<^sup>*\<^sup>* (s\<lparr>sd_threads := (sd_threads s)(t := None)\<rparr>) s'"
  shows "sd_running s' \<and> sd_started s' = sd_started s \<and> (\<exists>later. sd_queue s' = sd_queue s @ later)"
proof -
  let ?d = "s\<lparr>sd_threads := (sd_threads s)(t := None)\<rparr>"
  have stuck: "strand_stuck s' \<and> sd_started s' = sd_started ?d"
    using strand_stuck_steps [OF assms(3)] strand_throw_sticks [OF strand_inv_steps [OF assms(1)] assms(2)] .
  have order: "sd_started ?d @ sd_queue ?d = sd_accepted ?d"
    using strand_order [OF strand_steps_throwing [OF assms(1)]] by simp
  from strand.steps_fifo [OF assms(3) order] obtain later
    where "sd_started s' @ sd_queue s' = (sd_started ?d @ sd_queue ?d) @ later" using order by metis
  then have "sd_queue s' = sd_queue s @ later" using stuck by simp
  then show ?thesis using stuck by (auto simp: strand_stuck_def)
qed

theorem strand_dies_with_throw_witness:
  "sd_running (strand_post 6 (strand_new\<lparr>sd_running := True, sd_accepted := [5], sd_started := [5::nat]\<rparr>)) \<and>
   sd_started (strand_post 6 (strand_new\<lparr>sd_running := True, sd_accepted := [5], sd_started := [5::nat]\<rparr>)) = [5]"
proof -
  let ?d = "strand_new\<lparr>sd_running := True, sd_accepted := [5], sd_started := [5::nat]\<rparr>"
  define s where "s = strand_new\<lparr>sd_running := True, sd_threads := [0 \<mapsto> In_Task (5::nat)], sd_accepted := [5], sd_started := [5]\<rparr>"
  have d: "s\<lparr>sd_threads := (sd_threads s)(0 := None)\<rparr> = ?d" by (simp add: s_def strand_new_def)
  have steps: "strand_step_throwing\<^sup>*\<^sup>* (s\<lparr>sd_threads := (sd_threads s)(0 := None)\<rparr>) (strand_post 6 ?d)"
    unfolding d by (blast intro: strand_steps strand_posts)
  have task: "sd_threads s 0 = Some (In_Task 5)" by (simp add: s_def)
  show ?thesis
    using strand_dies_with_throw [OF strand_reaches_task [folded s_def] task steps] by (simp add: s_def)
qed

end
