(* ===== verification/Event_Loop.thy ===== *)
theory Event_Loop
  imports Executors "HOL-Library.Multiset"
begin

text \<open>
  The event loop of \<^verbatim>\<open>src/io/io_context.cpp\<close>: posted functions, timers, the work count and the passes of the
  loop.  What a function does to the loop when it runs (post, set timers, hold or release work, stop) is a
  parameter.  The functions a poll of the backend resumes are an argument of the pass.  Times are in
  nanoseconds.
\<close>

record 'a effect =
  ef_posts :: "'a list"
  ef_timers :: "(int \<times> 'a) list"
  ef_work :: "nat \<Rightarrow> nat"
  ef_stops :: bool

record 'a io_context =
  ic_stopped :: bool
  ic_work_count :: nat
  ic_pending :: "'a list"
  ic_timers :: "(int \<times> 'a) list"
  ic_handlers_executed :: nat
  ic_posted :: "'a list"
  ic_ran :: "'a list"

definition io_context_new :: "'a io_context" where
  "io_context_new = \<lparr>ic_stopped = False, ic_work_count = 0, ic_pending = [], ic_timers = [], ic_handlers_executed = 0,
     ic_posted = [], ic_ran = []\<rparr>"

definition post_impl :: "'a \<Rightarrow> 'a io_context \<Rightarrow> 'a io_context" where
  "post_impl f c = c\<lparr>ic_pending := ic_pending c @ [f], ic_posted := ic_posted c @ [f]\<rparr>"

definition post_at :: "int \<Rightarrow> 'a \<Rightarrow> 'a io_context \<Rightarrow> 'a io_context" where
  "post_at deadline cb c = c\<lparr>ic_timers := (deadline, cb) # ic_timers c\<rparr>"

definition post_after :: "int \<Rightarrow> int \<Rightarrow> 'a \<Rightarrow> 'a io_context \<Rightarrow> 'a io_context" where
  "post_after now delay cb c = post_at (now + delay) cb c"

definition io_stop :: "'a io_context \<Rightarrow> 'a io_context" where
  "io_stop c = c\<lparr>ic_stopped := True\<rparr>"

definition io_restart :: "'a io_context \<Rightarrow> 'a io_context" where
  "io_restart c = c\<lparr>ic_stopped := False\<rparr>"

definition make_work :: "'a io_context \<Rightarrow> 'a io_context" where
  "make_work c = c\<lparr>ic_work_count := ic_work_count c + 1\<rparr>"

definition release_work :: "'a io_context \<Rightarrow> 'a io_context" where
  "release_work c = c\<lparr>ic_work_count := ic_work_count c - 1\<rparr>"

text \<open>Running a function: its effects on the loop.\<close>

definition call :: "('a \<Rightarrow> 'a effect) \<Rightarrow> 'a \<Rightarrow> 'a io_context \<Rightarrow> 'a io_context" where
  "call eff f c =
     (let c = fold post_impl (ef_posts (eff f)) c; c = fold (\<lambda>(d, g). post_at d g) (ef_timers (eff f)) c
      in c\<lparr>ic_work_count := ef_work (eff f) (ic_work_count c), ic_stopped := (ic_stopped c \<or> ef_stops (eff f))\<rparr>)"

text \<open>
  The heap gives timers in the order of their deadlines and leaves the order of equal ones open: \<open>expire now ts
  es rest\<close> holds of every order \<open>es\<close> in which the expired timers of \<open>ts\<close> can come.
\<close>

inductive expire :: "int \<Rightarrow> (int \<times> 'a) list \<Rightarrow> (int \<times> 'a) list \<Rightarrow> (int \<times> 'a) list \<Rightarrow> bool" where
  expire_none: "list_all (\<lambda>t. now < fst t) ts \<Longrightarrow> expire now ts [] ts"
| expire_one: "t \<in> set ts \<Longrightarrow> list_all (\<lambda>u. fst t \<le> fst u) ts \<Longrightarrow> fst t \<le> now \<Longrightarrow> expire now (remove1 t ts) es rest \<Longrightarrow>
    expire now ts (t # es) rest"

definition run_expired :: "('a \<Rightarrow> 'a effect) \<Rightarrow> (int \<times> 'a) list \<Rightarrow> 'a io_context \<Rightarrow> 'a io_context" where
  "run_expired eff es c =
     fold (\<lambda>(d, cb) c. (call eff cb c)\<lparr>ic_handlers_executed := ic_handlers_executed (call eff cb c) + 1\<rparr>) es c"

definition process_timers :: "('a \<Rightarrow> 'a effect) \<Rightarrow> int \<Rightarrow> 'a io_context \<Rightarrow> 'a io_context \<Rightarrow> bool" where
  "process_timers eff now c c' \<longleftrightarrow> (\<exists>es rest. expire now (ic_timers c) es rest \<and> c' = run_expired eff es (c\<lparr>ic_timers := rest\<rparr>))"

definition run_posted :: "('a \<Rightarrow> 'a effect) \<Rightarrow> 'a \<Rightarrow> 'a io_context \<Rightarrow> 'a io_context" where
  "run_posted eff f c =
     (let c = call eff f c in c\<lparr>ic_handlers_executed := ic_handlers_executed c + 1, ic_ran := ic_ran c @ [f]\<rparr>)"

definition execute_pending :: "('a \<Rightarrow> 'a effect) \<Rightarrow> 'a io_context \<Rightarrow> 'a io_context" where
  "execute_pending eff c = fold (run_posted eff) (ic_pending c) (c\<lparr>ic_pending := []\<rparr>)"

text \<open>\<^verbatim>\<open>static_cast<int>\<close> of the milliseconds to the next deadline, or 100 without timers.\<close>

definition int32_cast :: "int \<Rightarrow> int" where
  "int32_cast n = (n + 2 ^ 31) mod 2 ^ 32 - 2 ^ 31"

definition next_timer_timeout_ms :: "int \<Rightarrow> 'a io_context \<Rightarrow> int" where
  "next_timer_timeout_ms now c =
     (if ic_timers c = [] then 100
      else let diff = Min (fst ` set (ic_timers c)) - now in
        if diff \<le> 0 then 0 else int32_cast (diff div 1000000))"

text \<open>A pass of \<^verbatim>\<open>run\<close>: the backend resumes coroutines, then timers, then posted functions.\<close>

definition loop_pass :: "('a \<Rightarrow> 'a effect) \<Rightarrow> int \<Rightarrow> 'a list \<Rightarrow> 'a io_context \<Rightarrow> 'a io_context \<Rightarrow> bool" where
  "loop_pass eff now resumed c c' \<longleftrightarrow>
     (\<exists>m. process_timers eff now (fold (call eff) resumed c) m \<and> c' = execute_pending eff m)"

definition run_one :: "('a \<Rightarrow> 'a effect) \<Rightarrow> int \<Rightarrow> 'a list \<Rightarrow> 'a io_context \<Rightarrow> 'a io_context \<Rightarrow> nat \<Rightarrow> bool" where
  "run_one eff now resumed c c' n \<longleftrightarrow>
     (if ic_stopped c then c' = c \<and> n = 0
      else loop_pass eff now resumed (c\<lparr>ic_handlers_executed := 0\<rparr>) c' \<and> n = ic_handlers_executed c')"

text \<open>\<^verbatim>\<open>run\<close> and \<^verbatim>\<open>run_until_complete\<close>: the states they can return in; other threads may post between passes.\<close>

inductive run_returns :: "('a \<Rightarrow> 'a effect) \<Rightarrow> 'a io_context \<Rightarrow> 'a io_context \<Rightarrow> bool" where
  run_stops: "ic_stopped c \<Longrightarrow> run_returns eff c c"
| run_passes: "\<not> ic_stopped c \<Longrightarrow> loop_pass eff now resumed c c' \<Longrightarrow> run_returns eff c' c'' \<Longrightarrow> run_returns eff c c''"
| run_posted_to: "run_returns eff (post_impl f c) c' \<Longrightarrow> run_returns eff c c'"

definition all_work_done :: "'a io_context \<Rightarrow> bool" where
  "all_work_done c \<longleftrightarrow> ic_work_count c = 0 \<and> ic_pending c = []"

inductive run_until_complete :: "('a \<Rightarrow> 'a effect) \<Rightarrow> 'a io_context \<Rightarrow> 'a io_context \<Rightarrow> bool" where
  ruc_stops: "ic_stopped c \<or> all_work_done c \<Longrightarrow> run_until_complete eff c c"
| ruc_passes: "\<not> ic_stopped c \<Longrightarrow> \<not> all_work_done c \<Longrightarrow> loop_pass eff now resumed c c' \<Longrightarrow> run_until_complete eff c' c'' \<Longrightarrow>
    run_until_complete eff c c''"

section \<open>Timers\<close>

lemma expire_facts:
  assumes "expire now ts es rest"
  shows "mset ts = mset es + mset rest" and "sorted (map fst es)" and "\<forall>t\<in>set es. fst t \<le> now" and "\<forall>t\<in>set rest. now < fst t"
    and "\<forall>t\<in>set es. \<exists>u\<in>set ts. u = t"
  using assms
proof (induction rule: expire.induct)
  case (expire_none now ts)
  case 1 show ?case by simp
  case 2 show ?case by simp
  case 3 show ?case by simp
  case 4 show ?case using expire_none by (auto simp: list_all_iff)
  case 5 show ?case by simp
next
  case (expire_one t ts now es rest)
  have sub: "set es \<subseteq> set ts" using expire_one.IH(5) notin_set_remove1 by (metis subsetI)
  case 1 show ?case using expire_one.IH(1) expire_one.hyps(1) by (metis add_mset_add_single mset.simps(2) mset_remove1 insert_DiffM set_mset_mset union_mset_add_mset_left)
  case 2 show ?case using expire_one.IH(2) expire_one.hyps(2) sub by (auto simp: list_all_iff)
  case 3 show ?case using expire_one.IH(3) expire_one.hyps(3) by simp
  case 4 show ?case using expire_one.IH(4) .
  case 5 show ?case using sub expire_one.hyps(1) by auto
qed

lemma expire_exists: "\<exists>es rest. expire now ts es rest"
proof (induction "length ts" arbitrary: ts rule: less_induct)
  case less
  show ?case
  proof (cases "list_all (\<lambda>t. now < fst t) ts")
    case True
    then show ?thesis using expire_none by blast
  next
    case False
    then have ne: "ts \<noteq> []" by auto
    obtain t where t: "t \<in> set ts" "fst t = Min (fst ` set ts)" using Min_in [of "fst ` set ts"] ne by fastforce
    have least: "list_all (\<lambda>u. fst t \<le> fst u) ts" using t(2) by (simp add: list_all_iff)
    moreover obtain u where "u \<in> set ts" "fst u \<le> now" using False by (auto simp: list_all_iff not_less)
    ultimately have due: "fst t \<le> now" by (auto simp: list_all_iff intro: order_trans)
    have "length (remove1 t ts) < length ts" using t(1) by (simp add: length_remove1 ne)
    from less [OF this] obtain es rest where "expire now (remove1 t ts) es rest" by blast
    then show ?thesis using expire_one [OF t(1) least due] by blast
  qed
qed

section \<open>What a pass runs\<close>

definition posts_of :: "('a \<Rightarrow> 'a effect) \<Rightarrow> 'a list \<Rightarrow> 'a list" where
  "posts_of eff fs = concat (map (\<lambda>f. ef_posts (eff f)) fs)"

lemma posts_of_simps [simp]:
  "posts_of eff [] = []" "posts_of eff (f # fs) = ef_posts (eff f) @ posts_of eff fs"
  "posts_of eff (fs @ gs) = posts_of eff fs @ posts_of eff gs"
  by (simp_all add: posts_of_def)

lemma fold_post_impl [simp]:
  "ic_pending (fold post_impl fs c) = ic_pending c @ fs" "ic_posted (fold post_impl fs c) = ic_posted c @ fs"
  "ic_ran (fold post_impl fs c) = ic_ran c" "ic_timers (fold post_impl fs c) = ic_timers c"
  "ic_handlers_executed (fold post_impl fs c) = ic_handlers_executed c"
  by (induction fs arbitrary: c) (auto simp: post_impl_def)

lemma fold_post_at [simp]:
  "ic_pending (fold (\<lambda>(d, g). post_at d g) ts c) = ic_pending c" "ic_posted (fold (\<lambda>(d, g). post_at d g) ts c) = ic_posted c"
  "ic_ran (fold (\<lambda>(d, g). post_at d g) ts c) = ic_ran c" "ic_timers (fold (\<lambda>(d, g). post_at d g) ts c) = rev ts @ ic_timers c"
  "ic_handlers_executed (fold (\<lambda>(d, g). post_at d g) ts c) = ic_handlers_executed c"
  by (induction ts arbitrary: c) (auto simp: post_at_def)

lemma call_facts [simp]:
  "ic_pending (call eff f c) = ic_pending c @ ef_posts (eff f)" "ic_posted (call eff f c) = ic_posted c @ ef_posts (eff f)"
  "ic_ran (call eff f c) = ic_ran c" "ic_timers (call eff f c) = rev (ef_timers (eff f)) @ ic_timers c"
  "ic_handlers_executed (call eff f c) = ic_handlers_executed c"
  by (simp_all add: call_def Let_def)

lemma fold_call [simp]:
  "ic_pending (fold (call eff) fs c) = ic_pending c @ posts_of eff fs" "ic_posted (fold (call eff) fs c) = ic_posted c @ posts_of eff fs"
  "ic_ran (fold (call eff) fs c) = ic_ran c" "ic_handlers_executed (fold (call eff) fs c) = ic_handlers_executed c"
  by (induction fs arbitrary: c) auto

lemma fold_call_timers: "\<exists>new. ic_timers (fold (call eff) fs c) = new @ ic_timers c"
proof (induction fs arbitrary: c)
  case (Cons f fs)
  then show ?case using Cons [of "call eff f c"] by auto
qed simp

lemma run_expired_facts [simp]:
  "ic_pending (run_expired eff es c) = ic_pending c @ posts_of eff (map snd es)"
  "ic_posted (run_expired eff es c) = ic_posted c @ posts_of eff (map snd es)"
  "ic_ran (run_expired eff es c) = ic_ran c"
  "ic_handlers_executed (run_expired eff es c) = ic_handlers_executed c + length es"
  unfolding run_expired_def by (induction es arbitrary: c) auto

lemma run_expired_timers: "\<exists>new. ic_timers (run_expired eff es c) = new @ ic_timers c"
  unfolding run_expired_def
proof (induction es arbitrary: c)
  case (Cons e es)
  then show ?case using Cons [of "(call eff (snd e) c)\<lparr>ic_handlers_executed := Suc (ic_handlers_executed c)\<rparr>"] by (auto simp: case_prod_unfold)
qed simp

lemma fold_run_posted [simp]:
  "ic_pending (fold (run_posted eff) fs c) = ic_pending c @ posts_of eff fs"
  "ic_posted (fold (run_posted eff) fs c) = ic_posted c @ posts_of eff fs"
  "ic_ran (fold (run_posted eff) fs c) = ic_ran c @ fs"
  "ic_handlers_executed (fold (run_posted eff) fs c) = ic_handlers_executed c + length fs"
  by (induction fs arbitrary: c) (auto simp: run_posted_def Let_def)

lemma fold_run_posted_timers: "\<exists>new. ic_timers (fold (run_posted eff) fs c) = new @ ic_timers c"
proof (induction fs arbitrary: c)
  case (Cons f fs)
  then show ?case using Cons [of "run_posted eff f c"] by (auto simp: run_posted_def Let_def)
qed simp

lemma loop_pass_facts:
  assumes "loop_pass eff now resumed c c'"
  obtains es rest set_before set_after where
    "expire now (set_before @ ic_timers c) es rest" "ic_timers c' = set_after @ rest"
    "ic_ran c' = ic_ran c @ ic_pending c @ posts_of eff (resumed @ map snd es)"
    "ic_pending c' = posts_of eff (ic_pending c @ posts_of eff (resumed @ map snd es))"
    "ic_posted c' = ic_posted c @ posts_of eff (resumed @ map snd es) @ ic_pending c'"
    "ic_handlers_executed c' = ic_handlers_executed c + length es + length (ic_pending c @ posts_of eff (resumed @ map snd es))"
proof -
  let ?r = "fold (call eff) resumed c"
  from assms obtain es rest where e: "expire now (ic_timers ?r) es rest"
    and c': "c' = execute_pending eff (run_expired eff es (?r\<lparr>ic_timers := rest\<rparr>))"
    by (auto simp: loop_pass_def process_timers_def)
  obtain b where b: "ic_timers ?r = b @ ic_timers c" using fold_call_timers by blast
  obtain m where m: "ic_timers (run_expired eff es (?r\<lparr>ic_timers := rest\<rparr>)) = m @ rest"
    using run_expired_timers [of eff es "?r\<lparr>ic_timers := rest\<rparr>"] by auto
  obtain a where "ic_timers c' = a @ m @ rest"
    using fold_run_posted_timers m unfolding c' execute_pending_def by (metis io_context.select_convs(4) io_context.update_convs(3) io_context.surjective)
  then show ?thesis using e b that [of b es rest "a @ m"] by (simp add: c' execute_pending_def)
qed

text \<open>
  C16: A pass of the loop runs the functions that were posted before it, in the order of posting, followed by those that
  its coroutines and timers post; what these functions post themselves waits for the next pass, so a function
  that posts itself does not keep the loop from its sockets and timers.  The timers it runs are those that are
  due, none earlier than its deadline and in the order of the deadlines; no timer that is due stays behind.
\<close>

theorem event_loop_pass:
  assumes "loop_pass eff now resumed c c'"
  shows "\<exists>es rest set_before set_after.
    (let q = ic_pending c @ posts_of eff (resumed @ map snd es) in
      ic_ran c' = ic_ran c @ q \<and> ic_pending c' = posts_of eff q \<and>
      ic_handlers_executed c' = ic_handlers_executed c + length es + length q) \<and>
    mset (set_before @ ic_timers c) = mset es + mset rest \<and> sorted (map fst es) \<and>
    list_all (\<lambda>t. fst t \<le> now) es \<and> list_all (\<lambda>t. now < fst t) rest \<and> ic_timers c' = set_after @ rest"
proof -
  from loop_pass_facts [OF assms] obtain es rest b a where f:
    "expire now (b @ ic_timers c) es rest" "ic_timers c' = a @ rest"
    "ic_ran c' = ic_ran c @ ic_pending c @ posts_of eff (resumed @ map snd es)"
    "ic_pending c' = posts_of eff (ic_pending c @ posts_of eff (resumed @ map snd es))"
    "ic_handlers_executed c' = ic_handlers_executed c + length es + length (ic_pending c @ posts_of eff (resumed @ map snd es))"
    by metis
  show ?thesis
    using f expire_facts [OF f(1)] by (intro exI [of _ es] exI [of _ rest] exI [of _ b] exI [of _ a]) (simp add: list_all_iff Let_def)
qed

lemma loop_pass_exists: "\<exists>c'. loop_pass eff now resumed c c'"
  using expire_exists by (fastforce simp: loop_pass_def process_timers_def)

section \<open>Order over many passes\<close>

text \<open>Posting from any thread, setting timers, stopping, and passes of the loop.\<close>

inductive io_step :: "('a \<Rightarrow> 'a effect) \<Rightarrow> 'a io_context \<Rightarrow> 'a io_context \<Rightarrow> bool" for eff where
  io_posts: "io_step eff c (post_impl f c)"
| io_sets_timer: "io_step eff c (post_at d f c)"
| io_stops: "io_step eff c (io_stop c)"
| io_passes: "loop_pass eff now resumed c c' \<Longrightarrow> io_step eff c c'"

lemma loop_pass_order:
  assumes "loop_pass eff now resumed c c'"
  shows "\<exists>a b. ic_ran c' = ic_ran c @ ic_pending c @ a \<and> ic_pending c' = b \<and> ic_posted c' = ic_posted c @ a @ b"
  using loop_pass_facts [OF assms] by metis

interpretation event_loop: fifo_executor "io_step eff" ic_posted ic_ran ic_pending for eff
proof
  fix c c' :: "'a io_context"
  assume step: "io_step eff c c'"
  show "\<exists>later. ic_posted c' = ic_posted c @ later"
    using step by (cases rule: io_step.cases) (auto simp: post_impl_def post_at_def io_stop_def dest: loop_pass_order)
  assume order: "ic_ran c @ ic_pending c = ic_posted c"
  show "ic_ran c' @ ic_pending c' = ic_posted c'"
    using step
  proof (cases rule: io_step.cases)
    case (io_passes now resumed)
    from loop_pass_order [OF this] order show ?thesis by (metis append_assoc)
  qed (use order in \<open>auto simp: post_impl_def post_at_def io_stop_def\<close>)
qed

lemma event_loop_order:
  assumes "(io_step eff)\<^sup>*\<^sup>* io_context_new c"
  shows "ic_ran c @ ic_pending c = ic_posted c"
  using event_loop.steps_fifo [OF assms] by (simp add: io_context_new_def)

text \<open>
  In whatever way posts, timers and passes interleave, posted functions are run once each, in the order of
  posting, and a pass runs everything that was posted before it.
\<close>

theorem event_loop_runs_all:
  assumes "(io_step eff)\<^sup>*\<^sup>* io_context_new c" and "loop_pass eff now resumed c c'"
  shows "ic_ran c @ ic_pending c = ic_posted c \<and> prefix (ic_posted c) (ic_ran c') \<and> prefix (ic_ran c') (ic_posted c')"
proof -
  have o: "ic_ran c @ ic_pending c = ic_posted c" using event_loop_order [OF assms(1)] .
  from loop_pass_order [OF assms(2)] obtain a where "ic_ran c' = ic_ran c @ ic_pending c @ a" "ic_posted c' = ic_posted c @ a @ ic_pending c'"
    by blast
  then show ?thesis using o by (metis append_assoc prefixI)
qed

definition repost :: "nat \<Rightarrow> nat effect" where
  "repost f = \<lparr>ef_posts = (if f = 1 then [2] else []), ef_timers = [], ef_work = (\<lambda>n. n), ef_stops = False\<rparr>"

lemma repost_pass:
  "loop_pass repost 9 [] (post_impl 1 io_context_new) (execute_pending repost (post_impl 1 io_context_new))"
  unfolding loop_pass_def process_timers_def
  by (intro exI [of _ "post_impl 1 io_context_new"] conjI exI [of _ "[]"] refl)
     (auto simp: run_expired_def post_impl_def io_context_new_def intro: expire_none)

theorem event_loop_pass_witness:
  "ic_ran (execute_pending repost (post_impl 1 io_context_new)) = [1] \<and> ic_pending (execute_pending repost (post_impl 1 io_context_new)) = [2]"
proof -
  have "ic_ran (execute_pending repost (post_impl 1 io_context_new)) = [1]"
    "ic_pending (execute_pending repost (post_impl 1 io_context_new)) = [2]"
    by (simp_all add: execute_pending_def run_posted_def Let_def post_impl_def io_context_new_def repost_def)
  then show ?thesis using event_loop_pass [OF repost_pass] by simp
qed

theorem event_loop_runs_all_witness:
  "prefix [1] (ic_ran (execute_pending repost (post_impl 1 io_context_new)))"
proof -
  have "(io_step repost)\<^sup>*\<^sup>* io_context_new (post_impl 1 io_context_new)" by (blast intro: io_posts)
  from event_loop_runs_all [OF this repost_pass] show ?thesis by (simp add: post_impl_def io_context_new_def)
qed

section \<open>Waiting for the next timer\<close>

lemma int32_cast_small: "0 \<le> n \<Longrightarrow> n < 2 ^ 31 \<Longrightarrow> int32_cast n = n"
  by (simp add: int32_cast_def)

lemma int32_cast_wraps: "2 ^ 31 \<le> n \<Longrightarrow> n < 2 ^ 32 \<Longrightarrow> int32_cast n = n - 2 ^ 32"
proof -
  assume "2 ^ 31 \<le> n" "n < 2 ^ 32"
  then have "(n - 2 ^ 31) mod 2 ^ 32 = n - 2 ^ 31" by (intro mod_pos_pos_trivial) simp_all
  moreover have "n + 2 ^ 31 = (n - 2 ^ 31) + 2 ^ 32" by simp
  ultimately have "(n + 2 ^ 31) mod 2 ^ 32 = n - 2 ^ 31" by (metis mod_add_self2)
  then show ?thesis by (simp add: int32_cast_def)
qed

text \<open>
  The loop asks the backend to wait no longer than to the next deadline, in whole milliseconds and less than one
  short of it, when that is at most $2^{31}$ milliseconds away.  For a timer between 24.8 and 49.7 days away the
  cast gives a negative number, which the backends take for no limit.
\<close>

theorem timer_timeout:
  assumes "ic_timers c \<noteq> []" and ms_def: "ms = (Min (fst ` set (ic_timers c)) - now) div 1000000"
  shows "(ms < 2 ^ 31 \<longrightarrow> 0 \<le> next_timer_timeout_ms now c \<and>
      list_all (\<lambda>t. now < fst t \<longrightarrow> now + next_timer_timeout_ms now c * 1000000 \<le> fst t) (ic_timers c) \<and>
      (\<exists>t\<in>set (ic_timers c). fst t < now + (next_timer_timeout_ms now c + 1) * 1000000)) \<and>
    (2 ^ 31 \<le> ms \<and> ms < 2 ^ 32 \<longrightarrow> next_timer_timeout_ms now c < 0)"
proof -
  define m where "m = Min (fst ` set (ic_timers c))"
  have least: "m \<le> fst t" if "t \<in> set (ic_timers c)" for t using that by (simp add: m_def)
  obtain t where t: "t \<in> set (ic_timers c)" "fst t = m"
    using Min_in [of "fst ` set (ic_timers c)"] assms(1) unfolding m_def by fastforce
  have ms: "ms = (m - now) div 1000000" by (simp add: ms_def m_def)
  have out: "next_timer_timeout_ms now c = (if m - now \<le> 0 then 0 else int32_cast ms)"
    unfolding next_timer_timeout_ms_def Let_def m_def [symmetric] ms using assms(1) by simp
  have split: "m - now = ms * 1000000 + (m - now) mod 1000000" unfolding ms by simp
  moreover have "0 \<le> (m - now) mod 1000000" "(m - now) mod 1000000 < 1000000" by simp_all
  ultimately have lower: "now + ms * 1000000 \<le> m" and upper: "m < now + (ms + 1) * 1000000"
    unfolding distrib_right mult_1_left by linarith+
  have nonneg: "0 \<le> ms" if "0 < m - now" using that unfolding ms by (simp add: pos_imp_zdiv_nonneg_iff)
  have "0 \<le> next_timer_timeout_ms now c \<and>
      list_all (\<lambda>t. now < fst t \<longrightarrow> now + next_timer_timeout_ms now c * 1000000 \<le> fst t) (ic_timers c) \<and>
      (\<exists>t\<in>set (ic_timers c). fst t < now + (next_timer_timeout_ms now c + 1) * 1000000)" if "ms < 2 ^ 31"
  proof -
    have val: "next_timer_timeout_ms now c = (if m - now \<le> 0 then 0 else ms)" using out int32_cast_small nonneg that by simp
    show ?thesis unfolding val list_all_iff
      using lower upper nonneg least t(1) t(2) by (fastforce intro: bexI [OF _ t(1)] dest: least)
  qed
  moreover have "next_timer_timeout_ms now c < 0" if "2 ^ 31 \<le> ms \<and> ms < 2 ^ 32"
  proof -
    have "0 < m - now" using lower that by simp
    then show ?thesis using out int32_cast_wraps [of ms] that by simp
  qed
  ultimately show ?thesis by blast
qed

theorem timer_timeout_witness:
  "next_timer_timeout_ms 0 (post_at 2500000 () io_context_new) \<ge> 0 \<and>
   next_timer_timeout_ms 0 (post_at (30 * 86400 * 1000000000) () io_context_new) < 0"
  using timer_timeout [of "post_at 2500000 () io_context_new" 2 0]
    timer_timeout [of "post_at (30 * 86400 * 1000000000) () io_context_new" "30 * 86400 * 1000" 0]
  by (simp add: post_at_def io_context_new_def)

section \<open>Running to completion\<close>

text \<open>
  Timers are not work: \<^verbatim>\<open>run_until_complete\<close> returns at once when only timers are left, and their functions are
  not run.
\<close>

lemma run_until_complete_drops_timers:
  "run_until_complete eff (post_at d f io_context_new) c \<longleftrightarrow> c = post_at d f io_context_new"
proof
  have idle: "all_work_done (post_at d f io_context_new)" by (simp add: all_work_done_def post_at_def io_context_new_def)
  assume "run_until_complete eff (post_at d f io_context_new) c"
  then show "c = post_at d f io_context_new" using idle by cases auto
next
  assume "c = post_at d f io_context_new"
  then show "run_until_complete eff (post_at d f io_context_new) c"
    by (simp add: all_work_done_def post_at_def io_context_new_def ruc_stops)
qed

text \<open>When it returns without a stop, nothing posted is left.\<close>

lemma run_until_complete_done:
  assumes "run_until_complete eff c c'"
  shows "ic_stopped c' \<or> all_work_done c'"
  using assms by (induction rule: run_until_complete.induct) auto

end
