(* ===== verification/Epoll.thy ===== *)
theory Epoll
  imports Net_Prelude
begin

text \<open>
  The epoll backend of \<^verbatim>\<open>src/io/epoll_backend.cpp\<close> and the operation contexts of
  \<^verbatim>\<open>include/async_net/io/operation_context.hpp\<close>.  The two maps \<^verbatim>\<open>read_ops_\<close> and \<^verbatim>\<open>write_ops_\<close> are one map
  indexed by the direction.  What the system calls return is an argument of the operation that makes them;
  \<open>ep_kernel\<close> is the interest list of the epoll descriptor.  A context is its identity; \<open>ep_completed\<close> logs the
  calls of \<^verbatim>\<open>complete\<close> and \<open>ep_submitted\<close> the contexts handed to the backend.
\<close>

datatype op_type =
  Op_Read | Op_Write | Op_Accept | Op_Connect | Op_RecvFrom | Op_SendTo | Op_Timer | Op_WaitReadable | Op_WaitWritable | Op_Custom

datatype direction = Rd | Wr

record pending_op =
  po_type :: op_type
  po_ctx :: nat

record epoll_backend =
  ep_wake_fd :: nat
  ep_ops :: "direction \<Rightarrow> nat \<rightharpoonup> pending_op"
  ep_fd_events :: "nat \<rightharpoonup> u32"
  ep_kernel :: "nat \<rightharpoonup> u32"
  ep_deferred :: "(nat \<times> nat \<times> bool) list"
  ep_in_poll :: bool
  ep_completed :: "(nat \<times> int \<times> int) list"
  ep_submitted :: "nat list"

definition EPOLLIN :: u32 where "EPOLLIN = 1"
definition EPOLLOUT :: u32 where "EPOLLOUT = 4"
definition EPOLLERR :: u32 where "EPOLLERR = 8"
definition EPOLLHUP :: u32 where "EPOLLHUP = 16"

text \<open>A system call transfers or accepts something, would block (\<^verbatim>\<open>connect\<close>: is in progress), or fails with an error number.\<close>

datatype sys_result = Sys_Ok int | Sys_Would_Block | Sys_Error int

definition op_result :: "int \<Rightarrow> int \<Rightarrow> int" where
  "op_result r e = (if e \<noteq> 0 then - 1 else r)"

definition op_complete :: "nat \<Rightarrow> int \<Rightarrow> int \<Rightarrow> epoll_backend \<Rightarrow> epoll_backend" where
  "op_complete ctx r e s = s\<lparr>ep_completed := ep_completed s @ [(ctx, r, e)]\<rparr>"

definition set_op :: "direction \<Rightarrow> nat \<Rightarrow> pending_op option \<Rightarrow> epoll_backend \<Rightarrow> epoll_backend" where
  "set_op d fd op s = s\<lparr>ep_ops := (ep_ops s)(d := (ep_ops s d)(fd := op))\<rparr>"

text \<open>The second argument of \<^verbatim>\<open>update_events\<close> is not used by the code.\<close>

definition needed_events :: "epoll_backend \<Rightarrow> nat \<Rightarrow> u32" where
  "needed_events s fd =
     (if ep_ops s Rd fd \<noteq> None \<and> ep_ops s Wr fd \<noteq> None then EPOLLIN OR EPOLLOUT
      else if ep_ops s Rd fd \<noteq> None then EPOLLIN
      else if ep_ops s Wr fd \<noteq> None then EPOLLOUT
      else 0)"

definition update_events :: "nat \<Rightarrow> epoll_backend \<Rightarrow> epoll_backend" where
  "update_events fd s =
     (let new_events = needed_events s fd in
      if ep_fd_events s fd = Some new_events then s
      else s\<lparr>ep_kernel := (ep_kernel s)(fd \<mapsto> new_events), ep_fd_events := (ep_fd_events s)(fd \<mapsto> new_events)\<rparr>)"

definition register_impl :: "bool \<Rightarrow> nat \<Rightarrow> epoll_backend \<Rightarrow> bool \<times> epoll_backend" where
  "register_impl added fd s =
     (if \<not> added then (False, s)
      else (True, s\<lparr>ep_kernel := (ep_kernel s)(fd \<mapsto> 0), ep_fd_events := (ep_fd_events s)(fd \<mapsto> 0)\<rparr>))"

definition deregister_impl :: "nat \<Rightarrow> epoll_backend \<Rightarrow> epoll_backend" where
  "deregister_impl fd s =
     (let s = set_op Wr fd None (set_op Rd fd None s)
      in s\<lparr>ep_kernel := (ep_kernel s)(fd := None), ep_fd_events := (ep_fd_events s)(fd := None)\<rparr>)"

text \<open>\<^verbatim>\<open>try_complete_read\<close> and \<^verbatim>\<open>try_complete_write\<close>.\<close>

definition try_complete :: "direction \<Rightarrow> nat \<Rightarrow> sys_result \<Rightarrow> epoll_backend \<Rightarrow> epoll_backend" where
  "try_complete d fd res s =
     (case ep_ops s d fd of
        None \<Rightarrow> s
      | Some op \<Rightarrow>
          case res of
            Sys_Ok n \<Rightarrow> update_events fd (set_op d fd None (op_complete (po_ctx op) n 0 s))
          | Sys_Error e \<Rightarrow> update_events fd (set_op d fd None (op_complete (po_ctx op) (- 1) e s))
          | Sys_Would_Block \<Rightarrow> s)"

definition submit :: "nat \<Rightarrow> epoll_backend \<Rightarrow> epoll_backend" where
  "submit ctx s = s\<lparr>ep_submitted := ep_submitted s @ [ctx]\<rparr>"

text \<open>\<^verbatim>\<open>async_read_impl\<close>, \<^verbatim>\<open>async_recvfrom_impl\<close> (direction \<open>Rd\<close>), \<^verbatim>\<open>async_write_impl\<close>, \<^verbatim>\<open>async_sendto_impl\<close> (\<open>Wr\<close>).\<close>

definition async_transfer :: "direction \<Rightarrow> op_type \<Rightarrow> nat \<Rightarrow> nat \<Rightarrow> sys_result \<Rightarrow> epoll_backend \<Rightarrow> epoll_backend" where
  "async_transfer d t fd ctx res s =
     try_complete d fd res (update_events fd (set_op d fd (Some \<lparr>po_type = t, po_ctx = ctx\<rparr>) (submit ctx s)))"

definition async_read_impl :: "nat \<Rightarrow> nat \<Rightarrow> sys_result \<Rightarrow> epoll_backend \<Rightarrow> epoll_backend" where
  "async_read_impl = async_transfer Rd Op_Read"

definition async_recvfrom_impl :: "nat \<Rightarrow> nat \<Rightarrow> sys_result \<Rightarrow> epoll_backend \<Rightarrow> epoll_backend" where
  "async_recvfrom_impl = async_transfer Rd Op_RecvFrom"

definition async_write_impl :: "nat \<Rightarrow> nat \<Rightarrow> sys_result \<Rightarrow> epoll_backend \<Rightarrow> epoll_backend" where
  "async_write_impl = async_transfer Wr Op_Write"

definition async_sendto_impl :: "nat \<Rightarrow> nat \<Rightarrow> sys_result \<Rightarrow> epoll_backend \<Rightarrow> epoll_backend" where
  "async_sendto_impl = async_transfer Wr Op_SendTo"

text \<open>A failed \<^verbatim>\<open>accept\<close> leaves the operation pending, whatever the error.\<close>

definition async_accept_impl :: "nat \<Rightarrow> nat \<Rightarrow> sys_result \<Rightarrow> epoll_backend \<Rightarrow> epoll_backend" where
  "async_accept_impl fd ctx res s =
     (let s = update_events fd (set_op Rd fd (Some \<lparr>po_type = Op_Accept, po_ctx = ctx\<rparr>) (submit ctx s))
      in case res of
           Sys_Ok n \<Rightarrow> update_events fd (set_op Rd fd None (op_complete ctx 0 0 s))
         | _ \<Rightarrow> s)"

definition async_connect_impl :: "nat \<Rightarrow> nat \<Rightarrow> sys_result \<Rightarrow> epoll_backend \<Rightarrow> epoll_backend" where
  "async_connect_impl fd ctx res s =
     (case res of
        Sys_Ok n \<Rightarrow> op_complete ctx 0 0 (submit ctx s)
      | Sys_Error e \<Rightarrow> op_complete ctx (- 1) e (submit ctx s)
      | Sys_Would_Block \<Rightarrow> update_events fd (set_op Wr fd (Some \<lparr>po_type = Op_Connect, po_ctx = ctx\<rparr>) (submit ctx s)))"

definition wait_op :: "nat \<Rightarrow> nat \<Rightarrow> bool \<Rightarrow> epoll_backend \<Rightarrow> epoll_backend" where
  "wait_op fd ctx readable s =
     (if readable then update_events fd (set_op Rd fd (Some \<lparr>po_type = Op_WaitReadable, po_ctx = ctx\<rparr>) s)
      else update_events fd (set_op Wr fd (Some \<lparr>po_type = Op_WaitWritable, po_ctx = ctx\<rparr>) s))"

text \<open>\<^verbatim>\<open>async_wait_readable_impl\<close> and \<^verbatim>\<open>async_wait_writable_impl\<close>.\<close>

definition async_wait_impl :: "nat \<Rightarrow> nat \<Rightarrow> bool \<Rightarrow> epoll_backend \<Rightarrow> epoll_backend" where
  "async_wait_impl fd ctx readable s =
     (if ep_in_poll s then (submit ctx s)\<lparr>ep_deferred := ep_deferred s @ [(fd, ctx, readable)]\<rparr>
      else wait_op fd ctx readable (submit ctx s))"

definition process_deferred_waits :: "epoll_backend \<Rightarrow> epoll_backend" where
  "process_deferred_waits s = fold (\<lambda>(fd, ctx, readable). wait_op fd ctx readable) (ep_deferred s) (s\<lparr>ep_deferred := []\<rparr>)"

record ep_event =
  ev_fd :: nat
  ev_events :: u32
  ev_read :: sys_result
  ev_write :: sys_result
  ev_so_error :: int

text \<open>What an event does to a pending operation: \<open>None\<close> when it stays pending.\<close>

definition transfer_outcome :: "sys_result \<Rightarrow> (int \<times> int) option" where
  "transfer_outcome res = (case res of Sys_Ok n \<Rightarrow> Some (n, 0) | Sys_Error e \<Rightarrow> Some (- 1, e) | Sys_Would_Block \<Rightarrow> None)"

definition event_outcome :: "direction \<Rightarrow> op_type \<Rightarrow> ep_event \<Rightarrow> (int \<times> int) option" where
  "event_outcome d t ev =
     (case d of
        Rd \<Rightarrow> (case t of
                 Op_Read \<Rightarrow> transfer_outcome (ev_read ev)
               | Op_RecvFrom \<Rightarrow> transfer_outcome (ev_read ev)
               | Op_Accept \<Rightarrow> (case ev_read ev of Sys_Ok n \<Rightarrow> Some (0, 0) | Sys_Error e \<Rightarrow> Some (- 1, e) | Sys_Would_Block \<Rightarrow> None)
               | Op_WaitReadable \<Rightarrow> Some (0, 0)
               | _ \<Rightarrow> None)
      | Wr \<Rightarrow> (case t of
                 Op_Write \<Rightarrow> transfer_outcome (ev_write ev)
               | Op_SendTo \<Rightarrow> transfer_outcome (ev_write ev)
               | Op_Connect \<Rightarrow> Some (if ev_so_error ev = 0 then 0 else - 1, ev_so_error ev)
               | Op_WaitWritable \<Rightarrow> Some (0, 0)
               | _ \<Rightarrow> None))"

definition event_flags :: "direction \<Rightarrow> u32" where
  "event_flags d = (case d of Rd \<Rightarrow> EPOLLIN OR EPOLLHUP OR EPOLLERR | Wr \<Rightarrow> EPOLLOUT OR EPOLLHUP OR EPOLLERR)"

text \<open>
  The state of the loop over the events: the backend, \<^verbatim>\<open>to_resume\<close>, and \<^verbatim>\<open>erase_reads\<close> and \<^verbatim>\<open>erase_writes\<close>.  The
  finished operation is still in its map when \<^verbatim>\<open>update_events\<close> is called.
\<close>

type_synonym poll_state = "epoll_backend \<times> nat list \<times> (direction \<times> nat) list"

definition direction_event :: "ep_event \<Rightarrow> direction \<Rightarrow> poll_state \<Rightarrow> poll_state" where
  "direction_event ev d ps =
     (let (s, to_resume, erase) = ps in
      if ev_events ev AND event_flags d = 0 then ps
      else case ep_ops s d (ev_fd ev) of
             None \<Rightarrow> ps
           | Some op \<Rightarrow>
               (case event_outcome d (po_type op) ev of
                  None \<Rightarrow> ps
                | Some (r, e) \<Rightarrow>
                    let s = op_complete (po_ctx op) r e s;
                        s = (if po_type op = Op_Accept then s else update_events (ev_fd ev) s)
                    in (s, to_resume @ [po_ctx op], erase @ [(d, ev_fd ev)])))"

definition poll_event :: "ep_event \<Rightarrow> poll_state \<Rightarrow> poll_state" where
  "poll_event ev ps =
     (if ev_fd ev = ep_wake_fd (fst ps) then ps else direction_event ev Wr (direction_event ev Rd ps))"

definition erase_ops :: "(direction \<times> nat) list \<Rightarrow> epoll_backend \<Rightarrow> epoll_backend" where
  "erase_ops erase s = fold (\<lambda>(d, fd). set_op d fd None) erase s"

text \<open>\<^verbatim>\<open>poll_impl\<close> up to the resumption of the coroutines, with the contexts to resume; and what follows it.\<close>

definition poll_begin :: "ep_event list \<Rightarrow> epoll_backend \<Rightarrow> epoll_backend \<times> nat list" where
  "poll_begin events s =
     (let s = process_deferred_waits (s\<lparr>ep_in_poll := True\<rparr>);
          (s, to_resume, erase) = fold poll_event events (s, [], [])
      in (erase_ops erase s, to_resume))"

definition poll_end :: "epoll_backend \<Rightarrow> epoll_backend" where
  "poll_end s = (process_deferred_waits s)\<lparr>ep_in_poll := False\<rparr>"

inductive epoll_step :: "epoll_backend \<Rightarrow> epoll_backend \<Rightarrow> bool" where
  ep_register: "ep_kernel s fd = None \<Longrightarrow> epoll_step s (snd (register_impl added fd s))"
| ep_deregister: "epoll_step s (deregister_impl fd s)"
| ep_transfer: "ctx \<notin> set (ep_submitted s) \<Longrightarrow> epoll_step s (async_transfer d t fd ctx res s)"
| ep_accept: "ctx \<notin> set (ep_submitted s) \<Longrightarrow> epoll_step s (async_accept_impl fd ctx res s)"
| ep_connect: "ctx \<notin> set (ep_submitted s) \<Longrightarrow> epoll_step s (async_connect_impl fd ctx res s)"
| ep_wait: "ctx \<notin> set (ep_submitted s) \<Longrightarrow> epoll_step s (async_wait_impl fd ctx readable s)"
| ep_poll: "distinct (map ev_fd events) \<Longrightarrow> epoll_step s (fst (poll_begin events s))"
| ep_poll_end: "epoll_step s (poll_end s)"

definition epoll_new :: "nat \<Rightarrow> epoll_backend" where
  "epoll_new wake_fd = \<lparr>ep_wake_fd = wake_fd, ep_ops = (\<lambda>d. Map.empty), ep_fd_events = Map.empty, ep_kernel = [wake_fd \<mapsto> EPOLLIN],
     ep_deferred = [], ep_in_poll = False, ep_completed = [], ep_submitted = []\<rparr>"

section \<open>No wake-up is lost\<close>

text \<open>A descriptor with a pending operation is in the interest list with the operation's event.\<close>

definition dir_event :: "direction \<Rightarrow> u32" where
  "dir_event d = (case d of Rd \<Rightarrow> EPOLLIN | Wr \<Rightarrow> EPOLLOUT)"

definition wake_ok :: "epoll_backend \<Rightarrow> nat \<Rightarrow> bool" where
  "wake_ok s fd \<longleftrightarrow> (\<forall>d. ep_ops s d fd \<noteq> None \<longrightarrow> (\<exists>e. ep_kernel s fd = Some e \<and> e AND dir_event d \<noteq> 0))"

definition events_ok :: "epoll_backend \<Rightarrow> bool" where
  "events_ok s \<longleftrightarrow> (\<forall>fd e. ep_fd_events s fd = Some e \<longrightarrow> ep_kernel s fd = Some e)"

definition wake_inv :: "epoll_backend \<Rightarrow> bool" where
  "wake_inv s \<longleftrightarrow> events_ok s \<and> (\<forall>fd. wake_ok s fd)"

lemma needed_events_in: "ep_ops s d fd \<noteq> None \<Longrightarrow> needed_events s fd AND dir_event d \<noteq> 0"
  by (cases d) (auto simp: needed_events_def dir_event_def EPOLLIN_def EPOLLOUT_def)

lemma update_events_wakes:
  assumes "events_ok s" and "\<And>fd'. fd' \<noteq> fd \<Longrightarrow> wake_ok s fd'"
  shows "wake_inv (update_events fd s)"
proof -
  have ops: "ep_ops (update_events fd s) = ep_ops s" by (simp add: update_events_def Let_def)
  have fd: "ep_kernel (update_events fd s) fd = Some (needed_events s fd)"
    using assms(1) by (auto simp: update_events_def Let_def events_ok_def)
  have other: "ep_kernel (update_events fd s) fd' = ep_kernel s fd'" if "fd' \<noteq> fd" for fd'
    using that by (simp add: update_events_def Let_def)
  have "wake_ok (update_events fd s) fd'" for fd'
    using assms(2) [of fd'] needed_events_in [of s _ fd] by (cases "fd' = fd") (auto simp: wake_ok_def ops fd other)
  moreover have "events_ok (update_events fd s)" using assms(1) by (auto simp: update_events_def Let_def events_ok_def)
  ultimately show ?thesis by (simp add: wake_inv_def)
qed

lemma set_op_fields [simp]:
  "ep_kernel (set_op d fd op s) = ep_kernel s" "ep_fd_events (set_op d fd op s) = ep_fd_events s"
  "ep_deferred (set_op d fd op s) = ep_deferred s" "ep_in_poll (set_op d fd op s) = ep_in_poll s"
  "ep_completed (set_op d fd op s) = ep_completed s" "ep_submitted (set_op d fd op s) = ep_submitted s"
  "ep_wake_fd (set_op d fd op s) = ep_wake_fd s"
  by (simp_all add: set_op_def)

lemma set_op_ops: "ep_ops (set_op d fd op s) d' fd' = (if d' = d \<and> fd' = fd then op else ep_ops s d' fd')"
  by (simp add: set_op_def)

lemma wake_set_update:
  assumes "wake_inv s"
  shows "wake_inv (update_events fd (set_op d fd op s))"
  using assms by (intro update_events_wakes) (auto simp: wake_inv_def events_ok_def wake_ok_def set_op_ops)

lemma wake_erase: "wake_inv s \<Longrightarrow> wake_inv (set_op d fd None s)"
  by (auto simp: wake_inv_def events_ok_def wake_ok_def set_op_ops split: if_splits)

lemma wake_cong:
  assumes "wake_inv s" and "ep_ops t = ep_ops s" and "ep_kernel t = ep_kernel s" and "ep_fd_events t = ep_fd_events s"
  shows "wake_inv t"
  using assms by (simp add: wake_inv_def events_ok_def wake_ok_def)

lemma wake_simps [simp]:
  "wake_inv (op_complete c r e s) = wake_inv s" "wake_inv (submit c s) = wake_inv s"
  "wake_inv (s\<lparr>ep_deferred := q\<rparr>) = wake_inv s" "wake_inv (s\<lparr>ep_in_poll := b\<rparr>) = wake_inv s"
  by (auto simp: wake_inv_def events_ok_def wake_ok_def op_complete_def submit_def)

lemma wake_update: "wake_inv s \<Longrightarrow> wake_inv (update_events fd s)"
  by (rule update_events_wakes) (auto simp: wake_inv_def)

lemma wake_try_complete: "wake_inv s \<Longrightarrow> wake_inv (try_complete d fd res s)"
  by (auto simp: try_complete_def wake_set_update split: option.split sys_result.split)

lemma wake_wait_op: "wake_inv s \<Longrightarrow> wake_inv (wait_op fd ctx readable s)"
  by (simp add: wait_op_def wake_set_update)

lemma wake_deferred: "wake_inv s \<Longrightarrow> wake_inv (process_deferred_waits s)"
proof -
  have "wake_inv (fold (\<lambda>(fd, ctx, readable). wait_op fd ctx readable) q t)" if "wake_inv t" for q t
    using that by (induction q arbitrary: t) (auto simp: wake_wait_op)
  then show "wake_inv s \<Longrightarrow> wake_inv (process_deferred_waits s)" by (simp add: process_deferred_waits_def)
qed

lemma wake_direction_event: "wake_inv (fst ps) \<Longrightarrow> wake_inv (fst (direction_event ev d ps))"
  by (auto simp: direction_event_def Let_def wake_update split: prod.split option.split)

lemma wake_poll: "wake_inv s \<Longrightarrow> wake_inv (fst (poll_begin events s))"
proof -
  have events: "wake_inv (fst (fold poll_event events ps))" if "wake_inv (fst ps)" for ps
    using that by (induction events arbitrary: ps) (auto simp: poll_event_def wake_direction_event)
  have erase: "wake_inv (erase_ops er t)" if "wake_inv t" for er t
    using that unfolding erase_ops_def by (induction er arbitrary: t) (auto simp: wake_erase)
  show "wake_inv s \<Longrightarrow> wake_inv (fst (poll_begin events s))"
    using events [of "(process_deferred_waits (s\<lparr>ep_in_poll := True\<rparr>), [], [])"] erase wake_deferred
    by (simp add: poll_begin_def Let_def case_prod_unfold)
qed

lemma wake_inv_step:
  assumes "epoll_step s s'" and inv: "wake_inv s"
  shows "wake_inv s'"
  using assms(1)
proof (cases rule: epoll_step.cases)
  case (ep_register fd added)
  have "ep_ops s d fd = None" for d using inv ep_register(2) by (force simp: wake_inv_def wake_ok_def)
  then show ?thesis using inv ep_register(1) by (auto simp: register_impl_def wake_inv_def events_ok_def wake_ok_def)
next
  case (ep_deregister fd)
  then show ?thesis using inv
    by (auto simp: deregister_impl_def Let_def wake_inv_def events_ok_def wake_ok_def set_op_ops) (metis direction.exhaust)
qed (use inv in \<open>auto simp: async_transfer_def async_accept_impl_def async_connect_impl_def async_wait_impl_def Let_def
      poll_end_def wake_try_complete wake_set_update wake_wait_op wake_deferred wake_poll split: sys_result.split\<close>)

section \<open>Every context is completed at most once\<close>

definition holds_ctx :: "epoll_backend \<Rightarrow> direction \<Rightarrow> nat \<Rightarrow> nat \<Rightarrow> bool" where
  "holds_ctx s d fd c \<longleftrightarrow> (\<exists>op. ep_ops s d fd = Some op \<and> po_ctx op = c)"

definition deferred_ctxs :: "epoll_backend \<Rightarrow> nat list" where
  "deferred_ctxs s = map (\<lambda>(fd, c, r). c) (ep_deferred s)"

definition completed_ctxs :: "epoll_backend \<Rightarrow> nat list" where
  "completed_ctxs s = map fst (ep_completed s)"

text \<open>A context is in at most one place: with one descriptor and direction, among the deferred waits, or completed once.\<close>

definition ctx_inv :: "epoll_backend \<Rightarrow> bool" where
  "ctx_inv s \<longleftrightarrow> (\<forall>d fd d' fd' c. holds_ctx s d fd c \<longrightarrow> holds_ctx s d' fd' c \<longrightarrow> d = d' \<and> fd = fd') \<and>
     (\<forall>d fd c. holds_ctx s d fd c \<longrightarrow> c \<notin> set (deferred_ctxs s) \<and> c \<notin> set (completed_ctxs s) \<and> c \<in> set (ep_submitted s)) \<and>
     distinct (deferred_ctxs s @ completed_ctxs s) \<and> set (deferred_ctxs s @ completed_ctxs s) \<subseteq> set (ep_submitted s)"

definition ctx_free :: "epoll_backend \<Rightarrow> nat \<Rightarrow> bool" where
  "ctx_free s c \<longleftrightarrow> (\<forall>d fd. \<not> holds_ctx s d fd c) \<and> c \<notin> set (deferred_ctxs s) \<and> c \<notin> set (completed_ctxs s) \<and> c \<in> set (ep_submitted s)"

lemma holds_set_op:
  "holds_ctx (set_op d fd op s) d' fd' c \<longleftrightarrow> (if d' = d \<and> fd' = fd then \<exists>p. op = Some p \<and> po_ctx p = c else holds_ctx s d' fd' c)"
  by (simp add: holds_ctx_def set_op_ops)

lemma ctx_fields [simp]:
  "deferred_ctxs (set_op d fd op s) = deferred_ctxs s" "completed_ctxs (set_op d fd op s) = completed_ctxs s"
  "deferred_ctxs (op_complete c r e s) = deferred_ctxs s" "completed_ctxs (op_complete c r e s) = completed_ctxs s @ [c]"
  "holds_ctx (op_complete c r e s) = holds_ctx s" "ep_submitted (op_complete c r e s) = ep_submitted s"
  "deferred_ctxs (update_events fd s) = deferred_ctxs s" "completed_ctxs (update_events fd s) = completed_ctxs s"
  "holds_ctx (update_events fd s) = holds_ctx s" "ep_submitted (update_events fd s) = ep_submitted s"
  "deferred_ctxs (submit c s) = deferred_ctxs s" "completed_ctxs (submit c s) = completed_ctxs s"
  "holds_ctx (submit c s) = holds_ctx s" "ep_submitted (submit c s) = ep_submitted s @ [c]"
  by (auto simp: deferred_ctxs_def completed_ctxs_def holds_ctx_def op_complete_def update_events_def submit_def Let_def fun_eq_iff)

lemma ctx_deferred_fields [simp]:
  "holds_ctx (s\<lparr>ep_deferred := q\<rparr>) = holds_ctx s" "completed_ctxs (s\<lparr>ep_deferred := q\<rparr>) = completed_ctxs s"
  "deferred_ctxs (s\<lparr>ep_deferred := q\<rparr>) = map (\<lambda>(fd, c, r). c) q"
  "holds_ctx (s\<lparr>ep_in_poll := b\<rparr>) = holds_ctx s" "completed_ctxs (s\<lparr>ep_in_poll := b\<rparr>) = completed_ctxs s"
  "deferred_ctxs (s\<lparr>ep_in_poll := b\<rparr>) = deferred_ctxs s"
  by (auto simp: deferred_ctxs_def completed_ctxs_def holds_ctx_def fun_eq_iff)

lemma ctx_cong:
  assumes "ctx_inv s" and "holds_ctx t = holds_ctx s" and "deferred_ctxs t = deferred_ctxs s" and "completed_ctxs t = completed_ctxs s"
    and "ep_submitted t = ep_submitted s"
  shows "ctx_inv t"
  using assms by (simp add: ctx_inv_def)

lemma ctx_update: "ctx_inv s \<Longrightarrow> ctx_inv (update_events fd s)"
  by (erule ctx_cong) simp_all

lemma ctx_put: "ctx_inv s \<Longrightarrow> ctx_free s (po_ctx op) \<Longrightarrow> ctx_inv (set_op d fd (Some op) s)"
  by (auto simp: ctx_inv_def ctx_free_def holds_set_op split: if_splits)

lemma ctx_erase: "ctx_inv s \<Longrightarrow> ctx_inv (set_op d fd None s)"
  unfolding ctx_inv_def by (auto simp: holds_set_op split: if_splits)

lemma ctx_finish:
  assumes "ctx_inv s" and "holds_ctx s d fd c"
  shows "ctx_inv (set_op d fd None (op_complete c r e s))"
  using assms unfolding ctx_inv_def by (auto simp: holds_set_op split: if_splits)

lemma ctx_complete_free: "ctx_inv s \<Longrightarrow> ctx_free s c \<Longrightarrow> ctx_inv (op_complete c r e s)"
  by (auto simp: ctx_inv_def ctx_free_def)

lemma ctx_submit:
  assumes "ctx_inv s" and "c \<notin> set (ep_submitted s)"
  shows "ctx_inv (submit c s)" and "ctx_free (submit c s) c"
  using assms by (auto simp: ctx_inv_def ctx_free_def)

lemma ctx_try_complete: "ctx_inv s \<Longrightarrow> ctx_inv (try_complete d fd res s)"
  by (auto simp: try_complete_def intro!: ctx_update ctx_finish split: option.split sys_result.split) (auto simp: holds_ctx_def)

lemma ctx_wait_op: "ctx_inv s \<Longrightarrow> ctx_free s c \<Longrightarrow> ctx_inv (wait_op fd c readable s)"
  by (auto simp: wait_op_def intro!: ctx_update ctx_put)

lemma ctx_defer:
  assumes "ctx_inv s" and "ctx_free s c"
  shows "ctx_inv (s\<lparr>ep_deferred := ep_deferred s @ [(fd, c, b)]\<rparr>)"
proof -
  have "map (\<lambda>(fd, c, r). c) (ep_deferred s @ [(fd, c, b)]) = deferred_ctxs s @ [c]" by (simp add: deferred_ctxs_def)
  then show ?thesis using assms unfolding ctx_inv_def ctx_free_def ctx_deferred_fields by auto
qed

lemma ctx_deferred:
  assumes "ctx_inv s"
  shows "ctx_inv (process_deferred_waits s)"
proof -
  have pop: "ctx_inv (s\<lparr>ep_deferred := q\<rparr>) \<and> ctx_free (s\<lparr>ep_deferred := q\<rparr>) c" if inv: "ctx_inv s" and d: "ep_deferred s = (fd, c, b) # q" for s fd c b q
  proof -
    have "deferred_ctxs s = c # map (\<lambda>(fd, c, r). c) q" by (simp add: deferred_ctxs_def d)
    then show ?thesis using inv unfolding ctx_inv_def ctx_free_def by (auto, blast)
  qed
  have same: "(wait_op fd c b s)\<lparr>ep_deferred := q\<rparr> = wait_op fd c b (s\<lparr>ep_deferred := q\<rparr>)" for fd c b s q
    by (simp add: wait_op_def update_events_def set_op_def needed_events_def Let_def)
  have "ctx_inv (fold (\<lambda>(fd, ctx, readable). wait_op fd ctx readable) q (s\<lparr>ep_deferred := []\<rparr>))" if "ctx_inv s" "ep_deferred s = q" for q s
    using that
  proof (induction q arbitrary: s)
    case (Cons x q)
    obtain fd c b where x: "x = (fd, c, b)" by (cases x)
    let ?s = "wait_op fd c b (s\<lparr>ep_deferred := q\<rparr>)"
    have "ctx_inv ?s" using pop [of s fd c b q] Cons.prems x ctx_wait_op by blast
    moreover have "ep_deferred ?s = q" by (simp add: wait_op_def update_events_def Let_def)
    ultimately have "ctx_inv (fold (\<lambda>(fd, ctx, readable). wait_op fd ctx readable) q (?s\<lparr>ep_deferred := []\<rparr>))" by (rule Cons.IH)
    then show ?case by (simp add: x same)
  qed (simp add: ctx_inv_def)
  then show ?thesis using assms by (simp add: process_deferred_waits_def)
qed

lemma erase_fields [simp]:
  "holds_ctx (erase_ops er s) d fd c \<longleftrightarrow> (d, fd) \<notin> set er \<and> holds_ctx s d fd c"
  "deferred_ctxs (erase_ops er s) = deferred_ctxs s" "completed_ctxs (erase_ops er s) = completed_ctxs s"
  "ep_submitted (erase_ops er s) = ep_submitted s"
  unfolding erase_ops_def by (induction er arbitrary: s) (auto simp: holds_set_op split: if_splits)

lemma direction_event_ctx:
  assumes inv: "ctx_inv (erase_ops er s)" and new: "(d, ev_fd ev) \<notin> set er" and ev: "direction_event ev d (s, tr, er) = (s', tr', er')"
  shows "ctx_inv (erase_ops er' s') \<and> set er' \<subseteq> insert (d, ev_fd ev) (set er) \<and>
    (\<exists>cs. tr' = tr @ cs \<and> completed_ctxs s' = completed_ctxs s @ cs) \<and> ep_wake_fd s' = ep_wake_fd s"
proof (cases "s' = s \<and> tr' = tr \<and> er' = er")
  case False
  then obtain op r e where op: "ep_ops s d (ev_fd ev) = Some op" "event_outcome d (po_type op) ev = Some (r, e)"
    and s': "s' = (if po_type op = Op_Accept then op_complete (po_ctx op) r e s else update_events (ev_fd ev) (op_complete (po_ctx op) r e s))"
    and lists: "tr' = tr @ [po_ctx op]" "er' = er @ [(d, ev_fd ev)]"
    using ev by (auto simp: direction_event_def Let_def split: if_splits option.splits prod.splits)
  have "holds_ctx (erase_ops er s) d (ev_fd ev) (po_ctx op)" using op(1) new by (auto simp: holds_ctx_def [of s])
  from ctx_finish [OF inv this, of r e] have "ctx_inv (erase_ops er' s')"
    by (rule ctx_cong) (auto simp: fun_eq_iff holds_set_op s' lists)
  then show ?thesis using lists s' by (auto simp: op_complete_def update_events_def Let_def completed_ctxs_def)
qed (use inv in auto)

lemma poll_events_ctx:
  assumes "ctx_inv (erase_ops er s)" and "distinct (map ev_fd events)" and "\<forall>(d, fd)\<in>set er. fd \<notin> ev_fd ` set events"
    and "fold poll_event events (s, tr, er) = (s', tr', er')"
  shows "ctx_inv (erase_ops er' s') \<and> (\<exists>cs. tr' = tr @ cs \<and> completed_ctxs s' = completed_ctxs s @ cs)"
  using assms
proof (induction events arbitrary: s tr er)
  case (Cons ev events)
  show ?case
  proof (cases "ev_fd ev = ep_wake_fd s")
    case True
    then have "fold poll_event events (s, tr, er) = (s', tr', er')" using Cons.prems(4) by (simp add: poll_event_def [of ev])
    moreover have "\<forall>(d, fd)\<in>set er. fd \<notin> ev_fd ` set events" using Cons.prems(3) by auto
    ultimately show ?thesis using Cons.IH [OF Cons.prems(1)] Cons.prems(2) by simp
  next
    case False
    obtain s1 tr1 er1 where one: "direction_event ev Rd (s, tr, er) = (s1, tr1, er1)" by (metis prod_cases3)
    obtain s2 tr2 er2 where two: "direction_event ev Wr (s1, tr1, er1) = (s2, tr2, er2)" by (metis prod_cases3)
    have fresh: "(d, ev_fd ev) \<notin> set er" for d using Cons.prems(3) by fastforce
    note f1 = direction_event_ctx [OF Cons.prems(1) fresh one]
    have "(Wr, ev_fd ev) \<notin> set er1" using f1 fresh by auto
    note f2 = direction_event_ctx [OF f1 [THEN conjunct1] this two]
    have "fold poll_event events (s2, tr2, er2) = (s', tr', er')"
      using Cons.prems(4) False one two by (simp add: poll_event_def [of ev])
    moreover have "\<forall>(d, fd)\<in>set er2. fd \<notin> ev_fd ` set events"
    proof clarify
      fix d x assume "(d, ev_fd x) \<in> set er2" and x: "x \<in> set events"
      moreover have "set er2 \<subseteq> insert (Wr, ev_fd ev) (insert (Rd, ev_fd ev) (set er))" using f1 f2 by blast
      ultimately have "ev_fd x = ev_fd ev \<or> (d, ev_fd x) \<in> set er" by auto
      then show False
      proof
        assume "ev_fd x = ev_fd ev"
        then have "ev_fd ev \<in> ev_fd ` set events" using x by (metis imageI)
        then show False using Cons.prems(2) by simp
      next
        assume "(d, ev_fd x) \<in> set er"
        then show False using Cons.prems(3) x by auto
      qed
    qed
    ultimately have "ctx_inv (erase_ops er' s') \<and> (\<exists>cs. tr' = tr2 @ cs \<and> completed_ctxs s' = completed_ctxs s2 @ cs)"
      using Cons.IH [OF f2 [THEN conjunct1]] Cons.prems(2) by simp
    then show ?thesis using f1 f2 by auto
  qed
qed auto

lemma deferred_completes_nothing: "completed_ctxs (process_deferred_waits s) = completed_ctxs s"
proof -
  have "completed_ctxs (fold (\<lambda>(fd, ctx, readable). wait_op fd ctx readable) q t) = completed_ctxs t" for q t
    by (induction q arbitrary: t) (auto simp: wait_op_def)
  then show ?thesis by (simp add: process_deferred_waits_def)
qed

lemma poll_ctx:
  assumes "ctx_inv s" and "distinct (map ev_fd events)"
  shows "ctx_inv (fst (poll_begin events s))" and "completed_ctxs (fst (poll_begin events s)) = completed_ctxs s @ snd (poll_begin events s)"
proof -
  let ?t = "process_deferred_waits (s\<lparr>ep_in_poll := True\<rparr>)"
  obtain s' tr er where f: "fold poll_event events (?t, [], []) = (s', tr, er)" by (metis prod_cases3)
  have "ctx_inv (s\<lparr>ep_in_poll := True\<rparr>)" using assms(1) by (rule ctx_cong) simp_all
  then have "ctx_inv (erase_ops [] ?t)" using ctx_deferred by (simp add: erase_ops_def)
  from poll_events_ctx [OF this assms(2) _ f] have "ctx_inv (erase_ops er s')" "completed_ctxs s' = completed_ctxs ?t @ tr" by auto
  then show "ctx_inv (fst (poll_begin events s))" "completed_ctxs (fst (poll_begin events s)) = completed_ctxs s @ snd (poll_begin events s)"
    using f by (simp_all add: poll_begin_def deferred_completes_nothing)
qed

lemma ctx_inv_step:
  assumes "epoll_step s s'" and inv: "ctx_inv s"
  shows "ctx_inv s'"
  using assms(1)
proof (cases rule: epoll_step.cases)
  case (ep_register fd added)
  then show ?thesis using inv by (auto simp: register_impl_def intro: ctx_cong simp: holds_ctx_def fun_eq_iff deferred_ctxs_def completed_ctxs_def)
next
  case (ep_deregister fd)
  have "ctx_inv (set_op Wr fd None (set_op Rd fd None s))" using inv by (intro ctx_erase)
  then show ?thesis unfolding ep_deregister(1)
    by (rule ctx_cong) (auto simp: deregister_impl_def Let_def holds_ctx_def fun_eq_iff deferred_ctxs_def completed_ctxs_def)
next
  case (ep_transfer ctx d t fd res)
  then show ?thesis using ctx_submit [OF inv] by (auto simp: async_transfer_def intro!: ctx_try_complete ctx_update ctx_put)
next
  case (ep_accept ctx fd res)
  let ?s = "update_events fd (set_op Rd fd (Some \<lparr>po_type = Op_Accept, po_ctx = ctx\<rparr>) (submit ctx s))"
  have "ctx_inv ?s" using ctx_submit [OF inv ep_accept(2)] by (auto intro!: ctx_update ctx_put)
  moreover have "holds_ctx ?s Rd fd ctx" by (simp add: holds_set_op)
  ultimately show ?thesis using ep_accept(1) ctx_finish by (auto simp: async_accept_impl_def Let_def intro!: ctx_update split: sys_result.split)
next
  case (ep_connect ctx fd res)
  then show ?thesis using ctx_submit [OF inv] by (auto simp: async_connect_impl_def intro!: ctx_complete_free ctx_update ctx_put split: sys_result.split)
next
  case (ep_wait ctx fd readable)
  note sub = ctx_submit [OF inv ep_wait(2)]
  have "ep_deferred (submit ctx s) = ep_deferred s" by (simp add: submit_def)
  then have "ctx_inv ((submit ctx s)\<lparr>ep_deferred := ep_deferred s @ [(fd, ctx, readable)]\<rparr>)" using ctx_defer [OF sub] by metis
  then show ?thesis using ep_wait(1) sub ctx_wait_op by (auto simp: async_wait_impl_def)
next
  case (ep_poll events)
  then show ?thesis using poll_ctx(1) [OF inv] by simp
next
  case ep_poll_end
  show ?thesis unfolding ep_poll_end poll_end_def by (rule ctx_cong [OF ctx_deferred [OF inv]]) simp_all
qed

lemma epoll_new_inv: "wake_inv (epoll_new w) \<and> ctx_inv (epoll_new w)"
  by (simp add: epoll_new_def wake_inv_def events_ok_def wake_ok_def ctx_inv_def holds_ctx_def deferred_ctxs_def completed_ctxs_def)

lemma epoll_invariants: "epoll_step\<^sup>*\<^sup>* (epoll_new w) s \<Longrightarrow> wake_inv s \<and> ctx_inv s"
  by (induction rule: rtranclp_induct) (auto intro: wake_inv_step ctx_inv_step simp: epoll_new_inv)

section \<open>The guarantees of the backend\<close>

text \<open>
  C14: In every reachable state an operation that waits for a descriptor is one the kernel will report: the
  descriptor is in the interest list of the epoll instance with the operation's event.
\<close>

theorem epoll_no_lost_wakeup:
  assumes "epoll_step\<^sup>*\<^sup>* (epoll_new w) s" and "ep_ops s d fd = Some op"
  shows "\<exists>e. ep_kernel s fd = Some e \<and> e AND dir_event d \<noteq> 0"
  using epoll_invariants [OF assms(1)] assms(2) unfolding wake_inv_def wake_ok_def by blast

definition one_read :: epoll_backend where
  "one_read = async_read_impl 7 1 Sys_Would_Block (epoll_new 3)"

lemma one_read_reached: "epoll_step\<^sup>*\<^sup>* (epoll_new 3) one_read"
  unfolding one_read_def async_read_impl_def by (rule r_into_rtranclp, rule ep_transfer) (simp add: epoll_new_def)

lemma one_read_op: "ep_ops one_read Rd 7 = Some \<lparr>po_type = Op_Read, po_ctx = 1\<rparr>"
  by (simp add: one_read_def async_read_impl_def async_transfer_def try_complete_def update_events_def Let_def set_op_def submit_def)

theorem epoll_no_lost_wakeup_witness: "\<exists>e. ep_kernel one_read 7 = Some e \<and> e AND EPOLLIN \<noteq> 0"
  using epoll_no_lost_wakeup [OF one_read_reached one_read_op] by (simp add: dir_event_def)

text \<open>
  C15: A context is completed at most once, whatever operations, closes and polls follow each other, and a poll resumes
  exactly the coroutines whose operations it completes, each once: none is resumed twice, and none whose
  operation had finished before.
\<close>

theorem epoll_completes_once:
  assumes "epoll_step\<^sup>*\<^sup>* (epoll_new w) s" and "distinct (map ev_fd events)"
  shows "distinct (completed_ctxs s @ snd (poll_begin events s)) \<and>
    completed_ctxs (fst (poll_begin events s)) = completed_ctxs s @ snd (poll_begin events s)"
proof -
  have inv: "ctx_inv s" using epoll_invariants [OF assms(1)] by blast
  note poll = poll_ctx [OF inv assms(2)]
  then show ?thesis unfolding ctx_inv_def by simp
qed

theorem epoll_completes_once_witness:
  "distinct (completed_ctxs one_read @ snd (poll_begin [\<lparr>ev_fd = 7, ev_events = EPOLLIN, ev_read = Sys_Ok 5, ev_write = Sys_Would_Block, ev_so_error = 0\<rparr>] one_read))"
  using epoll_completes_once [OF one_read_reached,
      of "[\<lparr>ev_fd = 7, ev_events = EPOLLIN, ev_read = Sys_Ok 5, ev_write = Sys_Would_Block, ev_so_error = 0\<rparr>]"] by simp

section \<open>Operations that are forgotten\<close>

lemma free_set_op: "ctx_free s c \<Longrightarrow> (\<And>p. op = Some p \<Longrightarrow> po_ctx p \<noteq> c) \<Longrightarrow> ctx_free (set_op d fd op s) c"
  by (auto simp: ctx_free_def holds_set_op)

lemma free_simps [simp]: "ctx_free (update_events fd s) c = ctx_free s c" "ctx_free (s\<lparr>ep_in_poll := b\<rparr>) c = ctx_free s c"
  by (simp_all add: ctx_free_def)

lemma free_complete: "ctx_free s c \<Longrightarrow> c' \<noteq> c \<Longrightarrow> ctx_free (op_complete c' r e s) c"
  by (simp add: ctx_free_def)

lemma free_submit: "ctx_free s c \<Longrightarrow> ctx_free (submit c' s) c"
  by (simp add: ctx_free_def)

lemma free_op: "ctx_free s c \<Longrightarrow> ep_ops s d fd = Some op \<Longrightarrow> po_ctx op \<noteq> c"
  by (auto simp: ctx_free_def holds_ctx_def)

lemma free_try_complete: "ctx_free s c \<Longrightarrow> ctx_free (try_complete d fd res s) c"
  by (auto simp: try_complete_def intro!: free_set_op free_complete dest: free_op split: option.split sys_result.split)

lemma free_wait_op: "ctx_free s c \<Longrightarrow> c' \<noteq> c \<Longrightarrow> ctx_free (wait_op fd c' readable s) c"
  by (auto simp: wait_op_def intro!: free_set_op)

lemma free_deferred:
  assumes "ctx_free s c"
  shows "ctx_free (process_deferred_waits s) c"
proof -
  have "ctx_free (fold (\<lambda>(fd, ctx, readable). wait_op fd ctx readable) q t) c" if "ctx_free t c" "\<forall>(fd, x, r)\<in>set q. x \<noteq> c" for q t
    using that by (induction q arbitrary: t) (auto simp: free_wait_op)
  moreover have "ctx_free (s\<lparr>ep_deferred := []\<rparr>) c" "\<forall>(fd, x, r)\<in>set (ep_deferred s). x \<noteq> c"
    using assms by (auto simp: ctx_free_def deferred_ctxs_def) force
  ultimately show ?thesis by (simp add: process_deferred_waits_def)
qed

lemma free_direction_event: "ctx_free (fst ps) c \<Longrightarrow> ctx_free (fst (direction_event ev d ps)) c"
  by (auto simp: direction_event_def Let_def intro!: free_complete dest: free_op split: prod.split option.split)

lemma free_poll:
  assumes "ctx_free s c"
  shows "ctx_free (fst (poll_begin events s)) c"
proof -
  have events: "ctx_free (fst (fold poll_event events ps)) c" if "ctx_free (fst ps) c" for ps
    using that by (induction events arbitrary: ps) (auto simp: poll_event_def free_direction_event)
  have "ctx_free (fst (fold poll_event events (process_deferred_waits (s\<lparr>ep_in_poll := True\<rparr>), [], []))) c"
    using assms by (intro events) (simp add: free_deferred)
  then show ?thesis by (auto simp: poll_begin_def Let_def case_prod_unfold ctx_free_def)
qed

lemma free_not_resumed:
  assumes "ctx_free s c"
  shows "c \<notin> set (snd (poll_begin events s))"
proof -
  have one: "c \<notin> set (fst (snd (direction_event ev d ps)))" if "ctx_free (fst ps) c" "c \<notin> set (fst (snd ps))" for ev d ps
    using that by (auto simp: direction_event_def Let_def dest: free_op split: prod.split option.split)
  have "ctx_free (fst (fold poll_event events ps)) c \<and> c \<notin> set (fst (snd (fold poll_event events ps)))"
    if "ctx_free (fst ps) c" "c \<notin> set (fst (snd ps))" for ps
    using that by (induction events arbitrary: ps) (auto simp: poll_event_def free_direction_event one)
  from this [of "(process_deferred_waits (s\<lparr>ep_in_poll := True\<rparr>), [], [])"] show ?thesis
    using assms by (simp add: poll_begin_def Let_def case_prod_unfold free_deferred)
qed

lemma free_deregister: "ctx_free (deregister_impl fd s) c = ctx_free (set_op Wr fd None (set_op Rd fd None s)) c"
  by (simp add: deregister_impl_def Let_def ctx_free_def holds_ctx_def deferred_ctxs_def completed_ctxs_def)

lemma free_step:
  assumes "epoll_step s s'" and free: "ctx_free s c"
  shows "ctx_free s' c"
proof -
  have old: "c \<in> set (ep_submitted s)" using free by (simp add: ctx_free_def)
  have queued: "ctx_free ((submit ctx s)\<lparr>ep_deferred := ep_deferred s @ [(fd, ctx, b)]\<rparr>) c" if "ctx \<noteq> c" for ctx fd b
    using that free by (auto simp: ctx_free_def deferred_ctxs_def)
  show ?thesis using assms(1)
  proof (cases rule: epoll_step.cases)
    case (ep_register fd added)
    then show ?thesis using free by (auto simp: register_impl_def ctx_free_def holds_ctx_def deferred_ctxs_def completed_ctxs_def)
  next
    case (ep_deregister fd)
    then show ?thesis using free by (auto simp: free_deregister intro!: free_set_op)
  next
    case (ep_wait ctx fd readable)
    then have "ctx \<noteq> c" using old by blast
    then show ?thesis using ep_wait(1) free queued by (auto simp: async_wait_impl_def intro!: free_wait_op free_submit)
  next
    case ep_poll_end
    then show ?thesis using free_deferred [OF free] by (simp add: poll_end_def)
  qed (use free old in \<open>auto simp: async_transfer_def async_accept_impl_def async_connect_impl_def Let_def
      intro!: free_try_complete free_set_op free_complete free_submit free_poll split: sys_result.split\<close>)
qed

lemma free_steps: "epoll_step\<^sup>*\<^sup>* s s' \<Longrightarrow> ctx_free s c \<Longrightarrow> ctx_free s' c"
  by (induction rule: rtranclp_induct) (auto intro: free_step)

text \<open>
  What displaces the operation of a direction that waits for a descriptor: closing the descriptor, and starting another
  operation of that direction on it.  A wait that is started during a poll does so when the poll ends, and a
  \<^verbatim>\<open>connect\<close> only when it is in progress.
\<close>

definition wait_direction :: "bool \<Rightarrow> direction" where
  "wait_direction readable = (if readable then Rd else Wr)"

inductive displaces :: "direction \<Rightarrow> nat \<Rightarrow> epoll_backend \<Rightarrow> epoll_backend \<Rightarrow> bool" where
  by_close: "displaces d fd s (deregister_impl fd s)"
| by_transfer: "ctx \<notin> set (ep_submitted s) \<Longrightarrow> displaces d fd s (async_transfer d ty fd ctx res s)"
| by_accept: "ctx \<notin> set (ep_submitted s) \<Longrightarrow> displaces Rd fd s (async_accept_impl fd ctx res s)"
| by_connect: "ctx \<notin> set (ep_submitted s) \<Longrightarrow> displaces Wr fd s (async_connect_impl fd ctx Sys_Would_Block s)"
| by_wait: "ctx \<notin> set (ep_submitted s) \<Longrightarrow> \<not> ep_in_poll s \<Longrightarrow>
    displaces (wait_direction readable) fd s (async_wait_impl fd ctx readable s)"
| by_deferred_wait: "(fd, ctx, readable) \<in> set (ep_deferred s) \<Longrightarrow> displaces (wait_direction readable) fd s (poll_end s)"

lemma wait_op_direction:
  "wait_op fd ctx readable s = update_events fd (set_op (wait_direction readable) fd
     (Some \<lparr>po_type = if readable then Op_WaitReadable else Op_WaitWritable, po_ctx = ctx\<rparr>) s)"
  by (simp add: wait_op_def wait_direction_def)

text \<open>A context that is held, if at all, by one direction of one descriptor.\<close>

definition held_only :: "epoll_backend \<Rightarrow> direction \<Rightarrow> nat \<Rightarrow> nat \<Rightarrow> bool" where
  "held_only s d fd c \<longleftrightarrow> (\<forall>d' fd'. holds_ctx s d' fd' c \<longrightarrow> d' = d \<and> fd' = fd) \<and>
     c \<notin> set (deferred_ctxs s) \<and> c \<notin> set (completed_ctxs s) \<and> c \<in> set (ep_submitted s)"

lemma held_only_displaced:
  assumes "held_only s d fd c" and "x \<noteq> c"
  shows "ctx_free (set_op d fd (Some \<lparr>po_type = ty, po_ctx = x\<rparr>) s) c"
  using assms by (auto simp: held_only_def ctx_free_def holds_set_op)

lemma held_only_wait:
  assumes "held_only s d fd c" and "c' \<noteq> c"
  shows "held_only (wait_op fd' c' readable s) d fd c"
  using assms by (auto simp: held_only_def wait_op_direction holds_set_op split: if_splits)

lemma held_only_submit: "held_only s d fd c \<Longrightarrow> held_only (submit c' s) d fd c"
  by (simp add: held_only_def)

lemma held_only_deferred:
  assumes "held_only s d fd c" and "(fd, ctx, readable) \<in> set q" and "wait_direction readable = d" and "\<forall>(fd, x, r)\<in>set q. x \<noteq> c"
  shows "ctx_free (fold (\<lambda>(fd, ctx, readable). wait_op fd ctx readable) q s) c"
  using assms
proof (induction q arbitrary: s)
  case (Cons x q)
  obtain fd' c' r where x: "x = (fd', c', r)" by (cases x)
  have c': "c' \<noteq> c" using Cons.prems(4) x by auto
  show ?case
  proof (cases "fd' = fd \<and> wait_direction r = d")
    case True
    then have "ctx_free (wait_op fd' c' r s) c"
      using held_only_displaced [OF Cons.prems(1)] c' by (auto simp: wait_op_direction)
    moreover have "ctx_free (fold (\<lambda>(fd, ctx, readable). wait_op fd ctx readable) q t) c" if "ctx_free t c" for t
      using that Cons.prems(4) by (induction q arbitrary: t) (auto simp: free_wait_op)
    ultimately show ?thesis by (simp add: x)
  next
    case False
    then have "(fd, ctx, readable) \<in> set q" using Cons.prems(2,3) x by auto
    then show ?thesis using Cons.IH [OF held_only_wait [OF Cons.prems(1) c']] Cons.prems(3,4) by (simp add: x)
  qed
qed simp

lemma displaced_free:
  assumes "displaces d fd s t" and held: "held_only s d fd c"
  shows "ctx_free t c"
proof -
  have fresh: "ctx \<noteq> c" if "ctx \<notin> set (ep_submitted s)" for ctx using that held by (auto simp: held_only_def)
  note put = held_only_displaced [OF held_only_submit [OF held] fresh]
  show ?thesis using assms(1)
  proof (cases rule: displaces.cases)
    case by_close
    have "ctx_free (set_op Wr fd None (set_op Rd fd None s)) c"
      using held by (auto simp: held_only_def ctx_free_def holds_set_op) (metis direction.exhaust)
    then show ?thesis by (simp add: by_close free_deregister)
  next
    case (by_transfer ctx ty res)
    then show ?thesis using put by (simp add: async_transfer_def free_try_complete)
  next
    case (by_accept ctx res)
    then show ?thesis using put fresh
      by (auto simp: async_accept_impl_def Let_def intro!: free_set_op free_complete split: sys_result.split)
  next
    case (by_connect ctx)
    then show ?thesis using put by (simp add: async_connect_impl_def)
  next
    case (by_wait ctx readable)
    then show ?thesis using put by (simp add: async_wait_impl_def wait_op_direction)
  next
    case (by_deferred_wait ctx readable)
    have "held_only (s\<lparr>ep_deferred := []\<rparr>) d fd c" using held by (simp add: held_only_def)
    moreover have "\<forall>(fd, x, r)\<in>set (ep_deferred s). x \<noteq> c" using held by (force simp: held_only_def deferred_ctxs_def)
    ultimately show ?thesis
      using held_only_deferred by_deferred_wait by (fastforce simp: poll_end_def process_deferred_waits_def)
  qed
qed

text \<open>
  C37: A waiting operation whose descriptor is closed, or on whose descriptor another operation of the same direction is
  started (a transfer or an \<^verbatim>\<open>accept\<close>, whether or not it finishes at once, a \<^verbatim>\<open>connect\<close> in progress, or a wait), is dropped:
  it is not completed then or later, whatever follows, and the coroutine that awaits it is never resumed.
\<close>

theorem epoll_forgets_operation:
  assumes "epoll_step\<^sup>*\<^sup>* (epoll_new w) s" and "ep_ops s d fd = Some op" and "displaces d fd s t" and "epoll_step\<^sup>*\<^sup>* t s'"
  shows "po_ctx op \<notin> set (completed_ctxs s') \<and> po_ctx op \<notin> set (snd (poll_begin events s'))"
proof -
  have inv: "ctx_inv s" using epoll_invariants [OF assms(1)] by blast
  have "holds_ctx s d fd (po_ctx op)" using assms(2) by (simp add: holds_ctx_def)
  then have "held_only s d fd (po_ctx op)" using inv unfolding ctx_inv_def held_only_def by metis
  then have free: "ctx_free s' (po_ctx op)" using displaced_free [OF assms(3)] free_steps [OF assms(4)] by blast
  then have "po_ctx op \<notin> set (snd (poll_begin events s'))" by (rule free_not_resumed)
  then show ?thesis using free by (simp add: ctx_free_def)
qed

text \<open>A second read takes the place of the first and is completed by the next poll.\<close>

definition two_reads :: epoll_backend where
  "two_reads = async_read_impl 7 2 Sys_Would_Block one_read"

definition input_on_7 :: ep_event where
  "input_on_7 = \<lparr>ev_fd = 7, ev_events = EPOLLIN, ev_read = Sys_Ok 5, ev_write = Sys_Would_Block, ev_so_error = 0\<rparr>"

theorem epoll_forgets_operation_witness:
  "completed_ctxs (fst (poll_begin [input_on_7] two_reads)) = [2] \<and> 1 \<notin> set (completed_ctxs (fst (poll_begin [input_on_7] two_reads)))"
proof
  have "2 \<notin> set (ep_submitted one_read)"
    by (simp add: one_read_def async_read_impl_def async_transfer_def try_complete_def update_events_def Let_def set_op_def submit_def epoll_new_def)
  then have "displaces Rd 7 one_read two_reads" by (simp add: two_reads_def async_read_impl_def by_transfer)
  moreover have "epoll_step\<^sup>*\<^sup>* two_reads (fst (poll_begin [input_on_7] two_reads))"
    by (rule r_into_rtranclp, rule ep_poll) simp
  ultimately show "1 \<notin> set (completed_ctxs (fst (poll_begin [input_on_7] two_reads)))"
    using epoll_forgets_operation [OF one_read_reached one_read_op] by simp
  show "completed_ctxs (fst (poll_begin [input_on_7] two_reads)) = [2]"
    by (simp add: two_reads_def input_on_7_def one_read_def async_read_impl_def async_transfer_def try_complete_def update_events_def
      Let_def set_op_def submit_def epoll_new_def poll_begin_def process_deferred_waits_def poll_event_def direction_event_def
      event_flags_def event_outcome_def transfer_outcome_def needed_events_def op_complete_def erase_ops_def completed_ctxs_def
      EPOLLIN_def EPOLLHUP_def EPOLLERR_def EPOLLOUT_def)
qed

text \<open>
  After a poll has completed a read, the descriptor stays in the interest list for input although nobody waits for it:
  the finished operation is erased only after \<^verbatim>\<open>update_events\<close>.  As epoll is level-triggered, the polls that follow
  return at once as long as there is unread input.
\<close>

lemma epoll_keeps_interest:
  "ep_ops (fst (poll_begin [\<lparr>ev_fd = 7, ev_events = EPOLLIN, ev_read = Sys_Ok 5, ev_write = Sys_Would_Block, ev_so_error = 0\<rparr>] one_read)) Rd 7 = None \<and>
   ep_kernel (fst (poll_begin [\<lparr>ev_fd = 7, ev_events = EPOLLIN, ev_read = Sys_Ok 5, ev_write = Sys_Would_Block, ev_so_error = 0\<rparr>] one_read)) 7 = Some EPOLLIN"
  by (simp add: one_read_def async_read_impl_def async_transfer_def try_complete_def update_events_def Let_def set_op_def submit_def
      epoll_new_def poll_begin_def process_deferred_waits_def poll_event_def direction_event_def event_flags_def event_outcome_def
      transfer_outcome_def needed_events_def op_complete_def erase_ops_def EPOLLIN_def EPOLLHUP_def EPOLLERR_def EPOLLOUT_def)

end
