(* ===== verification/Process_Manager.thy ===== *)
theory Process_Manager
  imports Net_Prelude
begin

text \<open>
  The master of \<^verbatim>\<open>include/async_net/executor/process_manager.hpp\<close>: the host class over a policy, which is a record
  of the policy's functions on the state of the operating system, and the two policies.  What happens
  while the master sleeps is given as a list of changes of that state, one for every poll before the deadline.
\<close>

section \<open>Host\<close>

record 'h worker_entry =
  we_handle :: 'h
  we_worker_id :: nat
  we_generation :: nat
  we_stopping :: bool

record ('h, 'os) worker_policy =
  wp_spawn :: "nat \<Rightarrow> 'os \<Rightarrow> 'h \<times> 'os"
  wp_signal_stop :: "'h \<Rightarrow> 'os \<Rightarrow> 'h \<times> 'os"
  wp_force_stop :: "'h \<Rightarrow> 'os \<Rightarrow> 'h \<times> 'os"
  wp_is_alive :: "'h \<Rightarrow> 'os \<Rightarrow> bool \<times> 'h \<times> 'os"
  wp_reap :: "'h worker_entry list \<Rightarrow> 'os \<Rightarrow> ('h worker_entry list \<times> 'os) res"
  wp_destroy :: "'h \<Rightarrow> bool"

text \<open>\<open>wp_destroy\<close> says whether the destructor of the handle returns; it calls \<^verbatim>\<open>std::terminate\<close> otherwise.\<close>

definition erase_workers :: "('h, 'os) worker_policy \<Rightarrow> ('h worker_entry \<Rightarrow> bool) \<Rightarrow> 'h worker_entry list \<Rightarrow> 'h worker_entry list res" where
  "erase_workers pol gone ws =
     (if list_all (\<lambda>w. wp_destroy pol (we_handle w)) (filter gone ws) then Inr (filter (\<lambda>w. \<not> gone w) ws)
      else Inl (Runtime_Error ''std::terminate''))"

fun spawn_from :: "('h, 'os) worker_policy \<Rightarrow> nat \<Rightarrow> nat list \<Rightarrow> 'h worker_entry list \<times> 'os \<Rightarrow> 'h worker_entry list \<times> 'os" where
  "spawn_from pol gen [] (ws, os) = (ws, os)"
| "spawn_from pol gen (i # is) (ws, os) =
     (let (h, os) = wp_spawn pol i os in
      spawn_from pol gen is (ws @ [\<lparr>we_handle = h, we_worker_id = i, we_generation = gen, we_stopping = False\<rparr>], os))"

definition spawn_workers :: "('h, 'os) worker_policy \<Rightarrow> nat \<Rightarrow> nat \<Rightarrow> 'h worker_entry list \<times> 'os \<Rightarrow> 'h worker_entry list \<times> 'os" where
  "spawn_workers pol count gen s = spawn_from pol gen [0..<count] s"

text \<open>The signals of both stop functions; \<open>old\<close> chooses the workers.\<close>

fun signal_workers :: "('h, 'os) worker_policy \<Rightarrow> ('h worker_entry \<Rightarrow> bool) \<Rightarrow> 'h worker_entry list \<times> 'os \<Rightarrow> 'h worker_entry list \<times> 'os" where
  "signal_workers pol old ([], os) = ([], os)"
| "signal_workers pol old (w # ws, os) =
     (if old w \<and> \<not> we_stopping w then
        let (h, os) = wp_signal_stop pol (we_handle w) os; (ws, os) = signal_workers pol old (ws, os)
        in (w\<lparr>we_handle := h, we_stopping := True\<rparr> # ws, os)
      else let (ws, os) = signal_workers pol old (ws, os) in (w # ws, os))"

text \<open>The loop of \<^verbatim>\<open>stop_all_workers\<close> over the workers up to the first that is alive.\<close>

fun any_alive :: "('h, 'os) worker_policy \<Rightarrow> 'h worker_entry list \<times> 'os \<Rightarrow> bool \<times> 'h worker_entry list \<times> 'os" where
  "any_alive pol ([], os) = (False, [], os)"
| "any_alive pol (w # ws, os) =
     (let (alive, h, os) = wp_is_alive pol (we_handle w) os; w = w\<lparr>we_handle := h\<rparr> in
      if alive then (True, w # ws, os)
      else let (alive, ws, os) = any_alive pol (ws, os) in (alive, w # ws, os))"

fun await_all :: "('h, 'os) worker_policy \<Rightarrow> ('os \<Rightarrow> 'os) list \<Rightarrow> 'h worker_entry list \<times> 'os \<Rightarrow> 'h worker_entry list \<times> 'os" where
  "await_all pol [] s = s"
| "await_all pol (t # ts) s =
     (let (alive, ws, os) = any_alive pol s in if alive then await_all pol ts (ws, t os) else (ws, os))"

definition force_worker :: "('h, 'os) worker_policy \<Rightarrow> 'h \<Rightarrow> 'os \<Rightarrow> 'h \<times> 'os" where
  "force_worker pol h os = (let (alive, h, os) = wp_is_alive pol h os in if alive then wp_force_stop pol h os else (h, os))"

fun force_workers :: "('h, 'os) worker_policy \<Rightarrow> 'h worker_entry list \<times> 'os \<Rightarrow> 'h worker_entry list \<times> 'os" where
  "force_workers pol ([], os) = ([], os)"
| "force_workers pol (w # ws, os) =
     (let (h, os) = force_worker pol (we_handle w) os; (ws, os) = force_workers pol (ws, os) in (w\<lparr>we_handle := h\<rparr> # ws, os))"

definition stop_all_workers :: "('h, 'os) worker_policy \<Rightarrow> ('os \<Rightarrow> 'os) list \<Rightarrow> 'h worker_entry list \<times> 'os \<Rightarrow> ('h worker_entry list \<times> 'os) res" where
  "stop_all_workers pol ticks s =
     (let (ws, os) = force_workers pol (await_all pol ticks (signal_workers pol (\<lambda>w. True) s))
      in bindE (erase_workers pol (\<lambda>w. True) ws) (\<lambda>ws. Inr (ws, os)))"

text \<open>The wait of \<^verbatim>\<open>stop_old_workers\<close> for one worker.\<close>

fun await_one :: "('h, 'os) worker_policy \<Rightarrow> ('os \<Rightarrow> 'os) list \<Rightarrow> 'h \<Rightarrow> 'os \<Rightarrow> 'h \<times> 'os" where
  "await_one pol [] h os = (h, os)"
| "await_one pol (t # ts) h os =
     (let (alive, h, os) = wp_is_alive pol h os in if alive then await_one pol ts h (t os) else (h, os))"

text \<open>\<open>ticks\<close> gives the polls there is time for at a worker.\<close>

fun await_old :: "('h, 'os) worker_policy \<Rightarrow> nat \<Rightarrow> (nat \<Rightarrow> ('os \<Rightarrow> 'os) list) \<Rightarrow> 'h worker_entry list \<times> 'os \<Rightarrow> 'h worker_entry list \<times> 'os" where
  "await_old pol keep ticks ([], os) = ([], os)"
| "await_old pol keep ticks (w # ws, os) =
     (if we_generation w \<noteq> keep \<and> we_stopping w then
        let (h, os) = await_one pol (ticks 0) (we_handle w) os; (h, os) = force_worker pol h os;
            (ws, os) = await_old pol keep (\<lambda>i. ticks (Suc i)) (ws, os)
        in (w\<lparr>we_handle := h\<rparr> # ws, os)
      else let (ws, os) = await_old pol keep (\<lambda>i. ticks (Suc i)) (ws, os) in (w # ws, os))"

definition stop_old_workers :: "('h, 'os) worker_policy \<Rightarrow> nat \<Rightarrow> (nat \<Rightarrow> ('os \<Rightarrow> 'os) list) \<Rightarrow> 'h worker_entry list \<times> 'os \<Rightarrow> ('h worker_entry list \<times> 'os) res" where
  "stop_old_workers pol keep ticks s =
     (let (ws, os) = await_old pol keep ticks (signal_workers pol (\<lambda>w. we_generation w \<noteq> keep) s)
      in bindE (erase_workers pol (\<lambda>w. we_generation w \<noteq> keep) ws) (\<lambda>ws. Inr (ws, os)))"

record ('h, 'os) process_manager =
  pm_num_workers :: nat
  pm_generation :: nat
  pm_workers :: "'h worker_entry list"
  pm_os :: 'os

definition resolve_config :: "nat \<Rightarrow> nat \<Rightarrow> nat" where
  "resolve_config hardware nw = (if nw = 0 then if hardware = 0 then 4 else hardware else nw)"

text \<open>The start of \<^verbatim>\<open>run\<close>, and what it does on a reload; \<open>reloaded\<close> is the number of workers the callback gives, if there is one.\<close>

definition pm_start :: "('h, 'os) worker_policy \<Rightarrow> nat \<Rightarrow> ('h, 'os) process_manager \<Rightarrow> ('h, 'os) process_manager" where
  "pm_start pol hardware m =
     (let nw = resolve_config hardware (pm_num_workers m); (ws, os) = spawn_workers pol nw 1 (pm_workers m, pm_os m)
      in m\<lparr>pm_num_workers := nw, pm_generation := 1, pm_workers := ws, pm_os := os\<rparr>)"

definition pm_reload :: "('h, 'os) worker_policy \<Rightarrow> nat option \<Rightarrow> (nat \<Rightarrow> ('os \<Rightarrow> 'os) list) \<Rightarrow> ('h, 'os) process_manager \<Rightarrow> ('h, 'os) process_manager res" where
  "pm_reload pol reloaded ticks m =
     (let new_nw = (case reloaded of None \<Rightarrow> pm_num_workers m | Some n \<Rightarrow> if n = 0 then pm_num_workers m else n);
          gen = pm_generation m + 1
      in bindE (stop_old_workers pol gen ticks (spawn_workers pol new_nw gen (pm_workers m, pm_os m))) (\<lambda>(ws, os).
           Inr (m\<lparr>pm_num_workers := new_nw, pm_generation := gen, pm_workers := ws, pm_os := os\<rparr>)))"

section \<open>Policies\<close>

text \<open>
  Processes: the table has the children, \<open>True\<close> for one that runs and \<open>False\<close> for one that has exited and has not been
  waited for.  \<open>fk_forks\<close> says which of the next forks succeed, \<open>fk_eintr\<close> at which child the blocking \<^verbatim>\<open>waitpid\<close> is
  interrupted by a signal.  A handle is a process identifier or 0; identifiers are not used again.
  \<open>fk_signalled\<close> and \<open>fk_killed\<close> have the receivers of \<^verbatim>\<open>SIGTERM\<close> and \<^verbatim>\<open>SIGKILL\<close>.
\<close>

record fork_os =
  fk_table :: "nat \<rightharpoonup> bool"
  fk_next :: nat
  fk_forks :: "bool list"
  fk_eintr :: "nat \<Rightarrow> bool"
  fk_signalled :: "nat list"
  fk_killed :: "nat list"

definition fork_spawn :: "nat \<Rightarrow> fork_os \<Rightarrow> nat \<times> fork_os" where
  "fork_spawn i os =
     (case fk_forks os of
        True # fs \<Rightarrow> (fk_next os, os\<lparr>fk_forks := fs, fk_table := (fk_table os)(fk_next os \<mapsto> True), fk_next := fk_next os + 1\<rparr>)
      | _ \<Rightarrow> (0, os\<lparr>fk_forks := tl (fk_forks os)\<rparr>))"

definition fork_signal_stop :: "nat \<Rightarrow> fork_os \<Rightarrow> nat \<times> fork_os" where
  "fork_signal_stop pid os = (pid, if pid \<noteq> 0 then os\<lparr>fk_signalled := fk_signalled os @ [pid]\<rparr> else os)"

text \<open>\<^verbatim>\<open>SIGKILL\<close> ends the child; a \<^verbatim>\<open>waitpid\<close> that is interrupted is not repeated and leaves it as a zombie.\<close>

definition fork_force_stop :: "nat \<Rightarrow> fork_os \<Rightarrow> nat \<times> fork_os" where
  "fork_force_stop pid os =
     (if pid \<noteq> 0
      then (0, os\<lparr>fk_killed := fk_killed os @ [pid],
                  fk_table := (fk_table os)(pid := if fk_eintr os pid then map_option (\<lambda>_. False) (fk_table os pid) else None)\<rparr>)
      else (pid, os))"

definition fork_is_alive :: "nat \<Rightarrow> fork_os \<Rightarrow> bool \<times> nat \<times> fork_os" where
  "fork_is_alive pid os =
     (if pid = 0 then (False, pid, os)
      else case fk_table os pid of
             Some True \<Rightarrow> (True, pid, os)
           | Some False \<Rightarrow> (False, 0, os\<lparr>fk_table := (fk_table os)(pid := None)\<rparr>)
           | None \<Rightarrow> (False, 0, os))"

text \<open>All children that have exited are waited for, and their entries removed; identifiers of children are distinct.\<close>

definition fork_reap :: "nat worker_entry list \<Rightarrow> fork_os \<Rightarrow> (nat worker_entry list \<times> fork_os) res" where
  "fork_reap ws os =
     Inr (filter (\<lambda>w. we_handle w \<noteq> 0) (map (\<lambda>w. if fk_table os (we_handle w) = Some False then w\<lparr>we_handle := 0\<rparr> else w) ws),
          os\<lparr>fk_table := (\<lambda>pid. if fk_table os pid = Some False then None else fk_table os pid)\<rparr>)"

definition fork_policy :: "(nat, fork_os) worker_policy" where
  "fork_policy = \<lparr>wp_spawn = fork_spawn, wp_signal_stop = fork_signal_stop, wp_force_stop = fork_force_stop,
     wp_is_alive = fork_is_alive, wp_reap = fork_reap, wp_destroy = (\<lambda>h. True)\<rparr>"

text \<open>
  Threads: a handle is the thread's number and whether it is joinable; \<open>to_running\<close> has the shared flags.  The
  destructor of a joinable \<^verbatim>\<open>std::thread\<close> terminates the program.
\<close>

record thread_handle =
  th_id :: nat
  th_joinable :: bool

record thread_os =
  to_running :: "nat \<Rightarrow> bool"
  to_next :: nat
  to_ctx_stopped :: bool

definition thread_spawn :: "nat \<Rightarrow> thread_os \<Rightarrow> thread_handle \<times> thread_os" where
  "thread_spawn i os =
     (\<lparr>th_id = to_next os, th_joinable = True\<rparr>, os\<lparr>to_running := (to_running os)(to_next os := True), to_next := to_next os + 1\<rparr>)"

definition thread_signal_stop :: "thread_handle \<Rightarrow> thread_os \<Rightarrow> thread_handle \<times> thread_os" where
  "thread_signal_stop h os = (h, os\<lparr>to_running := (to_running os)(th_id h := False), to_ctx_stopped := True\<rparr>)"

definition thread_force_stop :: "thread_handle \<Rightarrow> thread_os \<Rightarrow> thread_handle \<times> thread_os" where
  "thread_force_stop h os = (h\<lparr>th_joinable := False\<rparr>, os)"

definition thread_is_alive :: "thread_handle \<Rightarrow> thread_os \<Rightarrow> bool \<times> thread_handle \<times> thread_os" where
  "thread_is_alive h os = (to_running os (th_id h), h, os)"

definition thread_reap :: "thread_handle worker_entry list \<Rightarrow> thread_os \<Rightarrow> (thread_handle worker_entry list \<times> thread_os) res" where
  "thread_reap ws os = Inr (filter (\<lambda>w. to_running os (th_id (we_handle w))) ws, os)"

definition thread_policy :: "(thread_handle, thread_os) worker_policy" where
  "thread_policy = \<lparr>wp_spawn = thread_spawn, wp_signal_stop = thread_signal_stop, wp_force_stop = thread_force_stop,
     wp_is_alive = thread_is_alive, wp_reap = thread_reap, wp_destroy = (\<lambda>h. \<not> th_joinable h)\<rparr>"

text \<open>A pass of the loop of \<^verbatim>\<open>run\<close> without a reload: \<open>None\<close> when all workers have exited and the loop ends.\<close>

definition pm_pass :: "('h, 'os) worker_policy \<Rightarrow> ('h, 'os) process_manager \<Rightarrow> ('h, 'os) process_manager option res" where
  "pm_pass pol m =
     bindE (wp_reap pol (pm_workers m) (pm_os m)) (\<lambda>(ws, os).
       Inr (if ws = [] then None else Some (m\<lparr>pm_workers := ws, pm_os := os\<rparr>)))"

definition pm_shutdown :: "('h, 'os) worker_policy \<Rightarrow> ('os \<Rightarrow> 'os) list \<Rightarrow> ('h, 'os) process_manager \<Rightarrow> ('h, 'os) process_manager res" where
  "pm_shutdown pol ticks m =
     bindE (stop_all_workers pol ticks (pm_workers m, pm_os m)) (\<lambda>(ws, os). Inr (m\<lparr>pm_workers := ws, pm_os := os\<rparr>))"

section \<open>Workers that can be stopped\<close>

text \<open>
  What the host relies on: a worker that is reported dead, or stopped by force, is gone and stays so; asking and signalling
  keep the handle of a worker that is alive.
\<close>

locale stoppable_workers =
  fixes pol :: "('h, 'os) worker_policy"
    and gone :: "'h \<Rightarrow> 'os \<Rightarrow> bool"
    and evolves :: "'os \<Rightarrow> 'os \<Rightarrow> bool"
  assumes evolves_refl: "evolves os os"
    and evolves_trans: "evolves os os' \<Longrightarrow> evolves os' os'' \<Longrightarrow> evolves os os''"
    and gone_stable: "gone h os \<Longrightarrow> evolves os os' \<Longrightarrow> gone h os'"
    and alive_same: "wp_is_alive pol h os = (True, h', os') \<Longrightarrow> h' = h \<and> evolves os os'"
    and dead_gone: "wp_is_alive pol h os = (False, h', os') \<Longrightarrow> gone h os' \<and> evolves os os'"
    and force_gone: "wp_force_stop pol h os = (h', os') \<Longrightarrow> gone h os' \<and> evolves os os'"
    and signal_same: "wp_signal_stop pol h os = (h', os') \<Longrightarrow> h' = h \<and> evolves os os'"
begin

definition tracks :: "'os \<Rightarrow> 'h \<Rightarrow> 'h \<Rightarrow> bool" where
  "tracks os h0 h \<longleftrightarrow> h = h0 \<or> gone h0 os"

lemma tracks_evolves: "tracks os h0 h \<Longrightarrow> evolves os os' \<Longrightarrow> tracks os' h0 h"
  using gone_stable by (auto simp: tracks_def)

lemma tracks_all_evolves: "list_all2 (tracks os) hs ks \<Longrightarrow> evolves os os' \<Longrightarrow> list_all2 (tracks os') hs ks"
  by (erule list_all2_mono) (rule tracks_evolves)

lemma is_alive_tracks:
  assumes "wp_is_alive pol h os = (b, h', os')" and "tracks os h0 h"
  shows "evolves os os' \<and> tracks os' h0 h' \<and> (\<not> b \<longrightarrow> gone h0 os')"
proof (cases b)
  case True
  then show ?thesis using assms alive_same [of h os h' os'] tracks_evolves by auto
next
  case False
  then have d: "gone h os'" "evolves os os'" using assms(1) dead_gone by auto
  then have "gone h0 os'" using assms(2) gone_stable by (auto simp: tracks_def)
  then show ?thesis using d by (simp add: tracks_def)
qed

lemma force_worker_gone:
  assumes "force_worker pol h os = (h', os')" and "tracks os h0 h"
  shows "evolves os os' \<and> gone h0 os'"
proof -
  obtain b k os1 where a: "wp_is_alive pol h os = (b, k, os1)" by (metis prod_cases3)
  note t = is_alive_tracks [OF a assms(2)]
  show ?thesis
  proof (cases b)
    case True
    then have "wp_force_stop pol k os1 = (h', os')" using assms(1) a by (simp add: force_worker_def)
    then have "gone k os'" "evolves os1 os'" using force_gone by blast+
    then show ?thesis using t evolves_trans gone_stable by (auto simp: tracks_def)
  next
    case False
    then show ?thesis using assms(1) a t by (simp add: force_worker_def)
  qed
qed

lemma signal_workers_same:
  assumes "signal_workers pol old (ws, os) = (ws', os')"
  shows "evolves os os' \<and> map we_handle ws' = map we_handle ws \<and> map we_generation ws' = map we_generation ws \<and>
    map we_worker_id ws' = map we_worker_id ws \<and> list_all2 (\<lambda>w w'. if old w then we_stopping w' else w' = w) ws ws'"
  using assms
proof (induction ws arbitrary: os ws' os')
  case Nil
  then show ?case by (simp add: evolves_refl)
next
  case (Cons w ws)
  show ?case
  proof (cases "old w \<and> \<not> we_stopping w")
    case True
    obtain h os1 where s: "wp_signal_stop pol (we_handle w) os = (h, os1)" by force
    obtain vs os2 where r: "signal_workers pol old (ws, os1) = (vs, os2)" by force
    have "ws' = w\<lparr>we_handle := h, we_stopping := True\<rparr> # vs" "os' = os2" using Cons.prems True s r by simp_all
    then show ?thesis using Cons.IH [OF r] signal_same [OF s] True evolves_trans by auto
  next
    case False
    obtain vs os2 where r: "signal_workers pol old (ws, os) = (vs, os2)" by force
    have "ws' = w # vs" "os' = os2" using Cons.prems False r by auto
    then show ?thesis using Cons.IH [OF r] False by auto
  qed
qed

lemma any_alive_tracks:
  assumes "any_alive pol (ws, os) = (b, ws', os')" and "list_all2 (tracks os) hs (map we_handle ws)"
  shows "evolves os os' \<and> list_all2 (tracks os') hs (map we_handle ws')"
  using assms
proof (induction ws arbitrary: os hs b ws' os')
  case Nil
  then show ?case by (simp add: evolves_refl)
next
  case (Cons w ws)
  obtain h0 hs' where hs: "hs = h0 # hs'" "tracks os h0 (we_handle w)" "list_all2 (tracks os) hs' (map we_handle ws)"
    using Cons.prems(2) by (auto simp: list_all2_Cons2)
  obtain a h os1 where al: "wp_is_alive pol (we_handle w) os = (a, h, os1)" by (metis prod_cases3)
  note one = is_alive_tracks [OF al hs(2)]
  have rest: "list_all2 (tracks os1) hs' (map we_handle ws)" using tracks_all_evolves [OF hs(3)] one by blast
  show ?case
  proof (cases a)
    case True
    then have "ws' = w\<lparr>we_handle := h\<rparr> # ws" "os' = os1" using Cons.prems(1) al by simp_all
    then show ?thesis using one rest hs(1) by simp
  next
    case False
    obtain b2 vs os2 where r: "any_alive pol (ws, os1) = (b2, vs, os2)" by (metis prod_cases3)
    have "ws' = w\<lparr>we_handle := h\<rparr> # vs" "os' = os2" using Cons.prems(1) al r False by simp_all
    then show ?thesis using one Cons.IH [OF r rest] hs(1) evolves_trans tracks_evolves by auto
  qed
qed

lemma await_all_tracks:
  assumes "await_all pol ts (ws, os) = (ws', os')" and "list_all2 (tracks os) hs (map we_handle ws)" and "\<forall>t\<in>set ts. \<forall>o'. evolves o' (t o')"
  shows "evolves os os' \<and> list_all2 (tracks os') hs (map we_handle ws')"
  using assms
proof (induction ts arbitrary: ws os)
  case Nil
  then show ?case by (simp add: evolves_refl)
next
  case (Cons t ts)
  obtain b vs os1 where a: "any_alive pol (ws, os) = (b, vs, os1)" by (metis prod_cases3)
  note one = any_alive_tracks [OF a Cons.prems(2)]
  show ?case
  proof (cases b)
    case True
    have ev: "evolves os1 (t os1)" using Cons.prems(3) by simp
    have "await_all pol ts (vs, t os1) = (ws', os')" using Cons.prems(1) a True by simp
    moreover have "list_all2 (tracks (t os1)) hs (map we_handle vs)" using tracks_all_evolves [OF _ ev] one by blast
    ultimately have "evolves (t os1) os' \<and> list_all2 (tracks os') hs (map we_handle ws')" using Cons.IH Cons.prems(3) by simp
    then show ?thesis using one ev evolves_trans by blast
  next
    case False
    then show ?thesis using Cons.prems(1) a one by simp
  qed
qed

lemma force_workers_gone:
  assumes "force_workers pol (ws, os) = (ws', os')" and "list_all2 (tracks os) hs (map we_handle ws)"
  shows "evolves os os' \<and> list_all (\<lambda>h. gone h os') hs"
  using assms
proof (induction ws arbitrary: os hs ws' os')
  case Nil
  then show ?case by (simp add: evolves_refl)
next
  case (Cons w ws)
  obtain h0 hs' where hs: "hs = h0 # hs'" "tracks os h0 (we_handle w)" "list_all2 (tracks os) hs' (map we_handle ws)"
    using Cons.prems(2) by (auto simp: list_all2_Cons2)
  obtain h os1 where f: "force_worker pol (we_handle w) os = (h, os1)" by force
  obtain vs os2 where r: "force_workers pol (ws, os1) = (vs, os2)" by force
  note one = force_worker_gone [OF f hs(2)]
  have "list_all2 (tracks os1) hs' (map we_handle ws)" using tracks_all_evolves [OF hs(3)] one by blast
  from Cons.IH [OF r this] one have "evolves os os2" "gone h0 os2" "list_all (\<lambda>h. gone h os2) hs'"
    using evolves_trans gone_stable by blast+
  then show ?case using Cons.prems(1) f r hs(1) by simp
qed

theorem stop_all_gone:
  assumes "stop_all_workers pol ticks (ws, os) = Inr (ws', os')" and "\<forall>t\<in>set ticks. \<forall>o'. evolves o' (t o')"
  shows "ws' = [] \<and> list_all (\<lambda>w. gone (we_handle w) os') ws"
proof -
  obtain ws1 os1 where s: "signal_workers pol (\<lambda>w. True) (ws, os) = (ws1, os1)" by force
  obtain ws2 os2 where a: "await_all pol ticks (ws1, os1) = (ws2, os2)" by force
  obtain ws3 os3 where f: "force_workers pol (ws2, os2) = (ws3, os3)" by force
  have "list_all2 (tracks os1) (map we_handle ws) (map we_handle ws1)"
    using signal_workers_same [OF s] by (simp add: list_all2_conv_all_nth tracks_def)
  from await_all_tracks [OF a this assms(2)] have "list_all2 (tracks os2) (map we_handle ws) (map we_handle ws2)" by blast
  from force_workers_gone [OF f this] have "list_all (\<lambda>h. gone h os3) (map we_handle ws)" by blast
  moreover have "ws' = [] \<and> os' = os3"
    using assms(1) s a f by (auto simp: stop_all_workers_def erase_workers_def bindE_def split: if_splits)
  ultimately show ?thesis by (simp add: list.pred_map comp_def)
qed

lemma await_one_tracks:
  assumes "await_one pol ts h os = (h', os')" and "tracks os h0 h" and "\<forall>t\<in>set ts. \<forall>o'. evolves o' (t o')"
  shows "evolves os os' \<and> tracks os' h0 h'"
  using assms
proof (induction ts arbitrary: h os)
  case Nil
  then show ?case by (simp add: evolves_refl)
next
  case (Cons t ts)
  obtain b k os1 where a: "wp_is_alive pol h os = (b, k, os1)" by (metis prod_cases3)
  note one = is_alive_tracks [OF a Cons.prems(2)]
  show ?case
  proof (cases b)
    case True
    have ev: "evolves os1 (t os1)" using Cons.prems(3) by simp
    have "await_one pol ts k (t os1) = (h', os')" using Cons.prems(1) a True by simp
    moreover have "tracks (t os1) h0 k" using tracks_evolves one ev by blast
    ultimately have "evolves (t os1) os' \<and> tracks os' h0 h'" using Cons.IH Cons.prems(3) by simp
    then show ?thesis using one ev evolves_trans by blast
  next
    case False
    then show ?thesis using Cons.prems(1) a one by simp
  qed
qed

lemma await_old_gone:
  assumes "await_old pol keep ticks (ws, os) = (ws', os')" and "\<forall>i. \<forall>t\<in>set (ticks i). \<forall>o'. evolves o' (t o')"
    and "\<forall>w\<in>set ws. we_generation w \<noteq> keep \<longrightarrow> we_stopping w"
  shows "evolves os os' \<and> (\<forall>w\<in>set ws. we_generation w \<noteq> keep \<longrightarrow> gone (we_handle w) os') \<and>
    filter (\<lambda>w. we_generation w = keep) ws' = filter (\<lambda>w. we_generation w = keep) ws"
  using assms
proof (induction ws arbitrary: os ticks ws' os')
  case Nil
  then show ?case by (simp add: evolves_refl)
next
  case (Cons w ws)
  let ?ticks = "\<lambda>i. ticks (Suc i)"
  have ts: "\<forall>i. \<forall>t\<in>set (?ticks i). \<forall>o'. evolves o' (t o')" "\<forall>t\<in>set (ticks 0). \<forall>o'. evolves o' (t o')" using Cons.prems(2) by auto
  have st: "\<forall>w\<in>set ws. we_generation w \<noteq> keep \<longrightarrow> we_stopping w" using Cons.prems(3) by simp
  show ?case
  proof (cases "we_generation w = keep")
    case True
    obtain vs os2 where r: "await_old pol keep ?ticks (ws, os) = (vs, os2)" by force
    have "ws' = w # vs" "os' = os2" using Cons.prems(1) True r by simp_all
    then show ?thesis using Cons.IH [OF r ts(1) st] True by simp
  next
    case False
    obtain h os1 where a: "await_one pol (ticks 0) (we_handle w) os = (h, os1)" by force
    obtain k os2 where f: "force_worker pol h os1 = (k, os2)" by force
    obtain vs os3 where r: "await_old pol keep ?ticks (ws, os2) = (vs, os3)" by force
    have "tracks os (we_handle w) (we_handle w)" by (simp add: tracks_def)
    note one = await_one_tracks [OF a this ts(2)]
    note two = force_worker_gone [OF f one [THEN conjunct2]]
    note three = Cons.IH [OF r ts(1) st]
    have "we_stopping w" using Cons.prems(3) False by simp
    then have "ws' = w\<lparr>we_handle := k\<rparr> # vs" "os' = os3" using Cons.prems(1) False a f r by simp_all
    moreover have "evolves os os3" "gone (we_handle w) os3" using one two three evolves_trans gone_stable by blast+
    ultimately show ?thesis using three False by simp
  qed
qed

theorem stop_old_gone:
  assumes "stop_old_workers pol keep ticks (ws, os) = Inr (ws', os')" and "\<forall>i. \<forall>t\<in>set (ticks i). \<forall>o'. evolves o' (t o')"
  shows "(\<forall>w\<in>set ws. we_generation w \<noteq> keep \<longrightarrow> gone (we_handle w) os') \<and> ws' = filter (\<lambda>w. we_generation w = keep) ws"
proof -
  obtain ws1 os1 where s: "signal_workers pol (\<lambda>w. we_generation w \<noteq> keep) (ws, os) = (ws1, os1)" by force
  obtain ws2 os2 where a: "await_old pol keep ticks (ws1, os1) = (ws2, os2)" by force
  note sig = signal_workers_same [OF s]
  have pairs: "list_all2 (\<lambda>w w'. we_handle w' = we_handle w \<and> we_generation w' = we_generation w \<and>
      (if we_generation w \<noteq> keep then we_stopping w' else w' = w)) ws ws1"
    using sig by (simp add: list_all2_conv_all_nth) (metis nth_map)
  then have stopping: "\<forall>w\<in>set ws1. we_generation w \<noteq> keep \<longrightarrow> we_stopping w"
    by (induction rule: list_all2_induct) auto
  have kept: "filter (\<lambda>w. we_generation w = keep) ws1 = filter (\<lambda>w. we_generation w = keep) ws"
    using pairs by (induction rule: list_all2_induct) auto
  note old = await_old_gone [OF a assms(2) stopping]
  have "\<forall>w\<in>set ws1. we_generation w \<noteq> keep \<longrightarrow> gone (we_handle w) os2" using old by blast
  with pairs have "\<forall>w\<in>set ws. we_generation w \<noteq> keep \<longrightarrow> gone (we_handle w) os2"
    by (induction rule: list_all2_induct) auto
  moreover have "ws' = filter (\<lambda>w. we_generation w = keep) ws2 \<and> os' = os2"
    using assms(1) s a by (auto simp: stop_old_workers_def erase_workers_def bindE_def split: if_splits)
  ultimately show ?thesis using old kept by simp
qed

end

section \<open>Workers that are left alone\<close>

text \<open>What the operations on the handles of some workers keep of the others.\<close>

locale worker_frame =
  fixes pol :: "('h, 'os) worker_policy"
    and own :: "'h \<Rightarrow> bool"
    and keeps :: "'os \<Rightarrow> bool"
  assumes alive_frame: "own h \<Longrightarrow> keeps os \<Longrightarrow> wp_is_alive pol h os = (b, h', os') \<Longrightarrow> own h' \<and> keeps os'"
    and force_frame: "own h \<Longrightarrow> keeps os \<Longrightarrow> wp_force_stop pol h os = (h', os') \<Longrightarrow> keeps os'"
    and signal_frame: "own h \<Longrightarrow> keeps os \<Longrightarrow> wp_signal_stop pol h os = (h', os') \<Longrightarrow> own h' \<and> keeps os'"
begin

lemma signal_workers_frame:
  assumes "signal_workers pol (\<lambda>w. we_generation w \<noteq> keep) (ws, os) = (ws', os')"
    and "keeps os" and "\<forall>w\<in>set ws. we_generation w \<noteq> keep \<longrightarrow> own (we_handle w)"
  shows "keeps os' \<and> (\<forall>w\<in>set ws'. we_generation w \<noteq> keep \<longrightarrow> own (we_handle w))"
  using assms
proof (induction ws arbitrary: os ws' os')
  case (Cons w ws)
  show ?case
  proof (cases "we_generation w \<noteq> keep \<and> \<not> we_stopping w")
    case True
    obtain h os1 where s: "wp_signal_stop pol (we_handle w) os = (h, os1)" by force
    obtain vs os2 where r: "signal_workers pol (\<lambda>w. we_generation w \<noteq> keep) (ws, os1) = (vs, os2)" by force
    have "own h \<and> keeps os1" using signal_frame [OF _ Cons.prems(2) s] Cons.prems(3) True by simp
    then show ?thesis using Cons.prems True s r Cons.IH [OF r] by auto
  next
    case False
    obtain vs os2 where r: "signal_workers pol (\<lambda>w. we_generation w \<noteq> keep) (ws, os) = (vs, os2)" by force
    then show ?thesis using Cons.prems False Cons.IH [OF r] by auto
  qed
qed simp

lemma force_worker_frame:
  assumes "force_worker pol h os = (h', os')" and "keeps os" and "own h"
  shows "keeps os'"
proof -
  obtain b k os1 where a: "wp_is_alive pol h os = (b, k, os1)" by (metis prod_cases3)
  note one = alive_frame [OF assms(3,2) a]
  show ?thesis using assms(1) a one force_frame [of k os1 h' os'] by (simp add: force_worker_def split: if_splits)
qed

lemma await_one_frame:
  assumes "await_one pol ts h os = (h', os')" and "keeps os" and "own h" and "\<forall>t\<in>set ts. \<forall>o'. keeps o' \<longrightarrow> keeps (t o')"
  shows "keeps os' \<and> own h'"
  using assms
proof (induction ts arbitrary: h os)
  case (Cons t ts)
  obtain b k os1 where a: "wp_is_alive pol h os = (b, k, os1)" by (metis prod_cases3)
  note one = alive_frame [OF Cons.prems(3,2) a]
  then show ?case using Cons.prems a Cons.IH [of k "t os1"] by (simp split: if_splits)
qed simp

lemma await_old_frame:
  assumes "await_old pol keep ticks (ws, os) = (ws', os')" and "keeps os" and "\<forall>w\<in>set ws. we_generation w \<noteq> keep \<longrightarrow> own (we_handle w)"
    and "\<forall>i. \<forall>t\<in>set (ticks i). \<forall>o'. keeps o' \<longrightarrow> keeps (t o')"
  shows "keeps os'"
  using assms
proof (induction ws arbitrary: os ticks ws' os')
  case (Cons w ws)
  let ?ticks = "\<lambda>i. ticks (Suc i)"
  show ?case
  proof (cases "we_generation w \<noteq> keep \<and> we_stopping w")
    case True
    obtain h os1 where a: "await_one pol (ticks 0) (we_handle w) os = (h, os1)" by force
    obtain k os2 where f: "force_worker pol h os1 = (k, os2)" by force
    obtain vs os3 where r: "await_old pol keep ?ticks (ws, os2) = (vs, os3)" by force
    have one: "keeps os1" "own h" using await_one_frame [OF a Cons.prems(2)] Cons.prems(3,4) True by auto
    have "keeps os2" using force_worker_frame [OF f one] .
    then have "keeps os3" using Cons.IH [OF r] Cons.prems(3,4) by simp
    then show ?thesis using Cons.prems(1) True a f r by simp
  next
    case False
    obtain vs os3 where r: "await_old pol keep ?ticks (ws, os) = (vs, os3)" by force
    then show ?thesis using Cons.prems False Cons.IH [OF r] by (auto split: if_splits)
  qed
qed simp

theorem stop_old_frame:
  assumes "stop_old_workers pol keep ticks (ws, os) = Inr (ws', os')" and "keeps os"
    and "\<forall>w\<in>set ws. we_generation w \<noteq> keep \<longrightarrow> own (we_handle w)"
    and "\<forall>i. \<forall>t\<in>set (ticks i). \<forall>o'. keeps o' \<longrightarrow> keeps (t o')"
  shows "keeps os'"
proof -
  obtain ws1 os1 where s: "signal_workers pol (\<lambda>w. we_generation w \<noteq> keep) (ws, os) = (ws1, os1)" by force
  obtain ws2 os2 where a: "await_old pol keep ticks (ws1, os1) = (ws2, os2)" by force
  have "keeps os2" using await_old_frame [OF a _ _ assms(4)] signal_workers_frame [OF s assms(2,3)] by simp
  moreover have "os' = os2" using assms(1) s a by (auto simp: stop_old_workers_def erase_workers_def bindE_def split: if_splits)
  ultimately show ?thesis by simp
qed

end

section \<open>Processes\<close>

text \<open>The process has ended, and has been waited for unless the waiting was interrupted.\<close>

definition process_gone :: "nat \<Rightarrow> fork_os \<Rightarrow> bool" where
  "process_gone pid os \<longleftrightarrow> pid = 0 \<or> fk_table os pid = None \<or> fk_eintr os pid \<and> fk_table os pid = Some False"

text \<open>Without forks of the master no child appears, and one that has exited does not run again.\<close>

definition fork_evolves :: "fork_os \<Rightarrow> fork_os \<Rightarrow> bool" where
  "fork_evolves os os' \<longleftrightarrow> fk_eintr os' = fk_eintr os \<and>
     (\<forall>pid. (fk_table os pid = None \<longrightarrow> fk_table os' pid = None) \<and> (fk_table os pid = Some False \<longrightarrow> fk_table os' pid \<noteq> Some True))"

text \<open>What happens while the master sleeps: children may exit.\<close>

definition children_run :: "fork_os \<Rightarrow> fork_os \<Rightarrow> bool" where
  "children_run os os' \<longleftrightarrow> (\<exists>exits. os' = os\<lparr>fk_table := (\<lambda>pid. map_option (\<lambda>b. b \<and> \<not> exits pid) (fk_table os pid))\<rparr>)"

lemma children_run_evolves: "children_run os os' \<Longrightarrow> fork_evolves os os'"
  by (auto simp: children_run_def fork_evolves_def)

interpretation processes: stoppable_workers fork_policy process_gone fork_evolves
proof unfold_locales
  fix os os' os''
  assume "fork_evolves os os'" and "fork_evolves os' os''"
  then show "fork_evolves os os''"
    unfolding fork_evolves_def by (metis (full_types) not_None_eq)
next
  fix h os h' os'
  assume "wp_force_stop fork_policy h os = (h', os')"
  then show "process_gone h os' \<and> fork_evolves os os'"
    by (cases "fk_table os h") (auto simp: fork_policy_def process_gone_def fork_evolves_def fork_force_stop_def split: if_splits)
qed (auto simp: fork_policy_def process_gone_def fork_evolves_def fork_is_alive_def fork_signal_stop_def
       split: if_splits option.splits bool.splits)

text \<open>A child that the master has neither waited for nor signalled: it runs unless it has exited by itself.\<close>

definition left_alone :: "nat \<Rightarrow> fork_os \<Rightarrow> bool" where
  "left_alone pid os \<longleftrightarrow> fk_table os pid \<noteq> None \<and> pid \<notin> set (fk_signalled os) \<and> pid \<notin> set (fk_killed os)"

interpretation child: worker_frame fork_policy "\<lambda>h. h = 0 \<or> h \<noteq> pid" "left_alone pid" for pid
  by unfold_locales
     (auto simp: fork_policy_def left_alone_def fork_is_alive_def fork_force_stop_def fork_signal_stop_def
       split: if_splits option.splits bool.splits)

lemma children_run_alone: "children_run os os' \<Longrightarrow> left_alone pid os \<Longrightarrow> left_alone pid os'"
  by (auto simp: children_run_def left_alone_def)

lemma fork_erase: "erase_workers fork_policy g ws = Inr (filter (\<lambda>w. \<not> g w) ws)"
  by (simp add: erase_workers_def fork_policy_def list_all_iff)

lemma fork_stop_all_returns: "\<exists>ws' os'. stop_all_workers fork_policy ticks s = Inr (ws', os')"
  by (simp add: stop_all_workers_def fork_erase case_prod_unfold)

lemma fork_stop_old_returns: "\<exists>ws' os'. stop_old_workers fork_policy keep ticks s = Inr (ws', os')"
  by (simp add: stop_old_workers_def fork_erase case_prod_unfold Let_def)

text \<open>Identifiers below \<open>fk_next\<close> have been given out.\<close>

definition fork_fresh :: "fork_os \<Rightarrow> bool" where
  "fork_fresh os \<longleftrightarrow> 0 < fk_next os \<and> (\<forall>pid\<ge>fk_next os. fk_table os pid = None) \<and>
     (\<forall>pid\<in>set (fk_signalled os) \<union> set (fk_killed os). pid < fk_next os)"

text \<open>The handles a sequence of forks gives: as the forks succeed, new children, all different.\<close>

definition fork_succeeds :: "fork_os \<Rightarrow> nat \<Rightarrow> bool" where
  "fork_succeeds os j \<longleftrightarrow> j < length (fk_forks os) \<and> fk_forks os ! j"

definition forked :: "fork_os \<Rightarrow> fork_os \<Rightarrow> nat list \<Rightarrow> bool" where
  "forked os os' hs \<longleftrightarrow> fk_next os \<le> fk_next os' \<and> fork_fresh os' \<and> distinct (filter (\<lambda>h. h \<noteq> 0) hs) \<and>
     (\<forall>h\<in>set hs. h = 0 \<or> fk_next os \<le> h \<and> left_alone h os') \<and>
     (\<forall>j<length hs. hs ! j \<noteq> 0 \<longleftrightarrow> fork_succeeds os j) \<and>
     (\<forall>pid. left_alone pid os \<longrightarrow> left_alone pid os')"

lemma fork_spawn_forked:
  assumes "fork_spawn i os = (h, os')" and "fork_fresh os"
  shows "forked os os' [h] \<and> (\<forall>j. fork_succeeds os' j = fork_succeeds os (Suc j)) \<and> (h \<noteq> 0 \<longrightarrow> fk_next os' = Suc h)"
proof (cases "fork_succeeds os 0")
  case True
  then obtain fs where fs: "fk_forks os = True # fs" by (cases "fk_forks os") (auto simp: fork_succeeds_def)
  then have "h = fk_next os" "os' = os\<lparr>fk_forks := fs, fk_table := (fk_table os)(fk_next os \<mapsto> True), fk_next := fk_next os + 1\<rparr>"
    using assms(1) by (auto simp: fork_spawn_def)
  then show ?thesis using assms(2) True fs
    by (auto simp: forked_def fork_fresh_def left_alone_def fork_succeeds_def less_Suc_eq)
next
  case False
  then have "h = 0" "os' = os\<lparr>fk_forks := tl (fk_forks os)\<rparr>"
    using assms(1) by (cases "fk_forks os"; auto simp: fork_spawn_def fork_succeeds_def split: bool.splits)+
  then show ?thesis using assms(2) False
    by (auto simp: forked_def fork_fresh_def left_alone_def fork_succeeds_def nth_tl)
qed

lemma forked_Cons:
  assumes "forked os os1 [h]" and "\<forall>j. fork_succeeds os1 j = fork_succeeds os (Suc j)" and "h \<noteq> 0 \<longrightarrow> fk_next os1 = Suc h"
    and "forked os1 os2 hs"
  shows "forked os os2 (h # hs)"
proof -
  have "hs ! j \<noteq> 0 \<longleftrightarrow> fork_succeeds os (Suc j)" if "j < length hs" for j using assms(2,4) that by (simp add: forked_def)
  then have "\<forall>j<length (h # hs). (h # hs) ! j \<noteq> 0 \<longleftrightarrow> fork_succeeds os j"
    using assms(1) by (auto simp: forked_def nth_Cons split: nat.splits)
  moreover have "h \<noteq> 0 \<Longrightarrow> h \<notin> set hs" using assms(3,4) by (auto simp: forked_def)
  ultimately show ?thesis using assms(1,4) by (auto simp: forked_def)
qed

lemma forked_handles:
  assumes "forked os os' hs" and "fork_fresh os" and "j < length hs"
  shows "if fork_succeeds os j then hs ! j \<noteq> 0 \<and> hs ! j \<in> set hs \<and> fk_table os (hs ! j) = None else hs ! j = 0"
proof (cases "fork_succeeds os j")
  case True
  then have "hs ! j \<noteq> 0" "hs ! j \<in> set hs" using assms(1,3) by (simp_all add: forked_def)
  then have "fk_next os \<le> hs ! j" using assms(1) by (auto simp: forked_def)
  then show ?thesis using True assms(2) \<open>hs ! j \<noteq> 0\<close> \<open>hs ! j \<in> set hs\<close> by (simp add: fork_fresh_def)
qed (use assms(1,3) in \<open>auto simp: forked_def\<close>)

lemma spawn_from_entries:
  "spawn_from pol gen is (ws, os) = (ws', os') \<Longrightarrow>
   \<exists>hs. length hs = length is \<and>
     ws' = ws @ map (\<lambda>(i, h). \<lparr>we_handle = h, we_worker_id = i, we_generation = gen, we_stopping = False\<rparr>) (zip is hs)"
proof (induction "is" arbitrary: ws os)
  case (Cons i "is")
  obtain h os1 where s: "wp_spawn pol i os = (h, os1)" by force
  then have "spawn_from pol gen is (ws @ [\<lparr>we_handle = h, we_worker_id = i, we_generation = gen, we_stopping = False\<rparr>], os1) = (ws', os')"
    using Cons.prems by simp
  from Cons.IH [OF this] obtain hs where "length hs = length is"
    "ws' = (ws @ [\<lparr>we_handle = h, we_worker_id = i, we_generation = gen, we_stopping = False\<rparr>]) @
      map (\<lambda>(i, h). \<lparr>we_handle = h, we_worker_id = i, we_generation = gen, we_stopping = False\<rparr>) (zip is hs)" by blast
  then show ?case by (intro exI [of _ "h # hs"]) simp
qed simp

lemma fork_entries:
  "spawn_from fork_policy gen is (ws, os) = (ws', os') \<Longrightarrow> fork_fresh os \<Longrightarrow>
   \<exists>hs. length hs = length is \<and> forked os os' hs \<and>
     ws' = ws @ map (\<lambda>(i, h). \<lparr>we_handle = h, we_worker_id = i, we_generation = gen, we_stopping = False\<rparr>) (zip is hs)"
proof (induction "is" arbitrary: ws os)
  case Nil
  then show ?case by (auto simp: forked_def)
next
  case (Cons i "is")
  let ?e = "\<lambda>h. \<lparr>we_handle = h, we_worker_id = i, we_generation = gen, we_stopping = False\<rparr>"
  obtain h os1 where s: "fork_spawn i os = (h, os1)" by force
  note one = fork_spawn_forked [OF s Cons.prems(2)]
  have "spawn_from fork_policy gen is (ws @ [?e h], os1) = (ws', os')" using Cons.prems(1) s by (simp add: fork_policy_def)
  moreover have "fork_fresh os1" using one by (simp add: forked_def)
  ultimately obtain hs where hs: "length hs = length is" "forked os1 os' hs" "ws' = (ws @ [?e h]) @
      map (\<lambda>(i, h). \<lparr>we_handle = h, we_worker_id = i, we_generation = gen, we_stopping = False\<rparr>) (zip is hs)"
    using Cons.IH by blast
  have "forked os os' (h # hs)" using forked_Cons one hs(2) by blast
  then show ?case using hs by (intro exI [of _ "h # hs"]) simp
qed

text \<open>
  C36: With processes as workers: a shutdown leaves no entry and no process of a worker, and a reload replaces the workers by as
  many entries of the next generation as the configuration asks for, with no process of an earlier one left, however
  long the old ones take and whatever they do while they are waited for.  A new entry has a newly forked child of its
  own, which the master has not signalled, killed or waited for; where \<^verbatim>\<open>fork\<close> failed the entry has no process.  A process
  of an earlier generation has been waited for unless a signal interrupted the \<^verbatim>\<open>waitpid\<close> after its \<^verbatim>\<open>SIGKILL\<close>.
\<close>

theorem fork_workers_replaced:
  fixes m :: "(nat, fork_os) process_manager"
  defines "g \<equiv> pm_generation m + 1"
  assumes "fork_fresh (pm_os m)"
    and "\<forall>w\<in>set (pm_workers m). we_generation w \<le> pm_generation m \<and> we_handle w < fk_next (pm_os m)"
    and "\<forall>t\<in>set ticks. \<forall>os. children_run os (t os)" and "\<forall>i. \<forall>t\<in>set (old_ticks i). \<forall>os. children_run os (t os)"
  shows "(\<exists>m'. pm_shutdown fork_policy ticks m = Inr m' \<and> pm_workers m' = [] \<and>
      (\<forall>w\<in>set (pm_workers m). process_gone (we_handle w) (pm_os m'))) \<and>
    (\<exists>m'. pm_reload fork_policy reloaded old_ticks m = Inr m' \<and> pm_generation m' = g \<and>
      (\<forall>w\<in>set (pm_workers m). process_gone (we_handle w) (pm_os m')) \<and>
      pm_num_workers m' = (case reloaded of None \<Rightarrow> pm_num_workers m | Some n \<Rightarrow> if n = 0 then pm_num_workers m else n) \<and>
      map (\<lambda>w. (we_worker_id w, we_generation w, we_stopping w)) (pm_workers m') = map (\<lambda>i. (i, g, False)) [0..<pm_num_workers m'] \<and>
      (\<forall>i<pm_num_workers m'. let pid = we_handle (pm_workers m' ! i) in
         if fork_succeeds (pm_os m) i then 0 < pid \<and> fk_table (pm_os m) pid = None \<and> left_alone pid (pm_os m') else pid = 0) \<and>
      distinct (filter (\<lambda>pid. pid \<noteq> 0) (map we_handle (pm_workers m'))))"
proof
  obtain ws os where s: "stop_all_workers fork_policy ticks (pm_workers m, pm_os m) = Inr (ws, os)" using fork_stop_all_returns by blast
  have "\<forall>t\<in>set ticks. \<forall>os. fork_evolves os (t os)" using assms(4) children_run_evolves by blast
  from processes.stop_all_gone [OF s this] s
  show "\<exists>m'. pm_shutdown fork_policy ticks m = Inr m' \<and> pm_workers m' = [] \<and>
      (\<forall>w\<in>set (pm_workers m). process_gone (we_handle w) (pm_os m'))"
    by (simp add: pm_shutdown_def list_all_iff)
next
  define nw where "nw = (case reloaded of None \<Rightarrow> pm_num_workers m | Some n \<Rightarrow> if n = 0 then pm_num_workers m else n)"
  obtain ws1 os1 where sp: "spawn_workers fork_policy nw g (pm_workers m, pm_os m) = (ws1, os1)" by force
  then obtain hs where hs: "length hs = nw" "forked (pm_os m) os1 hs" "ws1 = pm_workers m @
      map (\<lambda>(i, h). \<lparr>we_handle = h, we_worker_id = i, we_generation = g, we_stopping = False\<rparr>) (zip [0..<nw] hs)" (is "_ = _ @ ?new")
    using fork_entries [of g "[0..<nw]" "pm_workers m" "pm_os m" ws1 os1] assms(2) by (auto simp: spawn_workers_def)
  obtain ws2 os2 where so: "stop_old_workers fork_policy g old_ticks (ws1, os1) = Inr (ws2, os2)" using fork_stop_old_returns by blast
  have ticks: "\<forall>i. \<forall>t\<in>set (old_ticks i). \<forall>os. fork_evolves os (t os)" using assms(5) children_run_evolves by blast
  note old = processes.stop_old_gone [OF so ticks]
  have "filter (\<lambda>w. we_generation w = g) (pm_workers m) = []" using assms(3) by (auto simp: filter_empty_conv g_def)
  moreover have "filter (\<lambda>w. we_generation w = g) ?new = ?new" by (rule filter_True) auto
  ultimately have new: "ws2 = ?new" using old hs(3) by simp
  have gone: "\<forall>w\<in>set (pm_workers m). process_gone (we_handle w) os2" using old assms(3) hs(3) by (fastforce simp: g_def)
  have handles: "map we_handle ?new = hs" using hs(1) by (intro nth_equalityI) auto
  have entries: "map (\<lambda>w. (we_worker_id w, we_generation w, we_stopping w)) ?new = map (\<lambda>i. (i, g, False)) [0..<nw]"
    using hs(1) by (intro nth_equalityI) auto
  have "left_alone h os2" if "h \<in> set hs" "h \<noteq> 0" for h
  proof (rule child.stop_old_frame [OF so])
    show "left_alone h os1" using hs(2) that by (auto simp: forked_def)
    have "fk_next (pm_os m) \<le> h" using hs(2) that by (auto simp: forked_def)
    then show "\<forall>w\<in>set ws1. we_generation w \<noteq> g \<longrightarrow> we_handle w = 0 \<or> we_handle w \<noteq> h" using hs(3) assms(3) by auto
    show "\<forall>i. \<forall>t\<in>set (old_ticks i). \<forall>o'. left_alone h o' \<longrightarrow> left_alone h (t o')" using assms(5) children_run_alone by blast
  qed
  then have "\<forall>i<nw. let pid = we_handle (?new ! i) in if fork_succeeds (pm_os m) i
      then 0 < pid \<and> fk_table (pm_os m) pid = None \<and> left_alone pid os2 else pid = 0"
    using forked_handles [OF hs(2) assms(2)] hs(1) by (fastforce simp: Let_def split: if_splits)
  moreover have "pm_reload fork_policy reloaded old_ticks m =
      Inr (m\<lparr>pm_num_workers := nw, pm_generation := g, pm_workers := ?new, pm_os := os2\<rparr>)"
    using sp so new by (simp add: pm_reload_def nw_def [symmetric] g_def)
  moreover have "distinct (filter (\<lambda>pid. pid \<noteq> 0) (map we_handle ?new))" using hs(2) handles by (simp add: forked_def)
  ultimately show "\<exists>m'. pm_reload fork_policy reloaded old_ticks m = Inr m' \<and> pm_generation m' = g \<and>
      (\<forall>w\<in>set (pm_workers m). process_gone (we_handle w) (pm_os m')) \<and>
      pm_num_workers m' = (case reloaded of None \<Rightarrow> pm_num_workers m | Some n \<Rightarrow> if n = 0 then pm_num_workers m else n) \<and>
      map (\<lambda>w. (we_worker_id w, we_generation w, we_stopping w)) (pm_workers m') = map (\<lambda>i. (i, g, False)) [0..<pm_num_workers m'] \<and>
      (\<forall>i<pm_num_workers m'. let pid = we_handle (pm_workers m' ! i) in
         if fork_succeeds (pm_os m) i then 0 < pid \<and> fk_table (pm_os m) pid = None \<and> left_alone pid (pm_os m') else pid = 0) \<and>
      distinct (filter (\<lambda>pid. pid \<noteq> 0) (map we_handle (pm_workers m')))"
    using gone entries by (simp add: nw_def [symmetric] Let_def)
qed

definition one_process :: "(nat, fork_os) process_manager" where
  "one_process = \<lparr>pm_num_workers = 1, pm_generation = 1,
     pm_workers = [\<lparr>we_handle = 7, we_worker_id = 0, we_generation = 1, we_stopping = False\<rparr>],
     pm_os = \<lparr>fk_table = [7 \<mapsto> True], fk_next = 8, fk_forks = [True, False], fk_eintr = (\<lambda>_. False), fk_signalled = [], fk_killed = []\<rparr>\<rparr>"

theorem fork_workers_replaced_witness:
  "\<exists>m'. pm_reload fork_policy (Some 2) (\<lambda>i. [id]) one_process = Inr m' \<and> process_gone 7 (pm_os m') \<and>
     0 < we_handle (pm_workers m' ! 0) \<and> left_alone (we_handle (pm_workers m' ! 0)) (pm_os m') \<and> we_handle (pm_workers m' ! 1) = 0"
proof -
  have ok: "fork_fresh (pm_os one_process)"
    "\<forall>w\<in>set (pm_workers one_process). we_generation w \<le> pm_generation one_process \<and> we_handle w < fk_next (pm_os one_process)"
    by (simp_all add: one_process_def fork_fresh_def)
  have "children_run os (id os)" for os
    unfolding children_run_def by (rule exI [of _ "\<lambda>_. False"]) (simp add: option.map_ident)
  then have quiet: "\<forall>t\<in>set []. \<forall>os. children_run os (t os)" "\<forall>i. \<forall>t\<in>set [id]. \<forall>os. children_run os (t os)" by simp_all
  have forks: "fork_succeeds (pm_os one_process) 0" "\<not> fork_succeeds (pm_os one_process) 1"
    by (simp_all add: one_process_def fork_succeeds_def)
  have "\<exists>w\<in>set (pm_workers one_process). we_handle w = 7" by (simp add: one_process_def)
  moreover obtain m' where m': "pm_reload fork_policy (Some 2) (\<lambda>i. [id]) one_process = Inr m'" "pm_num_workers m' = 2"
      "\<forall>w\<in>set (pm_workers one_process). process_gone (we_handle w) (pm_os m')"
      "\<forall>i<2. let pid = we_handle (pm_workers m' ! i) in if fork_succeeds (pm_os one_process) i
         then 0 < pid \<and> fk_table (pm_os one_process) pid = None \<and> left_alone pid (pm_os m') else pid = 0"
    using fork_workers_replaced [OF ok quiet, THEN conjunct2, of "Some 2"] by auto
  moreover have "0 < we_handle (pm_workers m' ! 0) \<and> left_alone (we_handle (pm_workers m' ! 0)) (pm_os m')"
    using m'(4) [THEN spec, of 0] forks(1) by (simp add: Let_def)
  moreover have "we_handle (pm_workers m' ! 1) = 0" using m'(4) [THEN spec, of 1] forks(2) by (simp add: Let_def)
  ultimately show ?thesis by force
qed

section \<open>Threads\<close>

lemma thread_signal_clears:
  assumes "signal_workers thread_policy old (ws, os) = (ws', os')"
  shows "map we_handle ws' = map we_handle ws \<and> map we_generation ws' = map we_generation ws \<and>
    (\<forall>i. to_running os' i \<longrightarrow> to_running os i) \<and>
    (\<forall>w\<in>set ws. old w \<and> \<not> we_stopping w \<longrightarrow> \<not> to_running os' (th_id (we_handle w))) \<and>
    list_all2 (\<lambda>w w'. old w \<longrightarrow> we_stopping w') ws ws'"
  using assms
proof (induction ws arbitrary: os ws' os')
  case (Cons w ws)
  obtain vs os2 where r: "signal_workers thread_policy old
      (ws, if old w \<and> \<not> we_stopping w then snd (thread_signal_stop (we_handle w) os) else os) = (vs, os2)" by force
  have out: "ws' = (if old w \<and> \<not> we_stopping w then w\<lparr>we_stopping := True\<rparr> else w) # vs" "os' = os2"
    using Cons.prems r by (auto simp: thread_policy_def thread_signal_stop_def split: if_splits)
  show ?case using Cons.IH [OF r] unfolding out by (auto simp: thread_signal_stop_def split: if_splits)
qed simp

lemma thread_none_alive:
  assumes "\<forall>w\<in>set ws. \<not> to_running os (th_id (we_handle w))"
  shows "any_alive thread_policy (ws, os) = (False, ws, os)" and "force_workers thread_policy (ws, os) = (ws, os)"
  using assms by (induction ws) (auto simp: thread_policy_def thread_is_alive_def force_worker_def)

lemma thread_await_old:
  assumes "\<forall>w\<in>set ws. we_generation w \<noteq> keep \<longrightarrow> \<not> to_running os (th_id (we_handle w))"
  shows "await_old thread_policy keep ticks (ws, os) = (ws, os)"
  using assms
proof (induction ws arbitrary: ticks)
  case (Cons w ws)
  have one: "await_one thread_policy ts (we_handle w) os = (we_handle w, os)" "force_worker thread_policy (we_handle w) os = (we_handle w, os)"
    if "we_generation w \<noteq> keep" for ts
    using that Cons.prems by (cases ts; simp add: thread_policy_def thread_is_alive_def force_worker_def)+
  show ?case using Cons.IH [of "\<lambda>i. ticks (Suc i)"] Cons.prems one by simp
qed simp

lemma thread_erase:
  assumes "w \<in> set ws" and "g w" and "th_joinable (we_handle w)"
  shows "erase_workers thread_policy g ws = Inl (Runtime_Error ''std::terminate'')"
  using assms by (auto simp: erase_workers_def thread_policy_def list_all_iff)

text \<open>
  C38: \<^verbatim>\<open>signal_stop\<close> clears the flag that \<^verbatim>\<open>is_alive\<close> reads, so a signalled worker counts as dead at once: it is not joined,
  and the destructor of its \<^verbatim>\<open>std::thread\<close> terminates the program.
\<close>

theorem thread_manager_terminates:
  fixes m :: "(thread_handle, thread_os) process_manager"
  assumes "pm_workers m \<noteq> []"
    and "\<forall>w\<in>set (pm_workers m). th_joinable (we_handle w) \<and> \<not> we_stopping w \<and> we_generation w \<le> pm_generation m"
  shows "pm_shutdown thread_policy ticks m = Inl (Runtime_Error ''std::terminate'') \<and>
    pm_reload thread_policy reloaded old_ticks m = Inl (Runtime_Error ''std::terminate'')"
proof
  obtain w where w: "w \<in> set (pm_workers m)" using assms(1) by (cases "pm_workers m") auto
  have handle: "\<exists>v\<in>set ws'. we_handle v = we_handle w \<and> we_generation v = we_generation w"
    if same: "map we_handle ws' = map we_handle ws" "map we_generation ws' = map we_generation ws" and elem: "w \<in> set ws"
    for ws ws' :: "thread_handle worker_entry list"
  proof -
    obtain i where "i < length ws" "ws ! i = w" using elem by (auto simp: in_set_conv_nth)
    then show ?thesis using same by (metis length_map nth_map nth_mem)
  qed
  { obtain ws os where s: "signal_workers thread_policy (\<lambda>w. True) (pm_workers m, pm_os m) = (ws, os)" by force
    note c = thread_signal_clears [OF s]
    have "\<forall>h\<in>set (map we_handle ws). \<not> to_running os (th_id h)" using c assms(2) by auto
    then have dead: "\<forall>w\<in>set ws. \<not> to_running os (th_id (we_handle w))" by simp
    have "await_all thread_policy ticks (ws, os) = (ws, os)" using thread_none_alive(1) [OF dead] by (cases ticks) auto
    moreover obtain v where "v \<in> set ws" "we_handle v = we_handle w" using handle c w by metis
    ultimately show "pm_shutdown thread_policy ticks m = Inl (Runtime_Error ''std::terminate'')"
      using s thread_none_alive(2) [OF dead] thread_erase [of v ws "\<lambda>w. True"] assms(2) w
      by (simp add: pm_shutdown_def stop_all_workers_def) }
  let ?g = "pm_generation m + 1"
  define nw where "nw = (case reloaded of None \<Rightarrow> pm_num_workers m | Some n \<Rightarrow> if n = 0 then pm_num_workers m else n)"
  obtain ws1 os1 where sp: "spawn_workers thread_policy nw ?g (pm_workers m, pm_os m) = (ws1, os1)" by force
  then obtain new where new: "ws1 = pm_workers m @ new" "\<forall>v\<in>set new. we_generation v = ?g"
    using spawn_from_entries [of thread_policy ?g "[0..<nw]" "pm_workers m" "pm_os m" ws1 os1] by (fastforce simp: spawn_workers_def)
  obtain ws os where s: "signal_workers thread_policy (\<lambda>w. we_generation w \<noteq> ?g) (ws1, os1) = (ws, os)" by force
  note c = thread_signal_clears [OF s]
  have pairs: "length ws = length ws1" "\<And>i. i < length ws1 \<Longrightarrow> we_handle (ws ! i) = we_handle (ws1 ! i) \<and> we_generation (ws ! i) = we_generation (ws1 ! i)"
    using c by (metis length_map, metis length_map nth_map)
  have "\<forall>v\<in>set ws. we_generation v \<noteq> ?g \<longrightarrow> \<not> to_running os (th_id (we_handle v))"
  proof (intro ballI impI)
    fix v assume v: "v \<in> set ws" "we_generation v \<noteq> ?g"
    then obtain i where i: "i < length ws1" "v = ws ! i" using pairs(1) by (auto simp: in_set_conv_nth)
    then have "ws1 ! i \<in> set (pm_workers m)" using v(2) pairs(2) [of i] new nth_mem [OF i(1)] by auto
    then show "\<not> to_running os (th_id (we_handle v))" using c i pairs(2) [of i] v(2) assms(2) nth_mem [OF i(1)] by auto
  qed
  then have "await_old thread_policy ?g old_ticks (ws, os) = (ws, os)" by (rule thread_await_old)
  moreover obtain v where "v \<in> set ws" "we_handle v = we_handle w" "we_generation v = we_generation w"
    using handle [of ws ws1] c w new(1) by auto
  moreover have "we_generation w \<noteq> ?g" "th_joinable (we_handle w)" using assms(2) w by fastforce+
  ultimately show "pm_reload thread_policy reloaded old_ticks m = Inl (Runtime_Error ''std::terminate'')"
    using sp s thread_erase [of v ws "\<lambda>w. we_generation w \<noteq> ?g"]
    by (simp add: pm_reload_def nw_def [symmetric] stop_old_workers_def)
qed

theorem thread_manager_terminates_witness:
  "pm_shutdown thread_policy [] (pm_start thread_policy 2
     \<lparr>pm_num_workers = 0, pm_generation = 0, pm_workers = [], pm_os = \<lparr>to_running = (\<lambda>i. False), to_next = 0, to_ctx_stopped = False\<rparr>\<rparr>) =
   Inl (Runtime_Error ''std::terminate'')"
  by (rule thread_manager_terminates [THEN conjunct1])
     (simp_all add: pm_start_def resolve_config_def spawn_workers_def thread_policy_def thread_spawn_def upt_rec)

end
