(* ===== verification/Cpp_Stream.thy ===== *)
theory Cpp_Stream
  imports Cpp_String
begin

text \<open>
  Formatted input of the C++ standard library, as the resolver and the peer-to-peer tracker use it:
  \<^verbatim>\<open>std::getline\<close>, \<^verbatim>\<open>operator>>\<close> for strings and \<^verbatim>\<open>uint16_t\<close> in the C locale, \<^verbatim>\<open>std::stoi\<close> and
  \<^verbatim>\<open>c_str\<close>.
\<close>

definition c_str :: "bytes \<Rightarrow> bytes" where
  "c_str s = takeWhile (\<lambda>c. c \<noteq> 0) s"

text \<open>What successive calls of \<^verbatim>\<open>std::getline\<close> with this delimiter return.\<close>

function getlines :: "byte \<Rightarrow> bytes \<Rightarrow> bytes list" where
  "getlines c [] = []"
| "getlines c (x # s) =
     takeWhile (\<lambda>y. y \<noteq> c) (x # s) # getlines c (drop 1 (dropWhile (\<lambda>y. y \<noteq> c) (x # s)))"
  by pat_completeness auto
termination
proof (relation "measure (length \<circ> snd)", goal_cases)
  case (2 c x s)
  have "length (dropWhile (\<lambda>y. y \<noteq> c) (x # s)) \<le> length (x # s)" by (rule length_dropWhile_le)
  then show ?case by (simp only: in_measure comp_apply snd_conv length_drop) simp
qed simp

definition is_space :: "byte \<Rightarrow> bool" where
  "is_space c \<longleftrightarrow> c = 0x20 \<or> 0x09 \<le> c \<and> c \<le> 0x0D"

text \<open>\<^verbatim>\<open>stream >> string\<close>: the next word and what follows it; the word is empty where there is none.\<close>

definition read_word :: "bytes \<Rightarrow> bytes \<times> bytes" where
  "read_word s = (let t = dropWhile is_space s in (takeWhile (\<lambda>c. \<not> is_space c) t, dropWhile (\<lambda>c. \<not> is_space c) t))"

function read_words :: "bytes \<Rightarrow> bytes list" where
  "read_words s = (if dropWhile is_space s = [] then [] else fst (read_word s) # read_words (snd (read_word s)))"
  by pat_completeness auto
termination
proof (relation "measure length", goal_cases)
  case (2 s)
  then obtain c t where t: "dropWhile is_space s = c # t" by (cases "dropWhile is_space s") auto
  then have "\<not> is_space c" by (metis dropWhile_eq_Cons_conv)
  then have "length (snd (read_word s)) \<le> length t"
    using t by (simp add: read_word_def length_dropWhile_le)
  moreover have "length (c # t) \<le> length s" using t by (metis length_dropWhile_le)
  ultimately show ?case by simp
qed simp

declare read_words.simps [simp del]

text \<open>
  \<^verbatim>\<open>stream >> uint16_t\<close>: the value stored and the rest of the stream, \<open>None\<close> when the stream fails.  A failure
  to find a number stores 0, a number out of range stores the maximum; a negative number is negated modulo
  $2^{16}$.
\<close>

definition is_digit :: "byte \<Rightarrow> bool" where
  "is_digit c \<longleftrightarrow> 0x30 \<le> c \<and> c \<le> 0x39"

definition read_sign :: "bytes \<Rightarrow> bool \<times> bytes" where
  "read_sign s = (if s \<noteq> [] \<and> (hd s = 0x2D \<or> hd s = 0x2B) then (hd s = 0x2D, tl s) else (False, s))"

definition read_u16 :: "bytes \<Rightarrow> u16 \<times> bytes option" where
  "read_u16 s =
     (let (neg, t) = read_sign (dropWhile is_space s); ds = takeWhile is_digit t; v = read_digits 10 ds 0
      in if ds = [] then (0, None)
         else if 0xFFFF < v then (0xFFFF, None)
         else ((if neg then - of_nat v else of_nat v), Some (dropWhile is_digit t)))"

text \<open>\<^verbatim>\<open>std::stoi\<close>, which throws \<^verbatim>\<open>std::invalid_argument\<close> or \<^verbatim>\<open>std::out_of_range\<close>.\<close>

definition stoi :: "bytes \<Rightarrow> int res" where
  "stoi s =
     (let (neg, t) = read_sign (dropWhile is_space s); ds = takeWhile is_digit t;
          v = (if neg then - int (read_digits 10 ds 0) else int (read_digits 10 ds 0))
      in if ds = [] then Inl (Runtime_Error ''invalid_argument'')
         else if v < - (2 ^ 31) \<or> 2 ^ 31 \<le> v then Inl (Runtime_Error ''out_of_range'') else Inr v)"

section \<open>Reading what was printed\<close>

lemma digit_chars:
  assumes "d < 10"
  shows "is_digit (digit_char d) \<and> \<not> is_space (digit_char d) \<and> digit_char d \<notin> {0x2D, 0x2B, 0x0A, 0x0D}"
proof -
  have "list_all (\<lambda>d. is_digit (digit_char d) \<and> \<not> is_space (digit_char d) \<and> digit_char d \<notin> {0x2D, 0x2B, 0x0A, 0x0D}) [0..<10]"
    by code_simp
  then show ?thesis using assms by (simp add: list_all_iff)
qed

lemma nat_to_string_chars:
  assumes "c \<in> set (nat_to_string n)"
  shows "is_digit c" and "\<not> is_space c" and "c \<notin> {0x2D, 0x2B, 0x0A, 0x0D}"
proof -
  from nat_to_string_digits [of n] assms obtain d where "d < 10" "c = digit_char d" by auto
  then show "is_digit c" and "\<not> is_space c" and "c \<notin> {0x2D, 0x2B, 0x0A, 0x0D}" using digit_chars [of d] by simp_all
qed

lemma hd_nat_to_string: "hd (nat_to_string n) \<in> set (nat_to_string n)"
  by (simp add: hd_in_set)

lemma read_sign_nat_to_string: "read_sign (nat_to_string n @ rest) = (False, nat_to_string n @ rest)"
  using nat_to_string_chars(3) [OF hd_nat_to_string, of n] by (simp add: read_sign_def)

lemma dropWhile_space_nat: "dropWhile is_space (nat_to_string n @ rest) = nat_to_string n @ rest"
  using nat_to_string_chars(2) [OF hd_nat_to_string, of n]
  by (metis (no_types, lifting) append_is_Nil_conv dropWhile_eq_self_iff hd_append2 nat_to_string_nonempty)

lemma digits_nat_to_string:
  assumes "rest = [] \<or> \<not> is_digit (hd rest)"
  shows "takeWhile is_digit (nat_to_string n @ rest) = nat_to_string n"
    and "dropWhile is_digit (nat_to_string n @ rest) = rest"
  using assms nat_to_string_chars(1) [of _ n] by (cases rest; auto)+

lemma stoi_nat_to_string:
  assumes "n < 2 ^ 31" and "rest = [] \<or> \<not> is_digit (hd rest)"
  shows "stoi (nat_to_string n @ rest) = Inr (int n)"
  using assms
  by (simp add: stoi_def dropWhile_space_nat read_sign_nat_to_string digits_nat_to_string read_nat_to_string)

lemma read_u16_nat_to_string:
  assumes "n < 2 ^ 16" and "rest = [] \<or> \<not> is_digit (hd rest)" and "\<forall>c\<in>set sp. is_space c"
  shows "read_u16 (sp @ nat_to_string n @ rest) = (of_nat n, Some rest)"
proof -
  have "dropWhile is_space (sp @ nat_to_string n @ rest) = nat_to_string n @ rest"
    using assms(3) dropWhile_space_nat by (simp add: dropWhile_append2)
  then show ?thesis using assms(1,2)
    by (simp add: read_u16_def read_sign_nat_to_string digits_nat_to_string read_nat_to_string)
qed

lemma read_word_word:
  assumes "w \<noteq> []" and "\<forall>c\<in>set w. \<not> is_space c" and "rest = [] \<or> is_space (hd rest)" and "\<forall>c\<in>set sp. is_space c"
  shows "read_word (sp @ w @ rest) = (w, rest)"
proof -
  have "dropWhile is_space (sp @ w @ rest) = w @ rest"
    using assms by (cases w) (auto simp: dropWhile_append2)
  then show ?thesis using assms(2,3) by (cases rest) (auto simp: read_word_def)
qed

lemma getlines_unfold:
  "s \<noteq> [] \<Longrightarrow> getlines c s = takeWhile (\<lambda>y. y \<noteq> c) s # getlines c (drop 1 (dropWhile (\<lambda>y. y \<noteq> c) s))"
  by (cases s) (simp_all only: getlines.simps not_Cons_self2 simp_thms)

lemma getlines_line:
  assumes "c \<notin> set l"
  shows "getlines c (l @ c # rest) = l # getlines c rest"
proof -
  have "takeWhile (\<lambda>y. y \<noteq> c) (l @ c # rest) = l" "dropWhile (\<lambda>y. y \<noteq> c) (l @ c # rest) = c # rest"
    using assms by (induction l) auto
  then show ?thesis by (subst getlines_unfold) simp_all
qed

lemma getlines_last:
  assumes "c \<notin> set l" and "l \<noteq> []"
  shows "getlines c l = [l]"
proof -
  have "takeWhile (\<lambda>y. y \<noteq> c) l = l" and rest: "dropWhile (\<lambda>y. y \<noteq> c) l = []"
    using assms(1) by (induction l) auto
  then show ?thesis by (subst getlines_unfold [OF assms(2)]) (simp only: rest drop_Nil getlines.simps(1))
qed

end
