(* ===== verification/Dns.thy ===== *)
theory Dns
  imports Cpp_Stream
begin

text \<open>
  The resolver of \<^verbatim>\<open>src/io/dns.cpp\<close>: the query it builds, the parser of the answer, the two configuration
  files and \<^verbatim>\<open>async_resolve\<close>.  A read outside the packet is \<open>Undefined_Behaviour\<close>.  \<^verbatim>\<open>inet_pton\<close> and
  \<^verbatim>\<open>getaddrinfo\<close> are parameters; what the sockets do is a script per nameserver.
\<close>

section \<open>Query\<close>

definition dns_header :: "u16 \<Rightarrow> u16 \<Rightarrow> u16 \<Rightarrow> u16 \<Rightarrow> bytes" where
  "dns_header qid flags qdcount ancount = be16 qid @ be16 flags @ be16 qdcount @ be16 ancount @ be16 0 @ be16 0"

definition dns_labels :: "bytes list \<Rightarrow> bytes" where
  "dns_labels ls = concat (map (\<lambda>l. of_nat (length l) # l) ls)"

definition build_dns_query :: "bytes \<Rightarrow> u16 \<Rightarrow> bytes" where
  "build_dns_query host qid =
     dns_header qid 0x0100 1 0 @ dns_labels (filter (\<lambda>l. l \<noteq> []) (getlines 0x2E host)) @ [0] @ be16 1 @ be16 1"

section \<open>Answer\<close>

record sockaddr_in =
  sin_family :: u16
  sin_port :: u16
  sin_addr :: bytes

definition sockaddr_zero :: sockaddr_in where
  "sockaddr_zero = \<lparr>sin_family = 0, sin_port = 0, sin_addr = [0, 0, 0, 0]\<rparr>"

definition read8 :: "bytes \<Rightarrow> nat \<Rightarrow> byte res" where
  "read8 d off = (if off < length d then Inr (d ! off) else Inl Undefined_Behaviour)"

definition read16 :: "bytes \<Rightarrow> nat \<Rightarrow> u16 res" where
  "read16 d off = bindE (read8 d off) (\<lambda>hi. bindE (read8 d (off + 1)) (\<lambda>lo. Inr (ld16 hi lo)))"

definition read_bytes :: "bytes \<Rightarrow> nat \<Rightarrow> nat \<Rightarrow> bytes res" where
  "read_bytes d off n = (if off + n \<le> length d then Inr (take n (drop off d)) else Inl Undefined_Behaviour)"

function skip_name :: "bytes \<Rightarrow> nat \<Rightarrow> nat res" where
  "skip_name d pos =
     (if pos < length d then
        case read8 d pos of
          Inl e \<Rightarrow> Inl e
        | Inr label_len \<Rightarrow>
            if label_len = 0 then Inr (pos + 1)
            else if label_len AND 0xC0 = 0xC0 then Inr (pos + 2)
            else skip_name d (pos + (1 + unat label_len))
      else Inr pos)"
  by pat_completeness auto
termination by (relation "measure (\<lambda>(d, pos). length d - pos)") (auto simp: read8_def split: if_splits)

declare skip_name.simps [simp del]

fun skip_questions :: "bytes \<Rightarrow> nat \<Rightarrow> nat \<Rightarrow> nat res" where
  "skip_questions d 0 pos = Inr pos"
| "skip_questions d (Suc n) pos =
     (if pos < length d then bindE (skip_name d pos) (\<lambda>pos. skip_questions d n (pos + 4)) else Inr pos)"

fun parse_answers :: "bytes \<Rightarrow> nat \<Rightarrow> nat \<Rightarrow> sockaddr_in option res" where
  "parse_answers d 0 pos = Inr None"
| "parse_answers d (Suc n) pos =
     (if \<not> pos < length d then Inr None
      else bindE (skip_name d pos) (\<lambda>pos.
        if pos + 10 > length d then Inr None
        else bindE (read16 d pos) (\<lambda>type. bindE (read16 d (pos + 8)) (\<lambda>rdlength.
          let pos = pos + 10 in
          if pos + unat rdlength > length d then Inr None
          else if type = 1 \<and> rdlength = 4 then
            bindE (read_bytes d pos 4) (\<lambda>a. Inr (Some \<lparr>sin_family = 2, sin_port = 0, sin_addr = a\<rparr>))
          else parse_answers d n (pos + unat rdlength)))))"

definition parse_dns_response_a :: "bytes \<Rightarrow> u16 \<Rightarrow> sockaddr_in option res" where
  "parse_dns_response_a d expected_id =
     (if length d < 12 then Inr None
      else bindE (read16 d 0) (\<lambda>qid.
        if qid \<noteq> expected_id then Inr None
        else bindE (read16 d 2) (\<lambda>flags.
          if flags AND 0x000F \<noteq> 0 then Inr None
          else bindE (read16 d 4) (\<lambda>qdcount. bindE (read16 d 6) (\<lambda>ancount.
            if ancount = 0 then Inr None
            else bindE (skip_questions d (unat qdcount) 12) (\<lambda>pos. parse_answers d (unat ancount) pos))))))"

section \<open>Configuration files\<close>

definition comment_line :: "bytes \<Rightarrow> bool" where
  "comment_line l \<longleftrightarrow> l = [] \<or> hd l = 0x23"

definition nameserver_of :: "bytes \<Rightarrow> bytes list" where
  "nameserver_of l =
     (if comment_line l then []
      else let (keyword, rest) = read_word l in
        if keyword = str ''nameserver'' then
          let addr = fst (read_word rest) in if addr = [] then [] else [addr]
        else [])"

definition get_nameservers :: "bytes \<Rightarrow> bytes list" where
  "get_nameservers resolv_conf =
     (let servers = concat (map nameserver_of (getlines 0x0A resolv_conf))
      in if servers = [] then [str ''8.8.8.8'', str ''8.8.4.4''] else servers)"

type_synonym inet_pton = "bytes \<Rightarrow> bytes option"

record resolve_result =
  rr_addr :: sockaddr_in
  rr_error :: int

definition resolved :: "bytes \<Rightarrow> u16 \<Rightarrow> resolve_result" where
  "resolved a port = \<lparr>rr_addr = \<lparr>sin_family = 2, sin_port = port, sin_addr = a\<rparr>, rr_error = 0\<rparr>"

text \<open>The first name of the file that equals the host on a line whose address parses.\<close>

definition hosts_line :: "inet_pton \<Rightarrow> bytes \<Rightarrow> bytes \<Rightarrow> bytes option" where
  "hosts_line pton host l =
     (if comment_line l then None
      else let (ip, rest) = read_word l in
        if host \<in> set (read_words rest) then pton (c_str ip) else None)"

fun hosts_lookup :: "inet_pton \<Rightarrow> bytes \<Rightarrow> bytes list \<Rightarrow> bytes option" where
  "hosts_lookup pton host [] = None"
| "hosts_lookup pton host (l # ls) =
     (case hosts_line pton host l of Some a \<Rightarrow> Some a | None \<Rightarrow> hosts_lookup pton host ls)"

section \<open>Resolving\<close>

text \<open>
  What happens at one nameserver: whether the socket opens, the transaction identifier drawn, what the send
  returns, the results of the receives (\<open>None\<close> for an error or an empty datagram), and what comes after them:
  two seconds have passed when the clock is looked at, an exception, or no further datagram, in which case the
  coroutine stays suspended in \<^verbatim>\<open>async_receive_from\<close>.
\<close>

datatype dns_wait = Time_Up | Thrown | No_Datagram

record dns_try =
  dt_open :: bool
  dt_id :: u16
  dt_sent :: int
  dt_received :: "bytes option list"
  dt_end :: dns_wait

record resolver_env =
  re_pton :: inet_pton
  re_hosts :: bytes
  re_resolv :: bytes
  re_try :: "nat \<Rightarrow> dns_try"
  re_getaddrinfo :: "bytes \<Rightarrow> u16 \<Rightarrow> sockaddr_in option"

datatype server_outcome = Answered resolve_result | Next_Server | Suspended_Forever

fun receive_answer :: "u16 \<Rightarrow> u16 \<Rightarrow> bytes option list \<Rightarrow> dns_wait \<Rightarrow> server_outcome res" where
  "receive_answer tx_id port [] w = Inr (if w = No_Datagram then Suspended_Forever else Next_Server)"
| "receive_answer tx_id port (None # rs) w = receive_answer tx_id port rs w"
| "receive_answer tx_id port (Some p # rs) w =
     (if take 512 p = [] then receive_answer tx_id port rs w
      else bindE (parse_dns_response_a (take 512 p) tx_id) (\<lambda>r.
        case r of Some a \<Rightarrow> Inr (Answered \<lparr>rr_addr = a\<lparr>sin_port := port\<rparr>, rr_error = 0\<rparr>)
                | None \<Rightarrow> receive_answer tx_id port rs w))"

definition ask_server :: "inet_pton \<Rightarrow> bytes \<Rightarrow> dns_try \<Rightarrow> u16 \<Rightarrow> server_outcome res" where
  "ask_server pton ns t port =
     (if \<not> dt_open t then Inr Next_Server
      else if pton (c_str ns) = None then Inr Next_Server
      else if dt_sent t \<le> 0 then Inr Next_Server
      else receive_answer (dt_id t) port (dt_received t) (dt_end t))"

definition resolve_with_getaddrinfo :: "(bytes \<Rightarrow> u16 \<Rightarrow> sockaddr_in option) \<Rightarrow> bytes \<Rightarrow> u16 \<Rightarrow> resolve_result" where
  "resolve_with_getaddrinfo gai host port =
     (case gai (c_str host) port of
        Some a \<Rightarrow> \<lparr>rr_addr = a, rr_error = 0\<rparr>
      | None \<Rightarrow> \<lparr>rr_addr = sockaddr_zero, rr_error = - 1\<rparr>)"

text \<open>The loop over the nameservers, \<open>i\<close> the number of those tried; \<open>None\<close>: the coroutine is never resumed.\<close>

fun ask_servers :: "resolver_env \<Rightarrow> bytes \<Rightarrow> u16 \<Rightarrow> nat \<Rightarrow> bytes list \<Rightarrow> resolve_result option res" where
  "ask_servers e host port i [] = Inr (Some (resolve_with_getaddrinfo (re_getaddrinfo e) host port))"
| "ask_servers e host port i (ns # nss) =
     bindE (ask_server (re_pton e) ns (re_try e i) port) (\<lambda>out.
       case out of Answered r \<Rightarrow> Inr (Some r)
                 | Next_Server \<Rightarrow> ask_servers e host port (Suc i) nss
                 | Suspended_Forever \<Rightarrow> Inr None)"

definition async_resolve :: "resolver_env \<Rightarrow> bytes \<Rightarrow> u16 \<Rightarrow> resolve_result option res" where
  "async_resolve e host port =
     (case re_pton e (c_str host) of
        Some a \<Rightarrow> Inr (Some (resolved a port))
      | None \<Rightarrow>
          case hosts_lookup (re_pton e) host (getlines 0x0A (re_hosts e)) of
            Some a \<Rightarrow> Inr (Some (resolved a port))
          | None \<Rightarrow> ask_servers e host port 0 (get_nameservers (re_resolv e)))"

section \<open>The parser stays inside the packet\<close>

lemma read8_inside [simp]: "off < length d \<Longrightarrow> read8 d off = Inr (d ! off)"
  by (simp add: read8_def)

lemma read16_inside: "off + 1 < length d \<Longrightarrow> read16 d off = Inr (ld16 (d ! off) (d ! (off + 1)))"
  by (simp add: read16_def)

lemma skip_name_ok: "\<exists>p. skip_name d pos = Inr p \<and> pos \<le> p"
proof (induction d pos rule: skip_name.induct)
  case (1 d pos)
  then show ?case by (subst skip_name.simps) (force intro: add_leD1)
qed

lemma parse_answers_step:
  assumes "pos < length d" and "skip_name d pos = Inr p" and "p + 10 \<le> length d"
  shows "parse_answers d (Suc n) pos =
    (let l = ld16 (d ! (p + 8)) (d ! (p + 8 + 1)) in
      if p + 10 + unat l > length d then Inr None
      else if ld16 (d ! p) (d ! (p + 1)) = 1 \<and> l = 4 then
        Inr (Some \<lparr>sin_family = 2, sin_port = 0, sin_addr = take 4 (drop (p + 10) d)\<rparr>)
      else parse_answers d n (p + 10 + unat l))"
proof -
  have "read16 d p = Inr (ld16 (d ! p) (d ! (p + 1)))" "read16 d (p + 8) = Inr (ld16 (d ! (p + 8)) (d ! (p + 8 + 1)))"
    using assms by (simp_all add: read16_inside)
  then show ?thesis using assms by (simp add: Let_def read_bytes_def del: add_Suc_right)
qed

definition answer_inside :: "bytes \<Rightarrow> nat \<Rightarrow> sockaddr_in option \<Rightarrow> bool" where
  "answer_inside d pos r \<longleftrightarrow> (case r of None \<Rightarrow> True
     | Some a \<Rightarrow> \<exists>off. pos + 10 \<le> off \<and> off + 4 \<le> length d \<and> a = \<lparr>sin_family = 2, sin_port = 0, sin_addr = take 4 (drop off d)\<rparr>)"

lemma answer_inside_mono:
  assumes "answer_inside d q r" and "p \<le> q"
  shows "answer_inside d p r"
proof (cases r)
  case (Some a)
  then obtain off where "q + 10 \<le> off" "off + 4 \<le> length d" "a = \<lparr>sin_family = 2, sin_port = 0, sin_addr = take 4 (drop off d)\<rparr>"
    using assms(1) by (auto simp: answer_inside_def)
  then show ?thesis using Some assms(2) unfolding answer_inside_def by (auto intro!: exI [of _ off])
qed (simp add: answer_inside_def)

lemma answer_inside_simps [simp]:
  "answer_inside d p None"
  "off + 4 \<le> length d \<Longrightarrow> p + 10 \<le> off \<Longrightarrow>
     answer_inside d p (Some \<lparr>sin_family = 2, sin_port = 0, sin_addr = take 4 (drop off d)\<rparr>)"
  by (auto simp: answer_inside_def)

lemma parse_answers_ok: "\<exists>r. parse_answers d n pos = Inr r \<and> answer_inside d pos r"
proof (induction n arbitrary: pos)
  case (Suc n)
  obtain p where p: "skip_name d pos = Inr p" "pos \<le> p" using skip_name_ok by blast
  show ?case
  proof (cases "pos < length d \<and> p + 10 \<le> length d")
    case True
    let ?l = "ld16 (d ! (p + 8)) (d ! (p + 8 + 1))"
    obtain r where r: "parse_answers d n (p + 10 + unat ?l) = Inr r" "answer_inside d (p + 10 + unat ?l) r"
      using Suc.IH by blast
    have "answer_inside d pos r" by (rule answer_inside_mono [OF r(2)]) (use p(2) in simp)
    moreover have "p + 10 + 4 \<le> length d \<Longrightarrow> answer_inside d pos
        (Some \<lparr>sin_family = 2, sin_port = 0, sin_addr = take 4 (drop (p + 10) d)\<rparr>)"
      using p(2) by simp
    ultimately show ?thesis
      unfolding parse_answers_step [OF True [THEN conjunct1] p(1) True [THEN conjunct2]] Let_def
      using r(1) by (simp add: not_less del: add_Suc_right)
  qed (use p in auto)
qed simp

lemma skip_questions_ok: "\<exists>p. skip_questions d n pos = Inr p \<and> pos \<le> p"
proof (induction n arbitrary: pos)
  case (Suc n)
  obtain p where p: "skip_name d pos = Inr p" "pos \<le> p" using skip_name_ok by blast
  obtain q where "skip_questions d n (p + 4) = Inr q" "p + 4 \<le> q" using Suc.IH by blast
  then show ?case using p by simp
qed simp

lemma parse_answers_after:
  "\<exists>r. bindE (skip_questions d m 12) (\<lambda>pos. parse_answers d n pos) = Inr r \<and> answer_inside d 12 r"
proof -
  obtain p where p: "skip_questions d m 12 = Inr p" "12 \<le> p" using skip_questions_ok by blast
  obtain r where "parse_answers d n p = Inr r" "answer_inside d p r" using parse_answers_ok by blast
  then show ?thesis using p answer_inside_mono by auto
qed

text \<open>
  C30: The parser looks at no byte outside the packet, whatever the packet holds, and returns; an address it
  returns is four bytes of the packet behind the header.
\<close>

theorem dns_parse_safe: "\<exists>r. parse_dns_response_a d tx_id = Inr r \<and> answer_inside d 12 r"
proof (cases "length d < 12")
  case False
  then show ?thesis using parse_answers_after
    by (simp add: parse_dns_response_a_def read16_inside)
qed (simp add: parse_dns_response_a_def)

section \<open>A well-formed answer is understood\<close>

text \<open>A resource record: the labels of its name, their end (the root or a pointer), type, class and lifetime, data.\<close>

record dns_rr =
  rr_labels :: "bytes list"
  rr_tail :: bytes
  rr_type :: u16
  rr_fixed :: bytes
  rr_data :: bytes

definition rr_bytes :: "dns_rr \<Rightarrow> bytes" where
  "rr_bytes r = dns_labels (rr_labels r) @ rr_tail r @ be16 (rr_type r) @ rr_fixed r @ be16 (of_nat (length (rr_data r))) @ rr_data r"

definition labels_ok :: "bytes list \<Rightarrow> bool" where
  "labels_ok ls \<longleftrightarrow> (\<forall>l\<in>set ls. l \<noteq> [] \<and> length l < 64)"

definition tail_ok :: "bytes \<Rightarrow> bool" where
  "tail_ok t \<longleftrightarrow> t = [0] \<or> length t = 2 \<and> hd t AND 0xC0 = 0xC0"

definition rr_ok :: "dns_rr \<Rightarrow> bool" where
  "rr_ok r \<longleftrightarrow> labels_ok (rr_labels r) \<and> tail_ok (rr_tail r) \<and> length (rr_fixed r) = 6 \<and> length (rr_data r) < 65536"

definition is_a_record :: "dns_rr \<Rightarrow> bool" where
  "is_a_record r \<longleftrightarrow> rr_type r = 1 \<and> length (rr_data r) = 4"

definition rr_address :: "dns_rr \<Rightarrow> sockaddr_in" where
  "rr_address r = \<lparr>sin_family = 2, sin_port = 0, sin_addr = rr_data r\<rparr>"

text \<open>The answer to a query: its question, records, and whatever sections follow.\<close>

definition dns_answer :: "bytes \<Rightarrow> u16 \<Rightarrow> u16 \<Rightarrow> bytes \<Rightarrow> dns_rr list \<Rightarrow> bytes \<Rightarrow> bytes" where
  "dns_answer host tx_id flags counts rrs extra =
     be16 tx_id @ be16 flags @ be16 1 @ be16 (of_nat (length rrs)) @ counts @
     drop 12 (build_dns_query host tx_id) @ concat (map rr_bytes rrs) @ extra"

lemma label_byte:
  assumes "l \<noteq> []" and "length l < 64"
  shows "(of_nat (length l) :: byte) \<noteq> 0" and "(of_nat (length l) :: byte) AND 0xC0 \<noteq> 0xC0"
    and "unat (of_nat (length l) :: byte) = length l"
proof -
  have "list_all (\<lambda>n. (of_nat n :: byte) \<noteq> 0 \<and> (of_nat n :: byte) AND 0xC0 \<noteq> 0xC0 \<and> unat (of_nat n :: byte) = n) [1..<64]"
    by code_simp
  moreover have "length l \<in> set [1..<64]" using assms by (cases l) auto
  ultimately show "(of_nat (length l) :: byte) \<noteq> 0" and "(of_nat (length l) :: byte) AND 0xC0 \<noteq> 0xC0"
    and "unat (of_nat (length l) :: byte) = length l"
    unfolding list_all_iff by blast+
qed

lemma drop_head:
  assumes "drop pos d = x # s"
  shows "pos < length d" and "d ! pos = x" and "drop (pos + k) d = drop k (x # s)"
proof -
  show lt: "pos < length d" using assms by (metis drop_all list.distinct(1) not_le)
  show "d ! pos = x" using assms lt by (metis hd_drop_conv_nth list.sel(1))
  show "drop (pos + k) d = drop k (x # s)" using assms by (metis add.commute drop_drop)
qed

lemma skip_name_name:
  assumes "drop pos d = dns_labels ls @ t @ rest" and "labels_ok ls" and "tail_ok t"
  shows "skip_name d pos = Inr (pos + length (dns_labels ls @ t))"
  using assms
proof (induction ls arbitrary: pos)
  case Nil
  have "x \<noteq> 0" if "x AND 0xC0 = (0xC0 :: byte)" for x using that by auto
  with Nil obtain x s where t: "t = x # s" "x = 0 \<and> s = [] \<or> x \<noteq> 0 \<and> length s = 1 \<and> x AND 0xC0 = 0xC0"
    by (cases t) (auto simp: tail_ok_def)
  then have "drop pos d = x # (s @ rest)" using Nil.prems(1) by (simp add: dns_labels_def)
  from drop_head(1,2) [OF this] t show ?case by (subst skip_name.simps) (auto simp: dns_labels_def)
next
  case (Cons l ls)
  let ?n = "of_nat (length l) :: byte"
  have l: "l \<noteq> []" "length l < 64" and ok: "labels_ok ls" using Cons.prems(2) by (auto simp: labels_ok_def)
  have d: "drop pos d = ?n # (l @ dns_labels ls @ t @ rest)" using Cons.prems(1) by (simp add: dns_labels_def)
  have "drop (pos + (1 + length l)) d = dns_labels ls @ t @ rest" unfolding drop_head(3) [OF d] by simp
  from Cons.IH [OF this ok Cons.prems(3)] drop_head(1,2) [OF d] label_byte [OF l]
  show ?case by (subst skip_name.simps) (simp add: Let_def dns_labels_def)
qed

lemma drop_nth: "drop p d = s \<Longrightarrow> k < length s \<Longrightarrow> d ! (p + k) = s ! k"
  by (metis leI less_imp_le_nat list.size(3) drop_all not_less_zero nth_drop)

lemma of_nat_eq_4:
  assumes "n < 65536"
  shows "(of_nat n :: u16) = 4 \<longleftrightarrow> n = 4" and "unat (of_nat n :: u16) = n"
proof -
  show u: "unat (of_nat n :: u16) = n" using assms by (simp add: unat_of_nat take_bit_nat_eq_self)
  show "(of_nat n :: u16) = 4 \<longleftrightarrow> n = 4"
  proof
    assume "(of_nat n :: u16) = 4"
    then have "unat (of_nat n :: u16) = 4" by simp
    then show "n = 4" using u by simp
  qed simp
qed

lemma parse_answers_record:
  assumes d: "drop pos d = rr_bytes r @ rest" and ok: "rr_ok r"
  shows "parse_answers d (Suc n) pos =
    (if is_a_record r then Inr (Some (rr_address r)) else parse_answers d n (pos + length (rr_bytes r)))"
proof -
  let ?nm = "dns_labels (rr_labels r) @ rr_tail r" and ?len = "of_nat (length (rr_data r)) :: u16"
  define p where "p = pos + length ?nm"
  have "drop pos d = dns_labels (rr_labels r) @ rr_tail r @ (be16 (rr_type r) @ rr_fixed r @ be16 ?len @ rr_data r @ rest)"
    using d by (simp add: rr_bytes_def)
  from skip_name_name [OF this] ok have skip: "skip_name d pos = Inr p" by (simp add: rr_ok_def p_def)
  have dp: "drop p d = (be16 (rr_type r) @ rr_fixed r) @ be16 ?len @ rr_data r @ rest" (is "_ = ?s")
    using arg_cong [OF d, of "drop (length ?nm)"] by (simp add: p_def rr_bytes_def add.commute)
  have six: "length (rr_fixed r) = 6" and small: "length (rr_data r) < 65536" using ok by (auto simp: rr_ok_def)
  have lens: "length d - p = 10 + length (rr_data r) + length rest"
    using arg_cong [OF dp, of length] six by simp
  then have pd: "p + 10 + length (rr_data r) \<le> length d" by simp
  have bytes: "?s ! 0 = byte_at (rr_type r) 8" "?s ! 1 = byte_at (rr_type r) 0" "?s ! 8 = byte_at ?len 8" "?s ! 9 = byte_at ?len 0"
    using six by (simp_all add: be16_def nth_append)
  have nths: "d ! p = byte_at (rr_type r) 8" "d ! (p + 1) = byte_at (rr_type r) 0"
    "d ! (p + 8) = byte_at ?len 8" "d ! (p + 8 + 1) = byte_at ?len 0"
    using drop_nth [OF dp, of 0] drop_nth [OF dp, of 1] drop_nth [OF dp, of 8] drop_nth [OF dp, of 9] six bytes
    by (simp_all add: add.commute [of 9])
  have addr: "is_a_record r \<Longrightarrow> take 4 (drop (p + 10) d) = rr_data r"
    using arg_cong [OF dp, of "drop 10"] six by (simp add: is_a_record_def add.commute)
  have pos: "pos < length d" "p + 10 \<le> length d" using pd by (auto simp: p_def)
  have "length (rr_bytes r) = length ?nm + 10 + length (rr_data r)" using six by (simp add: rr_bytes_def)
  then show ?thesis
    unfolding parse_answers_step [OF pos(1) skip pos(2)] Let_def nths ld16_be16 of_nat_eq_4 [OF small]
    using pd addr by (auto simp: is_a_record_def rr_address_def p_def add.assoc)
qed

lemma parse_answers_records:
  assumes "drop pos d = concat (map rr_bytes rrs) @ extra" and "\<forall>r\<in>set rrs. rr_ok r"
  shows "parse_answers d (length rrs) pos = Inr (map_option rr_address (find is_a_record rrs))"
  using assms
proof (induction rrs arbitrary: pos)
  case (Cons r rrs)
  have d: "drop pos d = rr_bytes r @ (concat (map rr_bytes rrs) @ extra)" using Cons.prems(1) by simp
  have "drop (pos + length (rr_bytes r)) d = concat (map rr_bytes rrs) @ extra"
    using arg_cong [OF d, of "drop (length (rr_bytes r))"] by (simp add: add.commute)
  then show ?case
    using parse_answers_record [OF d] Cons.IH [of "pos + length (rr_bytes r)"] Cons.prems(2)
    by (simp del: parse_answers.simps)
qed simp

lemma dns_question: "drop 12 (build_dns_query host tx_id) = dns_labels (filter (\<lambda>l. l \<noteq> []) (getlines 0x2E host)) @ [0] @ be16 1 @ be16 1"
  by (simp add: build_dns_query_def dns_header_def be16_def)

lemma parse_dns_head:
  assumes "12 < length d" and "read16 d 0 = Inr tx_id" and "read16 d 2 = Inr flags" and "flags AND 0x000F = 0"
    and "read16 d 4 = Inr q" and "read16 d 6 = Inr n"
  shows "parse_dns_response_a d tx_id =
    (if n = 0 then Inr None else bindE (skip_questions d (unat q) 12) (\<lambda>pos. parse_answers d (unat n) pos))"
  using assms by (simp add: parse_dns_response_a_def)

text \<open>
  C29: An answer to the query that \<^verbatim>\<open>build_dns_query\<close> sends, with any records and names written out or
  compressed, is read as its first address record, if it has one, provided the host's labels are shorter
  than 64 bytes.
\<close>

theorem dns_answer_found:
  assumes "\<forall>l\<in>set (getlines 0x2E host). length l < 64" and "flags AND 0x000F = 0" and "length counts = 4"
    and "\<forall>r\<in>set rrs. rr_ok r" and "length rrs < 65536"
  shows "parse_dns_response_a (dns_answer host tx_id flags counts rrs extra) tx_id =
    Inr (map_option rr_address (find is_a_record rrs))"
proof -
  let ?d = "dns_answer host tx_id flags counts rrs extra" and ?ls = "filter (\<lambda>l. l \<noteq> []) (getlines 0x2E host)"
  let ?h = "be16 tx_id @ be16 flags @ be16 1 @ be16 (of_nat (length rrs)) @ counts"
  have d: "?d = ?h @ dns_labels ?ls @ [0] @ (be16 1 @ be16 1 @ concat (map rr_bytes rrs) @ extra)"
    by (simp add: dns_answer_def dns_question)
  have h: "length ?h = 12" using assms(3) by simp
  have twelve: "drop 12 ?d = dns_labels ?ls @ [0] @ (be16 1 @ be16 1 @ concat (map rr_bytes rrs) @ extra)"
    unfolding d using h by (metis append_eq_conv_conj)
  have "labels_ok ?ls" using assms(1) by (auto simp: labels_ok_def)
  from skip_name_name [OF twelve this] have skip: "skip_name ?d 12 = Inr (12 + length (dns_labels ?ls @ [0]))"
    by (simp add: tail_ok_def)
  have after: "drop (12 + length (dns_labels ?ls @ [0]) + 4) ?d = concat (map rr_bytes rrs) @ extra"
    using arg_cong [OF twelve, of "drop (length (dns_labels ?ls @ [0]) + 4)"] by (simp add: add.commute add.left_commute)
  have len: "12 < length ?d" unfolding d using h by simp
  have rd: "read16 ?d 0 = Inr tx_id" "read16 ?d 2 = Inr flags" "read16 ?d 4 = Inr 1" "read16 ?d 6 = Inr (of_nat (length rrs))"
    using len by (simp_all add: read16_inside) (simp_all add: d be16_def)
  have n: "unat (of_nat (length rrs) :: u16) = length rrs" using of_nat_eq_4(2) [OF assms(5)] .
  have "skip_questions ?d (unat (1 :: u16)) 12 = Inr (12 + length (dns_labels ?ls @ [0]) + 4)" using len skip by simp
  then have all: "bindE (skip_questions ?d (unat (1 :: u16)) 12) (\<lambda>pos. parse_answers ?d (length rrs) pos) =
      Inr (map_option rr_address (find is_a_record rrs))"
    using parse_answers_records [OF after assms(4)] by simp
  have "(of_nat (length rrs) :: u16) = 0 \<longleftrightarrow> rrs = []" using n by (cases rrs) auto
  then show ?thesis unfolding parse_dns_head [OF len rd(1,2) assms(2) rd(3,4)] n all by auto
qed

theorem dns_answer_found_witness:
  "parse_dns_response_a (dns_answer (str ''a.b'') 7 0x8180 [0, 0, 0, 0]
      [\<lparr>rr_labels = [], rr_tail = [0xC0, 0x0C], rr_type = 5, rr_fixed = [0, 1, 0, 0, 0, 9], rr_data = [1, 0x63, 0]\<rparr>,
       \<lparr>rr_labels = [[0x63]], rr_tail = [0], rr_type = 1, rr_fixed = [0, 1, 0, 0, 0, 9], rr_data = [10, 0, 0, 1]\<rparr>] []) 7 =
   Inr (Some \<lparr>sin_family = 2, sin_port = 0, sin_addr = [10, 0, 0, 1]\<rparr>)"
proof -
  have "getlines 0x2E (str ''a.b'') = [str ''a'', str ''b'']" by code_simp
  then show ?thesis
    by (subst dns_answer_found) (simp_all add: rr_ok_def labels_ok_def tail_ok_def is_a_record_def rr_address_def)
qed

section \<open>Limits of the resolver\<close>

text \<open>A label of 256 bytes is written with the length byte 0, which ends the name.\<close>

lemma long_label_ends_name:
  "build_dns_query (replicate 256 0x61) tx_id =
     dns_header tx_id 0x0100 1 0 @ 0 # replicate 256 0x61 @ [0] @ be16 1 @ be16 1"
proof -
  have "getlines 0x2E (replicate 256 0x61) = [replicate 256 0x61]" by (rule getlines_last) auto
  then show ?thesis by (simp add: build_dns_query_def dns_labels_def)
qed

lemma parse_dns_total: "\<exists>r. parse_dns_response_a d tx_id = Inr r"
proof (cases "length d < 12")
  case False
  then show ?thesis using parse_answers_after by (simp add: parse_dns_response_a_def read16_inside) blast
qed (simp add: parse_dns_response_a_def)

lemma receive_answer_ok: "\<exists>r. receive_answer tx_id port rs w = Inr r"
proof (induction rs)
  case (Cons p rs)
  show ?case
  proof (cases p)
    case (Some q)
    obtain r where "parse_dns_response_a (take 512 q) tx_id = Inr r" using parse_dns_total by blast
    then show ?thesis using Cons Some by (cases r) auto
  qed (use Cons in simp)
qed simp

lemma ask_servers_ok: "\<exists>r. ask_servers e host port i nss = Inr r"
proof (induction nss arbitrary: i)
  case (Cons ns nss)
  have "\<exists>r. ask_server (re_pton e) ns (re_try e i) port = Inr r"
    using receive_answer_ok by (simp add: ask_server_def)
  then obtain out where "ask_server (re_pton e) ns (re_try e i) port = Inr out" by blast
  then show ?case using Cons [of "Suc i"] by (cases out) auto
qed simp

text \<open>Whatever the files and the network hold, resolving stays within the defined part of the language.\<close>

lemma async_resolve_safe: "\<exists>r. async_resolve e host port = Inr r"
  using ask_servers_ok by (simp add: async_resolve_def split: option.split)

text \<open>
  The two seconds are looked at only between receives: when the first nameserver does not answer, the
  coroutine is not resumed, and neither the other nameservers nor \<^verbatim>\<open>getaddrinfo\<close> are tried.
\<close>

lemma lost_reply_hangs:
  assumes "re_pton e (c_str host) = None" and "hosts_lookup (re_pton e) host (getlines 0x0A (re_hosts e)) = None"
    and "get_nameservers (re_resolv e) = ns # nss" and "re_pton e (c_str ns) \<noteq> None"
    and "dt_open (re_try e 0)" and "0 < dt_sent (re_try e 0)" and "dt_received (re_try e 0) = []" and "dt_end (re_try e 0) = No_Datagram"
  shows "async_resolve e host port = Inr None"
  using assms by (auto simp: async_resolve_def ask_server_def)

end
