(* ===== verification/P2p.thy ===== *)
theory P2p
  imports Cpp_Stream Grpc_Wire
begin

text \<open>
  The peer-to-peer library: the message frame of \<^verbatim>\<open>include/async_net/p2p/peer.hpp\<close>, the tracker of
  \<^verbatim>\<open>src/p2p/tracker_server.cpp\<close>, its client in \<^verbatim>\<open>src/p2p/tracker_client.cpp\<close> and the sending and receiving
  of \<^verbatim>\<open>src/p2p/peer_connection.cpp\<close>.  The tracker runs on one event loop: what a connection does between
  two reads is one step, and steps of several connections interleave arbitrarily.  A connection's inbox is
  all that its peer sends before it closes.
\<close>

section \<open>Messages\<close>

record peer_info =
  pi_id :: bytes
  pi_public_address :: bytes
  pi_udp_port :: u16
  pi_tcp_port :: u16
  pi_last_seen :: int

definition endpoint_str :: "peer_info \<Rightarrow> bytes" where
  "endpoint_str p = pi_public_address p @ str '':'' @ nat_to_string (unat (pi_udp_port p))"

text \<open>The enumeration has the underlying type \<^verbatim>\<open>uint8_t\<close>, and any byte is cast to it.\<close>

type_synonym msg_type = byte

record peer_message =
  pm_type :: msg_type
  pm_payload :: bytes

definition make_ping :: peer_message where "make_ping = \<lparr>pm_type = 1, pm_payload = []\<rparr>"
definition make_pong :: peer_message where "make_pong = \<lparr>pm_type = 2, pm_payload = []\<rparr>"
definition make_data :: "bytes \<Rightarrow> peer_message" where "make_data text = \<lparr>pm_type = 4, pm_payload = text\<rparr>"
definition make_bye :: peer_message where "make_bye = \<lparr>pm_type = 5, pm_payload = []\<rparr>"

definition serialize :: "peer_message \<Rightarrow> bytes" where
  "serialize m = [pm_type m] @ be32 (of_nat (length (pm_payload m))) @ pm_payload m"

text \<open>The sum \<^verbatim>\<open>5 + plen\<close> is computed in 32 bits.\<close>

definition deserialize :: "bytes \<Rightarrow> peer_message option res" where
  "deserialize d =
     (if length d < 5 then Inr None
      else let plen = ld32 (d ! 1) (d ! 2) (d ! 3) (d ! 4) in
        if length d < unat (5 + plen) then Inr None
        else if length d < 5 + unat plen then Inl Undefined_Behaviour
        else Inr (Some \<lparr>pm_type = d ! 0, pm_payload = take (unat plen) (drop 5 d)\<rparr>))"

section \<open>Tracker\<close>

record tracker_server =
  ts_peers :: "(bytes \<times> peer_info) list"
  ts_connection_peers :: "int \<rightharpoonup> bytes"
  ts_peer_timeout :: int
  ts_running :: bool

definition tracker_peers :: "tracker_server \<Rightarrow> peer_info list" where
  "tracker_peers s = map snd (ts_peers s)"

definition tracker_set_timeout :: "int \<Rightarrow> tracker_server \<Rightarrow> tracker_server" where
  "tracker_set_timeout t s = s\<lparr>ts_peer_timeout := t\<rparr>"

definition tracker_stop :: "tracker_server \<Rightarrow> tracker_server" where
  "tracker_stop s = s\<lparr>ts_running := False\<rparr>"

definition cleanup_stale_peers :: "int \<Rightarrow> tracker_server \<Rightarrow> tracker_server" where
  "cleanup_stale_peers now s =
     s\<lparr>ts_peers := filter (\<lambda>(k, p). \<not> now - pi_last_seen p > ts_peer_timeout s) (ts_peers s)\<rparr>"

text \<open>
  \<^verbatim>\<open>read_line\<close> with its limit: the line, whether the connection is closed, what is left to read.
\<close>

definition chomp :: "bytes \<Rightarrow> bytes" where
  "chomp l = (if l \<noteq> [] \<and> last l = 0x0D then butlast l else l)"

fun read_line_upto :: "nat \<Rightarrow> bytes \<Rightarrow> bytes \<Rightarrow> bytes \<times> bool \<times> bytes" where
  "read_line_upto lim acc [] = (if length acc < lim then ([], True, []) else ([], False, []))"
| "read_line_upto lim acc (c # s) =
     (if length acc < lim then
        if c = 0x0A then (chomp acc, False, s) else read_line_upto lim (acc @ [c]) s
      else ([], False, c # s))"

definition tracker_read_line :: "bytes \<Rightarrow> bytes \<times> bool \<times> bytes" where
  "tracker_read_line inbox = read_line_upto 1024 [] inbox"

definition write_line :: "bytes \<Rightarrow> bytes" where
  "write_line l = l @ [0x0A]"

text \<open>A connection: its descriptor, the address the kernel reports, the local \<^verbatim>\<open>peer_id\<close> and the two streams.\<close>

record tracker_conn =
  cn_fd :: int
  cn_ip :: bytes
  cn_port :: u16
  cn_peer_id :: bytes
  cn_inbox :: bytes
  cn_outbox :: bytes

definition reply :: "bytes \<Rightarrow> tracker_conn \<Rightarrow> tracker_conn" where
  "reply l c = c\<lparr>cn_outbox := cn_outbox c @ write_line l\<rparr>"

definition cmd_register :: "int \<Rightarrow> bytes \<Rightarrow> tracker_conn \<Rightarrow> tracker_server \<Rightarrow> tracker_conn \<times> tracker_server" where
  "cmd_register now args c s =
     (let (pid, r1) = read_word args; (udp_port, r2) = read_u16 r1;
          tcp_port = (case r2 of None \<Rightarrow> 0 | Some r \<Rightarrow> (case read_u16 r of (p, Some _) \<Rightarrow> p | (p, None) \<Rightarrow> 0))
      in if pid = [] \<or> udp_port = 0 then (reply (str ''ERROR invalid REGISTER format'') c, s)
         else (reply (str ''OK '' @ cn_ip c @ str '':'' @ nat_to_string (unat (cn_port c))) (c\<lparr>cn_peer_id := pid\<rparr>),
               s\<lparr>ts_peers := md_put pid \<lparr>pi_id = pid, pi_public_address = cn_ip c, pi_udp_port = udp_port,
                   pi_tcp_port = tcp_port, pi_last_seen = now\<rparr> (ts_peers s),
                 ts_connection_peers := (ts_connection_peers s)(cn_fd c \<mapsto> pid)\<rparr>))"

definition peer_line :: "peer_info \<Rightarrow> bytes" where
  "peer_line p = pi_id p @ str '' '' @ pi_public_address p @ str '' '' @ nat_to_string (unat (pi_udp_port p))"

definition list_response :: "bytes \<Rightarrow> peer_info list \<Rightarrow> bytes" where
  "list_response pid ps =
     str ''PEERS '' @ nat_to_string (length ps) @ [0x0A] @
     concat (map (\<lambda>p. peer_line p @ [0x0A]) (filter (\<lambda>p. pi_id p \<noteq> pid) ps))"

definition cmd_list :: "int \<Rightarrow> tracker_conn \<Rightarrow> tracker_server \<Rightarrow> tracker_conn \<times> tracker_server" where
  "cmd_list now c s =
     (let peers = map (\<lambda>(k, p). (k, p\<lparr>pi_last_seen := now\<rparr>)) (ts_peers s)
      in (reply (list_response (cn_peer_id c) (map snd peers)) c, s\<lparr>ts_peers := peers\<rparr>))"

definition cmd_ping :: "int \<Rightarrow> tracker_conn \<Rightarrow> tracker_server \<Rightarrow> tracker_conn \<times> tracker_server" where
  "cmd_ping now c s =
     (reply (str ''PONG'') c,
      if cn_peer_id c = [] then s
      else s\<lparr>ts_peers := map (\<lambda>(k, p). (k, if k = cn_peer_id c then p\<lparr>pi_last_seen := now\<rparr> else p)) (ts_peers s)\<rparr>)"

text \<open>What follows the loop of \<^verbatim>\<open>handle_client\<close>.\<close>

definition disconnect_peer :: "tracker_conn \<Rightarrow> tracker_server \<Rightarrow> tracker_server" where
  "disconnect_peer c s =
     (if cn_peer_id c = [] then s
      else s\<lparr>ts_peers := filter (\<lambda>(k, p). k \<noteq> cn_peer_id c) (ts_peers s),
             ts_connection_peers := (ts_connection_peers s)(cn_fd c := None)\<rparr>)"

text \<open>One pass of the loop of \<^verbatim>\<open>handle_client\<close>; the flag says whether the loop goes on.\<close>

definition handle_command :: "int \<Rightarrow> bytes \<Rightarrow> bytes \<Rightarrow> tracker_conn \<Rightarrow> tracker_server \<Rightarrow> (tracker_conn \<times> tracker_server) \<times> bool" where
  "handle_command now cmd args c s =
     (if cmd = str ''REGISTER'' then (cmd_register now args c s, True)
      else if cmd = str ''LIST'' then (cmd_list now c s, True)
      else if cmd = str ''PING'' then (cmd_ping now c s, True)
      else if cmd = str ''QUIT'' then ((c, s), False)
      else ((reply (str ''ERROR unknown command'') c, s), True))"

definition client_turn :: "int \<Rightarrow> tracker_conn \<Rightarrow> tracker_server \<Rightarrow> (tracker_conn \<times> tracker_server) \<times> bool" where
  "client_turn now c s =
     (if \<not> ts_running s then ((c, s), False)
      else let (line, closed, rest) = tracker_read_line (cn_inbox c); c = c\<lparr>cn_inbox := rest\<rparr> in
        if line = [] then ((c, s), False)
        else let (cmd, args) = read_word line in handle_command now cmd args c s)"

section \<open>Tracker client\<close>

record tracker_client =
  tc_my_id :: bytes
  tc_public_endpoint :: bytes
  tc_connected :: bool

definition client_read_line :: "tracker_client \<Rightarrow> bytes \<Rightarrow> bytes \<times> tracker_client \<times> bytes" where
  "client_read_line c inbox =
     (let (line, closed, rest) = read_line_upto 4096 [] inbox
      in (line, if closed then c\<lparr>tc_connected := False\<rparr> else c, rest))"

text \<open>
  \<open>connected\<close> and \<open>wrote\<close> are what the socket's \<^verbatim>\<open>async_connect\<close> and the client's \<^verbatim>\<open>write_line\<close> return.  Each
  operation returns what it sends (when it gets so far), its result, the client and the unread input.
\<close>

definition register_line :: "bytes \<Rightarrow> u16 \<Rightarrow> bytes" where
  "register_line peer_id local_udp_port = str ''REGISTER '' @ peer_id @ str '' '' @ nat_to_string (unat local_udp_port)"

definition tracker_connect :: "bool \<Rightarrow> bool \<Rightarrow> bytes \<Rightarrow> tracker_client \<Rightarrow> bytes \<Rightarrow> bool \<times> tracker_client \<times> bytes" where
  "tracker_connect connected wrote peer_id c inbox =
     (if \<not> connected then (False, c, inbox)
      else let c = c\<lparr>tc_my_id := peer_id\<rparr> in
        if \<not> wrote then (False, c, inbox)
        else let (response, c, rest) = client_read_line c inbox in
          if response = [] \<or> substr response 0 3 \<noteq> str ''OK '' then (False, c, rest)
          else (True, c\<lparr>tc_public_endpoint := drop 3 response, tc_connected := True\<rparr>, rest))"

text \<open>The entry of one line; a peer without an identifier is not added.\<close>

definition parse_peer :: "bytes \<Rightarrow> peer_info list" where
  "parse_peer line =
     (let (pid, r1) = read_word line; (addr, r2) = read_word r1; (udp_port, r3) = read_u16 r2
      in if pid = [] then []
         else [\<lparr>pi_id = pid, pi_public_address = addr, pi_udp_port = udp_port, pi_tcp_port = 0, pi_last_seen = 0\<rparr>])"

fun read_peers :: "nat \<Rightarrow> tracker_client \<Rightarrow> bytes \<Rightarrow> peer_info list \<times> tracker_client \<times> bytes" where
  "read_peers 0 c inbox = ([], c, inbox)"
| "read_peers (Suc n) c inbox =
     (let (line, c, rest) = client_read_line c inbox in
      if line = [] then ([], c, rest)
      else let (ps, c, rest) = read_peers n c rest in (parse_peer line @ ps, c, rest))"

definition list_peers :: "bool \<Rightarrow> tracker_client \<Rightarrow> bytes \<Rightarrow> peer_info list res \<times> tracker_client \<times> bytes" where
  "list_peers wrote c inbox =
     (if \<not> tc_connected c then (Inr [], c, inbox)
      else if \<not> wrote then (Inr [], c\<lparr>tc_connected := False\<rparr>, inbox)
      else let (header, c, rest) = client_read_line c inbox in
        if header = [] \<or> substr header 0 6 \<noteq> str ''PEERS '' then (Inr [], c, rest)
        else case stoi (drop 6 header) of
               Inl e \<Rightarrow> (Inl e, c, rest)
             | Inr count \<Rightarrow> let (ps, c, rest) = read_peers (nat count) c rest in (Inr ps, c, rest))"

definition tracker_ping :: "bool \<Rightarrow> tracker_client \<Rightarrow> bytes \<Rightarrow> bool \<times> tracker_client \<times> bytes" where
  "tracker_ping wrote c inbox =
     (if \<not> tc_connected c then (False, c, inbox)
      else if \<not> wrote then (False, c\<lparr>tc_connected := False\<rparr>, inbox)
      else let (response, c, rest) = client_read_line c inbox in (response = str ''PONG'', c, rest))"

definition tracker_disconnect :: "tracker_client \<Rightarrow> tracker_client" where
  "tracker_disconnect c = c\<lparr>tc_connected := False\<rparr>"

section \<open>Runs of the tracker\<close>

text \<open>\<^verbatim>\<open>handle_client\<close> on its own, with the clock as read in each pass.\<close>

lemma read_line_shrinks:
  assumes "read_line_upto lim acc inbox = (l, b, rest)" and "l \<noteq> []"
  shows "length rest < length inbox \<and> length l < lim"
  using assms
proof (induction inbox arbitrary: acc)
  case (Cons c s)
  have "length (chomp acc) \<le> length acc" by (auto simp: chomp_def)
  then show ?case using Cons by (auto split: if_splits) (fastforce simp: less_SucI)
qed (simp split: if_splits)

lemma client_turn_shrinks:
  assumes "client_turn now c s = ((c', s'), True)"
  shows "length (cn_inbox c') < length (cn_inbox c)"
proof -
  obtain line closed rest where rl: "tracker_read_line (cn_inbox c) = (line, closed, rest)" by (metis prod_cases3)
  obtain cmd args where rw: "read_word line = (cmd, args)" by force
  have "line \<noteq> []" "cn_inbox c' = rest"
    using assms rl rw
    by (auto simp: client_turn_def handle_command_def cmd_register_def cmd_list_def cmd_ping_def reply_def Let_def split: if_splits prod.splits)
  then show ?thesis using read_line_shrinks rl unfolding tracker_read_line_def by metis
qed

function handle_client :: "(nat \<Rightarrow> int) \<Rightarrow> tracker_conn \<Rightarrow> tracker_server \<Rightarrow> tracker_conn \<times> tracker_server" where
  "handle_client clock c s =
     (case client_turn (clock 0) c s of
        ((c', s'), True) \<Rightarrow> handle_client (\<lambda>i. clock (Suc i)) c' s'
      | ((c', s'), False) \<Rightarrow> (c', disconnect_peer c' s'))"
  by pat_completeness auto
termination by (relation "measure (\<lambda>(clock, c, s). length (cn_inbox c))") (auto dest: client_turn_shrinks [OF sym])

declare handle_client.simps [simp del]

text \<open>Several connections, accepted with a new descriptor, take turns with each other and with the clean-up.\<close>

record tracker_world =
  tw_server :: tracker_server
  tw_conns :: "int \<rightharpoonup> tracker_conn"

inductive tracker_step :: "tracker_world \<Rightarrow> tracker_world \<Rightarrow> bool" where
  step_accept: "tw_conns w fd = None \<Longrightarrow> cn_fd c = fd \<Longrightarrow> cn_peer_id c = [] \<Longrightarrow> tracker_step w (w\<lparr>tw_conns := (tw_conns w)(fd \<mapsto> c)\<rparr>)"
| step_turn: "tw_conns w fd = Some c \<Longrightarrow> client_turn now c (tw_server w) = ((c', s'), True) \<Longrightarrow>
    tracker_step w (w\<lparr>tw_server := s', tw_conns := (tw_conns w)(fd \<mapsto> c')\<rparr>)"
| step_end: "tw_conns w fd = Some c \<Longrightarrow> client_turn now c (tw_server w) = ((c', s'), False) \<Longrightarrow>
    tracker_step w (w\<lparr>tw_server := disconnect_peer c' s', tw_conns := (tw_conns w)(fd := None)\<rparr>)"
| step_cleanup: "tracker_step w (w\<lparr>tw_server := cleanup_stale_peers now (tw_server w)\<rparr>)"
| step_stop: "tracker_step w (w\<lparr>tw_server := tracker_stop (tw_server w)\<rparr>)"
| step_timeout: "tracker_step w (w\<lparr>tw_server := tracker_set_timeout t (tw_server w)\<rparr>)"

definition is_word :: "bytes \<Rightarrow> bool" where
  "is_word w \<longleftrightarrow> w \<noteq> [] \<and> (\<forall>c\<in>set w. \<not> is_space c)"

text \<open>
  The registry is sorted by identifier, each entry is filed under its own identifier, a word that came in a
  line of the protocol; \<^verbatim>\<open>connection_peers_\<close> holds the identifier each connection goes by.
\<close>

definition peer_ok :: "bytes \<Rightarrow> peer_info \<Rightarrow> bool" where
  "peer_ok k p \<longleftrightarrow> pi_id p = k \<and> is_word k \<and> length k < 1024 \<and> pi_udp_port p \<noteq> 0"

definition registry_ok :: "tracker_server \<Rightarrow> bool" where
  "registry_ok s \<longleftrightarrow> md_sorted (ts_peers s) \<and> (\<forall>(k, p)\<in>set (ts_peers s). peer_ok k p)"

definition tracker_inv :: "tracker_world \<Rightarrow> bool" where
  "tracker_inv w \<longleftrightarrow> registry_ok (tw_server w) \<and>
     (\<forall>fd c. tw_conns w fd = Some c \<longrightarrow> cn_fd c = fd \<and>
        ts_connection_peers (tw_server w) fd = (if cn_peer_id c = [] then None else Some (cn_peer_id c))) \<and>
     (\<forall>fd. tw_conns w fd = None \<longrightarrow> ts_connection_peers (tw_server w) fd = None)"

lemma read_word_is_word:
  assumes "read_word s = (w, r)" and "w \<noteq> []"
  shows "is_word w \<and> length w \<le> length s \<and> length r \<le> length s"
proof -
  have "length (takeWhile Q (dropWhile P s)) \<le> length s" "length (dropWhile Q (dropWhile P s)) \<le> length s" for P Q :: "byte \<Rightarrow> bool"
    using length_takeWhile_le [of Q "dropWhile P s"] length_dropWhile_le [of Q "dropWhile P s"] length_dropWhile_le [of P s] by linarith+
  then show ?thesis using assms by (auto simp: read_word_def is_word_def Let_def dest: set_takeWhileD)
qed

lemma set_md_put: "set (md_put k v m) \<subseteq> insert (k, v) (set m)"
  by (induction k v m rule: md_put.induct) auto

lemma registry_ok_map:
  assumes "registry_ok s" and "\<And>k p. pi_id (f k p) = pi_id p \<and> pi_udp_port (f k p) = pi_udp_port p"
  shows "registry_ok (s\<lparr>ts_peers := map (\<lambda>(k, p). (k, f k p)) (ts_peers s)\<rparr>)"
  using assms by (auto simp: registry_ok_def md_sorted_def sorted_wrt_map peer_ok_def case_prod_unfold)

lemma registry_ok_filter: "registry_ok s \<Longrightarrow> registry_ok (s\<lparr>ts_peers := filter P (ts_peers s)\<rparr>)"
  by (auto simp: registry_ok_def md_sorted_def sorted_wrt_filter)

lemma registry_ok_put:
  assumes "registry_ok s" and "peer_ok k p"
  shows "registry_ok (s\<lparr>ts_peers := md_put k p (ts_peers s)\<rparr>)"
  using assms set_md_put [of k p "ts_peers s"] by (auto simp: registry_ok_def md_put_sorted)

lemma registry_ok_cong: "ts_peers s = ts_peers t \<Longrightarrow> registry_ok s = registry_ok t"
  by (simp add: registry_ok_def)

lemma cmd_register_cases:
  assumes "cmd_register now args c s = (c', s')"
  obtains (refused) "s' = s" "cn_peer_id c' = cn_peer_id c" "cn_fd c' = cn_fd c"
  | (registered) pid p where "peer_ok pid p \<or> 1024 \<le> length args" "cn_peer_id c' = pid" "cn_fd c' = cn_fd c" "pid \<noteq> []"
      "s' = s\<lparr>ts_peers := md_put pid p (ts_peers s), ts_connection_peers := (ts_connection_peers s)(cn_fd c \<mapsto> pid)\<rparr>"
proof -
  obtain pid r1 where w: "read_word args = (pid, r1)" by force
  obtain udp r2 where u: "read_u16 r1 = (udp, r2)" by force
  show ?thesis
  proof (cases "pid = [] \<or> udp = 0")
    case True
    then show ?thesis using assms w u refused by (auto simp: cmd_register_def reply_def)
  next
    case False
    have "is_word pid \<and> length pid \<le> length args" using read_word_is_word [OF w] False by simp
    then show ?thesis
      using assms w u False by (intro registered) (auto simp: cmd_register_def reply_def peer_ok_def Let_def)
  qed
qed

lemma handle_command_keeps:
  assumes run: "handle_command now cmd args c s = ((c', s'), go)" and ok: "registry_ok s"
    and short: "cmd = str ''REGISTER'' \<Longrightarrow> length args < 1024"
  shows "registry_ok s' \<and> cn_fd c' = cn_fd c \<and>
    (ts_connection_peers s' = ts_connection_peers s \<and> cn_peer_id c' = cn_peer_id c \<or>
     go \<and> cn_peer_id c' \<noteq> [] \<and> ts_connection_peers s' = (ts_connection_peers s)(cn_fd c \<mapsto> cn_peer_id c'))"
proof (cases "cmd = str ''REGISTER''")
  case True
  then have reg: "cmd_register now args c s = (c', s')" and go using run by (simp_all add: handle_command_def)
  from reg show ?thesis
  proof (cases rule: cmd_register_cases)
    case refused
    then show ?thesis using ok by simp
  next
    case (registered pid p)
    have "registry_ok (s\<lparr>ts_peers := md_put pid p (ts_peers s)\<rparr>)"
      using registered(1) short [OF True] ok registry_ok_put by auto
    then show ?thesis using registered \<open>go\<close> by (simp add: registry_ok_def)
  qed
next
  case False
  have "registry_ok (snd (cmd_list now c s))" "registry_ok (snd (cmd_ping now c s))"
    using ok by (auto simp: cmd_list_def cmd_ping_def Let_def intro!: registry_ok_map)
  moreover have "cn_fd (fst (cmd_list now c s)) = cn_fd c" "cn_fd (fst (cmd_ping now c s)) = cn_fd c"
    "cn_peer_id (fst (cmd_list now c s)) = cn_peer_id c" "cn_peer_id (fst (cmd_ping now c s)) = cn_peer_id c"
    "ts_connection_peers (snd (cmd_list now c s)) = ts_connection_peers s"
    "ts_connection_peers (snd (cmd_ping now c s)) = ts_connection_peers s"
    by (simp_all add: cmd_list_def cmd_ping_def reply_def Let_def)
  ultimately show ?thesis using run False ok by (auto simp: handle_command_def reply_def split: if_splits)
qed

lemma client_turn_keeps:
  assumes turn: "client_turn now c s = ((c', s'), go)" and ok: "registry_ok s"
  shows "registry_ok s' \<and> cn_fd c' = cn_fd c \<and>
    (ts_connection_peers s' = ts_connection_peers s \<and> cn_peer_id c' = cn_peer_id c \<or>
     go \<and> cn_peer_id c' \<noteq> [] \<and> ts_connection_peers s' = (ts_connection_peers s)(cn_fd c \<mapsto> cn_peer_id c'))"
proof -
  obtain line closed rest where rl: "tracker_read_line (cn_inbox c) = (line, closed, rest)" by (metis prod_cases3)
  obtain cmd args where rw: "read_word line = (cmd, args)" by force
  show ?thesis
  proof (cases "ts_running s \<and> line \<noteq> []")
    case True
    have "length line < 1024" using read_line_shrinks [of 1024 "[]"] rl True unfolding tracker_read_line_def by blast
    then have "cmd = str ''REGISTER'' \<Longrightarrow> length args < 1024" using read_word_is_word [OF rw] by (cases cmd) auto
    moreover have "handle_command now cmd args (c\<lparr>cn_inbox := rest\<rparr>) s = ((c', s'), go)"
      using turn True rl rw by (simp add: client_turn_def)
    ultimately show ?thesis using handle_command_keeps [OF _ ok] by fastforce
  next
    case False
    then show ?thesis using turn ok rl by (auto simp: client_turn_def Let_def split: if_splits)
  qed
qed

lemma disconnect_keeps: "registry_ok s \<Longrightarrow> registry_ok (disconnect_peer c s)"
  using registry_ok_filter by (auto simp: disconnect_peer_def registry_ok_def md_sorted_def sorted_wrt_filter)

lemma tracker_inv_step:
  assumes "tracker_step w w'" and inv: "tracker_inv w"
  shows "tracker_inv w'"
  using assms(1)
proof (cases rule: tracker_step.cases)
  case (step_turn fd c now c' s')
  have "registry_ok (tw_server w)" "cn_fd c = fd" using inv step_turn(2) by (auto simp: tracker_inv_def)
  with client_turn_keeps [OF step_turn(3)] have "registry_ok s'" "cn_fd c' = fd"
    "ts_connection_peers s' = ts_connection_peers (tw_server w) \<and> cn_peer_id c' = cn_peer_id c \<or>
     cn_peer_id c' \<noteq> [] \<and> ts_connection_peers s' = (ts_connection_peers (tw_server w))(fd \<mapsto> cn_peer_id c')" by auto
  then show ?thesis using inv step_turn(1,2) by (auto simp: tracker_inv_def)
next
  case (step_end fd c now c' s')
  have "registry_ok (tw_server w)" "cn_fd c = fd" using inv step_end(2) by (auto simp: tracker_inv_def)
  with client_turn_keeps [OF step_end(3)] have "registry_ok (disconnect_peer c' s')" "cn_fd c' = fd"
    "ts_connection_peers s' = ts_connection_peers (tw_server w)" "cn_peer_id c' = cn_peer_id c"
    using disconnect_keeps by auto
  then show ?thesis using inv step_end(1,2) by (auto simp: tracker_inv_def disconnect_peer_def)
next
  case (step_cleanup now)
  then show ?thesis using inv registry_ok_filter by (auto simp: tracker_inv_def cleanup_stale_peers_def)
qed (use inv in \<open>auto simp: tracker_inv_def tracker_stop_def tracker_set_timeout_def registry_ok_def\<close>)

definition tracker_start :: tracker_world where
  "tracker_start = \<lparr>tw_server = \<lparr>ts_peers = [], ts_connection_peers = Map.empty, ts_peer_timeout = 60, ts_running = True\<rparr>, tw_conns = Map.empty\<rparr>"

lemma tracker_inv_start: "tracker_inv tracker_start"
  by (simp add: tracker_start_def tracker_inv_def registry_ok_def md_sorted_def)

lemma tracker_inv_steps: "tracker_step\<^sup>*\<^sup>* tracker_start w \<Longrightarrow> tracker_inv w"
  by (induction rule: rtranclp_induct) (auto intro: tracker_inv_start tracker_inv_step)

section \<open>Lines and words of the protocol\<close>

lemma read_line_whole:
  assumes "0x0A \<notin> set l" and "length acc + length l < lim"
  shows "read_line_upto lim acc (l @ 0x0A # r) = (chomp (acc @ l), False, r)"
  using assms by (induction l arbitrary: acc) auto

lemma decimal_length:
  assumes "n < 10 ^ k" and "0 < k"
  shows "length (nat_to_string n) \<le> k"
  using assms
proof (induction n arbitrary: k rule: nat_to_string.induct)
  case (1 n)
  show ?case
  proof (cases "n < 10")
    case True
    then show ?thesis using 1(3) by (simp add: nat_to_string.simps [of n])
  next
    case False
    obtain j where k: "k = Suc j" using 1(3) by (cases k) auto
    then have j: "0 < j" using False 1(2) by (cases j) auto
    have "n div 10 < 10 ^ j" using 1(2) k by (simp add: less_mult_imp_div_less mult.commute)
    then have "length (nat_to_string (n div 10)) \<le> j" using 1(1) [OF False] j by blast
    then show ?thesis using False k by (simp add: nat_to_string.simps [of n])
  qed
qed

lemma port_bound: "unat (p :: u16) < 65536"
proof -
  have "unat p < 2 ^ LENGTH(16)" by (rule unsigned_less)
  then show ?thesis by simp
qed

lemma port_string_length: "length (nat_to_string (unat (p :: u16))) \<le> 5"
  using decimal_length [of "unat p" 5] port_bound [of p] by simp

lemma space_codes [simp]: "is_space 0x20" "is_space 0x0A" "is_space 0x0D"
  by (simp_all add: is_space_def)

lemma is_word_no_newline: "is_word w \<Longrightarrow> 0x0A \<notin> set w"
  using space_codes unfolding is_word_def by blast

lemma nat_string_no_newline: "0x0A \<notin> set (nat_to_string n)" "last (nat_to_string n) \<noteq> 0x0D"
  using nat_to_string_chars(3) [of _ n] last_in_set [OF nat_to_string_nonempty, of n] by auto

lemma chomp_nat_string: "chomp (l @ nat_to_string n) = l @ nat_to_string n"
  using nat_string_no_newline by (simp add: chomp_def)

lemma peer_line_whole:
  assumes "is_word (pi_id p)" and "is_word (pi_public_address p)" and "length (pi_id p) < 1024" and "length (pi_public_address p) < 1024"
  shows "0x0A \<notin> set (peer_line p)" and "length (peer_line p) < 4096" and "chomp (peer_line p) = peer_line p" and "peer_line p \<noteq> []"
proof -
  show "0x0A \<notin> set (peer_line p)"
    using is_word_no_newline [OF assms(1)] is_word_no_newline [OF assms(2)] nat_string_no_newline(1) by (simp add: peer_line_def)
  show "length (peer_line p) < 4096" using assms(3,4) port_string_length [of "pi_udp_port p"] by (simp add: peer_line_def)
  show "chomp (peer_line p) = peer_line p"
    using chomp_nat_string [of "pi_id p @ str '' '' @ pi_public_address p @ str '' ''"] by (simp add: peer_line_def)
  show "peer_line p \<noteq> []" by (simp add: peer_line_def)
qed

text \<open>What of a peer a client is told.\<close>

definition public_view :: "peer_info \<Rightarrow> peer_info" where
  "public_view p = p\<lparr>pi_tcp_port := 0, pi_last_seen := 0\<rparr>"

lemma parse_peer_line:
  assumes "is_word (pi_id p)" and "is_word (pi_public_address p)"
  shows "parse_peer (peer_line p) = [public_view p]"
proof -
  let ?n = "nat_to_string (unat (pi_udp_port p))"
  have w1: "read_word (pi_id p @ 0x20 # pi_public_address p @ 0x20 # ?n) = (pi_id p, 0x20 # pi_public_address p @ 0x20 # ?n)"
    using read_word_word [of "pi_id p" _ "[]"] assms(1) by (simp add: is_word_def)
  have w2: "read_word (0x20 # pi_public_address p @ 0x20 # ?n) = (pi_public_address p, 0x20 # ?n)"
    using read_word_word [of "pi_public_address p" _ "[0x20]"] assms(2) by (simp add: is_word_def)
  have "unat (pi_udp_port p) < 2 ^ 16" using port_bound [of "pi_udp_port p"] by simp
  then have u: "read_u16 (0x20 # ?n) = (pi_udp_port p, Some [])"
    using read_u16_nat_to_string [of "unat (pi_udp_port p)" "[]" "[0x20]"] by simp
  have "pi_id p \<noteq> []" using assms(1) by (simp add: is_word_def)
  then show ?thesis using w1 w2 u by (simp add: parse_peer_def peer_line_def public_view_def)
qed

lemma client_reads_line:
  assumes "0x0A \<notin> set l" and "length l < 4096" and "chomp l = l"
  shows "client_read_line c (l @ 0x0A # r) = (l, c, r)"
  using read_line_whole [of l "[]" 4096 r] assms by (simp add: client_read_line_def)

section \<open>The list of peers\<close>

definition listable :: "peer_info \<Rightarrow> bool" where
  "listable p \<longleftrightarrow> is_word (pi_id p) \<and> is_word (pi_public_address p) \<and> length (pi_id p) < 1024 \<and> length (pi_public_address p) < 1024"

lemma read_peers_list:
  assumes "\<forall>p\<in>set es. listable p"
  shows "read_peers (length es) c (concat (map (\<lambda>p. peer_line p @ [0x0A]) es) @ 0x0A # rest) = (map public_view es, c, 0x0A # rest)"
    and "read_peers (Suc (length es)) c (concat (map (\<lambda>p. peer_line p @ [0x0A]) es) @ 0x0A # rest) = (map public_view es, c, rest)"
  using assms
proof (induction es)
  case Nil
  case 1 show ?case by simp
  case 2 show ?case by (simp add: client_read_line_def chomp_def)
next
  case (Cons p es)
  { case 1
    then have p: "listable p" and ih: "read_peers (length es) c (concat (map (\<lambda>p. peer_line p @ [0x0A]) es) @ 0x0A # rest) = (map public_view es, c, 0x0A # rest)"
      using Cons.IH(1) by auto
    show ?case
      using client_reads_line [OF peer_line_whole(1,2,3)] peer_line_whole(4) parse_peer_line p ih
      by (simp add: listable_def) }
  { case 2
    then have p: "listable p" and ih: "read_peers (Suc (length es)) c (concat (map (\<lambda>p. peer_line p @ [0x0A]) es) @ 0x0A # rest) = (map public_view es, c, rest)"
      using Cons.IH(2) by auto
    show ?case
      using client_reads_line [OF peer_line_whole(1,2,3)] peer_line_whole(4) parse_peer_line p ih
      by (simp add: listable_def del: read_peers.simps(2)) (subst read_peers.simps(2), simp) }
qed

lemma list_header:
  assumes "n < 2 ^ 31"
  shows "client_read_line c ((str ''PEERS '' @ nat_to_string n) @ 0x0A # r) = (str ''PEERS '' @ nat_to_string n, c, r)"
proof -
  have "n < 10 ^ 10" using assms by simp
  then have "length (nat_to_string n) \<le> 10" by (rule decimal_length) simp
  then show ?thesis using nat_string_no_newline(1) [of n] chomp_nat_string [of "str ''PEERS ''" n]
    by (intro client_reads_line) auto
qed

lemma list_peers_reads:
  assumes "\<forall>p\<in>set ps. listable p" and "distinct (map pi_id ps)" and "length ps < 2 ^ 31" and "tc_connected c"
  shows "list_peers True c (write_line (list_response pid ps) @ rest) =
    (Inr (map public_view (filter (\<lambda>p. pi_id p \<noteq> pid) ps)), c, if pid \<in> pi_id ` set ps then rest else 0x0A # rest)"
proof -
  let ?es = "filter (\<lambda>p. pi_id p \<noteq> pid) ps" and ?lines = "concat (map (\<lambda>p. peer_line p @ [0x0A]) (filter (\<lambda>p. pi_id p \<noteq> pid) ps)) @ 0x0A # rest"
  have count: "length ps = (if pid \<in> pi_id ` set ps then Suc (length ?es) else length ?es)"
    using assms(2) by (induction ps) auto
  have es: "\<forall>p\<in>set ?es. listable p" using assms(1) by simp
  have peers: "read_peers (length ps) c ?lines = (map public_view ?es, c, if pid \<in> pi_id ` set ps then rest else 0x0A # rest)"
    unfolding count using read_peers_list [OF es, of c rest] by (simp del: read_peers.simps)
  have reply: "write_line (list_response pid ps) @ rest = (str ''PEERS '' @ nat_to_string (length ps)) @ 0x0A # ?lines"
    by (simp add: write_line_def list_response_def)
  have "stoi (nat_to_string (length ps)) = Inr (int (length ps))" using stoi_nat_to_string [OF assms(3), of "[]"] by simp
  then show ?thesis
    unfolding list_peers_def reply list_header [OF assms(3)] using assms(4) peers by (simp add: substr_def)
qed

lemma sorted_keys_distinct: "md_sorted m \<Longrightarrow> distinct (map fst m)"
proof (induction m)
  case (Cons a m)
  have "fst a \<noteq> fst b" if "b \<in> set m" for b using Cons.prems that by (auto simp: md_sorted_def)
  then show ?case using Cons by (auto simp: md_sorted_def)
qed simp

lemma registry_ids:
  assumes "registry_ok s"
  shows "map pi_id (tracker_peers s) = map fst (ts_peers s)"
  using assms by (auto simp: registry_ok_def tracker_peers_def peer_ok_def)

lemma turn_of_line:
  assumes "ts_running s" and "cn_inbox c = write_line l @ later" and "0x0A \<notin> set l" and "length l < 1024" and "chomp l = l" and "l \<noteq> []"
    and "read_word l = (cmd, args)"
  shows "client_turn now c s = handle_command now cmd args (c\<lparr>cn_inbox := later\<rparr>) s"
proof -
  have "tracker_read_line (cn_inbox c) = (l, False, later)"
    using read_line_whole [of l "[]" 1024 later] assms(2-5) by (simp add: tracker_read_line_def write_line_def)
  then show ?thesis using assms by (simp add: client_turn_def)
qed

text \<open>
  C26: A client's \<^verbatim>\<open>LIST\<close> at the tracker, in any reachable state: the client is given exactly the other peers.
  The count of the reply includes the client itself and the reply ends with an empty line; the two cancel out for
  a client that is registered, whose next read starts at the next reply.  For a client that is not in the registry
  (never registered, timed out, or erased with another connection of its name) the empty line is left unread.
\<close>

theorem tracker_list_exchange:
  assumes "tracker_step\<^sup>*\<^sup>* tracker_start w" and "tw_conns w fd = Some c" and "cn_inbox c = write_line (str ''LIST'') @ later"
    and "ts_running (tw_server w)" and "length (ts_peers (tw_server w)) < 2 ^ 31" and "tc_connected t"
    and "\<forall>p\<in>set (tracker_peers (tw_server w)). is_word (pi_public_address p) \<and> length (pi_public_address p) < 1024"
  shows "\<exists>out s'. client_turn now c (tw_server w) = ((c\<lparr>cn_inbox := later, cn_outbox := cn_outbox c @ out\<rparr>, s'), True) \<and>
    list_peers True t (out @ rest) =
      (Inr (map public_view (filter (\<lambda>p. pi_id p \<noteq> cn_peer_id c) (tracker_peers (tw_server w)))), t,
       if cn_peer_id c \<in> fst ` set (ts_peers (tw_server w)) then rest else 0x0A # rest)"
proof -
  let ?s = "tw_server w" and ?seen = "\<lambda>p. p\<lparr>pi_last_seen := now\<rparr>"
  have reg: "registry_ok ?s" using tracker_inv_steps [OF assms(1)] by (simp add: tracker_inv_def)
  define ps where "ps = map ?seen (tracker_peers ?s)"
  have ps: "map snd (map (\<lambda>(k, p). (k, ?seen p)) (ts_peers ?s)) = ps" by (auto simp: ps_def tracker_peers_def)
  have "\<forall>p\<in>set ps. listable p"
    using reg assms(7) by (auto simp: ps_def tracker_peers_def listable_def registry_ok_def peer_ok_def)
  moreover have ids: "map pi_id ps = map fst (ts_peers ?s)" using registry_ids [OF reg] by (simp add: ps_def comp_def)
  moreover have "distinct (map pi_id ps)" using sorted_keys_distinct [of "ts_peers ?s"] reg unfolding ids registry_ok_def by blast
  ultimately have read: "list_peers True t (write_line (list_response (cn_peer_id c) ps) @ rest) =
      (Inr (map public_view (filter (\<lambda>p. pi_id p \<noteq> cn_peer_id c) ps)), t,
       if cn_peer_id c \<in> pi_id ` set ps then rest else 0x0A # rest)"
    using assms(5,6) by (intro list_peers_reads) (auto simp: ps_def tracker_peers_def)
  have views: "map public_view (filter (\<lambda>p. pi_id p \<noteq> cn_peer_id c) ps) =
      map public_view (filter (\<lambda>p. pi_id p \<noteq> cn_peer_id c) (tracker_peers ?s))"
    by (simp add: ps_def filter_map comp_def public_view_def)
  have keys: "pi_id ` set ps = fst ` set (ts_peers ?s)" using ids by (metis list.set_map)
  have "read_word (str ''LIST'') = (str ''LIST'', [])" by code_simp
  from turn_of_line [OF assms(4,3) _ _ _ _ this, of now]
  have "client_turn now c ?s = handle_command now (str ''LIST'') [] (c\<lparr>cn_inbox := later\<rparr>) ?s" by (simp add: chomp_def)
  then have "client_turn now c ?s = ((c\<lparr>cn_inbox := later, cn_outbox := cn_outbox c @ write_line (list_response (cn_peer_id c) ps)\<rparr>,
      ?s\<lparr>ts_peers := map (\<lambda>(k, p). (k, ?seen p)) (ts_peers ?s)\<rparr>), True)"
    by (simp add: handle_command_def cmd_list_def reply_def ps [simplified] Let_def)
  then show ?thesis using read unfolding views keys by blast
qed

section \<open>Registration\<close>

lemma register_words:
  assumes "is_word pid"
  shows "read_word (register_line pid port) = (str ''REGISTER'', str '' '' @ pid @ str '' '' @ nat_to_string (unat port))"
    and "read_word (str '' '' @ pid @ str '' '' @ nat_to_string (unat port)) = (pid, str '' '' @ nat_to_string (unat port))"
    and "read_u16 (str '' '' @ nat_to_string (unat port)) = (port, Some [])"
proof -
  have reg: "\<forall>c\<in>set (str ''REGISTER''). \<not> is_space c" by code_simp
  show "read_word (register_line pid port) = (str ''REGISTER'', str '' '' @ pid @ str '' '' @ nat_to_string (unat port))"
    using read_word_word [OF _ reg, of "str '' '' @ pid @ str '' '' @ nat_to_string (unat port)" "[]"] by (simp add: register_line_def)
  show "read_word (str '' '' @ pid @ str '' '' @ nat_to_string (unat port)) = (pid, str '' '' @ nat_to_string (unat port))"
    using read_word_word [of pid "str '' '' @ nat_to_string (unat port)" "str '' ''"] assms by (simp add: is_word_def)
  show "read_u16 (str '' '' @ nat_to_string (unat port)) = (port, Some [])"
    using read_u16_nat_to_string [of "unat port" "[]" "str '' ''"] port_bound [of port] by simp
qed

lemma read_u16_nil: "read_u16 [] = (0, None)"
  by (simp add: read_u16_def read_sign_def)

definition new_peer :: "int \<Rightarrow> bytes \<Rightarrow> u16 \<Rightarrow> tracker_conn \<Rightarrow> peer_info" where
  "new_peer now pid port c = \<lparr>pi_id = pid, pi_public_address = cn_ip c, pi_udp_port = port, pi_tcp_port = 0, pi_last_seen = now\<rparr>"

definition register_reply :: "tracker_conn \<Rightarrow> bytes" where
  "register_reply c = str ''OK '' @ cn_ip c @ str '':'' @ nat_to_string (unat (cn_port c))"

lemma register_turn:
  assumes "ts_running s" and "cn_inbox c = write_line (register_line pid port) @ later" and "is_word pid"
    and "length pid < 1000" and "port \<noteq> 0"
  shows "client_turn now c s =
    ((c\<lparr>cn_inbox := later, cn_peer_id := pid, cn_outbox := cn_outbox c @ write_line (register_reply c)\<rparr>,
      s\<lparr>ts_peers := md_put pid (new_peer now pid port c) (ts_peers s),
        ts_connection_peers := (ts_connection_peers s)(cn_fd c \<mapsto> pid)\<rparr>), True)"
proof -
  have nl: "0x0A \<notin> set (register_line pid port)"
    using is_word_no_newline [OF assms(3)] nat_string_no_newline(1) by (simp add: register_line_def)
  have len: "length (register_line pid port) < 1024" using assms(4) port_string_length [of port] by (simp add: register_line_def)
  have ch: "chomp (register_line pid port) = register_line pid port"
    using chomp_nat_string [of "str ''REGISTER '' @ pid @ str '' ''"] by (simp add: register_line_def)
  have ne: "register_line pid port \<noteq> []" by (simp add: register_line_def)
  have pid: "pid \<noteq> []" using assms(3) by (simp add: is_word_def)
  have "cmd_register now (str '' '' @ pid @ str '' '' @ nat_to_string (unat port)) (c\<lparr>cn_inbox := later\<rparr>) s =
    (c\<lparr>cn_inbox := later, cn_peer_id := pid, cn_outbox := cn_outbox c @ write_line (register_reply c)\<rparr>,
     s\<lparr>ts_peers := md_put pid (new_peer now pid port c) (ts_peers s), ts_connection_peers := (ts_connection_peers s)(cn_fd c \<mapsto> pid)\<rparr>)"
    using pid assms(5) register_words(2,3) [OF assms(3), of port] by (simp add: cmd_register_def read_u16_nil reply_def new_peer_def register_reply_def del: str_simps)
  then show ?thesis
    unfolding turn_of_line [OF assms(1,2) nl len ch ne register_words(1) [OF assms(3)]]
    by (simp add: handle_command_def)
qed

text \<open>
  C34: Registering: the client's \<^verbatim>\<open>connect\<close> against the tracker enters the peer with the address the tracker sees and the
  port the client names, replacing an entry of that name, leaves all other entries as they are, and returns the
  endpoint.
\<close>

theorem tracker_register_exchange:
  assumes "tracker_step\<^sup>*\<^sup>* tracker_start w" and "ts_running (tw_server w)" and "tw_conns w fd = Some c"
    and "cn_inbox c = write_line (register_line pid port) @ later" and "is_word pid" and "length pid < 1000" and "port \<noteq> 0"
    and "is_word (cn_ip c)" and "length (cn_ip c) < 1000"
  shows "\<exists>out s'. client_turn now c (tw_server w) = ((c\<lparr>cn_inbox := later, cn_peer_id := pid, cn_outbox := cn_outbox c @ out\<rparr>, s'), True) \<and>
    map_of (ts_peers s') = (map_of (ts_peers (tw_server w)))(pid \<mapsto> new_peer now pid port c) \<and>
    tracker_connect True True pid t (out @ rest) =
      (True, t\<lparr>tc_my_id := pid, tc_public_endpoint := cn_ip c @ str '':'' @ nat_to_string (unat (cn_port c)), tc_connected := True\<rparr>, rest)"
proof -
  have sorted: "md_sorted (ts_peers (tw_server w))"
    using tracker_inv_steps [OF assms(1)] by (simp add: tracker_inv_def registry_ok_def)
  have nl: "0x0A \<notin> set (register_reply c)"
    using is_word_no_newline [OF assms(8)] nat_string_no_newline(1) by (simp add: register_reply_def)
  have len: "length (register_reply c) < 4096" using assms(9) port_string_length [of "cn_port c"] by (simp add: register_reply_def)
  have ch: "chomp (register_reply c) = register_reply c"
    using chomp_nat_string [of "str ''OK '' @ cn_ip c @ str '':''"] by (simp add: register_reply_def)
  have "client_read_line (t\<lparr>tc_my_id := pid\<rparr>) (write_line (register_reply c) @ rest) = (register_reply c, t\<lparr>tc_my_id := pid\<rparr>, rest)"
    using client_reads_line [OF nl len ch] by (simp add: write_line_def)
  then have "tracker_connect True True pid t (write_line (register_reply c) @ rest) =
      (True, t\<lparr>tc_my_id := pid, tc_public_endpoint := cn_ip c @ str '':'' @ nat_to_string (unat (cn_port c)), tc_connected := True\<rparr>, rest)"
    by (simp add: tracker_connect_def register_reply_def substr_def)
  then show ?thesis
    using register_turn [OF assms(2,4,5,6,7), of now] map_of_md_put [OF sorted] by fastforce
qed

section \<open>Witnesses\<close>

definition alice_conn :: tracker_conn where
  "alice_conn = \<lparr>cn_fd = 3, cn_ip = str ''10.0.0.1'', cn_port = 9, cn_peer_id = [],
     cn_inbox = write_line (register_line (str ''alice'') 8001) @ write_line (str ''LIST''), cn_outbox = []\<rparr>"

definition alice_there :: tracker_world where
  "alice_there = tracker_start\<lparr>tw_conns := [3 \<mapsto> alice_conn]\<rparr>"

definition alice_registered :: tracker_world where
  "alice_registered =
     \<lparr>tw_server = \<lparr>ts_peers = [(str ''alice'', new_peer 5 (str ''alice'') 8001 alice_conn)],
        ts_connection_peers = [3 \<mapsto> str ''alice''], ts_peer_timeout = 60, ts_running = True\<rparr>,
      tw_conns = [3 \<mapsto> alice_conn\<lparr>cn_inbox := write_line (str ''LIST''), cn_peer_id := str ''alice'',
        cn_outbox := write_line (register_reply alice_conn)\<rparr>]\<rparr>"

lemma alice_there_reached: "tracker_step\<^sup>*\<^sup>* tracker_start alice_there"
  unfolding alice_there_def
  using step_accept [of tracker_start 3 alice_conn] by (simp add: tracker_start_def alice_conn_def r_into_rtranclp)

lemma word_facts: "is_word (str ''alice'')" "is_word (str ''10.0.0.1'')"
  unfolding is_word_def by code_simp+

lemma alice_registered_reached: "tracker_step\<^sup>*\<^sup>* tracker_start alice_registered"
proof -
  have "client_turn 5 alice_conn (tw_server alice_there) =
    ((alice_conn\<lparr>cn_inbox := write_line (str ''LIST''), cn_peer_id := str ''alice'',
        cn_outbox := cn_outbox alice_conn @ write_line (register_reply alice_conn)\<rparr>,
      (tw_server alice_there)\<lparr>ts_peers := md_put (str ''alice'') (new_peer 5 (str ''alice'') 8001 alice_conn) (ts_peers (tw_server alice_there)),
        ts_connection_peers := (ts_connection_peers (tw_server alice_there))(cn_fd alice_conn \<mapsto> str ''alice'')\<rparr>), True)"
    by (rule register_turn) (simp_all add: alice_there_def alice_conn_def tracker_start_def word_facts del: str_simps)
  then have "tracker_step alice_there alice_registered"
    using step_turn [of alice_there 3 alice_conn 5]
    by (simp add: alice_there_def alice_registered_def tracker_start_def alice_conn_def del: str_simps)
  then show ?thesis using alice_there_reached by (rule rtranclp.rtrancl_into_rtrancl [rotated])
qed

theorem tracker_register_exchange_witness:
  "\<exists>out s'. client_turn 5 alice_conn (tw_server alice_there) =
      ((alice_conn\<lparr>cn_inbox := write_line (str ''LIST''), cn_peer_id := str ''alice'', cn_outbox := cn_outbox alice_conn @ out\<rparr>, s'), True) \<and>
    map_of (ts_peers s') = [str ''alice'' \<mapsto> new_peer 5 (str ''alice'') 8001 alice_conn]"
  using tracker_register_exchange [OF alice_there_reached, of 3 alice_conn "str ''alice''" 8001 "write_line (str ''LIST'')" 5 undefined "[]"] word_facts
  by (fastforce simp: alice_there_def alice_conn_def tracker_start_def simp del: str_simps)

theorem tracker_list_exchange_witness:
  "\<exists>out s'. client_turn 6 (the (tw_conns alice_registered 3)) (tw_server alice_registered) =
      (((the (tw_conns alice_registered 3))\<lparr>cn_inbox := [], cn_outbox := cn_outbox (the (tw_conns alice_registered 3)) @ out\<rparr>, s'), True) \<and>
    fst (list_peers True \<lparr>tc_my_id = str ''alice'', tc_public_endpoint = [], tc_connected = True\<rparr> (out @ [])) = Inr []"
proof -
  have "tw_conns alice_registered 3 = Some (the (tw_conns alice_registered 3))" by (simp add: alice_registered_def)
  from tracker_list_exchange [OF alice_registered_reached this, of "[]" "\<lparr>tc_my_id = str ''alice'', tc_public_endpoint = [], tc_connected = True\<rparr>" 6 "[]"]
  show ?thesis using word_facts(2)
    by (fastforce simp: alice_registered_def tracker_peers_def new_peer_def alice_conn_def simp del: str_simps)
qed

section \<open>What the tracker does not keep apart\<close>

text \<open>A \<^verbatim>\<open>LIST\<close> of anybody renews every registration: no clean-up within the timeout removes a peer, gone or not.\<close>

lemma list_renews_everyone:
  assumes "now' - now \<le> ts_peer_timeout s"
  shows "ts_peers (cleanup_stale_peers now' (snd (cmd_list now c s))) = ts_peers (snd (cmd_list now c s))"
  using assms by (auto simp: cleanup_stale_peers_def cmd_list_def Let_def intro!: filter_True)

text \<open>
  The end of a connection removes the name it registered, whoever holds it by then; a name the connection had
  registered before under another identifier stays.
\<close>

lemma disconnect_removes_name:
  assumes "cn_peer_id c \<noteq> []"
  shows "map_of (ts_peers (disconnect_peer c s)) = (map_of (ts_peers s))(cn_peer_id c := None)"
proof -
  have "map_of (filter (\<lambda>(k, p). k \<noteq> x) m) = (map_of m)(x := None)" for x :: bytes and m :: "(bytes \<times> peer_info) list"
    by (induction m) (auto simp: fun_eq_iff)
  then show ?thesis using assms by (simp add: disconnect_peer_def)
qed

text \<open>The empty line left by a \<^verbatim>\<open>LIST\<close> is taken for the answer to the next \<^verbatim>\<open>PING\<close>.\<close>

lemma stray_line_fails_ping:
  assumes "tc_connected t"
  shows "tracker_ping True t (0x0A # write_line (str ''PONG'') @ rest) = (False, t, write_line (str ''PONG'') @ rest)"
  using assms by (simp add: tracker_ping_def client_read_line_def chomp_def)

section \<open>Messages between peers\<close>

lemma unat_add_5:
  assumes "unat (n :: u32) < 2 ^ 32 - 5"
  shows "unat (5 + n) = 5 + unat n"
  using assms by (subst unat_plus_if') simp

lemma serialize_shape:
  "serialize m @ rest = pm_type m # byte_at n 24 # byte_at n 16 # byte_at n 8 # byte_at n 0 # pm_payload m @ rest"
  if "n = (of_nat (length (pm_payload m)) :: u32)"
  using that by (simp add: serialize_def be32_def)

lemma deserialize_serialize:
  assumes "length (pm_payload m) < 2 ^ 32 - 5"
  shows "deserialize (serialize m @ rest) = Inr (Some m)"
proof -
  let ?n = "of_nat (length (pm_payload m)) :: u32"
  have n: "unat ?n = length (pm_payload m)" using assms by (simp add: unat_of_nat take_bit_nat_eq_self)
  then have "unat (5 + ?n) = 5 + length (pm_payload m)" using unat_add_5 [of ?n] assms by simp
  then show ?thesis using n unfolding serialize_shape [OF refl] by (simp add: deserialize_def Let_def)
qed

definition payload_length :: "bytes \<Rightarrow> u32" where
  "payload_length d = ld32 (d ! 1) (d ! 2) (d ! 3) (d ! 4)"

text \<open>
  C35: A frame is read back as it was written, whatever follows it in the buffer.  A datagram makes the parser read
  outside its buffer exactly when it has a header whose length field is one of the last five of 32 bits, so that
  the sum with the header's size wraps around, and not shorter than the wrapped sum.
\<close>

theorem peer_message_frames:
  assumes "length (pm_payload m) < 2 ^ 32 - 5" and "length d \<le> 65536"
  shows "deserialize (serialize m @ rest) = Inr (Some m) \<and>
    (deserialize d = Inl Undefined_Behaviour \<longleftrightarrow>
      5 \<le> length d \<and> 2 ^ 32 - 5 \<le> unat (payload_length d) \<and> unat (payload_length d) - (2 ^ 32 - 5) \<le> length d)"
proof
  show "deserialize (serialize m @ rest) = Inr (Some m)" using deserialize_serialize [OF assms(1)] .
  let ?n = "payload_length d"
  have lt: "unat ?n < 2 ^ 32"
  proof -
    have "unat ?n < 2 ^ LENGTH(32)" by (rule unsigned_less)
    then show ?thesis by simp
  qed
  show "deserialize d = Inl Undefined_Behaviour \<longleftrightarrow>
      5 \<le> length d \<and> 2 ^ 32 - 5 \<le> unat ?n \<and> unat ?n - (2 ^ 32 - 5) \<le> length d"
  proof (cases "unat ?n < 2 ^ 32 - 5")
    case True
    then have "unat (5 + ?n) = 5 + unat ?n" by (rule unat_add_5)
    then show ?thesis using True by (auto simp: deserialize_def payload_length_def Let_def)
  next
    case False
    then have "unat (5 + ?n) = unat ?n - (2 ^ 32 - 5)" using lt by (subst unat_plus_if') simp
    moreover have "length d < 5 + unat ?n" using False assms(2) by simp
    ultimately show ?thesis using False by (auto simp: deserialize_def payload_length_def Let_def)
  qed
qed

theorem peer_message_frames_witness:
  "deserialize (serialize (make_data (str ''hi'')) @ [1]) = Inr (Some (make_data (str ''hi''))) \<and>
   deserialize [4, 0xFF, 0xFF, 0xFF, 0xFC, 7] = Inl Undefined_Behaviour"
proof -
  let ?d = "[4, 0xFF, 0xFF, 0xFF, 0xFC, 7] :: bytes"
  have "payload_length ?d = 0xFFFFFFFC" by code_simp
  then have n: "unat (payload_length ?d) = 0xFFFFFFFC" by simp
  have both: "deserialize (serialize (make_data (str ''hi'')) @ [1]) = Inr (Some (make_data (str ''hi''))) \<and>
    (deserialize ?d = Inl Undefined_Behaviour \<longleftrightarrow>
      5 \<le> length ?d \<and> 2 ^ 32 - 5 \<le> unat (payload_length ?d) \<and> unat (payload_length ?d) - (2 ^ 32 - 5) \<le> length ?d)"
    by (rule peer_message_frames) (simp_all add: make_data_def)
  have "5 \<le> length ?d \<and> 2 ^ 32 - 5 \<le> unat (payload_length ?d) \<and> unat (payload_length ?d) - (2 ^ 32 - 5) \<le> length ?d"
    unfolding n by simp
  then show ?thesis using both by blast
qed

section \<open>Peer connection\<close>

record peer_connection =
  pc_connected :: bool
  pc_dtls :: bool
  pc_socket_fd :: int
  pc_remote :: peer_info

text \<open>One result of \<^verbatim>\<open>dtls_->handshake_step\<close>: done, waiting for the socket (ready or not, deadline passed or not), or failed.\<close>

datatype handshake_round = Handshake_Done | Handshake_Waits bool bool | Handshake_Fails

fun handshake_loop :: "handshake_round list \<Rightarrow> bool option" where
  "handshake_loop [] = None"
| "handshake_loop (Handshake_Done # rs) = Some True"
| "handshake_loop (Handshake_Waits ready late # rs) = (if \<not> ready \<and> late then Some False else handshake_loop rs)"
| "handshake_loop (Handshake_Fails # rs) = Some False"

definition do_dtls_handshake :: "bool \<Rightarrow> bool \<Rightarrow> handshake_round list \<Rightarrow> bool option" where
  "do_dtls_handshake is_server peer_set rounds = (if \<not> is_server \<and> \<not> peer_set then Some False else handshake_loop rounds)"

text \<open>\<^verbatim>\<open>connect_to\<close> and \<^verbatim>\<open>accept_from\<close>, which differ in the flag; \<open>fd\<close> is negative when no socket could be made.\<close>

definition establish :: "bool \<Rightarrow> int \<Rightarrow> bool \<Rightarrow> handshake_round list \<Rightarrow> peer_info \<Rightarrow> peer_connection \<Rightarrow> bool option \<times> peer_connection" where
  "establish is_server fd peer_set rounds remote c =
     (let c = c\<lparr>pc_remote := remote\<rparr> in
      if fd < 0 then (Some False, c)
      else let c = c\<lparr>pc_dtls := True\<rparr> in
        case do_dtls_handshake is_server peer_set rounds of
          Some True \<Rightarrow> (Some True, c\<lparr>pc_connected := True, pc_socket_fd := fd\<rparr>)
        | r \<Rightarrow> (r, c))"

text \<open>The results of \<^verbatim>\<open>dtls_->write\<close>, each with what waiting for the socket gives when the result is 0.\<close>

fun send_loop :: "bytes \<Rightarrow> (int \<times> bool) list \<Rightarrow> bool option \<times> bytes" where
  "send_loop [] ws = (Some True, [])"
| "send_loop (b # w) [] = (None, [])"
| "send_loop (b # w) ((n, ready) # ws) =
     (if 0 < n then (let (r, out) = send_loop (drop (nat n) (b # w)) ws in (r, take (nat n) (b # w) @ out))
      else if n = 0 then if ready then send_loop (b # w) ws else (Some False, [])
      else (Some False, []))"

definition peer_send :: "bytes \<Rightarrow> (int \<times> bool) list \<Rightarrow> peer_connection \<Rightarrow> bool option \<times> bytes" where
  "peer_send data ws c =
     (if \<not> pc_connected c \<or> \<not> pc_dtls c then (Some False, []) else send_loop (serialize \<lparr>pm_type = 4, pm_payload = data\<rparr>) ws)"

datatype dtls_read = Dtls_Got bytes | Dtls_Would_Block | Dtls_Failed

text \<open>Whether the socket becomes readable within a minute, and what the read returns then.\<close>

fun peer_receive_loop :: "(bool \<times> dtls_read) list \<Rightarrow> peer_connection \<Rightarrow> peer_message option res option \<times> peer_connection" where
  "peer_receive_loop [] c = (None, c)"
| "peer_receive_loop ((ready, r) # rs) c =
     (if \<not> ready then (Some (Inr None), c\<lparr>pc_connected := False\<rparr>)
      else case r of
        Dtls_Got d \<Rightarrow> (Some (deserialize (take 65536 d)), c)
      | Dtls_Would_Block \<Rightarrow> peer_receive_loop rs c
      | Dtls_Failed \<Rightarrow> (Some (Inr None), c\<lparr>pc_connected := False\<rparr>))"

definition peer_receive :: "(bool \<times> dtls_read) list \<Rightarrow> peer_connection \<Rightarrow> peer_message option res option \<times> peer_connection" where
  "peer_receive rs c = (if \<not> pc_connected c \<or> \<not> pc_dtls c then (Some (Inr None), c) else peer_receive_loop rs c)"

definition peer_close :: "peer_connection \<Rightarrow> peer_connection" where
  "peer_close c = c\<lparr>pc_dtls := False, pc_socket_fd := (if 0 \<le> pc_socket_fd c then - 1 else pc_socket_fd c), pc_connected := False\<rparr>"

lemma send_loop_sent: "send_loop w ws = (Some True, out) \<Longrightarrow> out = w"
proof (induction w ws arbitrary: out rule: send_loop.induct)
  case (3 b w n ready ws)
  then show ?case by (auto split: if_splits prod.splits)
qed auto

lemma peer_receive_loop_waits:
  "peer_receive_loop (replicate k (True, Dtls_Would_Block) @ (True, Dtls_Got d) # rs) c = (Some (deserialize (take 65536 d)), c)"
  by (induction k) auto

text \<open>
  What \<^verbatim>\<open>send\<close> reports as sent is the whole frame, in however many writes, and \<^verbatim>\<open>receive\<close> of the other side returns the
  message when the frame arrives in one datagram.
\<close>

lemma peer_exchange:
  assumes "peer_send data ws c = (Some True, out)" and "length data \<le> 65531" and "pc_connected c'" and "pc_dtls c'"
  shows "peer_receive (replicate k (True, Dtls_Would_Block) @ (True, Dtls_Got out) # rs) c' = (Some (Inr (Some (make_data data))), c')"
proof -
  have "out = serialize (make_data data)"
    using assms(1) send_loop_sent by (auto simp: peer_send_def make_data_def split: if_splits)
  moreover have "take 65536 (serialize (make_data data)) = serialize (make_data data)"
    using assms(2) by (simp add: serialize_def make_data_def)
  moreover have "deserialize (serialize (make_data data)) = Inr (Some (make_data data))"
    using deserialize_serialize [of "make_data data" "[]"] assms(2) by (simp add: make_data_def)
  ultimately show ?thesis using assms(3,4) by (simp add: peer_receive_def peer_receive_loop_waits)
qed

end
